(* ===== verification/Prelude.thy ===== *)
theory Prelude
  imports Main "HOL-Library.Word"
begin

text \<open>
  The shared base of the development: the integer types of the C sources as
  words, the error codes of \<^verbatim>\<open>libcmfs/cmfs_err.et\<close>, the state-and-error
  monad in which the file-system operations are written, and generic lemmas on
  lists, bytes and words that several components use.
\<close>

unbundle bit_operations_syntax

named_theorems io_simps \<open>unfolding rules of the state-and-error monad\<close>
named_theorems buf_simps \<open>loads from and stores into byte buffers\<close>

section \<open>Integer types\<close>

type_synonym u8 = "8 word"
type_synonym u16 = "16 word"
type_synonym u32 = "32 word"
type_synonym u64 = "64 word"
type_synonym bytes = "u8 list"

abbreviation (input) UINT64_MAX :: u64 where "UINT64_MAX \<equiv> 0xFFFFFFFFFFFFFFFF"

section \<open>Error codes\<close>

text \<open>
  \<open>ERRNO\<close> carries an errno value of the C library. \<open>EXIT\<close> is a tool that has reported
  an error and ended the process with \<^verbatim>\<open>exit(1)\<close>. \<open>C_UNDEFINED\<close> is not an
  error code of the program: it marks a run in which the C code would access
  memory outside the buffer it works on (undefined behaviour), so that such a
  run is a visible outcome of the model.
\<close>

datatype errcode =
    CMFS_ET_NAMED_DEVICE_NOT_FOUND
  | CMFS_ET_IO
  | CMFS_ET_CANNOT_DETERMINE_SECTOR_SIZE
  | CMFS_ET_NO_MEMORY
  | CMFS_ET_SHORT_READ
  | CMFS_ET_SHORT_WRITE
  | CMFS_ET_INVALID_ARGUMENT
  | CMFS_ET_INTERNAL_FAILURE
  | CMFS_ET_BAD_GROUP_DESC_MAGIC
  | CMFS_ET_UNEXPECTED_BLOCK_SIZE
  | CMFS_ET_BAD_DEVICE_NAME
  | CMFS_ET_DIR_CORRUPTED
  | CMFS_ET_NO_DIRECTORY
  | CMFS_ET_CORRUPT_SUPERBLOCK
  | CMFS_ET_UNSUPP_FEATURE
  | CMFS_ET_UNSUPP_RO_FEATURE
  | CMFS_ET_CONFLICTING_FEATURES
  | CMFS_ET_BAD_MAGIC
  | CMFS_ET_BAD_INODE_MAGIC
  | CMFS_ET_BAD_BLKNO
  | CMFS_ET_RO_FILESYS
  | CMFS_ET_NO_SPACE
  | CMFS_ET_FILE_NOT_FOUND
  | CMFS_ET_INODE_NOT_VALID
  | CMFS_ET_INODE_CANNOT_BE_ITERATED
  | CMFS_ET_BAD_EXTENT_BLOCK_MAGIC
  | CMFS_ET_CORRUPT_EXTENT_BLOCK
  | CMFS_ET_SYMLINK_LOOP
  | ERRNO nat
  | EXIT
  | C_UNDEFINED

section \<open>State with errors\<close>

text \<open>
  An operation takes the state and returns its error code or its result,
  together with the state it leaves: an error does not undo the changes made
  before it.
\<close>

type_synonym ('s, 'a) io = "'s \<Rightarrow> (errcode + 'a) \<times> 's"

definition ret_io :: "'a \<Rightarrow> ('s, 'a) io" where
  "ret_io x = (\<lambda>s. (Inr x, s))"

definition err_io :: "errcode \<Rightarrow> ('s, 'a) io" where
  "err_io e = (\<lambda>s. (Inl e, s))"

definition bind_io :: "('s, 'a) io \<Rightarrow> ('a \<Rightarrow> ('s, 'b) io) \<Rightarrow> ('s, 'b) io" where
  "bind_io m f = (\<lambda>s. case m s of (Inl e, s') \<Rightarrow> (Inl e, s') | (Inr x, s') \<Rightarrow> f x s')"

definition guard_io :: "bool \<Rightarrow> errcode \<Rightarrow> ('s, unit) io" where
  "guard_io b e = (if b then ret_io () else err_io e)"

definition get_io :: "('s \<Rightarrow> 'a) \<Rightarrow> ('s, 'a) io" where
  "get_io f = (\<lambda>s. (Inr (f s), s))"

definition upd_io :: "('s \<Rightarrow> 's) \<Rightarrow> ('s, unit) io" where
  "upd_io f = (\<lambda>s. (Inr (), f s))"

lemma ret_io_apply [io_simps]: "ret_io x s = (Inr x, s)"
  by (simp add: ret_io_def)

lemma err_io_apply [io_simps]: "err_io e s = (Inl e, s)"
  by (simp add: err_io_def)

lemma bind_io_apply [io_simps]:
  "bind_io m f s = (case m s of (Inl e, s') \<Rightarrow> (Inl e, s') | (Inr x, s') \<Rightarrow> f x s')"
  by (simp add: bind_io_def)

lemma guard_io_apply [io_simps]:
  "guard_io b e s = (if b then (Inr (), s) else (Inl e, s))"
  by (simp add: guard_io_def ret_io_def err_io_def)

lemma get_io_apply [io_simps]: "get_io f s = (Inr (f s), s)"
  by (simp add: get_io_def)

lemma upd_io_apply [io_simps]: "upd_io f s = (Inr (), f s)"
  by (simp add: upd_io_def)

lemma bind_io_Inr: "m s = (Inr x, s') \<Longrightarrow> bind_io m f s = f x s'"
  by (simp add: bind_io_def)

lemma bind_io_Inl: "m s = (Inl e, s') \<Longrightarrow> bind_io m f s = (Inl e, s')"
  by (simp add: bind_io_def)

lemma bind_io_InrE:
  assumes "bind_io m f s = (Inr y, s2)"
  obtains x s1 where "m s = (Inr x, s1)" and "f x s1 = (Inr y, s2)"
  using assms by (auto simp: bind_io_def split: prod.splits sum.splits)

section \<open>Lists\<close>

lemma nth_list_update_swap:
  "i \<noteq> j \<Longrightarrow> xs[i := x, j := y] = xs[j := y, i := x]"
  by (rule list_update_swap)

lemma take_drop_nth:
  assumes "o1 + n \<le> length xs" and "k < n"
  shows "take n (drop o1 xs) ! k = xs ! (o1 + k)"
  using assms by simp

lemma take_add_drop: "take n xs @ take m (drop n xs) = take (n + m) xs"
  by (simp add: take_add)

lemma sum_list_filter_le: "length (filter P xs) \<le> length xs"
  by simp

section \<open>Words\<close>

lemma unat_of_nat_u32: "n < 2 ^ 32 \<Longrightarrow> unat (of_nat n :: u32) = n"
  by (simp add: unat_of_nat take_bit_nat_eq_self)

lemma unat_of_nat_u64: "n < 2 ^ 64 \<Longrightarrow> unat (of_nat n :: u64) = n"
  by (simp add: unat_of_nat take_bit_nat_eq_self)

lemma unat_of_nat_u16: "n < 2 ^ 16 \<Longrightarrow> unat (of_nat n :: u16) = n"
  by (simp add: unat_of_nat take_bit_nat_eq_self)

lemma unat_u8_less: "unat (x :: u8) < 256"
  and unat_u16_less: "unat (y :: u16) < 65536"
  and unat_u32_less: "unat (z :: u32) < 4294967296"
  and unat_u64_less: "unat (w :: u64) < 18446744073709551616"
proof -
  show "unat x < 256" by (rule order_less_le_trans [OF unsigned_less]) simp
  show "unat y < 65536" by (rule order_less_le_trans [OF unsigned_less]) simp
  show "unat z < 4294967296" by (rule order_less_le_trans [OF unsigned_less]) simp
  show "unat w < 18446744073709551616" by (rule order_less_le_trans [OF unsigned_less]) simp
qed

lemma unat_drop_bit: "unat (drop_bit n (w :: 'a::len word)) = unat w div 2 ^ n"
  by (simp only: unsigned_drop_bit_eq drop_bit_eq_div [where 'a = nat] take_bit_nat_eq_self unsigned_less)

lemma unat_ucast_u64: "unat (ucast (x :: u32) :: u64) = unat x"
  by (simp add: unsigned_ucast_eq take_bit_nat_eq_self order_less_trans [OF unat_u32_less])

lemma nat_and_7: "n AND 7 = (n::nat) mod 8"
  using take_bit_eq_mask [of 3 n] by (simp add: take_bit_eq_mod mask_eq_exp_minus_1)

lemma nat_drop_bit_3: "drop_bit 3 n = (n::nat) div 8"
  by (simp add: drop_bit_eq_div)

lemma nat_push_bit_3: "push_bit 3 n = 8 * (n::nat)"
  by (simp add: push_bit_eq_mult)

lemma and_or_eq_0:
  fixes x a b :: "'a::len word"
  shows "x AND (a OR b) = 0 \<longleftrightarrow> x AND a = 0 \<and> x AND b = 0"
  by (auto simp: bit_eq_iff bit_simps)

lemma and_power_iff_bit:
  fixes x :: "'a::len word"
  assumes "n < LENGTH('a)"
  shows "(2 ^ n AND x) \<noteq> 0 \<longleftrightarrow> bit x n"
proof
  assume "bit x n"
  then have "bit (2 ^ n AND x) n" using assms by (simp add: bit_simps)
  then show "(2 ^ n AND x) \<noteq> 0" by auto
next
  assume "(2 ^ n AND x) \<noteq> 0"
  then obtain k where "bit (2 ^ n AND x) k" by (auto simp: bit_eq_iff)
  then show "bit x n" by (auto simp: bit_simps)
qed

lemma and_one_iff_bit: "x AND 1 \<noteq> 0 \<longleftrightarrow> bit (x :: 'a::len word) 0"
  using and_power_iff_bit [of 0 x] by (simp add: and.commute)

end
