(* ===== verification/Rbtree.thy ===== *)
theory Rbtree
  imports Prelude
begin

text \<open>
  The red-black trees of \<^verbatim>\<open>libcmfs/kernel-rbtree.c\<close>. A node pointer of the C code,
  with the parent pointers that lead from it to the root, is a subtree together
  with its path: the list of the frames above it, the parent first. \<open>None\<close> stands
  for a null dereference. The lemmas show that insertion and removal keep the
  sequence of the entries and the red-black invariants, and that no null pointer is
  followed in a tree that satisfies them.
\<close>

section \<open>Nodes, paths and rotations\<close>

datatype rb_color = RB_RED | RB_BLACK

datatype 'a rb_node = NULL
  | Node (rb_color: rb_color) (rb_left: "'a rb_node") (rb_item: 'a) (rb_right: "'a rb_node")

datatype 'a frame =
    InLeft (f_color: rb_color) (f_item: 'a) (f_sib: "'a rb_node")
  | InRight (f_color: rb_color) (f_sib: "'a rb_node") (f_item: 'a)

type_synonym 'a cursor = "'a rb_node \<times> 'a frame list"

fun plug :: "'a rb_node \<Rightarrow> 'a frame \<Rightarrow> 'a rb_node" where
  "plug t (InLeft c a r) = Node c t a r"
| "plug t (InRight c l a) = Node c l a t"

fun root_of :: "'a rb_node \<Rightarrow> 'a frame list \<Rightarrow> 'a rb_node" where
  "root_of t [] = t"
| "root_of t (f # p) = root_of (plug t f) p"

fun set_color :: "rb_color \<Rightarrow> 'a rb_node \<Rightarrow> 'a rb_node" where
  "set_color c NULL = NULL"
| "set_color c (Node _ l a r) = Node c l a r"

fun is_red :: "'a rb_node \<Rightarrow> bool" where
  "is_red NULL = False"
| "is_red (Node c l a r) = (c = RB_RED)"

fun rb_rotate_left :: "'a rb_node \<Rightarrow> 'a rb_node option" where
  "rb_rotate_left (Node c l a (Node c2 l2 a2 r2)) = Some (Node c2 (Node c l a l2) a2 r2)"
| "rb_rotate_left _ = None"

fun rb_rotate_right :: "'a rb_node \<Rightarrow> 'a rb_node option" where
  "rb_rotate_right (Node c (Node c2 l2 a2 r2) a r) = Some (Node c2 l2 a2 (Node c r2 a r))"
| "rb_rotate_right _ = None"

section \<open>Insertion\<close>

text \<open>\<open>rb_link_node\<close> makes a red leaf; \<open>rb_insert_color\<close> rebalances from it upwards.\<close>

definition rb_link_node :: "'a \<Rightarrow> 'a rb_node" where
  "rb_link_node a = Node RB_RED NULL a NULL"

fun rb_insert_color :: "'a rb_node \<Rightarrow> 'a frame list \<Rightarrow> 'a rb_node option" where
  "rb_insert_color node [] = Some (set_color RB_BLACK node)"
| "rb_insert_color node [parent] =
     (if f_color parent = RB_RED then None
      else Some (set_color RB_BLACK (root_of node [parent])))"
| "rb_insert_color node (parent # gparent # rest) =
     (if f_color parent \<noteq> RB_RED
      then Some (set_color RB_BLACK (root_of node (parent # gparent # rest)))
      else case gparent of
        InLeft gc ga uncle \<Rightarrow>
          if is_red uncle
          then rb_insert_color
                 (Node RB_RED (set_color RB_BLACK (plug node parent)) ga (set_color RB_BLACK uncle)) rest
          else Option.bind
                 (case parent of InRight _ _ _ \<Rightarrow> rb_rotate_left (plug node parent)
                               | InLeft _ _ _ \<Rightarrow> Some (plug node parent))
                 (\<lambda>p. Option.bind
                   (rb_rotate_right (Node RB_RED (set_color RB_BLACK p) ga uncle))
                   (\<lambda>t. Some (set_color RB_BLACK (root_of t rest))))
      | InRight gc uncle ga \<Rightarrow>
          if is_red uncle
          then rb_insert_color
                 (Node RB_RED (set_color RB_BLACK uncle) ga (set_color RB_BLACK (plug node parent))) rest
          else Option.bind
                 (case parent of InLeft _ _ _ \<Rightarrow> rb_rotate_right (plug node parent)
                               | InRight _ _ _ \<Rightarrow> Some (plug node parent))
                 (\<lambda>p. Option.bind
                   (rb_rotate_left (Node RB_RED uncle ga (set_color RB_BLACK p)))
                   (\<lambda>t. Some (set_color RB_BLACK (root_of t rest)))))"

section \<open>Removal\<close>

text \<open>
  One turn of the loop of \<open>rb_erase_color\<close> at a black or absent \<open>node\<close> whose parent
  has colour \<open>pc\<close>, item \<open>pa\<close> and the other child \<open>other\<close>: either the loop goes on
  from the parent (\<open>Inl\<close> the parent's subtree and the frames put back above it), or
  it ends (\<open>Inr\<close> the subtree that takes the parent's place). \<open>erase_left\<close> is the
  turn for \<^verbatim>\<open>parent->rb_left == node\<close>, with a sibling that is already black.
\<close>

fun erase_left_end :: "'a rb_node \<Rightarrow> rb_color \<Rightarrow> 'a \<Rightarrow> 'a rb_node \<Rightarrow> 'a rb_node option" where
  "erase_left_end node pc pa NULL = None"
| "erase_left_end node pc pa (Node oc ol oa orr) =
     rb_rotate_left (Node RB_BLACK node pa (Node pc ol oa (set_color RB_BLACK orr)))"

definition erase_left ::
  "'a rb_node \<Rightarrow> rb_color \<Rightarrow> 'a \<Rightarrow> 'a rb_node \<Rightarrow> ('a rb_node + 'a rb_node) option" where
  "erase_left node pc pa other =
     (case other of NULL \<Rightarrow> None
      | Node oc ol oa orr \<Rightarrow>
          if \<not> is_red ol \<and> \<not> is_red orr
          then Some (Inl (Node pc node pa (Node RB_RED ol oa orr)))
          else map_option Inr (Option.bind
                 (if \<not> is_red orr then rb_rotate_right (Node RB_RED (set_color RB_BLACK ol) oa orr)
                  else Some other)
                 (erase_left_end node pc pa)))"

fun erase_right_end :: "'a rb_node \<Rightarrow> rb_color \<Rightarrow> 'a \<Rightarrow> 'a rb_node \<Rightarrow> 'a rb_node option" where
  "erase_right_end node pc pa NULL = None"
| "erase_right_end node pc pa (Node oc ol oa orr) =
     rb_rotate_right (Node RB_BLACK (Node pc (set_color RB_BLACK ol) oa orr) pa node)"

definition erase_right ::
  "'a rb_node \<Rightarrow> rb_color \<Rightarrow> 'a \<Rightarrow> 'a rb_node \<Rightarrow> ('a rb_node + 'a rb_node) option" where
  "erase_right node pc pa other =
     (case other of NULL \<Rightarrow> None
      | Node oc ol oa orr \<Rightarrow>
          if \<not> is_red ol \<and> \<not> is_red orr
          then Some (Inl (Node pc (Node RB_RED ol oa orr) pa node))
          else map_option Inr (Option.bind
                 (if \<not> is_red ol then rb_rotate_left (Node RB_RED ol oa (set_color RB_BLACK orr))
                  else Some other)
                 (erase_right_end node pc pa)))"

text \<open>
  The whole turn: a red sibling is first rotated above the parent, which becomes
  red, so that the frame of the old sibling comes above the parent.
\<close>

fun erase_turn ::
  "'a rb_node \<Rightarrow> 'a frame \<Rightarrow> (('a rb_node + 'a rb_node) \<times> 'a frame list) option" where
  "erase_turn node (InLeft pc pa other) =
     (case other of NULL \<Rightarrow> None
      | Node RB_RED ol oa orr \<Rightarrow>
          map_option (\<lambda>r. (r, [InLeft RB_BLACK oa orr])) (erase_left node RB_RED pa ol)
      | _ \<Rightarrow> map_option (\<lambda>r. (r, [])) (erase_left node pc pa other))"
| "erase_turn node (InRight pc other pa) =
     (case other of NULL \<Rightarrow> None
      | Node RB_RED ol oa orr \<Rightarrow>
          map_option (\<lambda>r. (r, [InRight RB_BLACK ol oa])) (erase_right node RB_RED pa orr)
      | _ \<Rightarrow> map_option (\<lambda>r. (r, [])) (erase_right node pc pa other))"

lemma erase_left_Inl: "erase_left node pc pa other = Some (Inl t) \<Longrightarrow> is_red t = (pc = RB_RED)"
  by (auto simp: erase_left_def bind_eq_Some_conv split: rb_node.splits if_splits)

lemma erase_right_Inl: "erase_right node pc pa other = Some (Inl t) \<Longrightarrow> is_red t = (pc = RB_RED)"
  by (auto simp: erase_right_def bind_eq_Some_conv split: rb_node.splits if_splits)

lemma erase_turn_Inl:
  "erase_turn node f = Some (Inl t, fs) \<Longrightarrow> fs = [] \<or> length fs = 1 \<and> is_red t"
  by (cases f) (auto split: rb_node.splits rb_color.splits dest: erase_left_Inl erase_right_Inl)

function rb_erase_color :: "'a rb_node \<Rightarrow> 'a frame list \<Rightarrow> 'a rb_node option" where
  "rb_erase_color node path =
     (if is_red node then Some (root_of (set_color RB_BLACK node) path)
      else case path of
        [] \<Rightarrow> Some (set_color RB_BLACK node)
      | f # rest \<Rightarrow>
          (case erase_turn node f of
             None \<Rightarrow> None
           | Some (Inl t, fs) \<Rightarrow> rb_erase_color t (fs @ rest)
           | Some (Inr t, fs) \<Rightarrow> Some (set_color RB_BLACK (root_of t (fs @ rest)))))"
  by pat_completeness auto
termination
  by (relation "measure (\<lambda>(t, p). 2 * length p + (if is_red t then 0 else 1))")
    (auto dest!: erase_turn_Inl)

declare rb_erase_color.simps [simp del]

text \<open>The walk to the leftmost node of a subtree, with the frames passed on the way.\<close>

fun go_left :: "'a rb_node \<Rightarrow> 'a frame list \<Rightarrow> 'a cursor" where
  "go_left (Node c (Node c2 l2 a2 r2) a r) p = go_left (Node c2 l2 a2 r2) (InLeft c a r # p)"
| "go_left t p = (t, p)"

fun go_right :: "'a rb_node \<Rightarrow> 'a frame list \<Rightarrow> 'a cursor" where
  "go_right (Node c l a (Node c2 l2 a2 r2)) p = go_right (Node c2 l2 a2 r2) (InRight c l a # p)"
| "go_right t p = (t, p)"

definition rb_erase :: "'a cursor \<Rightarrow> 'a rb_node option" where
  "rb_erase cur =
     (case cur of
        (NULL, path) \<Rightarrow> None
      | (Node c l a r, path) \<Rightarrow>
          if l = NULL then
            (if c = RB_BLACK then rb_erase_color r path else Some (root_of r path))
          else if r = NULL then
            (if c = RB_BLACK then rb_erase_color l path else Some (root_of l path))
          else
            (case go_left r [] of
               (NULL, q) \<Rightarrow> None
             | (Node sc sl sa child, q) \<Rightarrow>
                 let path = q @ InRight c l sa # path
                 in if sc = RB_BLACK then rb_erase_color child path
                    else Some (root_of child path)))"

section \<open>Walking the tree\<close>

definition rb_first :: "'a rb_node \<Rightarrow> 'a cursor option" where
  "rb_first root = (if root = NULL then None else Some (go_left root []))"

definition rb_last :: "'a rb_node \<Rightarrow> 'a cursor option" where
  "rb_last root = (if root = NULL then None else Some (go_right root []))"

fun up_from_right :: "'a cursor \<Rightarrow> 'a cursor option" where
  "up_from_right (t, []) = None"
| "up_from_right (t, InRight c l a # p) = up_from_right (Node c l a t, p)"
| "up_from_right (t, InLeft c a r # p) = Some (Node c t a r, p)"

fun up_from_left :: "'a cursor \<Rightarrow> 'a cursor option" where
  "up_from_left (t, []) = None"
| "up_from_left (t, InLeft c a r # p) = up_from_left (Node c t a r, p)"
| "up_from_left (t, InRight c l a # p) = Some (Node c l a t, p)"

fun rb_next :: "'a cursor \<Rightarrow> 'a cursor option" where
  "rb_next (NULL, p) = None"
| "rb_next (Node c l a r, p) =
     (if r \<noteq> NULL then Some (go_left r (InRight c l a # p))
      else up_from_right (Node c l a r, p))"

fun rb_prev :: "'a cursor \<Rightarrow> 'a cursor option" where
  "rb_prev (NULL, p) = None"
| "rb_prev (Node c l a r, p) =
     (if l \<noteq> NULL then Some (go_right l (InLeft c a r # p))
      else up_from_left (Node c l a r, p))"

fun rb_replace_node :: "'a cursor \<Rightarrow> 'a \<Rightarrow> 'a rb_node option" where
  "rb_replace_node (NULL, p) new = None"
| "rb_replace_node (Node c l a r, p) new = Some (root_of (Node c l new r) p)"

section \<open>The sequence of entries\<close>

fun inorder :: "'a rb_node \<Rightarrow> 'a list" where
  "inorder NULL = []"
| "inorder (Node c l a r) = inorder l @ a # inorder r"

fun before :: "'a frame list \<Rightarrow> 'a list" where
  "before [] = []"
| "before (InLeft c a r # p) = before p"
| "before (InRight c l a # p) = before p @ inorder l @ [a]"

fun after :: "'a frame list \<Rightarrow> 'a list" where
  "after [] = []"
| "after (InLeft c a r # p) = a # inorder r @ after p"
| "after (InRight c l a # p) = after p"

lemma inorder_root_of: "inorder (root_of t p) = before p @ inorder t @ after p"
proof (induction p arbitrary: t)
  case (Cons f p)
  then show ?case by (cases f) simp_all
qed simp

lemma inorder_set_color [simp]: "inorder (set_color c t) = inorder t"
  by (cases t) simp_all

lemma inorder_rotate_left: "rb_rotate_left t = Some t' \<Longrightarrow> inorder t' = inorder t"
  by (cases t rule: rb_rotate_left.cases) auto

lemma inorder_rotate_right: "rb_rotate_right t = Some t' \<Longrightarrow> inorder t' = inorder t"
  by (cases t rule: rb_rotate_right.cases) auto

lemma before_append: "before (p @ q) = before q @ before p"
  by (induction p rule: before.induct) simp_all

lemma after_append: "after (p @ q) = after p @ after q"
  by (induction p rule: after.induct) simp_all

lemma insert_color_inorder:
  "rb_insert_color t p = Some t' \<Longrightarrow> inorder t' = before p @ inorder t @ after p"
proof (induction t p rule: rb_insert_color.induct)
  case (1 t)
  then show ?case by auto
next
  case (2 t f)
  then show ?case by (cases f) (auto split: if_splits)
next
  case (3 t f g rest)
  then show ?case
    by (cases f; cases g)
      (auto simp: inorder_root_of bind_eq_Some_conv split: if_splits
        dest!: inorder_rotate_left inorder_rotate_right)
qed

lemma erase_end_inorder:
  "erase_left_end t pc pa other = Some t' \<Longrightarrow> inorder t' = inorder t @ pa # inorder other"
  "erase_right_end t pc pa other = Some t' \<Longrightarrow> inorder t' = inorder other @ pa # inorder t"
  by (cases other; auto)+

lemma erase_left_inorder:
  "erase_left t pc pa other = Some r \<Longrightarrow>
    inorder (case r of Inl t' \<Rightarrow> t' | Inr t' \<Rightarrow> t') = inorder t @ pa # inorder other"
  by (auto simp: erase_left_def bind_eq_Some_conv split: rb_node.splits if_splits
      dest!: inorder_rotate_left inorder_rotate_right erase_end_inorder)

lemma erase_right_inorder:
  "erase_right t pc pa other = Some r \<Longrightarrow>
    inorder (case r of Inl t' \<Rightarrow> t' | Inr t' \<Rightarrow> t') = inorder other @ pa # inorder t"
  by (auto simp: erase_right_def bind_eq_Some_conv split: rb_node.splits if_splits
      dest!: inorder_rotate_left inorder_rotate_right erase_end_inorder)

lemma erase_turn_inorder:
  "erase_turn t f = Some (r, fs) \<Longrightarrow>
    before fs @ inorder (case r of Inl t' \<Rightarrow> t' | Inr t' \<Rightarrow> t') @ after fs
      = before [f] @ inorder t @ after [f]"
  by (cases f)
    (auto split: rb_node.splits rb_color.splits dest!: erase_left_inorder erase_right_inorder)

lemma erase_color_inorder:
  "rb_erase_color t p = Some t' \<Longrightarrow> inorder t' = before p @ inorder t @ after p"
proof (induction t p rule: rb_erase_color.induct)
  case (1 t p)
  show ?case
  proof (cases "is_red t \<or> p = []")
    case True
    then show ?thesis using "1.prems"
      by (auto simp: rb_erase_color.simps [of t] inorder_root_of split: if_splits)
  next
    case False
    then obtain f rest where p: "p = f # rest" by (cases p) auto
    obtain r fs where turn: "erase_turn t f = Some (r, fs)"
      using "1.prems" False p by (auto simp: rb_erase_color.simps [of t] split: option.splits)
    have eq: "before (fs @ rest) @ inorder (case r of Inl t' \<Rightarrow> t' | Inr t' \<Rightarrow> t') @ after (fs @ rest)
        = before p @ inorder t @ after p"
      using erase_turn_inorder [OF turn] by (cases f) (simp_all add: before_append after_append p)
    show ?thesis
    proof (cases r)
      case (Inl u)
      then show ?thesis
        using "1.IH" [OF _ p turn refl Inl] "1.prems" False eq p turn
        by (simp add: rb_erase_color.simps [of t])
    next
      case (Inr u)
      then show ?thesis
        using "1.prems" False eq p turn by (auto simp: rb_erase_color.simps [of t] inorder_root_of)
    qed
  qed
qed

section \<open>The red-black invariants\<close>

fun bh :: "'a rb_node \<Rightarrow> nat" where
  "bh NULL = 0"
| "bh (Node c l a r) = bh l + (if c = RB_BLACK then 1 else 0)"

fun inv_rb :: "'a rb_node \<Rightarrow> bool" where
  "inv_rb NULL = True"
| "inv_rb (Node c l a r) =
     (inv_rb l \<and> inv_rb r \<and> bh l = bh r \<and> (c = RB_RED \<longrightarrow> \<not> is_red l \<and> \<not> is_red r))"

definition rb_ok :: "'a rb_node \<Rightarrow> bool" where
  "rb_ok t \<longleftrightarrow> inv_rb t \<and> \<not> is_red t"

text \<open>A path that makes a whole tree of a subtree with black height \<open>h\<close>.\<close>

definition red_ok :: "'a frame list \<Rightarrow> bool" where
  "red_ok p \<longleftrightarrow> p = [] \<or> f_color (hd p) = RB_BLACK"

fun inv_path :: "'a frame list \<Rightarrow> nat \<Rightarrow> bool" where
  "inv_path [] h = True"
| "inv_path (f # p) h =
     (inv_rb (f_sib f) \<and> bh (f_sib f) = h
      \<and> (f_color f = RB_RED \<longrightarrow> \<not> is_red (f_sib f) \<and> p \<noteq> [] \<and> red_ok p)
      \<and> inv_path p (h + (if f_color f = RB_BLACK then 1 else 0)))"

lemma color_neq: "(c \<noteq> RB_RED) = (c = RB_BLACK)" "(c \<noteq> RB_BLACK) = (c = RB_RED)"
  by (cases c; simp)+

lemma is_red_set_black [simp]: "\<not> is_red (set_color RB_BLACK t)"
  by (cases t) simp_all

lemma inv_set_black: "inv_rb t \<Longrightarrow> inv_rb (set_color RB_BLACK t)"
  by (cases t) simp_all

lemma bh_set_black: "bh (set_color RB_BLACK t) = (if is_red t then Suc (bh t) else bh t)"
  by (cases t) (auto simp: color_neq)

lemma set_black_id: "\<not> is_red t \<Longrightarrow> set_color RB_BLACK t = t"
  by (cases t) (auto simp: color_neq)

lemma rb_ok_set_black: "inv_rb t \<Longrightarrow> rb_ok (set_color RB_BLACK t)"
  by (simp add: rb_ok_def inv_set_black)

lemma root_of_inv:
  "inv_rb t \<Longrightarrow> inv_path p (bh t) \<Longrightarrow> (is_red t \<longrightarrow> red_ok p) \<Longrightarrow>
    inv_rb (root_of t p) \<and> (p \<noteq> [] \<or> \<not> is_red t \<longrightarrow> \<not> is_red (root_of t p))"
proof (induction p arbitrary: t)
  case (Cons f p)
  have "inv_rb (root_of (plug t f) p) \<and>
      (p \<noteq> [] \<or> \<not> is_red (plug t f) \<longrightarrow> \<not> is_red (root_of (plug t f) p))"
    using Cons.prems by (intro Cons.IH; cases f) (auto simp: red_ok_def color_neq)
  then show ?case using Cons.prems by (cases f; cases "f_color f") auto
qed simp

lemma root_of_parts:
  "inv_rb (root_of t p) \<Longrightarrow> \<not> is_red (root_of t p) \<Longrightarrow>
    inv_rb t \<and> inv_path p (bh t) \<and> (is_red t \<longrightarrow> p \<noteq> [] \<and> red_ok p)"
proof (induction p arbitrary: t)
  case (Cons f p)
  then have "inv_rb (plug t f) \<and> inv_path p (bh (plug t f)) \<and>
      (is_red (plug t f) \<longrightarrow> p \<noteq> [] \<and> red_ok p)"
    by (intro Cons.IH) simp_all
  then show ?case by (cases f; cases "f_color f") (auto simp: red_ok_def color_neq)
qed simp

lemma insert_color_ok:
  "inv_rb t \<Longrightarrow> is_red t \<Longrightarrow> inv_path p (bh t) \<Longrightarrow>
    \<exists>t'. rb_insert_color t p = Some t' \<and> rb_ok t'"
proof (induction t p rule: rb_insert_color.induct)
  case (1 t)
  then show ?case by (simp add: rb_ok_set_black)
next
  case (2 t f)
  then show ?case using root_of_inv [of t "[f]"]
    by (auto simp: rb_ok_set_black red_ok_def color_neq)
next
  case (3 t f g rest)
  show ?case
  proof (cases "f_color f = RB_RED")
    case False
    then show ?thesis using "3.prems" root_of_inv [of t "f # g # rest"]
      by (auto simp: rb_ok_set_black red_ok_def color_neq)
  next
    case red: True
    show ?thesis
    proof (cases "is_red (f_sib g)")
      case True
      then show ?thesis using "3.IH" "3.prems" red
        by (cases f; cases g; cases "f_sib g")
          (auto simp: red_ok_def color_neq inv_set_black)
    next
      case False
      have "\<exists>u. rb_insert_color t (f # g # rest) = Some (set_color RB_BLACK (root_of u rest))
          \<and> inv_rb u \<and> \<not> is_red u \<and> bh u = bh t + 1"
        using "3.prems" red False
        by (cases t; cases f; cases g) (auto simp: red_ok_def color_neq)
      moreover have "inv_path rest (bh t + 1)"
        using "3.prems" red by (auto simp: red_ok_def color_neq)
      ultimately show ?thesis using root_of_inv rb_ok_set_black by (metis)
    qed
  qed
qed

text \<open>A turn at a black sibling: what takes the parent's place.\<close>

definition turn_result :: "nat \<Rightarrow> rb_color \<Rightarrow> 'a rb_node + 'a rb_node \<Rightarrow> bool" where
  "turn_result h pc r =
     (case r of
        Inl t \<Rightarrow> inv_rb (set_color RB_BLACK t) \<and> bh t = h + (if pc = RB_BLACK then 1 else 0)
                 \<and> is_red t = (pc = RB_RED)
      | Inr t \<Rightarrow> inv_rb t \<and> bh t = Suc h + (if pc = RB_BLACK then 1 else 0)
                 \<and> is_red t = (pc = RB_RED))"

lemma erase_left_ok:
  assumes "inv_rb t" and "\<not> is_red t" and "inv_rb other" and "\<not> is_red other" and "bh other = Suc (bh t)"
  shows "\<exists>r. erase_left t pc pa other = Some r \<and> turn_result (bh t) pc r"
proof (cases other)
  case NULL
  then show ?thesis using assms by simp
next
  case (Node oc ol oa orr)
  then show ?thesis using assms
    by (cases ol; cases orr; cases pc; cases "is_red ol"; cases "is_red orr")
      (auto simp: erase_left_def turn_result_def color_neq inv_set_black bh_set_black set_black_id)
qed

lemma erase_right_ok:
  assumes "inv_rb t" and "\<not> is_red t" and "inv_rb other" and "\<not> is_red other" and "bh other = Suc (bh t)"
  shows "\<exists>r. erase_right t pc pa other = Some r \<and> turn_result (bh t) pc r"
proof (cases other)
  case NULL
  then show ?thesis using assms by simp
next
  case (Node oc ol oa orr)
  then show ?thesis using assms
    by (cases ol; cases orr; cases pc; cases "is_red ol"; cases "is_red orr")
      (auto simp: erase_right_def turn_result_def color_neq inv_set_black bh_set_black set_black_id)
qed

definition turn_ok :: "'a rb_node + 'a rb_node \<Rightarrow> 'a frame list \<Rightarrow> bool" where
  "turn_ok r p =
     (case r of
        Inl t \<Rightarrow> inv_rb (set_color RB_BLACK t) \<and> inv_path p (Suc (bh t))
      | Inr t \<Rightarrow> inv_rb t \<and> inv_path p (bh t) \<and> (is_red t \<longrightarrow> red_ok p))"

lemma turn_result_black:
  "turn_result h pc r \<Longrightarrow> inv_path rest (Suc h + (if pc = RB_BLACK then 1 else 0)) \<Longrightarrow>
    (pc = RB_RED \<longrightarrow> red_ok rest) \<Longrightarrow> turn_ok r rest"
  by (cases pc) (auto simp: turn_result_def turn_ok_def split: sum.splits)

lemma erase_turn_ok:
  assumes "inv_rb t" and "\<not> is_red t" and "inv_path (f # rest) (Suc (bh t))"
  shows "\<exists>r fs. erase_turn t f = Some (r, fs) \<and> turn_ok r (fs @ rest)"
proof (cases f)
  case (InLeft pc pa other)
  obtain oc ol oa orr where sib: "other = Node oc ol oa orr"
    using assms(3) InLeft by (cases other) auto
  show ?thesis
  proof (cases oc)
    case RB_RED
    then have "inv_rb ol" "\<not> is_red ol" "bh ol = Suc (bh t)" using assms(3) sib InLeft by auto
    from erase_left_ok [OF assms(1,2) this, of RB_RED pa] obtain r where
      r: "erase_left t RB_RED pa ol = Some r" "turn_result (bh t) RB_RED r" by blast
    have "turn_ok r (InLeft RB_BLACK oa orr # rest)"
      using r(2) assms(3) sib InLeft RB_RED
      by (intro turn_result_black) (auto simp: red_ok_def color_neq)
    then show ?thesis using r(1) sib InLeft RB_RED by simp
  next
    case RB_BLACK
    then have "inv_rb other" "\<not> is_red other" "bh other = Suc (bh t)" using assms(3) sib InLeft by auto
    from erase_left_ok [OF assms(1,2) this, of pc pa] obtain r where
      r: "erase_left t pc pa other = Some r" "turn_result (bh t) pc r" by blast
    have "turn_ok r rest"
      using r(2) assms(3) InLeft by (intro turn_result_black) auto
    then show ?thesis using r(1) sib InLeft RB_BLACK by simp
  qed
next
  case (InRight pc other pa)
  obtain oc ol oa orr where sib: "other = Node oc ol oa orr"
    using assms(3) InRight by (cases other) auto
  show ?thesis
  proof (cases oc)
    case RB_RED
    then have "inv_rb orr" "\<not> is_red orr" "bh orr = Suc (bh t)" using assms(3) sib InRight by auto
    from erase_right_ok [OF assms(1,2) this, of RB_RED pa] obtain r where
      r: "erase_right t RB_RED pa orr = Some r" "turn_result (bh t) RB_RED r" by blast
    have "turn_ok r (InRight RB_BLACK ol oa # rest)"
      using r(2) assms(3) sib InRight RB_RED
      by (intro turn_result_black) (auto simp: red_ok_def color_neq)
    then show ?thesis using r(1) sib InRight RB_RED by simp
  next
    case RB_BLACK
    then have "inv_rb other" "\<not> is_red other" "bh other = Suc (bh t)" using assms(3) sib InRight by auto
    from erase_right_ok [OF assms(1,2) this, of pc pa] obtain r where
      r: "erase_right t pc pa other = Some r" "turn_result (bh t) pc r" by blast
    have "turn_ok r rest"
      using r(2) assms(3) InRight by (intro turn_result_black) auto
    then show ?thesis using r(1) sib InRight RB_BLACK by simp
  qed
qed

lemma erase_color_ok:
  "inv_rb (set_color RB_BLACK t) \<Longrightarrow> inv_path p (Suc (bh t)) \<Longrightarrow>
    \<exists>t'. rb_erase_color t p = Some t' \<and> rb_ok t'"
proof (induction t p rule: rb_erase_color.induct)
  case (1 t p)
  show ?case
  proof (cases "is_red t \<or> p = []")
    case True
    have "p = [] \<or> (is_red t \<and> rb_ok (root_of (set_color RB_BLACK t) p))"
      using "1.prems" True root_of_inv [of "set_color RB_BLACK t" p]
      by (auto simp: bh_set_black rb_ok_def)
    then show ?thesis using "1.prems" by (auto simp: rb_erase_color.simps [of t] rb_ok_def)
  next
    case False
    then obtain f rest where p: "p = f # rest" by (cases p) auto
    have t: "inv_rb t" "\<not> is_red t" using "1.prems" False by (simp_all add: set_black_id)
    obtain r fs where turn: "erase_turn t f = Some (r, fs)" "turn_ok r (fs @ rest)"
      using erase_turn_ok [OF t, of f rest] "1.prems"(2) p by blast
    show ?thesis
    proof (cases r)
      case (Inl u)
      then show ?thesis
        using "1.IH" [OF t(2) p turn(1) refl Inl] turn p t(2)
        by (simp add: rb_erase_color.simps [of t] turn_ok_def)
    next
      case (Inr u)
      then have "inv_rb (root_of u (fs @ rest))"
        using turn(2) by (simp add: turn_ok_def root_of_inv)
      then show ?thesis
        using Inr turn p t(2) by (simp add: rb_erase_color.simps [of t] rb_ok_set_black)
    qed
  qed
qed

section \<open>Removal of a node\<close>

lemma go_left_root: "root_of (fst (go_left t p)) (snd (go_left t p)) = root_of t p"
  by (induction t p rule: go_left.induct) simp_all

lemma go_left_leaf: "t \<noteq> NULL \<Longrightarrow> \<exists>c a r. fst (go_left t p) = Node c NULL a r"
  by (induction t p rule: go_left.induct) simp_all

lemma go_right_root: "root_of (fst (go_right t p)) (snd (go_right t p)) = root_of t p"
  by (induction t p rule: go_right.induct) simp_all

lemma go_right_leaf: "t \<noteq> NULL \<Longrightarrow> \<exists>c a l. fst (go_right t p) = Node c l a NULL"
  by (induction t p rule: go_right.induct) simp_all

lemma go_left_before: "before (snd (go_left t p)) = before p"
  by (induction t p rule: go_left.induct) simp_all

lemma go_right_after: "after (snd (go_right t p)) = after p"
  by (induction t p rule: go_right.induct) simp_all

lemma root_of_append: "root_of t (p @ q) = root_of (root_of t p) q"
  by (induction p arbitrary: t) simp_all

lemma inv_path_item:
  "inv_path (q @ InRight c l a # p) h = inv_path (q @ InRight c l b # p) h"
  by (induction q arbitrary: h) (auto simp: red_ok_def hd_append)

lemma erase_node_ok:
  assumes "rb_ok (root_of (Node c l a r) p)"
  shows "\<exists>t'. rb_erase (Node c l a r, p) = Some t' \<and> rb_ok t'
    \<and> inorder t' = before p @ inorder l @ inorder r @ after p"
proof -
  have parts: "inv_rb (Node c l a r)" "inv_path p (bh (Node c l a r))"
      "c = RB_RED \<longrightarrow> p \<noteq> [] \<and> red_ok p"
    using root_of_parts [of "Node c l a r" p] assms by (auto simp: rb_ok_def)
  have splice: "\<exists>t'. (if c = RB_BLACK then rb_erase_color u p else Some (root_of u p)) = Some t'
      \<and> rb_ok t' \<and> inorder t' = before p @ inorder u @ after p"
    if u: "inv_rb u" "bh u = bh l" "c = RB_RED \<longrightarrow> \<not> is_red u" for u
  proof (cases c)
    case RB_BLACK
    then have "\<exists>t'. rb_erase_color u p = Some t' \<and> rb_ok t'"
      using parts u by (intro erase_color_ok) (simp_all add: inv_set_black)
    then show ?thesis using RB_BLACK erase_color_inorder by auto
  next
    case RB_RED
    then have "rb_ok (root_of u p)" using parts u root_of_inv [of u p] by (simp add: rb_ok_def)
    then show ?thesis using RB_RED by (simp add: inorder_root_of)
  qed
  consider (noleft) "l = NULL" | (noright) "l \<noteq> NULL" "r = NULL" | (both) "l \<noteq> NULL" "r \<noteq> NULL" by blast
  then show ?thesis
  proof cases
    case noleft
    then show ?thesis using splice [of r] parts by (auto simp: rb_erase_def)
  next
    case noright
    then show ?thesis using splice [of l] parts by (auto simp: rb_erase_def)
  next
    case both
    obtain sc sa child q where s: "go_left r [] = (Node sc NULL sa child, q)"
      using go_left_leaf [OF both(2), of "[]"] by (cases "go_left r []") auto
    have rq: "root_of (Node sc NULL sa child) q = r" using go_left_root [of r "[]"] s by simp
    let ?p = "q @ InRight c l sa # p"
    have "root_of (Node sc NULL sa child) (q @ InRight c l a # p) = root_of (Node c l a r) p"
      using rq by (simp add: root_of_append)
    with assms have ok: "inv_rb (Node sc NULL sa child)"
        "inv_path (q @ InRight c l a # p) (bh (Node sc NULL sa child))"
      using root_of_parts [of "Node sc NULL sa child" "q @ InRight c l a # p"] by (auto simp: rb_ok_def)
    from ok(2) have path: "inv_path ?p (bh (Node sc NULL sa child))"
      unfolding inv_path_item [of q c l a p _ sa] .
    have b0: "before q = []" using go_left_before [of r "[]"] s by simp
    have r_order: "inorder r = sa # inorder child @ after q"
      using rq inorder_root_of [of "Node sc NULL sa child" q] b0 by simp
    have order: "before ?p @ inorder child @ after ?p = before p @ inorder l @ inorder r @ after p"
      by (simp add: before_append after_append r_order b0)
    show ?thesis
    proof (cases sc)
      case RB_BLACK
      then have "\<exists>t'. rb_erase_color child ?p = Some t' \<and> rb_ok t'"
        using ok path by (intro erase_color_ok) (simp_all add: inv_set_black)
      then obtain t' where "rb_erase_color child ?p = Some t'" "rb_ok t'" by blast
      then show ?thesis
        using RB_BLACK both s order erase_color_inorder [of child ?p t'] by (simp add: rb_erase_def)
    next
      case RB_RED
      then have "rb_ok (root_of child ?p)"
        using ok path root_of_inv [of child ?p] by (simp add: rb_ok_def)
      then show ?thesis using RB_RED both s order by (simp add: rb_erase_def inorder_root_of)
    qed
  qed
qed

section \<open>Walking\<close>

fun cur_before :: "'a cursor \<Rightarrow> 'a list" where
  "cur_before (NULL, p) = before p"
| "cur_before (Node c l a r, p) = before p @ inorder l"

fun cur_after :: "'a cursor \<Rightarrow> 'a list" where
  "cur_after (NULL, p) = after p"
| "cur_after (Node c l a r, p) = inorder r @ after p"

abbreviation (input) cur_root :: "'a cursor \<Rightarrow> 'a rb_node" where
  "cur_root cur \<equiv> root_of (fst cur) (snd cur)"

text \<open>A cursor that stands on a node.\<close>

definition on_node :: "'a cursor \<Rightarrow> bool" where "on_node cur \<longleftrightarrow> fst cur \<noteq> NULL"

lemma on_node_split:
  "on_node cur \<Longrightarrow> inorder (cur_root cur) = cur_before cur @ rb_item (fst cur) # cur_after cur"
  by (cases cur rule: cur_before.cases) (simp_all add: on_node_def inorder_root_of)

lemma up_from_right_spec:
  "case up_from_right (t, p) of
     None \<Rightarrow> after p = []
   | Some cur \<Rightarrow> on_node cur \<and> cur_root cur = root_of t p
       \<and> cur_before cur = before p @ inorder t \<and> after p = rb_item (fst cur) # cur_after cur"
  by (induction "(t, p)" arbitrary: t p rule: up_from_right.induct)
    (auto simp: on_node_def split: option.splits)

lemma up_from_left_spec:
  "case up_from_left (t, p) of
     None \<Rightarrow> before p = []
   | Some cur \<Rightarrow> on_node cur \<and> cur_root cur = root_of t p
       \<and> cur_after cur = inorder t @ after p \<and> before p = cur_before cur @ [rb_item (fst cur)]"
  by (induction "(t, p)" arbitrary: t p rule: up_from_left.induct)
    (auto simp: on_node_def split: option.splits)

lemma go_left_cur:
  assumes "t \<noteq> NULL"
  shows "on_node (go_left t p)" and "cur_root (go_left t p) = root_of t p"
    and "cur_before (go_left t p) = before p"
    and "inorder t @ after p = rb_item (fst (go_left t p)) # cur_after (go_left t p)"
proof -
  obtain c a r q where g: "go_left t p = (Node c NULL a r, q)"
    using go_left_leaf [OF assms, of p] by (cases "go_left t p") auto
  show "on_node (go_left t p)" by (simp add: on_node_def g)
  show root: "cur_root (go_left t p) = root_of t p" by (rule go_left_root)
  show b: "cur_before (go_left t p) = before p" using go_left_before [of t p] by (simp add: g)
  show "inorder t @ after p = rb_item (fst (go_left t p)) # cur_after (go_left t p)"
    using arg_cong [OF root, of inorder] b by (simp add: g inorder_root_of)
qed

lemma go_right_cur:
  assumes "t \<noteq> NULL"
  shows "on_node (go_right t p)" and "cur_root (go_right t p) = root_of t p"
    and "cur_after (go_right t p) = after p"
    and "before p @ inorder t = cur_before (go_right t p) @ [rb_item (fst (go_right t p))]"
proof -
  obtain c a l q where g: "go_right t p = (Node c l a NULL, q)"
    using go_right_leaf [OF assms, of p] by (cases "go_right t p") auto
  show "on_node (go_right t p)" by (simp add: on_node_def g)
  show root: "cur_root (go_right t p) = root_of t p" by (rule go_right_root)
  show a: "cur_after (go_right t p) = after p" using go_right_after [of t p] by (simp add: g)
  show "before p @ inorder t = cur_before (go_right t p) @ [rb_item (fst (go_right t p))]"
    using arg_cong [OF root, of inorder] a by (simp add: g inorder_root_of)
qed

lemma rb_next_spec:
  assumes "on_node cur"
  shows "case rb_next cur of
     None \<Rightarrow> cur_after cur = []
   | Some cur' \<Rightarrow> on_node cur' \<and> cur_root cur' = cur_root cur
       \<and> cur_before cur' = cur_before cur @ [rb_item (fst cur)]
       \<and> cur_after cur = rb_item (fst cur') # cur_after cur'"
proof (cases cur rule: rb_next.cases)
  case (2 c l a r p)
  show ?thesis
  proof (cases "r = NULL")
    case True
    then show ?thesis using up_from_right_spec [where t = "Node c l a r" and p = p] 2
      by (auto split: option.splits)
  next
    case False
    then show ?thesis using go_left_cur [of r "InRight c l a # p"] 2 by simp
  qed
qed (use assms in \<open>simp add: on_node_def\<close>)

lemma rb_prev_spec:
  assumes "on_node cur"
  shows "case rb_prev cur of
     None \<Rightarrow> cur_before cur = []
   | Some cur' \<Rightarrow> on_node cur' \<and> cur_root cur' = cur_root cur
       \<and> cur_after cur' = rb_item (fst cur) # cur_after cur
       \<and> cur_before cur = cur_before cur' @ [rb_item (fst cur')]"
proof (cases cur rule: rb_prev.cases)
  case (2 c l a r p)
  show ?thesis
  proof (cases "l = NULL")
    case True
    then show ?thesis using up_from_left_spec [where t = "Node c l a r" and p = p] 2
      by (auto split: option.splits)
  next
    case False
    then show ?thesis using go_right_cur [of l "InLeft c a r # p"] 2 by simp
  qed
qed (use assms in \<open>simp add: on_node_def\<close>)

section \<open>Properties\<close>

text \<open>
  C12. Linking a new red node at an empty place of a red-black tree and rebalancing
  never follows a null pointer; the result is a red-black tree again, with the new
  entry exactly where it was linked and every other entry in its old order.
\<close>

theorem rb_insert_correct:
  assumes "rb_ok (root_of NULL p)"
  shows "\<exists>t. rb_insert_color (rb_link_node a) p = Some t \<and> rb_ok t
    \<and> inorder t = before p @ a # after p"
proof -
  have "inv_path p 0" using root_of_parts [of NULL p] assms by (simp add: rb_ok_def)
  then have "\<exists>t. rb_insert_color (rb_link_node a) p = Some t \<and> rb_ok t"
    by (intro insert_color_ok) (simp_all add: rb_link_node_def)
  then show ?thesis using insert_color_inorder [of "rb_link_node a" p] by (auto simp: rb_link_node_def)
qed

theorem rb_insert_correct_witness:
  "\<exists>t. rb_insert_color (rb_link_node (1::nat))
        [InLeft RB_RED 2 NULL, InLeft RB_BLACK 3 NULL] = Some t
      \<and> rb_ok t \<and> inorder t = [1, 2, 3]"
  using rb_insert_correct [of "[InLeft RB_RED (2::nat) NULL, InLeft RB_BLACK 3 NULL]" 1]
  by (simp add: rb_ok_def)

text \<open>
  C16. Removing a node of a red-black tree never follows a null pointer; the result
  is a red-black tree that holds the other entries in their old order.
\<close>

theorem rb_erase_correct:
  assumes "rb_ok (root_of (Node c l a r) p)"
  shows "\<exists>t. rb_erase (Node c l a r, p) = Some t \<and> rb_ok t
    \<and> inorder t = before p @ inorder l @ inorder r @ after p"
  using assms by (rule erase_node_ok)

theorem rb_erase_correct_witness:
  "\<exists>t. rb_erase (Node RB_BLACK NULL (1::nat) NULL,
          [InLeft RB_BLACK 2 (Node RB_RED (Node RB_BLACK NULL 3 NULL) 4 (Node RB_BLACK NULL 5 NULL))])
        = Some t \<and> rb_ok t \<and> inorder t = [2, 3, 4, 5]"
  using rb_erase_correct [of RB_BLACK NULL 1 NULL
      "[InLeft RB_BLACK 2 (Node RB_RED (Node RB_BLACK NULL 3 NULL) 4 (Node RB_BLACK NULL (5::nat) NULL))]"]
  by (simp add: rb_ok_def)

text \<open>
  C17. \<^verbatim>\<open>rb_next\<close> and \<^verbatim>\<open>rb_prev\<close> walk the entries in order: each returns no node exactly
  at the end of the sequence, and otherwise the node whose entry is the next or the
  previous one of the same tree.
\<close>

theorem rb_walk_correct:
  assumes "on_node cur"
  shows "(case rb_next cur of
       None \<Rightarrow> cur_after cur = []
     | Some cur' \<Rightarrow> on_node cur' \<and> cur_root cur' = cur_root cur
         \<and> cur_before cur' = cur_before cur @ [rb_item (fst cur)]
         \<and> cur_after cur = rb_item (fst cur') # cur_after cur')
    \<and> (case rb_prev cur of
       None \<Rightarrow> cur_before cur = []
     | Some cur' \<Rightarrow> on_node cur' \<and> cur_root cur' = cur_root cur
         \<and> cur_after cur' = rb_item (fst cur) # cur_after cur
         \<and> cur_before cur = cur_before cur' @ [rb_item (fst cur')])"
  using rb_next_spec [OF assms] rb_prev_spec [OF assms] by blast

theorem rb_walk_correct_witness:
  "case rb_next (Node RB_RED NULL (1::nat) NULL, [InRight RB_BLACK NULL 0, InLeft RB_BLACK 2 NULL]) of
     None \<Rightarrow> False | Some cur' \<Rightarrow> rb_item (fst cur') = 2 \<and> cur_before cur' = [0, 1]"
  using rb_walk_correct [of "(Node RB_RED NULL (1::nat) NULL,
      [InRight RB_BLACK NULL 0, InLeft RB_BLACK 2 NULL])"]
  by (simp add: on_node_def)

end
