(* ===== verification/Bitmap.thy ===== *)
theory Bitmap
  imports Rbtree
begin

text \<open>
  Releasing a bitmap that is kept in regions (\<^verbatim>\<open>libcmfs/bitmap.c\<close>, with the structures of
  \<^verbatim>\<open>libcmfs/bitmap.h\<close>). The regions hang in a red-black tree; each is known by its address
  \<open>br_addr\<close>. What the functions do is the list of the objects they free, in order. The sources
  have no function that makes such a bitmap, so that its operations are only known by the
  callback \<^verbatim>\<open>destroy_notify\<close>, an argument.
\<close>

section \<open>Regions\<close>

record cmfs_bitmap_region =
  br_addr :: nat
  br_start_bit :: u64
  br_bitmap_start :: u32
  br_valid_bits :: u32
  br_total_bits :: u32
  br_bytes :: u64
  br_set_bits :: u32
  br_bitmap :: "bytes option"

record cmfs_bitmap =
  b_set_bits :: u64
  b_total_bits :: u64
  b_description :: string
  b_regions :: "cmfs_bitmap_region rb_node"

datatype freed = Bits_of nat | Region nat | Description | Whole_bitmap

definition cmfs_bitmap_free_region :: "cmfs_bitmap_region \<Rightarrow> freed list" where
  "cmfs_bitmap_free_region br =
     (if br_bitmap br \<noteq> None then [Bits_of (br_addr br)] else []) @ [Region (br_addr br)]"

section \<open>The loop over the regions\<close>

lemma first_node:
  assumes "rb_first root = Some cur"
  obtains c a r q where "cur = (Node c NULL a r, q)" and "root \<noteq> NULL"
    and "root_of (Node c NULL a r) q = root" and "before q = []"
proof -
  have ne: "root \<noteq> NULL" and cur: "cur = go_left root []"
    using assms by (auto simp: rb_first_def split: if_splits)
  from go_left_leaf [OF ne, of "[]"] obtain c a r q where g: "go_left root [] = (Node c NULL a r, q)"
    by (cases "go_left root []") auto
  show ?thesis
    using that [OF _ ne, of c a r q] cur g go_left_root [of root "[]"] go_left_before [of root "[]"] by simp
qed

lemma erase_leftmost:
  assumes "rb_erase (Node c NULL a r, q) = Some t"
  shows "inorder t = before q @ inorder r @ after q"
  using assms erase_color_inorder [of r q t]
  by (auto simp: rb_erase_def inorder_root_of split: if_splits)

lemma erase_first_inorder:
  assumes "rb_first root = Some cur" and "rb_erase cur = Some t"
  shows "inorder root = rb_item (fst cur) # inorder t"
proof -
  obtain c a r q where cur: "cur = (Node c NULL a r, q)" and root: "root_of (Node c NULL a r) q = root"
    and b: "before q = []"
    using assms(1) by (rule first_node)
  have "inorder root = before q @ inorder (Node c NULL a r) @ after q"
    unfolding root [symmetric] by (rule inorder_root_of)
  then show ?thesis using erase_leftmost [of c a r q t] assms(2) b by (simp add: cur)
qed

text \<open>\<open>None\<close> is a null pointer that the removal of a node follows.\<close>

function free_regions :: "cmfs_bitmap_region rb_node \<Rightarrow> freed list option" where
  "free_regions root =
     (case rb_first root of
        None \<Rightarrow> Some []
      | Some cur \<Rightarrow>
          (case rb_erase cur of
             None \<Rightarrow> None
           | Some root' \<Rightarrow>
               map_option (append (cmfs_bitmap_free_region (rb_item (fst cur)))) (free_regions root')))"
  by pat_completeness auto
termination
  by (relation "measure (length \<circ> inorder)") (auto dest: erase_first_inorder)

declare free_regions.simps [simp del]

definition cmfs_bitmap_free :: "(cmfs_bitmap \<Rightarrow> cmfs_bitmap) option \<Rightarrow> cmfs_bitmap \<Rightarrow> freed list option" where
  "cmfs_bitmap_free destroy_notify bm =
     (let bm = (case destroy_notify of Some f \<Rightarrow> f bm | None \<Rightarrow> bm)
      in map_option (\<lambda>fs. fs @ [Description, Whole_bitmap]) (free_regions (b_regions bm)))"

section \<open>What is freed\<close>

lemma first_erased_ok:
  assumes "rb_ok root" and "rb_first root = Some cur"
  shows "\<exists>t. rb_erase cur = Some t \<and> rb_ok t"
proof -
  obtain c a r q where cur: "cur = (Node c NULL a r, q)" and root: "root_of (Node c NULL a r) q = root"
    using assms(2) by (rule first_node)
  show ?thesis using erase_node_ok [of c NULL a r q] assms(1) by (auto simp: cur root)
qed

lemma free_regions_all:
  "rb_ok root \<Longrightarrow> free_regions root = Some (concat (map cmfs_bitmap_free_region (inorder root)))"
proof (induction root rule: free_regions.induct)
  case (1 root)
  show ?case
  proof (cases "rb_first root")
    case None
    then show ?thesis by (simp add: free_regions.simps [of root] rb_first_def split: if_splits)
  next
    case (Some cur)
    then obtain t where t: "rb_erase cur = Some t" "rb_ok t" using first_erased_ok [OF 1(2)] by blast
    then show ?thesis
      using "1.IH" [OF Some t] Some erase_first_inorder [OF Some t(1)]
      by (simp add: free_regions.simps [of root])
  qed
qed

text \<open>
  C18. Releasing a bitmap ends, and frees every region exactly once, in the order of the tree and
  after the bits it holds, then the description and the bitmap itself, when the regions that
  the callback leaves are a red-black tree: the loop takes the first node out of the tree
  before it frees it, and rebalancing neither loses a node nor follows a null pointer.
\<close>

theorem bitmap_free_all:
  assumes "bm' = (case destroy_notify of Some f \<Rightarrow> f bm | None \<Rightarrow> bm)" and "rb_ok (b_regions bm')"
  shows "cmfs_bitmap_free destroy_notify bm
    = Some (concat (map cmfs_bitmap_free_region (inorder (b_regions bm'))) @ [Description, Whole_bitmap])"
  using free_regions_all [OF assms(2)] by (simp add: cmfs_bitmap_free_def assms(1) [symmetric])

definition demo_region :: "nat \<Rightarrow> bytes option \<Rightarrow> cmfs_bitmap_region" where
  "demo_region addr bits =
     \<lparr> br_addr = addr, br_start_bit = of_nat (8 * addr), br_bitmap_start = 0, br_valid_bits = 8,
       br_total_bits = 8, br_bytes = 1, br_set_bits = 0, br_bitmap = bits \<rparr>"

definition demo_bitmap :: cmfs_bitmap where
  "demo_bitmap =
     \<lparr> b_set_bits = 0, b_total_bits = 24, b_description = ''demo'',
       b_regions = Node RB_BLACK (Node RB_RED NULL (demo_region 1 (Some [0])) NULL)
         (demo_region 2 None) (Node RB_RED NULL (demo_region 3 (Some [0])) NULL) \<rparr>"

theorem bitmap_free_all_witness:
  "cmfs_bitmap_free None demo_bitmap
    = Some [Bits_of 1, Region 1, Region 2, Bits_of 3, Region 3, Description, Whole_bitmap]"
proof -
  have "rb_ok (b_regions demo_bitmap)" by (simp add: demo_bitmap_def rb_ok_def)
  from bitmap_free_all [where destroy_notify = None and bm = demo_bitmap, OF _ this] show ?thesis
    by (simp add: demo_bitmap_def demo_region_def cmfs_bitmap_free_region_def)
qed

end
