(* ===== verification/Layout.thy ===== *)
theory Layout
  imports Prelude
begin

text \<open>
  The on-disk format of \<^verbatim>\<open>include/cmfs-kernel/cmfs_fs.h\<close>. A block is the list of
  its bytes. Each C structure is a record; the function \<open>..._of le buf b\<close> reads
  the structure that starts at byte \<open>b\<close> of \<open>buf\<close> the way the CPU does, with
  \<open>le\<close> saying whether the CPU is little-endian. The abbreviations \<open>o_...\<close> are the
  offsets of the members; the tables \<open>..._fields\<close> give the members' sizes and
  alignments, and the offsets are checked against the C layout rules.
\<close>

section \<open>Bytes of a buffer\<close>

definition field :: "nat \<Rightarrow> nat \<Rightarrow> 'a list \<Rightarrow> 'a list" where
  "field n off buf = take n (drop off buf)"

definition put :: "nat \<Rightarrow> 'a list \<Rightarrow> 'a list \<Rightarrow> 'a list" where
  "put off bs buf = take off buf @ bs @ drop (off + length bs) buf"

primrec le_nat :: "bytes \<Rightarrow> nat" where
  "le_nat [] = 0"
| "le_nat (x # xs) = unat x + 256 * le_nat xs"

primrec le_bytes :: "nat \<Rightarrow> nat \<Rightarrow> bytes" where
  "le_bytes 0 v = []"
| "le_bytes (Suc n) v = of_nat (v mod 256) # le_bytes n (v div 256)"

definition cpu_order :: "bool \<Rightarrow> bytes \<Rightarrow> bytes" where
  "cpu_order le bs = (if le then bs else rev bs)"

definition ld :: "bool \<Rightarrow> nat \<Rightarrow> bytes \<Rightarrow> nat \<Rightarrow> nat" where
  "ld le n buf off = le_nat (cpu_order le (field n off buf))"

definition st :: "bool \<Rightarrow> nat \<Rightarrow> nat \<Rightarrow> nat \<Rightarrow> bytes \<Rightarrow> bytes" where
  "st le n off v buf = put off (cpu_order le (le_bytes n v)) buf"

definition ld8 :: "bytes \<Rightarrow> nat \<Rightarrow> u8" where "ld8 buf off = buf ! off"
definition ld16 :: "bool \<Rightarrow> bytes \<Rightarrow> nat \<Rightarrow> u16" where "ld16 le buf off = of_nat (ld le 2 buf off)"
definition ld32 :: "bool \<Rightarrow> bytes \<Rightarrow> nat \<Rightarrow> u32" where "ld32 le buf off = of_nat (ld le 4 buf off)"
definition ld64 :: "bool \<Rightarrow> bytes \<Rightarrow> nat \<Rightarrow> u64" where "ld64 le buf off = of_nat (ld le 8 buf off)"

definition st8 :: "nat \<Rightarrow> u8 \<Rightarrow> bytes \<Rightarrow> bytes" where "st8 off v buf = put off [v] buf"
definition st16 :: "bool \<Rightarrow> nat \<Rightarrow> u16 \<Rightarrow> bytes \<Rightarrow> bytes" where "st16 le off v = st le 2 off (unat v)"
definition st32 :: "bool \<Rightarrow> nat \<Rightarrow> u32 \<Rightarrow> bytes \<Rightarrow> bytes" where "st32 le off v = st le 4 off (unat v)"
definition st64 :: "bool \<Rightarrow> nat \<Rightarrow> u64 \<Rightarrow> bytes \<Rightarrow> bytes" where "st64 le off v = st le 8 off (unat v)"

text \<open>The bytes of a C string constant.\<close>

definition ascii :: "string \<Rightarrow> bytes" where "ascii s = map of_char s"

subsection \<open>Laws\<close>

lemma length_field: "off + n \<le> length buf \<Longrightarrow> length (field n off buf) = n"
  by (simp add: field_def)

lemma length_put [simp]: "off + length bs \<le> length buf \<Longrightarrow> length (put off bs buf) = length buf"
  by (simp add: put_def)

lemma field_put_same [buf_simps]:
  assumes "n = length bs" and "off + n \<le> length buf"
  shows "field n off (put off bs buf) = bs"
  using assms by (simp add: field_def put_def)

lemma nth_put:
  assumes "off + length bs \<le> length buf" and "i < length buf"
  shows "put off bs buf ! i = (if off \<le> i \<and> i < off + length bs then bs ! (i - off) else buf ! i)"
  using assms by (auto simp: put_def nth_append)

lemma field_put_other [buf_simps]:
  assumes "off + length bs \<le> length buf" and "o' + n \<le> off \<or> off + length bs \<le> o'"
  shows "field n o' (put off bs buf) = field n o' buf"
proof (rule nth_equalityI)
  show "length (field n o' (put off bs buf)) = length (field n o' buf)"
    using assms(1) by (simp add: field_def)
next
  fix i assume "i < length (field n o' (put off bs buf))"
  then have i: "i < n" "o' + i < length buf" using assms(1) by (auto simp: field_def)
  then show "field n o' (put off bs buf) ! i = field n o' buf ! i"
    using assms by (auto simp: field_def nth_put)
qed

lemma put_field_id: "off + n \<le> length buf \<Longrightarrow> put off (field n off buf) buf = buf"
  by (simp add: put_def field_def) (metis append_take_drop_id drop_drop add.commute)

lemma put_put_same:
  "length bs = length cs \<Longrightarrow> off + length cs \<le> length buf \<Longrightarrow>
    put off bs (put off cs buf) = put off bs buf"
  by (simp add: put_def)

lemma put_put_other:
  assumes "off + length bs \<le> length buf" and "o' + length cs \<le> length buf"
    and "o' + length cs \<le> off \<or> off + length bs \<le> o'"
  shows "put off bs (put o' cs buf) = put o' cs (put off bs buf)"
  by (rule nth_equalityI) (use assms in \<open>auto simp: nth_put\<close>)

lemma length_le_bytes [simp]: "length (le_bytes n v) = n"
  by (induction n arbitrary: v) simp_all

lemma length_cpu_order [simp]: "length (cpu_order le bs) = length bs"
  by (simp add: cpu_order_def)

lemma cpu_order_cpu_order [simp]: "cpu_order le (cpu_order le bs) = bs"
  by (simp add: cpu_order_def)

lemma le_nat_le_bytes: "le_nat (le_bytes n v) = v mod 256 ^ n"
proof (induction n arbitrary: v)
  case (Suc n)
  have "unat (of_nat (v mod 256) :: u8) = v mod 256"
    by (simp add: unat_of_nat take_bit_eq_mod)
  then show ?case using Suc by (simp add: mod_mult2_eq)
qed simp

lemma le_nat_less: "le_nat bs < 256 ^ length bs"
proof (induction bs)
  case (Cons x xs)
  have "unat x < 256" using unsigned_less [of x] by simp
  then show ?case using Cons by simp
qed simp

lemma le_bytes_le_nat: "le_bytes (length bs) (le_nat bs) = bs"
proof (induction bs)
  case (Cons x xs)
  have x: "unat x < 256" using unsigned_less [of x] by simp
  then have "(unat x + 256 * le_nat xs) mod 256 = unat x"
    and "(unat x + 256 * le_nat xs) div 256 = le_nat xs" by simp_all
  then show ?case using Cons by simp
qed simp

lemma ld_less: "off + n \<le> length buf \<Longrightarrow> ld le n buf off < 256 ^ n"
  using le_nat_less [of "cpu_order le (field n off buf)"] by (simp add: ld_def length_field)

lemma length_st [simp]: "off + n \<le> length buf \<Longrightarrow> length (st le n off v buf) = length buf"
  by (simp add: st_def)

lemma ld_st_same [buf_simps]:
  "off + n \<le> length buf \<Longrightarrow> ld le n (st le n off v buf) off = v mod 256 ^ n"
  by (simp add: ld_def st_def field_put_same le_nat_le_bytes)

lemma ld_put_other [buf_simps]:
  "off + length bs \<le> length buf \<Longrightarrow> o' + n \<le> off \<or> off + length bs \<le> o' \<Longrightarrow>
    ld le n (put off bs buf) o' = ld le n buf o'"
  by (simp add: ld_def field_put_other)

lemma ld_st_other [buf_simps]:
  "off + m \<le> length buf \<Longrightarrow> o' + n \<le> off \<or> off + m \<le> o' \<Longrightarrow>
    ld le n (st le m off v buf) o' = ld le n buf o'"
  by (simp add: st_def ld_put_other)

lemma field_st_other [buf_simps]:
  "off + m \<le> length buf \<Longrightarrow> o' + n \<le> off \<or> off + m \<le> o' \<Longrightarrow>
    field n o' (st le m off v buf) = field n o' buf"
  by (simp add: st_def field_put_other)

lemma length_stw [simp]:
  "off < length buf \<Longrightarrow> length (st8 off v8 buf) = length buf"
  "off + 2 \<le> length buf \<Longrightarrow> length (st16 le off v16 buf) = length buf"
  "off + 4 \<le> length buf \<Longrightarrow> length (st32 le off v32 buf) = length buf"
  "off + 8 \<le> length buf \<Longrightarrow> length (st64 le off v64 buf) = length buf"
  by (simp_all add: st8_def st16_def st32_def st64_def)

lemma ldw_stw_same [buf_simps]:
  "off < length buf \<Longrightarrow> ld8 (st8 off v8 buf) off = v8"
  "off + 2 \<le> length buf \<Longrightarrow> ld16 le (st16 le off v16 buf) off = v16"
  "off + 4 \<le> length buf \<Longrightarrow> ld32 le (st32 le off v32 buf) off = v32"
  "off + 8 \<le> length buf \<Longrightarrow> ld64 le (st64 le off v64 buf) off = v64"
  by (simp_all add: unat_u16_less unat_u32_less unat_u64_less ld8_def st8_def ld16_def st16_def ld32_def st32_def ld64_def st64_def
      ld_st_same nth_put)

lemma ld8_put_other [buf_simps]:
  "off + length bs \<le> length buf \<Longrightarrow> o' < length buf \<Longrightarrow> o' < off \<or> off + length bs \<le> o' \<Longrightarrow>
    ld8 (put off bs buf) o' = ld8 buf o'"
  by (auto simp: ld8_def nth_put)

lemma ldw_put_other [buf_simps]:
  assumes "off + length bs \<le> length buf"
  shows "o' + 2 \<le> off \<or> off + length bs \<le> o' \<Longrightarrow> ld16 le (put off bs buf) o' = ld16 le buf o'"
    and "o' + 4 \<le> off \<or> off + length bs \<le> o' \<Longrightarrow> ld32 le (put off bs buf) o' = ld32 le buf o'"
    and "o' + 8 \<le> off \<or> off + length bs \<le> o' \<Longrightarrow> ld64 le (put off bs buf) o' = ld64 le buf o'"
  using assms by (simp_all add: ld16_def ld32_def ld64_def ld_put_other)

lemma stw_put:
  "st8 off v8 = put off [v8]"
  "st16 le off v16 = put off (cpu_order le (le_bytes 2 (unat v16)))"
  "st32 le off v32 = put off (cpu_order le (le_bytes 4 (unat v32)))"
  "st64 le off v64 = put off (cpu_order le (le_bytes 8 (unat v64)))"
  by (simp_all add: fun_eq_iff st8_def st16_def st32_def st64_def st_def)

lemma le_bytes_numeral:
  "le_bytes (numeral k) v = of_nat (v mod 256) # le_bytes (pred_numeral k) (v div 256)"
  by (simp only: numeral_eq_Suc [of k] le_bytes.simps)

text \<open>A block of distinct bytes to try the theorems on.\<close>

definition counting :: "nat \<Rightarrow> bytes" where "counting n = map of_nat [0..<n]"

lemma length_counting [simp]: "length (counting n) = n"
  by (simp add: counting_def)

lemma field_counting: "off + n \<le> m \<Longrightarrow> field n off (counting m) = map of_nat [off..<off + n]"
  by (simp add: field_def take_map drop_map counting_def)

section \<open>C layout rules\<close>

text \<open>
  The members of a structure are placed in order, each at the next multiple of
  its alignment.
\<close>

fun c_offsets :: "nat \<Rightarrow> (string \<times> nat \<times> nat) list \<Rightarrow> (string \<times> nat) list" where
  "c_offsets off [] = []"
| "c_offsets off ((f, n, a) # fs) =
     (let o' = (off + a - 1) div a * a in (f, o') # c_offsets (o' + n) fs)"

fun c_extent :: "nat \<Rightarrow> (string \<times> nat \<times> nat) list \<Rightarrow> nat" where
  "c_extent off [] = off"
| "c_extent off ((f, n, a) # fs) = c_extent ((off + a - 1) div a * a + n) fs"

definition c_sizeof :: "(string \<times> nat \<times> nat) list \<Rightarrow> nat" where
  "c_sizeof fs = (let m = fold max (map (\<lambda>(f, n, a). a) fs) 1;
                      e = c_extent 0 fs in (e + m - 1) div m * m)"

section \<open>Constants\<close>

abbreviation (input) CMFS_SUPER_BLOCK_BLKNO :: u64 where "CMFS_SUPER_BLOCK_BLKNO \<equiv> 2"
abbreviation (input) CMFS_SUPER_BLOCK_FL :: u32 where "CMFS_SUPER_BLOCK_FL \<equiv> 0x20"
abbreviation (input) CMFS_LOCAL_ALLOC_FL :: u32 where "CMFS_LOCAL_ALLOC_FL \<equiv> 0x40"
abbreviation (input) CMFS_BITMAP_FL :: u32 where "CMFS_BITMAP_FL \<equiv> 0x80"
abbreviation (input) CMFS_JOURNAL_FL :: u32 where "CMFS_JOURNAL_FL \<equiv> 0x100"
abbreviation (input) CMFS_CHAIN_FL :: u32 where "CMFS_CHAIN_FL \<equiv> 0x200"
abbreviation (input) CMFS_DEALLOC_FL :: u32 where "CMFS_DEALLOC_FL \<equiv> 0x400"
abbreviation (input) CMFS_VALID_FL :: u32 where "CMFS_VALID_FL \<equiv> 1"
abbreviation (input) CMFS_SYSTEM_FL :: u32 where "CMFS_SYSTEM_FL \<equiv> 0x10"
abbreviation (input) CMFS_INLINE_DATA_FL :: u16 where "CMFS_INLINE_DATA_FL \<equiv> 1"

definition CMFS_SUPER_BLOCK_SIGNATURE :: bytes where
  "CMFS_SUPER_BLOCK_SIGNATURE = ascii ''CMFSV1''"
definition CMFS_INODE_SIGNATURE :: bytes where
  "CMFS_INODE_SIGNATURE = ascii ''INODE01''"
definition CMFS_EXTENT_BLOCK_SIGNATURE :: bytes where
  "CMFS_EXTENT_BLOCK_SIGNATURE = ascii ''EXBLK01''"
definition CMFS_GROUP_DESC_SIGNATURE :: bytes where
  "CMFS_GROUP_DESC_SIGNATURE = ascii ''GROUP01''"
definition CMFS_DIR_TRAILER_SIGNATURE :: bytes where
  "CMFS_DIR_TRAILER_SIGNATURE = ascii ''DIRTRL1''"

text \<open>\<^verbatim>\<open>S_ISDIR\<close> and its companions on the file type bits of \<open>i_mode\<close>.\<close>

definition S_IFMT :: "u16 \<Rightarrow> u16" where "S_IFMT m = m AND 0xF000"
definition S_ISDIR :: "u16 \<Rightarrow> bool" where "S_ISDIR m = (S_IFMT m = 0x4000)"
definition S_ISLNK :: "u16 \<Rightarrow> bool" where "S_ISLNK m = (S_IFMT m = 0xA000)"
definition S_ISCHR :: "u16 \<Rightarrow> bool" where "S_ISCHR m = (S_IFMT m = 0x2000)"
definition S_ISBLK :: "u16 \<Rightarrow> bool" where "S_ISBLK m = (S_IFMT m = 0x6000)"
definition S_ISREG :: "u16 \<Rightarrow> bool" where "S_ISREG m = (S_IFMT m = 0x8000)"

section \<open>Structures\<close>

text \<open>\<^verbatim>\<open>struct cmfs_vol_disk_hdr\<close>: volume header, at sector 0.\<close>

definition vol_hdr_fields :: "(string \<times> nat \<times> nat) list" where
  "vol_hdr_fields =
    [(''signature'', 128, 1),
     (''mount_point'', 128, 1)]"

abbreviation (input) o_vh_signature :: nat where "o_vh_signature \<equiv> 0"
abbreviation (input) o_vh_mount_point :: nat where "o_vh_mount_point \<equiv> 128"

record cmfs_vol_disk_hdr =
  vh_signature :: bytes
  vh_mount_point :: bytes

definition vol_hdr_of :: "bool \<Rightarrow> bytes \<Rightarrow> nat \<Rightarrow> cmfs_vol_disk_hdr" where
  "vol_hdr_of le buf b = \<lparr>
     vh_signature = field 128 (b + o_vh_signature) buf,
     vh_mount_point = field 128 (b + o_vh_mount_point) buf\<rparr>"

text \<open>\<^verbatim>\<open>struct cmfs_vol_label\<close>: volume label, at sector 1.\<close>

definition vol_label_fields :: "(string \<times> nat \<times> nat) list" where
  "vol_label_fields =
    [(''label'', 64, 1),
     (''label_len'', 2, 2),
     (''vol_id'', 16, 1),
     (''vol_id_len'', 2, 2)]"

abbreviation (input) o_vl_label :: nat where "o_vl_label \<equiv> 0"
abbreviation (input) o_vl_label_len :: nat where "o_vl_label_len \<equiv> 64"
abbreviation (input) o_vl_vol_id :: nat where "o_vl_vol_id \<equiv> 66"
abbreviation (input) o_vl_vol_id_len :: nat where "o_vl_vol_id_len \<equiv> 82"

record cmfs_vol_label =
  vl_label :: bytes
  vl_label_len :: u16
  vl_vol_id :: bytes
  vl_vol_id_len :: u16

definition vol_label_of :: "bool \<Rightarrow> bytes \<Rightarrow> nat \<Rightarrow> cmfs_vol_label" where
  "vol_label_of le buf b = \<lparr>
     vl_label = field 64 (b + o_vl_label) buf,
     vl_label_len = ld16 le buf (b + o_vl_label_len),
     vl_vol_id = field 16 (b + o_vl_vol_id) buf,
     vl_vol_id_len = ld16 le buf (b + o_vl_vol_id_len)\<rparr>"

text \<open>\<^verbatim>\<open>struct cmfs_block_check\<close>: block checking structure.\<close>

definition block_check_fields :: "(string \<times> nat \<times> nat) list" where
  "block_check_fields =
    [(''bc_crc32e'', 4, 4),
     (''bc_ecc'', 2, 2),
     (''bc_reserved1'', 2, 2)]"

abbreviation (input) o_bc_crc32e :: nat where "o_bc_crc32e \<equiv> 0"
abbreviation (input) o_bc_ecc :: nat where "o_bc_ecc \<equiv> 4"

record cmfs_block_check =
  bc_crc32e :: u32
  bc_ecc :: u16

definition block_check_of :: "bool \<Rightarrow> bytes \<Rightarrow> nat \<Rightarrow> cmfs_block_check" where
  "block_check_of le buf b = \<lparr>
     bc_crc32e = ld32 le buf (b + o_bc_crc32e),
     bc_ecc = ld16 le buf (b + o_bc_ecc)\<rparr>"

text \<open>\<^verbatim>\<open>struct cmfs_extent_rec\<close>: extent record; the third member is a union.\<close>

definition extent_rec_fields :: "(string \<times> nat \<times> nat) list" where
  "extent_rec_fields =
    [(''e_cpos'', 8, 8),
     (''e_blkno'', 8, 8),
     (''e_int_blocks'', 16, 8)]"

abbreviation (input) o_e_cpos :: nat where "o_e_cpos \<equiv> 0"
abbreviation (input) o_e_blkno :: nat where "o_e_blkno \<equiv> 8"
abbreviation (input) o_e_int_blocks :: nat where "o_e_int_blocks \<equiv> 16"
abbreviation (input) o_e_leaf_blocks :: nat where "o_e_leaf_blocks \<equiv> 16"
abbreviation (input) o_e_flags :: nat where "o_e_flags \<equiv> 20"

record cmfs_extent_rec =
  e_cpos :: u64
  e_blkno :: u64
  e_int_blocks :: u64
  e_leaf_blocks :: u32
  e_flags :: u8

definition extent_rec_of :: "bool \<Rightarrow> bytes \<Rightarrow> nat \<Rightarrow> cmfs_extent_rec" where
  "extent_rec_of le buf b = \<lparr>
     e_cpos = ld64 le buf (b + o_e_cpos),
     e_blkno = ld64 le buf (b + o_e_blkno),
     e_int_blocks = ld64 le buf (b + o_e_int_blocks),
     e_leaf_blocks = ld32 le buf (b + o_e_leaf_blocks),
     e_flags = ld8 buf (b + o_e_flags)\<rparr>"

text \<open>\<^verbatim>\<open>struct cmfs_extent_list\<close>: extent list header; the records follow it.\<close>

definition extent_list_fields :: "(string \<times> nat \<times> nat) list" where
  "extent_list_fields =
    [(''l_tree_depth'', 2, 2),
     (''l_count'', 2, 2),
     (''l_next_free_rec'', 2, 2),
     (''l_reserved1'', 2, 2),
     (''l_reserved2'', 24, 8)]"

abbreviation (input) o_l_tree_depth :: nat where "o_l_tree_depth \<equiv> 0"
abbreviation (input) o_l_count :: nat where "o_l_count \<equiv> 2"
abbreviation (input) o_l_next_free_rec :: nat where "o_l_next_free_rec \<equiv> 4"

record cmfs_extent_list =
  l_tree_depth :: u16
  l_count :: u16
  l_next_free_rec :: u16

definition extent_list_of :: "bool \<Rightarrow> bytes \<Rightarrow> nat \<Rightarrow> cmfs_extent_list" where
  "extent_list_of le buf b = \<lparr>
     l_tree_depth = ld16 le buf (b + o_l_tree_depth),
     l_count = ld16 le buf (b + o_l_count),
     l_next_free_rec = ld16 le buf (b + o_l_next_free_rec)\<rparr>"

text \<open>\<^verbatim>\<open>struct cmfs_chain_rec\<close>: chain record.\<close>

definition chain_rec_fields :: "(string \<times> nat \<times> nat) list" where
  "chain_rec_fields =
    [(''c_free'', 4, 4),
     (''c_total'', 4, 4),
     (''c_blkno'', 8, 8)]"

abbreviation (input) o_c_free :: nat where "o_c_free \<equiv> 0"
abbreviation (input) o_c_total :: nat where "o_c_total \<equiv> 4"
abbreviation (input) o_c_blkno :: nat where "o_c_blkno \<equiv> 8"

record cmfs_chain_rec =
  c_free :: u32
  c_total :: u32
  c_blkno :: u64

definition chain_rec_of :: "bool \<Rightarrow> bytes \<Rightarrow> nat \<Rightarrow> cmfs_chain_rec" where
  "chain_rec_of le buf b = \<lparr>
     c_free = ld32 le buf (b + o_c_free),
     c_total = ld32 le buf (b + o_c_total),
     c_blkno = ld64 le buf (b + o_c_blkno)\<rparr>"

text \<open>\<^verbatim>\<open>struct cmfs_chain_list\<close>: chain list header; the records follow it.\<close>

definition chain_list_fields :: "(string \<times> nat \<times> nat) list" where
  "chain_list_fields =
    [(''cl_cpg'', 2, 2),
     (''cl_bpc'', 2, 2),
     (''cl_count'', 2, 2),
     (''cl_next_free_rec'', 2, 2),
     (''cl_reserved1'', 8, 8)]"

abbreviation (input) o_cl_cpg :: nat where "o_cl_cpg \<equiv> 0"
abbreviation (input) o_cl_bpc :: nat where "o_cl_bpc \<equiv> 2"
abbreviation (input) o_cl_count :: nat where "o_cl_count \<equiv> 4"
abbreviation (input) o_cl_next_free_rec :: nat where "o_cl_next_free_rec \<equiv> 6"

record cmfs_chain_list =
  cl_cpg :: u16
  cl_bpc :: u16
  cl_count :: u16
  cl_next_free_rec :: u16

definition chain_list_of :: "bool \<Rightarrow> bytes \<Rightarrow> nat \<Rightarrow> cmfs_chain_list" where
  "chain_list_of le buf b = \<lparr>
     cl_cpg = ld16 le buf (b + o_cl_cpg),
     cl_bpc = ld16 le buf (b + o_cl_bpc),
     cl_count = ld16 le buf (b + o_cl_count),
     cl_next_free_rec = ld16 le buf (b + o_cl_next_free_rec)\<rparr>"

text \<open>\<^verbatim>\<open>struct cmfs_local_alloc\<close>: local allocation bitmap.\<close>

definition local_alloc_fields :: "(string \<times> nat \<times> nat) list" where
  "local_alloc_fields =
    [(''la_bm_off'', 4, 4),
     (''la_size'', 2, 2),
     (''la_reserved1'', 10, 2)]"

abbreviation (input) o_la_bm_off :: nat where "o_la_bm_off \<equiv> 0"
abbreviation (input) o_la_size :: nat where "o_la_size \<equiv> 4"

record cmfs_local_alloc =
  la_bm_off :: u32
  la_size :: u16

definition local_alloc_of :: "bool \<Rightarrow> bytes \<Rightarrow> nat \<Rightarrow> cmfs_local_alloc" where
  "local_alloc_of le buf b = \<lparr>
     la_bm_off = ld32 le buf (b + o_la_bm_off),
     la_size = ld16 le buf (b + o_la_size)\<rparr>"

text \<open>\<^verbatim>\<open>struct cmfs_truncate_rec\<close>: truncate record.\<close>

definition truncate_rec_fields :: "(string \<times> nat \<times> nat) list" where
  "truncate_rec_fields =
    [(''t_start'', 4, 4),
     (''t_clusters'', 4, 4)]"

abbreviation (input) o_t_start :: nat where "o_t_start \<equiv> 0"
abbreviation (input) o_t_clusters :: nat where "o_t_clusters \<equiv> 4"

record cmfs_truncate_rec =
  t_start :: u32
  t_clusters :: u32

definition truncate_rec_of :: "bool \<Rightarrow> bytes \<Rightarrow> nat \<Rightarrow> cmfs_truncate_rec" where
  "truncate_rec_of le buf b = \<lparr>
     t_start = ld32 le buf (b + o_t_start),
     t_clusters = ld32 le buf (b + o_t_clusters)\<rparr>"

text \<open>\<^verbatim>\<open>struct cmfs_truncate_log\<close>: truncate log header.\<close>

definition truncate_log_fields :: "(string \<times> nat \<times> nat) list" where
  "truncate_log_fields =
    [(''tl_count'', 2, 2),
     (''tl_used'', 2, 2),
     (''tl_reserved1'', 12, 2)]"

abbreviation (input) o_tl_count :: nat where "o_tl_count \<equiv> 0"
abbreviation (input) o_tl_used :: nat where "o_tl_used \<equiv> 2"

record cmfs_truncate_log =
  tl_count :: u16
  tl_used :: u16

definition truncate_log_of :: "bool \<Rightarrow> bytes \<Rightarrow> nat \<Rightarrow> cmfs_truncate_log" where
  "truncate_log_of le buf b = \<lparr>
     tl_count = ld16 le buf (b + o_tl_count),
     tl_used = ld16 le buf (b + o_tl_used)\<rparr>"

text \<open>\<^verbatim>\<open>struct cmfs_inline_data\<close>: inline data header.\<close>

definition inline_data_fields :: "(string \<times> nat \<times> nat) list" where
  "inline_data_fields =
    [(''id_count'', 2, 2),
     (''id_reserved1'', 6, 2)]"

abbreviation (input) o_id_count :: nat where "o_id_count \<equiv> 0"

record cmfs_inline_data =
  id_count :: u16

definition inline_data_of :: "bool \<Rightarrow> bytes \<Rightarrow> nat \<Rightarrow> cmfs_inline_data" where
  "inline_data_of le buf b = \<lparr>
     id_count = ld16 le buf (b + o_id_count)\<rparr>"

text \<open>\<^verbatim>\<open>struct cmfs_extent_block\<close>: extent block.\<close>

definition extent_block_fields :: "(string \<times> nat \<times> nat) list" where
  "extent_block_fields =
    [(''h_signature'', 8, 1),
     (''h_suballoc_slot'', 2, 2),
     (''h_suballoc_bit'', 2, 2),
     (''h_fs_generation'', 4, 4),
     (''h_blkno'', 8, 8),
     (''h_next_leaf_block'', 8, 8),
     (''h_list'', 32, 8)]"

abbreviation (input) o_h_signature :: nat where "o_h_signature \<equiv> 0"
abbreviation (input) o_h_suballoc_slot :: nat where "o_h_suballoc_slot \<equiv> 8"
abbreviation (input) o_h_suballoc_bit :: nat where "o_h_suballoc_bit \<equiv> 10"
abbreviation (input) o_h_fs_generation :: nat where "o_h_fs_generation \<equiv> 12"
abbreviation (input) o_h_blkno :: nat where "o_h_blkno \<equiv> 16"
abbreviation (input) o_h_next_leaf_block :: nat where "o_h_next_leaf_block \<equiv> 24"
abbreviation (input) o_h_list :: nat where "o_h_list \<equiv> 32"

record cmfs_extent_block =
  h_signature :: bytes
  h_suballoc_slot :: u16
  h_suballoc_bit :: u16
  h_fs_generation :: u32
  h_blkno :: u64
  h_next_leaf_block :: u64

definition extent_block_of :: "bool \<Rightarrow> bytes \<Rightarrow> nat \<Rightarrow> cmfs_extent_block" where
  "extent_block_of le buf b = \<lparr>
     h_signature = field 8 (b + o_h_signature) buf,
     h_suballoc_slot = ld16 le buf (b + o_h_suballoc_slot),
     h_suballoc_bit = ld16 le buf (b + o_h_suballoc_bit),
     h_fs_generation = ld32 le buf (b + o_h_fs_generation),
     h_blkno = ld64 le buf (b + o_h_blkno),
     h_next_leaf_block = ld64 le buf (b + o_h_next_leaf_block)\<rparr>"

text \<open>\<^verbatim>\<open>struct cmfs_super_block\<close>: superblock, inside the inode of block 2.\<close>

definition super_block_fields :: "(string \<times> nat \<times> nat) list" where
  "super_block_fields =
    [(''s_major_rev_level'', 2, 2),
     (''s_minor_rev_level'', 2, 2),
     (''s_mnt_count'', 2, 2),
     (''s_max_mnt_count'', 2, 2),
     (''s_state'', 2, 2),
     (''s_errors'', 2, 2),
     (''s_checkinterval'', 4, 4),
     (''s_lastcheck'', 8, 8),
     (''s_creator_os'', 4, 4),
     (''s_feature_compat'', 4, 4),
     (''s_feature_incompat'', 4, 4),
     (''s_feature_ro_compat'', 4, 4),
     (''s_root_blkno'', 8, 8),
     (''s_system_dir_blkno'', 8, 8),
     (''s_blocksize_bits'', 4, 4),
     (''s_clustersize_bits'', 4, 4),
     (''s_label'', 64, 1),
     (''s_uuid'', 16, 1),
     (''s_tunefs_flag'', 2, 2),
     (''s_xattr_inline_size'', 2, 2),
     (''s_uuid_hash'', 4, 4),
     (''s_first_cluster_group'', 8, 8)]"

abbreviation (input) o_s_major_rev_level :: nat where "o_s_major_rev_level \<equiv> 0"
abbreviation (input) o_s_minor_rev_level :: nat where "o_s_minor_rev_level \<equiv> 2"
abbreviation (input) o_s_mnt_count :: nat where "o_s_mnt_count \<equiv> 4"
abbreviation (input) o_s_max_mnt_count :: nat where "o_s_max_mnt_count \<equiv> 6"
abbreviation (input) o_s_state :: nat where "o_s_state \<equiv> 8"
abbreviation (input) o_s_errors :: nat where "o_s_errors \<equiv> 10"
abbreviation (input) o_s_checkinterval :: nat where "o_s_checkinterval \<equiv> 12"
abbreviation (input) o_s_lastcheck :: nat where "o_s_lastcheck \<equiv> 16"
abbreviation (input) o_s_creator_os :: nat where "o_s_creator_os \<equiv> 24"
abbreviation (input) o_s_feature_compat :: nat where "o_s_feature_compat \<equiv> 28"
abbreviation (input) o_s_feature_incompat :: nat where "o_s_feature_incompat \<equiv> 32"
abbreviation (input) o_s_feature_ro_compat :: nat where "o_s_feature_ro_compat \<equiv> 36"
abbreviation (input) o_s_root_blkno :: nat where "o_s_root_blkno \<equiv> 40"
abbreviation (input) o_s_system_dir_blkno :: nat where "o_s_system_dir_blkno \<equiv> 48"
abbreviation (input) o_s_blocksize_bits :: nat where "o_s_blocksize_bits \<equiv> 56"
abbreviation (input) o_s_clustersize_bits :: nat where "o_s_clustersize_bits \<equiv> 60"
abbreviation (input) o_s_label :: nat where "o_s_label \<equiv> 64"
abbreviation (input) o_s_uuid :: nat where "o_s_uuid \<equiv> 128"
abbreviation (input) o_s_tunefs_flag :: nat where "o_s_tunefs_flag \<equiv> 144"
abbreviation (input) o_s_xattr_inline_size :: nat where "o_s_xattr_inline_size \<equiv> 146"
abbreviation (input) o_s_uuid_hash :: nat where "o_s_uuid_hash \<equiv> 148"
abbreviation (input) o_s_first_cluster_group :: nat where "o_s_first_cluster_group \<equiv> 152"

record cmfs_super_block =
  s_major_rev_level :: u16
  s_minor_rev_level :: u16
  s_mnt_count :: u16
  s_max_mnt_count :: u16
  s_state :: u16
  s_errors :: u16
  s_checkinterval :: u32
  s_lastcheck :: u64
  s_creator_os :: u32
  s_feature_compat :: u32
  s_feature_incompat :: u32
  s_feature_ro_compat :: u32
  s_root_blkno :: u64
  s_system_dir_blkno :: u64
  s_blocksize_bits :: u32
  s_clustersize_bits :: u32
  s_label :: bytes
  s_uuid :: bytes
  s_tunefs_flag :: u16
  s_xattr_inline_size :: u16
  s_uuid_hash :: u32
  s_first_cluster_group :: u64

definition super_block_of :: "bool \<Rightarrow> bytes \<Rightarrow> nat \<Rightarrow> cmfs_super_block" where
  "super_block_of le buf b = \<lparr>
     s_major_rev_level = ld16 le buf (b + o_s_major_rev_level),
     s_minor_rev_level = ld16 le buf (b + o_s_minor_rev_level),
     s_mnt_count = ld16 le buf (b + o_s_mnt_count),
     s_max_mnt_count = ld16 le buf (b + o_s_max_mnt_count),
     s_state = ld16 le buf (b + o_s_state),
     s_errors = ld16 le buf (b + o_s_errors),
     s_checkinterval = ld32 le buf (b + o_s_checkinterval),
     s_lastcheck = ld64 le buf (b + o_s_lastcheck),
     s_creator_os = ld32 le buf (b + o_s_creator_os),
     s_feature_compat = ld32 le buf (b + o_s_feature_compat),
     s_feature_incompat = ld32 le buf (b + o_s_feature_incompat),
     s_feature_ro_compat = ld32 le buf (b + o_s_feature_ro_compat),
     s_root_blkno = ld64 le buf (b + o_s_root_blkno),
     s_system_dir_blkno = ld64 le buf (b + o_s_system_dir_blkno),
     s_blocksize_bits = ld32 le buf (b + o_s_blocksize_bits),
     s_clustersize_bits = ld32 le buf (b + o_s_clustersize_bits),
     s_label = field 64 (b + o_s_label) buf,
     s_uuid = field 16 (b + o_s_uuid) buf,
     s_tunefs_flag = ld16 le buf (b + o_s_tunefs_flag),
     s_xattr_inline_size = ld16 le buf (b + o_s_xattr_inline_size),
     s_uuid_hash = ld32 le buf (b + o_s_uuid_hash),
     s_first_cluster_group = ld64 le buf (b + o_s_first_cluster_group)\<rparr>"

text \<open>\<^verbatim>\<open>struct cmfs_dinode\<close>: inode; the unions id1 and id2 are read through their own offsets.\<close>

definition dinode_fields :: "(string \<times> nat \<times> nat) list" where
  "dinode_fields =
    [(''i_signature'', 8, 1),
     (''i_generation'', 4, 4),
     (''i_links_count'', 4, 4),
     (''i_uid'', 4, 4),
     (''i_gid'', 4, 4),
     (''i_size'', 8, 8),
     (''i_atime'', 8, 8),
     (''i_ctime'', 8, 8),
     (''i_mtime'', 8, 8),
     (''i_dtime'', 8, 8),
     (''i_flags'', 4, 4),
     (''i_mode'', 2, 2),
     (''i_suballoc_slot'', 2, 2),
     (''i_blkno'', 8, 8),
     (''i_clusters'', 4, 4),
     (''i_fs_generation'', 4, 4),
     (''i_last_eb_blk'', 8, 8),
     (''i_atime_nsec'', 4, 4),
     (''i_ctime_nsec'', 4, 4),
     (''i_mtime_nsec'', 4, 4),
     (''i_attr'', 4, 4),
     (''i_xattr_loc'', 8, 8),
     (''i_refcount_loc'', 8, 8),
     (''i_suballoc_loc'', 8, 8),
     (''i_check'', 8, 4),
     (''i_dyn_features'', 2, 2),
     (''i_xattr_inline_size'', 2, 2),
     (''i_suballoc_bit'', 2, 2),
     (''i_reserved1'', 2, 2),
     (''id1'', 8, 8),
     (''id2'', 160, 8)]"

abbreviation (input) o_i_signature :: nat where "o_i_signature \<equiv> 0"
abbreviation (input) o_i_generation :: nat where "o_i_generation \<equiv> 8"
abbreviation (input) o_i_links_count :: nat where "o_i_links_count \<equiv> 12"
abbreviation (input) o_i_uid :: nat where "o_i_uid \<equiv> 16"
abbreviation (input) o_i_gid :: nat where "o_i_gid \<equiv> 20"
abbreviation (input) o_i_size :: nat where "o_i_size \<equiv> 24"
abbreviation (input) o_i_atime :: nat where "o_i_atime \<equiv> 32"
abbreviation (input) o_i_ctime :: nat where "o_i_ctime \<equiv> 40"
abbreviation (input) o_i_mtime :: nat where "o_i_mtime \<equiv> 48"
abbreviation (input) o_i_dtime :: nat where "o_i_dtime \<equiv> 56"
abbreviation (input) o_i_flags :: nat where "o_i_flags \<equiv> 64"
abbreviation (input) o_i_mode :: nat where "o_i_mode \<equiv> 68"
abbreviation (input) o_i_suballoc_slot :: nat where "o_i_suballoc_slot \<equiv> 70"
abbreviation (input) o_i_blkno :: nat where "o_i_blkno \<equiv> 72"
abbreviation (input) o_i_clusters :: nat where "o_i_clusters \<equiv> 80"
abbreviation (input) o_i_fs_generation :: nat where "o_i_fs_generation \<equiv> 84"
abbreviation (input) o_i_last_eb_blk :: nat where "o_i_last_eb_blk \<equiv> 88"
abbreviation (input) o_i_atime_nsec :: nat where "o_i_atime_nsec \<equiv> 96"
abbreviation (input) o_i_ctime_nsec :: nat where "o_i_ctime_nsec \<equiv> 100"
abbreviation (input) o_i_mtime_nsec :: nat where "o_i_mtime_nsec \<equiv> 104"
abbreviation (input) o_i_attr :: nat where "o_i_attr \<equiv> 108"
abbreviation (input) o_i_xattr_loc :: nat where "o_i_xattr_loc \<equiv> 112"
abbreviation (input) o_i_refcount_loc :: nat where "o_i_refcount_loc \<equiv> 120"
abbreviation (input) o_i_suballoc_loc :: nat where "o_i_suballoc_loc \<equiv> 128"
abbreviation (input) o_i_dyn_features :: nat where "o_i_dyn_features \<equiv> 144"
abbreviation (input) o_i_xattr_inline_size :: nat where "o_i_xattr_inline_size \<equiv> 146"
abbreviation (input) o_i_suballoc_bit :: nat where "o_i_suballoc_bit \<equiv> 148"
abbreviation (input) o_id1 :: nat where "o_id1 \<equiv> 152"
abbreviation (input) o_id2 :: nat where "o_id2 \<equiv> 160"

record cmfs_dinode =
  i_signature :: bytes
  i_generation :: u32
  i_links_count :: u32
  i_uid :: u32
  i_gid :: u32
  i_size :: u64
  i_atime :: u64
  i_ctime :: u64
  i_mtime :: u64
  i_dtime :: u64
  i_flags :: u32
  i_mode :: u16
  i_suballoc_slot :: u16
  i_blkno :: u64
  i_clusters :: u32
  i_fs_generation :: u32
  i_last_eb_blk :: u64
  i_atime_nsec :: u32
  i_ctime_nsec :: u32
  i_mtime_nsec :: u32
  i_attr :: u32
  i_xattr_loc :: u64
  i_refcount_loc :: u64
  i_suballoc_loc :: u64
  i_dyn_features :: u16
  i_xattr_inline_size :: u16
  i_suballoc_bit :: u16

definition dinode_of :: "bool \<Rightarrow> bytes \<Rightarrow> nat \<Rightarrow> cmfs_dinode" where
  "dinode_of le buf b = \<lparr>
     i_signature = field 8 (b + o_i_signature) buf,
     i_generation = ld32 le buf (b + o_i_generation),
     i_links_count = ld32 le buf (b + o_i_links_count),
     i_uid = ld32 le buf (b + o_i_uid),
     i_gid = ld32 le buf (b + o_i_gid),
     i_size = ld64 le buf (b + o_i_size),
     i_atime = ld64 le buf (b + o_i_atime),
     i_ctime = ld64 le buf (b + o_i_ctime),
     i_mtime = ld64 le buf (b + o_i_mtime),
     i_dtime = ld64 le buf (b + o_i_dtime),
     i_flags = ld32 le buf (b + o_i_flags),
     i_mode = ld16 le buf (b + o_i_mode),
     i_suballoc_slot = ld16 le buf (b + o_i_suballoc_slot),
     i_blkno = ld64 le buf (b + o_i_blkno),
     i_clusters = ld32 le buf (b + o_i_clusters),
     i_fs_generation = ld32 le buf (b + o_i_fs_generation),
     i_last_eb_blk = ld64 le buf (b + o_i_last_eb_blk),
     i_atime_nsec = ld32 le buf (b + o_i_atime_nsec),
     i_ctime_nsec = ld32 le buf (b + o_i_ctime_nsec),
     i_mtime_nsec = ld32 le buf (b + o_i_mtime_nsec),
     i_attr = ld32 le buf (b + o_i_attr),
     i_xattr_loc = ld64 le buf (b + o_i_xattr_loc),
     i_refcount_loc = ld64 le buf (b + o_i_refcount_loc),
     i_suballoc_loc = ld64 le buf (b + o_i_suballoc_loc),
     i_dyn_features = ld16 le buf (b + o_i_dyn_features),
     i_xattr_inline_size = ld16 le buf (b + o_i_xattr_inline_size),
     i_suballoc_bit = ld16 le buf (b + o_i_suballoc_bit)\<rparr>"

text \<open>\<^verbatim>\<open>struct cmfs_dir_entry\<close>: directory entry (packed).\<close>

definition dir_entry_fields :: "(string \<times> nat \<times> nat) list" where
  "dir_entry_fields =
    [(''inode'', 8, 1),
     (''rec_len'', 2, 1),
     (''name_len'', 1, 1),
     (''file_type'', 1, 1),
     (''name'', 255, 1)]"

abbreviation (input) o_d_inode :: nat where "o_d_inode \<equiv> 0"
abbreviation (input) o_d_rec_len :: nat where "o_d_rec_len \<equiv> 8"
abbreviation (input) o_d_name_len :: nat where "o_d_name_len \<equiv> 10"
abbreviation (input) o_d_file_type :: nat where "o_d_file_type \<equiv> 11"
abbreviation (input) o_d_name :: nat where "o_d_name \<equiv> 12"

record cmfs_dir_entry =
  d_inode :: u64
  d_rec_len :: u16
  d_name_len :: u8
  d_file_type :: u8
  d_name :: bytes

definition dir_entry_of :: "bool \<Rightarrow> bytes \<Rightarrow> nat \<Rightarrow> cmfs_dir_entry" where
  "dir_entry_of le buf b = \<lparr>
     d_inode = ld64 le buf (b + o_d_inode),
     d_rec_len = ld16 le buf (b + o_d_rec_len),
     d_name_len = ld8 buf (b + o_d_name_len),
     d_file_type = ld8 buf (b + o_d_file_type),
     d_name = field (unat (ld8 buf (b + o_d_name_len))) (b + o_d_name) buf\<rparr>"

text \<open>\<^verbatim>\<open>struct cmfs_dir_block_trailer\<close>: trailer of a directory block.\<close>

definition dir_trailer_fields :: "(string \<times> nat \<times> nat) list" where
  "dir_trailer_fields =
    [(''db_compat_inode'', 8, 8),
     (''db_compat_rec_len'', 2, 2),
     (''db_compat_name_len'', 1, 1),
     (''db_reserved0'', 1, 1),
     (''db_reserved1'', 2, 2),
     (''db_free_rec_len'', 2, 2),
     (''db_signature'', 8, 1),
     (''db_reserved2'', 8, 8),
     (''db_free_next'', 8, 8),
     (''db_blkno'', 8, 8),
     (''db_parent_dinode'', 8, 8),
     (''db_reserved3'', 8, 8),
     (''db_check'', 8, 4)]"

abbreviation (input) o_db_compat_inode :: nat where "o_db_compat_inode \<equiv> 0"
abbreviation (input) o_db_compat_rec_len :: nat where "o_db_compat_rec_len \<equiv> 8"
abbreviation (input) o_db_compat_name_len :: nat where "o_db_compat_name_len \<equiv> 10"
abbreviation (input) o_db_free_rec_len :: nat where "o_db_free_rec_len \<equiv> 14"
abbreviation (input) o_db_signature :: nat where "o_db_signature \<equiv> 16"
abbreviation (input) o_db_free_next :: nat where "o_db_free_next \<equiv> 32"
abbreviation (input) o_db_blkno :: nat where "o_db_blkno \<equiv> 40"
abbreviation (input) o_db_parent_dinode :: nat where "o_db_parent_dinode \<equiv> 48"

record cmfs_dir_block_trailer =
  db_compat_inode :: u64
  db_compat_rec_len :: u16
  db_compat_name_len :: u8
  db_free_rec_len :: u16
  db_signature :: bytes
  db_free_next :: u64
  db_blkno :: u64
  db_parent_dinode :: u64

definition dir_trailer_of :: "bool \<Rightarrow> bytes \<Rightarrow> nat \<Rightarrow> cmfs_dir_block_trailer" where
  "dir_trailer_of le buf b = \<lparr>
     db_compat_inode = ld64 le buf (b + o_db_compat_inode),
     db_compat_rec_len = ld16 le buf (b + o_db_compat_rec_len),
     db_compat_name_len = ld8 buf (b + o_db_compat_name_len),
     db_free_rec_len = ld16 le buf (b + o_db_free_rec_len),
     db_signature = field 8 (b + o_db_signature) buf,
     db_free_next = ld64 le buf (b + o_db_free_next),
     db_blkno = ld64 le buf (b + o_db_blkno),
     db_parent_dinode = ld64 le buf (b + o_db_parent_dinode)\<rparr>"

text \<open>\<^verbatim>\<open>struct cmfs_group_desc\<close>: allocator group; the bitmap follows it.\<close>

definition group_desc_fields :: "(string \<times> nat \<times> nat) list" where
  "group_desc_fields =
    [(''bg_signature'', 8, 1),
     (''bg_size'', 2, 2),
     (''bg_bits'', 2, 2),
     (''bg_free_bits_count'', 2, 2),
     (''bg_chain'', 2, 2),
     (''bg_generation'', 4, 4),
     (''bg_reserved1'', 4, 4),
     (''bg_next_group'', 8, 8),
     (''bg_parent_dinode'', 8, 8),
     (''bg_blkno'', 8, 8),
     (''bg_check'', 8, 4),
     (''bg_reserved2'', 8, 8)]"

abbreviation (input) o_bg_signature :: nat where "o_bg_signature \<equiv> 0"
abbreviation (input) o_bg_size :: nat where "o_bg_size \<equiv> 8"
abbreviation (input) o_bg_bits :: nat where "o_bg_bits \<equiv> 10"
abbreviation (input) o_bg_free_bits_count :: nat where "o_bg_free_bits_count \<equiv> 12"
abbreviation (input) o_bg_chain :: nat where "o_bg_chain \<equiv> 14"
abbreviation (input) o_bg_generation :: nat where "o_bg_generation \<equiv> 16"
abbreviation (input) o_bg_next_group :: nat where "o_bg_next_group \<equiv> 24"
abbreviation (input) o_bg_parent_dinode :: nat where "o_bg_parent_dinode \<equiv> 32"
abbreviation (input) o_bg_blkno :: nat where "o_bg_blkno \<equiv> 40"

record cmfs_group_desc =
  bg_signature :: bytes
  bg_size :: u16
  bg_bits :: u16
  bg_free_bits_count :: u16
  bg_chain :: u16
  bg_generation :: u32
  bg_next_group :: u64
  bg_parent_dinode :: u64
  bg_blkno :: u64

definition group_desc_of :: "bool \<Rightarrow> bytes \<Rightarrow> nat \<Rightarrow> cmfs_group_desc" where
  "group_desc_of le buf b = \<lparr>
     bg_signature = field 8 (b + o_bg_signature) buf,
     bg_size = ld16 le buf (b + o_bg_size),
     bg_bits = ld16 le buf (b + o_bg_bits),
     bg_free_bits_count = ld16 le buf (b + o_bg_free_bits_count),
     bg_chain = ld16 le buf (b + o_bg_chain),
     bg_generation = ld32 le buf (b + o_bg_generation),
     bg_next_group = ld64 le buf (b + o_bg_next_group),
     bg_parent_dinode = ld64 le buf (b + o_bg_parent_dinode),
     bg_blkno = ld64 le buf (b + o_bg_blkno)\<rparr>"

text \<open>The members of the union \<open>id1\<close> and of the union \<open>id2\<close> of an inode.\<close>

abbreviation (input) o_i_rdev :: nat where "o_i_rdev \<equiv> 152"
abbreviation (input) o_i_used :: nat where "o_i_used \<equiv> 152"
abbreviation (input) o_i_total :: nat where "o_i_total \<equiv> 156"
abbreviation (input) o_ij_flags :: nat where "o_ij_flags \<equiv> 152"
abbreviation (input) o_ij_recovery_generation :: nat where "o_ij_recovery_generation \<equiv> 156"

text \<open>Flexible array members, relative to their structure.\<close>

abbreviation (input) o_l_recs :: nat where "o_l_recs \<equiv> 32"
abbreviation (input) o_cl_recs :: nat where "o_cl_recs \<equiv> 16"
abbreviation (input) o_la_bitmap :: nat where "o_la_bitmap \<equiv> 16"
abbreviation (input) o_tl_recs :: nat where "o_tl_recs \<equiv> 16"
abbreviation (input) o_id_data :: nat where "o_id_data \<equiv> 8"
abbreviation (input) o_bg_bitmap :: nat where "o_bg_bitmap \<equiv> 64"

section \<open>Sizes that depend on the block size\<close>

text \<open>
  An \<^verbatim>\<open>int\<close> divided by a \<^verbatim>\<open>sizeof\<close>: the division is done in the unsigned 64-bit
  type and the quotient is converted back.
\<close>

definition c_div_sizeof :: "int \<Rightarrow> nat \<Rightarrow> int" where
  "c_div_sizeof i n = sint (ucast ((word_of_int i :: u64) div of_nat n) :: u32)"

definition cmfs_group_bitmap_size :: "int \<Rightarrow> int" where
  "cmfs_group_bitmap_size blocksize = blocksize - int o_bg_bitmap"

definition cmfs_chain_recs_per_inode :: "int \<Rightarrow> int" where
  "cmfs_chain_recs_per_inode blocksize =
     c_div_sizeof (blocksize - int (o_id2 + o_cl_recs)) (c_sizeof chain_rec_fields)"

definition cmfs_max_inline_data :: "int \<Rightarrow> int" where
  "cmfs_max_inline_data blocksize = blocksize - int (o_id2 + o_id_data)"

definition cmfs_local_alloc_size :: "int \<Rightarrow> int" where
  "cmfs_local_alloc_size blocksize = blocksize - int (o_id2 + o_la_bitmap)"

definition cmfs_truncate_recs_per_inode :: "int \<Rightarrow> int" where
  "cmfs_truncate_recs_per_inode blocksize =
     c_div_sizeof (blocksize - int (o_id2 + o_tl_recs)) (c_sizeof truncate_rec_fields)"

definition cmfs_extent_recs_per_inode :: "int \<Rightarrow> int" where
  "cmfs_extent_recs_per_inode blocksize =
     c_div_sizeof (blocksize - int (o_id2 + o_l_recs)) (c_sizeof extent_rec_fields)"

end
