(* ===== verification/Unix_io.thy ===== *)
theory Unix_io
  imports Rbtree Layout "HOL-Library.Signed_Division"
begin

text \<open>
  The I/O channel of \<^verbatim>\<open>libcmfs/unix_io.c\<close>: block reads and writes on a device, with an
  optional cache of blocks. The state is the channel, which carries the device:
  the bytes it stores and a script that says how the next system calls end
  (a failure, or a transfer of fewer bytes than asked). An empty script is a device
  that always transfers as much as it can. Cache blocks are numbered by their
  position in the metadata buffer; the lookup tree holds these numbers and compares
  the block numbers stored in the blocks, as the C code does through \<^verbatim>\<open>rb_entry\<close>; the
  LRU list is the list of the numbers from \<^verbatim>\<open>ic_lru.next\<close> on. \<open>None\<close> is a failed
  assertion or an access through the list head of an empty list.
\<close>

section \<open>State\<close>

record io_cache_block =
  icb_blkno :: u64
  icb_buf :: bytes

record io_cache =
  ic_nr_blocks :: nat
  ic_lru :: "nat list"
  ic_lookup :: "nat rb_node"
  ic_blocks :: "io_cache_block list"
  ic_metadata_buffer_len :: nat
  ic_data_buffer_len :: nat
  ic_locked :: bool
  ic_use_count :: int
  ic_hits :: u32
  ic_misses :: u32
  ic_inserts :: u32
  ic_removes :: u32

datatype sys_outcome = Fail nat | Limit nat

record io_channel =
  io_blksize :: int
  io_error :: nat
  io_nocache :: bool
  io_cache :: "io_cache option"
  io_bytes_read :: u64
  io_bytes_written :: u64
  dev_data :: bytes
  dev_script :: "sys_outcome list"
  heap_script :: "bool list"

abbreviation (input) ONE_MEGABYTE :: int where "ONE_MEGABYTE \<equiv> 1048576"

section \<open>The environment: allocation and system calls\<close>

text \<open>
  The head of \<open>heap_script\<close> says whether the next allocation fails. The code looks at \<^verbatim>\<open>errno\<close> after
  \<^verbatim>\<open>posix_memalign\<close> has returned an error; the standard does not promise that it is set, the
  allocator of the GNU C library sets it to \<^verbatim>\<open>ENOMEM\<close>, and this is the branch taken here. The
  other branch is \<^verbatim>\<open>abort\<close>.
\<close>

definition cmfs_malloc_block :: "(io_channel, unit) io" where
  "cmfs_malloc_block ch =
     (case heap_script ch of
        [] \<Rightarrow> (Inr (), ch)
      | failing # rest \<Rightarrow>
          ((if failing then Inl CMFS_ET_NO_MEMORY else Inr ()), ch\<lparr>heap_script := rest\<rparr>))"

text \<open>
  \<open>pread64\<close> and \<open>pwrite64\<close> on a device of fixed size: a negative offset is an error
  (EINVAL), reading at the end transfers nothing, writing at the end is an error
  (ENOSPC); the script may fail the call or limit it to some positive size.
\<close>

definition pread64 :: "nat \<Rightarrow> u64 \<Rightarrow> io_channel \<Rightarrow> (nat + bytes) \<times> io_channel" where
  "pread64 n location ch =
     (let ch' = ch\<lparr>dev_script := tl (dev_script ch)\<rparr>;
          full = (if sint location < 0 then Inl 22 else Inr (field n (unat location) (dev_data ch)))
      in case dev_script ch of
           Fail e # _ \<Rightarrow> (Inl e, ch')
         | Limit k # _ \<Rightarrow> (map_sum id (take (max 1 k)) full, ch')
         | [] \<Rightarrow> (full, ch'))"

definition pwrite64 :: "bytes \<Rightarrow> u64 \<Rightarrow> io_channel \<Rightarrow> (nat + nat) \<times> io_channel" where
  "pwrite64 bs location ch =
     (let ch' = ch\<lparr>dev_script := tl (dev_script ch)\<rparr>;
          off = unat location;
          n = min (length bs) (length (dev_data ch) - off);
          write = (\<lambda>k. (Inr k, ch'\<lparr>dev_data := put off (take k bs) (dev_data ch)\<rparr>))
      in case dev_script ch of
           Fail e # _ \<Rightarrow> (Inl e, ch')
         | script \<Rightarrow>
             if sint location < 0 then (Inl 22, ch')
             else if n = 0 then (Inl 28, ch')
             else write (case script of Limit k # _ \<Rightarrow> min (max 1 k) n | _ \<Rightarrow> n))"

section \<open>Uncached transfers\<close>

text \<open>
  The arithmetic of an \<^verbatim>\<open>int\<close>: 32 bits, wrapping around as the compiled code does. The
  language leaves such an overflow undefined; nothing below rests on more than that the
  product of two numbers is taken in 32 bits.
\<close>

definition c_int :: "int \<Rightarrow> int" where
  "c_int n = sint (word_of_int n :: u32)"

lemma c_int_id: "- (2 ^ 31) \<le> k \<Longrightarrow> k < 2 ^ 31 \<Longrightarrow> c_int k = k"
  by (simp add: c_int_def sint_sbintrunc' signed_take_bit_int_eq_self)

lemma c_int_mod:
  assumes "0 \<le> k"
  shows "k mod 2 ^ 32 = 0 \<Longrightarrow> c_int k = 0" and "2 ^ 31 \<le> k mod 2 ^ 32 \<Longrightarrow> c_int k < 0"
proof -
  have c: "c_int k = (k + 2 ^ 31) mod 2 ^ 32 - 2 ^ 31"
    by (simp add: c_int_def sint_sbintrunc' signed_take_bit_eq_take_bit_shift take_bit_eq_mod)
  show "c_int k = 0" if z: "k mod 2 ^ 32 = 0"
  proof -
    have "(k + 2 ^ 31) mod 2 ^ 32 = (k mod 2 ^ 32 + 2 ^ 31) mod (2 ^ 32 :: int)"
      by (rule mod_add_left_eq [symmetric])
    then show ?thesis using c z by simp
  qed
  show "c_int k < 0" if z: "2 ^ 31 \<le> k mod 2 ^ 32"
  proof -
    have "(k + 2 ^ 31) mod 2 ^ 32 = (k mod 2 ^ 32 + 2 ^ 31) mod (2 ^ 32 :: int)"
      by (rule mod_add_left_eq [symmetric])
    also have "\<dots> = (k mod 2 ^ 32 + 2 ^ 31 - 2 ^ 32) mod (2 ^ 32 :: int)"
      by (rule minus_mod_self2 [symmetric])
    also have "\<dots> = k mod 2 ^ 32 + 2 ^ 31 - 2 ^ 32"
      using z by (intro mod_pos_pos_trivial) simp_all
    finally have "c_int k = k mod 2 ^ 32 - 2 ^ 32" using c by simp
    then show ?thesis by (simp add: pos_mod_bound)
  qed
qed

definition one_meg_of_blocks :: "io_channel \<Rightarrow> int" where
  "one_meg_of_blocks ch =
     (let count = c_int (ONE_MEGABYTE + io_blksize ch - 1) in count sdiv io_blksize ch)"

text \<open>
  The number of bytes of a request; a negative count is in bytes. The product of two
  \<^verbatim>\<open>int\<close>s is an \<^verbatim>\<open>int\<close>, and is only then widened to the \<^verbatim>\<open>ssize_t\<close> it is stored in: it may be
  zero or negative for a request that asks for a positive number of blocks.
\<close>

definition io_size :: "io_channel \<Rightarrow> int \<Rightarrow> int" where
  "io_size ch count = c_int (if count < 0 then - count else count * io_blksize ch)"

definition io_location :: "io_channel \<Rightarrow> u64 \<Rightarrow> u64" where
  "io_location ch blkno = blkno * word_of_int (io_blksize ch)"

lemma length_pread64: "fst (pread64 n loc ch) = Inr rd \<Longrightarrow> length rd \<le> n"
  by (auto simp: pread64_def Let_def field_def split: list.splits sys_outcome.splits if_splits)

function unix_read_loop ::
  "nat \<Rightarrow> u64 \<Rightarrow> bytes \<Rightarrow> io_channel \<Rightarrow> (errcode option \<times> bytes) \<times> io_channel" where
  "unix_read_loop n location data ch =
     (if length data < n then
        (case pread64 (n - length data) (location + of_nat (length data)) ch of
           (Inl e, ch') \<Rightarrow> ((Some CMFS_ET_IO, data), ch'\<lparr>io_error := e\<rparr>)
         | (Inr rd, ch') \<Rightarrow>
             if rd = [] then ((Some CMFS_ET_IO, data), ch')
             else unix_read_loop n location (data @ rd) ch')
      else ((None, data), ch))"
  by pat_completeness auto
termination
  by (relation "measure (\<lambda>(n, loc, data, ch). n - length data)") (auto simp: neq_Nil_conv)

declare unix_read_loop.simps [simp del]

text \<open>
  A negative size leaves the loop at once and counts as a short read: the rest of the
  buffer, a negative number of bytes, is cleared, which is all of the memory.
\<close>

definition unix_io_read_block :: "u64 \<Rightarrow> int \<Rightarrow> (io_channel, bytes) io" where
  "unix_io_read_block blkno count ch =
     (if io_size ch count < 0 then (Inl C_UNDEFINED, ch)
      else
      let n = nat (io_size ch count);
          ((ret, data), ch) = unix_read_loop n (io_location ch blkno) [] ch;
          (ret, data') = (if ret = None \<and> length data \<noteq> n
                          then (Some CMFS_ET_SHORT_READ, data @ replicate (n - length data) 0)
                          else (ret, data));
          ch = ch\<lparr>io_bytes_read := io_bytes_read ch + of_nat (length data)\<rparr>
      in case ret of Some e \<Rightarrow> (Inl e, ch) | None \<Rightarrow> (Inr data', ch))"

function unix_write_loop ::
  "bytes \<Rightarrow> u64 \<Rightarrow> nat \<Rightarrow> io_channel \<Rightarrow> (errcode option \<times> nat) \<times> io_channel" where
  "unix_write_loop data location tot ch =
     (if tot < length data then
        (case pwrite64 (drop tot data) (location + of_nat tot) ch of
           (Inl e, ch') \<Rightarrow> ((Some CMFS_ET_IO, tot), ch'\<lparr>io_error := e\<rparr>)
         | (Inr wr, ch') \<Rightarrow>
             if wr = 0 then ((Some CMFS_ET_IO, tot), ch')
             else unix_write_loop data location (tot + wr) ch')
      else ((None, tot), ch))"
  by pat_completeness auto
termination
  by (relation "measure (\<lambda>(data, loc, tot, ch). length data - tot)") auto

declare unix_write_loop.simps [simp del]

text \<open>The code's \<^verbatim>\<open>ret\<close>, the number of whole blocks written, and the channel.\<close>

definition unix_io_write_block_full ::
  "u64 \<Rightarrow> int \<Rightarrow> bytes \<Rightarrow> io_channel \<Rightarrow> (errcode option \<times> nat) \<times> io_channel" where
  "unix_io_write_block_full blkno count data ch =
     (let n = io_size ch count;
          ((ret, tot), ch) = unix_write_loop (take (nat n) data) (io_location ch blkno) 0 ch;
          completed = nat (int tot div io_blksize ch);
          ret = (if ret = None \<and> int tot \<noteq> n then Some CMFS_ET_SHORT_WRITE else ret)
      in ((ret, completed), ch\<lparr>io_bytes_written := io_bytes_written ch + of_nat tot\<rparr>))"

definition ret_to_io :: "errcode option \<Rightarrow> errcode + unit" where
  "ret_to_io ret = (case ret of None \<Rightarrow> Inr () | Some e \<Rightarrow> Inl e)"

definition unix_io_write_block :: "u64 \<Rightarrow> int \<Rightarrow> bytes \<Rightarrow> (io_channel, unit) io" where
  "unix_io_write_block blkno count data ch =
     (case unix_io_write_block_full blkno count data ch of
        ((ret, completed), ch') \<Rightarrow> (ret_to_io ret, ch'))"

section \<open>The cache\<close>

abbreviation (input) icb :: "io_cache \<Rightarrow> nat \<Rightarrow> io_cache_block" where
  "icb ic i \<equiv> ic_blocks ic ! i"

fun io_cache_search :: "io_cache_block list \<Rightarrow> u64 \<Rightarrow> nat rb_node \<Rightarrow> nat option" where
  "io_cache_search bs blkno NULL = None"
| "io_cache_search bs blkno (Node c l i r) =
     (if blkno < icb_blkno (bs ! i) then io_cache_search bs blkno l
      else if blkno > icb_blkno (bs ! i) then io_cache_search bs blkno r
      else Some i)"

definition io_cache_lookup :: "io_cache \<Rightarrow> u64 \<Rightarrow> nat option" where
  "io_cache_lookup ic blkno = io_cache_search (ic_blocks ic) blkno (ic_lookup ic)"

text \<open>The empty link the search of the insertion ends at; \<open>None\<close> is \<^verbatim>\<open>assert(0)\<close>.\<close>

fun io_cache_link ::
  "io_cache_block list \<Rightarrow> u64 \<Rightarrow> nat rb_node \<Rightarrow> nat frame list \<Rightarrow> nat frame list option" where
  "io_cache_link bs blkno NULL p = Some p"
| "io_cache_link bs blkno (Node c l i r) p =
     (if blkno < icb_blkno (bs ! i) then io_cache_link bs blkno l (InLeft c i r # p)
      else if blkno > icb_blkno (bs ! i) then io_cache_link bs blkno r (InRight c l i # p)
      else None)"

definition io_cache_insert :: "io_cache \<Rightarrow> nat \<Rightarrow> io_cache option" where
  "io_cache_insert ic i =
     Option.bind (io_cache_link (ic_blocks ic) (icb_blkno (icb ic i)) (ic_lookup ic) []) (\<lambda>p.
     Option.bind (rb_insert_color (rb_link_node i) p) (\<lambda>t.
     Some (ic\<lparr>ic_lookup := t, ic_inserts := ic_inserts ic + 1\<rparr>)))"

definition io_cache_seen :: "io_cache \<Rightarrow> nat \<Rightarrow> io_cache" where
  "io_cache_seen ic i = ic\<lparr>ic_lru := remove1 i (ic_lru ic) @ [i]\<rparr>"

definition io_cache_unsee :: "io_cache \<Rightarrow> nat \<Rightarrow> io_cache" where
  "io_cache_unsee ic i = ic\<lparr>ic_lru := i # remove1 i (ic_lru ic)\<rparr>"

text \<open>The cursor of a cache block's own tree node.\<close>

fun cursor_of :: "'a \<Rightarrow> 'a rb_node \<Rightarrow> 'a frame list \<Rightarrow> 'a cursor option" where
  "cursor_of x NULL p = None"
| "cursor_of x (Node c l a r) p =
     (if a = x then Some (Node c l a r, p)
      else case cursor_of x l (InLeft c a r # p) of
             Some cur \<Rightarrow> Some cur
           | None \<Rightarrow> cursor_of x r (InRight c l a # p))"

definition io_cache_disconnect :: "io_cache \<Rightarrow> nat \<Rightarrow> io_cache option" where
  "io_cache_disconnect ic i =
     (if icb_blkno (icb ic i) \<noteq> UINT64_MAX then
        Option.bind (cursor_of i (ic_lookup ic) []) (\<lambda>cur.
        Option.bind (rb_erase cur) (\<lambda>t.
        Some (ic\<lparr>ic_lookup := t,
                 ic_blocks := (ic_blocks ic)[i := icb ic i\<lparr>icb_blkno := UINT64_MAX\<rparr>]\<rparr>)))
      else Some ic)"

definition io_cache_pop_lru :: "io_cache \<Rightarrow> (nat \<times> io_cache) option" where
  "io_cache_pop_lru ic =
     (case ic_lru ic of
        [] \<Rightarrow> None
      | i # _ \<Rightarrow>
          Option.bind (io_cache_disconnect ic i)
            (\<lambda>ic. Some (i, ic\<lparr>ic_removes := ic_removes ic + 1\<rparr>)))"

definition set_buf :: "io_cache \<Rightarrow> nat \<Rightarrow> bytes \<Rightarrow> io_cache" where
  "set_buf ic i b = ic\<lparr>ic_blocks := (ic_blocks ic)[i := icb ic i\<lparr>icb_buf := b\<rparr>]\<rparr>"

text \<open>Stealing the least recently used block for \<open>blkno\<close>.\<close>

definition io_cache_steal :: "io_cache \<Rightarrow> u64 \<Rightarrow> (nat \<times> io_cache) option" where
  "io_cache_steal ic blkno =
     Option.bind (io_cache_pop_lru ic) (\<lambda>(i, ic).
     Option.bind (io_cache_insert
         (ic\<lparr>ic_blocks := (ic_blocks ic)[i := icb ic i\<lparr>icb_blkno := blkno\<rparr>]\<rparr>) i) (\<lambda>ic.
     Some (i, ic)))"

definition io_cache_touch :: "bool \<Rightarrow> io_cache \<Rightarrow> nat \<Rightarrow> io_cache" where
  "io_cache_touch nocache ic i = (if nocache then io_cache_unsee ic i else io_cache_seen ic i)"

section \<open>Cached transfers\<close>

text \<open>The leading cached blocks of a request; each is counted as a hit.\<close>

fun good_loop :: "io_cache \<Rightarrow> u64 \<Rightarrow> nat \<Rightarrow> nat \<Rightarrow> nat \<times> io_cache" where
  "good_loop ic blkno good 0 = (good, ic)"
| "good_loop ic blkno good (Suc k) =
     (case io_cache_lookup ic (blkno + of_nat good) of
        None \<Rightarrow> (good, ic)
      | Some i \<Rightarrow> good_loop (ic\<lparr>ic_hits := ic_hits ic + 1\<rparr>) blkno (good + 1) k)"

text \<open>
  The loop that brings cache and buffer together. \<open>k\<close> blocks are left from index \<open>i\<close>;
  \<open>src\<close> is what was read for the blocks from \<open>good\<close> on.
\<close>

fun read_sync ::
  "nat \<Rightarrow> bool \<Rightarrow> u64 \<Rightarrow> nat \<Rightarrow> bytes \<Rightarrow> nat \<Rightarrow> nat \<Rightarrow> io_cache \<Rightarrow> (bytes \<times> io_cache) option" where
  "read_sync bs nocache blkno good src 0 i ic = Some ([], ic)"
| "read_sync bs nocache blkno good src (Suc k) i ic =
     (let found = io_cache_lookup ic (blkno + of_nat i) in
      if i < good then
        (case found of
           None \<Rightarrow> None
         | Some j \<Rightarrow>
             Option.bind (read_sync bs nocache blkno good src k (i + 1) (io_cache_touch nocache ic j))
               (\<lambda>(data, ic'). Some (icb_buf (icb ic j) @ data, ic')))
      else
        let blk = field bs (bs * (i - good)) src in
        (case found of
           None \<Rightarrow>
             if nocache then
               Option.bind (read_sync bs nocache blkno good src k (i + 1) ic)
                 (\<lambda>(data, ic'). Some (blk @ data, ic'))
             else
               Option.bind (io_cache_steal ic (blkno + of_nat i)) (\<lambda>(j, ic).
               Option.bind (read_sync bs nocache blkno good src k (i + 1)
                              (io_cache_touch nocache (set_buf ic j blk) j))
                 (\<lambda>(data, ic'). Some (blk @ data, ic')))
         | Some j \<Rightarrow>
             Option.bind (read_sync bs nocache blkno good src k (i + 1) (io_cache_touch nocache ic j))
               (\<lambda>(data, ic'). Some (blk @ data, ic'))))"

definition io_cache_read_blocks :: "u64 \<Rightarrow> int \<Rightarrow> bool \<Rightarrow> (io_channel, bytes) io" where
  "io_cache_read_blocks blkno count nocache ch =
     (case io_cache ch of None \<Rightarrow> (Inl C_UNDEFINED, ch) | Some ic \<Rightarrow>
      let (good, ic) = good_loop ic blkno 0 (nat count);
          (ret, ic, ch) =
            (if int good < count then
               (case unix_io_read_block (blkno + of_nat good) (count - int good) ch of
                  (ret, ch) \<Rightarrow> (ret, ic\<lparr>ic_misses := ic_misses ic + of_int (count - int good)\<rparr>, ch))
             else (Inr [], ic, ch));
          ch = ch\<lparr>io_cache := Some ic\<rparr>
      in case ret of
           Inl e \<Rightarrow> (Inl e, ch)
         | Inr src \<Rightarrow>
             (case read_sync (nat (io_blksize ch)) nocache blkno good src (nat count) 0 ic of
                None \<Rightarrow> (Inl C_UNDEFINED, ch)
              | Some (data, ic) \<Rightarrow> (Inr data, ch\<lparr>io_cache := Some ic\<rparr>)))"

text \<open>
  The hunks of at most a megabyte. A negative count is handed down once and ends the
  loop. \<open>todo\<close> is positive for every channel with a positive block size; with a
  non-positive one the C code divides by zero or does not end.
\<close>

function read_hunks :: "int \<Rightarrow> u64 \<Rightarrow> int \<Rightarrow> bool \<Rightarrow> (io_channel, bytes) io" where
  "read_hunks todo blkno count nocache ch =
     (if count = 0 then (Inr [], ch)
      else
        let todo = (if todo > count then count else todo)
        in if todo = 0 \<or> (todo < 0 \<and> count > 0) then (Inl C_UNDEFINED, ch)
           else case io_cache_read_blocks blkno todo nocache ch of
             (Inl e, ch) \<Rightarrow> (Inl e, ch)
           | (Inr d, ch) \<Rightarrow>
               (if todo < 0 then (Inr d, ch)
                else case read_hunks todo (blkno + word_of_int todo) (count - todo) nocache ch of
                  (Inl e, ch) \<Rightarrow> (Inl e, ch)
                | (Inr d', ch) \<Rightarrow> (Inr (d @ d'), ch)))"
  by pat_completeness auto
termination
  by (relation "measure (\<lambda>(todo, blkno, count, nocache, ch). nat count)") (auto split: if_splits)

declare read_hunks.simps [simp del]

definition io_cache_read_block :: "u64 \<Rightarrow> int \<Rightarrow> bool \<Rightarrow> (io_channel, bytes) io" where
  "io_cache_read_block blkno count nocache ch =
     read_hunks (one_meg_of_blocks ch) blkno count nocache ch"

fun write_sync :: "nat \<Rightarrow> bool \<Rightarrow> u64 \<Rightarrow> bytes \<Rightarrow> nat \<Rightarrow> nat \<Rightarrow> io_cache \<Rightarrow> io_cache option" where
  "write_sync bs nocache blkno data 0 i ic = Some ic"
| "write_sync bs nocache blkno data (Suc k) i ic =
     (let blk = field bs (bs * i) data in
      case io_cache_lookup ic (blkno + of_nat i) of
        None \<Rightarrow>
          if nocache then write_sync bs nocache blkno data k (i + 1) ic
          else
            Option.bind (io_cache_steal ic (blkno + of_nat i)) (\<lambda>(j, ic).
              write_sync bs nocache blkno data k (i + 1)
                (io_cache_touch nocache (set_buf ic j blk) j))
      | Some j \<Rightarrow>
          write_sync bs nocache blkno data k (i + 1)
            (io_cache_touch nocache (set_buf ic j blk) j))"

definition io_cache_write_blocks :: "u64 \<Rightarrow> int \<Rightarrow> bytes \<Rightarrow> bool \<Rightarrow> (io_channel, unit) io" where
  "io_cache_write_blocks blkno count data nocache ch =
     (let ((ret, completed), ch) = unix_io_write_block_full blkno count data ch
      in case io_cache ch of None \<Rightarrow> (Inl C_UNDEFINED, ch) | Some ic \<Rightarrow>
        (case write_sync (nat (io_blksize ch)) nocache blkno data completed 0 ic of
           None \<Rightarrow> (Inl C_UNDEFINED, ch)
         | Some ic \<Rightarrow> (ret_to_io ret, ch\<lparr>io_cache := Some ic\<rparr>)))"

definition io_cache_write_block :: "u64 \<Rightarrow> int \<Rightarrow> bytes \<Rightarrow> bool \<Rightarrow> (io_channel, unit) io" where
  "io_cache_write_block = io_cache_write_blocks"

section \<open>The interface of the channel\<close>

definition io_read_block :: "u64 \<Rightarrow> int \<Rightarrow> (io_channel, bytes) io" where
  "io_read_block blkno count ch =
     (if io_cache ch \<noteq> None then io_cache_read_block blkno count (io_nocache ch) ch
      else unix_io_read_block blkno count ch)"

definition io_read_block_nocache :: "u64 \<Rightarrow> int \<Rightarrow> (io_channel, bytes) io" where
  "io_read_block_nocache blkno count ch =
     (if io_cache ch \<noteq> None then io_cache_read_block blkno count True ch
      else unix_io_read_block blkno count ch)"

definition io_write_block :: "u64 \<Rightarrow> int \<Rightarrow> bytes \<Rightarrow> (io_channel, unit) io" where
  "io_write_block blkno count data ch =
     (if io_cache ch \<noteq> None then io_cache_write_block blkno count data (io_nocache ch) ch
      else unix_io_write_block blkno count data ch)"

definition io_write_block_nocache :: "u64 \<Rightarrow> int \<Rightarrow> bytes \<Rightarrow> (io_channel, unit) io" where
  "io_write_block_nocache blkno count data ch =
     (if io_cache ch \<noteq> None then io_cache_write_block blkno count data True ch
      else unix_io_write_block blkno count data ch)"

definition io_set_nocache :: "bool \<Rightarrow> io_channel \<Rightarrow> io_channel" where
  "io_set_nocache nocache ch = ch\<lparr>io_nocache := nocache\<rparr>"

definition io_get_error :: "io_channel \<Rightarrow> nat" where
  "io_get_error ch = io_error ch"

definition io_get_blksize :: "io_channel \<Rightarrow> int" where
  "io_get_blksize ch = io_blksize ch"

abbreviation (input) CMFS_MIN_BLOCKSIZE :: int where "CMFS_MIN_BLOCKSIZE \<equiv> 4096"
abbreviation (input) CMFS_MAX_BLOCKSIZE :: int where "CMFS_MAX_BLOCKSIZE \<equiv> CMFS_MIN_BLOCKSIZE"

text \<open>The C remainder is zero exactly when the divisor divides, whatever the sign.\<close>

definition io_set_blksize :: "int \<Rightarrow> (io_channel, unit) io" where
  "io_set_blksize blksize ch =
     (if blksize mod CMFS_MIN_BLOCKSIZE \<noteq> 0 then (Inl CMFS_ET_INVALID_ARGUMENT, ch)
      else
        let blksize = (if blksize = 0 then CMFS_MIN_BLOCKSIZE else blksize)
        in (Inr (), (if io_blksize ch \<noteq> blksize then ch\<lparr>io_blksize := blksize\<rparr> else ch)))"

definition io_get_cache_size :: "io_channel \<Rightarrow> nat" where
  "io_get_cache_size ch = (case io_cache ch of Some ic \<Rightarrow> ic_data_buffer_len ic | None \<Rightarrow> 0)"

text \<open>
  A fresh cache of \<open>nr\<close> blocks. The allocations are the cache, its data buffer and its
  metadata buffer, in this order; the data buffer is not cleared, its content being
  \<open>junk\<close>.
\<close>

fun take_allocs :: "nat \<Rightarrow> (io_channel, unit) io" where
  "take_allocs 0 ch = (Inr (), ch)"
| "take_allocs (Suc n) ch = bind_io cmfs_malloc_block (\<lambda>_. take_allocs n) ch"

definition new_cache :: "int \<Rightarrow> bytes list \<Rightarrow> nat \<Rightarrow> io_cache" where
  "new_cache blksize junk nr =
     \<lparr> ic_nr_blocks = nr, ic_lru = [0..<nr], ic_lookup = NULL,
       ic_blocks = map (\<lambda>i. \<lparr> icb_blkno = UINT64_MAX, icb_buf = junk ! i \<rparr>) [0..<nr],
       ic_metadata_buffer_len = nr * 64, ic_data_buffer_len = nr * nat blksize,
       ic_locked = False, ic_use_count = 1,
       ic_hits = 0, ic_misses = 0, ic_inserts = 0, ic_removes = 0 \<rparr>"

definition io_init_cache :: "bytes list \<Rightarrow> nat \<Rightarrow> (io_channel, unit) io" where
  "io_init_cache junk nr ch =
     (case take_allocs 3 ch of
        (Inl e, ch) \<Rightarrow> (Inl e, ch)
      | (Inr _, ch) \<Rightarrow> (Inr (), ch\<lparr>io_cache := Some (new_cache (io_blksize ch) junk nr)\<rparr>))"

definition io_init_cache_size :: "bytes list \<Rightarrow> nat \<Rightarrow> (io_channel, unit) io" where
  "io_init_cache_size junk n ch =
     (let bs = nat (io_blksize ch) in io_init_cache junk ((n + (bs - 1)) div bs) ch)"

text \<open>\<open>io_destroy_cache\<close> drops the channel's reference; the memory itself is not modelled.\<close>

definition io_destroy_cache :: "io_channel \<Rightarrow> io_channel" where
  "io_destroy_cache ch = ch\<lparr>io_cache := None\<rparr>"

record cmfs_io_stats =
  is_bytes_read :: u64
  is_bytes_written :: u64
  is_cache_hits :: u32
  is_cache_misses :: u32
  is_cache_inserts :: u32
  is_cache_removes :: u32

definition io_get_stats :: "io_channel \<Rightarrow> cmfs_io_stats" where
  "io_get_stats ch =
     (let z = \<lparr> is_bytes_read = io_bytes_read ch, is_bytes_written = io_bytes_written ch,
                is_cache_hits = 0, is_cache_misses = 0, is_cache_inserts = 0, is_cache_removes = 0 \<rparr>
      in case io_cache ch of
           None \<Rightarrow> z
         | Some ic \<Rightarrow> z\<lparr>is_cache_hits := ic_hits ic, is_cache_misses := ic_misses ic,
                        is_cache_inserts := ic_inserts ic, is_cache_removes := ic_removes ic\<rparr>)"

end
