(* ===== verification/Cache.thy ===== *)
theory Cache
  imports Unix_io
begin

text \<open>
  The block cache of \<^verbatim>\<open>unix_io.c\<close> as a map from block numbers to contents: the
  invariant of its tree, LRU list and blocks, the contract that looking up and
  storing keep, and what follows for cached reads and writes.
\<close>

section \<open>The lookup tree\<close>

abbreviation (input) key :: "io_cache_block list \<Rightarrow> nat \<Rightarrow> u64" where
  "key bs i \<equiv> icb_blkno (bs ! i)"

definition index_ok :: "io_cache_block list \<Rightarrow> nat rb_node \<Rightarrow> bool" where
  "index_ok bs t \<longleftrightarrow> rb_ok t \<and> sorted_wrt (<) (map (key bs) (inorder t))
     \<and> set (inorder t) = {i. i < length bs \<and> key bs i \<noteq> UINT64_MAX}"

lemma search_Some:
  "sorted_wrt (<) (map (key bs) (inorder t)) \<Longrightarrow>
    io_cache_search bs k t = Some i \<longleftrightarrow> i \<in> set (inorder t) \<and> key bs i = k"
proof (induction t)
  case (Node c l a r)
  have l: "sorted_wrt (<) (map (key bs) (inorder l))" "\<forall>x\<in>set (inorder l). key bs x < key bs a"
    and r: "sorted_wrt (<) (map (key bs) (inorder r))" "\<forall>x\<in>set (inorder r). key bs a < key bs x"
    using Node.prems by (auto simp: sorted_wrt_append sorted_wrt_map)
  show ?case using Node.IH(1) [OF l(1)] Node.IH(2) [OF r(1)] l(2) r(2) by auto
qed simp

lemma search_cong:
  fixes bs :: "io_cache_block list"
  shows "(\<And>i. key bs' i = key bs i) \<Longrightarrow> io_cache_search bs' k t = io_cache_search bs k t"
  by (induction t) simp_all

lemma search_None:
  "sorted_wrt (<) (map (key bs) (inorder t)) \<Longrightarrow>
    io_cache_search bs k t = None \<longleftrightarrow> (\<forall>i\<in>set (inorder t). key bs i \<noteq> k)"
  using search_Some [of bs t k] by (metis not_None_eq)

lemma link_spec:
  assumes "sorted_wrt (<) (map (key bs) (inorder t))" and "\<forall>i\<in>set (inorder t). key bs i \<noteq> k"
  shows "\<exists>q xs ys. io_cache_link bs k t p = Some q \<and> root_of NULL q = root_of t p
    \<and> inorder t = xs @ ys \<and> before q = before p @ xs \<and> after q = ys @ after p
    \<and> (\<forall>i\<in>set xs. key bs i < k) \<and> (\<forall>i\<in>set ys. k < key bs i)"
  using assms
proof (induction bs k t p rule: io_cache_link.induct)
  case (2 bs k c l i r p)
  have sorted: "sorted_wrt (<) (map (key bs) (inorder l))" "\<forall>x\<in>set (inorder l). key bs x < key bs i"
      "sorted_wrt (<) (map (key bs) (inorder r))" "\<forall>x\<in>set (inorder r). key bs i < key bs x"
    using "2.prems"(1) by (auto simp: sorted_wrt_append sorted_wrt_map)
  consider (less) "k < key bs i" | (more) "key bs i < k" using "2.prems"(2) by force
  then show ?case
  proof cases
    case less
    then obtain q xs ys where q: "io_cache_link bs k l (InLeft c i r # p) = Some q"
        "root_of NULL q = root_of l (InLeft c i r # p)" "inorder l = xs @ ys"
        "before q = before p @ xs" "after q = ys @ i # inorder r @ after p"
        "\<forall>i\<in>set xs. key bs i < k" "\<forall>i\<in>set ys. k < key bs i"
      using "2.IH"(1) sorted "2.prems"(2) by fastforce
    have "\<forall>x\<in>set (ys @ i # inorder r). k < key bs x"
      using q(7) less sorted(4) by (auto intro: less_trans)
    then show ?thesis using q less
      by (intro exI [of _ q] exI [of _ xs] exI [of _ "ys @ i # inorder r"]) simp
  next
    case more
    then obtain q xs ys where q: "io_cache_link bs k r (InRight c l i # p) = Some q"
        "root_of NULL q = root_of r (InRight c l i # p)" "inorder r = xs @ ys"
        "before q = before p @ inorder l @ i # xs" "after q = ys @ after p"
        "\<forall>i\<in>set xs. key bs i < k" "\<forall>i\<in>set ys. k < key bs i"
      using "2.IH"(2) sorted "2.prems"(2) by fastforce
    have "\<forall>x\<in>set (inorder l @ i # xs). key bs x < k"
      using q(6) more sorted(2) by (auto intro: less_trans)
    then show ?thesis using q more
      by (intro exI [of _ q] exI [of _ "inorder l @ i # xs"] exI [of _ ys]) auto
  qed
qed simp

lemma cursor_of_spec:
  "case cursor_of x t p of
     None \<Rightarrow> x \<notin> set (inorder t)
   | Some cur \<Rightarrow> cur_root cur = root_of t p \<and> (\<exists>c l r. fst cur = Node c l x r)"
proof (induction x t p rule: cursor_of.induct)
  case (2 x c l a r p)
  then show ?case by (cases "a = x") (auto split: option.splits)
qed simp

lemma index_insert:
  assumes "index_ok bs t" and "i < length bs" and "key bs i = UINT64_MAX" and "k \<noteq> UINT64_MAX"
    and "\<forall>j\<in>set (inorder t). key bs j \<noteq> k"
  defines "bs' \<equiv> bs[i := (bs ! i)\<lparr>icb_blkno := k\<rparr>]"
  shows "\<exists>q t'. io_cache_link bs' k t [] = Some q \<and> rb_insert_color (rb_link_node i) q = Some t'
    \<and> index_ok bs' t'"
proof -
  have i: "i \<notin> set (inorder t)" using assms by (auto simp: index_ok_def)
  then have same: "key bs' j = key bs j" if "j \<in> set (inorder t)" for j
    using that by (cases "j = i") (auto simp: bs'_def)
  then have keys: "map (key bs') (inorder t) = map (key bs) (inorder t)" by simp
  have new: "key bs' i = k" using assms(2) by (simp add: bs'_def)
  have "sorted_wrt (<) (map (key bs') (inorder t))"
    unfolding keys using assms(1) by (simp add: index_ok_def)
  moreover have "\<forall>j\<in>set (inorder t). key bs' j \<noteq> k" using assms(5) same by simp
  ultimately have "sorted_wrt (<) (map (key bs') (inorder t))" "\<forall>j\<in>set (inorder t). key bs' j \<noteq> k"
    by simp_all
  from link_spec [OF this, of "[]"] obtain q xs ys where
    q: "io_cache_link bs' k t [] = Some q" "root_of NULL q = t" "inorder t = xs @ ys"
      "before q = xs" "after q = ys" "\<forall>i\<in>set xs. key bs' i < k" "\<forall>i\<in>set ys. k < key bs' i"
    by auto
  have "rb_ok (root_of NULL q)" using q(2) assms(1) by (simp add: index_ok_def)
  then have path: "inv_path q 0" using root_of_parts [of NULL q] by (simp add: rb_ok_def)
  then obtain t' where t': "rb_insert_color (rb_link_node i) q = Some t'" "rb_ok t'"
    using insert_color_ok [of "rb_link_node i" q] by (auto simp: rb_link_node_def)
  have order: "inorder t' = xs @ i # ys"
    using insert_color_inorder [OF t'(1)] q by (simp add: rb_link_node_def)
  have "sorted_wrt (<) (map (key bs') (xs @ ys))"
    unfolding q(3) [symmetric] keys using assms(1) by (simp add: index_ok_def)
  then have parts: "sorted_wrt (<) (map (key bs') xs)" "sorted_wrt (<) (map (key bs') ys)"
    by (simp_all add: sorted_wrt_append)
  have "key bs' x < key bs' y" if "x \<in> set xs" "y \<in> set ys" for x y
    using q(6,7) that less_trans by blast
  then have "sorted_wrt (<) (map (key bs') (inorder t'))"
    unfolding order using q(6,7) parts new by (simp add: sorted_wrt_append)
  moreover have "set (inorder t') = {j. j < length bs' \<and> key bs' j \<noteq> UINT64_MAX}"
  proof -
    have "set (inorder t') = insert i (set (inorder t))" using order q(3) by auto
    also have "\<dots> = {j. j < length bs' \<and> key bs' j \<noteq> UINT64_MAX}"
      using assms(1-4) by (auto simp: index_ok_def bs'_def nth_list_update)
    finally show ?thesis .
  qed
  ultimately have "index_ok bs' t'" using t'(2) by (simp add: index_ok_def)
  then show ?thesis using q(1) t'(1) by blast
qed

lemma index_erase:
  assumes "index_ok bs t" and "i < length bs" and "key bs i \<noteq> UINT64_MAX"
  defines "bs' \<equiv> bs[i := (bs ! i)\<lparr>icb_blkno := UINT64_MAX\<rparr>]"
  shows "\<exists>cur t'. cursor_of i t [] = Some cur \<and> rb_erase cur = Some t' \<and> index_ok bs' t'
    \<and> set (inorder t') = set (inorder t) - {i}"
proof -
  have "i \<in> set (inorder t)" using assms by (auto simp: index_ok_def)
  then obtain cur c l r where cur: "cursor_of i t [] = Some cur" "fst cur = Node c l i r" "cur_root cur = t"
    using cursor_of_spec [of i t "[]"] by (auto split: option.splits)
  obtain p where p: "cur = (Node c l i r, p)" using cur(2) by (cases cur) simp
  have "rb_ok (root_of (Node c l i r) p)" using cur(3) p assms(1) by (simp add: index_ok_def)
  from erase_node_ok [OF this] obtain t' where t': "rb_erase cur = Some t'" "rb_ok t'"
    "inorder t' = before p @ inorder l @ inorder r @ after p" using p by blast
  have order: "inorder t = (before p @ inorder l) @ i # inorder r @ after p"
    using cur(3) p inorder_root_of [of "Node c l i r" p] by simp
  have dist: "distinct (inorder t)"
  proof -
    have "sorted_wrt (<) (map (key bs) (inorder t))" using assms(1) by (simp add: index_ok_def)
    then show ?thesis by (metis distinct_map strict_sorted_iff)
  qed
  have set': "set (inorder t') = set (inorder t) - {i}" using dist order t'(3) by auto
  have same: "key bs' j = key bs j" if "j \<in> set (inorder t')" for j
    using that set' by (auto simp: bs'_def)
  have "sorted_wrt (<) (map (key bs) (inorder t'))"
    using assms(1) order t'(3) by (auto simp: index_ok_def sorted_wrt_append)
  then have "sorted_wrt (<) (map (key bs') (inorder t'))"
    using same by (metis (mono_tags, lifting) map_eq_conv)
  moreover have "set (inorder t') = {j. j < length bs' \<and> key bs' j \<noteq> UINT64_MAX}"
    using assms(1,2) unfolding set' by (auto simp: index_ok_def bs'_def nth_list_update)
  ultimately show ?thesis using cur(1) t' set' by (auto simp: index_ok_def)
qed

section \<open>The cache as a map\<close>

definition cache_wf :: "io_cache \<Rightarrow> bool" where
  "cache_wf ic \<longleftrightarrow> index_ok (ic_blocks ic) (ic_lookup ic)
     \<and> distinct (ic_lru ic) \<and> set (ic_lru ic) = {..<length (ic_blocks ic)} \<and> ic_blocks ic \<noteq> []"

definition content :: "io_cache \<Rightarrow> u64 \<Rightarrow> bytes option" where
  "content ic k = map_option (\<lambda>i. icb_buf (icb ic i)) (io_cache_lookup ic k)"

lemma lookup_Some:
  "cache_wf ic \<Longrightarrow> io_cache_lookup ic k = Some i \<longleftrightarrow>
    k \<noteq> UINT64_MAX \<and> i < length (ic_blocks ic) \<and> key (ic_blocks ic) i = k"
  by (auto simp: cache_wf_def index_ok_def io_cache_lookup_def search_Some)

lemma cache_touch:
  assumes "cache_wf ic" and "i < length (ic_blocks ic)"
  shows "cache_wf (io_cache_touch nocache ic i)"
    and "io_cache_lookup (io_cache_touch nocache ic i) = io_cache_lookup ic"
    and "ic_blocks (io_cache_touch nocache ic i) = ic_blocks ic"
    and "content (io_cache_touch nocache ic i) = content ic"
proof -
  have "i \<in> set (ic_lru ic)" using assms by (simp add: cache_wf_def)
  then show "cache_wf (io_cache_touch nocache ic i)" using assms
    by (auto simp: cache_wf_def io_cache_touch_def io_cache_seen_def io_cache_unsee_def)
  show lk: "io_cache_lookup (io_cache_touch nocache ic i) = io_cache_lookup ic"
    and bl: "ic_blocks (io_cache_touch nocache ic i) = ic_blocks ic"
    by (simp_all add: fun_eq_iff io_cache_touch_def io_cache_seen_def io_cache_unsee_def io_cache_lookup_def)
  show "content (io_cache_touch nocache ic i) = content ic"
    by (simp add: fun_eq_iff content_def lk bl)
qed

lemma cache_set_buf:
  assumes "cache_wf ic" and "io_cache_lookup ic k = Some i"
  shows "cache_wf (set_buf ic i b)" and "io_cache_lookup (set_buf ic i b) k = Some i"
    and "length (ic_blocks (set_buf ic i b)) = length (ic_blocks ic)"
    and "content (set_buf ic i b) = (content ic)(k \<mapsto> b)"
proof -
  have i: "i < length (ic_blocks ic)" "key (ic_blocks ic) i = k" "k \<noteq> UINT64_MAX"
    using assms lookup_Some by blast+
  have keys: "key (ic_blocks (set_buf ic i b)) j = key (ic_blocks ic) j" for j
    using i(1) by (cases "j = i") (simp_all add: set_buf_def)
  then have "map (key (ic_blocks (set_buf ic i b))) (inorder (ic_lookup ic))
      = map (key (ic_blocks ic)) (inorder (ic_lookup ic))" by simp
  then show wf: "cache_wf (set_buf ic i b)"
    using assms(1) keys by (simp add: cache_wf_def index_ok_def set_buf_def)
  then show lk: "io_cache_lookup (set_buf ic i b) k = Some i"
    using lookup_Some [OF wf] i keys by (simp add: set_buf_def)
  have lks: "io_cache_lookup (set_buf ic i b) k' = io_cache_lookup ic k'" for k'
    unfolding io_cache_lookup_def using keys
    by (subst search_cong [of _ "ic_blocks ic"]) (simp_all add: set_buf_def)
  show "length (ic_blocks (set_buf ic i b)) = length (ic_blocks ic)" by (simp add: set_buf_def)
  have buf: "icb_buf (icb (set_buf ic i b) j) = (if j = i then b else icb_buf (icb ic j))" for j
    using i(1) by (simp add: set_buf_def)
  show "content (set_buf ic i b) = (content ic)(k \<mapsto> b)"
  proof
    fix k'
    show "content (set_buf ic i b) k' = ((content ic)(k \<mapsto> b)) k'"
    proof (cases "io_cache_lookup ic k'")
      case (Some j)
      then have "key (ic_blocks ic) j = k'" using lookup_Some [OF assms(1)] by blast
      then have "j = i \<longleftrightarrow> k' = k" using i(2) Some assms(2) by (metis option.inject)
      then show ?thesis using i Some by (simp add: content_def lks buf)
    next
      case None
      then show ?thesis using assms(2) by (auto simp: content_def lks)
    qed
  qed
qed

lemma cache_pop:
  assumes "cache_wf ic"
  shows "\<exists>i ic'. io_cache_pop_lru ic = Some (i, ic') \<and> i < length (ic_blocks ic')
    \<and> cache_wf ic' \<and> length (ic_blocks ic') = length (ic_blocks ic)
    \<and> key (ic_blocks ic') i = UINT64_MAX
    \<and> (\<forall>j. j \<noteq> i \<longrightarrow> ic_blocks ic' ! j = ic_blocks ic ! j)"
proof -
  have "0 < length (ic_blocks ic)" "set (ic_lru ic) = {..<length (ic_blocks ic)}"
    using assms by (simp_all add: cache_wf_def)
  then have "0 \<in> set (ic_lru ic)" by simp
  then have "ic_lru ic \<noteq> []" by auto
  then obtain i rest where lru: "ic_lru ic = i # rest" by (cases "ic_lru ic") auto
  have "set (ic_lru ic) = {..<length (ic_blocks ic)}" using assms by (simp add: cache_wf_def)
  moreover have "i \<in> set (ic_lru ic)" by (simp add: lru)
  ultimately have i: "i < length (ic_blocks ic)" by simp
  show ?thesis
  proof (cases "key (ic_blocks ic) i = UINT64_MAX")
    case True
    then show ?thesis using assms lru i
      by (simp add: io_cache_pop_lru_def io_cache_disconnect_def cache_wf_def)
  next
    case False
    have "index_ok (ic_blocks ic) (ic_lookup ic)" using assms by (simp add: cache_wf_def)
    from index_erase [OF this i False] obtain cur t' where
      e: "cursor_of i (ic_lookup ic) [] = Some cur" "rb_erase cur = Some t'"
        "index_ok ((ic_blocks ic)[i := (ic_blocks ic ! i)\<lparr>icb_blkno := UINT64_MAX\<rparr>]) t'" by blast
    then show ?thesis using assms lru i False
      by (simp add: io_cache_pop_lru_def io_cache_disconnect_def cache_wf_def)
  qed
qed

lemma cache_steal:
  assumes "cache_wf ic" and "io_cache_lookup ic k = None" and "k \<noteq> UINT64_MAX"
  shows "\<exists>i ic'. io_cache_steal ic k = Some (i, ic') \<and> cache_wf ic' \<and> io_cache_lookup ic' k = Some i
    \<and> i < length (ic_blocks ic')
    \<and> (\<forall>k'. k' \<noteq> k \<longrightarrow> content ic' k' = None \<or> content ic' k' = content ic k')"
proof -
  obtain i ic1 where pop: "io_cache_pop_lru ic = Some (i, ic1)" "i < length (ic_blocks ic1)"
      "cache_wf ic1" "length (ic_blocks ic1) = length (ic_blocks ic)"
      "key (ic_blocks ic1) i = UINT64_MAX" "\<forall>j. j \<noteq> i \<longrightarrow> ic_blocks ic1 ! j = ic_blocks ic ! j"
    using cache_pop [OF assms(1)] by blast
  have ix: "index_ok (ic_blocks ic1) (ic_lookup ic1)" using pop(3) by (simp add: cache_wf_def)
  have fresh: "\<forall>j\<in>set (inorder (ic_lookup ic1)). key (ic_blocks ic1) j \<noteq> k"
  proof
    fix j assume "j \<in> set (inorder (ic_lookup ic1))"
    then have j: "j < length (ic_blocks ic)" "key (ic_blocks ic1) j \<noteq> UINT64_MAX"
      using ix pop(4) by (simp_all add: index_ok_def)
    then have "j \<noteq> i" using pop(5) by auto
    then show "key (ic_blocks ic1) j \<noteq> k"
      using pop(6) j lookup_Some [OF assms(1), of k j] assms(2,3) by auto
  qed
  let ?bs = "(ic_blocks ic1)[i := (ic_blocks ic1 ! i)\<lparr>icb_blkno := k\<rparr>]"
  from index_insert [OF ix pop(2,5) assms(3) fresh] obtain q t' where
    ins: "io_cache_link ?bs k (ic_lookup ic1) [] = Some q" "rb_insert_color (rb_link_node i) q = Some t'"
      "index_ok ?bs t'" by blast
  let ?ic' = "ic1\<lparr>ic_blocks := ?bs, ic_lookup := t', ic_inserts := ic_inserts ic1 + 1\<rparr>"
  have steal: "io_cache_steal ic k = Some (i, ?ic')"
    using pop(1,2) ins by (simp add: io_cache_steal_def io_cache_insert_def)
  have wf: "cache_wf ?ic'" using pop(3) ins(3) by (simp add: cache_wf_def)
  have lk: "io_cache_lookup ?ic' k = Some i" using lookup_Some [OF wf] pop(2) assms(3) by simp
  have "content ?ic' k' = None \<or> content ?ic' k' = content ic k'" if "k' \<noteq> k" for k'
  proof (cases "io_cache_lookup ?ic' k'")
    case (Some j)
    then have j: "k' \<noteq> UINT64_MAX" "j < length (ic_blocks ic1)" "key ?bs j = k'"
      using lookup_Some [OF wf] by simp_all
    then have "j \<noteq> i" using that pop(2) by auto
    then have "io_cache_lookup ic k' = Some j" and "ic_blocks ?ic' ! j = ic_blocks ic ! j"
      using j pop(4,6) lookup_Some [OF assms(1)] by auto
    then show ?thesis using Some by (simp add: content_def)
  next
    case None
    then show ?thesis by (simp add: content_def)
  qed
  then show ?thesis using steal wf lk pop(2) by auto
qed

section \<open>The contract of a block cache\<close>

text \<open>
  What the transfers rely on. \<open>refresh\<close> marks a cached block as used; \<open>update\<close>
  replaces the content of a cached block; \<open>admit\<close> brings a new block in, for which
  other blocks may go. A cache that agrees with the disk keeps agreeing with it.
\<close>

locale block_cache =
  fixes wf :: "'c \<Rightarrow> bool"
    and look :: "'c \<Rightarrow> 'k \<Rightarrow> 'v option"
    and refresh :: "bool \<Rightarrow> 'k \<Rightarrow> 'c \<Rightarrow> 'c"
    and update :: "bool \<Rightarrow> 'k \<Rightarrow> 'v \<Rightarrow> 'c \<Rightarrow> 'c"
    and admit :: "bool \<Rightarrow> 'k \<Rightarrow> 'v \<Rightarrow> 'c \<Rightarrow> 'c option"
    and valid :: "'k \<Rightarrow> bool"
  assumes refresh_wf: "wf c \<Longrightarrow> look c k \<noteq> None \<Longrightarrow> wf (refresh n k c)"
    and refresh_look: "wf c \<Longrightarrow> look c k \<noteq> None \<Longrightarrow> look (refresh n k c) = look c"
    and update_wf: "wf c \<Longrightarrow> look c k \<noteq> None \<Longrightarrow> wf (update n k v c)"
    and update_look: "wf c \<Longrightarrow> look c k \<noteq> None \<Longrightarrow> look (update n k v c) = (look c)(k \<mapsto> v)"
    and admit_ok: "wf c \<Longrightarrow> look c k = None \<Longrightarrow> valid k \<Longrightarrow>
      \<exists>c'. admit n k v c = Some c' \<and> wf c' \<and> look c' k = Some v
        \<and> (\<forall>k'. k' \<noteq> k \<longrightarrow> look c' k' = None \<or> look c' k' = look c k')"
begin

lemma refresh_agrees: "wf c \<Longrightarrow> look c k \<noteq> None \<Longrightarrow> look c \<subseteq>\<^sub>m f \<Longrightarrow> look (refresh n k c) \<subseteq>\<^sub>m f"
  by (simp add: refresh_look)

lemma update_agrees:
  "wf c \<Longrightarrow> look c k \<noteq> None \<Longrightarrow> look c \<subseteq>\<^sub>m f \<Longrightarrow> look (update n k v c) \<subseteq>\<^sub>m f(k \<mapsto> v)"
  by (simp add: update_look map_le_upd)

lemma admit_agrees:
  assumes "wf c" and "look c k = None" and "valid k" and "look c \<subseteq>\<^sub>m f"
  shows "\<exists>c'. admit n k v c = Some c' \<and> wf c' \<and> look c' \<subseteq>\<^sub>m f(k \<mapsto> v)"
proof -
  from admit_ok [OF assms(1-3), of n v] obtain c' where c': "admit n k v c = Some c'" "wf c'" "look c' k = Some v"
      "\<forall>k'. k' \<noteq> k \<longrightarrow> look c' k' = None \<or> look c' k' = look c k'"
    by blast
  have "look c' \<subseteq>\<^sub>m f(k \<mapsto> v)"
    unfolding map_le_def
  proof
    fix k' assume "k' \<in> dom (look c')"
    then show "look c' k' = (f(k \<mapsto> v)) k'"
      using c'(3,4) assms(4) by (cases "k' = k") (auto simp: map_le_def dom_def)
  qed
  then show ?thesis using c' by blast
qed

end

text \<open>The three operations as the transfers combine them.\<close>

definition cache_refresh :: "bool \<Rightarrow> u64 \<Rightarrow> io_cache \<Rightarrow> io_cache" where
  "cache_refresh nocache k ic =
     (case io_cache_lookup ic k of Some j \<Rightarrow> io_cache_touch nocache ic j | None \<Rightarrow> ic)"

definition cache_update :: "bool \<Rightarrow> u64 \<Rightarrow> bytes \<Rightarrow> io_cache \<Rightarrow> io_cache" where
  "cache_update nocache k blk ic =
     (case io_cache_lookup ic k of
        Some j \<Rightarrow> io_cache_touch nocache (set_buf ic j blk) j | None \<Rightarrow> ic)"

definition cache_admit :: "bool \<Rightarrow> u64 \<Rightarrow> bytes \<Rightarrow> io_cache \<Rightarrow> io_cache option" where
  "cache_admit nocache k blk ic =
     Option.bind (io_cache_steal ic k)
       (\<lambda>(j, ic). Some (io_cache_touch nocache (set_buf ic j blk) j))"

lemma content_None: "content ic k = None \<longleftrightarrow> io_cache_lookup ic k = None"
  by (simp add: content_def)

interpretation cache: block_cache cache_wf content cache_refresh cache_update cache_admit
  "\<lambda>k. k \<noteq> UINT64_MAX"
proof
  fix c k n and v :: bytes
  assume c: "cache_wf c"
  { assume "content c k \<noteq> None"
    then obtain j where j: "io_cache_lookup c k = Some j" by (auto simp: content_None)
    then have len: "j < length (ic_blocks c)" using lookup_Some [OF c] by blast
    show "cache_wf (cache_refresh n k c)" and "content (cache_refresh n k c) = content c"
      using cache_touch [OF c len] j by (simp_all add: cache_refresh_def)
    note sb = cache_set_buf [OF c j, of v]
    have len': "j < length (ic_blocks (set_buf c j v))" using sb(3) len by simp
    show "cache_wf (cache_update n k v c)" and "content (cache_update n k v c) = (content c)(k \<mapsto> v)"
      using cache_touch [OF sb(1) len'] sb j by (simp_all add: cache_update_def) }
  assume none: "content c k = None" and k: "k \<noteq> UINT64_MAX"
  then obtain i c1 where c1: "io_cache_steal c k = Some (i, c1)" "cache_wf c1"
      "io_cache_lookup c1 k = Some i" "i < length (ic_blocks c1)"
      "\<forall>k'. k' \<noteq> k \<longrightarrow> content c1 k' = None \<or> content c1 k' = content c k'"
    using cache_steal [OF c] by (metis content_None)
  note sb = cache_set_buf [OF c1(2,3), of v]
  have len': "i < length (ic_blocks (set_buf c1 i v))" using sb(3) c1(4) by simp
  note t = cache_touch [OF sb(1) len', of n]
  show "\<exists>c'. cache_admit n k v c = Some c' \<and> cache_wf c' \<and> content c' k = Some v
      \<and> (\<forall>k'. k' \<noteq> k \<longrightarrow> content c' k' = None \<or> content c' k' = content c k')"
    using c1 t sb by (auto simp: cache_admit_def)
qed

end
