(* ===== verification/Transfers.thy ===== *)
theory Transfers
  imports Cache
begin

text \<open>
  Reads and writes of whole blocks through a channel, with or without a cache: what
  they return, what they leave on the device, and that the cache stays a copy of
  parts of the device.
\<close>

section \<open>The device\<close>

definition has_fault :: "io_channel \<Rightarrow> bool" where
  "has_fault ch \<longleftrightarrow> (\<exists>e. Fail e \<in> set (dev_script ch))"

text \<open>A channel after some system calls that did not change the device.\<close>

definition same_device :: "io_channel \<Rightarrow> io_channel \<Rightarrow> bool" where
  "same_device ch ch' \<longleftrightarrow> dev_data ch' = dev_data ch \<and> io_cache ch' = io_cache ch
     \<and> io_blksize ch' = io_blksize ch \<and> io_nocache ch' = io_nocache ch
     \<and> heap_script ch' = heap_script ch \<and> (has_fault ch' \<longrightarrow> has_fault ch)"

lemma same_device_refl [simp]: "same_device ch ch"
  by (simp add: same_device_def)

lemma same_device_trans: "same_device a b \<Longrightarrow> same_device b c \<Longrightarrow> same_device a c"
  by (simp add: same_device_def)

lemma field_append: "field n off buf @ field m (off + n) buf = field (n + m) off buf"
  by (simp add: field_def take_add add.commute [of off n])

lemma take_field: "k \<le> n \<Longrightarrow> take k (field n off buf) = field k off buf"
  by (simp add: field_def min_def)

lemma put_append:
  assumes "off + length a + length b \<le> length buf"
  shows "put (off + length a) b (put off a buf) = put off (a @ b) buf"
  by (rule nth_equalityI) (use assms in \<open>auto simp: nth_put nth_append\<close>)

lemma sint_small: "unat (w :: u64) < 2 ^ 63 \<Longrightarrow> \<not> sint w < 0"
proof -
  assume small: "unat w < 2 ^ 63"
  have "bit w 63 \<longleftrightarrow> bit (unat w) 63" by (simp add: bit_unsigned_iff)
  also have "\<dots> \<longleftrightarrow> odd (unat w div 2 ^ 63)" by (rule bit_iff_odd)
  also have "unat w div 2 ^ 63 = 0" using small by (rule div_less)
  finally show ?thesis using bit_last_iff [of w] by simp
qed

lemma pread64_ok:
  assumes "unat loc + n \<le> length (dev_data ch)" and "length (dev_data ch) < 2 ^ 63" and "0 < n"
  shows "case pread64 n loc ch of
    (Inl e, ch') \<Rightarrow> has_fault ch \<and> same_device ch ch'
  | (Inr rd, ch') \<Rightarrow> (\<exists>k. 0 < k \<and> k \<le> n \<and> rd = field k (unat loc) (dev_data ch)) \<and> same_device ch ch'"
proof -
  have s: "\<not> sint loc < 0" using assms by (intro sint_small) simp
  have full: "0 < n \<and> n \<le> n \<and> field n (unat loc) (dev_data ch) = field n (unat loc) (dev_data ch)"
    using assms(3) by simp
  show ?thesis
  proof (cases "dev_script ch")
    case Nil
    then show ?thesis using s full by (auto simp: pread64_def same_device_def has_fault_def)
  next
    case (Cons x xs)
    show ?thesis
    proof (cases x)
      case (Fail e)
      then show ?thesis using Cons by (auto simp: pread64_def same_device_def has_fault_def)
    next
      case (Limit m)
      have "take (max 1 m) (field n (unat loc) (dev_data ch)) = field (min (max 1 m) n) (unat loc) (dev_data ch)"
        by (simp add: field_def)
      moreover have "0 < min (max 1 m) n" "min (max 1 m) n \<le> n" using assms(3) by auto
      ultimately have "\<exists>k. 0 < k \<and> k \<le> n
          \<and> take (max 1 m) (field n (unat loc) (dev_data ch)) = field k (unat loc) (dev_data ch)"
        by blast
      then show ?thesis using s Cons Limit
        by (auto simp: pread64_def same_device_def has_fault_def)
    qed
  qed
qed

lemma unat_add_small:
  "unat (a :: u64) + n < 2 ^ 64 \<Longrightarrow> unat (a + of_nat n) = unat a + n"
  by (simp add: unat_word_ariths unat_of_nat take_bit_eq_mod)

lemma read_loop_ok:
  assumes "unat loc + n \<le> length (dev_data ch)" and "length (dev_data ch) < 2 ^ 63"
    and "data = field (length data) (unat loc) (dev_data ch)" and "length data \<le> n"
  shows "case unix_read_loop n loc data ch of
    ((None, d), ch') \<Rightarrow> d = field n (unat loc) (dev_data ch) \<and> same_device ch ch'
  | ((Some e, d), ch') \<Rightarrow> e = CMFS_ET_IO \<and> has_fault ch \<and> same_device ch ch'"
  using assms
proof (induction n loc data ch rule: unix_read_loop.induct)
  case (1 n loc data ch)
  show ?case
  proof (cases "length data < n")
    case False
    then have "unix_read_loop n loc data ch = ((None, data), ch)"
      by (simp add: unix_read_loop.simps [of n loc data ch])
    moreover have "data = field n (unat loc) (dev_data ch)"
      using False "1.prems"(3,4) by (metis le_neq_implies_less)
    ultimately show ?thesis by simp
  next
    case True
    let ?l = "loc + of_nat (length data)"
    have l: "unat ?l = unat loc + length data"
      using "1.prems" by (intro unat_add_small) simp
    have pr: "case pread64 (n - length data) ?l ch of
      (Inl e, ch') \<Rightarrow> has_fault ch \<and> same_device ch ch'
    | (Inr rd, ch') \<Rightarrow> (\<exists>k. 0 < k \<and> k \<le> n - length data \<and> rd = field k (unat ?l) (dev_data ch))
        \<and> same_device ch ch'"
      using "1.prems" True l by (intro pread64_ok) simp_all
    obtain r ch' where p: "pread64 (n - length data) ?l ch = (r, ch')" by force
    show ?thesis
    proof (cases r)
      case (Inl e)
      then show ?thesis using pr p True
        by (simp add: unix_read_loop.simps [of n loc data ch] same_device_def has_fault_def)
    next
      case (Inr rd)
      obtain k where k: "0 < k" "k \<le> n - length data" "rd = field k (unat ?l) (dev_data ch)"
        and sd: "same_device ch ch'" using pr p Inr by auto
      have len: "length rd = k" using k "1.prems" l True by (simp add: length_field)
      then have ne: "rd \<noteq> []" using k(1) by auto
      have app: "data @ rd = field (length data + k) (unat loc) (dev_data ch)"
        using "1.prems"(3) k(3) l field_append [of "length data" "unat loc" "dev_data ch" k] by simp
      have dd: "dev_data ch' = dev_data ch" using sd by (simp add: same_device_def)
      have "case unix_read_loop n loc (data @ rd) ch' of
          ((None, d), ch'') \<Rightarrow> d = field n (unat loc) (dev_data ch') \<and> same_device ch' ch''
        | ((Some e, d), ch'') \<Rightarrow> e = CMFS_ET_IO \<and> has_fault ch' \<and> same_device ch' ch''"
      proof (rule "1.IH" [OF True p [symmetric] Inr ne])
        have la: "length (data @ rd) = length data + k" using len by simp
        show "data @ rd = field (length (data @ rd)) (unat loc) (dev_data ch')"
          unfolding la dd by (rule app)
        show "length (data @ rd) \<le> n" unfolding la using k(2) True by linarith
      qed (use "1.prems"(1,2) dd in simp_all)
      then show ?thesis
        using True p Inr ne sd dd
        by (auto simp: unix_read_loop.simps [of n loc data ch] same_device_def
            split: prod.splits option.splits)
    qed
  qed
qed

text \<open>A request for whole blocks that lies on the device.\<close>

definition on_device :: "io_channel \<Rightarrow> u64 \<Rightarrow> nat \<Rightarrow> bool" where
  "on_device ch blkno n \<longleftrightarrow> 0 < io_blksize ch \<and> length (dev_data ch) < 2 ^ 63
     \<and> (unat blkno + n) * nat (io_blksize ch) \<le> length (dev_data ch)"

abbreviation (input) dev_blocks :: "io_channel \<Rightarrow> u64 \<Rightarrow> nat \<Rightarrow> bytes" where
  "dev_blocks ch blkno n \<equiv>
     field (n * nat (io_blksize ch)) (unat blkno * nat (io_blksize ch)) (dev_data ch)"

lemma location_ok:
  assumes "on_device ch blkno n"
  shows "unat (io_location ch blkno) = unat blkno * nat (io_blksize ch)"
proof -
  let ?b = "nat (io_blksize ch)"
  have len: "(unat blkno + n) * ?b < 2 ^ 63" and pos: "0 < ?b"
    using assms by (auto simp: on_device_def)
  have "unat blkno * ?b \<le> (unat blkno + n) * ?b" by simp
  moreover have "(2::nat) ^ 63 < 2 ^ 64" by simp
  ultimately have prod: "unat blkno * ?b < 2 ^ 64" using len by linarith
  have w: "(word_of_int (io_blksize ch) :: u64) = of_nat ?b" using pos by simp
  show ?thesis
  proof (cases "unat blkno = 0")
    case True
    then show ?thesis by (simp add: io_location_def unat_eq_zero)
  next
    case False
    then have "?b \<le> unat blkno * ?b" by simp
    then have "?b < 2 ^ 64" using prod by linarith
    then have "unat (of_nat ?b :: u64) = ?b" by (rule unat_of_nat_u64)
    then show ?thesis
      using prod unfolding io_location_def w by (simp add: unat_mult_lem [THEN iffD1])
  qed
qed

text \<open>
  The size of a request is a product of two \<^verbatim>\<open>int\<close>s; \<open>request_fits\<close> says that it does not
  overflow. A read through the cache comes in hunks of a megabyte, so that there only the
  size of a hunk must fit (\<open>read_fits\<close>); the count itself is an \<^verbatim>\<open>int\<close>.
\<close>

definition request_fits :: "io_channel \<Rightarrow> nat \<Rightarrow> bool" where
  "request_fits ch n \<longleftrightarrow> int n * io_blksize ch < 2 ^ 31"

definition read_fits :: "io_channel \<Rightarrow> nat \<Rightarrow> bool" where
  "read_fits ch n \<longleftrightarrow> n < 2 ^ 31 \<and> io_blksize ch \<le> 2 ^ 30
     \<and> (io_cache ch = None \<longrightarrow> request_fits ch n)"

lemma io_size_ok:
  assumes "0 < io_blksize ch" and "request_fits ch n"
  shows "io_size ch (int n) = int (n * nat (io_blksize ch))"
proof -
  have "0 \<le> int n * io_blksize ch" using assms(1) by simp
  then have "c_int (int n * io_blksize ch) = int n * io_blksize ch"
    using assms(2) by (intro c_int_id) (simp_all add: request_fits_def)
  then show ?thesis using assms(1) by (simp add: io_size_def)
qed

lemma request_fits_le: "request_fits ch n \<Longrightarrow> 0 < io_blksize ch \<Longrightarrow> m \<le> n \<Longrightarrow> request_fits ch m"
  using mult_right_mono [of "int m" "int n" "io_blksize ch"] unfolding request_fits_def by linarith

lemma io_size_nat:
  "0 < io_blksize ch \<Longrightarrow> request_fits ch n \<Longrightarrow> nat (io_size ch (int n)) = n * nat (io_blksize ch)"
  by (simp only: io_size_ok nat_int)

lemma one_meg_ok:
  assumes "0 < io_blksize ch" and "io_blksize ch \<le> 2 ^ 30"
  shows "0 < one_meg_of_blocks ch" and "one_meg_of_blocks ch * io_blksize ch < 2 ^ 31"
proof -
  let ?b = "io_blksize ch" and ?k = "ONE_MEGABYTE + io_blksize ch - 1"
  have k: "one_meg_of_blocks ch = ?k div ?b"
    using assms by (simp add: one_meg_of_blocks_def c_int_id Let_def signed_divide_int_def)
  show "0 < one_meg_of_blocks ch" using assms(1) by (simp add: k pos_imp_zdiv_pos_iff)
  have "?k div ?b * ?b \<le> ?k" using assms(1) by (simp add: minus_mod_eq_div_mult [symmetric])
  also have "?k < 2 ^ 31" using assms(2) by simp
  finally show "one_meg_of_blocks ch * ?b < 2 ^ 31" by (simp add: k)
qed

lemma unix_read_ok:
  assumes "on_device ch blkno n" and "request_fits ch n"
  shows "case unix_io_read_block blkno (int n) ch of
    (Inr d, ch') \<Rightarrow> d = dev_blocks ch blkno n \<and> same_device ch ch'
  | (Inl e, ch') \<Rightarrow> e = CMFS_ET_IO \<and> has_fault ch \<and> same_device ch ch'"
proof -
  have loc: "unat (io_location ch blkno) = unat blkno * nat (io_blksize ch)"
    by (rule location_ok [OF assms(1)])
  have n: "nat (io_size ch (int n)) = n * nat (io_blksize ch)"
    using assms by (intro io_size_nat) (simp_all add: on_device_def)
  have pos: "\<not> io_size ch (int n) < 0"
    using assms by (simp only: io_size_ok on_device_def not_less of_nat_0_le_iff)
  have "case unix_read_loop (nat (io_size ch (int n))) (io_location ch blkno) [] ch of
      ((None, d), ch') \<Rightarrow> d = field (nat (io_size ch (int n))) (unat (io_location ch blkno)) (dev_data ch)
        \<and> same_device ch ch'
    | ((Some e, d), ch') \<Rightarrow> e = CMFS_ET_IO \<and> has_fault ch \<and> same_device ch ch'"
    using assms by (intro read_loop_ok) (simp_all add: loc n on_device_def algebra_simps field_def)
  moreover have "length (dev_blocks ch blkno n) = n * nat (io_blksize ch)"
    using assms by (simp add: length_field on_device_def algebra_simps)
  ultimately show ?thesis
    by (auto simp: unix_io_read_block_def Let_def loc n pos same_device_def has_fault_def
        split: prod.splits option.splits)
qed

section \<open>Coherence\<close>

definition dev_block :: "nat \<Rightarrow> bytes \<Rightarrow> u64 \<Rightarrow> bytes option" where
  "dev_block bs d k =
     (if (unat k + 1) * bs \<le> length d then Some (field bs (unat k * bs) d) else None)"

definition coherent :: "io_channel \<Rightarrow> io_cache \<Rightarrow> bool" where
  "coherent ch ic \<longleftrightarrow> cache_wf ic
     \<and> content ic \<subseteq>\<^sub>m dev_block (nat (io_blksize ch)) (dev_data ch)"

text \<open>The invariant of a channel: its cache, if it has one, is a copy of device blocks.\<close>

definition chan_ok :: "io_channel \<Rightarrow> bool" where
  "chan_ok ch \<longleftrightarrow> (case io_cache ch of None \<Rightarrow> True | Some ic \<Rightarrow> coherent ch ic)"

lemma on_device_pos: "on_device ch blkno n \<Longrightarrow> 1 \<le> nat (io_blksize ch)"
  by (simp add: on_device_def Suc_le_eq)

lemma unat_blkno_add:
  assumes "on_device ch blkno n" and "j \<le> n"
  shows "unat (blkno + of_nat j) = unat blkno + j"
proof (rule unat_add_small)
  have "unat blkno + n \<le> (unat blkno + n) * nat (io_blksize ch)"
    by (metis mult.right_neutral mult_le_mono2 on_device_pos [OF assms(1)])
  moreover have "(2::nat) ^ 63 < 2 ^ 64" by simp
  moreover have "(unat blkno + n) * nat (io_blksize ch) < 2 ^ 63" using assms(1) by (simp add: on_device_def)
  ultimately show "unat blkno + j < 2 ^ 64" using assms(2) by linarith
qed

lemma dev_block_in:
  assumes "on_device ch blkno n" and "j < n"
  shows "dev_block (nat (io_blksize ch)) (dev_data ch) (blkno + of_nat j)
      = Some (field (nat (io_blksize ch)) ((unat blkno + j) * nat (io_blksize ch)) (dev_data ch))"
    and "blkno + of_nat j \<noteq> UINT64_MAX"
proof -
  let ?b = "nat (io_blksize ch)"
  have u: "unat (blkno + of_nat j) = unat blkno + j" using assms(2) unat_blkno_add [OF assms(1), of j] by simp
  have le: "(unat blkno + j + 1) * ?b \<le> (unat blkno + n) * ?b" using assms(2) by (intro mult_le_mono) simp_all
  then have fit: "(unat blkno + j + 1) * ?b \<le> length (dev_data ch)"
    using assms(1) by (simp add: on_device_def)
  then show "dev_block ?b (dev_data ch) (blkno + of_nat j)
      = Some (field ?b ((unat blkno + j) * ?b) (dev_data ch))"
    using u by (simp add: dev_block_def)
  have "(unat blkno + j) * 1 \<le> (unat blkno + j + 1) * ?b"
    using on_device_pos [OF assms(1)] by (intro mult_le_mono) simp_all
  then have "unat (blkno + of_nat j) < 2 ^ 63"
    using u fit assms(1) by (simp add: on_device_def)
  then show "blkno + of_nat j \<noteq> UINT64_MAX" by auto
qed

lemma refresh_content:
  assumes "cache_wf ic" and "io_cache_lookup ic k = Some j"
  shows "cache_wf (io_cache_touch nc ic j)" and "content (io_cache_touch nc ic j) = content ic"
    and "io_cache_lookup (io_cache_touch nc ic j) = io_cache_lookup ic"
proof -
  have "j < length (ic_blocks ic)" using assms lookup_Some by blast
  from cache_touch [OF assms(1) this] show "cache_wf (io_cache_touch nc ic j)"
    and "content (io_cache_touch nc ic j) = content ic"
    and "io_cache_lookup (io_cache_touch nc ic j) = io_cache_lookup ic" by blast+
qed

lemma admit_content:
  assumes "cache_wf ic" and "io_cache_lookup ic k = None" and "k \<noteq> UINT64_MAX"
    and "content ic \<subseteq>\<^sub>m f" and "f k = Some blk"
  shows "\<exists>j ic1. io_cache_steal ic k = Some (j, ic1)
    \<and> cache_wf (io_cache_touch nc (set_buf ic1 j blk) j)
    \<and> content (io_cache_touch nc (set_buf ic1 j blk) j) \<subseteq>\<^sub>m f"
proof -
  have f: "f(k \<mapsto> blk) = f" using assms(5) by auto
  have "content ic k = None" using assms(2) by (simp add: content_None)
  from cache.admit_agrees [OF assms(1) this assms(3,4), of nc blk] obtain c' where
    c': "cache_admit nc k blk ic = Some c'" "cache_wf c'" "content c' \<subseteq>\<^sub>m f" by (auto simp: f)
  then show ?thesis by (auto simp: cache_admit_def bind_eq_Some_conv)
qed

lemma read_sync_ok:
  assumes "cache_wf ic" and "content ic \<subseteq>\<^sub>m f"
    and "\<And>j. i \<le> j \<Longrightarrow> j < i + k \<Longrightarrow> f (blkno + of_nat j) = Some (blk j) \<and> blkno + of_nat j \<noteq> UINT64_MAX"
    and "\<And>j. i \<le> j \<Longrightarrow> j < good \<Longrightarrow> j < i + k \<Longrightarrow> io_cache_lookup ic (blkno + of_nat j) \<noteq> None"
    and "\<And>j. good \<le> j \<Longrightarrow> j < i + k \<Longrightarrow> field bs (bs * (j - good)) src = blk j"
  shows "\<exists>ic'. read_sync bs nc blkno good src k i ic = Some (concat (map blk [i..<i + k]), ic')
    \<and> cache_wf ic' \<and> content ic' \<subseteq>\<^sub>m f"
  using assms
proof (induction k arbitrary: i ic)
  case (Suc k)
  let ?k = "blkno + of_nat i"
  have fk: "f ?k = Some (blk i)" "?k \<noteq> UINT64_MAX" using Suc.prems(3) [of i] by simp_all
  have cat: "concat (map blk [i..<Suc (i + k)]) = blk i @ concat (map blk [Suc i..<Suc (i + k)])"
    by (simp add: upt_conv_Cons del: upt_Suc)
  have IH: "\<exists>ic'. read_sync bs nc blkno good src k (Suc i) ic2 = Some (concat (map blk [Suc i..<Suc i + k]), ic')
      \<and> cache_wf ic' \<and> content ic' \<subseteq>\<^sub>m f"
    if "cache_wf ic2" "content ic2 \<subseteq>\<^sub>m f" "i < good \<longrightarrow> io_cache_lookup ic2 = io_cache_lookup ic" for ic2
    using that Suc.prems(3-5) by (intro Suc.IH) auto
  show ?case
  proof (cases "io_cache_lookup ic ?k")
    case (Some j)
    let ?ic2 = "io_cache_touch nc ic j"
    note t = refresh_content [OF Suc.prems(1) Some, of nc]
    obtain ic' where ic': "read_sync bs nc blkno good src k (Suc i) ?ic2
          = Some (concat (map blk [Suc i..<Suc i + k]), ic')"
        "cache_wf ic'" "content ic' \<subseteq>\<^sub>m f"
      using IH [of ?ic2] t Suc.prems(2) by auto
    have "content ic ?k = Some (icb_buf (icb ic j))" by (simp add: content_def Some)
    then have "icb_buf (icb ic j) = blk i"
      using Suc.prems(2) fk(1) by (force simp: map_le_def dom_def)
    moreover have "\<not> i < good \<longrightarrow> field bs (bs * (i - good)) src = blk i" using Suc.prems(5) [of i] by simp
    ultimately show ?thesis using ic' Some by (simp add: cat Let_def del: upt_Suc)
  next
    case None
    then have ng: "\<not> i < good" using Suc.prems(4) [of i] by auto
    have src: "field bs (bs * (i - good)) src = blk i" using Suc.prems(5) [of i] ng by simp
    show ?thesis
    proof (cases nc)
      case True
      then show ?thesis using IH [of ic] Suc.prems(1,2) ng None src by (auto simp: cat Let_def simp del: upt_Suc)
    next
      case False
      from admit_content [OF Suc.prems(1) None fk(2) Suc.prems(2) fk(1), of nc] obtain j ic1 where
        st: "io_cache_steal ic ?k = Some (j, ic1)"
          "cache_wf (io_cache_touch nc (set_buf ic1 j (blk i)) j)"
          "content (io_cache_touch nc (set_buf ic1 j (blk i)) j) \<subseteq>\<^sub>m f" by blast
      then show ?thesis
        using IH [of "io_cache_touch nc (set_buf ic1 j (blk i)) j"] ng None src False by (auto simp: cat Let_def simp del: upt_Suc)
    qed
  qed
qed simp

lemma content_cong:
  assumes "ic_blocks ic' = ic_blocks ic" and "ic_lookup ic' = ic_lookup ic"
  shows "content ic' = content ic" and "io_cache_lookup ic' = io_cache_lookup ic"
  using assms by (simp_all add: fun_eq_iff content_def io_cache_lookup_def)

lemma good_loop_ok:
  assumes "good_loop ic blkno g k = (good, ic')"
  shows "cache_wf ic' = cache_wf ic \<and> content ic' = content ic
    \<and> io_cache_lookup ic' = io_cache_lookup ic
    \<and> g \<le> good \<and> good \<le> g + k \<and> (\<forall>j. g \<le> j \<and> j < good \<longrightarrow> io_cache_lookup ic (blkno + of_nat j) \<noteq> None)"
  using assms
proof (induction ic blkno g k rule: good_loop.induct)
  case (2 ic blkno g k)
  show ?case
  proof (cases "io_cache_lookup ic (blkno + of_nat g)")
    case None
    then show ?thesis using "2.prems" by auto
  next
    case (Some i)
    let ?ic = "ic\<lparr>ic_hits := ic_hits ic + 1\<rparr>"
    have same: "cache_wf ?ic = cache_wf ic" "io_cache_lookup ?ic = io_cache_lookup ic"
      and c: "content ?ic = content ic"
      using content_cong [of ?ic ic] by (simp_all add: cache_wf_def)
    have lk: "io_cache_lookup ic (blkno + of_nat j) \<noteq> None"
      if "\<forall>j. g + 1 \<le> j \<and> j < good \<longrightarrow> io_cache_lookup ic (blkno + of_nat j) \<noteq> None" "g \<le> j" "j < good" for j
      using that Some by (cases "j = g") auto
    show ?thesis using "2.IH" [OF Some] "2.prems" Some same c lk by auto
  qed
qed auto

lemma concat_fields:
  "concat (map (\<lambda>j. field bs ((a + j) * bs) d) [0..<n]) = field (n * bs) (a * bs) d"
proof (induction n)
  case (Suc n)
  have "field (n * bs) (a * bs) d @ field bs ((a + n) * bs) d = field (n * bs + bs) (a * bs) d"
    using field_append [of "n * bs" "a * bs" d bs] by (simp add: algebra_simps)
  then show ?case using Suc by (simp add: add.commute)
qed (simp add: field_def)

text \<open>The outcome of a read of \<open>n\<close> blocks.\<close>

definition read_outcome :: "io_channel \<Rightarrow> u64 \<Rightarrow> nat \<Rightarrow> (errcode + bytes) \<times> io_channel \<Rightarrow> bool" where
  "read_outcome ch blkno n res \<longleftrightarrow>
     (case res of
        (Inr d, ch') \<Rightarrow> d = dev_blocks ch blkno n
          \<and> chan_ok ch' \<and> dev_data ch' = dev_data ch \<and> io_blksize ch' = io_blksize ch
          \<and> io_nocache ch' = io_nocache ch \<and> (io_cache ch' = None \<longleftrightarrow> io_cache ch = None)
          \<and> heap_script ch' = heap_script ch \<and> (has_fault ch' \<longrightarrow> has_fault ch)
      | (Inl e, ch') \<Rightarrow> e = CMFS_ET_IO \<and> has_fault ch
          \<and> chan_ok ch' \<and> dev_data ch' = dev_data ch \<and> io_blksize ch' = io_blksize ch
          \<and> io_nocache ch' = io_nocache ch \<and> (io_cache ch' = None \<longleftrightarrow> io_cache ch = None)
          \<and> heap_script ch' = heap_script ch \<and> (has_fault ch' \<longrightarrow> has_fault ch))"

lemma field_field: "k + m \<le> n \<Longrightarrow> field m k (field n off buf) = field m (off + k) buf"
  by (simp add: field_def drop_take min_def add.commute)

lemma read_blocks_ok:
  assumes "chan_ok ch" and "io_cache ch = Some ic" and "on_device ch blkno n" and "request_fits ch n"
  shows "read_outcome ch blkno n (io_cache_read_blocks blkno (int n) nc ch)"
proof -
  let ?b = "nat (io_blksize ch)"
  have ok: "cache_wf ic" "content ic \<subseteq>\<^sub>m dev_block ?b (dev_data ch)"
    using assms(1,2) by (simp_all add: chan_ok_def coherent_def)
  obtain good ic1 where g: "good_loop ic blkno 0 n = (good, ic1)" by force
  note gl = good_loop_ok [OF g]
  let ?m = "n - good"
  let ?ic2 = "if good < n then ic1\<lparr>ic_misses := ic_misses ic1 + of_int (int n - int good)\<rparr> else ic1"
  have lk2: "io_cache_lookup ?ic2 = io_cache_lookup ic" and c2: "content ?ic2 = content ic"
    using gl content_cong [of ?ic2 ic1] by simp_all
  have wf2: "cache_wf ?ic2" using gl ok(1) by (simp add: cache_wf_def)
  define rd where "rd = (if good < n then unix_io_read_block (blkno + of_nat good) (int ?m) ch else (Inr [], ch))"
  have on_m: "on_device ch (blkno + of_nat good) ?m"
    using assms(3) gl unat_blkno_add [OF assms(3), of good] by (simp add: on_device_def)
  have fit_m: "request_fits ch ?m"
    by (rule request_fits_le [OF assms(4)]) (use assms(3) in \<open>simp_all add: on_device_def\<close>)
  have u: "unat (blkno + of_nat good) = unat blkno + good"
    using gl by (intro unat_blkno_add [OF assms(3)]) simp
  have rd_ok: "case rd of
      (Inr d, ch') \<Rightarrow> (good < n \<longrightarrow> d = dev_blocks ch (blkno + of_nat good) ?m) \<and> same_device ch ch'
    | (Inl e, ch') \<Rightarrow> e = CMFS_ET_IO \<and> has_fault ch \<and> same_device ch ch'"
  proof (cases "good < n")
    case True
    let ?q = "unix_io_read_block (blkno + of_nat good) (int ?m) ch"
    obtain r c where rc: "?q = (r, c)" by force
    have "rd = (r, c)" unfolding rd_def rc [symmetric] by (simp only: True if_True)
    then show ?thesis using unix_read_ok [OF on_m fit_m] unfolding rc by (cases r) simp_all
  qed (simp add: rd_def)
  have eq: "io_cache_read_blocks blkno (int n) nc ch =
      (case rd of
         (Inl e, ch') \<Rightarrow> (Inl e, ch'\<lparr>io_cache := Some ?ic2\<rparr>)
       | (Inr src, ch') \<Rightarrow>
           (case read_sync (nat (io_blksize ch')) nc blkno good src n 0 ?ic2 of
              None \<Rightarrow> (Inl C_UNDEFINED, ch'\<lparr>io_cache := Some ?ic2\<rparr>)
            | Some (data, ic3) \<Rightarrow> (Inr data, ch'\<lparr>io_cache := Some ic3\<rparr>)))"
    using assms(2) g gl by (auto simp: io_cache_read_blocks_def rd_def Let_def of_nat_diff
        split: prod.splits sum.splits option.splits)
  obtain r ch' where rch: "rd = (r, ch')" by force
  show ?thesis
  proof (cases r)
    case (Inl e)
    then show ?thesis using rd_ok rch eq ok c2 wf2 assms(2)
      by (auto simp: read_outcome_def same_device_def chan_ok_def coherent_def has_fault_def)
  next
    case (Inr src)
    have sd: "same_device ch ch'" and src: "good < n \<longrightarrow> src = dev_blocks ch (blkno + of_nat good) ?m"
      using rd_ok rch Inr by auto
    let ?blk = "\<lambda>j. field ?b ((unat blkno + j) * ?b) (dev_data ch)"
    have "\<exists>ic3. read_sync ?b nc blkno good src n 0 ?ic2 = Some (concat (map ?blk [0..<0 + n]), ic3)
        \<and> cache_wf ic3 \<and> content ic3 \<subseteq>\<^sub>m dev_block ?b (dev_data ch)"
    proof (rule read_sync_ok)
      show "cache_wf ?ic2" "content ?ic2 \<subseteq>\<^sub>m dev_block ?b (dev_data ch)" using wf2 c2 ok(2) by simp_all
      show "dev_block ?b (dev_data ch) (blkno + of_nat j) = Some (?blk j) \<and> blkno + of_nat j \<noteq> UINT64_MAX"
        if "0 \<le> j" "j < 0 + n" for j using dev_block_in [OF assms(3)] that by simp
      show "io_cache_lookup ?ic2 (blkno + of_nat j) \<noteq> None"
        if "0 \<le> j" "j < good" "j < 0 + n" for j using gl that lk2 by simp
      show "field ?b (?b * (j - good)) src = ?blk j" if "good \<le> j" "j < 0 + n" for j
      proof -
        have "?b * (j - good) + ?b \<le> ?m * ?b"
        proof -
          have "Suc (j - good) * ?b \<le> ?m * ?b" using that by (intro mult_le_mono) simp_all
          then show ?thesis by (simp add: algebra_simps)
        qed
        then have "field ?b (?b * (j - good)) src
            = field ?b (unat (blkno + of_nat good) * ?b + ?b * (j - good)) (dev_data ch)"
          using src that by (simp add: field_field)
        also have "unat (blkno + of_nat good) * ?b + ?b * (j - good) = (unat blkno + j) * ?b"
        proof -
          have "unat (blkno + of_nat good) + (j - good) = unat blkno + j" using u that by simp
          then show ?thesis by (metis add_mult_distrib mult.commute)
        qed
        finally show ?thesis .
      qed
    qed
    then obtain ic3 where ic3: "read_sync ?b nc blkno good src n 0 ?ic2
          = Some (field (n * ?b) (unat blkno * ?b) (dev_data ch), ic3)"
        "cache_wf ic3" "content ic3 \<subseteq>\<^sub>m dev_block ?b (dev_data ch)"
      by (auto simp: concat_fields)
    have bb: "io_blksize ch' = io_blksize ch" using sd by (simp add: same_device_def)
    show ?thesis using ic3 sd rch Inr eq assms(2)
      by (simp add: bb read_outcome_def chan_ok_def coherent_def same_device_def has_fault_def)
  qed
qed

lemma read_outcome_trans:
  assumes "read_outcome ch blkno m (Inr d, ch1)" and "read_outcome ch1 (blkno + of_nat m) k res"
    and "on_device ch blkno (m + k)"
  shows "read_outcome ch blkno (m + k) (case res of (Inl e, ch2) \<Rightarrow> (Inl e, ch2) | (Inr d', ch2) \<Rightarrow> (Inr (d @ d'), ch2))"
proof -
  have u: "unat (blkno + of_nat m) = unat blkno + m" using unat_blkno_add [OF assms(3), of m] by simp
  have ch1: "d = dev_blocks ch blkno m" "dev_data ch1 = dev_data ch" "io_blksize ch1 = io_blksize ch"
      "io_nocache ch1 = io_nocache ch" "(io_cache ch1 = None) = (io_cache ch = None)"
      "heap_script ch1 = heap_script ch" "has_fault ch1 \<longrightarrow> has_fault ch"
    using assms(1) by (simp_all add: read_outcome_def)
  have cat: "d @ dev_blocks ch1 (blkno + of_nat m) k = dev_blocks ch blkno (m + k)"
    using field_append [of "m * nat (io_blksize ch)" "unat blkno * nat (io_blksize ch)" "dev_data ch"
        "k * nat (io_blksize ch)"]
    by (simp add: ch1 u algebra_simps)
  obtain r ch2 where res: "res = (r, ch2)" by force
  show ?thesis
  proof (cases r)
    case (Inl e)
    then show ?thesis using assms(2) ch1 by (auto simp: res read_outcome_def)
  next
    case (Inr d')
    then have "d' = dev_blocks ch1 (blkno + of_nat m) k" using assms(2) by (simp add: res read_outcome_def)
    then have "d @ d' = dev_blocks ch blkno (m + k)" using cat by simp
    then show ?thesis using assms(2) ch1 Inr by (auto simp: res read_outcome_def)
  qed
qed

lemma on_device_prefix: "on_device ch blkno n \<Longrightarrow> m \<le> n \<Longrightarrow> on_device ch blkno m"
  by (auto simp: on_device_def elim!: order_trans [rotated])

lemma on_device_suffix:
  assumes "on_device ch blkno n" and "m \<le> n" and "dev_data ch1 = dev_data ch" and "io_blksize ch1 = io_blksize ch"
  shows "on_device ch1 (blkno + of_nat m) (n - m)"
  using assms unat_blkno_add [OF assms(1,2)] by (simp add: on_device_def)

lemma read_hunks_ok:
  assumes "chan_ok ch" and "io_cache ch \<noteq> None" and "on_device ch blkno n" and "0 < todo"
    and "todo * io_blksize ch < 2 ^ 31"
  shows "read_outcome ch blkno n (read_hunks todo blkno (int n) nc ch)"
  using assms
proof (induction n arbitrary: blkno ch todo rule: less_induct)
  case (less n)
  obtain ic where ic: "io_cache ch = Some ic" using less.prems(2) by auto
  show ?case
  proof (cases "n = 0")
    case True
    then show ?thesis using less.prems
      by (simp add: read_hunks.simps [of todo] read_outcome_def field_def)
  next
    case False
    define m where "m = min (nat todo) n"
    have m: "0 < m" "m \<le> n" "(if int n < todo then int n else todo) = int m"
      using less.prems(4) False by (auto simp: m_def)
    have om: "on_device ch blkno m" using less.prems(3) m(2) by (rule on_device_prefix)
    have small: "int m * io_blksize ch < 2 ^ 31"
    proof -
      have "int m * io_blksize ch \<le> todo * io_blksize ch"
        using less.prems(3,4) by (intro mult_right_mono) (simp_all add: m_def on_device_def)
      then show ?thesis using less.prems(5) by simp
    qed
    then have "request_fits ch m" by (simp add: request_fits_def)
    then have out: "read_outcome ch blkno m (io_cache_read_blocks blkno (int m) nc ch)"
      by (rule read_blocks_ok [OF less.prems(1) ic om])
    obtain r ch1 where q: "io_cache_read_blocks blkno (int m) nc ch = (r, ch1)" by force
    have eq: "read_hunks todo blkno (int n) nc ch =
      (case r of Inl e \<Rightarrow> (Inl e, ch1)
       | Inr d \<Rightarrow> (case read_hunks (int m) (blkno + of_nat m) (int (n - m)) nc ch1 of
            (Inl e, ch2) \<Rightarrow> (Inl e, ch2) | (Inr d', ch2) \<Rightarrow> (Inr (d @ d'), ch2)))"
      unfolding read_hunks.simps [of todo] m(3)
      using m(1,2) False q by (simp add: Let_def of_nat_diff split: sum.splits prod.splits)
    show ?thesis
    proof (cases r)
      case (Inl e)
      then show ?thesis using out q less.prems(3) by (simp add: eq read_outcome_def)
    next
      case (Inr d)
      have o1: "read_outcome ch blkno m (Inr d, ch1)" using out q Inr by simp
      then have ch1: "chan_ok ch1" "io_cache ch1 \<noteq> None" "dev_data ch1 = dev_data ch"
          "io_blksize ch1 = io_blksize ch" using ic by (simp_all add: read_outcome_def)
      have "read_outcome ch1 (blkno + of_nat m) (n - m)
          (read_hunks (int m) (blkno + of_nat m) (int (n - m)) nc ch1)"
        using m(1,2) ch1 small on_device_suffix [OF less.prems(3) m(2) ch1(3,4)]
        by (intro less.IH) simp_all
      from read_outcome_trans [OF o1 this] show ?thesis
        using less.prems(3) m(2) Inr by (simp add: eq)
    qed
  qed
qed

lemma io_read_block_ok:
  assumes "chan_ok ch" and "on_device ch blkno n" and "read_fits ch n"
  shows "read_outcome ch blkno n (io_read_block blkno (int n) ch)"
    and "read_outcome ch blkno n (io_read_block_nocache blkno (int n) ch)"
proof -
  have pos: "0 < io_blksize ch" "io_blksize ch \<le> 2 ^ 30"
    using assms(2,3) by (simp_all add: on_device_def read_fits_def)
  note todo = one_meg_ok [OF pos]
  have plain: "read_outcome ch blkno n (unix_io_read_block blkno (int n) ch)" if "io_cache ch = None"
    using unix_read_ok [OF assms(2)] assms(3) that
    by (auto simp: read_fits_def read_outcome_def same_device_def chan_ok_def split: prod.splits sum.splits)
  have cached: "read_outcome ch blkno n (io_cache_read_block blkno (int n) nc ch)"
    if "io_cache ch \<noteq> None" for nc
    unfolding io_cache_read_block_def using assms(1,2) that todo by (intro read_hunks_ok)
  show "read_outcome ch blkno n (io_read_block blkno (int n) ch)"
    using plain cached by (simp add: io_read_block_def)
  show "read_outcome ch blkno n (io_read_block_nocache blkno (int n) ch)"
    using plain cached by (simp add: io_read_block_nocache_def)
qed

section \<open>Writes\<close>

lemma pwrite64_ok:
  assumes "unat loc + length bs \<le> length (dev_data ch)" and "length (dev_data ch) < 2 ^ 63" and "bs \<noteq> []"
  shows "case pwrite64 bs loc ch of
    (Inl e, ch') \<Rightarrow> has_fault ch \<and> same_device ch ch'
  | (Inr k, ch') \<Rightarrow> 0 < k \<and> k \<le> length bs
      \<and> same_device (ch\<lparr>dev_data := put (unat loc) (take k bs) (dev_data ch)\<rparr>) ch'"
proof -
  have l: "0 < length bs" using assms(3) by simp
  have "unat loc < 2 ^ 63" using assms(1,2) by simp
  then have s: "\<not> sint loc < 0" by (rule sint_small)
  have n: "min (length bs) (length (dev_data ch) - unat loc) = length bs" using assms(1) by simp
  show ?thesis
  proof (cases "dev_script ch")
    case Nil
    then show ?thesis using s n l by (simp add: pwrite64_def same_device_def has_fault_def)
  next
    case (Cons x xs)
    then show ?thesis using s n l
      by (cases x) (auto simp: pwrite64_def Let_def same_device_def has_fault_def)
  qed
qed

lemma write_loop_ok:
  assumes "unat loc + length data \<le> length d0" and "length d0 < 2 ^ 63" and "tot \<le> length data"
    and "dev_data ch = put (unat loc) (take tot data) d0"
  shows "case unix_write_loop data loc tot ch of
    ((None, t), ch') \<Rightarrow> t = length data
      \<and> same_device (ch\<lparr>dev_data := put (unat loc) data d0\<rparr>) ch'
  | ((Some e, t), ch') \<Rightarrow> e = CMFS_ET_IO \<and> has_fault ch \<and> tot \<le> t \<and> t \<le> length data \<and> t \<noteq> length data
      \<and> same_device (ch\<lparr>dev_data := put (unat loc) (take t data) d0\<rparr>) ch'"
  using assms
proof (induction data loc tot ch rule: unix_write_loop.induct)
  case (1 data loc tot ch)
  show ?case
  proof (cases "tot < length data")
    case False
    then have tot: "tot = length data" using "1.prems"(3) by simp
    have "unix_write_loop data loc tot ch = ((None, tot), ch)"
      using False by (simp add: unix_write_loop.simps [of data loc tot ch])
    moreover have "ch\<lparr>dev_data := put (unat loc) data d0\<rparr> = ch" using "1.prems"(4) tot by simp
    ultimately show ?thesis using tot by simp
  next
    case True
    let ?l = "loc + of_nat tot"
    have l: "unat ?l = unat loc + tot" using "1.prems" by (intro unat_add_small) simp
    have len: "length (dev_data ch) = length d0" using "1.prems" by simp
    have pw: "case pwrite64 (drop tot data) ?l ch of
        (Inl e, ch') \<Rightarrow> has_fault ch \<and> same_device ch ch'
      | (Inr k, ch') \<Rightarrow> 0 < k \<and> k \<le> length (drop tot data)
          \<and> same_device (ch\<lparr>dev_data := put (unat ?l) (take k (drop tot data)) (dev_data ch)\<rparr>) ch'"
      using "1.prems" True l len by (intro pwrite64_ok) simp_all
    obtain r ch' where p: "pwrite64 (drop tot data) ?l ch = (r, ch')" by force
    show ?thesis
    proof (cases r)
      case (Inl e)
      then show ?thesis using pw p True "1.prems"(4)
        by (simp add: unix_write_loop.simps [of data loc tot ch] same_device_def has_fault_def)
    next
      case (Inr k)
      have k: "0 < k" "k \<le> length data - tot" using pw p Inr by auto
      have "put (unat ?l) (take k (drop tot data)) (dev_data ch) = put (unat loc) (take (tot + k) data) d0"
        using put_append [of "unat loc" "take tot data" "take k (drop tot data)" d0] "1.prems" k True l
        by (simp add: take_add min_def)
      then have sd: "same_device (ch\<lparr>dev_data := put (unat loc) (take (tot + k) data) d0\<rparr>) ch'"
        using pw p Inr by simp
      have "case unix_write_loop data loc (tot + k) ch' of
          ((None, t), ch'') \<Rightarrow> t = length data \<and> same_device (ch'\<lparr>dev_data := put (unat loc) data d0\<rparr>) ch''
        | ((Some e, t), ch'') \<Rightarrow> e = CMFS_ET_IO \<and> has_fault ch' \<and> tot + k \<le> t \<and> t \<le> length data \<and> t \<noteq> length data
            \<and> same_device (ch'\<lparr>dev_data := put (unat loc) (take t data) d0\<rparr>) ch''"
        using "1.prems"(1,2) k sd
        by (intro "1.IH" [OF True p [symmetric] Inr]) (simp_all add: same_device_def)
      then show ?thesis using True p Inr k sd
        by (auto simp: unix_write_loop.simps [of data loc tot ch] same_device_def has_fault_def
            split: prod.splits option.splits)
    qed
  qed
qed

definition agrees_except :: "u64 set \<Rightarrow> io_cache \<Rightarrow> (u64 \<Rightarrow> bytes option) \<Rightarrow> bool" where
  "agrees_except R ic f \<longleftrightarrow> (\<forall>k b. content ic k = Some b \<longrightarrow> k \<in> R \<or> f k = Some b)"

lemma agrees_except_empty: "agrees_except {} ic f \<longleftrightarrow> content ic \<subseteq>\<^sub>m f"
  by (auto simp: agrees_except_def map_le_def dom_def)

lemma agrees_update:
  assumes "cache_wf ic" and "io_cache_lookup ic k = Some j" and "agrees_except (insert k R) ic f"
    and "f k = Some blk"
  shows "cache_wf (io_cache_touch nc (set_buf ic j blk) j)"
    and "agrees_except R (io_cache_touch nc (set_buf ic j blk) j) f"
proof -
  have "content ic k \<noteq> None" using assms(2) by (simp add: content_None)
  from cache.update_wf [OF assms(1) this, of nc blk] cache.update_look [OF assms(1) this, of nc blk]
  have c: "cache_wf (io_cache_touch nc (set_buf ic j blk) j)"
    "content (io_cache_touch nc (set_buf ic j blk) j) = (content ic)(k \<mapsto> blk)"
    by (simp_all add: cache_update_def assms(2))
  show "cache_wf (io_cache_touch nc (set_buf ic j blk) j)" by (rule c(1))
  show "agrees_except R (io_cache_touch nc (set_buf ic j blk) j) f"
    using assms(3,4) by (auto simp: agrees_except_def c(2))
qed

lemma agrees_admit:
  assumes "cache_wf ic" and "io_cache_lookup ic k = None" and "k \<noteq> UINT64_MAX"
    and "agrees_except (insert k R) ic f" and "f k = Some blk"
  shows "\<exists>j ic1. io_cache_steal ic k = Some (j, ic1)
    \<and> cache_wf (io_cache_touch nc (set_buf ic1 j blk) j)
    \<and> agrees_except R (io_cache_touch nc (set_buf ic1 j blk) j) f"
proof -
  have "content ic k = None" using assms(2) by (simp add: content_None)
  from cache.admit_ok [OF assms(1) this assms(3), of nc blk] obtain c' where
    c': "cache_admit nc k blk ic = Some c'" "cache_wf c'" "content c' k = Some blk"
      "\<And>k'. k' \<noteq> k \<Longrightarrow> content c' k' = None \<or> content c' k' = content ic k'" by blast
  have "agrees_except R c' f"
    unfolding agrees_except_def
  proof (intro allI impI)
    fix k' b assume b: "content c' k' = Some b"
    show "k' \<in> R \<or> f k' = Some b"
    proof (cases "k' = k")
      case True
      then show ?thesis using b c'(3) assms(5) by simp
    next
      case False
      then have "content ic k' = Some b" using b c'(4) by fastforce
      then show ?thesis using assms(4) False by (auto simp: agrees_except_def)
    qed
  qed
  then show ?thesis using c'(1,2) by (auto simp: cache_admit_def bind_eq_Some_conv)
qed

definition blk_range :: "u64 \<Rightarrow> nat \<Rightarrow> nat \<Rightarrow> u64 set" where
  "blk_range blkno i j = (\<lambda>n. blkno + of_nat n) ` {i..<j}"

lemma blk_range_Suc: "i < j \<Longrightarrow> blk_range blkno i j = insert (blkno + of_nat i) (blk_range blkno (Suc i) j)"
proof -
  assume "i < j"
  then have "{i..<j} = insert i {Suc i..<j}" by auto
  then show ?thesis by (simp add: blk_range_def)
qed

lemma write_sync_ok:
  assumes "cache_wf ic"
    and "agrees_except (blk_range blkno i (i + k) \<union> X) ic f"
    and "\<And>j. i \<le> j \<Longrightarrow> j < i + k \<Longrightarrow>
      f (blkno + of_nat j) = Some (field bs (bs * j) data) \<and> blkno + of_nat j \<noteq> UINT64_MAX"
  shows "\<exists>ic'. write_sync bs nc blkno data k i ic = Some ic' \<and> cache_wf ic' \<and> agrees_except X ic' f"
  using assms
proof (induction k arbitrary: i ic)
  case (Suc k)
  let ?k = "blkno + of_nat i"
  let ?R = "blk_range blkno (Suc i) (Suc i + k) \<union> X"
  have R: "blk_range blkno i (i + Suc k) \<union> X = insert ?k ?R"
    using blk_range_Suc [of i "i + Suc k" blkno] by simp
  have ag: "agrees_except (insert ?k ?R) ic f" using Suc.prems(2) unfolding R .
  have fk: "f ?k = Some (field bs (bs * i) data)" "?k \<noteq> UINT64_MAX" using Suc.prems(3) [of i] by simp_all
  have IH: "\<exists>ic'. write_sync bs nc blkno data k (Suc i) ic2 = Some ic' \<and> cache_wf ic' \<and> agrees_except X ic' f"
    if "cache_wf ic2" "agrees_except ?R ic2 f" for ic2
    using that Suc.prems(3) by (intro Suc.IH) auto
  show ?case
  proof (cases "io_cache_lookup ic ?k")
    case (Some j)
    note u = agrees_update [OF Suc.prems(1) Some ag fk(1), of nc]
    show ?thesis using IH [OF u] Some by (simp add: Let_def)
  next
    case None
    show ?thesis
    proof (cases nc)
      case True
      have "agrees_except ?R ic f"
        using ag None [folded content_None] unfolding agrees_except_def
        by (metis insert_iff option.distinct(1))
      then show ?thesis using IH [OF Suc.prems(1)] None True by (simp add: Let_def)
    next
      case False
      from agrees_admit [OF Suc.prems(1) None fk(2) ag fk(1), of nc] obtain j ic1 where
        st: "io_cache_steal ic ?k = Some (j, ic1)"
        "cache_wf (io_cache_touch nc (set_buf ic1 j (field bs (bs * i) data)) j)"
        "agrees_except ?R (io_cache_touch nc (set_buf ic1 j (field bs (bs * i) data)) j) f" by blast
      show ?thesis using IH [OF st(2,3)] st(1) None False by (simp add: Let_def)
    qed
  qed
qed (simp add: blk_range_def)

text \<open>The blocks of a device after \<open>t\<close> bytes have been written at block \<open>blkno\<close>.\<close>

lemma dev_block_written:
  assumes "on_device ch blkno n" and "t \<le> length data" and "length data = n * nat (io_blksize ch)"
    and "j < t div nat (io_blksize ch)"
  shows "dev_block (nat (io_blksize ch))
      (put (unat blkno * nat (io_blksize ch)) (take t data) (dev_data ch)) (blkno + of_nat j)
    = Some (field (nat (io_blksize ch)) (nat (io_blksize ch) * j) data)"
    and "blkno + of_nat j \<noteq> UINT64_MAX"
proof -
  let ?b = "nat (io_blksize ch)"
  let ?loc = "unat blkno * ?b"
  have pos: "0 < ?b" using on_device_pos [OF assms(1)] by simp
  have jt: "(j + 1) * ?b \<le> t"
    using assms(4) less_eq_div_iff_mult_less_eq [OF pos, of "Suc j" t] by simp
  then have "(j + 1) * ?b \<le> n * ?b" using assms(2,3) by simp
  then have "j + 1 \<le> n" using pos by (simp only: mult_le_cancel2)
  then have jn: "j < n" by simp
  have u: "unat (blkno + of_nat j) = unat blkno + j" using unat_blkno_add [OF assms(1), of j] jn by simp
  show "blkno + of_nat j \<noteq> UINT64_MAX" by (rule dev_block_in(2) [OF assms(1) jn])
  have fit: "?loc + length (take t data) \<le> length (dev_data ch)"
    using assms by (simp add: on_device_def algebra_simps)
  have bfit: "(unat blkno + j + 1) * ?b \<le> length (dev_data ch)"
  proof -
    have "(unat blkno + j + 1) * ?b \<le> (unat blkno + n) * ?b" using jn by (intro mult_le_mono) simp_all
    then show ?thesis using assms(1) by (simp add: on_device_def)
  qed
  have "field ?b ((unat blkno + j) * ?b) (put ?loc (take t data) (dev_data ch)) = field ?b (?b * j) data"
  proof (rule nth_equalityI)
    have jl: "?b * j + ?b \<le> length data" using jt assms(2) by (simp add: algebra_simps)
    show "length (field ?b ((unat blkno + j) * ?b) (put ?loc (take t data) (dev_data ch)))
        = length (field ?b (?b * j) data)"
      using fit bfit jl by (simp add: length_field algebra_simps)
    fix i assume "i < length (field ?b ((unat blkno + j) * ?b) (put ?loc (take t data) (dev_data ch)))"
    then have i: "i < ?b" by (simp add: field_def)
    have idx: "(unat blkno + j) * ?b + i = ?loc + (?b * j + i)" by (simp add: algebra_simps)
    have "?b * j + i < t" using jt i by (simp add: algebra_simps)
    then show "field ?b ((unat blkno + j) * ?b) (put ?loc (take t data) (dev_data ch)) ! i
        = field ?b (?b * j) data ! i"
      using i fit bfit jl assms(2) unfolding field_def
      by (simp add: idx nth_put algebra_simps)
  qed
  then show "dev_block ?b (put ?loc (take t data) (dev_data ch)) (blkno + of_nat j)
      = Some (field ?b (?b * j) data)"
    using u fit bfit by (simp add: dev_block_def)
qed

lemma dev_block_kept:
  assumes "on_device ch blkno n" and "t \<le> n * nat (io_blksize ch)" and "length bs = t"
    and "unat k < unat blkno \<or> unat blkno * nat (io_blksize ch) + t \<le> unat k * nat (io_blksize ch)"
  shows "dev_block (nat (io_blksize ch)) (put (unat blkno * nat (io_blksize ch)) bs (dev_data ch)) k
    = dev_block (nat (io_blksize ch)) (dev_data ch) k"
proof -
  let ?b = "nat (io_blksize ch)"
  have fit: "unat blkno * ?b + length bs \<le> length (dev_data ch)"
    using assms by (simp add: on_device_def algebra_simps)
  have "unat k * ?b + ?b \<le> unat blkno * ?b \<or> unat blkno * ?b + length bs \<le> unat k * ?b"
  proof (cases "unat k < unat blkno")
    case True
    then have "Suc (unat k) * ?b \<le> unat blkno * ?b" by (intro mult_le_mono) simp_all
    then show ?thesis by simp
  next
    case False
    then show ?thesis using assms(3,4) by simp
  qed
  then show ?thesis using fit by (simp add: dev_block_def field_put_other)
qed

lemma io_cache_write_ok:
  assumes "chan_ok ch" and "on_device ch blkno n" and "length data = n * nat (io_blksize ch)"
    and "io_cache ch = Some ic" and "request_fits ch n"
  shows "case io_cache_write_blocks blkno (int n) data nc ch of
    (Inr _, ch') \<Rightarrow> same_device (ch\<lparr>dev_data := put (unat blkno * nat (io_blksize ch)) data (dev_data ch),
        io_cache := io_cache ch'\<rparr>) ch' \<and> chan_ok ch'
  | (Inl e, ch') \<Rightarrow> e = CMFS_ET_IO \<and> has_fault ch \<and> (\<exists>t \<le> length data.
      same_device (ch\<lparr>dev_data := put (unat blkno * nat (io_blksize ch)) (take t data) (dev_data ch),
        io_cache := io_cache ch'\<rparr>) ch'
      \<and> (\<exists>ic'. io_cache ch' = Some ic' \<and> cache_wf ic'
        \<and> agrees_except {blkno + of_nat (t div nat (io_blksize ch))} ic'
            (dev_block (nat (io_blksize ch)) (dev_data ch'))))"
proof -
  let ?b = "nat (io_blksize ch)" and ?loc = "unat blkno * nat (io_blksize ch)"
  have pos: "0 < ?b" using on_device_pos [OF assms(2)] by simp
  have loc: "unat (io_location ch blkno) = ?loc" by (rule location_ok [OF assms(2)])
  have n: "nat (io_size ch (int n)) = n * ?b" "io_size ch (int n) = int (n * ?b)"
    using assms(2,5) by (simp_all only: io_size_nat io_size_ok on_device_def)
  have fit: "?loc + length data \<le> length (dev_data ch)"
    using assms by (simp add: on_device_def algebra_simps)
  obtain ret t ch1 where w: "unix_write_loop data (io_location ch blkno) 0 ch = ((ret, t), ch1)"
    by (metis surj_pair)
  have wl: "case ((ret, t), ch1) of
      ((None, t), ch') \<Rightarrow> t = length data \<and> same_device (ch\<lparr>dev_data := put ?loc data (dev_data ch)\<rparr>) ch'
    | ((Some e, t), ch') \<Rightarrow> e = CMFS_ET_IO \<and> has_fault ch \<and> 0 \<le> t \<and> t \<le> length data \<and> t \<noteq> length data
        \<and> same_device (ch\<lparr>dev_data := put ?loc (take t data) (dev_data ch)\<rparr>) ch'"
    unfolding w [symmetric] loc [symmetric]
    using fit assms(2) by (intro write_loop_ok) (simp_all add: loc on_device_def put_def)
  have t: "t \<le> length data" using wl by (cases ret) simp_all
  have sd: "same_device (ch\<lparr>dev_data := put ?loc (take t data) (dev_data ch)\<rparr>) ch1"
    using wl by (cases ret) simp_all
  define f where "f = dev_block ?b (put ?loc (take t data) (dev_data ch))"
  let ?c = "t div ?b"
  have wf: "cache_wf ic" and agree0: "content ic \<subseteq>\<^sub>m dev_block ?b (dev_data ch)"
    using assms(1,4) by (simp_all add: chan_ok_def coherent_def)
  define X where "X = (if t = ?c * ?b then {} else {blkno + of_nat ?c})"
  have fk: "f (blkno + of_nat j) = Some (field ?b (?b * j) data) \<and> blkno + of_nat j \<noteq> UINT64_MAX"
    if "0 \<le> j" "j < 0 + ?c" for j
    using dev_block_written [OF assms(2) t assms(3), of j] that by (simp add: f_def)
  have kept: "f k = dev_block ?b (dev_data ch) k" if k: "k \<notin> blk_range blkno 0 (0 + ?c) \<union> X" for k
    unfolding f_def
  proof (rule dev_block_kept [OF assms(2)])
    show "t \<le> n * ?b" using t assms(3) by simp
    show "length (take t data) = t" using t by simp
    show "unat k < unat blkno \<or> ?loc + t \<le> unat k * ?b"
    proof (rule disjCI)
      assume nk: "\<not> ?loc + t \<le> unat k * ?b"
      show "unat k < unat blkno"
      proof (rule ccontr)
        assume "\<not> unat k < unat blkno"
        then obtain j where j: "unat k = unat blkno + j" using le_Suc_ex not_less by blast
        have "k = of_nat (unat k)" by simp
        also have "\<dots> = blkno + of_nat j" unfolding j by simp
        finally have "k = blkno + of_nat j" .
        have "?loc + j * ?b < ?loc + t" using nk j by (simp add: algebra_simps)
        then have jb: "j * ?b < t" by simp
        then have "j \<le> ?c" using less_eq_div_iff_mult_less_eq [OF pos, of j t] by simp
        moreover have "j \<noteq> ?c"
        proof
          assume "j = ?c"
          then have "t \<noteq> ?c * ?b" using jb by simp
          then show False using k \<open>k = blkno + of_nat j\<close> \<open>j = ?c\<close> by (simp add: X_def)
        qed
        ultimately have "j \<in> {0..<?c}" by simp
        then show False using k \<open>k = blkno + of_nat j\<close> by (auto simp: blk_range_def)
      qed
    qed
  qed
  have ag: "agrees_except (blk_range blkno 0 (0 + ?c) \<union> X) ic f"
    unfolding agrees_except_def
  proof (intro allI impI)
    fix k b assume b: "content ic k = Some b"
    then have "dev_block ?b (dev_data ch) k = Some b" using agree0 by (force simp: map_le_def dom_def)
    then show "k \<in> blk_range blkno 0 (0 + ?c) \<union> X \<or> f k = Some b" using kept [of k] by auto
  qed
  from write_sync_ok [OF wf ag fk, of nc] obtain ic' where
    ic': "write_sync ?b nc blkno data ?c 0 ic = Some ic'" "cache_wf ic'" "agrees_except X ic' f" by auto
  have ch1: "io_blksize ch1 = io_blksize ch" "io_cache ch1 = Some ic"
      "dev_data ch1 = put ?loc (take t data) (dev_data ch)"
    using sd assms(4) by (simp_all add: same_device_def)
  have comp: "nat (int t div io_blksize ch) = ?c"
    using assms(2) by (simp add: nat_div_distrib on_device_def)
  have "ret = None \<longrightarrow> t = length data" using wl by (cases ret) simp_all
  then have eq: "io_cache_write_blocks blkno (int n) data nc ch =
      (ret_to_io ret, (ch1\<lparr>io_bytes_written := io_bytes_written ch1 + of_nat t\<rparr>)\<lparr>io_cache := Some ic'\<rparr>)"
    using w n assms(3) ic'(1) ch1 comp
    by (auto simp: io_cache_write_blocks_def unix_io_write_block_full_def Let_def)
  show ?thesis
  proof (cases ret)
    case None
    then have tl: "t = length data" using wl by simp
    then have "X = {}" using assms(3) pos by (simp add: X_def)
    then have "content ic' \<subseteq>\<^sub>m dev_block ?b (put ?loc data (dev_data ch))"
      using ic'(3) tl by (simp add: agrees_except_empty f_def)
    then show ?thesis unfolding eq using None sd tl ic'(2) ch1
      by (simp add: ret_to_io_def same_device_def has_fault_def chan_ok_def coherent_def)
  next
    case (Some e)
    have "agrees_except {blkno + of_nat ?c} ic' f"
      using ic'(3) by (auto simp: agrees_except_def X_def split: if_splits)
    then show ?thesis unfolding eq using Some wl sd t ic'(2) ch1
      by (auto simp: ret_to_io_def same_device_def has_fault_def f_def)
  qed
qed

lemma unix_write_ok:
  assumes "on_device ch blkno n" and "length data = n * nat (io_blksize ch)" and "request_fits ch n"
  shows "case unix_io_write_block blkno (int n) data ch of
    (Inr _, ch') \<Rightarrow> same_device (ch\<lparr>dev_data := put (unat blkno * nat (io_blksize ch)) data (dev_data ch)\<rparr>) ch'
  | (Inl e, ch') \<Rightarrow> e = CMFS_ET_IO \<and> has_fault ch \<and> (\<exists>t \<le> length data.
      same_device (ch\<lparr>dev_data := put (unat blkno * nat (io_blksize ch)) (take t data) (dev_data ch)\<rparr>) ch')"
proof -
  let ?b = "nat (io_blksize ch)" and ?loc = "unat blkno * nat (io_blksize ch)"
  have loc: "unat (io_location ch blkno) = ?loc" by (rule location_ok [OF assms(1)])
  have n: "nat (io_size ch (int n)) = n * ?b" "io_size ch (int n) = int (n * ?b)"
    using assms(1,3) by (simp_all only: io_size_nat io_size_ok on_device_def)
  have fit: "?loc + length data \<le> length (dev_data ch)"
    using assms by (simp add: on_device_def algebra_simps)
  obtain ret t ch1 where w: "unix_write_loop data (io_location ch blkno) 0 ch = ((ret, t), ch1)"
    by (metis surj_pair)
  have wl: "case ((ret, t), ch1) of
      ((None, t), ch') \<Rightarrow> t = length data \<and> same_device (ch\<lparr>dev_data := put ?loc data (dev_data ch)\<rparr>) ch'
    | ((Some e, t), ch') \<Rightarrow> e = CMFS_ET_IO \<and> has_fault ch \<and> 0 \<le> t \<and> t \<le> length data \<and> t \<noteq> length data
        \<and> same_device (ch\<lparr>dev_data := put ?loc (take t data) (dev_data ch)\<rparr>) ch'"
    unfolding w [symmetric] loc [symmetric]
    using fit assms(1) by (intro write_loop_ok) (simp_all add: loc on_device_def put_def)
  show ?thesis
    using w wl n assms(2)
    by (cases ret) (auto simp: unix_io_write_block_def unix_io_write_block_full_def ret_to_io_def
        same_device_def has_fault_def)
qed

lemma io_write_block_ok:
  assumes "chan_ok ch" and "on_device ch blkno n" and "length data = n * nat (io_blksize ch)"
    and "request_fits ch n" and "io_write_block blkno (int n) data ch = (Inr u, ch')"
  shows "dev_data ch' = put (unat blkno * nat (io_blksize ch)) data (dev_data ch)
    \<and> io_blksize ch' = io_blksize ch \<and> chan_ok ch'"
proof (cases "io_cache ch")
  case None
  then show ?thesis using unix_write_ok [OF assms(2-4)] assms(5)
    by (simp add: io_write_block_def same_device_def chan_ok_def)
next
  case (Some ic)
  then show ?thesis using io_cache_write_ok [OF assms(1-3) Some assms(4), of "io_nocache ch"] assms(5)
    by (simp add: io_write_block_def io_cache_write_block_def same_device_def)
qed

section \<open>Properties\<close>

text \<open>
  C5. A read of whole blocks on the device is transparent to a cache that agrees with the
  device: without a cache or with one whose blocks are copies of device blocks, with or
  without \<^verbatim>\<open>nocache\<close>, it either returns exactly the bytes the device holds there, or reports
  an I/O error that a failed system call caused. The device is unchanged, the cache is a
  copy of device blocks again, and no assertion of the cache code fails. The count is an
  \<^verbatim>\<open>int\<close>, a block has at most \<open>2 ^ 30\<close> bytes, and without a cache, where the request
  is not cut into hunks, its size in bytes is an \<^verbatim>\<open>int\<close> too.
\<close>

theorem io_read_transparent:
  assumes "chan_ok ch" and "on_device ch blkno n" and "read_fits ch n"
  shows "(case io_read_block blkno (int n) ch of
      (Inr d, ch') \<Rightarrow> d = dev_blocks ch blkno n \<and> chan_ok ch' \<and> dev_data ch' = dev_data ch
    | (Inl e, ch') \<Rightarrow> e = CMFS_ET_IO \<and> has_fault ch \<and> chan_ok ch' \<and> dev_data ch' = dev_data ch)
   \<and> (case io_read_block_nocache blkno (int n) ch of
      (Inr d, ch') \<Rightarrow> d = dev_blocks ch blkno n \<and> chan_ok ch' \<and> dev_data ch' = dev_data ch
    | (Inl e, ch') \<Rightarrow> e = CMFS_ET_IO \<and> has_fault ch \<and> chan_ok ch' \<and> dev_data ch' = dev_data ch)"
  using io_read_block_ok [OF assms] by (auto simp: read_outcome_def split: prod.splits sum.splits)

text \<open>A small channel: six blocks of four bytes and a cache of two blocks.\<close>

definition demo_channel :: "sys_outcome list \<Rightarrow> io_channel" where
  "demo_channel script =
     \<lparr> io_blksize = 4, io_error = 0, io_nocache = False,
       io_cache = Some (new_cache 4 [[0, 0, 0, 0], [0, 0, 0, 0]] 2),
       io_bytes_read = 0, io_bytes_written = 0, dev_data = counting 24,
       dev_script = script, heap_script = [] \<rparr>"

lemma new_cache_ok:
  assumes "0 < nr"
  shows "cache_wf (new_cache b junk nr)" and "content (new_cache b junk nr) = Map.empty"
  using assms
  by (auto simp: new_cache_def cache_wf_def index_ok_def rb_ok_def fun_eq_iff content_def
      io_cache_lookup_def)

lemma demo_channel_ok: "chan_ok (demo_channel s)"
  using new_cache_ok [of 2 4 "[[0, 0, 0, 0], [0, 0, 0, 0]]"]
  by (simp add: demo_channel_def chan_ok_def coherent_def)

theorem io_read_transparent_witness:
  "case io_read_block 1 (int 3) (demo_channel [Limit 5]) of
     (Inr d, ch') \<Rightarrow> d = map of_nat [4..<16] \<and> chan_ok ch'
   | (Inl e, ch') \<Rightarrow> False"
proof -
  have "on_device (demo_channel [Limit 5]) 1 3" by (simp add: demo_channel_def on_device_def)
  moreover have "read_fits (demo_channel [Limit 5]) 3"
    by (simp add: demo_channel_def read_fits_def request_fits_def)
  moreover have "dev_blocks (demo_channel [Limit 5]) 1 3 = map of_nat [4..<16]"
    by (simp add: demo_channel_def field_counting)
  moreover have "\<not> has_fault (demo_channel [Limit 5])" by (simp add: demo_channel_def has_fault_def)
  ultimately show ?thesis
    using io_read_transparent [OF demo_channel_ok, of "[Limit 5]" 1 3]
    by (auto split: prod.splits sum.splits)
qed

text \<open>
  C6. A write of whole blocks on the device, of fewer than \<open>2 ^ 31\<close> bytes, that succeeds puts
  exactly these bytes on the device and keeps the cache a copy of device blocks, so that
  the next read of the blocks returns what was written.
\<close>

theorem io_write_read_back:
  assumes "chan_ok ch" and "on_device ch blkno n" and "length data = n * nat (io_blksize ch)"
    and "request_fits ch n" and "read_fits ch n"
    and "io_write_block blkno (int n) data ch = (Inr u, ch')"
  shows "dev_data ch' = put (unat blkno * nat (io_blksize ch)) data (dev_data ch) \<and> chan_ok ch'
    \<and> (case io_read_block blkno (int n) ch' of
         (Inr d, ch'') \<Rightarrow> d = data \<and> chan_ok ch''
       | (Inl e, ch'') \<Rightarrow> e = CMFS_ET_IO \<and> has_fault ch')"
proof -
  let ?loc = "unat blkno * nat (io_blksize ch)"
  note w = io_write_block_ok [OF assms(1-4,6)]
  have fit: "?loc + length data \<le> length (dev_data ch)"
    using assms(2,3) by (simp add: on_device_def algebra_simps)
  then have on': "on_device ch' blkno n" using assms(2) w by (simp add: on_device_def)
  have fits': "read_fits ch' n" using assms(4,5) w by (simp add: read_fits_def request_fits_def)
  have reread: "dev_blocks ch' blkno n = data" using w fit assms(3) by (simp add: field_put_same)
  show ?thesis using w io_read_block_ok(1) [OF _ on' fits'] reread
    by (auto simp: read_outcome_def split: prod.splits sum.splits)
qed

theorem io_write_read_back_witness:
  "case io_write_block 2 (int 1) [9, 9, 9, 9] (demo_channel []) of
     (Inr u, ch') \<Rightarrow> dev_data ch' = put 8 [9, 9, 9, 9] (counting 24) \<and> chan_ok ch'
   | (Inl e, ch') \<Rightarrow> False"
proof -
  have on: "on_device (demo_channel []) 2 1" by (simp add: demo_channel_def on_device_def)
  have len: "length [9, 9, 9, 9 :: u8] = 1 * nat (io_blksize (demo_channel []))"
    by (simp add: demo_channel_def)
  have "\<exists>ic. io_cache (demo_channel []) = Some ic" by (simp add: demo_channel_def)
  then obtain ic where ic: "io_cache (demo_channel []) = Some ic" by blast
  have nf: "\<not> has_fault (demo_channel [])" by (simp add: demo_channel_def has_fault_def)
  have fits: "request_fits (demo_channel []) 1" "read_fits (demo_channel []) 1"
    by (simp_all add: demo_channel_def request_fits_def read_fits_def)
  obtain r ch' where w: "io_write_block 2 (int 1) [9, 9, 9, 9] (demo_channel []) = (r, ch')" by force
  show ?thesis
  proof (cases r)
    case (Inl e)
    then show ?thesis
      using io_cache_write_ok [OF demo_channel_ok on len ic fits(1), of False] w nf ic
      by (simp add: io_write_block_def io_cache_write_block_def demo_channel_def)
  next
    case (Inr u)
    then show ?thesis
      using io_write_read_back [OF demo_channel_ok on len fits, of u ch'] w
      by (simp add: demo_channel_def)
  qed
qed

text \<open>
  C21. When a write of fewer than \<open>2 ^ 31\<close> bytes through the cache fails, what it leaves is exactly known: some
  prefix of the data is on the device, and the cache is a copy of device blocks
  except perhaps for the one block in which the written prefix ends; a cached copy
  of that block is not refreshed.
\<close>

theorem io_write_failure:
  assumes "chan_ok ch" and "on_device ch blkno n" and "length data = n * nat (io_blksize ch)"
    and "request_fits ch n" and "io_cache ch \<noteq> None" and "io_write_block blkno (int n) data ch = (Inl e, ch')"
  shows "e = CMFS_ET_IO \<and> has_fault ch \<and> (\<exists>t ic'. t \<le> length data \<and> io_cache ch' = Some ic'
    \<and> dev_data ch' = put (unat blkno * nat (io_blksize ch)) (take t data) (dev_data ch)
    \<and> cache_wf ic' \<and> (\<forall>k b. content ic' k = Some b \<longrightarrow>
         k = blkno + of_nat (t div nat (io_blksize ch))
         \<or> dev_block (nat (io_blksize ch)) (dev_data ch') k = Some b))"
proof -
  obtain ic where ic: "io_cache ch = Some ic" using assms(5) by auto
  from io_cache_write_ok [OF assms(1-3) ic assms(4), of "io_nocache ch"] assms(6) ic show ?thesis
    by (auto simp: io_write_block_def io_cache_write_block_def same_device_def agrees_except_def)
qed

theorem io_write_failure_witness:
  "fst (io_write_block 2 (int 1) [9, 9, 9, 9] (demo_channel [Limit 2, Fail 5])) = Inl CMFS_ET_IO
   \<and> (\<exists>t. dev_data (snd (io_write_block 2 (int 1) [9, 9, 9, 9] (demo_channel [Limit 2, Fail 5])))
        = put 8 (take t [9, 9, 9, 9]) (counting 24))"
proof -
  let ?ch = "demo_channel [Limit 2, Fail 5]"
  have on: "on_device ?ch 2 1" by (simp add: demo_channel_def on_device_def)
  have len: "length [9, 9, 9, 9 :: u8] = 1 * nat (io_blksize ?ch)" by (simp add: demo_channel_def)
  have fits: "request_fits ?ch 1" by (simp add: demo_channel_def request_fits_def)
  have c: "io_cache ?ch \<noteq> None" by (simp add: demo_channel_def)
  have "fst (io_write_block 2 1 [9, 9, 9, 9] ?ch) = Inl CMFS_ET_IO" by code_simp
  then obtain ch' where w: "io_write_block 2 (int 1) [9, 9, 9, 9] ?ch = (Inl CMFS_ET_IO, ch')"
    by (cases "io_write_block 2 (int 1) [9, 9, 9, 9] ?ch") simp
  show ?thesis
    using io_write_failure [OF demo_channel_ok on len fits c w] w by (auto simp: demo_channel_def)
qed

end
