(* ===== verification/Io_failures.thy ===== *)
theory Io_failures
  imports Transfers
begin

text \<open>
  What the block I/O of \<^verbatim>\<open>libcmfs/unix_io.c\<close> does when it goes wrong: the copy of a block that
  a failed write leaves in the cache, and the requests whose size in bytes does not fit
  into the \<^verbatim>\<open>int\<close> in which it is computed.
\<close>

section \<open>A failed write of one block\<close>

lemma failed_write_keeps_cache:
  assumes "on_device ch blkno 1" and "request_fits ch 1" and "io_cache ch = Some ic"
    and "length data = nat (io_blksize ch)" and "chan_ok ch"
    and "io_cache_write_blocks blkno 1 data nc ch = (Inl e, ch')"
  shows "\<exists>t < nat (io_blksize ch).
    dev_data ch' = put (unat blkno * nat (io_blksize ch)) (take t data) (dev_data ch)
    \<and> io_cache ch' = Some ic \<and> io_blksize ch' = io_blksize ch \<and> io_nocache ch' = io_nocache ch"
proof -
  let ?b = "nat (io_blksize ch)" and ?loc = "unat blkno * nat (io_blksize ch)"
  have loc: "unat (io_location ch blkno) = ?loc" by (rule location_ok [OF assms(1)])
  have n: "io_size ch 1 = int ?b"
    using io_size_ok [of ch 1] assms(1,2) by (simp add: on_device_def)
  have fit: "?loc + length data \<le> length (dev_data ch)"
    using assms by (simp add: on_device_def algebra_simps)
  obtain ret t ch1 where w: "unix_write_loop data (io_location ch blkno) 0 ch = ((ret, t), ch1)"
    by (metis surj_pair)
  have wl: "case ((ret, t), ch1) of
      ((None, t), ch') \<Rightarrow> t = length data \<and> same_device (ch\<lparr>dev_data := put ?loc data (dev_data ch)\<rparr>) ch'
    | ((Some e, t), ch') \<Rightarrow> e = CMFS_ET_IO \<and> has_fault ch \<and> 0 \<le> t \<and> t \<le> length data \<and> t \<noteq> length data
        \<and> same_device (ch\<lparr>dev_data := put ?loc (take t data) (dev_data ch)\<rparr>) ch'"
    unfolding w [symmetric] loc [symmetric]
    using fit assms(1) by (intro write_loop_ok) (simp_all add: loc on_device_def put_def)
  have tb: "ret = None \<longrightarrow> t = ?b" using wl assms(4) by (cases ret) simp_all
  have tk: "take ?b data = data" using assms(4) by simp
  have full: "unix_io_write_block_full blkno 1 data ch =
      ((ret, nat (int t div io_blksize ch1)), ch1\<lparr>io_bytes_written := io_bytes_written ch1 + of_nat t\<rparr>)"
    using tb by (auto simp: unix_io_write_block_full_def Let_def n nat_int tk w simp del: nat_0_le int_nat_eq)
  show ?thesis
  proof (cases ret)
    case None
    have "e = CMFS_ET_IO"
      using io_cache_write_ok [OF assms(5,1) _ assms(3,2), of data nc] assms(4,6) by simp
    then show ?thesis using assms(6) None
      by (auto simp: io_cache_write_blocks_def full ret_to_io_def split: option.splits)
  next
    case (Some r)
    then have t: "t < ?b" and sd: "same_device (ch\<lparr>dev_data := put ?loc (take t data) (dev_data ch)\<rparr>) ch1"
      using wl assms(4) by auto
    have c0: "nat (int t div io_blksize ch) = 0" using t by (simp add: div_pos_pos_trivial)
    then show ?thesis using assms(3,6) Some t sd
      by (auto simp: io_cache_write_blocks_def full Let_def same_device_def)
  qed
qed

lemma cached_read:
  assumes "io_cache ch = Some ic" and "content ic blkno = Some b" and "0 < one_meg_of_blocks ch"
  shows "fst (io_cache_read_block blkno 1 nc ch) = Inr b"
    and "dev_data (snd (io_cache_read_block blkno 1 nc ch)) = dev_data ch"
    and "dev_script (snd (io_cache_read_block blkno 1 nc ch)) = dev_script ch"
proof -
  obtain i where i: "io_cache_lookup ic blkno = Some i" "icb_buf (icb ic i) = b"
    using assms(2) by (auto simp: content_def)
  let ?ic = "ic\<lparr>ic_hits := ic_hits ic + 1\<rparr>"
  have lk: "io_cache_lookup ?ic blkno = Some i" using i(1) by (simp add: io_cache_lookup_def)
  have g: "good_loop ic blkno 0 1 = (1, ?ic)" using i(1) by simp
  have one: "io_cache_read_blocks blkno 1 nc ch
      = (Inr b, ch\<lparr>io_cache := Some (io_cache_touch nc ?ic i)\<rparr>)"
    using assms(1) i lk g by (simp add: io_cache_read_blocks_def Let_def)
  have todo: "(if 1 < one_meg_of_blocks ch then 1 else one_meg_of_blocks ch) = 1"
    using assms(3) by simp
  have "read_hunks (one_meg_of_blocks ch) blkno 1 nc ch
      = (Inr b, ch\<lparr>io_cache := Some (io_cache_touch nc ?ic i)\<rparr>)"
    unfolding read_hunks.simps [of "one_meg_of_blocks ch"] todo
    using one by (simp add: read_hunks.simps)
  then show "fst (io_cache_read_block blkno 1 nc ch) = Inr b"
    and "dev_data (snd (io_cache_read_block blkno 1 nc ch)) = dev_data ch"
    and "dev_script (snd (io_cache_read_block blkno 1 nc ch)) = dev_script ch"
    by (simp_all add: io_cache_read_block_def)
qed

section \<open>Requests that do not fit\<close>

lemma no_transfer:
  assumes "io_size ch count \<le> 0"
  shows "unix_io_write_block_full blkno count data ch =
    ((if io_size ch count = 0 then None else Some CMFS_ET_SHORT_WRITE, 0), ch)"
  using assms by (auto simp: unix_io_write_block_full_def Let_def unix_write_loop.simps)

lemma no_write:
  assumes "io_size ch count \<le> 0"
  shows "io_write_block blkno count data ch =
    (if io_size ch count = 0 then Inr () else Inl CMFS_ET_SHORT_WRITE, ch)"
  using no_transfer [OF assms, of blkno data]
  by (auto simp: io_write_block_def unix_io_write_block_def io_cache_write_block_def
      io_cache_write_blocks_def ret_to_io_def)

section \<open>Properties\<close>

text \<open>
  C22. The copy that a failed write leaves behind is served to later readers: when the
  write of one block that is in the cache stops half way, some part of the new bytes, but not
  all of them, is on the device; a later read of the block through the cache nevertheless
  returns the old bytes, without a system call.
\<close>

theorem io_stale_after_failed_write:
  assumes "chan_ok ch" and "io_cache ch = Some ic" and "content ic blkno = Some b"
    and "on_device ch blkno 1" and "io_blksize ch \<le> 2 ^ 30"
    and "length data = nat (io_blksize ch)" and "io_write_block blkno 1 data ch = (Inl e, ch')"
  shows "b = dev_blocks ch blkno 1 \<and> (\<exists>t < nat (io_blksize ch).
      dev_data ch' = put (unat blkno * nat (io_blksize ch)) (take t data) (dev_data ch)
    \<and> dev_blocks ch' blkno 1 = take t data @ drop t b
    \<and> (case io_read_block blkno 1 ch' of
         (r, ch'') \<Rightarrow> r = Inr b \<and> dev_data ch'' = dev_data ch' \<and> dev_script ch'' = dev_script ch'))"
proof -
  let ?b = "nat (io_blksize ch)" and ?loc = "unat blkno * nat (io_blksize ch)"
  have pos: "0 < io_blksize ch" using assms(4) by (simp add: on_device_def)
  have fits: "request_fits ch 1" using assms(5) by (simp add: request_fits_def)
  have "dev_block ?b (dev_data ch) blkno = Some b"
    using assms(1-3) by (force simp: chan_ok_def coherent_def map_le_def dom_def)
  then have old: "b = dev_blocks ch blkno 1" by (simp add: dev_block_def split: if_splits)
  have "io_cache_write_blocks blkno 1 data (io_nocache ch) ch = (Inl e, ch')"
    using assms(2,7) by (simp add: io_write_block_def io_cache_write_block_def)
  from failed_write_keeps_cache [OF assms(4) fits assms(2,6,1) this]
  obtain t where t: "t < ?b" "dev_data ch' = put ?loc (take t data) (dev_data ch)"
      "io_cache ch' = Some ic" "io_blksize ch' = io_blksize ch" by blast
  have meg: "0 < one_meg_of_blocks ch'"
    using one_meg_ok(1) [of ch'] pos assms(5) t(4) by simp
  have rd: "io_read_block blkno 1 ch' = io_cache_read_block blkno 1 (io_nocache ch') ch'"
    using t(3) by (simp add: io_read_block_def)
  have fit: "?loc + ?b \<le> length (dev_data ch)"
    using assms(4) by (simp add: on_device_def algebra_simps)
  have new: "dev_blocks ch' blkno 1 = take t data @ drop t b"
    by (rule nth_equalityI)
      (use t(1,2,4) assms(6) fit old in \<open>auto simp: field_def nth_put nth_append\<close>)
  show ?thesis
    using cached_read [OF t(3) assms(3) meg, of "io_nocache ch'"] t(1,2) new old rd
    by (auto simp: case_prod_beta)
qed

definition demo_cached :: io_channel where
  "demo_cached = (snd (io_read_block 2 1 (demo_channel [])))\<lparr>dev_script := [Limit 2, Fail 5]\<rparr>"

theorem io_stale_after_failed_write_witness:
  "let ch = snd (io_write_block 2 1 [9, 9, 9, 9] demo_cached)
   in dev_blocks ch 2 1 = [9, 9, 10, 11] \<and> fst (io_read_block 2 1 ch) = Inr [8, 9, 10, 11]"
proof -
  let ?ch = "demo_channel []"
  have on: "on_device ?ch 2 1" by (simp add: demo_channel_def on_device_def)
  have "read_fits ?ch 1" by (simp add: demo_channel_def read_fits_def request_fits_def)
  from io_read_block_ok(1) [OF demo_channel_ok on this]
  have out: "chan_ok demo_cached \<and> dev_data demo_cached = counting 24 \<and> io_blksize demo_cached = 4"
    by (cases "io_read_block 2 1 (demo_channel [])"; cases "fst (io_read_block 2 1 (demo_channel []))")
      (auto simp: demo_cached_def read_outcome_def chan_ok_def coherent_def demo_channel_def
        split: option.splits)
  have c: "io_cache demo_cached \<noteq> None
      \<and> content (the (io_cache demo_cached)) 2 = Some [8, 9, 10, 11]" by code_simp
  have e: "fst (io_write_block 2 1 [9, 9, 9, 9] demo_cached) = Inl CMFS_ET_IO" by code_simp
  have d: "dev_blocks (snd (io_write_block 2 1 [9, 9, 9, 9] demo_cached)) 2 1 = [9, 9, 10, 11]"
    by code_simp
  have w: "io_write_block 2 1 [9, 9, 9, 9] demo_cached
      = (Inl CMFS_ET_IO, snd (io_write_block 2 1 [9, 9, 9, 9] demo_cached))"
    by (rule prod_eqI) (simp_all add: e)
  obtain ic where ic: "io_cache demo_cached = Some ic" "content ic 2 = Some [8, 9, 10, 11]"
    using c by auto
  have on': "on_device demo_cached 2 1" using out by (simp add: on_device_def)
  show ?thesis
    using io_stale_after_failed_write [OF _ ic on' _ _ w] out d
    by (auto simp: Let_def case_prod_beta)
qed

text \<open>
  C25. The size of a request is a product in 32 bits. When the number of bytes of \<open>n\<close> blocks
  (an \<^verbatim>\<open>int\<close>) is a multiple of \<open>2 ^ 32\<close>, a write reports success although not one byte has been handed to the
  system, and a read without a cache reports success without having read anything; when
  the product is negative as an \<^verbatim>\<open>int\<close>, the write reports a short write although
  no system call has been made, and the read clears memory that is not the buffer's.
\<close>

theorem request_size_wraps:
  assumes "0 < io_blksize ch" and "n < 2 ^ 31"
  shows "(int n * io_blksize ch mod 2 ^ 32 = 0 \<longrightarrow>
        io_write_block blkno (int n) data ch = (Inr (), ch)
      \<and> (io_cache ch = None \<longrightarrow> io_read_block blkno (int n) ch = (Inr [], ch)))
    \<and> (2 ^ 31 \<le> int n * io_blksize ch mod 2 ^ 32 \<longrightarrow>
        io_write_block blkno (int n) data ch = (Inl CMFS_ET_SHORT_WRITE, ch)
      \<and> (io_cache ch = None \<longrightarrow> io_read_block blkno (int n) ch = (Inl C_UNDEFINED, ch)))"
proof -
  have sz: "io_size ch (int n) = c_int (int n * io_blksize ch)" by (simp add: io_size_def)
  have pos: "0 \<le> int n * io_blksize ch" using assms(1) by simp
  have "io_size ch (int n) = 0" if "int n * io_blksize ch mod 2 ^ 32 = 0"
    unfolding sz by (rule c_int_mod(1) [OF pos that])
  moreover have "io_size ch (int n) < 0" if "2 ^ 31 \<le> int n * io_blksize ch mod 2 ^ 32"
    unfolding sz by (rule c_int_mod(2) [OF pos that])
  ultimately show ?thesis
    using no_write [of ch "int n" blkno data]
    by (auto simp: io_read_block_def unix_io_read_block_def unix_read_loop.simps)
qed

definition demo_large :: io_channel where
  "demo_large = (demo_channel [])\<lparr>io_blksize := 4096, io_cache := None\<rparr>"

theorem request_size_wraps_witness:
  "io_write_block 0 (int (2 ^ 20)) [1] demo_large = (Inr (), demo_large)
   \<and> io_read_block 0 (int (2 ^ 20)) demo_large = (Inr [], demo_large)
   \<and> io_write_block 0 (int (2 ^ 19)) [1] demo_large = (Inl CMFS_ET_SHORT_WRITE, demo_large)"
proof -
  have "0 < io_blksize demo_large" "io_cache demo_large = None" "io_blksize demo_large = 4096"
    by (simp_all add: demo_large_def)
  then show ?thesis
    using request_size_wraps [of demo_large "2 ^ 20" 0 "[1]"] request_size_wraps [of demo_large "2 ^ 19" 0 "[1]"]
    by simp
qed

end
