(* ===== verification/Unix_vec.thy ===== *)
theory Unix_vec
  imports Transfers
begin

text \<open>
  The vectored reads of \<^verbatim>\<open>libcmfs/unix_io.c\<close>, which hand all their requests to the kernel
  through \<^verbatim>\<open>libaio\<close>, and the locking of the cache in memory. What libaio answers is the record
  \<open>aio_env\<close>; a request that has been accepted is a \<^verbatim>\<open>pread\<close> on the device of the channel, so
  that the script of the device says how it ends.
\<close>

section \<open>Requests\<close>

record io_vec_unit =
  ivu_blkno :: u64
  ivu_buf :: bytes
  ivu_buflen :: u32

text \<open>
  \<open>aio_submit\<close> and \<open>aio_getevents\<close> take the number of requests that are completed and the
  number asked for; a negative answer is minus an errno.
\<close>

record aio_env =
  aio_setup :: int
  aio_submit :: "nat \<Rightarrow> nat \<Rightarrow> int"
  aio_getevents :: "nat \<Rightarrow> nat \<Rightarrow> int"

text \<open>
  One request. Neither the error nor the length of a completed request is looked at (the
  \<^verbatim>\<open>res\<close> of its event): the bytes that were read are at the start of the buffer, behind them
  is what the buffer held before.
\<close>

definition aio_request :: "io_vec_unit \<Rightarrow> io_channel \<Rightarrow> bytes \<times> io_channel" where
  "aio_request u ch =
     (case pread64 (unat (ivu_buflen u)) (io_location ch (ivu_blkno u)) ch of
        (Inl e, ch) \<Rightarrow> (ivu_buf u, ch)
      | (Inr rd, ch) \<Rightarrow> (rd @ drop (length rd) (ivu_buf u), ch))"

fun aio_requests :: "io_vec_unit list \<Rightarrow> io_channel \<Rightarrow> bytes list \<times> io_channel" where
  "aio_requests [] ch = ([], ch)"
| "aio_requests (u # us) ch =
     (let (b, ch) = aio_request u ch; (bs, ch) = aio_requests us ch in (b # bs, ch))"

text \<open>
  The loop of \<^verbatim>\<open>unix_vec_read_blocks\<close> from the label \<^verbatim>\<open>resubmit\<close>; \<open>todo\<close> are the requests from
  \<open>completed\<close> on. When nothing is accepted although requests are left, the code takes the
  number of the error \<^verbatim>\<open>CMFS_ET_SHORT_READ\<close> (positive, as all numbers of the table \<^verbatim>\<open>cmfs\<close> are)
  for the number of requests and waits for as many events, which never come.
\<close>

function vec_submit ::
  "aio_env \<Rightarrow> nat \<Rightarrow> io_vec_unit list \<Rightarrow> (io_channel, bytes list) io" where
  "vec_submit env completed todo ch =
     (let ret = aio_submit env completed (length todo) in
      if ret < 0 then (Inl (ERRNO (nat (- ret))), ch)
      else if ret = 0 \<and> todo \<noteq> [] then (Inl C_UNDEFINED, ch)
      else
        let submitted = nat ret;
            ev = aio_getevents env completed submitted;
            (bufs, ch) = aio_requests (take submitted todo) ch
        in if ev < 0 then (Inl (ERRNO (nat (- ev))), ch)
           else if drop submitted todo = [] then (Inr bufs, ch)
           else case vec_submit env (completed + submitted) (drop submitted todo) ch of
                  (Inl e, ch) \<Rightarrow> (Inl e, ch)
                | (Inr bufs', ch) \<Rightarrow> (Inr (bufs @ bufs'), ch))"
  by pat_completeness auto
termination
  by (relation "measure (\<lambda>(env, completed, todo, ch). length todo)") auto

declare vec_submit.simps [simp del]

text \<open>
  \<^verbatim>\<open>unix_vec_read_blocks\<close>. After a failed allocation the context that was never set up is
  released. Counted are as many bytes as \<open>count\<close> blocks have, a product of two \<^verbatim>\<open>int\<close>s.
\<close>

definition unix_vec_read_blocks :: "aio_env \<Rightarrow> io_vec_unit list \<Rightarrow> (io_channel, bytes list) io" where
  "unix_vec_read_blocks env ivus ch =
     (case take_allocs 3 ch of
        (Inl e, ch) \<Rightarrow> (Inl C_UNDEFINED, ch)
      | (Inr _, ch) \<Rightarrow>
          if aio_setup env \<noteq> 0 then (Inl (ERRNO (nat \<bar>aio_setup env\<bar>)), ch)
          else case vec_submit env 0 ivus ch of
            (Inl e, ch) \<Rightarrow> (Inl e, ch)
          | (Inr bufs, ch) \<Rightarrow>
              (Inr bufs, ch\<lparr>io_bytes_read :=
                 io_bytes_read ch + word_of_int (c_int (int (length ivus) * io_blksize ch))\<rparr>))"

section \<open>Vectored reads and the cache\<close>

text \<open>Bringing the cache up to date works block by block, as after a write.\<close>

fun vec_refresh ::
  "nat \<Rightarrow> bool \<Rightarrow> (io_vec_unit \<times> bytes) list \<Rightarrow> io_cache \<Rightarrow> io_cache option" where
  "vec_refresh bs nocache [] ic = Some ic"
| "vec_refresh bs nocache ((u, buf) # us) ic =
     Option.bind (write_sync bs nocache (ivu_blkno u) buf (unat (ivu_buflen u) div bs) 0 ic)
       (vec_refresh bs nocache us)"

definition io_cache_vec_read_blocks ::
  "aio_env \<Rightarrow> io_vec_unit list \<Rightarrow> bool \<Rightarrow> (io_channel, bytes list) io" where
  "io_cache_vec_read_blocks env ivus nocache ch =
     (case unix_vec_read_blocks env ivus ch of
        (Inl e, ch) \<Rightarrow> (Inl e, ch)
      | (Inr bufs, ch) \<Rightarrow>
          (case io_cache ch of None \<Rightarrow> (Inl C_UNDEFINED, ch) | Some ic \<Rightarrow>
           (case vec_refresh (nat (io_blksize ch)) nocache (zip ivus bufs) ic of
              None \<Rightarrow> (Inl C_UNDEFINED, ch)
            | Some ic \<Rightarrow> (Inr bufs, ch\<lparr>io_cache := Some ic\<rparr>))))"

definition io_vec_read_blocks :: "aio_env \<Rightarrow> io_vec_unit list \<Rightarrow> (io_channel, bytes list) io" where
  "io_vec_read_blocks env ivus ch =
     (if io_cache ch \<noteq> None then io_cache_vec_read_blocks env ivus (io_nocache ch) ch
      else unix_vec_read_blocks env ivus ch)"

section \<open>Locking the cache\<close>

record mlock_env =
  ml_pagesize :: nat
  ml_avphys :: int
  ml_data :: bool
  ml_metadata :: bool

text \<open>
  \<^verbatim>\<open>io_mlock_cache\<close>: the answers are the page size, the free pages, and whether the two
  calls of \<^verbatim>\<open>mlock\<close> succeed. The product is one of 64-bit words.
\<close>

definition io_mlock_cache :: "mlock_env \<Rightarrow> (io_channel, unit) io" where
  "io_mlock_cache env ch =
     (case io_cache ch of
        None \<Rightarrow> (Inl CMFS_ET_INVALID_ARGUMENT, ch)
      | Some ic \<Rightarrow>
          if ic_locked ic then (Inr (), ch)
          else
            let wanted = (word_of_int (io_blksize ch) * of_nat (ic_nr_blocks ic) :: u64)
                           div of_nat (ml_pagesize env)
            in if sint wanted > ml_avphys env then (Inl CMFS_ET_NO_MEMORY, ch)
               else if \<not> ml_data env \<or> \<not> ml_metadata env then (Inl CMFS_ET_NO_MEMORY, ch)
               else (Inr (), ch\<lparr>io_cache := Some (ic\<lparr>ic_locked := True\<rparr>)\<rparr>))"

text \<open>Closing a channel: \<open>failed\<close> is the errno of \<^verbatim>\<open>close\<close>, if it fails.\<close>

definition io_close :: "nat option \<Rightarrow> (io_channel, unit) io" where
  "io_close failed ch =
     (case failed of
        Some e \<Rightarrow> (Inl (ERRNO e), io_destroy_cache ch)
      | None \<Rightarrow> (Inr (), io_destroy_cache ch))"

section \<open>What a vectored read returns\<close>

text \<open>A kernel that takes at least one request at a time and never fails.\<close>

definition aio_good :: "aio_env \<Rightarrow> bool" where
  "aio_good env \<longleftrightarrow> aio_setup env = 0
     \<and> (\<forall>c n. 0 < n \<longrightarrow> 0 < aio_submit env c n) \<and> (\<forall>c. 0 \<le> aio_submit env c 0)
     \<and> (\<forall>c n. 0 \<le> aio_getevents env c n)"

text \<open>A unit that asks for \<open>n\<close> whole blocks of the device.\<close>

abbreviation unit_blocks :: "io_channel \<Rightarrow> io_vec_unit \<Rightarrow> nat" where
  "unit_blocks ch u \<equiv> unat (ivu_buflen u) div nat (io_blksize ch)"

definition unit_ok :: "io_channel \<Rightarrow> io_vec_unit \<Rightarrow> bool" where
  "unit_ok ch u \<longleftrightarrow> on_device ch (ivu_blkno u) (unit_blocks ch u)
     \<and> unat (ivu_buflen u) = unit_blocks ch u * nat (io_blksize ch)
     \<and> length (ivu_buf u) = unat (ivu_buflen u)"

abbreviation (input) unit_data :: "io_channel \<Rightarrow> io_vec_unit \<Rightarrow> bytes" where
  "unit_data ch u \<equiv> dev_blocks ch (ivu_blkno u) (unit_blocks ch u)"

lemma aio_request_ok:
  assumes "unit_ok ch u" and "dev_script ch = []"
  shows "aio_request u ch = (unit_data ch u, ch)"
proof -
  let ?b = "nat (io_blksize ch)"
  have on: "on_device ch (ivu_blkno u) (unit_blocks ch u)" using assms(1) by (simp add: unit_ok_def)
  have fit: "unat (io_location ch (ivu_blkno u)) + unit_blocks ch u * ?b \<le> length (dev_data ch)"
    using on by (simp add: location_ok [OF on] on_device_def algebra_simps)
  have len: "unat (ivu_buflen u) = unit_blocks ch u * ?b" using assms(1) by (simp add: unit_ok_def)
  have "\<not> sint (io_location ch (ivu_blkno u)) < 0"
    using fit on by (intro sint_small) (simp add: on_device_def)
  then have "pread64 (unat (ivu_buflen u)) (io_location ch (ivu_blkno u)) ch
      = (Inr (unit_data ch u), ch)"
    using assms(2) by (simp add: pread64_def len [symmetric] location_ok [OF on])
  moreover have "length (unit_data ch u) = length (ivu_buf u)"
    using fit assms(1) by (simp add: length_field location_ok [OF on] unit_ok_def)
  ultimately show ?thesis by (simp add: aio_request_def)
qed

lemma aio_requests_ok:
  "\<forall>u\<in>set us. unit_ok ch u \<Longrightarrow> dev_script ch = [] \<Longrightarrow>
    aio_requests us ch = (map (unit_data ch) us, ch)"
  by (induction us) (simp_all add: aio_request_ok)

lemma vec_submit_ok:
  assumes "aio_good env" and "\<forall>u\<in>set us. unit_ok ch u" and "dev_script ch = []"
  shows "vec_submit env c us ch = (Inr (map (unit_data ch) us), ch)"
  using assms
proof (induction "length us" arbitrary: c us rule: less_induct)
  case less
  let ?n = "nat (aio_submit env c (length us))"
  have ret: "0 \<le> aio_submit env c (length us)" "us \<noteq> [] \<longrightarrow> 0 < aio_submit env c (length us)"
    and ev: "0 \<le> aio_getevents env c ?n"
    using less.prems(1) by (cases us; auto simp: aio_good_def less_imp_le)+
  have first: "aio_requests (take ?n us) ch = (map (unit_data ch) (take ?n us), ch)"
    using less.prems(2,3) by (intro aio_requests_ok) (auto dest: in_set_takeD)
  have rest: "\<forall>u\<in>set (drop ?n us). unit_ok ch u" using less.prems(2) by (auto dest: in_set_dropD)
  show ?case
  proof (cases "drop ?n us = []")
    case True
    then show ?thesis using ret ev first by (subst vec_submit.simps) (auto simp: Let_def)
  next
    case False
    have "vec_submit env (c + ?n) (drop ?n us) ch = (Inr (map (unit_data ch) (drop ?n us)), ch)"
      using ret False less.prems(1,3) rest by (intro less.hyps) auto
    then show ?thesis using False ret ev first
      by (subst vec_submit.simps) (auto simp: Let_def map_append [symmetric] simp del: map_append)
  qed
qed

lemma vec_refresh_ok:
  assumes "\<forall>u\<in>set us. unit_ok ch u" and "cache_wf ic"
    and "content ic \<subseteq>\<^sub>m dev_block (nat (io_blksize ch)) (dev_data ch)"
  shows "\<exists>ic'. vec_refresh (nat (io_blksize ch)) nc (zip us (map (unit_data ch) us)) ic = Some ic'
    \<and> cache_wf ic' \<and> content ic' \<subseteq>\<^sub>m dev_block (nat (io_blksize ch)) (dev_data ch)"
  using assms
proof (induction us arbitrary: ic)
  case (Cons u us)
  let ?b = "nat (io_blksize ch)" and ?n = "unit_blocks ch u"
  let ?f = "dev_block ?b (dev_data ch)"
  have on: "on_device ch (ivu_blkno u) ?n" using Cons.prems(1) by (simp add: unit_ok_def)
  have blk: "?f (ivu_blkno u + of_nat j) = Some (field ?b (?b * j) (unit_data ch u))
      \<and> ivu_blkno u + of_nat j \<noteq> UINT64_MAX" if "j < ?n" for j
  proof -
    have "?b * j + ?b \<le> ?n * ?b"
      using that mult_le_mono1 [of "Suc j" ?n ?b] by (simp add: algebra_simps)
    then show ?thesis
      using dev_block_in [OF on that] by (simp add: field_field algebra_simps)
  qed
  have "agrees_except (blk_range (ivu_blkno u) 0 (0 + ?n) \<union> {}) ic ?f"
    using Cons.prems(3) by (force simp: agrees_except_def map_le_def dom_def)
  from write_sync_ok [OF Cons.prems(2) this, of ?b "unit_data ch u" nc] blk
  obtain ic1 where ic1: "write_sync ?b nc (ivu_blkno u) (unit_data ch u) ?n 0 ic = Some ic1"
      "cache_wf ic1" "content ic1 \<subseteq>\<^sub>m ?f"
    by (auto simp: agrees_except_empty)
  from Cons.IH [OF _ ic1(2,3)] Cons.prems(1) ic1(1) show ?case by simp
qed simp

lemma vec_read_ok:
  assumes "chan_ok ch" and "aio_good env" and "\<forall>u\<in>set us. unit_ok ch u"
    and "dev_script ch = []" and "heap_script ch = []"
  shows "\<exists>ch'. io_vec_read_blocks env us ch = (Inr (map (unit_data ch) us), ch')
    \<and> chan_ok ch' \<and> dev_data ch' = dev_data ch \<and> io_blksize ch' = io_blksize ch"
proof -
  have alloc: "take_allocs 3 ch = (Inr (), ch)"
    using assms(5) by (simp add: numeral_3_eq_3 bind_io_def cmfs_malloc_block_def)
  have "aio_setup env = 0" using assms(2) by (simp add: aio_good_def)
  then have unix: "unix_vec_read_blocks env us ch = (Inr (map (unit_data ch) us),
      ch\<lparr>io_bytes_read := io_bytes_read ch + word_of_int (c_int (int (length us) * io_blksize ch))\<rparr>)"
    using vec_submit_ok [OF assms(2-4), of 0] alloc by (simp add: unix_vec_read_blocks_def)
  show ?thesis
  proof (cases "io_cache ch")
    case None
    then show ?thesis using unix assms(1) by (simp add: io_vec_read_blocks_def chan_ok_def)
  next
    case (Some ic)
    then have "cache_wf ic" "content ic \<subseteq>\<^sub>m dev_block (nat (io_blksize ch)) (dev_data ch)"
      using assms(1) by (simp_all add: chan_ok_def coherent_def)
    from vec_refresh_ok [OF assms(3) this, of "io_nocache ch"] obtain ic' where
      "vec_refresh (nat (io_blksize ch)) (io_nocache ch) (zip us (map (unit_data ch) us)) ic = Some ic'"
      "cache_wf ic'" "content ic' \<subseteq>\<^sub>m dev_block (nat (io_blksize ch)) (dev_data ch)" by blast
    then show ?thesis using unix Some
      by (simp add: io_vec_read_blocks_def io_cache_vec_read_blocks_def chan_ok_def coherent_def)
  qed
qed

section \<open>Properties\<close>

text \<open>
  C8. With a kernel that serves all requests, a vectored read fills each buffer with the
  blocks it asks for, however few requests are accepted at a time, whether the channel has
  a cache or not; the cache is a copy of device blocks again.
\<close>

theorem io_vec_read_correct:
  assumes "chan_ok ch" and "aio_good env" and "\<forall>u\<in>set us. unit_ok ch u"
    and "dev_script ch = []" and "heap_script ch = []"
  shows "\<exists>ch'. io_vec_read_blocks env us ch
      = (Inr (map (\<lambda>u. field (unat (ivu_buflen u))
            (unat (ivu_blkno u) * nat (io_blksize ch)) (dev_data ch)) us), ch')
    \<and> chan_ok ch' \<and> dev_data ch' = dev_data ch"
proof -
  have "map (\<lambda>u. field (unat (ivu_buflen u)) (unat (ivu_blkno u) * nat (io_blksize ch)) (dev_data ch)) us
      = map (unit_data ch) us"
    using assms(3) by (auto simp: unit_ok_def)
  then show ?thesis using vec_read_ok [OF assms] by auto
qed

text \<open>A kernel that takes one request at a time.\<close>

definition one_by_one :: aio_env where
  "one_by_one = \<lparr> aio_setup = 0, aio_submit = (\<lambda>c n. if n = 0 then 0 else 1), aio_getevents = (\<lambda>c n. int n) \<rparr>"

definition demo_units :: "io_vec_unit list" where
  "demo_units =
     [\<lparr> ivu_blkno = 4, ivu_buf = [7, 7, 7, 7], ivu_buflen = 4 \<rparr>,
      \<lparr> ivu_blkno = 1, ivu_buf = [7, 7, 7, 7, 7, 7, 7, 7], ivu_buflen = 8 \<rparr>]"

theorem io_vec_read_correct_witness:
  "\<exists>ch'. io_vec_read_blocks one_by_one demo_units (demo_channel [])
     = (Inr [[16, 17, 18, 19], [4, 5, 6, 7, 8, 9, 10, 11]], ch') \<and> chan_ok ch'"
proof -
  have good: "aio_good one_by_one" by (simp add: aio_good_def one_by_one_def)
  have units: "\<forall>u\<in>set demo_units. unit_ok (demo_channel []) u"
    by (simp add: demo_units_def unit_ok_def on_device_def demo_channel_def)
  have quiet: "dev_script (demo_channel []) = []" "heap_script (demo_channel []) = []"
    by (simp_all add: demo_channel_def)
  have "map (\<lambda>u. field (unat (ivu_buflen u)) (unat (ivu_blkno u) * nat (io_blksize (demo_channel [])))
          (dev_data (demo_channel []))) demo_units
      = [[16, 17, 18, 19], [4, 5, 6, 7, 8, 9, 10, 11]]"
    by (simp add: demo_units_def demo_channel_def field_counting upt_rec)
  then show ?thesis
    using io_vec_read_correct [OF demo_channel_ok good units quiet] by auto
qed

text \<open>
  A request that fails is reported as a success: the buffer keeps the bytes it held
  before the call, they enter the cache as the content of the block, and later reads of the
  block return them, although the device holds others and works again.
\<close>

theorem io_vec_read_hides_failure:
  "let u = \<lparr> ivu_blkno = 2, ivu_buf = [7, 7, 7, 7], ivu_buflen = 4 \<rparr>;
       (r, ch1) = io_vec_read_blocks one_by_one [u] (demo_channel [Fail 5]);
       (r', ch2) = io_read_block 2 1 ch1
   in r = Inr [[7, 7, 7, 7]] \<and> dev_script ch1 = [] \<and> r' = Inr [7, 7, 7, 7]
    \<and> field 4 8 (dev_data ch2) = [8, 9, 10, 11]"
  by code_simp

end
