(* ===== verification/Unix_share.thy ===== *)
theory Unix_share
  imports Transfers
begin

text \<open>
  Two channels that use one cache (\<^verbatim>\<open>io_share_cache\<close> of \<^verbatim>\<open>libcmfs/unix_io.c\<close>). The aliasing is
  written out: \<open>cp_shared\<close> says that the pointers \<^verbatim>\<open>io_cache\<close> of both channels are the same,
  \<open>cp_one_device\<close> that both have the same device open. An operation on one channel then
  shows in the cache and the device of the other.
\<close>

section \<open>Two channels\<close>

datatype side = From | To

record channel_pair =
  cp_from :: io_channel
  cp_to :: io_channel
  cp_shared :: bool
  cp_one_device :: bool

fun other :: "side \<Rightarrow> side" where
  "other From = To"
| "other To = From"

fun channel :: "side \<Rightarrow> channel_pair \<Rightarrow> io_channel" where
  "channel From p = cp_from p"
| "channel To p = cp_to p"

text \<open>What the other channel is, once this one has become \<open>ch\<close>.\<close>

definition mirror :: "channel_pair \<Rightarrow> io_channel \<Rightarrow> io_channel \<Rightarrow> io_channel" where
  "mirror p ch c =
     (let c = (if cp_shared p then c\<lparr>io_cache := io_cache ch\<rparr> else c)
      in if cp_one_device p then c\<lparr>dev_data := dev_data ch\<rparr> else c)"

fun set_channel :: "side \<Rightarrow> io_channel \<Rightarrow> channel_pair \<Rightarrow> channel_pair" where
  "set_channel From ch p = p\<lparr>cp_from := ch, cp_to := mirror p ch (cp_to p)\<rparr>"
| "set_channel To ch p = p\<lparr>cp_from := mirror p ch (cp_from p), cp_to := ch\<rparr>"

text \<open>An operation on one of the channels that does not replace or drop its cache.\<close>

definition through :: "side \<Rightarrow> (io_channel, 'a) io \<Rightarrow> (channel_pair, 'a) io" where
  "through side m p = (case m (channel side p) of (r, ch) \<Rightarrow> (r, set_channel side ch p))"

section \<open>Sharing and dropping\<close>

definition io_share_cache :: "(channel_pair, unit) io" where
  "io_share_cache p =
     (case io_cache (cp_from p) of
        None \<Rightarrow> (Inl CMFS_ET_INTERNAL_FAILURE, p)
      | Some ic \<Rightarrow>
          if io_cache (cp_to p) \<noteq> None then (Inl CMFS_ET_INTERNAL_FAILURE, p)
          else
            let ic = ic\<lparr>ic_use_count := ic_use_count ic + 1\<rparr> in
            (Inr (), p\<lparr>cp_from := (cp_from p)\<lparr>io_cache := Some ic\<rparr>,
                       cp_to := (cp_to p)\<lparr>io_cache := Some ic\<rparr>, cp_shared := True\<rparr>))"

text \<open>The cache is freed with its last use; the other channel keeps a shared one.\<close>

definition drop_use :: "bool \<Rightarrow> io_channel \<Rightarrow> io_channel" where
  "drop_use shared ch =
     (if shared then ch\<lparr>io_cache := map_option (\<lambda>ic. ic\<lparr>ic_use_count := ic_use_count ic - 1\<rparr>) (io_cache ch)\<rparr>
      else ch)"

fun destroy_through :: "side \<Rightarrow> channel_pair \<Rightarrow> channel_pair" where
  "destroy_through From p =
     p\<lparr>cp_from := io_destroy_cache (cp_from p), cp_to := drop_use (cp_shared p) (cp_to p), cp_shared := False\<rparr>"
| "destroy_through To p =
     p\<lparr>cp_from := drop_use (cp_shared p) (cp_from p), cp_to := io_destroy_cache (cp_to p), cp_shared := False\<rparr>"

section \<open>Two channels on one device\<close>

text \<open>The invariant: one device, one cache, one size of blocks.\<close>

definition pair_ok :: "channel_pair \<Rightarrow> bool" where
  "pair_ok p \<longleftrightarrow> cp_one_device p \<and> cp_shared p \<and> chan_ok (cp_from p)
     \<and> io_cache (cp_to p) = io_cache (cp_from p) \<and> dev_data (cp_to p) = dev_data (cp_from p)
     \<and> io_blksize (cp_to p) = io_blksize (cp_from p)"

lemma chan_ok_cong:
  "io_cache a = io_cache b \<Longrightarrow> dev_data a = dev_data b \<Longrightarrow> io_blksize a = io_blksize b \<Longrightarrow>
    chan_ok a = chan_ok b"
  by (simp add: chan_ok_def coherent_def split: option.split)

lemma pair_ok_channel:
  assumes "pair_ok p"
  shows "chan_ok (channel s p)" and "io_blksize (channel s p) = io_blksize (cp_from p)"
    and "dev_data (channel s p) = dev_data (cp_from p)"
  using assms chan_ok_cong [of "cp_to p" "cp_from p"] by (cases s; simp add: pair_ok_def)+

lemma mirror_simps [simp]:
  "io_cache (mirror p ch c) = (if cp_shared p then io_cache ch else io_cache c)"
  "dev_data (mirror p ch c) = (if cp_one_device p then dev_data ch else dev_data c)"
  "io_blksize (mirror p ch c) = io_blksize c"
  by (simp_all add: mirror_def Let_def)

lemma set_channel_simps [simp]:
  "channel s (set_channel s ch p) = ch"
  "channel (other s) (set_channel s ch p) = mirror p ch (channel (other s) p)"
  "cp_shared (set_channel s ch p) = cp_shared p"
  "cp_one_device (set_channel s ch p) = cp_one_device p"
  by (cases s; simp)+

lemma pair_ok_set:
  assumes "pair_ok p" and "chan_ok ch" and "io_blksize ch = io_blksize (cp_from p)"
  shows "pair_ok (set_channel s ch p)"
proof (cases s)
  case From
  then show ?thesis using assms by (simp add: pair_ok_def)
next
  case To
  have "chan_ok (mirror p ch (cp_from p))"
    using assms(2) by (rule iffD1 [OF chan_ok_cong, rotated 3]) (use assms in \<open>simp_all add: pair_ok_def\<close>)
  then show ?thesis using To assms by (simp add: pair_ok_def)
qed

lemma use_count_coherent [simp]: "coherent ch (ic\<lparr>ic_use_count := k\<rparr>) = coherent ch ic"
proof -
  have "io_cache_lookup (ic\<lparr>ic_use_count := k\<rparr>) = io_cache_lookup ic"
    by (simp add: fun_eq_iff io_cache_lookup_def)
  then have "content (ic\<lparr>ic_use_count := k\<rparr>) = content ic"
    by (simp add: fun_eq_iff content_def)
  then show ?thesis by (simp add: coherent_def cache_wf_def)
qed

lemma chan_ok_use_count:
  "io_cache ch = Some ic \<Longrightarrow> chan_ok ch \<Longrightarrow>
    chan_ok (ch\<lparr>io_cache := Some (ic\<lparr>ic_use_count := k\<rparr>)\<rparr>)"
  by (simp add: chan_ok_def) (simp add: coherent_def)

lemma share_ok:
  assumes "chan_ok (cp_from p)" and "cp_one_device p"
    and "dev_data (cp_to p) = dev_data (cp_from p)" and "io_blksize (cp_to p) = io_blksize (cp_from p)"
    and "io_share_cache p = (Inr u, p')"
  shows "pair_ok p'"
proof -
  obtain ic where ic: "io_cache (cp_from p) = Some ic" and to: "io_cache (cp_to p) = None"
    using assms(5) by (auto simp: io_share_cache_def split: option.splits if_splits)
  then show ?thesis
    using assms chan_ok_use_count [OF ic assms(1), of "ic_use_count ic + 1"]
    by (auto simp: io_share_cache_def pair_ok_def Let_def)
qed

lemma destroy_ok:
  assumes "pair_ok p"
  shows "chan_ok (channel (other s) (destroy_through s p))"
proof -
  have "chan_ok (drop_use True ch)" if "chan_ok ch" for ch
  proof (cases "io_cache ch")
    case None
    then show ?thesis by (simp add: drop_use_def chan_ok_def)
  next
    case (Some ic)
    then show ?thesis using chan_ok_use_count [OF Some that] by (simp add: drop_use_def)
  qed
  then show ?thesis using pair_ok_channel(1) [OF assms, of "other s"] assms
    by (cases s) (simp_all add: pair_ok_def)
qed

section \<open>Properties\<close>

text \<open>
  C7. Two channels on one device that share a cache see each other's writes: whatever one of
  them writes successfully (fewer than \<open>2 ^ 31\<close> bytes), the other reads back, through the cache that was filled by either;
  and when one of them drops the cache, the cache of the other is still a copy of the device.
\<close>

theorem shared_cache_coherent:
  assumes "chan_ok (cp_from p)" and "cp_one_device p"
    and "dev_data (cp_to p) = dev_data (cp_from p)" and "io_blksize (cp_to p) = io_blksize (cp_from p)"
    and "io_share_cache p = (Inr v, p1)"
    and "on_device (channel s p1) blkno n" and "length data = n * nat (io_blksize (cp_from p))"
    and "request_fits (cp_from p) n" and "io_blksize (cp_from p) \<le> 2 ^ 30"
    and "through s (io_write_block blkno (int n) data) p1 = (Inr u, p2)"
  shows "(case through (other s) (io_read_block blkno (int n)) p2 of
      (Inr d, p3) \<Rightarrow> d = data \<and> pair_ok p3 \<and> chan_ok (channel (other t) (destroy_through t p3))
    | (Inl e, p3) \<Rightarrow> e = CMFS_ET_IO \<and> has_fault (channel (other s) p2))"
proof -
  have ok1: "pair_ok p1" by (rule share_ok [OF assms(1-5)])
  have "io_blksize (cp_from p1) = io_blksize (cp_from p)"
    using assms(5) by (auto simp: io_share_cache_def Let_def split: option.splits if_splits)
  then have b1: "io_blksize (channel s p1) = io_blksize (cp_from p)"
    using pair_ok_channel(2) [OF ok1] by simp
  let ?b = "nat (io_blksize (channel s p1))"
  obtain ch where w: "io_write_block blkno (int n) data (channel s p1) = (Inr u, ch)"
    and p2: "p2 = set_channel s ch p1"
    using assms(10) by (auto simp: through_def split: prod.splits)
  have wr: "dev_data ch = put (unat blkno * ?b) data (dev_data (channel s p1))"
      "io_blksize ch = io_blksize (channel s p1)" "chan_ok ch"
    using io_write_block_ok [OF pair_ok_channel(1) [OF ok1] assms(6) _ _ w] assms(7,8) b1 by (simp_all add: request_fits_def)
  have ok2: "pair_ok p2" unfolding p2 using ok1 wr pair_ok_channel(2) [OF ok1] by (intro pair_ok_set) simp_all
  have d2: "dev_data (channel (other s) p2) = dev_data ch"
    unfolding p2 using ok1 by (simp add: pair_ok_def)
  have b2: "io_blksize (channel (other s) p2) = io_blksize (channel s p1)"
    unfolding p2 using pair_ok_channel(2) [OF ok1] by simp
  have fit: "unat blkno * ?b + length data \<le> length (dev_data (channel s p1))"
    using assms(6,7) b1 by (simp add: on_device_def algebra_simps)
  have on2: "on_device (channel (other s) p2) blkno n"
    using assms(6) wr(1) d2 b2 fit by (simp add: on_device_def)
  have "n \<le> n * nat (io_blksize (cp_from p))" using assms(6) b1 by (auto simp: on_device_def Suc_le_eq)
  moreover have "int (n * nat (io_blksize (cp_from p))) < 2 ^ 31"
    using assms(6,8) b1 by (simp add: request_fits_def on_device_def)
  then have "n * nat (io_blksize (cp_from p)) < 2 ^ 31"
    by (simp only: of_nat_less_numeral_power_cancel_iff)
  ultimately have "n < 2 ^ 31" by (rule le_less_trans)
  then have fits2: "read_fits (channel (other s) p2) n"
    using assms(8,9) b1 b2 by (simp add: read_fits_def request_fits_def)
  have reread: "dev_blocks (channel (other s) p2) blkno n = data"
    using d2 b2 wr(1) fit assms(7) b1 by (simp add: field_put_same)
  obtain r ch3 where r: "io_read_block blkno (int n) (channel (other s) p2) = (r, ch3)" by force
  have ro: "read_outcome (channel (other s) p2) blkno n (r, ch3)"
    using io_read_block_ok(1) [OF pair_ok_channel(1) [OF ok2] on2 fits2] r by simp
  show ?thesis
  proof (cases r)
    case (Inl e)
    then show ?thesis using r ro by (simp add: through_def read_outcome_def)
  next
    case (Inr d)
    then have "d = data" and ch3: "chan_ok ch3" "io_blksize ch3 = io_blksize (cp_from p2)"
      using ro reread pair_ok_channel(2) [OF ok2] by (simp_all add: read_outcome_def)
    moreover have "pair_ok (set_channel (other s) ch3 p2)" using ok2 ch3 by (rule pair_ok_set)
    ultimately show ?thesis using r Inr destroy_ok by (simp add: through_def)
  qed
qed

definition demo_pair :: channel_pair where
  "demo_pair =
     \<lparr> cp_from = demo_channel [], cp_to = (demo_channel [])\<lparr>io_cache := None\<rparr>,
       cp_shared = False, cp_one_device = True \<rparr>"

theorem shared_cache_coherent_witness:
  "case through From (io_read_block 2 1)
       (snd (through To (io_write_block 2 1 [9, 9, 9, 9]) (snd (io_share_cache demo_pair)))) of
     (Inr d, p) \<Rightarrow> d = [9, 9, 9, 9] \<and> pair_ok p | (Inl e, p) \<Rightarrow> False"
proof -
  let ?p1 = "snd (io_share_cache demo_pair)"
  have share: "io_share_cache demo_pair = (Inr (), ?p1)"
    by (simp add: io_share_cache_def demo_pair_def demo_channel_def Let_def)
  let ?w = "through To (io_write_block 2 (int 1) [9, 9, 9, 9]) ?p1"
  have "fst ?w = Inr ()" by code_simp
  then have w: "?w = (Inr (), snd ?w)" by (metis prod.collapse)
  have on: "on_device (channel To ?p1) 2 1"
    by (simp add: io_share_cache_def demo_pair_def demo_channel_def Let_def on_device_def)
  have fits: "request_fits (cp_from demo_pair) 1" "io_blksize (cp_from demo_pair) \<le> 2 ^ 30"
    by (simp_all add: demo_pair_def demo_channel_def request_fits_def)
  have "\<not> has_fault (channel From (snd ?w))"
  proof -
    have "dev_script (channel From (snd ?w)) = []" by code_simp
    then show ?thesis by (simp add: has_fault_def)
  qed
  then show ?thesis
    using shared_cache_coherent [of demo_pair "()" ?p1 To 2 1 "[9, 9, 9, 9]" "()" "snd ?w" To]
      share w on fits demo_channel_ok [of "[]"]
    by (auto simp: demo_pair_def demo_channel_def split: prod.splits sum.splits)
qed

end
