(* ===== verification/Byteorder.thy ===== *)
theory Byteorder
  imports Layout
begin

text \<open>
  Conversion of on-disk structures between the little-endian disk format and the
  order of the CPU: the swap functions of \<^verbatim>\<open>inode.c\<close>, \<^verbatim>\<open>extents.c\<close>, \<^verbatim>\<open>chain.c\<close> and
  \<^verbatim>\<open>dirblock.c\<close>. A structure is swapped in place in its block; \<open>le\<close> is the value of
  \<^verbatim>\<open>cpu_is_little_endian\<close>, \<open>bsz\<close> is \<^verbatim>\<open>fs->fs_blocksize\<close>. A C assignment
  \<^verbatim>\<open>x->f = bswap_n(x->f)\<close> reverses the bytes of the member.
\<close>

section \<open>Members\<close>

definition bswap_at :: "nat \<Rightarrow> nat \<Rightarrow> bytes \<Rightarrow> bytes" where
  "bswap_at n off buf = put off (rev (field n off buf)) buf"

definition swap_members :: "(nat \<times> nat) list \<Rightarrow> bytes \<Rightarrow> bytes" where
  "swap_members fs buf = fold (\<lambda>(off, n). bswap_at n off) fs buf"

definition at_base :: "nat \<Rightarrow> (nat \<times> nat) list \<Rightarrow> (nat \<times> nat) list" where
  "at_base b ms = map (\<lambda>(off, n). (b + off, n)) ms"

definition bswap_64 :: "u64 \<Rightarrow> u64" where
  "bswap_64 x = of_nat (le_nat (rev (le_bytes 8 (unat x))))"

definition cmfs_swap_barrier :: "nat \<Rightarrow> nat \<Rightarrow> nat \<Rightarrow> bool" where
  "cmfs_swap_barrier bsz element element_size = (element + element_size > bsz)"

text \<open>
  The loops over the records of a list: \<open>k\<close> records remain from index \<open>i\<close>, the
  record array starts at \<open>b\<close>, a record has \<open>sz\<close> bytes and the members \<open>ms\<close>.
\<close>

primrec swap_recs :: "nat \<Rightarrow> nat \<Rightarrow> (nat \<times> nat) list \<Rightarrow> nat \<Rightarrow> nat \<Rightarrow> nat \<Rightarrow> bytes \<Rightarrow> bytes" where
  "swap_recs bsz sz ms b 0 i buf = buf"
| "swap_recs bsz sz ms b (Suc k) i buf =
     (if cmfs_swap_barrier bsz (b + sz * i) sz then buf
      else swap_recs bsz sz ms b k (i + 1)
             (swap_members (at_base (b + sz * i) ms) buf))"

section \<open>Extent lists and extent blocks\<close>

definition cmfs_swap_extent_list_primary :: "nat \<Rightarrow> bytes \<Rightarrow> bytes" where
  "cmfs_swap_extent_list_primary b =
     swap_members [(b + o_l_tree_depth, 2), (b + o_l_count, 2), (b + o_l_next_free_rec, 2)]"

definition cmfs_swap_extent_list_secondary :: "bool \<Rightarrow> nat \<Rightarrow> nat \<Rightarrow> bytes \<Rightarrow> bytes" where
  "cmfs_swap_extent_list_secondary le bsz b buf =
     (let el = extent_list_of le buf b
      in swap_recs bsz 32
           [(o_e_cpos, 8), (o_e_blkno, 8),
            if l_tree_depth el \<noteq> 0 then (o_e_int_blocks, 8) else (o_e_leaf_blocks, 4)]
           (b + o_l_recs) (unat (l_next_free_rec el)) 0 buf)"

definition cmfs_swap_extent_list_from_cpu :: "bool \<Rightarrow> nat \<Rightarrow> nat \<Rightarrow> bytes \<Rightarrow> bytes" where
  "cmfs_swap_extent_list_from_cpu le bsz b buf =
     (if le then buf
      else cmfs_swap_extent_list_primary b (cmfs_swap_extent_list_secondary le bsz b buf))"

definition cmfs_swap_extent_list_to_cpu :: "bool \<Rightarrow> nat \<Rightarrow> nat \<Rightarrow> bytes \<Rightarrow> bytes" where
  "cmfs_swap_extent_list_to_cpu le bsz b buf =
     (if le then buf
      else cmfs_swap_extent_list_secondary le bsz b (cmfs_swap_extent_list_primary b buf))"

definition cmfs_swap_extent_block_header :: "bytes \<Rightarrow> bytes" where
  "cmfs_swap_extent_block_header =
     swap_members [(o_h_suballoc_slot, 2), (o_h_suballoc_bit, 2), (o_h_fs_generation, 4),
                   (o_h_blkno, 8), (o_h_next_leaf_block, 8)]"

definition cmfs_swap_extent_block_to_cpu :: "bool \<Rightarrow> nat \<Rightarrow> bytes \<Rightarrow> bytes" where
  "cmfs_swap_extent_block_to_cpu le bsz buf =
     (if le then buf
      else cmfs_swap_extent_list_to_cpu le bsz o_h_list (cmfs_swap_extent_block_header buf))"

definition cmfs_swap_extent_block_from_cpu :: "bool \<Rightarrow> nat \<Rightarrow> bytes \<Rightarrow> bytes" where
  "cmfs_swap_extent_block_from_cpu le bsz buf =
     (if le then buf
      else cmfs_swap_extent_list_from_cpu le bsz o_h_list (cmfs_swap_extent_block_header buf))"

section \<open>Group descriptors\<close>

definition cmfs_swap_group_desc_header :: "bytes \<Rightarrow> bytes" where
  "cmfs_swap_group_desc_header =
     swap_members [(o_bg_size, 2), (o_bg_bits, 2), (o_bg_free_bits_count, 2), (o_bg_chain, 2),
                   (o_bg_generation, 4), (o_bg_next_group, 8), (o_bg_parent_dinode, 8),
                   (o_bg_blkno, 8)]"

definition cmfs_swap_group_desc_from_cpu :: "bool \<Rightarrow> bytes \<Rightarrow> bytes" where
  "cmfs_swap_group_desc_from_cpu le buf =
     (if le then buf else cmfs_swap_group_desc_header buf)"

definition cmfs_swap_group_desc_to_cpu :: "bool \<Rightarrow> bytes \<Rightarrow> bytes" where
  "cmfs_swap_group_desc_to_cpu le buf =
     (if le then buf else cmfs_swap_group_desc_header buf)"

section \<open>Directory blocks\<close>

definition cmfs_swap_dir_trailer :: "bool \<Rightarrow> nat \<Rightarrow> bytes \<Rightarrow> bytes" where
  "cmfs_swap_dir_trailer le b buf =
     (if le then buf
      else swap_members [(b + o_db_compat_inode, 8), (b + o_db_compat_rec_len, 2),
             (b + o_db_blkno, 8), (b + o_db_parent_dinode, 8), (b + o_db_free_rec_len, 2),
             (b + o_db_free_next, 8)] buf)"

text \<open>
  The 16-bit \<^verbatim>\<open>rec_len\<close> is widened to the argument type of \<^verbatim>\<open>bswap_64\<close> and the
  result is cut to 16 bits by the assignment.
\<close>

definition cmfs_swap_dir_entry :: "bool \<Rightarrow> nat \<Rightarrow> bytes \<Rightarrow> bytes" where
  "cmfs_swap_dir_entry le p buf =
     (if le then buf
      else
        let buf = bswap_at 8 (p + o_d_inode) buf
        in st16 le (p + o_d_rec_len)
             (ucast (bswap_64 (ucast (ld16 le buf (p + o_d_rec_len))))) buf)"

abbreviation (input) DIRENT_HEADER_SIZE :: nat where "DIRENT_HEADER_SIZE \<equiv> 12"

function swap_dir_loop ::
  "bool \<Rightarrow> bool \<Rightarrow> nat \<Rightarrow> nat \<Rightarrow> errcode option \<Rightarrow> bytes \<Rightarrow> errcode option \<times> bytes" where
  "swap_dir_loop le to_cpu limit p retval buf =
     (if p + DIRENT_HEADER_SIZE < limit then
        let buf = (if to_cpu then cmfs_swap_dir_entry le p buf else buf);
            name_len = unat (ld8 buf (p + o_d_name_len));
            rec_len = unat (ld16 le buf (p + o_d_rec_len));
            buf = (if to_cpu then buf else cmfs_swap_dir_entry le p buf);
            bad = (rec_len < DIRENT_HEADER_SIZE \<or> rec_len mod 4 \<noteq> 0);
            retval = (if bad then Some CMFS_ET_DIR_CORRUPTED else retval);
            rec_len = (if bad then DIRENT_HEADER_SIZE else rec_len);
            retval = (if name_len + DIRENT_HEADER_SIZE > rec_len
                      then Some CMFS_ET_DIR_CORRUPTED else retval)
        in swap_dir_loop le to_cpu limit (p + rec_len) retval buf
      else (retval, buf))"
  by pat_completeness auto
termination
  by (relation "measure (\<lambda>(le, to_cpu, limit, p, retval, buf). limit - p)") auto

declare swap_dir_loop.simps [simp del]

definition cmfs_swap_dir_entries_direction ::
  "bool \<Rightarrow> nat \<Rightarrow> nat \<Rightarrow> bool \<Rightarrow> (bytes, unit) io" where
  "cmfs_swap_dir_entries_direction le b n to_cpu buf =
     (case swap_dir_loop le to_cpu (b + n) b None buf of
        (None, buf) \<Rightarrow> (Inr (), buf)
      | (Some e, buf) \<Rightarrow> (Inl e, buf))"

definition cmfs_swap_dir_entries_from_cpu :: "bool \<Rightarrow> nat \<Rightarrow> nat \<Rightarrow> (bytes, unit) io" where
  "cmfs_swap_dir_entries_from_cpu le b n = cmfs_swap_dir_entries_direction le b n False"

definition cmfs_swap_dir_entries_to_cpu :: "bool \<Rightarrow> nat \<Rightarrow> nat \<Rightarrow> (bytes, unit) io" where
  "cmfs_swap_dir_entries_to_cpu le b n = cmfs_swap_dir_entries_direction le b n True"

section \<open>Inodes\<close>

definition cmfs_swap_inode_first :: "bytes \<Rightarrow> bytes" where
  "cmfs_swap_inode_first =
     swap_members [(o_i_generation, 4), (o_i_links_count, 4), (o_i_uid, 4), (o_i_gid, 4),
       (o_i_size, 8), (o_i_atime, 8), (o_i_ctime, 8), (o_i_mtime, 8), (o_i_dtime, 8),
       (o_i_flags, 4), (o_i_mode, 2), (o_i_suballoc_slot, 2), (o_i_blkno, 8),
       (o_i_clusters, 4), (o_i_fs_generation, 4), (o_i_last_eb_blk, 8), (o_i_atime_nsec, 4),
       (o_i_ctime_nsec, 4), (o_i_mtime_nsec, 4), (o_i_attr, 4), (o_i_xattr_loc, 8),
       (o_i_refcount_loc, 8), (o_i_suballoc_loc, 8), (o_i_dyn_features, 2),
       (o_i_xattr_inline_size, 2)]"

definition cmfs_swap_inode_second :: "bool \<Rightarrow> bytes \<Rightarrow> bytes" where
  "cmfs_swap_inode_second le buf =
     (let mode = ld16 le buf o_i_mode; flags = ld32 le buf o_i_flags
      in if S_ISCHR mode \<or> S_ISBLK mode then swap_members [(o_i_rdev, 8)] buf
         else if flags AND CMFS_BITMAP_FL \<noteq> 0 then
           swap_members [(o_i_used, 4), (o_i_total, 4)] buf
         else if flags AND CMFS_JOURNAL_FL \<noteq> 0 then
           swap_members [(o_ij_flags, 4), (o_ij_recovery_generation, 4)] buf
         else buf)"

definition super_block_members :: "(nat \<times> nat) list" where
  "super_block_members =
     [(o_s_major_rev_level, 2), (o_s_minor_rev_level, 2), (o_s_mnt_count, 2),
      (o_s_max_mnt_count, 2), (o_s_state, 2), (o_s_errors, 2), (o_s_checkinterval, 4),
      (o_s_lastcheck, 8), (o_s_creator_os, 4), (o_s_feature_compat, 4),
      (o_s_feature_incompat, 4), (o_s_feature_ro_compat, 4), (o_s_root_blkno, 8),
      (o_s_system_dir_blkno, 8), (o_s_clustersize_bits, 4), (o_s_blocksize_bits, 4),
      (o_s_tunefs_flag, 2), (o_s_xattr_inline_size, 2), (o_s_uuid_hash, 4),
      (o_s_first_cluster_group, 8)]"

definition cmfs_swap_inode_third :: "bool \<Rightarrow> nat \<Rightarrow> bytes \<Rightarrow> bytes" where
  "cmfs_swap_inode_third le bsz buf =
     (let flags = ld32 le buf o_i_flags
      in if flags AND CMFS_SUPER_BLOCK_FL \<noteq> 0 then
           swap_members (at_base o_id2 super_block_members) buf
         else if flags AND CMFS_LOCAL_ALLOC_FL \<noteq> 0 then
           swap_members (at_base o_id2 [(o_la_bm_off, 4), (o_la_size, 2)]) buf
         else if flags AND CMFS_CHAIN_FL \<noteq> 0 then
           let buf = swap_members (at_base o_id2
                       [(o_cl_cpg, 2), (o_cl_bpc, 2), (o_cl_count, 2), (o_cl_next_free_rec, 2)]) buf
           in swap_recs bsz 16 [(o_c_free, 4), (o_c_total, 4), (o_c_blkno, 8)]
                (o_id2 + o_cl_recs) (unat (ld16 le buf (o_id2 + o_cl_next_free_rec))) 0 buf
         else if flags AND CMFS_DEALLOC_FL \<noteq> 0 then
           let buf = swap_members (at_base o_id2 [(o_tl_count, 2), (o_tl_used, 2)]) buf
           in swap_recs bsz 8 [(o_t_start, 4), (o_t_clusters, 4)]
                (o_id2 + o_tl_recs) (unat (ld16 le buf (o_id2 + o_tl_count))) 0 buf
         else if ld16 le buf o_i_dyn_features AND CMFS_INLINE_DATA_FL \<noteq> 0 then
           swap_members (at_base o_id2 [(o_id_count, 2)]) buf
         else buf)"

text \<open>The result of the conversion of the entries is ignored by the code.\<close>

definition cmfs_swap_inline_dir :: "bool \<Rightarrow> nat \<Rightarrow> bool \<Rightarrow> bytes \<Rightarrow> bytes" where
  "cmfs_swap_inline_dir le bsz to_cpu buf =
     (let n = unat (ld16 le buf (o_id2 + o_id_count));
          max_inline = cmfs_max_inline_data (int bsz);
          max_inline = (if max_inline < 0 then 0 else max_inline);
          n = (if int n > max_inline then nat max_inline else n)
      in snd (if to_cpu then cmfs_swap_dir_entries_to_cpu le (o_id2 + o_id_data) n buf
              else cmfs_swap_dir_entries_from_cpu le (o_id2 + o_id_data) n buf))"

definition has_extents :: "bool \<Rightarrow> bytes \<Rightarrow> bool" where
  "has_extents le buf =
     (let flags = ld32 le buf o_i_flags
      in if flags AND (CMFS_SUPER_BLOCK_FL OR CMFS_LOCAL_ALLOC_FL OR CMFS_CHAIN_FL
                       OR CMFS_DEALLOC_FL) \<noteq> 0 then False
         else if S_ISLNK (ld16 le buf o_i_mode) \<and> ld64 le buf o_i_size \<noteq> 0
                 \<and> ld32 le buf o_i_clusters = 0 then False
         else if ld16 le buf o_i_dyn_features AND CMFS_INLINE_DATA_FL \<noteq> 0 then False
         else True)"

definition inline_dir :: "bool \<Rightarrow> bytes \<Rightarrow> bool" where
  "inline_dir le buf \<longleftrightarrow>
     ld16 le buf o_i_dyn_features AND CMFS_INLINE_DATA_FL \<noteq> 0 \<and> S_ISDIR (ld16 le buf o_i_mode)"

definition cmfs_swap_inode_from_cpu :: "bool \<Rightarrow> nat \<Rightarrow> bytes \<Rightarrow> bytes" where
  "cmfs_swap_inode_from_cpu le bsz buf =
     (if le then buf
      else
        let buf = (if has_extents le buf
                   then cmfs_swap_extent_list_from_cpu le bsz o_id2 buf else buf);
            buf = (if inline_dir le buf then cmfs_swap_inline_dir le bsz False buf else buf)
        in cmfs_swap_inode_first (cmfs_swap_inode_second le (cmfs_swap_inode_third le bsz buf)))"

definition cmfs_swap_inode_to_cpu :: "bool \<Rightarrow> nat \<Rightarrow> bytes \<Rightarrow> bytes" where
  "cmfs_swap_inode_to_cpu le bsz buf =
     (if le then buf
      else
        let buf = cmfs_swap_inode_third le bsz
                    (cmfs_swap_inode_second le (cmfs_swap_inode_first buf));
            buf = (if inline_dir le buf then cmfs_swap_inline_dir le bsz True buf else buf)
        in if has_extents le buf then cmfs_swap_extent_list_to_cpu le bsz o_id2 buf else buf)"

section \<open>Laws of the member swaps\<close>

definition sep :: "nat \<times> nat \<Rightarrow> nat \<times> nat \<Rightarrow> bool" where
  "sep x y \<longleftrightarrow> fst x + snd x \<le> fst y \<or> fst y + snd y \<le> fst x"

primrec seps :: "(nat \<times> nat) list \<Rightarrow> bool" where
  "seps [] = True"
| "seps (x # xs) = (list_all (sep x) xs \<and> seps xs)"

definition inside :: "nat \<Rightarrow> (nat \<times> nat) list \<Rightarrow> bool" where
  "inside l ms = list_all (\<lambda>x. fst x + snd x \<le> l) ms"

lemma inside_simps [simp]:
  "inside l []"
  "inside l (x # xs) \<longleftrightarrow> fst x + snd x \<le> l \<and> inside l xs"
  "inside l (xs @ ys) \<longleftrightarrow> inside l xs \<and> inside l ys"
  by (simp_all add: inside_def)

lemma seps_append:
  "seps (xs @ ys) \<longleftrightarrow> seps xs \<and> seps ys \<and> (\<forall>x\<in>set xs. list_all (sep x) ys)"
  by (induction xs) auto

lemma length_bswap_at [simp]: "off + n \<le> length buf \<Longrightarrow> length (bswap_at n off buf) = length buf"
  by (simp add: bswap_at_def length_field)

lemma field_bswap_same: "off + n \<le> length buf \<Longrightarrow> field n off (bswap_at n off buf) = rev (field n off buf)"
  by (simp add: bswap_at_def field_put_same length_field)

lemma field_bswap_other:
  "off + n \<le> length buf \<Longrightarrow> sep (o', n') (off, n) \<Longrightarrow>
    field n' o' (bswap_at n off buf) = field n' o' buf"
  by (simp add: bswap_at_def field_put_other length_field sep_def)

lemma bswap_bswap: "off + n \<le> length buf \<Longrightarrow> bswap_at n off (bswap_at n off buf) = buf"
  by (simp add: bswap_at_def field_put_same length_field put_put_same put_field_id)

lemma bswap_commute:
  assumes "off + n \<le> length buf" and "o' + n' \<le> length buf" and "sep (off, n) (o', n')"
  shows "bswap_at n off (bswap_at n' o' buf) = bswap_at n' o' (bswap_at n off buf)"
proof -
  have "sep (o', n') (off, n)" using assms(3) by (auto simp: sep_def)
  then show ?thesis using assms
    by (simp add: bswap_at_def field_put_other length_field sep_def put_put_other)
qed

lemma swap_members_simps [simp]:
  "swap_members [] buf = buf"
  "swap_members (x # xs) buf = swap_members xs (bswap_at (snd x) (fst x) buf)"
  by (simp_all add: swap_members_def split_beta)

lemma swap_members_append: "swap_members (xs @ ys) buf = swap_members ys (swap_members xs buf)"
  by (simp add: swap_members_def)

lemma length_swap_members [simp]:
  "inside (length buf) ms \<Longrightarrow> length (swap_members ms buf) = length buf"
  by (induction ms arbitrary: buf) auto

lemma field_swap_other:
  "inside (length buf) ms \<Longrightarrow> list_all (sep (o', n')) ms \<Longrightarrow>
    field n' o' (swap_members ms buf) = field n' o' buf"
  by (induction ms arbitrary: buf) (auto simp: field_bswap_other)

lemma field_swap_member:
  "inside (length buf) ms \<Longrightarrow> seps ms \<Longrightarrow> (off, n) \<in> set ms \<Longrightarrow>
    field n off (swap_members ms buf) = rev (field n off buf)"
proof (induction ms arbitrary: buf)
  case (Cons x xs)
  show ?case
  proof (cases "x = (off, n)")
    case True
    then show ?thesis using Cons.prems by (simp add: field_swap_other field_bswap_same)
  next
    case False
    then have "(off, n) \<in> set xs" using Cons.prems by auto
    then have "sep (off, n) (fst x, snd x)" using Cons.prems
      by (auto simp: list_all_iff sep_def)
    then show ?thesis using Cons \<open>(off, n) \<in> set xs\<close> by (simp add: field_bswap_other)
  qed
qed simp

lemma bswap_swap_commute:
  "inside (length buf) ms \<Longrightarrow> off + n \<le> length buf \<Longrightarrow> list_all (sep (off, n)) ms \<Longrightarrow>
    bswap_at n off (swap_members ms buf) = swap_members ms (bswap_at n off buf)"
proof (induction ms arbitrary: buf)
  case (Cons x xs)
  then have "bswap_at n off (bswap_at (snd x) (fst x) buf) = bswap_at (snd x) (fst x) (bswap_at n off buf)"
    by (intro bswap_commute) auto
  then show ?case using Cons by simp
qed simp

lemma swap_members_twice:
  "inside (length buf) ms \<Longrightarrow> seps ms \<Longrightarrow> swap_members ms (swap_members ms buf) = buf"
proof (induction ms arbitrary: buf)
  case (Cons x xs)
  then show ?case
    using bswap_swap_commute [of "bswap_at (snd x) (fst x) buf" xs "fst x" "snd x"]
    by (simp add: bswap_bswap)
qed simp

lemma ld_swap_other:
  "inside (length buf) ms \<Longrightarrow> list_all (sep (o', n')) ms \<Longrightarrow>
    ld le n' (swap_members ms buf) o' = ld le n' buf o'"
  by (simp add: ld_def field_swap_other)

lemma ld_swap_member:
  "inside (length buf) ms \<Longrightarrow> seps ms \<Longrightarrow> (off, n) \<in> set ms \<Longrightarrow>
    ld le n (swap_members ms buf) off = ld (\<not> le) n buf off"
  by (simp add: ld_def field_swap_member cpu_order_def)

subsection \<open>Record loops\<close>

definition rec_members :: "nat \<Rightarrow> (nat \<times> nat) list \<Rightarrow> nat \<Rightarrow> nat \<Rightarrow> nat \<Rightarrow> (nat \<times> nat) list" where
  "rec_members sz ms b i j = concat (map (\<lambda>r. at_base (b + sz * r) ms) [i..<j])"

lemma rec_members_Cons:
  "i < j \<Longrightarrow> rec_members sz ms b i j = at_base (b + sz * i) ms @ rec_members sz ms b (Suc i) j"
  by (simp add: rec_members_def upt_conv_Cons)

lemma rec_members_Nil: "j \<le> i \<Longrightarrow> rec_members sz ms b i j = []"
  by (simp add: rec_members_def)

lemma swap_recs_members:
  assumes "0 < sz" and "b \<le> bsz"
  shows "swap_recs bsz sz ms b k i buf =
    swap_members (rec_members sz ms b i (min (i + k) ((bsz - b) div sz))) buf"
proof (induction k arbitrary: i buf)
  case (Suc k)
  have fit: "cmfs_swap_barrier bsz (b + sz * i) sz \<longleftrightarrow> (bsz - b) div sz < Suc i"
    using assms by (auto simp: cmfs_swap_barrier_def div_less_iff_less_mult algebra_simps)
  show ?case
  proof (cases "(bsz - b) div sz < Suc i")
    case True
    then show ?thesis using fit by (simp add: rec_members_Nil)
  next
    case False
    then have "i < min (i + Suc k) ((bsz - b) div sz)" by simp
    from rec_members_Cons [OF this] show ?thesis
      using fit False Suc by (simp add: swap_members_append)
  qed
qed (simp add: rec_members_Nil)

lemma set_rec_members:
  "(x \<in> set (rec_members sz ms b i j)) =
    (\<exists>r off n. i \<le> r \<and> r < j \<and> (off, n) \<in> set ms \<and> x = (b + sz * r + off, n))"
  by (auto simp: rec_members_def at_base_def)

lemma inside_rec_members:
  assumes "inside sz ms" and "b + sz * j \<le> l"
  shows "inside l (rec_members sz ms b i j)"
  unfolding inside_def list_all_iff
proof
  fix x assume "x \<in> set (rec_members sz ms b i j)"
  then obtain r off n where r: "r < j" "(off, n) \<in> set ms" "x = (b + sz * r + off, n)"
    by (auto simp: set_rec_members)
  have "sz * Suc r \<le> sz * j" using r(1) by (intro mult_le_mono) auto
  moreover have "off + n \<le> sz" using assms(1) r(2) by (auto simp: inside_def list_all_iff)
  ultimately show "fst x + snd x \<le> l" using assms(2) r(3) by simp
qed

lemma seps_at_base: "seps ms \<Longrightarrow> seps (at_base b ms)"
  by (induction ms) (auto simp: at_base_def sep_def list_all_iff)

lemma seps_rec_members:
  assumes "inside sz ms" and "seps ms"
  shows "seps (rec_members sz ms b i j)"
proof (induction "j - i" arbitrary: i)
  case (Suc d)
  then have ij: "i < j" by simp
  have "sep x y" if xy: "x \<in> set (at_base (b + sz * i) ms)"
    "y \<in> set (rec_members sz ms b (Suc i) j)" for x y
  proof -
    obtain off n where x: "(off, n) \<in> set ms" "x = (b + sz * i + off, n)"
      using xy(1) by (auto simp: at_base_def)
    obtain r off' n' where y: "Suc i \<le> r" "y = (b + sz * r + off', n')"
      using xy(2) by (auto simp: set_rec_members)
    have "sz * Suc i \<le> sz * r" using y(1) by (intro mult_le_mono) auto
    moreover have "off + n \<le> sz" using assms(1) x(1) by (auto simp: inside_def list_all_iff)
    ultimately show ?thesis using x(2) y(2) by (simp add: sep_def)
  qed
  then show ?case using Suc assms(2)
    by (simp add: rec_members_Cons [OF ij] seps_append seps_at_base list_all_iff)
qed (simp add: rec_members_Nil)

lemma sep_rec_members:
  assumes "inside sz ms" and "o' + n' \<le> b"
  shows "list_all (sep (o', n')) (rec_members sz ms b i j)"
  using assms by (auto simp: list_all_iff set_rec_members sep_def)

lemmas rec_members_ok = inside_rec_members seps_rec_members sep_rec_members

section \<open>Extent lists\<close>

lemma secondary_eq:
  assumes "b + 32 \<le> bsz"
  shows "cmfs_swap_extent_list_secondary le bsz b buf =
    swap_members (rec_members 32
      [(0, 8), (8, 8), if ld16 le buf b \<noteq> 0 then (16, 8) else (16, 4)] (b + 32) 0
      (min (unat (ld16 le buf (b + 4))) ((bsz - (b + 32)) div 32))) buf"
  unfolding cmfs_swap_extent_list_secondary_def Let_def extent_list_of_def
  using assms by (simp add: swap_recs_members)

lemma rec_fit:
  fixes b bsz j :: nat
  assumes "b + 32 \<le> bsz" and "j \<le> (bsz - (b + 32)) div 32"
  shows "b + 32 + 32 * j \<le> bsz"
proof -
  have "32 * j \<le> 32 * ((bsz - (b + 32)) div 32)" using assms(2) by simp
  also have "\<dots> \<le> bsz - (b + 32)" by simp
  finally show ?thesis using assms(1) by linarith
qed

lemma extent_members_ok:
  "inside 32 [(0, 8), (8, 8), if d then (16, 8) else (16, 4 :: nat)]"
  "seps [(0, 8), (8, 8), if d then (16, 8) else (16, 4 :: nat)]"
  by (simp_all add: sep_def)

lemma primary_members: "cmfs_swap_extent_list_primary b = swap_members [(b, 2), (b + 2, 2), (b + 4, 2)]"
  by (simp add: cmfs_swap_extent_list_primary_def)

lemma list_to_cpu_eq:
  assumes "b + 32 \<le> bsz" and "bsz \<le> length buf"
  shows "cmfs_swap_extent_list_to_cpu False bsz b buf =
    swap_members ([(b, 2), (b + 2, 2), (b + 4, 2)] @ rec_members 32
      [(0, 8), (8, 8), if ld16 True buf b \<noteq> 0 then (16, 8) else (16, 4)] (b + 32) 0
      (min (unat (ld16 True buf (b + 4))) ((bsz - (b + 32)) div 32))) buf"
proof -
  let ?p = "[(b, 2), (b + 2, 2), (b + 4, 2 :: nat)]"
  have in_p: "inside (length buf) ?p" and sep_p: "seps ?p" using assms by (simp_all add: sep_def)
  have "ld False 2 (swap_members ?p buf) b = ld True 2 buf b"
    and "ld False 2 (swap_members ?p buf) (b + 4) = ld True 2 buf (b + 4)"
    by (subst ld_swap_member [OF in_p sep_p]; simp)+
  then show ?thesis
    unfolding cmfs_swap_extent_list_to_cpu_def secondary_eq [OF assms(1)] primary_members
      swap_members_append ld16_def by simp
qed

lemma list_to_cpu_seps:
  assumes "b + 32 \<le> bsz" and "bsz \<le> l" and "j \<le> (bsz - (b + 32)) div 32"
  shows "inside l ([(b, 2), (b + 2, 2), (b + 4, 2)] @ rec_members 32
      [(0, 8), (8, 8), if d then (16, 8) else (16, 4)] (b + 32) 0 j)"
    and "seps ([(b, 2), (b + 2, 2), (b + 4, 2)] @ rec_members 32
      [(0, 8), (8, 8), if d then (16, 8) else (16, 4)] (b + 32) 0 j)"
proof -
  have fit: "b + 32 + 32 * j \<le> l" using rec_fit [OF assms(1,3)] assms(2) by simp
  show "inside l ([(b, 2), (b + 2, 2), (b + 4, 2)] @ rec_members 32
      [(0, 8), (8, 8), if d then (16, 8) else (16, 4)] (b + 32) 0 j)"
    using assms inside_rec_members [OF extent_members_ok(1) fit] by simp
  show "seps ([(b, 2), (b + 2, 2), (b + 4, 2)] @ rec_members 32
      [(0, 8), (8, 8), if d then (16, 8) else (16, 4)] (b + 32) 0 j)"
    unfolding seps_append
    using seps_rec_members [OF extent_members_ok] sep_rec_members [OF extent_members_ok(1)]
    by (simp add: sep_def)
qed

lemma list_roundtrip:
  assumes "b + 32 \<le> bsz" and "bsz \<le> length buf"
  shows "cmfs_swap_extent_list_from_cpu le bsz b (cmfs_swap_extent_list_to_cpu le bsz b buf) = buf"
proof (cases le)
  case True
  then show ?thesis
    by (simp add: cmfs_swap_extent_list_from_cpu_def cmfs_swap_extent_list_to_cpu_def)
next
  case False
  let ?j = "min (unat (ld16 True buf (b + 4))) ((bsz - (b + 32)) div 32)"
  let ?p = "[(b, 2), (b + 2, 2), (b + 4, 2 :: nat)]"
  let ?r = "rec_members 32 [(0, 8), (8, 8), if ld16 True buf b \<noteq> 0 then (16, 8) else (16, 4)]
      (b + 32) 0 ?j"
  let ?to = "cmfs_swap_extent_list_to_cpu False bsz b buf"
  note ok = list_to_cpu_seps [OF assms, of ?j "ld16 True buf b \<noteq> 0"]
  have to: "?to = swap_members (?p @ ?r) buf" by (rule list_to_cpu_eq [OF assms])
  have "ld False 2 ?to b = ld True 2 buf b" and "ld False 2 ?to (b + 4) = ld True 2 buf (b + 4)"
    unfolding to using ok by (subst ld_swap_member; simp)+
  then have "cmfs_swap_extent_list_secondary False bsz b ?to = swap_members ?r ?to"
    unfolding secondary_eq [OF assms(1)] ld16_def by simp
  then have "cmfs_swap_extent_list_from_cpu False bsz b ?to = swap_members ?p (swap_members ?r ?to)"
    by (simp add: cmfs_swap_extent_list_from_cpu_def primary_members)
  also have "swap_members ?r ?to = swap_members ?p buf"
    unfolding to swap_members_append using ok assms
    by (intro swap_members_twice) (simp_all add: seps_append)
  also have "swap_members ?p (swap_members ?p buf) = buf"
    using assms by (intro swap_members_twice) (simp_all add: sep_def)
  finally show ?thesis using False by simp
qed

lemma list_to_cpu_low:
  assumes "b + 32 \<le> bsz" and "bsz \<le> length buf" and "off + n \<le> b"
  shows "field n off (cmfs_swap_extent_list_to_cpu le bsz b buf) = field n off buf"
proof (cases le)
  case True
  then show ?thesis by (simp add: cmfs_swap_extent_list_to_cpu_def)
next
  case False
  let ?j = "min (unat (ld16 True buf (b + 4))) ((bsz - (b + 32)) div 32)"
  note ok = list_to_cpu_seps [OF assms(1,2), of ?j "ld16 True buf b \<noteq> 0"]
  have "list_all (sep (off, n)) (rec_members 32 [(0, 8), (8, 8),
      if ld16 True buf b \<noteq> 0 then (16, 8) else (16, 4)] (b + 32) 0 ?j)"
    using assms(3) by (intro sep_rec_members [OF extent_members_ok(1)]) simp
  then have "field n off (cmfs_swap_extent_list_to_cpu False bsz b buf) = field n off buf"
    unfolding list_to_cpu_eq [OF assms(1,2)]
    using ok assms(3) by (intro field_swap_other) (simp_all add: sep_def)
  then show ?thesis using False by simp
qed

lemma length_list_to_cpu [simp]:
  assumes "b + 32 \<le> bsz" and "bsz \<le> length buf"
  shows "length (cmfs_swap_extent_list_to_cpu le bsz b buf) = length buf"
proof (cases le)
  case False
  have "length (cmfs_swap_extent_list_to_cpu False bsz b buf) = length buf"
    unfolding list_to_cpu_eq [OF assms]
    by (rule length_swap_members) (rule list_to_cpu_seps [OF assms], simp)
  then show ?thesis using False by simp
qed (simp add: cmfs_swap_extent_list_to_cpu_def)

text \<open>The record \<open>i\<close> of an extent list, and what a conversion does to it.\<close>

definition el_rec :: "bool \<Rightarrow> bytes \<Rightarrow> nat \<Rightarrow> nat \<Rightarrow> cmfs_extent_rec" where
  "el_rec le buf b i = extent_rec_of le buf (b + o_l_recs + 32 * i)"

lemma list_to_cpu_ld:
  assumes "b + 32 \<le> bsz" and "bsz \<le> length buf"
    and "(off, n) \<in> {(b, 2), (b + 2, 2), (b + 4, 2)} \<union>
      {(b + 32 + 32 * i + o', m) | i o' m. i < min (unat (ld16 True buf (b + 4))) ((bsz - (b + 32)) div 32)
        \<and> (o', m) \<in> {(0, 8), (8, 8), if ld16 True buf b \<noteq> 0 then (16, 8) else (16, 4)}}"
  shows "ld False n (cmfs_swap_extent_list_to_cpu False bsz b buf) off = ld True n buf off"
proof -
  let ?j = "min (unat (ld16 True buf (b + 4))) ((bsz - (b + 32)) div 32)"
  note ok = list_to_cpu_seps [OF assms(1,2), of ?j "ld16 True buf b \<noteq> 0"]
  have "(off, n) \<in> set ([(b, 2), (b + 2, 2), (b + 4, 2)] @ rec_members 32
      [(0, 8), (8, 8), if ld16 True buf b \<noteq> 0 then (16, 8) else (16, 4)] (b + 32) 0 ?j)"
    using assms(3) unfolding set_append Un_iff set_rec_members by (simp add: conj_ac)
  then show ?thesis unfolding list_to_cpu_eq [OF assms(1,2)]
    using ok by (subst ld_swap_member) simp_all
qed

lemma extent_list_reads_disk:
  assumes "b + 32 \<le> bsz" and "bsz \<le> length buf"
    and "i < unat (l_next_free_rec (extent_list_of True buf b))"
    and "b + 32 + 32 * i + 32 \<le> bsz"
  shows "extent_list_of le (cmfs_swap_extent_list_to_cpu le bsz b buf) b = extent_list_of True buf b
    \<and> e_cpos (el_rec le (cmfs_swap_extent_list_to_cpu le bsz b buf) b i) = e_cpos (el_rec True buf b i)
    \<and> e_blkno (el_rec le (cmfs_swap_extent_list_to_cpu le bsz b buf) b i) = e_blkno (el_rec True buf b i)
    \<and> (if l_tree_depth (extent_list_of True buf b) \<noteq> 0
       then e_int_blocks (el_rec le (cmfs_swap_extent_list_to_cpu le bsz b buf) b i)
              = e_int_blocks (el_rec True buf b i)
       else e_leaf_blocks (el_rec le (cmfs_swap_extent_list_to_cpu le bsz b buf) b i)
              = e_leaf_blocks (el_rec True buf b i))"
proof (cases le)
  case True
  then show ?thesis by (simp add: cmfs_swap_extent_list_to_cpu_def)
next
  case False
  have fit: "i < min (unat (ld16 True buf (b + 4))) ((bsz - (b + 32)) div 32)"
  proof -
    have "Suc i \<le> (bsz - (b + 32)) div 32"
      using assms(4) by (simp add: less_eq_div_iff_mult_less_eq)
    then show ?thesis using assms(3) by (simp add: extent_list_of_def)
  qed
  note ld = list_to_cpu_ld [OF assms(1,2)]
  have "ld False 2 (cmfs_swap_extent_list_to_cpu False bsz b buf) (b + k) = ld True 2 buf (b + k)"
    if "k = 0 \<or> k = 2 \<or> k = 4" for k using that by (intro ld) auto
  from this [of 0] this [of 2] this [of 4]
  have hdr: "extent_list_of False (cmfs_swap_extent_list_to_cpu False bsz b buf) b
      = extent_list_of True buf b"
    by (simp add: extent_list_of_def ld16_def)
  have rec: "ld False m (cmfs_swap_extent_list_to_cpu False bsz b buf) (b + 32 + 32 * i + o')
      = ld True m buf (b + 32 + 32 * i + o')"
    if "(o', m) \<in> {(0, 8), (8, 8), if ld16 True buf b \<noteq> 0 then (16, 8) else (16, 4)}" for o' m
    using that fit by (intro ld) blast
  show ?thesis
    using hdr rec [of 0 8] rec [of 8 8] rec [of 16 8] rec [of 16 4] False
    by (simp add: el_rec_def extent_rec_of_def extent_list_of_def ld64_def ld32_def)
qed

section \<open>Inodes\<close>

abbreviation (input) inode_scalars :: "(nat \<times> nat) list" where
  "inode_scalars \<equiv>
     [(8, 4), (12, 4), (16, 4), (20, 4), (24, 8), (32, 8), (40, 8), (48, 8), (56, 8), (64, 4),
      (68, 2), (70, 2), (72, 8), (80, 4), (84, 4), (88, 8), (96, 4), (100, 4), (104, 4),
      (108, 4), (112, 8), (120, 8), (128, 8), (144, 2), (146, 2)]"

lemma first_members: "cmfs_swap_inode_first = swap_members inode_scalars"
  by (simp add: cmfs_swap_inode_first_def)

lemma scalars_ok:
  "152 \<le> l \<Longrightarrow> inside l inode_scalars" "seps inode_scalars"
  by (simp_all add: sep_def)

lemma ld_first:
  "152 \<le> length buf \<Longrightarrow> (off, n) \<in> set inode_scalars \<Longrightarrow>
    ld le n (cmfs_swap_inode_first buf) off = ld (\<not> le) n buf off"
  unfolding first_members by (rule ld_swap_member [OF scalars_ok])

lemma first_first: "152 \<le> length buf \<Longrightarrow> cmfs_swap_inode_first (cmfs_swap_inode_first buf) = buf"
  unfolding first_members by (rule swap_members_twice [OF scalars_ok])

lemma length_first: "152 \<le> length buf \<Longrightarrow> length (cmfs_swap_inode_first buf) = length buf"
  unfolding first_members by (rule length_swap_members [OF scalars_ok(1)])

definition second_members :: "u16 \<Rightarrow> u32 \<Rightarrow> (nat \<times> nat) list" where
  "second_members mode flags =
     (if S_ISCHR mode \<or> S_ISBLK mode then [(152, 8)]
      else if flags AND CMFS_BITMAP_FL \<noteq> 0 then [(152, 4), (156, 4)]
      else if flags AND CMFS_JOURNAL_FL \<noteq> 0 then [(152, 4), (156, 4)] else [])"

lemma second_members:
  "cmfs_swap_inode_second le buf =
    swap_members (second_members (ld16 le buf o_i_mode) (ld32 le buf o_i_flags)) buf"
  by (simp add: cmfs_swap_inode_second_def second_members_def Let_def)

lemma second_ok:
  "160 \<le> l \<Longrightarrow> inside l (second_members m f)" "seps (second_members m f)"
  "off + n \<le> 152 \<Longrightarrow> list_all (sep (off, n)) (second_members m f)"
  "160 \<le> off \<Longrightarrow> list_all (sep (off, n)) (second_members m f)"
  by (simp_all add: second_members_def sep_def)

lemma length_second: "160 \<le> length buf \<Longrightarrow> length (cmfs_swap_inode_second le buf) = length buf"
  by (simp add: second_members second_ok)

lemma ld_second:
  "160 \<le> length buf \<Longrightarrow> off + n \<le> 152 \<Longrightarrow>
    ld le' n (cmfs_swap_inode_second le buf) off = ld le' n buf off"
  unfolding second_members by (rule ld_swap_other [OF second_ok(1) second_ok(3)])

lemma second_second:
  assumes "160 \<le> length buf"
  shows "cmfs_swap_inode_second le (cmfs_swap_inode_second le buf) = buf"
proof -
  have "ld16 le (cmfs_swap_inode_second le buf) o_i_mode = ld16 le buf o_i_mode"
    and "ld32 le (cmfs_swap_inode_second le buf) o_i_flags = ld32 le buf o_i_flags"
    using assms by (simp_all add: ld16_def ld32_def ld_second)
  then show ?thesis
    unfolding second_members [of le "cmfs_swap_inode_second le buf"]
    using assms by (simp add: second_members swap_members_twice second_ok)
qed

text \<open>
  The parts of \<open>id2\<close> whose conversion is its own inverse: neither a chain list nor
  a truncate log, whose record count is read after the header has been swapped.
\<close>

definition third_members :: "u32 \<Rightarrow> u16 \<Rightarrow> (nat \<times> nat) list" where
  "third_members flags dyn =
     (if flags AND CMFS_SUPER_BLOCK_FL \<noteq> 0 then at_base o_id2 super_block_members
      else if flags AND CMFS_LOCAL_ALLOC_FL \<noteq> 0 then at_base o_id2 [(0, 4), (4, 2)]
      else if dyn AND CMFS_INLINE_DATA_FL \<noteq> 0 then at_base o_id2 [(0, 2)] else [])"

lemma third_members:
  assumes "ld32 le buf o_i_flags AND CMFS_CHAIN_FL = 0"
    and "ld32 le buf o_i_flags AND CMFS_DEALLOC_FL = 0"
  shows "cmfs_swap_inode_third le bsz buf =
    swap_members (third_members (ld32 le buf o_i_flags) (ld16 le buf o_i_dyn_features)) buf"
  using assms by (simp add: cmfs_swap_inode_third_def third_members_def Let_def at_base_def)

lemma third_ok:
  "320 \<le> l \<Longrightarrow> inside l (third_members f d)" "seps (third_members f d)"
  "off + n \<le> 160 \<Longrightarrow> list_all (sep (off, n)) (third_members f d)"
  by (simp_all add: third_members_def at_base_def super_block_members_def sep_def)

end
