(* ===== verification/Filesys.thy ===== *)
theory Filesys
  imports Unix_io Byteorder
begin

text \<open>
  The open file system of \<^verbatim>\<open>include/cmfs/cmfs.h\<close>, its unit conversions, and the
  operations that read and write its metadata blocks: superblock, inodes, extent
  blocks, group descriptors and directory blocks (\<^verbatim>\<open>openfs.c\<close>, \<^verbatim>\<open>inode.c\<close>,
  \<^verbatim>\<open>extents.c\<close>, \<^verbatim>\<open>chain.c\<close>, \<^verbatim>\<open>dirblock.c\<close>, \<^verbatim>\<open>cached_inode.c\<close>). The field \<open>cpu_le\<close> is
  \<^verbatim>\<open>cpu_is_little_endian\<close>. A buffer that the C code fills is the operation's result.
\<close>

section \<open>State\<close>

abbreviation (input) CMFS_FLAG_RO :: u32 where "CMFS_FLAG_RO \<equiv> 0x00"
abbreviation (input) CMFS_FLAG_RW :: u32 where "CMFS_FLAG_RW \<equiv> 0x01"
abbreviation (input) CMFS_FLAG_CHANGED :: u32 where "CMFS_FLAG_CHANGED \<equiv> 0x02"
abbreviation (input) CMFS_FLAG_DIRTY :: u32 where "CMFS_FLAG_DIRTY \<equiv> 0x04"
abbreviation (input) CMFS_FLAG_BUFFERED :: u32 where "CMFS_FLAG_BUFFERED \<equiv> 0x10"
abbreviation (input) CMFS_FLAG_HARD_RO :: u32 where "CMFS_FLAG_HARD_RO \<equiv> 0x80"

abbreviation (input) CMFS_MIN_CLUSTERSIZE_BITS :: u32 where "CMFS_MIN_CLUSTERSIZE_BITS \<equiv> 12"
abbreviation (input) CMFS_MAX_CLUSTERSIZE_BITS :: u32 where "CMFS_MAX_CLUSTERSIZE_BITS \<equiv> 25"
abbreviation (input) CMFS_FEATURE_COMPAT_META_ECC :: u32 where "CMFS_FEATURE_COMPAT_META_ECC \<equiv> 8"
abbreviation (input) CMFS_FEATURE_COMPAT_INDEXED_DIRS :: u32 where "CMFS_FEATURE_COMPAT_INDEXED_DIRS \<equiv> 0x10"

record cmfs_filesys =
  fs_devname :: string
  fs_flags :: u32
  fs_io :: io_channel
  fs_super :: bytes
  fs_orig_super :: "bytes option"
  fs_blocksize :: u32
  fs_clustersize :: u32
  fs_clusters :: u32
  fs_blocks :: u64
  fs_umask :: u32
  fs_root_blkno :: u64
  fs_sysdir_blkno :: u64
  fs_first_cg_blkno :: u64
  uuid_str :: string
  cpu_le :: bool

record cmfs_cached_inode =
  ci_blkno :: u64
  ci_inode :: bytes

definition CMFS_RAW_SB :: "cmfs_filesys \<Rightarrow> cmfs_super_block" where
  "CMFS_RAW_SB fs = super_block_of (cpu_le fs) (fs_super fs) o_id2"

text \<open>The block size as the size of a buffer.\<close>

abbreviation (input) bsize :: "cmfs_filesys \<Rightarrow> nat" where
  "bsize fs \<equiv> unat (fs_blocksize fs)"

section \<open>Units\<close>

definition cmfs_clusters_to_blocks :: "cmfs_filesys \<Rightarrow> u32 \<Rightarrow> u64" where
  "cmfs_clusters_to_blocks fs clusters =
     (let c_to_b_bits = unat (s_clustersize_bits (CMFS_RAW_SB fs) - s_blocksize_bits (CMFS_RAW_SB fs))
      in ucast (push_bit c_to_b_bits clusters))"

definition cmfs_blocks_to_clusters :: "cmfs_filesys \<Rightarrow> u64 \<Rightarrow> u64" where
  "cmfs_blocks_to_clusters fs blocks =
     (let b_to_c_bits = unat (s_clustersize_bits (CMFS_RAW_SB fs) - s_blocksize_bits (CMFS_RAW_SB fs));
          ret = drop_bit b_to_c_bits blocks
      in if ret > UINT64_MAX then UINT64_MAX else ret)"

definition cmfs_clusters_in_bytes :: "cmfs_filesys \<Rightarrow> u64 \<Rightarrow> u32" where
  "cmfs_clusters_in_bytes fs n =
     (let ret = n + ucast (fs_clustersize fs) - 1;
          ret = (if ret < n then UINT64_MAX else ret);
          ret = drop_bit (unat (s_clustersize_bits (CMFS_RAW_SB fs))) ret;
          ret = (if ret > 0xFFFFFFFF then 0xFFFFFFFF else ret)
      in ucast ret)"

definition cmfs_rec_blocks :: "u16 \<Rightarrow> cmfs_extent_rec \<Rightarrow> u64" where
  "cmfs_rec_blocks tree_depth rec =
     (if tree_depth \<noteq> 0 then e_int_blocks rec else ucast (e_leaf_blocks rec))"

definition cmfs_rec_clusters :: "cmfs_filesys \<Rightarrow> u16 \<Rightarrow> cmfs_extent_rec \<Rightarrow> u64" where
  "cmfs_rec_clusters fs tree_depth rec =
     cmfs_blocks_to_clusters fs (cmfs_rec_blocks tree_depth rec)"

definition cmfs_set_rec_blocks :: "u16 \<Rightarrow> u32 \<Rightarrow> cmfs_extent_rec \<Rightarrow> cmfs_extent_rec" where
  "cmfs_set_rec_blocks tree_depth blocks rec =
     (if tree_depth \<noteq> 0 then rec\<lparr>e_int_blocks := ucast blocks\<rparr> else rec\<lparr>e_leaf_blocks := blocks\<rparr>)"

definition cmfs_meta_ecc :: "cmfs_super_block \<Rightarrow> bool" where
  "cmfs_meta_ecc csb = (s_feature_compat csb AND CMFS_FEATURE_COMPAT_META_ECC \<noteq> 0)"

definition cmfs_supports_indexed_dirs :: "cmfs_super_block \<Rightarrow> bool" where
  "cmfs_supports_indexed_dirs csb = (s_feature_compat csb AND CMFS_FEATURE_COMPAT_INDEXED_DIRS \<noteq> 0)"

definition is_dots :: "bytes \<Rightarrow> nat \<Rightarrow> bool" where
  "is_dots name len =
     (if len = 0 then False
      else name ! 0 = 46 \<and> (len = 1 \<or> (len = 2 \<and> name ! 1 = 46)))"

record cmfs_cluster_group_sizes =
  cgs_cpg :: u16
  cgs_tail_group_bits :: u16
  cgs_cluster_groups :: u32

text \<open>
  The assignments to the 16-bit and 32-bit members cut the 64-bit values. With no
  clusters the code divides by zero, the value \<open>None\<close>.
\<close>

definition cmfs_calc_cluster_groups :: "u64 \<Rightarrow> u64 \<Rightarrow> cmfs_cluster_group_sizes option" where
  "cmfs_calc_cluster_groups clusters blocksize =
     (let max_bits = of_int (8 * cmfs_group_bitmap_size (uint blocksize)) :: u32;
          cpg = (if (ucast max_bits :: u64) > clusters then ucast clusters else ucast max_bits) :: u16;
          cpg64 = ucast cpg :: u64;
          tail = ucast (clusters mod cpg64) :: u16
      in if cpg = 0 then None
         else Some \<lparr> cgs_cpg = cpg,
                     cgs_tail_group_bits = (if tail = 0 then cpg else tail),
                     cgs_cluster_groups = ucast ((clusters + cpg64 - 1) div cpg64) \<rparr>)"

section \<open>Reading blocks\<close>

text \<open>An operation on the channel as an operation on the file system.\<close>

definition on_io :: "(io_channel, 'a) io \<Rightarrow> (cmfs_filesys, 'a) io" where
  "on_io m fs = (case m (fs_io fs) of (r, ch) \<Rightarrow> (r, fs\<lparr>fs_io := ch\<rparr>))"

definition malloc_block :: "(cmfs_filesys, unit) io" where
  "malloc_block = on_io cmfs_malloc_block"

definition cmfs_read_blocks_cached :: "u64 \<Rightarrow> int \<Rightarrow> bool \<Rightarrow> (cmfs_filesys, bytes) io" where
  "cmfs_read_blocks_cached blkno count nocache =
     (if nocache then on_io (io_read_block_nocache blkno count) else on_io (io_read_block blkno count))"

definition cmfs_read_blocks :: "u64 \<Rightarrow> int \<Rightarrow> (cmfs_filesys, bytes) io" where
  "cmfs_read_blocks blkno count = cmfs_read_blocks_cached blkno count False"

text \<open>\<open>memcmp\<close> of the start of a buffer with a signature.\<close>

definition has_signature :: "bytes \<Rightarrow> bytes \<Rightarrow> bool" where
  "has_signature sig buf \<longleftrightarrow> take (length sig) buf = sig"

definition blkno_ok :: "cmfs_filesys \<Rightarrow> u64 \<Rightarrow> bool" where
  "blkno_ok fs blkno \<longleftrightarrow> \<not> (blkno < CMFS_SUPER_BLOCK_BLKNO \<or> blkno > fs_blocks fs)"

section \<open>Inodes\<close>

definition cmfs_read_inode :: "u64 \<Rightarrow> (cmfs_filesys, bytes) io" where
  "cmfs_read_inode blkno fs =
     (if \<not> blkno_ok fs blkno then (Inl CMFS_ET_BAD_BLKNO, fs)
      else bind_io malloc_block (\<lambda>_.
           bind_io (cmfs_read_blocks blkno 1) (\<lambda>blk.
           bind_io (guard_io (has_signature CMFS_INODE_SIGNATURE blk) CMFS_ET_BAD_INODE_MAGIC) (\<lambda>_.
           get_io (\<lambda>fs. cmfs_swap_inode_to_cpu (cpu_le fs) (bsize fs) (take (bsize fs) blk))))) fs)"

definition cmfs_write_inode :: "u64 \<Rightarrow> bytes \<Rightarrow> (cmfs_filesys, unit) io" where
  "cmfs_write_inode blkno inode_buf fs =
     (if fs_flags fs AND CMFS_FLAG_RW = 0 then (Inl CMFS_ET_RO_FILESYS, fs)
      else if \<not> blkno_ok fs blkno then (Inl CMFS_ET_BAD_BLKNO, fs)
      else bind_io malloc_block (\<lambda>_.
           bind_io (get_io (\<lambda>fs. cmfs_swap_inode_from_cpu (cpu_le fs) (bsize fs)
                                   (take (bsize fs) inode_buf))) (\<lambda>blk.
           bind_io (on_io (io_write_block blkno 1 blk)) (\<lambda>_.
           upd_io (\<lambda>fs. fs\<lparr>fs_flags := fs_flags fs OR CMFS_FLAG_CHANGED\<rparr>)))) fs)"

definition cmfs_check_directory :: "u64 \<Rightarrow> (cmfs_filesys, unit) io" where
  "cmfs_check_directory dir fs =
     (if \<not> blkno_ok fs dir then (Inl CMFS_ET_BAD_BLKNO, fs)
      else bind_io malloc_block (\<lambda>_.
           bind_io (cmfs_read_inode dir) (\<lambda>buf.
           guard_io (S_ISDIR (ld16 (cpu_le fs) buf o_i_mode)) CMFS_ET_NO_DIRECTORY)) fs)"

definition cmfs_read_cached_inode :: "u64 \<Rightarrow> (cmfs_filesys, cmfs_cached_inode) io" where
  "cmfs_read_cached_inode blkno fs =
     (if \<not> blkno_ok fs blkno then (Inl CMFS_ET_BAD_BLKNO, fs)
      else bind_io malloc_block (\<lambda>_.
           bind_io malloc_block (\<lambda>_.
           bind_io (cmfs_read_inode blkno) (\<lambda>blk.
           ret_io \<lparr> ci_blkno = blkno, ci_inode = blk \<rparr>))) fs)"

section \<open>Extent blocks\<close>

definition cmfs_read_extent_block_nocheck :: "u64 \<Rightarrow> (cmfs_filesys, bytes) io" where
  "cmfs_read_extent_block_nocheck blkno fs =
     (if \<not> blkno_ok fs blkno then (Inl CMFS_ET_BAD_BLKNO, fs)
      else bind_io malloc_block (\<lambda>_.
           bind_io (cmfs_read_blocks blkno 1) (\<lambda>blk.
           bind_io (guard_io (has_signature CMFS_EXTENT_BLOCK_SIGNATURE blk)
                      CMFS_ET_BAD_EXTENT_BLOCK_MAGIC) (\<lambda>_.
           get_io (\<lambda>fs. cmfs_swap_extent_block_to_cpu (cpu_le fs) (bsize fs) (take (bsize fs) blk))))) fs)"

definition cmfs_read_extent_block :: "u64 \<Rightarrow> (cmfs_filesys, bytes) io" where
  "cmfs_read_extent_block blkno =
     bind_io (cmfs_read_extent_block_nocheck blkno) (\<lambda>eb.
     bind_io (get_io (\<lambda>fs. extent_list_of (cpu_le fs) eb o_h_list)) (\<lambda>el.
     bind_io (guard_io (\<not> l_next_free_rec el > l_count el) CMFS_ET_CORRUPT_EXTENT_BLOCK) (\<lambda>_.
     ret_io eb)))"

definition cmfs_write_extent_block :: "u64 \<Rightarrow> bytes \<Rightarrow> (cmfs_filesys, unit) io" where
  "cmfs_write_extent_block blkno eb_buf fs =
     (if fs_flags fs AND CMFS_FLAG_RW = 0 then (Inl CMFS_ET_RO_FILESYS, fs)
      else if \<not> blkno_ok fs blkno then (Inl CMFS_ET_BAD_BLKNO, fs)
      else bind_io malloc_block (\<lambda>_.
           bind_io (get_io (\<lambda>fs. cmfs_swap_extent_block_from_cpu (cpu_le fs) (bsize fs)
                                   (take (bsize fs) eb_buf))) (\<lambda>blk.
           bind_io (on_io (io_write_block blkno 1 blk)) (\<lambda>_.
           upd_io (\<lambda>fs. fs\<lparr>fs_flags := fs_flags fs OR CMFS_FLAG_CHANGED\<rparr>)))) fs)"

section \<open>Group descriptors\<close>

text \<open>
  The test calls \<^verbatim>\<open>memcpy\<close>, whose result is the address of the block and never null,
  after it has overwritten the block's signature.
\<close>

definition cmfs_read_group_desc :: "u64 \<Rightarrow> (cmfs_filesys, bytes) io" where
  "cmfs_read_group_desc blkno fs =
     (if \<not> blkno_ok fs blkno then (Inl CMFS_ET_BAD_BLKNO, fs)
      else bind_io malloc_block (\<lambda>_.
           bind_io (cmfs_read_blocks blkno 1) (\<lambda>blk.
           let blk = put o_bg_signature CMFS_GROUP_DESC_SIGNATURE blk; memcpy_result_null = False in
           bind_io (guard_io memcpy_result_null CMFS_ET_BAD_GROUP_DESC_MAGIC) (\<lambda>_.
           get_io (\<lambda>fs. cmfs_swap_group_desc_to_cpu (cpu_le fs) (take (bsize fs) blk))))) fs)"

section \<open>Directory blocks\<close>

definition cmfs_dir_trailer_blk_off :: "cmfs_filesys \<Rightarrow> nat" where
  "cmfs_dir_trailer_blk_off fs = bsize fs - c_sizeof dir_trailer_fields"

definition cmfs_supports_dir_trailer :: "cmfs_filesys \<Rightarrow> bool" where
  "cmfs_supports_dir_trailer fs \<longleftrightarrow>
     cmfs_meta_ecc (CMFS_RAW_SB fs) \<or> cmfs_supports_indexed_dirs (CMFS_RAW_SB fs)"

definition cmfs_init_dir_trailer :: "cmfs_filesys \<Rightarrow> u64 \<Rightarrow> u64 \<Rightarrow> bytes \<Rightarrow> bytes" where
  "cmfs_init_dir_trailer fs dir_blkno blkno buf =
     (let le = cpu_le fs;
          t = cmfs_dir_trailer_blk_off fs;
          buf = put t (replicate (c_sizeof dir_trailer_fields) 0) buf;
          buf = put (t + o_db_signature) CMFS_DIR_TRAILER_SIGNATURE buf;
          buf = st16 le (t + o_db_compat_rec_len) (of_nat (c_sizeof dir_trailer_fields)) buf;
          buf = st64 le (t + o_db_blkno) blkno buf
      in st64 le (t + o_db_parent_dinode) dir_blkno buf)"

text \<open>A conversion of a buffer inside an operation on the file system.\<close>

definition on_buf :: "(bytes, unit) io \<Rightarrow> bytes \<Rightarrow> ('s, bytes) io" where
  "on_buf m buf s = (case m buf of (Inl e, b) \<Rightarrow> (Inl e, s) | (Inr _, b) \<Rightarrow> (Inr b, s))"

definition cmfs_read_dir_block :: "u64 \<Rightarrow> (cmfs_filesys, bytes) io" where
  "cmfs_read_dir_block block =
     bind_io (cmfs_read_blocks block 1) (\<lambda>buf fs.
       on_buf (cmfs_swap_dir_entries_to_cpu (cpu_le fs) 0 (bsize fs)) buf fs)"

definition cmfs_write_dir_block :: "u64 \<Rightarrow> bytes \<Rightarrow> (cmfs_filesys, unit) io" where
  "cmfs_write_dir_block block inbuf =
     bind_io malloc_block (\<lambda>_.
     bind_io (\<lambda>fs. on_buf (cmfs_swap_dir_entries_from_cpu (cpu_le fs) 0 (bsize fs))
                     (take (bsize fs) inbuf) fs) (\<lambda>buf.
     on_io (io_write_block block 1 buf)))"

section \<open>Opening and closing\<close>

text \<open>\<open>cmfs_validate_meta_ecc\<close> is not implemented and accepts every block.\<close>

definition cmfs_validate_meta_ecc :: "bytes \<Rightarrow> (cmfs_filesys, unit) io" where
  "cmfs_validate_meta_ecc data = ret_io ()"

text \<open>
  The block of the superblock, converted. Without a buffer of the caller it becomes
  the file system's superblock.
\<close>

definition cmfs_read_super :: "u64 \<Rightarrow> bool \<Rightarrow> (cmfs_filesys, bytes) io" where
  "cmfs_read_super superblock has_sb fs =
     (let blocksize = io_get_blksize (fs_io fs) in
      bind_io malloc_block (\<lambda>_.
      bind_io (cmfs_read_blocks superblock 1) (\<lambda>blk.
      bind_io (guard_io (has_signature CMFS_SUPER_BLOCK_SIGNATURE blk) CMFS_ET_BAD_MAGIC) (\<lambda>_.
      bind_io malloc_block (\<lambda>_.
      bind_io (get_io (\<lambda>fs. (fs_super fs, fs_blocksize fs))) (\<lambda>(orig_super, orig_blocksize).
      bind_io (upd_io (\<lambda>fs. fs\<lparr>fs_super := cmfs_swap_inode_to_cpu (cpu_le fs) (nat blocksize)
                                              (take (nat blocksize) blk),
                                fs_blocksize := word_of_int blocksize\<rparr>)) (\<lambda>_.
      bind_io (cmfs_validate_meta_ecc blk) (\<lambda>_.
      bind_io (upd_io (\<lambda>fs. fs\<lparr>fs_super := orig_super, fs_blocksize := orig_blocksize\<rparr>)) (\<lambda>_.
      bind_io (get_io (\<lambda>fs. cmfs_swap_inode_to_cpu (cpu_le fs) (bsize fs) blk)) (\<lambda>di.
      if \<not> has_sb then bind_io (upd_io (\<lambda>fs. fs\<lparr>fs_super := di\<rparr>)) (\<lambda>_. ret_io di)
      else get_io (\<lambda>fs. take (bsize fs) di)))))))))) fs)"

text \<open>
  \<open>io_open\<close> on a device: \<open>open64\<close> gives the errno of \<^verbatim>\<open>open64\<close>, if it fails. The trial
  read that validates direct I/O doubles the block size up to the maximum; from a
  non-positive size the loop would not end.
\<close>

function io_validate_o_direct :: "int \<Rightarrow> errcode \<Rightarrow> (io_channel, unit) io" where
  "io_validate_o_direct block_size ret ch =
     (if block_size \<le> 0 then (Inl C_UNDEFINED, ch)
      else if block_size \<le> CMFS_MAX_BLOCKSIZE then
        (let ch = snd (io_set_blksize block_size ch) in
         case cmfs_malloc_block ch of
           (Inl e, ch) \<Rightarrow> (Inl e, ch)
         | (Inr _, ch) \<Rightarrow>
             (case unix_io_read_block 0 1 ch of
                (Inr _, ch) \<Rightarrow> (Inr (), ch)
              | (Inl e, ch) \<Rightarrow> io_validate_o_direct (block_size * 2) e ch))
      else (Inl ret, ch))"
  by pat_completeness auto
termination
  by (relation "measure (\<lambda>(bs, e, ch). nat (4097 - bs))") auto

declare io_validate_o_direct.simps [simp del]

definition io_open :: "string \<Rightarrow> u32 \<Rightarrow> nat option \<Rightarrow> (io_channel, unit) io" where
  "io_open name flags open64 =
     bind_io (guard_io (name \<noteq> []) CMFS_ET_BAD_DEVICE_NAME) (\<lambda>_.
     bind_io (take_allocs 2) (\<lambda>_.
     bind_io (upd_io (\<lambda>ch. ch\<lparr>io_blksize := CMFS_MIN_BLOCKSIZE, io_nocache := False, io_error := 0,
                              io_cache := None, io_bytes_read := 0, io_bytes_written := 0\<rparr>)) (\<lambda>_.
     bind_io (case open64 of
                None \<Rightarrow> ret_io ()
              | Some errno \<Rightarrow> err_io (if errno = 2 then CMFS_ET_NAMED_DEVICE_NOT_FOUND else CMFS_ET_IO)) (\<lambda>_.
     if flags AND CMFS_FLAG_BUFFERED = 0
     then (\<lambda>ch. io_validate_o_direct (io_get_blksize ch) CMFS_ET_UNEXPECTED_BLOCK_SIZE ch)
     else ret_io ()))))"

definition hex_digit :: "nat \<Rightarrow> char" where
  "hex_digit n = ''0123456789ABCDEF'' ! n"

text \<open>\<^verbatim>\<open>%02X\<close> of every byte.\<close>

definition uuid_text :: "bytes \<Rightarrow> string" where
  "uuid_text u = concat (map (\<lambda>b. [hex_digit (unat b div 16), hex_digit (unat b mod 16)]) u)"

text \<open>
  \<open>cmfs_open\<close> on a device with the channel state \<open>ch\<close>: it returns the file system with
  its channel. \<open>readonly\<close> is the answer of the \<^verbatim>\<open>BLKROGET\<close> ioctl, \<open>le\<close> the CPU.
\<close>

definition open_check :: "u64 \<Rightarrow> (cmfs_filesys, unit) io" where
  "open_check superblock fs =
     (let sb = CMFS_RAW_SB fs in
      if s_blocksize_bits sb = 0 then (Inl CMFS_ET_CORRUPT_SUPERBLOCK, fs)
      else if i_blkno (dinode_of (cpu_le fs) (fs_super fs) 0) \<noteq> superblock
      then (Inl CMFS_ET_CORRUPT_SUPERBLOCK, fs)
      else if s_clustersize_bits sb < CMFS_MIN_CLUSTERSIZE_BITS
              \<or> s_clustersize_bits sb > CMFS_MAX_CLUSTERSIZE_BITS
      then (Inl CMFS_ET_CORRUPT_SUPERBLOCK, fs)
      else if s_root_blkno sb = 0 \<or> s_system_dir_blkno sb = 0
      then (Inl CMFS_ET_CORRUPT_SUPERBLOCK, fs)
      else if s_blocksize_bits sb \<ge> 32 then (Inl C_UNDEFINED, fs)
      else if (2 :: int) ^ unat (s_blocksize_bits sb) \<noteq> CMFS_MAX_BLOCKSIZE
      then (Inl CMFS_ET_UNEXPECTED_BLOCK_SIZE, fs)
      else (Inr (), fs))"

definition open_fill :: "cmfs_filesys \<Rightarrow> cmfs_filesys" where
  "open_fill fs =
     (let sb = CMFS_RAW_SB fs;
          fs = fs\<lparr>fs_clustersize := push_bit (unat (s_clustersize_bits sb)) 1,
                  fs_root_blkno := s_root_blkno sb, fs_sysdir_blkno := s_system_dir_blkno sb,
                  fs_clusters := i_clusters (dinode_of (cpu_le fs) (fs_super fs) 0)\<rparr>
      in fs\<lparr>fs_blocks := cmfs_clusters_to_blocks fs (fs_clusters fs),
            fs_first_cg_blkno := s_first_cluster_group sb,
            uuid_str := uuid_text (s_uuid sb)\<rparr>)"

definition cmfs_open ::
  "bool \<Rightarrow> string \<Rightarrow> u32 \<Rightarrow> nat option \<Rightarrow> bool \<Rightarrow> u32 \<Rightarrow> u32 \<Rightarrow> (io_channel, cmfs_filesys) io" where
  "cmfs_open le name flags open64 readonly superblock block_size ch =
     (if int (unat block_size) \<noteq> CMFS_MAX_BLOCKSIZE then (Inl CMFS_ET_UNEXPECTED_BLOCK_SIZE, ch)
      else bind_io (take_allocs 1) (\<lambda>_.
           bind_io (io_open name (flags AND (CMFS_FLAG_RO OR CMFS_FLAG_RW OR CMFS_FLAG_BUFFERED)) open64) (\<lambda>_.
           bind_io (take_allocs 1) (\<lambda>_ ch.
             let superblock = (if superblock = 0 then ucast CMFS_SUPER_BLOCK_BLKNO else superblock);
                 fs = \<lparr> fs_devname = name,
                        fs_flags = flags OR (if readonly then CMFS_FLAG_HARD_RO else 0),
                        fs_io = snd (io_set_blksize (int (unat block_size)) ch),
                        fs_super = [], fs_orig_super = None, fs_blocksize = 0, fs_clustersize = 0,
                        fs_clusters = 0, fs_blocks = 0, fs_umask = 18, fs_root_blkno = 0,
                        fs_sysdir_blkno = 0, fs_first_cg_blkno = 0, uuid_str = [], cpu_le = le \<rparr>
             in case bind_io (cmfs_read_super (ucast superblock) False) (\<lambda>_.
                     bind_io (upd_io (\<lambda>fs. fs\<lparr>fs_blocksize := block_size\<rparr>)) (\<lambda>_.
                     bind_io (if ucast superblock = CMFS_SUPER_BLOCK_BLKNO
                              then bind_io malloc_block (\<lambda>_.
                                   upd_io (\<lambda>fs. fs\<lparr>fs_orig_super := Some (fs_super fs)\<rparr>))
                              else ret_io ()) (\<lambda>_.
                     open_check (ucast superblock)))) fs of
                  (Inl e, fs) \<Rightarrow> (Inl e, fs_io fs)
                | (Inr _, fs) \<Rightarrow> (Inr (open_fill fs), fs_io fs)))) ch)"

text \<open>
  \<open>cmfs_flush\<close> is not implemented; \<open>cmfs_close\<close> frees the file system after it and
  gives the channel back to the caller of the model.
\<close>

definition cmfs_flush :: "(cmfs_filesys, unit) io" where
  "cmfs_flush = ret_io ()"

definition cmfs_freefs :: "cmfs_filesys \<Rightarrow> io_channel" where
  "cmfs_freefs fs = io_destroy_cache (fs_io fs)"

definition cmfs_close :: "cmfs_filesys \<Rightarrow> errcode + io_channel" where
  "cmfs_close fs =
     (if fs_flags fs AND CMFS_FLAG_DIRTY \<noteq> 0 then
        (case cmfs_flush fs of (Inl e, fs) \<Rightarrow> Inl e | (Inr _, fs) \<Rightarrow> Inr (cmfs_freefs fs))
      else Inr (cmfs_freefs fs))"

end
