(* ===== verification/Feature.thy ===== *)
theory Feature
  imports Prelude
begin

text \<open>
  The feature flags of \<^verbatim>\<open>libcmfs/feature_string.c\<close>: parsing of the \<^verbatim>\<open>--fs-features\<close>
  string, merging with the defaults, and the printed names. The three flag words are
  ordered by inclusion, with merging as their least upper bound.
\<close>

section \<open>Flag words\<close>

datatype cmfs_fs_options =
  Options (opt_compat: u32) (opt_incompat: u32) (opt_ro_compat: u32)

abbreviation (input) CMFS_FEATURE_COMPAT_BACKUP_SB :: u32 where "CMFS_FEATURE_COMPAT_BACKUP_SB \<equiv> 1"
abbreviation (input) CMFS_FEATURE_COMPAT_HAS_JOURNAL :: u32 where "CMFS_FEATURE_COMPAT_HAS_JOURNAL \<equiv> 2"

fun merge_features :: "cmfs_fs_options \<Rightarrow> cmfs_fs_options \<Rightarrow> cmfs_fs_options" where
  "merge_features (Options a b c) (Options a' b' c') = Options (a OR a') (b OR b') (c OR c')"

fun clear_features :: "cmfs_fs_options \<Rightarrow> cmfs_fs_options \<Rightarrow> cmfs_fs_options" where
  "clear_features (Options a b c) (Options a' b' c') =
     Options (a AND NOT a') (b AND NOT b') (c AND NOT c')"

fun feature_match :: "cmfs_fs_options \<Rightarrow> cmfs_fs_options \<Rightarrow> bool" where
  "feature_match (Options a b c) (Options a' b' c') =
     (a AND a' \<noteq> 0 \<or> b AND b' \<noteq> 0 \<or> c AND c' \<noteq> 0)"

instantiation cmfs_fs_options :: bounded_semilattice_sup_bot
begin

definition sup_cmfs_fs_options :: "cmfs_fs_options \<Rightarrow> cmfs_fs_options \<Rightarrow> cmfs_fs_options" where
  "sup_cmfs_fs_options = merge_features"

definition less_eq_cmfs_fs_options :: "cmfs_fs_options \<Rightarrow> cmfs_fs_options \<Rightarrow> bool" where
  "less_eq_cmfs_fs_options x y = (merge_features x y = y)"

definition less_cmfs_fs_options :: "cmfs_fs_options \<Rightarrow> cmfs_fs_options \<Rightarrow> bool" where
  "less_cmfs_fs_options x y = (merge_features x y = y \<and> x \<noteq> y)"

definition bot_cmfs_fs_options :: cmfs_fs_options where
  "bot_cmfs_fs_options = Options 0 0 0"

instance
proof
  fix x y z :: cmfs_fs_options
  show "(x < y) = (x \<le> y \<and> \<not> y \<le> x)"
    by (cases x; cases y)
      (auto simp: less_cmfs_fs_options_def less_eq_cmfs_fs_options_def or.commute)
  show "x \<le> x" by (cases x) (simp add: less_eq_cmfs_fs_options_def)
  show "x \<le> y \<Longrightarrow> y \<le> z \<Longrightarrow> x \<le> z"
    by (cases x; cases y; cases z) (auto simp: less_eq_cmfs_fs_options_def; metis or.assoc)
  show "x \<le> y \<Longrightarrow> y \<le> x \<Longrightarrow> x = y"
    by (cases x; cases y) (auto simp: less_eq_cmfs_fs_options_def or.commute)
  show "x \<le> sup x y" "y \<le> sup x y"
    by (cases x; cases y; simp add: less_eq_cmfs_fs_options_def sup_cmfs_fs_options_def or.left_commute)+
  show "y \<le> x \<Longrightarrow> z \<le> x \<Longrightarrow> sup y z \<le> x"
    by (cases x; cases y; cases z)
      (simp add: less_eq_cmfs_fs_options_def sup_cmfs_fs_options_def or.assoc)
  show "bot \<le> x"
    by (cases x) (simp add: less_eq_cmfs_fs_options_def bot_cmfs_fs_options_def)
qed

end

definition mkfs_features_default :: cmfs_fs_options where
  "mkfs_features_default =
     Options (CMFS_FEATURE_COMPAT_BACKUP_SB OR CMFS_FEATURE_COMPAT_HAS_JOURNAL) 0 0"

record fs_feature_flags =
  ff_str :: string
  ff_own_flags :: cmfs_fs_options
  ff_flags :: cmfs_fs_options

definition cmfs_supported_features :: "fs_feature_flags list" where
  "cmfs_supported_features =
     [\<lparr> ff_str = ''backup-super'',
        ff_own_flags = Options CMFS_FEATURE_COMPAT_BACKUP_SB 0 0,
        ff_flags = Options CMFS_FEATURE_COMPAT_BACKUP_SB 0 0 \<rparr>,
      \<lparr> ff_str = ''journal'',
        ff_own_flags = Options CMFS_FEATURE_COMPAT_HAS_JOURNAL 0 0,
        ff_flags = Options CMFS_FEATURE_COMPAT_HAS_JOURNAL 0 0 \<rparr>]"

text \<open>The entry that ends the table; the search leaves its index there on a miss.\<close>

definition features_end :: fs_feature_flags where
  "features_end = \<lparr> ff_str = [], ff_own_flags = Options 0 0 0, ff_flags = Options 0 0 0 \<rparr>"

section \<open>Parsing\<close>

definition cmfs_feature_clear_deps :: "cmfs_fs_options \<Rightarrow> cmfs_fs_options" where
  "cmfs_feature_clear_deps reverse_set =
     fold (\<lambda>f s. if feature_match s (ff_flags f) then merge_features s (ff_own_flags f) else s)
       cmfs_supported_features reverse_set"

definition check_feature_flags :: "cmfs_fs_options \<Rightarrow> cmfs_fs_options \<Rightarrow> bool" where
  "check_feature_flags fs_flags fs_r_flags =
     (if opt_compat fs_r_flags \<noteq> 0 \<and> opt_compat fs_flags AND opt_compat fs_r_flags \<noteq> 0 then False
      else if opt_incompat fs_r_flags \<noteq> 0 \<and> opt_incompat fs_flags AND opt_incompat fs_r_flags \<noteq> 0
      then False
      else if opt_ro_compat fs_r_flags \<noteq> 0 \<and> opt_ro_compat fs_flags AND opt_ro_compat fs_r_flags \<noteq> 0
      then False
      else True)"

text \<open>
  The token loop. The variable \<^verbatim>\<open>match\<close> is set by the first known token and never
  reset; a token that is not in the table leaves the index at the end entry.
\<close>

definition token_of :: "string \<Rightarrow> string" where
  "token_of opts = takeWhile (\<lambda>c. c \<noteq> CHR '','') opts"

definition next_of :: "string \<Rightarrow> string" where
  "next_of opts = tl (dropWhile (\<lambda>c. c \<noteq> CHR '','') opts)"

lemma length_next_of: "opts \<noteq> [] \<Longrightarrow> length (next_of opts) < length opts"
  using length_dropWhile_le [of "\<lambda>c. c \<noteq> CHR '',''" opts]
  by (cases opts) (auto simp: next_of_def)

function parse_tokens ::
  "string \<Rightarrow> bool \<Rightarrow> cmfs_fs_options \<Rightarrow> cmfs_fs_options \<Rightarrow> errcode + cmfs_fs_options \<times> cmfs_fs_options" where
  "parse_tokens opts matched feature_flags reverse_flags =
     (if opts = [] then Inr (feature_flags, reverse_flags)
      else
        let token = token_of opts;
            next = next_of opts;
            reverse = (take 2 token = ''no'');
            token = (if reverse then drop 2 token else token);
            found = find (\<lambda>f. ff_str f = token) cmfs_supported_features;
            matched = (matched \<or> found \<noteq> None);
            entry = (case found of Some f \<Rightarrow> f | None \<Rightarrow> features_end)
        in if \<not> matched then Inl CMFS_ET_UNSUPP_FEATURE
           else if \<not> reverse
           then parse_tokens next matched (merge_features feature_flags (ff_flags entry)) reverse_flags
           else parse_tokens next matched feature_flags (merge_features reverse_flags (ff_own_flags entry)))"
  by pat_completeness auto
termination
  by (relation "measure (\<lambda>(opts, m, f, r). length opts)") (auto simp: length_next_of)

declare parse_tokens.simps [simp del]

definition cmfs_parse_feature :: "string \<Rightarrow> errcode + cmfs_fs_options \<times> cmfs_fs_options" where
  "cmfs_parse_feature opts =
     (case parse_tokens opts False (Options 0 0 0) (Options 0 0 0) of
        Inl e \<Rightarrow> Inl e
      | Inr (feature_flags, reverse_flags) \<Rightarrow>
          let reverse_flags = cmfs_feature_clear_deps reverse_flags
          in if \<not> check_feature_flags feature_flags reverse_flags
             then Inl CMFS_ET_CONFLICTING_FEATURES
             else Inr (feature_flags, reverse_flags))"

definition cmfs_merge_feature_with_default_flags ::
  "cmfs_fs_options \<Rightarrow> cmfs_fs_options \<Rightarrow> errcode + cmfs_fs_options" where
  "cmfs_merge_feature_with_default_flags feature_set reverse_set =
     (let reverse_set = cmfs_feature_clear_deps reverse_set
      in if \<not> check_feature_flags feature_set reverse_set then Inl CMFS_ET_CONFLICTING_FEATURES
         else Inr (clear_features (merge_features mkfs_features_default feature_set) reverse_set))"

section \<open>Printed names\<close>

text \<open>
  \<open>snprintf\<close> into the rest of a buffer: the text that fits and whether it fitted.
  The state is what has been printed and how much room is left.
\<close>

definition emit :: "string \<Rightarrow> string \<times> nat \<Rightarrow> bool \<times> string \<times> nat" where
  "emit s st = (case st of (out, remain) \<Rightarrow>
     if length s \<ge> remain then (False, out @ take (remain - 1) s, remain)
     else (True, out @ s, remain - length s))"

fun print_names :: "string list \<Rightarrow> string \<times> nat \<Rightarrow> bool \<times> string \<times> nat" where
  "print_names [] st = (True, st)"
| "print_names (n # ns) st =
     (case emit ((if fst st = [] then [] else '' '') @ n) st of
        (True, st') \<Rightarrow> print_names ns st'
      | (False, st') \<Rightarrow> (False, st'))"

definition print_flags :: "string list \<Rightarrow> bool \<Rightarrow> nat \<Rightarrow> errcode option \<times> string" where
  "print_flags names unknown n =
     (case print_names names ([], n) of
        (False, out, _) \<Rightarrow> (Some CMFS_ET_NO_SPACE, out)
      | (True, out, remain) \<Rightarrow>
          if \<not> unknown then (None, out)
          else case emit ((if out = [] then [] else '' '') @ ''unknow'') (out, remain) of
                 (fits, out, _) \<Rightarrow> ((if fits then None else Some CMFS_ET_NO_SPACE), out))"

definition cmfs_extent_flag_names :: "(string \<times> u32) list" where
  "cmfs_extent_flag_names = [(''Unwritten'', 1)]"

text \<open>
  \<^verbatim>\<open>!found != flags\<close> compares the negation of \<^verbatim>\<open>found\<close>, which is 0 or 1, with the flags;
  \<open>found\<close> has 16 bits.
\<close>

definition cmfs_snprint_flag_names :: "(string \<times> u32) list \<Rightarrow> nat \<Rightarrow> u32 \<Rightarrow> errcode option \<times> string" where
  "cmfs_snprint_flag_names flag_names n flags =
     (let hits = filter (\<lambda>(name, flag). flags AND flag \<noteq> 0) flag_names;
          found = fold (\<lambda>(name, flag) found. ucast ((ucast (found :: u16) :: u32) OR flag)) hits (0 :: u16);
          not_found = (if found = 0 then 1 else 0 :: u32)
      in print_flags (map fst hits) (not_found \<noteq> flags) n)"

definition cmfs_snprint_extent_flags :: "nat \<Rightarrow> u8 \<Rightarrow> errcode option \<times> string" where
  "cmfs_snprint_extent_flags n flags =
     cmfs_snprint_flag_names cmfs_extent_flag_names n (ucast flags)"

definition cmfs_feature_names :: "(string \<times> cmfs_fs_options) list" where
  "cmfs_feature_names =
     [(''backup-super'', Options CMFS_FEATURE_COMPAT_BACKUP_SB 0 0),
      (''journal'', Options CMFS_FEATURE_COMPAT_HAS_JOURNAL 0 0)]"

definition cmfs_snprint_feature_flags :: "nat \<Rightarrow> cmfs_fs_options \<Rightarrow> errcode option \<times> string" where
  "cmfs_snprint_feature_flags n flags =
     (let hits = filter (\<lambda>(name, flag). feature_match flags flag) cmfs_feature_names;
          found = fold (\<lambda>(name, flag) found. merge_features found flag) hits (Options 0 0 0)
      in print_flags (map fst hits) (found \<noteq> flags) n)"

section \<open>Lemmas\<close>

text \<open>A token of the option string: a feature to set, or to clear.\<close>

definition token_text :: "bool \<times> fs_feature_flags \<Rightarrow> string" where
  "token_text t = (if fst t then ''no'' else []) @ ff_str (snd t)"

fun join_tokens :: "string list \<Rightarrow> string" where
  "join_tokens [] = []"
| "join_tokens [t] = t"
| "join_tokens (t # ts) = t @ CHR '','' # join_tokens ts"

definition sup_of :: "cmfs_fs_options list \<Rightarrow> cmfs_fs_options" where
  "sup_of xs = fold sup xs bot"

definition requested :: "(bool \<times> fs_feature_flags) list \<Rightarrow> cmfs_fs_options" where
  "requested ts = sup_of (map (\<lambda>t. ff_flags (snd t)) (filter (\<lambda>t. \<not> fst t) ts))"

definition cleared :: "(bool \<times> fs_feature_flags) list \<Rightarrow> cmfs_fs_options" where
  "cleared ts = sup_of (map (\<lambda>t. ff_own_flags (snd t)) (filter fst ts))"

lemma sup_of_Cons: "fold sup xs y = sup y (sup_of (xs :: cmfs_fs_options list))"
proof (induction xs arbitrary: y)
  case (Cons x xs)
  from Cons [of "sup x y"] Cons [of x] show ?case by (simp add: sup_of_def sup_assoc sup_commute sup_left_commute)
qed (simp add: sup_of_def)

lemma requested_simps [simp]:
  "requested [] = bot" "cleared [] = bot"
  "requested (t # ts) = (if fst t then requested ts else sup (ff_flags (snd t)) (requested ts))"
  "cleared (t # ts) = (if fst t then sup (ff_own_flags (snd t)) (cleared ts) else cleared ts)"
proof -
  have "sup_of [] = bot" "sup_of (x # xs) = sup x (sup_of xs)" for x xs
    using sup_of_Cons [of xs x] by (simp_all add: sup_of_def)
  then show "requested [] = bot" "cleared [] = bot"
    "requested (t # ts) = (if fst t then requested ts else sup (ff_flags (snd t)) (requested ts))"
    "cleared (t # ts) = (if fst t then sup (ff_own_flags (snd t)) (cleared ts) else cleared ts)"
    by (simp_all add: requested_def cleared_def)
qed

lemma token_shape:
  assumes "snd t \<in> set cmfs_supported_features"
  shows "CHR '','' \<notin> set (token_text t)" and "token_text t \<noteq> []"
    and "(take 2 (token_text t) = ''no'') = fst t"
    and "(if fst t then drop 2 (token_text t) else token_text t) = ff_str (snd t)"
    and "find (\<lambda>f. ff_str f = ff_str (snd t)) cmfs_supported_features = Some (snd t)"
  using assms by (cases t; auto simp: token_text_def cmfs_supported_features_def)+

lemma split_first_token:
  assumes "CHR '','' \<notin> set t"
  shows "token_of (join_tokens (t # ts)) = t" and "next_of (join_tokens (t # ts)) = join_tokens ts"
proof -
  have all: "\<forall>c\<in>set t. c \<noteq> CHR '',''" using assms by auto
  then have d: "dropWhile (\<lambda>c. c \<noteq> CHR '','') t = []"
      "takeWhile (\<lambda>c. c \<noteq> CHR '','') t = t" by simp_all
  show "token_of (join_tokens (t # ts)) = t"
    using all by (cases ts) (simp_all add: token_of_def d)
  show "next_of (join_tokens (t # ts)) = join_tokens ts"
    using all d by (cases ts) (simp_all add: next_of_def del: dropWhile_eq_Nil_conv)
qed

lemma join_not_Nil: "t \<noteq> [] \<Longrightarrow> join_tokens (t # ts) \<noteq> []"
  by (cases ts) auto

lemma parse_step:
  assumes "opts \<noteq> []" and "token_of opts = w" and "next_of opts = rest"
    and "(take 2 w = ''no'') = r"
    and "find (\<lambda>f. ff_str f = (if r then drop 2 w else w)) cmfs_supported_features = Some f"
  shows "parse_tokens opts m F R =
    (if \<not> r then parse_tokens rest True (sup F (ff_flags f)) R
     else parse_tokens rest True F (sup R (ff_own_flags f)))"
  using assms by (cases r) (simp_all add: parse_tokens.simps [of opts] Let_def sup_cmfs_fs_options_def)

lemma parse_tokens_known:
  assumes "\<forall>t\<in>set ts. snd t \<in> set cmfs_supported_features"
  shows "parse_tokens (join_tokens (map token_text ts)) m F R
    = Inr (sup F (requested ts), sup R (cleared ts))"
  using assms
proof (induction ts arbitrary: m F R)
  case Nil
  then show ?case by (simp add: parse_tokens.simps [of "[]"])
next
  case (Cons t ts)
  note sh = token_shape [of t] and sp = split_first_token [of "token_text t" "map token_text ts"]
  have t: "snd t \<in> set cmfs_supported_features" using Cons.prems by simp
  have ne: "join_tokens (token_text t # map token_text ts) \<noteq> []"
    using sh(2) [OF t] by (rule join_not_Nil)
  have "parse_tokens (join_tokens (map token_text (t # ts))) m F R =
      (if \<not> fst t then parse_tokens (join_tokens (map token_text ts)) True (sup F (ff_flags (snd t))) R
       else parse_tokens (join_tokens (map token_text ts)) True F (sup R (ff_own_flags (snd t))))"
    unfolding list.map using ne sp [OF sh(1) [OF t]] sh(3) [OF t]
    by (rule parse_step) (use sh(4,5) [OF t] in simp)
  then show ?case using Cons.IH Cons.prems
    by (simp add: sup_assoc)
qed

lemma check_not_match: "check_feature_flags F R = (\<not> feature_match F R)"
  by (cases F; cases R) (auto simp: check_feature_flags_def)

lemma or_bit_id: "n < 32 \<Longrightarrow> x AND 2 ^ n \<noteq> 0 \<Longrightarrow> x OR 2 ^ n = (x :: u32)"
  using and_power_iff_bit [of n x]
  by (intro bit_eqI) (auto simp: bit_simps and.commute)

lemma clear_deps_id: "cmfs_feature_clear_deps R = R"
proof -
  have "x AND 1 \<noteq> 0 \<Longrightarrow> x OR 1 = x" "x AND 2 \<noteq> 0 \<Longrightarrow> x OR 2 = x" for x :: u32
    using or_bit_id [of 0 x] or_bit_id [of 1 x] by simp_all
  then show ?thesis
    by (cases R) (auto simp: cmfs_feature_clear_deps_def cmfs_supported_features_def)
qed

lemma merge_clear_le:
  assumes "\<not> feature_match F R"
  shows "F \<le> clear_features (merge_features D F) R"
    and "\<not> feature_match (clear_features (merge_features D F) R) R"
  using assms
  by (cases F; cases R; cases D;
      auto simp: less_eq_cmfs_fs_options_def bit_eq_iff bit_simps; blast)+

section \<open>Properties\<close>

text \<open>
  C27. Parsing a comma-separated list of feature names, each with or without the
  prefix \<^verbatim>\<open>no\<close>, yields the union of the flags to set and the union of the flags to
  clear, or the conflict error exactly when the two unions share a flag.
\<close>

theorem parse_feature_list:
  assumes "\<forall>t\<in>set ts. snd t \<in> set cmfs_supported_features"
  shows "cmfs_parse_feature (join_tokens (map token_text ts)) =
    (if feature_match (requested ts) (cleared ts) then Inl CMFS_ET_CONFLICTING_FEATURES
     else Inr (requested ts, cleared ts))"
proof -
  have "Options 0 0 0 = bot" by (simp add: bot_cmfs_fs_options_def)
  then show ?thesis
    by (simp add: cmfs_parse_feature_def parse_tokens_known [OF assms] Let_def clear_deps_id check_not_match)
qed

theorem parse_feature_list_witness:
  "cmfs_parse_feature ''journal,nobackup-super'' = Inr (Options 2 0 0, Options 1 0 0)
   \<and> cmfs_parse_feature ''journal,nojournal'' = Inl CMFS_ET_CONFLICTING_FEATURES"
proof -
  let ?b = "cmfs_supported_features ! 0" and ?j = "cmfs_supported_features ! 1"
  have a: "\<forall>t\<in>set [(False, ?j), (True, ?b)]. snd t \<in> set cmfs_supported_features"
    and b: "\<forall>t\<in>set [(False, ?j), (True, ?j)]. snd t \<in> set cmfs_supported_features"
    by (simp_all add: cmfs_supported_features_def)
  show ?thesis
    using parse_feature_list [OF a] parse_feature_list [OF b]
    by (simp add: token_text_def cmfs_supported_features_def
        sup_cmfs_fs_options_def bot_cmfs_fs_options_def)
qed

text \<open>
  Merging with the defaults succeeds exactly when no flag is both set and
  cleared; the result then has every flag that was asked for, none that was cleared,
  and the default flags otherwise.
\<close>

theorem merge_feature_defaults:
  "(case cmfs_merge_feature_with_default_flags F R of
      Inl e \<Rightarrow> e = CMFS_ET_CONFLICTING_FEATURES \<and> feature_match F R
    | Inr d \<Rightarrow> \<not> feature_match F R \<and> F \<le> d \<and> \<not> feature_match d R
        \<and> d = clear_features (sup mkfs_features_default F) R)"
  using merge_clear_le [of F R mkfs_features_default]
  by (simp add: cmfs_merge_feature_with_default_flags_def Let_def clear_deps_id check_not_match
      sup_cmfs_fs_options_def)

text \<open>
  Once one known feature has been parsed, a name that is in no table is accepted
  without any effect instead of being reported: \<^verbatim>\<open>match\<close> keeps its value from the
  previous token.
\<close>

theorem parse_unknown_after_known:
  assumes "t \<noteq> []" and "CHR '','' \<notin> set t"
    and "\<forall>f\<in>set cmfs_supported_features. ff_str f \<noteq> (if take 2 t = ''no'' then drop 2 t else t)"
  shows "cmfs_parse_feature (''journal,'' @ t) = cmfs_parse_feature ''journal''
    \<and> cmfs_parse_feature t = Inl CMFS_ET_UNSUPP_FEATURE"
proof -
  have all: "\<forall>c\<in>set t. c \<noteq> CHR '',''" using assms(2) by auto
  have nf: "find (\<lambda>f. ff_str f = (if take 2 t = ''no'' then drop 2 t else t)) cmfs_supported_features = None"
    using assms(3) by (auto simp: find_None_iff)
  have tw: "token_of t = t" "next_of t = []"
    using split_first_token [OF assms(2), of "[]"] by simp_all
  have merge0: "merge_features x (Options 0 0 0) = x" for x by (cases x) simp
  have skip: "parse_tokens t True F R = Inr (F, R)" for F R
    using assms(1) nf tw
    by (cases "take 2 t = ''no''")
      (simp_all add: parse_tokens.simps [of t] Let_def features_end_def merge0 parse_tokens.simps [of "[]"])
  have "parse_tokens (''journal,'' @ t) False F R = parse_tokens t True (sup F (Options 2 0 0)) R" for F R
    using parse_step [of "''journal,'' @ t" "''journal''" t False "cmfs_supported_features ! 1" False F R]
    by (simp add: token_of_def next_of_def cmfs_supported_features_def)
  moreover have "parse_tokens ''journal'' False F R = parse_tokens [] True (sup F (Options 2 0 0)) R" for F R
    using parse_step [of "''journal''" "''journal''" "[]" False "cmfs_supported_features ! 1" False F R]
    by (simp add: token_of_def next_of_def cmfs_supported_features_def)
  moreover have "parse_tokens t False F R = Inl CMFS_ET_UNSUPP_FEATURE" for F R
    using assms(1) nf tw by (cases "take 2 t = ''no''") (simp_all add: parse_tokens.simps [of t] Let_def)
  ultimately show ?thesis
    by (simp add: cmfs_parse_feature_def skip parse_tokens.simps [of "[]"])
qed

theorem parse_unknown_after_known_witness:
  "cmfs_parse_feature ''journal,bogus'' = cmfs_parse_feature ''journal''
   \<and> cmfs_parse_feature ''bogus'' = Inl CMFS_ET_UNSUPP_FEATURE"
  using parse_unknown_after_known [of "''bogus''"] by (simp add: cmfs_supported_features_def)

text \<open>
  The printed flags of an extent always end in \<^verbatim>\<open>unknow\<close> when the buffer is large
  enough, even for no flags and for the one known flag.
\<close>

theorem extent_flags_always_unknown:
  assumes "17 \<le> n"
  shows "cmfs_snprint_extent_flags n flags =
    (None, if flags AND 1 \<noteq> 0 then ''Unwritten unknow'' else ''unknow'')"
proof -
  have b: "flags AND 1 \<noteq> 0 \<longleftrightarrow> bit (ucast flags :: u32) 0"
    unfolding and_one_iff_bit by (simp add: bit_ucast_iff)
  have c: "(ucast flags :: u32) AND 1 \<noteq> 0 \<longleftrightarrow> bit (ucast flags :: u32) 0" by (rule and_one_iff_bit)
  show ?thesis
  proof (cases "bit (ucast flags :: u32) 0")
    case True
    then have "(ucast flags :: u32) \<noteq> 0" by auto
    then show ?thesis using assms True b c
      by (auto simp: cmfs_snprint_extent_flags_def cmfs_snprint_flag_names_def cmfs_extent_flag_names_def
          print_flags_def emit_def Let_def)
  next
    case False
    then have "(ucast flags :: u32) \<noteq> 1" by auto
    then show ?thesis using assms False b c
      by (auto simp: cmfs_snprint_extent_flags_def cmfs_snprint_flag_names_def cmfs_extent_flag_names_def
          print_flags_def emit_def Let_def)
  qed
qed

theorem extent_flags_always_unknown_witness:
  "cmfs_snprint_extent_flags 32 1 = (None, ''Unwritten unknow'')"
  using extent_flags_always_unknown [of 32 1] by simp

end
