(* ===== verification/Device.thy ===== *)
theory Device
  imports Unix_io
begin

text \<open>
  The queries on a device file: its sector size (\<^verbatim>\<open>getsectsize.c\<close>), its size in blocks
  (\<^verbatim>\<open>getsize.c\<close>) and whether it is mounted or in use (\<^verbatim>\<open>ismounted.c\<close>). What the system
  calls answer for the device file is the record \<open>device_env\<close>; \<open>Inl\<close> carries an errno value.
\<close>

section \<open>The environment\<close>

record file_stat =
  st_blk :: bool
  st_dev :: u64
  st_ino :: u64

record mntent =
  mnt_fsname :: string
  mnt_dir :: string
  mnt_ro :: bool

text \<open>
  \<open>de_swaps\<close> are the pieces that \<^verbatim>\<open>fgets\<close> returns for \<^verbatim>\<open>/proc/swaps\<close>, \<open>None\<close> if it cannot be
  opened; \<open>mnt_ro\<close> is what \<^verbatim>\<open>hasmntopt\<close> answers for the option \<^verbatim>\<open>ro\<close>.
\<close>

record device_env =
  de_open_rdonly :: "nat + unit"
  de_open_excl :: "nat + unit"
  de_blksszget :: "u32 option"
  de_release :: "string option"
  de_blkgetsize64 :: "u64 option"
  de_blkgetsize :: "u64 option"
  de_mounts :: "nat + mntent list"
  de_stat :: "string \<Rightarrow> nat + file_stat"
  de_swaps :: "string list option"

section \<open>Sizes\<close>

definition cmfs_get_device_sectsize :: "device_env \<Rightarrow> errcode + u32" where
  "cmfs_get_device_sectsize env =
     (case de_open_rdonly env of
        Inl e \<Rightarrow> Inl (if e = 2 then CMFS_ET_NAMED_DEVICE_NOT_FOUND else CMFS_ET_IO)
      | Inr _ \<Rightarrow>
          (case de_blksszget env of
             None \<Rightarrow> Inl CMFS_ET_CANNOT_DETERMINE_SECTOR_SIZE
           | Some sectsize \<Rightarrow> Inr sectsize))"

text \<open>
  A signed block size is extended to 64 bits for the division. Without either
  \<^verbatim>\<open>ioctl\<close> the process ends.
\<close>

definition cmfs_get_device_size :: "device_env \<Rightarrow> u32 \<Rightarrow> errcode + u64" where
  "cmfs_get_device_size env blocksize =
     (case de_open_rdonly env of
        Inl e \<Rightarrow> Inl (ERRNO e)
      | Inr _ \<Rightarrow>
          let valid_blkgetsize64 =
                (case de_release env of Some r \<Rightarrow> take 4 r \<noteq> ''2.6.'' | None \<Rightarrow> True)
          in case (if valid_blkgetsize64 then de_blkgetsize64 env else None) of
               Some size64 \<Rightarrow>
                 if blocksize = 0 then Inl C_UNDEFINED else Inr (size64 div scast blocksize)
             | None \<Rightarrow>
                 (case de_blkgetsize env of
                    Some sz \<Rightarrow>
                      let d = sint blocksize in
                      if \<bar>d\<bar> < 512 then Inl C_UNDEFINED
                      else Inr (sz div word_of_int (sgn d * (\<bar>d\<bar> div 512)))
                  | None \<Rightarrow> Inl EXIT))"

section \<open>Mounts\<close>

abbreviation (input) CMFS_MF_MOUNTED :: u32 where "CMFS_MF_MOUNTED \<equiv> 0x01"
abbreviation (input) CMFS_MF_ISROOT :: u32 where "CMFS_MF_ISROOT \<equiv> 0x02"
abbreviation (input) CMFS_MF_READONLY :: u32 where "CMFS_MF_READONLY \<equiv> 0x04"
abbreviation (input) CMFS_MF_SWAP :: u32 where "CMFS_MF_SWAP \<equiv> 0x08"
abbreviation (input) CMFS_MF_BUSY :: u32 where "CMFS_MF_BUSY \<equiv> 0x10"

definition mntent_matches :: "device_env \<Rightarrow> string \<Rightarrow> u64 \<Rightarrow> u64 \<Rightarrow> mntent \<Rightarrow> bool" where
  "mntent_matches env file file_dev file_ino mnt =
     (if file = mnt_fsname mnt then True
      else if file_dev = 0 \<or> file_ino = 0 then False
      else case de_stat env (mnt_fsname mnt) of
        Inl _ \<Rightarrow> False
      | Inr sb \<Rightarrow> st_blk sb \<and> file_dev = st_dev sb \<and> file_ino = st_ino sb)"

text \<open>The result code (0 or an errno value) and the flags.\<close>

definition check_mntent_file :: "device_env \<Rightarrow> string \<Rightarrow> nat \<times> u32" where
  "check_mntent_file env file =
     (case de_mounts env of
        Inl e \<Rightarrow> (e, 0)
      | Inr mnts \<Rightarrow>
          (case de_stat env file of
             Inl e \<Rightarrow> (e, 0)
           | Inr sb \<Rightarrow>
               let file_dev = (if st_blk sb then st_dev sb else 0);
                   file_ino = (if st_blk sb then st_ino sb else 0)
               in case find (mntent_matches env file file_dev file_ino) mnts of
                    None \<Rightarrow> (2, 0)
                  | Some mnt \<Rightarrow>
                      (0, CMFS_MF_MOUNTED OR (if mnt_ro mnt then CMFS_MF_READONLY else 0)
                          OR (if mnt_dir mnt = ''/'' then CMFS_MF_ISROOT else 0))))"

definition is_swap_device :: "device_env \<Rightarrow> string \<Rightarrow> bool" where
  "is_swap_device env file =
     (case de_swaps env of
        None \<Rightarrow> False
      | Some bufs \<Rightarrow>
          list_ex (\<lambda>buf. takeWhile (\<lambda>c. c \<noteq> CHR 0x09) (takeWhile (\<lambda>c. c \<noteq> CHR '' '') buf) = file)
            (tl bufs))"

definition check_mntent :: "device_env \<Rightarrow> string \<Rightarrow> nat \<times> u32" where
  "check_mntent env file =
     (case check_mntent_file env file of (retval, flags) \<Rightarrow> (0, if retval \<noteq> 0 then 0 else flags))"

definition cmfs_check_mount_point :: "device_env \<Rightarrow> string \<Rightarrow> errcode + u32" where
  "cmfs_check_mount_point env device =
     (let (retval, flags) = (if is_swap_device env device then (0, CMFS_MF_MOUNTED OR CMFS_MF_SWAP)
                             else check_mntent env device)
      in if retval \<noteq> 0 then Inl (ERRNO retval)
         else case de_stat env device of
           Inl _ \<Rightarrow> Inr flags
         | Inr sb \<Rightarrow>
             if \<not> st_blk sb then Inr flags
             else case de_open_excl env of
               Inl e \<Rightarrow> Inr (if e = 16 then flags OR CMFS_MF_BUSY else flags)
             | Inr _ \<Rightarrow> Inr flags)"

definition cmfs_check_if_mounted :: "device_env \<Rightarrow> string \<Rightarrow> errcode + u32" where
  "cmfs_check_if_mounted env file = cmfs_check_mount_point env file"

end
