(* ===== verification/Clib.thy ===== *)
theory Clib
  imports Prelude
begin

text \<open>
  Functions of the C library on text that the tools use: the conversion of numbers, as
  \<^verbatim>\<open>strtoul\<close> and \<^verbatim>\<open>strtoull\<close> do it with base 0 on a machine with 64-bit longs, and the
  text of a C string in a buffer.
\<close>

text \<open>
  \<^verbatim>\<open>strtoul\<close> of the C library with base 0: the value and what follows the number, or
  \<open>None\<close> if there is no number. The prefix \<^verbatim>\<open>0x\<close> counts only before a hexadecimal digit.
\<close>

definition digit_of :: "nat \<Rightarrow> char \<Rightarrow> nat option" where
  "digit_of base c =
     (let n = of_char c :: nat;
          d = (if 48 \<le> n \<and> n \<le> 57 then n - 48
               else if 97 \<le> n \<and> n \<le> 122 then n - 87
               else if 65 \<le> n \<and> n \<le> 90 then n - 55 else 99)
      in if d < base then Some d else None)"

fun digits :: "nat \<Rightarrow> nat \<Rightarrow> string \<Rightarrow> nat \<times> string" where
  "digits base acc [] = (acc, [])"
| "digits base acc (c # cs) =
     (case digit_of base c of
        Some d \<Rightarrow> digits base (acc * base + d) cs
      | None \<Rightarrow> (acc, c # cs))"

definition is_space :: "char \<Rightarrow> bool" where
  "is_space c \<longleftrightarrow> of_char c = (32 :: nat) \<or> (9 \<le> (of_char c :: nat) \<and> (of_char c :: nat) \<le> 13)"

definition strtoul0 :: "string \<Rightarrow> (u64 \<times> string) option" where
  "strtoul0 arg =
     (let s = dropWhile is_space arg;
          neg = (s \<noteq> [] \<and> hd s = CHR ''-'');
          s = (if s \<noteq> [] \<and> (hd s = CHR ''-'' \<or> hd s = CHR ''+'') then tl s else s);
          hex = (length s \<ge> 3 \<and> s ! 0 = CHR ''0'' \<and> (s ! 1 = CHR ''x'' \<or> s ! 1 = CHR ''X'')
                 \<and> digit_of 16 (s ! 2) \<noteq> None);
          oct = (s \<noteq> [] \<and> hd s = CHR ''0'');
          base = (if hex then 16 else if oct then 8 else 10);
          s = (if hex then drop 2 s else s);
          (n, rest) = digits base 0 s
      in if rest = s then None
         else Some (if n \<ge> 2 ^ 64 then UINT64_MAX else if neg then - of_nat n else of_nat n, rest))"

text \<open>With the end pointer at the start and the value 0 when there is no number.\<close>

definition strtoull :: "string \<Rightarrow> u64 \<times> string" where
  "strtoull arg = (case strtoul0 arg of None \<Rightarrow> (0, arg) | Some r \<Rightarrow> r)"

text \<open>\<^verbatim>\<open>atoi\<close> on a machine with 64-bit longs, as an unsigned number.\<close>

definition atoi :: "string \<Rightarrow> u32" where
  "atoi arg =
     (let s = dropWhile is_space arg;
          neg = (s \<noteq> [] \<and> hd s = CHR ''-'');
          s = (if s \<noteq> [] \<and> (hd s = CHR ''-'' \<or> hd s = CHR ''+'') then tl s else s);
          n = int (fst (digits 10 0 s))
      in word_of_int (if neg then max (- n) (- (2 ^ 63)) else min n (2 ^ 63 - 1)))"

text \<open>The text at the start of a buffer, up to its NUL.\<close>

definition c_text :: "bytes \<Rightarrow> string" where
  "c_text bs = map (\<lambda>b. char_of (unat b)) (takeWhile (\<lambda>b. b \<noteq> 0) bs)"

definition c_bytes :: "string \<Rightarrow> bytes" where
  "c_bytes s = map (\<lambda>c. of_char c) s"

end
