(* ===== verification/Mkfs_params.thy ===== *)
theory Mkfs_params
  imports Filesys Feature Device Clib
begin

text \<open>
  The parameters of a run of \<^verbatim>\<open>mkfs.cmfs\<close> (\<^verbatim>\<open>mkfs.cmfs/mkfs.c\<close>): the numbers and options
  of the command line, and the sizes that \<^verbatim>\<open>fill_defaults\<close> derives from them. The memory
  that the tool allocates is assumed to be there. What libuuid, the clock, \<^verbatim>\<open>getpagesize\<close>
  and the operating system answer is the record \<open>mkfs_env\<close>.
\<close>

section \<open>Numbers\<close>

text \<open>
  The result \<open>None\<close> is \<^verbatim>\<open>-EINVAL\<close>. The cases of the suffix fall through; what follows the
  suffix is not looked at.
\<close>

definition get_number :: "string \<Rightarrow> u64 option" where
  "get_number arg =
     (case strtoul0 arg of
        None \<Rightarrow> None
      | Some (num, ptr) \<Rightarrow>
          if num = UINT64_MAX then None
          else (case ptr of
              [] \<Rightarrow> Some num
            | c # _ \<Rightarrow>
                if c \<in> {CHR ''g'', CHR ''G''} then Some (num * 1024 * 1024 * 1024)
                else if c \<in> {CHR ''m'', CHR ''M''} then Some (num * 1024 * 1024)
                else if c \<in> {CHR ''k'', CHR ''K''} then Some (num * 1024)
                else if c \<in> {CHR ''b'', CHR ''B''} then Some num
                else None))"

text \<open>
  The largest of \<open>lo\<close>, \<open>2 * lo\<close>, \dots up to \<open>hi\<close> that does not exceed \<open>num\<close>. The loop does not
  end when doubling wraps around before \<open>hi\<close> or \<open>num\<close> is passed.
\<close>

partial_function (option) valid_size_loop :: "u64 \<Rightarrow> u64 \<Rightarrow> u64 \<Rightarrow> u64 \<Rightarrow> u64 option" where
  "valid_size_loop num lo hi tmp =
     (if lo \<le> hi then
        if lo = num then Some num
        else if lo < num then valid_size_loop num (push_bit 1 lo) hi lo
        else Some tmp
      else Some tmp)"

definition get_valid_size :: "u64 \<Rightarrow> u64 \<Rightarrow> u64 \<Rightarrow> u64 option" where
  "get_valid_size num lo hi = valid_size_loop num lo hi lo"

text \<open>
  \<^verbatim>\<open>get_bits\<close> counts \<open>i\<close> from 32 down to 0 and compares with \<^verbatim>\<open>1U << i\<close>; the shift by 32 is
  taken to give no match.
\<close>

definition get_bits :: "u32 \<Rightarrow> nat option" where
  "get_bits num =
     (let bits = fold (\<lambda>i bits. if num = push_bit i 1 then i else bits) (rev [0..<32]) 0
      in if bits = 0 then None else Some bits)"

section \<open>The command line\<close>

abbreviation (input) CMFS_MIN_CLUSTERSIZE :: u64 where "CMFS_MIN_CLUSTERSIZE \<equiv> 4096"
abbreviation (input) CMFS_MAX_CLUSTERSIZE :: u64 where "CMFS_MAX_CLUSTERSIZE \<equiv> 33554432"
abbreviation (input) CMFS_DEFAULT_CLUSTERSIZE :: u32 where "CMFS_DEFAULT_CLUSTERSIZE \<equiv> 1048576"
abbreviation (input) CMFS_MIN_JOURNAL_SIZE :: u64 where "CMFS_MIN_JOURNAL_SIZE \<equiv> 4194304"
abbreviation (input) CMFS_MAX_VOL_LABEL_LEN :: nat where "CMFS_MAX_VOL_LABEL_LEN \<equiv> 64"

definition parse_journal_opts :: "string \<Rightarrow> errcode + u64" where
  "parse_journal_opts opts =
     (let token = takeWhile (\<lambda>c. c \<noteq> CHR ''='') opts;
          arg = tl (dropWhile (\<lambda>c. c \<noteq> CHR ''='') opts)
      in if arg = [] \<or> token \<noteq> ''size'' then Inl EXIT
         else case get_number arg of
           None \<Rightarrow> Inl EXIT
         | Some val \<Rightarrow> if val < CMFS_MIN_JOURNAL_SIZE then Inl EXIT else Inr val)"

text \<open>
  The two buffers after the call, \<open>None\<close> when the code would write past the end of one.
  The 32 characters are written back to the buffer they come from, up to index 35; in
  the other buffer only the dashes are set.
\<close>

definition translate_uuid :: "string \<Rightarrow> string \<Rightarrow> (string \<times> string) option" where
  "translate_uuid uuid_32 uuid_36 =
     map_option snd
       (fold (\<lambda>i st. case st of
            None \<Rightarrow> None
          | Some (cp, a, b) \<Rightarrow>
              if i = 8 \<or> i = 13 \<or> i = 18 \<or> i = 23 then
                (if i < length b then Some (cp, a, b[i := CHR ''-'']) else None)
              else if i < length a \<and> cp < length a then Some (cp + 1, a[i := a ! cp], b)
              else None)
          [0..<36] (Some (0 :: nat, uuid_32, uuid_36)))"

text \<open>
  The options as \<^verbatim>\<open>getopt_long\<close> delivers them. The long form of \<open>J\<close> is declared without an
  argument, for which \<^verbatim>\<open>optarg\<close> is null.
\<close>

datatype mkfs_option =
    OptC string | OptL string | OptV | OptQ | OptVersion | OptJ "string option" | OptF
  | OptN | OptU string | OptFeatures string | OptOther

record mkfs_args =
  a_cluster_size :: u32
  a_vol_label :: "string option"
  a_quiet :: bool
  a_force :: bool
  a_show_version :: bool
  a_dry_run :: bool
  a_uuid :: "string option"
  a_journal_size :: u64
  a_features :: cmfs_fs_options
  a_reverse :: cmfs_fs_options

definition apply_option :: "mkfs_option \<Rightarrow> mkfs_args \<Rightarrow> errcode + mkfs_args" where
  "apply_option opt a =
     (case opt of
        OptC arg \<Rightarrow>
          (case get_number arg of
             None \<Rightarrow> Inl EXIT
           | Some val \<Rightarrow>
               if val < CMFS_MIN_CLUSTERSIZE \<or> val > CMFS_MAX_CLUSTERSIZE then Inl EXIT
               else case get_valid_size val CMFS_MIN_CLUSTERSIZE CMFS_MAX_CLUSTERSIZE of
                 None \<Rightarrow> Inl C_UNDEFINED
               | Some v \<Rightarrow> Inr (a\<lparr>a_cluster_size := ucast v\<rparr>))
      | OptL arg \<Rightarrow>
          if length arg \<ge> CMFS_MAX_VOL_LABEL_LEN then Inl EXIT else Inr (a\<lparr>a_vol_label := Some arg\<rparr>)
      | OptV \<Rightarrow> Inr a
      | OptQ \<Rightarrow> Inr (a\<lparr>a_quiet := True\<rparr>)
      | OptVersion \<Rightarrow> Inr (a\<lparr>a_show_version := True\<rparr>)
      | OptJ None \<Rightarrow> Inl C_UNDEFINED
      | OptJ (Some arg) \<Rightarrow>
          (case parse_journal_opts arg of
             Inl e \<Rightarrow> Inl e | Inr v \<Rightarrow> Inr (a\<lparr>a_journal_size := v\<rparr>))
      | OptF \<Rightarrow> Inr (a\<lparr>a_force := True\<rparr>)
      | OptN \<Rightarrow> Inr (a\<lparr>a_dry_run := True\<rparr>)
      | OptU arg \<Rightarrow> Inr (a\<lparr>a_uuid := Some arg\<rparr>)
      | OptFeatures arg \<Rightarrow>
          (case cmfs_parse_feature arg of
             Inl _ \<Rightarrow> Inl EXIT
           | Inr (f, r) \<Rightarrow> Inr (a\<lparr>a_features := f, a_reverse := r\<rparr>))
      | OptOther \<Rightarrow> Inl EXIT)"

fun apply_options :: "mkfs_option list \<Rightarrow> mkfs_args \<Rightarrow> errcode + mkfs_args" where
  "apply_options [] a = Inr a"
| "apply_options (opt # opts) a =
     (case apply_option opt a of Inl e \<Rightarrow> Inl e | Inr a \<Rightarrow> apply_options opts a)"

definition no_args :: mkfs_args where
  "no_args = \<lparr> a_cluster_size = 0, a_vol_label = None, a_quiet = False, a_force = False,
     a_show_version = False, a_dry_run = False, a_uuid = None, a_journal_size = 0,
     a_features = Options 0 0 0, a_reverse = Options 0 0 0 \<rparr>"

section \<open>The state of the tool\<close>

text \<open>
  The objects that the C code reaches through pointers have names: the records of system
  files, the two directories, and the allocation groups (the cluster groups by their
  index, and the one group of system inodes). \<open>None\<close> is a null pointer.
\<close>

datatype rec_id = SysFile nat nat | SuperRec | RootRec | SysDirRec
datatype dir_id = RootDir | SysDir
datatype group_id = ClusterGroup nat | SystemGroup

record alloc_group =
  ag_gd :: bytes
  ag_alloc_inode :: rec_id
  ag_chain_free :: u32
  ag_chain_total :: u32
  ag_next :: "nat option"

record alloc_bitmap =
  ab_valid_bits :: u32
  ab_unit :: u32
  ab_unit_bits :: u32
  ab_bm_record :: rec_id
  ab_num_chains :: nat

record disk_record =
  fe_off :: u64
  suballoc_bit :: u16
  extent_off :: u64
  extent_len :: u64
  file_size :: u64
  chain_off :: u64
  fr_group :: "group_id option"
  bi_used_bits :: u32
  bi_total_bits :: u32
  fr_flags :: u32
  fr_links :: u32
  fr_mode :: u32
  cluster_bitmap :: bool
  fr_dir_data :: "dir_id option"

record dir_data =
  dd_buf :: "bytes option"
  dd_last_off :: nat
  dd_record :: "rec_id option"

text \<open>\<open>ms_io\<close> is the open device behind \<^verbatim>\<open>fd\<close>, \<open>ms_le\<close> the byte order of the CPU.\<close>

record mkfs_state =
  ms_io :: io_channel
  ms_le :: bool
  ms_quiet :: bool
  ms_force :: bool
  ms_prompt :: bool
  ms_no_backup_super :: bool
  ms_inline_data :: bool
  ms_dry_run :: bool
  ms_initial_slots :: u32
  ms_blocksize :: u32
  ms_blocksize_bits :: nat
  ms_cluster_size :: u32
  ms_cluster_size_bits :: nat
  ms_specified_size_in_blocks :: u64
  ms_volume_size_in_bytes :: u64
  ms_volume_size_in_clusters :: u64
  ms_volume_size_in_blocks :: u64
  ms_pagesize_bits :: nat
  ms_reserved_tail_size :: u64
  ms_journal_size_in_bytes :: u64
  ms_extent_alloc_size_in_clusters :: u32
  ms_vol_label :: "string option"
  ms_device_name :: string
  ms_uuid :: bytes
  ms_vol_generation :: u32
  ms_format_time :: u64
  ms_nr_cluster_groups :: u32
  ms_global_cpg :: u16
  ms_tail_group_bits :: u16
  ms_first_cluster_group :: u32
  ms_first_cluster_group_blkno :: u64
  ms_feature_flags :: cmfs_fs_options
  ms_bitmap :: alloc_bitmap
  ms_groups :: "alloc_group list"
  ms_system_group :: alloc_group
  ms_recs :: "rec_id \<Rightarrow> disk_record"
  ms_dirs :: "dir_id \<Rightarrow> dir_data"

record mkfs_env =
  me_device :: device_env
  me_uuid_generate :: bytes
  me_uuid_parse :: "string \<Rightarrow> bytes option"
  me_time :: u64
  me_pagesize :: u32

type_synonym 'a mkfs = "(mkfs_state, 'a) io"

definition zero_record :: disk_record where
  "zero_record = \<lparr> fe_off = 0, suballoc_bit = 0, extent_off = 0, extent_len = 0, file_size = 0,
     chain_off = 0, fr_group = None, bi_used_bits = 0, bi_total_bits = 0, fr_flags = 0,
     fr_links = 0, fr_mode = 0, cluster_bitmap = False, fr_dir_data = None \<rparr>"

definition zero_group :: alloc_group where
  "zero_group = \<lparr> ag_gd = [], ag_alloc_inode = SuperRec, ag_chain_free = 0, ag_chain_total = 0,
     ag_next = None \<rparr>"

definition zero_state :: "bool \<Rightarrow> io_channel \<Rightarrow> mkfs_state" where
  "zero_state le ch = \<lparr> ms_io = ch, ms_le = le, ms_quiet = False, ms_force = False,
     ms_prompt = False, ms_no_backup_super = False, ms_inline_data = False, ms_dry_run = False,
     ms_initial_slots = 0, ms_blocksize = 0, ms_blocksize_bits = 0, ms_cluster_size = 0,
     ms_cluster_size_bits = 0, ms_specified_size_in_blocks = 0, ms_volume_size_in_bytes = 0,
     ms_volume_size_in_clusters = 0, ms_volume_size_in_blocks = 0, ms_pagesize_bits = 0,
     ms_reserved_tail_size = 0, ms_journal_size_in_bytes = 0,
     ms_extent_alloc_size_in_clusters = 0, ms_vol_label = None, ms_device_name = [],
     ms_uuid = replicate 16 0, ms_vol_generation = 0, ms_format_time = 0,
     ms_nr_cluster_groups = 0, ms_global_cpg = 0, ms_tail_group_bits = 0,
     ms_first_cluster_group = 0, ms_first_cluster_group_blkno = 0,
     ms_feature_flags = Options 0 0 0,
     ms_bitmap = \<lparr> ab_valid_bits = 0, ab_unit = 0, ab_unit_bits = 0, ab_bm_record = SuperRec,
                    ab_num_chains = 0 \<rparr>,
     ms_groups = [], ms_system_group = zero_group, ms_recs = (\<lambda>_. zero_record),
     ms_dirs = (\<lambda>_. \<lparr> dd_buf = None, dd_last_off = 0, dd_record = None \<rparr>) \<rparr>"

section \<open>The parameters of the command line\<close>

text \<open>
  \<open>get_state\<close> takes the options in order and the other arguments: the device and
  perhaps a number of blocks. \<^verbatim>\<open>strtoull\<close> leaves its end pointer at the start when there is no number.
\<close>

definition size_argument :: "string \<Rightarrow> errcode + u64" where
  "size_argument arg =
     (case strtoul0 arg of
        None \<Rightarrow> if arg = [] then Inr 0 else Inl EXIT
      | Some (v, dummy) \<Rightarrow> if dummy = [] then Inr v else Inl EXIT)"

definition uuid_argument :: "mkfs_env \<Rightarrow> string option \<Rightarrow> errcode + bytes" where
  "uuid_argument env uuid =
     (case uuid of
        None \<Rightarrow> Inr (me_uuid_generate env)
      | Some uuid \<Rightarrow>
          (case (if length uuid = 32
                 then map_option snd (translate_uuid (uuid @ [CHR 0x00]) (replicate 37 (CHR 0x00)))
                 else Some uuid) of
             None \<Rightarrow> Inl C_UNDEFINED
           | Some uuid_p \<Rightarrow>
               (case me_uuid_parse env (takeWhile (\<lambda>c. c \<noteq> CHR 0x00) uuid_p) of
                  None \<Rightarrow> Inl EXIT
                | Some u \<Rightarrow> Inr u)))"

definition get_state ::
  "bool \<Rightarrow> io_channel \<Rightarrow> mkfs_env \<Rightarrow> mkfs_option list \<Rightarrow> string list \<Rightarrow> errcode + mkfs_state" where
  "get_state le ch env opts argv =
     (case apply_options opts no_args of
        Inl e \<Rightarrow> Inl e
      | Inr a \<Rightarrow>
          if argv = [] \<and> \<not> a_show_version a then Inl EXIT
          else case (case tl argv of arg # _ \<Rightarrow> size_argument arg | [] \<Rightarrow> Inr 0) of
            Inl e \<Rightarrow> Inl e
          | Inr blocks \<Rightarrow>
              if length argv > 2 \<or> a_show_version a then Inl EXIT
              else case cmfs_merge_feature_with_default_flags (a_features a) (a_reverse a) of
                Inl _ \<Rightarrow> Inl EXIT
              | Inr flags \<Rightarrow>
                  (case uuid_argument env (a_uuid a) of
                     Inl e \<Rightarrow> Inl e
                   | Inr u \<Rightarrow>
                       Inr ((zero_state le ch)
                         \<lparr> ms_specified_size_in_blocks := blocks,
                           ms_quiet := a_quiet a, ms_force := a_force a, ms_dry_run := a_dry_run a,
                           ms_blocksize := 4096, ms_cluster_size := a_cluster_size a,
                           ms_vol_label := a_vol_label a, ms_device_name := hd argv,
                           ms_format_time := me_time env, ms_feature_flags := flags,
                           ms_journal_size_in_bytes :=
                             (if opt_compat flags AND CMFS_FEATURE_COMPAT_HAS_JOURNAL \<noteq> 0
                              then a_journal_size a else 0),
                           ms_initial_slots := 1, ms_uuid := u, ms_no_backup_super := True \<rparr>)))"

section \<open>Derived sizes\<close>

definition align_bytes_to_clusters_ceil :: "mkfs_state \<Rightarrow> u64 \<Rightarrow> u64" where
  "align_bytes_to_clusters_ceil s bytes =
     (let r = bytes + ucast (ms_cluster_size s) - 1;
          r = (if r < bytes then UINT64_MAX else r)
      in push_bit (ms_cluster_size_bits s) (drop_bit (ms_cluster_size_bits s) r))"

definition figure_journal_size :: "mkfs_state \<Rightarrow> u64 \<Rightarrow> errcode + u64" where
  "figure_journal_size s size0 =
     (if opt_compat (ms_feature_flags s) AND CMFS_FEATURE_COMPAT_HAS_JOURNAL = 0 then Inr 0
      else if size0 > 0 then
        let j_blocks = ucast (drop_bit (ms_blocksize_bits s) size0) :: u32
        in if (ucast j_blocks :: u64) \<ge> ms_volume_size_in_blocks s then Inl EXIT
           else Inr (align_bytes_to_clusters_ceil s size0)
      else Inr (align_bytes_to_clusters_ceil s
                  (ucast (push_bit (ms_blocksize_bits s) (32768 :: u32)))))"

definition figure_extent_alloc_size :: "mkfs_state \<Rightarrow> u32" where
  "figure_extent_alloc_size s = 4"

definition exit_unless :: "'a option \<Rightarrow> 'a mkfs" where
  "exit_unless x = (case x of None \<Rightarrow> err_io EXIT | Some v \<Rightarrow> ret_io v)"

definition check_sectsize :: "mkfs_env \<Rightarrow> unit mkfs" where
  "check_sectsize env s =
     (case (case cmfs_get_device_sectsize (me_device env) of
              Inl e \<Rightarrow> if e = CMFS_ET_CANNOT_DETERMINE_SECTOR_SIZE then Some 0 else None
            | Inr n \<Rightarrow> Some n) of
        None \<Rightarrow> (Inl EXIT, s)
      | Some sectsize \<Rightarrow>
          let sectsize = (if sectsize = 0 then 4096 else sectsize)
          in if ms_blocksize s < sectsize then (Inl EXIT, s) else (Inr (), s))"

definition figure_volume_size :: "mkfs_env \<Rightarrow> unit mkfs" where
  "figure_volume_size env s =
     (if ms_volume_size_in_blocks s \<noteq> 0 then (Inr (), s)
      else case cmfs_get_device_size (me_device env) (ms_blocksize s) of
        Inl e \<Rightarrow> (Inl (if e = C_UNDEFINED then C_UNDEFINED else EXIT), s)
      | Inr n \<Rightarrow>
          let s' = s\<lparr>ms_volume_size_in_blocks := n\<rparr> in
          if ms_specified_size_in_blocks s = 0 then (Inr (), s')
          else if ms_specified_size_in_blocks s > n then (Inl EXIT, s')
          else (Inr (), s'\<lparr>ms_volume_size_in_blocks := ms_specified_size_in_blocks s\<rparr>))"

definition fill_sizes :: "unit mkfs" where
  "fill_sizes s =
     (let bytes = ms_volume_size_in_blocks s * ucast (ms_blocksize s);
          clusters = drop_bit (ms_cluster_size_bits s) bytes;
          bytes = push_bit (ms_cluster_size_bits s) clusters;
          s' = s\<lparr> ms_volume_size_in_clusters := clusters,
                  ms_volume_size_in_bytes := bytes,
                  ms_volume_size_in_blocks := drop_bit (ms_blocksize_bits s) bytes,
                  ms_reserved_tail_size := 0 \<rparr>
      in case cmfs_calc_cluster_groups clusters (ucast (ms_blocksize s)) of
           None \<Rightarrow> (Inl C_UNDEFINED, s')
         | Some cgs \<Rightarrow>
             (Inr (), s'\<lparr> ms_global_cpg := cgs_cpg cgs,
                         ms_nr_cluster_groups := cgs_cluster_groups cgs,
                         ms_tail_group_bits := cgs_tail_group_bits cgs \<rparr>))"

definition fill_defaults :: "mkfs_env \<Rightarrow> unit mkfs" where
  "fill_defaults env =
     bind_io (exit_unless (get_bits (me_pagesize env))) (\<lambda>b.
     bind_io (upd_io (\<lambda>s. s\<lparr>ms_pagesize_bits := b\<rparr>)) (\<lambda>_.
     bind_io (check_sectsize env) (\<lambda>_.
     bind_io (figure_volume_size env) (\<lambda>_.
     bind_io (get_io ms_blocksize) (\<lambda>blocksize.
     bind_io (guard_io (blocksize = 4096) EXIT) (\<lambda>_.
     bind_io (exit_unless (get_bits blocksize)) (\<lambda>b.
     bind_io (upd_io (\<lambda>s. s\<lparr> ms_blocksize_bits := b,
       ms_cluster_size := (if ms_cluster_size s = 0 then CMFS_DEFAULT_CLUSTERSIZE
                           else ms_cluster_size s) \<rparr>)) (\<lambda>_.
     bind_io (get_io ms_cluster_size) (\<lambda>cluster_size.
     bind_io (exit_unless (get_bits cluster_size)) (\<lambda>b.
     bind_io (upd_io (\<lambda>s. s\<lparr>ms_cluster_size_bits := b\<rparr>)) (\<lambda>_.
     bind_io fill_sizes (\<lambda>_.
     bind_io (upd_io (\<lambda>s. s\<lparr>ms_vol_label :=
       (case ms_vol_label s of None \<Rightarrow> Some [] | Some l \<Rightarrow> Some l)\<rparr>)) (\<lambda>_ s.
     (case figure_journal_size s (ms_journal_size_in_bytes s) of
        Inl e \<Rightarrow> (Inl e, s)
      | Inr n \<Rightarrow> (Inr (), s\<lparr> ms_journal_size_in_bytes := n,
                            ms_extent_alloc_size_in_clusters := figure_extent_alloc_size s \<rparr>)))))))))))))))"

end
