(* ===== verification/Bitops.thy ===== *)
theory Bitops
  imports Prelude
begin

text \<open>
  The bitmap routines of \<^verbatim>\<open>libcmfs/bitops.c\<close>. A bitmap is the list of the
  bytes it occupies; bit \<open>i\<close> is bit \<open>i mod 8\<close> of byte \<open>i div 8\<close>. The C
  routines read whichever byte the offset selects; a read past the end of the
  array is undefined behaviour in C and an unspecified value here, so every
  theorem states the bound it needs.
\<close>

section \<open>Definitions\<close>

definition cmfs_set_bit :: "nat \<Rightarrow> bytes \<Rightarrow> bool \<times> bytes" where
  "cmfs_set_bit nr addr =
     (let i = drop_bit 3 nr;
          mask = push_bit (nr AND 7) 1;
          retval = ((mask AND addr ! i) \<noteq> 0)
      in (retval, addr[i := addr ! i OR mask]))"

definition cmfs_clear_bit :: "nat \<Rightarrow> bytes \<Rightarrow> bool \<times> bytes" where
  "cmfs_clear_bit nr addr =
     (let i = drop_bit 3 nr;
          mask = push_bit (nr AND 7) 1;
          retval = ((mask AND addr ! i) \<noteq> 0)
      in (retval, addr[i := addr ! i AND NOT mask]))"

definition cmfs_test_bit :: "nat \<Rightarrow> bytes \<Rightarrow> bool" where
  "cmfs_test_bit nr addr =
     (let mask = push_bit (nr AND 7) 1 in (mask AND addr ! drop_bit 3 nr) \<noteq> 0)"

text \<open>The C library's \<^verbatim>\<open>ffs\<close>: one plus the index of the lowest set bit, 0 for 0.\<close>

definition ffs :: "u32 \<Rightarrow> nat" where
  "ffs x = (case find (\<lambda>i. bit x i) [0..<32] of None \<Rightarrow> 0 | Some i \<Rightarrow> Suc i)"

text \<open>
  The loops that skip whole bytes. The pointer \<open>p\<close> and the counter \<open>res\<close> move
  together, so \<open>p\<close> is always byte \<open>res div 8\<close>.
\<close>

function skip_bytes :: "u8 \<Rightarrow> bytes \<Rightarrow> nat \<Rightarrow> nat \<Rightarrow> nat" where
  "skip_bytes v addr sz res =
     (if sz > res \<and> addr ! drop_bit 3 res = v
      then skip_bytes v addr sz (res + 8) else res)"
  by pat_completeness auto
termination
  by (relation "measure (\<lambda>(v, addr, sz, res). sz - res)") auto

declare skip_bytes.simps [simp del]

definition cmfs_find_next_bit_set :: "bytes \<Rightarrow> nat \<Rightarrow> nat \<Rightarrow> nat" where
  "cmfs_find_next_bit_set addr sz offset =
     (if sz = 0 then 0
      else
        let bit = offset AND 7;
            res = push_bit 3 (drop_bit 3 offset);
            set = (if bit \<noteq> 0
                   then ffs (ucast (addr ! drop_bit 3 offset) AND NOT (push_bit bit 1 - 1))
                   else 0)
        in if set \<noteq> 0 then res + set - 1
           else
             let res = skip_bytes 0 addr sz (if bit \<noteq> 0 then res + 8 else res)
             in if res \<ge> sz then sz
                else
                  let mask = (if res + 8 > sz then drop_bit (8 - (sz - res)) 255 else 255);
                      d0 = ffs (ucast (addr ! drop_bit 3 res) AND mask)
                  in if d0 = 0 then sz else res + d0 - 1)"

definition cmfs_find_next_bit_clear :: "bytes \<Rightarrow> nat \<Rightarrow> nat \<Rightarrow> nat" where
  "cmfs_find_next_bit_clear addr sz offset =
     (if sz = 0 then 0
      else
        let bit = offset AND 7;
            res = push_bit 3 (drop_bit 3 offset);
            set = (if bit \<noteq> 0
                   then ffs (NOT (ucast (addr ! drop_bit 3 offset)) AND NOT (push_bit bit 1 - 1)
                             AND 255)
                   else 0)
        in if set \<noteq> 0 then res + set - 1
           else
             let res = skip_bytes 255 addr sz (if bit \<noteq> 0 then res + 8 else res)
             in if res \<ge> sz then sz
                else
                  let mask = (if res + 8 > sz then drop_bit (8 - (sz - res)) 255 else 255);
                      d0 = ffs (NOT (ucast (addr ! drop_bit 3 res) AND mask))
                  in if d0 = 0 then sz else res + d0 - 1)"

definition cmfs_find_first_bit_set :: "bytes \<Rightarrow> nat \<Rightarrow> nat" where
  "cmfs_find_first_bit_set addr sz = cmfs_find_next_bit_set addr sz 0"

definition cmfs_find_first_bit_clear :: "bytes \<Rightarrow> nat \<Rightarrow> nat" where
  "cmfs_find_first_bit_clear addr sz = cmfs_find_next_bit_clear addr sz 0"

section \<open>Single bits\<close>

text \<open>The abstract reading of a bitmap: the truth value of bit \<open>i\<close>.\<close>

definition bit_at :: "bytes \<Rightarrow> nat \<Rightarrow> bool" where
  "bit_at addr i = bit (addr ! (i div 8)) (i mod 8)"

lemma cmfs_test_bit_eq: "cmfs_test_bit nr addr = bit_at addr nr"
  by (simp add: cmfs_test_bit_def bit_at_def nat_and_7 nat_drop_bit_3 and_power_iff_bit)

lemma cmfs_set_bit_fst: "fst (cmfs_set_bit nr addr) = bit_at addr nr"
  by (simp add: cmfs_set_bit_def Let_def bit_at_def nat_and_7 nat_drop_bit_3
      and_power_iff_bit)

lemma cmfs_clear_bit_fst: "fst (cmfs_clear_bit nr addr) = bit_at addr nr"
  by (simp add: cmfs_clear_bit_def Let_def bit_at_def nat_and_7 nat_drop_bit_3
      and_power_iff_bit)

lemma length_cmfs_set_bit [simp]: "length (snd (cmfs_set_bit nr addr)) = length addr"
  by (simp add: cmfs_set_bit_def Let_def)

lemma length_cmfs_clear_bit [simp]: "length (snd (cmfs_clear_bit nr addr)) = length addr"
  by (simp add: cmfs_clear_bit_def Let_def)

lemma same_bit_index: "i div 8 = j div 8 \<Longrightarrow> i mod 8 = j mod 8 \<Longrightarrow> i = (j::nat)"
  by (metis div_mult_mod_eq)

lemma bit_at_set_bit:
  assumes "nr < 8 * length addr"
  shows "bit_at (snd (cmfs_set_bit nr addr)) i = (i = nr \<or> bit_at addr i)"
proof (cases "i div 8 = nr div 8")
  case True
  then show ?thesis using assms
    by (auto simp: cmfs_set_bit_def Let_def bit_at_def nat_and_7 nat_drop_bit_3 bit_simps
        dest: same_bit_index)
next
  case False
  then show ?thesis
    by (auto simp: cmfs_set_bit_def Let_def bit_at_def nat_drop_bit_3)
qed

lemma bit_at_clear_bit:
  assumes "nr < 8 * length addr"
  shows "bit_at (snd (cmfs_clear_bit nr addr)) i = (i \<noteq> nr \<and> bit_at addr i)"
proof (cases "i div 8 = nr div 8")
  case True
  then show ?thesis using assms
    by (auto simp: cmfs_clear_bit_def Let_def bit_at_def nat_and_7 nat_drop_bit_3 bit_simps
        dest: same_bit_index)
next
  case False
  then show ?thesis
    by (auto simp: cmfs_clear_bit_def Let_def bit_at_def nat_drop_bit_3)
qed

section \<open>The search loops\<close>

lemma ffs_eq_0: "ffs x = 0 \<longleftrightarrow> (\<forall>i<32. \<not> bit x i)"
  by (auto simp: ffs_def find_None_iff find_Some_iff split: option.splits)

lemma ffs_eq_SucD: "ffs x = Suc i \<Longrightarrow> i < 32 \<and> bit x i \<and> (\<forall>j<i. \<not> bit x j)"
  by (auto simp: ffs_def find_Some_iff split: option.splits)

lemma ffs_cases:
  obtains (none) "ffs x = 0" and "\<And>i. i < 32 \<Longrightarrow> \<not> bit x i"
  | (some) i where "ffs x = Suc i" and "i < 32" and "bit x i"
      and "\<And>j. j < i \<Longrightarrow> \<not> bit x j"
  by (cases "ffs x") (auto simp: ffs_eq_0 dest: ffs_eq_SucD)

lemma skip_bytes_spec:
  assumes "res mod 8 = 0"
  shows "res \<le> skip_bytes v addr sz res \<and> skip_bytes v addr sz res mod 8 = 0
    \<and> (\<forall>k. res \<le> 8 * k \<and> 8 * k < skip_bytes v addr sz res \<longrightarrow> addr ! k = v)
    \<and> (skip_bytes v addr sz res < sz \<longrightarrow> addr ! (skip_bytes v addr sz res div 8) \<noteq> v)"
  using assms
proof (induction v addr sz res rule: skip_bytes.induct)
  case (1 v addr sz res)
  show ?case
  proof (cases "sz > res \<and> addr ! (res div 8) = v")
    case True
    have step: "skip_bytes v addr sz res = skip_bytes v addr sz (res + 8)"
      using True by (simp add: skip_bytes.simps [of v addr sz res] nat_drop_bit_3)
    have IH: "res + 8 \<le> skip_bytes v addr sz (res + 8)
      \<and> skip_bytes v addr sz (res + 8) mod 8 = 0
      \<and> (\<forall>k. res + 8 \<le> 8 * k \<and> 8 * k < skip_bytes v addr sz (res + 8) \<longrightarrow> addr ! k = v)
      \<and> (skip_bytes v addr sz (res + 8) < sz \<longrightarrow>
            addr ! (skip_bytes v addr sz (res + 8) div 8) \<noteq> v)"
      by (rule "1.IH") (use True "1.prems" in \<open>simp_all add: nat_drop_bit_3\<close>)
    have first: "addr ! k = v" if "res \<le> 8 * k" and "8 * k < res + 8" for k
    proof -
      obtain m where "res = 8 * m" using "1.prems" by (auto elim: dvdE simp: mod_eq_0_iff_dvd)
      then have "k = res div 8" using that by simp
      then show ?thesis using True by simp
    qed
    have "addr ! k = v" if "res \<le> 8 * k" and "8 * k < skip_bytes v addr sz (res + 8)" for k
      using first [of k] IH that by (cases "res + 8 \<le> 8 * k") simp_all
    then show ?thesis using IH unfolding step by simp
  next
    case False
    then have "skip_bytes v addr sz res = res"
      by (auto simp: skip_bytes.simps [of v addr sz res] nat_drop_bit_3)
    then show ?thesis using False "1.prems" by auto
  qed
qed

text \<open>
  What both searches promise: they return the first wanted bit at or after
  \<open>offset\<close>, and an index that is not below the size when there is none.
\<close>

locale next_bit =
  fixes wanted :: "bytes \<Rightarrow> nat \<Rightarrow> bool"
    and find_next :: "bytes \<Rightarrow> nat \<Rightarrow> nat \<Rightarrow> nat"
  assumes find_lower: "off \<le> sz \<Longrightarrow> sz \<le> 8 * length addr \<Longrightarrow> off \<le> find_next addr sz off"
    and find_skipped: "off \<le> sz \<Longrightarrow> sz \<le> 8 * length addr \<Longrightarrow> off \<le> i \<Longrightarrow>
      i < find_next addr sz off \<Longrightarrow> i < sz \<Longrightarrow> \<not> wanted addr i"
    and find_wanted: "off \<le> sz \<Longrightarrow> sz \<le> 8 * length addr \<Longrightarrow>
      find_next addr sz off < sz \<Longrightarrow> wanted addr (find_next addr sz off)"
begin

lemma found_iff:
  assumes "off \<le> sz" and "sz \<le> 8 * length addr"
  shows "find_next addr sz off < sz \<longleftrightarrow> (\<exists>i. off \<le> i \<and> i < sz \<and> wanted addr i)"
  using assms find_lower find_skipped find_wanted by (meson leI less_le_trans)

lemma found_least:
  assumes "off \<le> sz" and "sz \<le> 8 * length addr" and "off \<le> i" and "i < sz"
    and "wanted addr i"
  shows "find_next addr sz off \<le> i"
  using assms find_skipped by (meson leI)

lemma found_at:
  assumes "off < sz" and "sz \<le> 8 * length addr" and "wanted addr off"
  shows "find_next addr sz off = off"
  using assms found_least [of off sz addr off] find_lower [of off sz addr] by simp

lemma found_eq:
  assumes "off \<le> sz" and "sz \<le> 8 * length addr" and "off \<le> i" and "i < sz"
    and "wanted addr i" and "\<And>j. off \<le> j \<Longrightarrow> j < i \<Longrightarrow> \<not> wanted addr j"
  shows "find_next addr sz off = i"
proof -
  let ?r = "find_next addr sz off"
  have le: "?r \<le> i" using assms(1-5) by (rule found_least)
  have "wanted addr ?r" using assms le by (intro find_wanted) auto
  moreover have "off \<le> ?r" using assms by (intro find_lower)
  ultimately show ?thesis using assms(6) le by (meson le_neq_implies_less)
qed

end

text \<open>The contract as one predicate on the returned index, and the whole-byte stage.\<close>

definition found_ok :: "(nat \<Rightarrow> bool) \<Rightarrow> nat \<Rightarrow> nat \<Rightarrow> nat \<Rightarrow> bool" where
  "found_ok W off sz r \<longleftrightarrow>
     off \<le> r \<and> (\<forall>i. off \<le> i \<and> i < r \<and> i < sz \<longrightarrow> \<not> W i) \<and> (r < sz \<longrightarrow> W r)"

lemma byte_split: "i div 8 = k \<Longrightarrow> i = 8 * k + i mod (8::nat)"
  by (metis mult_div_mod_eq)

lemma found_ok_bytes:
  fixes W :: "nat \<Rightarrow> bool" and addr :: bytes
  assumes start: "start mod 8 = 0" "off \<le> start" "off \<le> sz"
    and before: "\<And>i. off \<le> i \<Longrightarrow> i < start \<Longrightarrow> \<not> W i"
    and skip: "\<And>k i. addr ! k = v \<Longrightarrow> i < 8 \<Longrightarrow> \<not> W (8 * k + i)"
    and stop: "\<And>k. addr ! k \<noteq> v \<Longrightarrow> \<exists>i<8. W (8 * k + i)"
    and r1: "r1 = skip_bytes v addr sz start"
    and x: "\<And>i. r1 < sz \<Longrightarrow> i < 32 \<Longrightarrow> i < 8 \<Longrightarrow> r1 + i < sz \<Longrightarrow> bit x i = W (r1 + i)"
    and x_beyond: "\<And>i. r1 < sz \<Longrightarrow> i < 32 \<Longrightarrow> \<not> (i < 8 \<and> r1 + i < sz) \<Longrightarrow> bit x i = c"
  shows "found_ok W off sz
    (if r1 \<ge> sz then sz else if ffs x = 0 then sz else r1 + ffs x - 1)"
proof -
  have spec: "start \<le> r1" "r1 mod 8 = 0"
      "\<And>k. start \<le> 8 * k \<Longrightarrow> 8 * k < r1 \<Longrightarrow> addr ! k = v"
      "r1 < sz \<Longrightarrow> addr ! (r1 div 8) \<noteq> v"
    using skip_bytes_spec [OF start(1), of v addr sz] by (auto simp: r1)
  have none: "\<not> W i" if "off \<le> i" "i < r1" for i
  proof (cases "i < start")
    case True
    then show ?thesis using before that by blast
  next
    case False
    have "start = 8 * (start div 8)" "r1 = 8 * (r1 div 8)"
      using start(1) spec(2) by auto
    then obtain a b where ab: "start = 8 * a" "r1 = 8 * b" by blast
    then have "start \<le> 8 * (i div 8)" and "8 * (i div 8) < r1"
      using False that by (simp_all add: div_less_iff_less_mult less_eq_div_iff_mult_less_eq)
    then have "addr ! (i div 8) = v" by (rule spec(3))
    then have "\<not> W (8 * (i div 8) + i mod 8)" by (rule skip) simp
    then show ?thesis by simp
  qed
  show ?thesis
  proof (cases "r1 < sz")
    case False
    then show ?thesis using none start(3) by (auto simp: found_ok_def)
  next
    case True
    have r8: "8 * (r1 div 8) = r1" using spec(2) by auto
    obtain w where w: "w < 8" "W (r1 + w)"
      using stop [OF spec(4) [OF True]] r8 by auto
    show ?thesis
    proof (rule ffs_cases [of x])
      assume z: "ffs x = 0" "\<And>i. i < 32 \<Longrightarrow> \<not> bit x i"
      have byte: "\<not> W (r1 + i)" if "i < 8" "r1 + i < sz" for i
        using x [OF True, of i] z(2) [of i] that by simp
      have "sz < r1 + 8" using byte [OF w(1)] w by (meson leI add_less_cancel_left less_le_trans)
      then have "\<not> W i" if "off \<le> i" "i < sz" for i
        using that none [of i] byte [of "i - r1"] by (cases "i < r1") auto
      then show ?thesis using z True start(3) by (simp add: found_ok_def)
    next
      fix d
      assume s: "ffs x = Suc d" "d < 32" "bit x d" "\<And>j. j < d \<Longrightarrow> \<not> bit x j"
      have byte: "\<not> W (r1 + i)" if "i < d" "i < 8" "r1 + i < sz" for i
        using x [OF True, of i] s(2) s(4) [of i] that by simp
      have small: "d < 8" if "r1 + d < sz"
      proof (rule ccontr)
        assume "\<not> d < 8"
        then have "\<not> W (r1 + w)" using byte [of w] w that by simp
        then show False using w by simp
      qed
      have "W (r1 + d)" if "r1 + d < sz"
        using x [OF True s(2)] small [OF that] s(3) that by simp
      moreover have "\<not> W i" if "off \<le> i" "i < r1 + d" "i < sz" for i
      proof (cases "i < r1")
        case True
        then show ?thesis using none that by blast
      next
        case False
        then obtain k where k: "i = r1 + k" using le_Suc_ex not_less by blast
        show ?thesis
        proof (cases "d < 8 \<or> k < 8")
          case True
          then show ?thesis using byte [of k] that k by auto
        next
          case False
          then show ?thesis using byte [of w] w that k by simp
        qed
      qed
      ultimately show ?thesis using s True start(3) spec(1) start(2) by (simp add: found_ok_def)
    qed
  qed
qed

section \<open>Both searches keep the contract\<close>


lemma bit_low_clear:
  "i < 32 \<Longrightarrow> bit (x AND NOT (2 ^ b - 1) :: u32) i = (b \<le> i \<and> bit x i)"
  by (auto simp: bit_simps simp flip: mask_eq_exp_minus_1)

lemma bit_low_clear_255:
  "i < 32 \<Longrightarrow> bit (x AND NOT (2 ^ b - 1) AND 255 :: u32) i = (b \<le> i \<and> i < 8 \<and> bit x i)"
proof -
  have m: "(255 :: u32) = mask 8" by (simp add: mask_eq_exp_minus_1)
  show "i < 32 \<Longrightarrow> ?thesis"
    unfolding m by (auto simp: bit_simps simp flip: mask_eq_exp_minus_1)
qed

lemma bit_u8_lt: "bit (w :: u8) i \<Longrightarrow> i < 8"
  using bit_imp_le_length [of w i] by simp

lemma bit_at_offset: "i < 8 \<Longrightarrow> bit_at addr (8 * k + i) = bit (addr ! k) i"
  by (simp add: bit_at_def)

lemma bit_last_mask:
  assumes "res < sz"
  shows "bit (if res + 8 > sz then drop_bit (8 - (sz - res)) 255 else 255 :: u32) i
     = (i < 8 \<and> res + i < sz)"
proof -
  have m: "(255 :: u32) = mask 8" by (simp add: mask_eq_exp_minus_1)
  show ?thesis using assms unfolding m by (auto simp: bit_simps)
qed

lemma byte_some_set:
  assumes "addr ! k \<noteq> 0"
  shows "\<exists>i<8. bit_at addr (8 * k + i)"
proof -
  obtain i where "bit (addr ! k) i" using assms by (auto simp: bit_eq_iff)
  then show ?thesis using bit_u8_lt bit_at_offset by blast
qed

lemma bit_255: "bit (255 :: u8) i = (i < 8)"
proof -
  have m: "(255 :: u8) = mask 8" by (simp add: mask_eq_exp_minus_1)
  show ?thesis unfolding m bit_mask_iff by auto
qed

lemma bit_255_u32: "bit (255 :: u32) i = (i < 8)"
proof -
  have m: "(255 :: u32) = mask 8" by (simp add: mask_eq_exp_minus_1)
  show ?thesis unfolding m bit_mask_iff by auto
qed

lemma byte_some_clear:
  assumes "addr ! k \<noteq> 255"
  shows "\<exists>i<8. \<not> bit_at addr (8 * k + i)"
proof -
  obtain i where "bit (addr ! k) i \<noteq> bit (255 :: u8) i" using assms by (auto simp: bit_eq_iff)
  then have "i < 8 \<and> \<not> bit (addr ! k) i" unfolding bit_255 using bit_u8_lt by blast
  then show ?thesis using bit_at_offset by blast
qed

lemma bit_last_byte:
  assumes "r mod 8 = 0" and "r < sz"
  shows "bit (ucast (addr ! (r div 8)) AND
      (if r + 8 > sz then drop_bit (8 - (sz - r)) 255 else 255) :: u32) i
    = (i < 8 \<and> r + i < sz \<and> bit_at addr (r + i))"
proof -
  obtain k where k: "r = 8 * k" using assms(1) by (auto elim: dvdE simp: mod_eq_0_iff_dvd)
  have "i < 8 \<Longrightarrow> bit (ucast (addr ! (r div 8)) :: u32) i = bit_at addr (r + i)"
    by (simp add: k bit_at_offset bit_ucast_iff)
  then show ?thesis
    unfolding bit_and_iff bit_last_mask [OF assms(2)] by blast
qed

lemma offset_split:
  assumes "off \<le> i"
  obtains k where "i = 8 * (off div 8) + k" and "off mod 8 \<le> (k::nat)"
proof -
  have "8 * (off div 8) + off mod 8 \<le> i" using assms by simp
  then have "i = 8 * (off div 8) + (i - 8 * (off div 8))" "off mod 8 \<le> i - 8 * (off div 8)"
    by linarith+
  then show ?thesis by (rule that)
qed

lemma find_next_bit_set_ok:
  assumes "off \<le> sz"
  shows "found_ok (bit_at addr) off sz (cmfs_find_next_bit_set addr sz off)"
proof (cases "sz = 0")
  case True
  then show ?thesis using assms by (simp add: cmfs_find_next_bit_set_def found_ok_def)
next
  case False
  let ?B = "8 * (off div 8)" and ?b = "off mod 8"
  let ?x = "ucast (addr ! (off div 8)) AND NOT (push_bit ?b 1 - 1) :: u32"
  define set where "set = (if ?b \<noteq> 0 then ffs ?x else 0)"
  define start where "start = (if ?b \<noteq> 0 then ?B + 8 else ?B)"
  define r1 where "r1 = skip_bytes 0 addr sz start"
  define mask :: u32 where
    "mask = (if r1 + 8 > sz then drop_bit (8 - (sz - r1)) 255 else 255)"
  have eq: "cmfs_find_next_bit_set addr sz off =
    (if set \<noteq> 0 then ?B + set - 1
     else if r1 \<ge> sz then sz
     else if ffs (ucast (addr ! (r1 div 8)) AND mask) = 0 then sz
     else r1 + ffs (ucast (addr ! (r1 div 8)) AND mask) - 1)"
    unfolding cmfs_find_next_bit_set_def Let_def mask_def r1_def start_def set_def
      nat_and_7 nat_drop_bit_3 nat_push_bit_3 using False by (simp only: if_False)
  have bx: "bit ?x i = (?b \<le> i \<and> i < 8 \<and> bit_at addr (?B + i))" if "i < 32" for i
    using that by (cases "i < 8")
      (auto simp: bit_low_clear bit_at_offset bit_ucast_iff dest: bit_u8_lt)
  have off: "off = ?B + ?b" by simp
  show ?thesis
  proof (cases set)
    case 0
    have r8: "r1 mod 8 = 0"
      using skip_bytes_spec [of start 0 addr sz] by (simp add: r1_def start_def)
    have before: "\<not> bit_at addr i" if "off \<le> i" "i < start" for i
    proof -
      have b: "?b \<noteq> 0" using that off by (auto simp: start_def split: if_splits)
      obtain k where k: "i = ?B + k" "?b \<le> k" using \<open>off \<le> i\<close> by (rule offset_split)
      then have "k < 8" using that(2) b by (simp add: start_def)
      moreover have "\<not> bit ?x k" using 0 b calculation by (simp add: set_def ffs_eq_0)
      ultimately show ?thesis using bx [of k] k by simp
    qed
    have "found_ok (bit_at addr) off sz
      (if r1 \<ge> sz then sz else if ffs (ucast (addr ! (r1 div 8)) AND mask) = 0 then sz
       else r1 + ffs (ucast (addr ! (r1 div 8)) AND mask) - 1)"
    proof (rule found_ok_bytes [where v = 0 and addr = addr and start = start and c = False])
      show "start mod 8 = 0" "off \<le> start" "off \<le> sz"
        using assms by (auto simp: start_def)
    next
      fix k i assume "addr ! k = 0" "i < (8::nat)"
      then show "\<not> bit_at addr (8 * k + i)" by (simp add: bit_at_def)
    next
      fix k assume "addr ! k \<noteq> 0"
      then show "\<exists>i<8. bit_at addr (8 * k + i)" by (rule byte_some_set)
    next
      fix i assume "r1 < sz" "i < (32::nat)" "i < 8" "r1 + i < sz"
      then show "bit (ucast (addr ! (r1 div 8)) AND mask) i = bit_at addr (r1 + i)"
        unfolding bit_last_byte [OF r8 \<open>r1 < sz\<close>, folded mask_def] by blast
    next
      fix i assume "r1 < sz" "i < (32::nat)" "\<not> (i < 8 \<and> r1 + i < sz)"
      then show "bit (ucast (addr ! (r1 div 8)) AND mask) i = False"
        unfolding bit_last_byte [OF r8 \<open>r1 < sz\<close>, folded mask_def] by blast
    qed (use before r1_def in auto)
    then show ?thesis unfolding eq using 0 by simp
  next
    case (Suc d)
    then have b: "?b \<noteq> 0" and d: "d < 32" "bit ?x d" "\<And>j. j < d \<Longrightarrow> \<not> bit ?x j"
      by (auto simp: set_def split: if_splits dest: ffs_eq_SucD)
    have "found_ok (bit_at addr) off sz (?B + d)"
      unfolding found_ok_def
    proof (intro conjI allI impI)
      have "?b \<le> d" and w: "bit_at addr (?B + d)" using bx [OF d(1)] d(2) by simp_all
      then show "off \<le> ?B + d" using off by linarith
      show "bit_at addr (?B + d)" by (rule w)
    next
      fix i assume i: "off \<le> i \<and> i < ?B + d \<and> i < sz"
      then obtain k where k: "i = ?B + k" "?b \<le> k" using offset_split by blast
      then have "k < d" using i by simp
      then show "\<not> bit_at addr i" using bx [of k] bx [OF d(1)] d k by simp
    qed
    then show ?thesis unfolding eq using Suc by simp
  qed
qed

lemma find_next_bit_clear_ok:
  assumes "off \<le> sz" and "sz \<le> 8 * length addr"
  shows "found_ok (\<lambda>i. \<not> bit_at addr i) off sz (cmfs_find_next_bit_clear addr sz off)"
proof (cases "sz = 0")
  case True
  then show ?thesis using assms by (simp add: cmfs_find_next_bit_clear_def found_ok_def)
next
  case False
  let ?B = "8 * (off div 8)" and ?b = "off mod 8"
  let ?x = "NOT (ucast (addr ! (off div 8))) AND NOT (push_bit ?b 1 - 1) AND 255 :: u32"
  define set where "set = (if ?b \<noteq> 0 then ffs ?x else 0)"
  define start where "start = (if ?b \<noteq> 0 then ?B + 8 else ?B)"
  define r1 where "r1 = skip_bytes 255 addr sz start"
  define mask :: u32 where
    "mask = (if r1 + 8 > sz then drop_bit (8 - (sz - r1)) 255 else 255)"
  have eq: "cmfs_find_next_bit_clear addr sz off =
    (if set \<noteq> 0 then ?B + set - 1
     else if r1 \<ge> sz then sz
     else if ffs (NOT (ucast (addr ! (r1 div 8)) AND mask)) = 0 then sz
     else r1 + ffs (NOT (ucast (addr ! (r1 div 8)) AND mask)) - 1)"
    unfolding cmfs_find_next_bit_clear_def Let_def mask_def r1_def start_def set_def
      nat_and_7 nat_drop_bit_3 nat_push_bit_3 using False by (simp only: if_False)
  have bx: "bit ?x i = (?b \<le> i \<and> i < 8 \<and> \<not> bit_at addr (?B + i))" if "i < 32" for i
    using that by (cases "i < 8")
      (auto simp: bit_low_clear_255 bit_not_iff bit_at_offset bit_ucast_iff dest: bit_u8_lt)
  have off: "off = ?B + ?b" by simp
  show ?thesis
  proof (cases set)
    case 0
    have r8: "r1 mod 8 = 0"
      using skip_bytes_spec [of start 255 addr sz] by (simp add: r1_def start_def)
    have before: "bit_at addr i" if "off \<le> i" "i < start" for i
    proof -
      have b: "?b \<noteq> 0" using that off by (auto simp: start_def split: if_splits)
      obtain k where k: "i = ?B + k" "?b \<le> k" using \<open>off \<le> i\<close> by (rule offset_split)
      then have "k < 8" using that(2) b by (simp add: start_def)
      moreover have "\<not> bit ?x k" using 0 b calculation by (simp add: set_def ffs_eq_0)
      ultimately show ?thesis using bx [of k] k by simp
    qed
    have "found_ok (\<lambda>i. \<not> bit_at addr i) off sz
      (if r1 \<ge> sz then sz else if ffs (NOT (ucast (addr ! (r1 div 8)) AND mask)) = 0 then sz
       else r1 + ffs (NOT (ucast (addr ! (r1 div 8)) AND mask)) - 1)"
    proof (rule found_ok_bytes [where v = 255 and addr = addr and start = start and c = True])
      show "start mod 8 = 0" "off \<le> start" "off \<le> sz"
        using assms by (auto simp: start_def)
    next
      fix k i assume "addr ! k = 255" "i < (8::nat)"
      then show "\<not> \<not> bit_at addr (8 * k + i)"
        using bit_255 [of i] by (simp only: bit_at_offset) simp
    next
      fix k assume "addr ! k \<noteq> 255"
      then show "\<exists>i<8. \<not> bit_at addr (8 * k + i)" by (rule byte_some_clear)
    next
      fix i assume "r1 < sz" "i < (32::nat)" "i < 8" "r1 + i < sz"
      then show "bit (NOT (ucast (addr ! (r1 div 8)) AND mask)) i = (\<not> bit_at addr (r1 + i))"
        unfolding bit_not_iff bit_last_byte [OF r8 \<open>r1 < sz\<close>, folded mask_def] by simp
    next
      fix i assume "r1 < sz" "i < (32::nat)" "\<not> (i < 8 \<and> r1 + i < sz)"
      then show "bit (NOT (ucast (addr ! (r1 div 8)) AND mask)) i = True"
        unfolding bit_not_iff bit_last_byte [OF r8 \<open>r1 < sz\<close>, folded mask_def] by auto
    qed (use before r1_def in auto)
    then show ?thesis unfolding eq using 0 by simp
  next
    case (Suc d)
    then have b: "?b \<noteq> 0" and d: "d < 32" "bit ?x d" "\<And>j. j < d \<Longrightarrow> \<not> bit ?x j"
      by (auto simp: set_def split: if_splits dest: ffs_eq_SucD)
    have "found_ok (\<lambda>i. \<not> bit_at addr i) off sz (?B + d)"
      unfolding found_ok_def
    proof (intro conjI allI impI)
      have "?b \<le> d" and w: "\<not> bit_at addr (?B + d)" using bx [OF d(1)] d(2) by simp_all
      then show "off \<le> ?B + d" using off by linarith
      show "\<not> bit_at addr (?B + d)" by (rule w)
    next
      fix i assume i: "off \<le> i \<and> i < ?B + d \<and> i < sz"
      then obtain k where k: "i = ?B + k" "?b \<le> k" using offset_split by blast
      then have "k < d" using i by simp
      then show "\<not> \<not> bit_at addr i" using bx [of k] bx [OF d(1)] d k by simp
    qed
    then show ?thesis unfolding eq using Suc by simp
  qed
qed

lemma skip_bytes_ge: "res \<le> skip_bytes v addr sz res"
  by (induction v addr sz res rule: skip_bytes.induct)
    (metis add_leD1 order_refl skip_bytes.simps)

lemma find_next_bit_beyond:
  assumes "sz < off"
  shows "sz \<le> cmfs_find_next_bit_set addr sz off"
proof -
  let ?B = "8 * (off div 8)" and ?b = "off mod 8"
  let ?x = "ucast (addr ! (off div 8)) AND NOT (push_bit ?b 1 - 1) :: u32"
  have off: "off = ?B + ?b" by simp
  have byte: "sz \<le> ?B + ffs ?x - 1" if "ffs ?x \<noteq> 0"
  proof (cases rule: ffs_cases [of ?x])
    case none
    then show ?thesis using that by simp
  next
    case (some d)
    then have "?b \<le> d" using bit_low_clear [of d "ucast (addr ! (off div 8))" ?b] by simp
    then show ?thesis using some(1) assms off by linarith
  qed
  have late: "sz \<le> ?B + 8" using assms off by linarith
  have "sz \<le> ?B" if "?b = 0" using assms off that by linarith
  then have "sz \<le> skip_bytes 0 addr sz (if ?b \<noteq> 0 then ?B + 8 else ?B)"
    using late skip_bytes_ge [of "if ?b \<noteq> 0 then ?B + 8 else ?B" 0 addr sz]
    by (cases "?b = 0") auto
  then show ?thesis
    unfolding cmfs_find_next_bit_set_def Let_def nat_and_7 nat_drop_bit_3 nat_push_bit_3
    using byte by simp
qed

function cmfs_get_bits_loop :: "bytes \<Rightarrow> nat \<Rightarrow> nat \<Rightarrow> nat \<Rightarrow> nat" where
  "cmfs_get_bits_loop addr sz offset set_bits =
     (let found = cmfs_find_next_bit_set addr sz offset
      in if found < sz then cmfs_get_bits_loop addr sz (found + 1) (set_bits + 1) else set_bits)"
  by pat_completeness auto
termination
proof (relation "measure (\<lambda>(addr, sz, offset, n). sz - offset)", simp)
  fix addr :: bytes and sz offset set_bits found
  assume f: "found = cmfs_find_next_bit_set addr sz offset" "found < sz"
  then have "offset \<le> sz" using find_next_bit_beyond [of sz offset addr] by (meson leI not_le)
  then have "offset \<le> found" using f find_next_bit_set_ok [of offset sz addr] by (simp add: found_ok_def)
  then show "((addr, sz, found + 1, set_bits + 1), addr, sz, offset, set_bits)
    \<in> measure (\<lambda>(addr, sz, offset, n). sz - offset)" using f by simp
qed

declare cmfs_get_bits_loop.simps [simp del]

definition cmfs_get_bits_set :: "bytes \<Rightarrow> nat \<Rightarrow> nat \<Rightarrow> nat" where
  "cmfs_get_bits_set addr sz offset = cmfs_get_bits_loop addr sz offset 0"

interpretation next_set: next_bit bit_at cmfs_find_next_bit_set
proof unfold_locales
  fix addr :: bytes and off sz i :: nat
  assume off: "off \<le> sz"
  have ok: "found_ok (bit_at addr) off sz (cmfs_find_next_bit_set addr sz off)"
    using off by (rule find_next_bit_set_ok)
  show "off \<le> cmfs_find_next_bit_set addr sz off" using ok by (simp add: found_ok_def)
  show "off \<le> i \<Longrightarrow> i < cmfs_find_next_bit_set addr sz off \<Longrightarrow> i < sz \<Longrightarrow> \<not> bit_at addr i"
    using ok by (simp add: found_ok_def)
  show "cmfs_find_next_bit_set addr sz off < sz \<Longrightarrow>
      bit_at addr (cmfs_find_next_bit_set addr sz off)"
    using ok by (simp add: found_ok_def)
qed

interpretation next_clear: next_bit "\<lambda>addr i. \<not> bit_at addr i" cmfs_find_next_bit_clear
proof unfold_locales
  fix addr :: bytes and off sz i :: nat
  assume off: "off \<le> sz" and sz: "sz \<le> 8 * length addr"
  have ok: "found_ok (\<lambda>i. \<not> bit_at addr i) off sz (cmfs_find_next_bit_clear addr sz off)"
    using off sz by (rule find_next_bit_clear_ok)
  show "off \<le> cmfs_find_next_bit_clear addr sz off" using ok by (simp add: found_ok_def)
  show "off \<le> i \<Longrightarrow> i < cmfs_find_next_bit_clear addr sz off \<Longrightarrow> i < sz \<Longrightarrow> \<not> \<not> bit_at addr i"
    using ok by (simp add: found_ok_def)
  show "cmfs_find_next_bit_clear addr sz off < sz \<Longrightarrow>
      \<not> bit_at addr (cmfs_find_next_bit_clear addr sz off)"
    using ok by (simp add: found_ok_def)
qed

lemma get_bits_loop_count:
  assumes "offset \<le> sz" and "sz \<le> 8 * length addr"
  shows "cmfs_get_bits_loop addr sz offset n = n + length (filter (bit_at addr) [offset..<sz])"
  using assms
proof (induction addr sz offset n rule: cmfs_get_bits_loop.induct)
  case (1 addr sz offset n)
  let ?f = "cmfs_find_next_bit_set addr sz offset"
  have skipped: "\<not> bit_at addr i" if "offset \<le> i" "i < ?f" "i < sz" for i
    using next_set.find_skipped "1.prems" that by blast
  show ?case
  proof (cases "?f < sz")
    case True
    have le: "offset \<le> ?f" using "1.prems" by (rule next_set.find_lower)
    have "[offset..<sz] = [offset..<?f] @ ?f # [Suc ?f..<sz]"
      using True le by (metis upt_conv_Cons upt_add_eq_append le_Suc_ex less_imp_le_nat)
    moreover have "filter (bit_at addr) [offset..<?f] = []"
      using skipped True by (auto simp: filter_empty_conv)
    moreover have "bit_at addr ?f" using "1.prems" True by (rule next_set.find_wanted)
    ultimately show ?thesis
      using "1.IH" [OF refl True] "1.prems" True
      by (simp add: cmfs_get_bits_loop.simps [of addr sz offset])
  next
    case False
    then have "filter (bit_at addr) [offset..<sz] = []"
      using skipped by (auto simp: filter_empty_conv)
    then show ?thesis using False by (simp add: cmfs_get_bits_loop.simps [of addr sz offset])
  qed
qed

end
