(* ===== verification/Mkfs_alloc.thy ===== *)
theory Mkfs_alloc
  imports Mkfs_params Bitops
begin

text \<open>
  The allocator of \<^verbatim>\<open>mkfs.cmfs/mkfs.c\<close>: allocation groups with their descriptors and
  bitmaps, the global bitmap of cluster groups, and the searches for free bits. A group
  descriptor is the block-sized buffer that the code writes to disk; its bitmap starts at
  \<open>o_bg_bitmap\<close>.
\<close>

section \<open>Access to the objects\<close>

definition upd_rec :: "rec_id \<Rightarrow> (disk_record \<Rightarrow> disk_record) \<Rightarrow> mkfs_state \<Rightarrow> mkfs_state" where
  "upd_rec r f s = s\<lparr>ms_recs := (ms_recs s)(r := f (ms_recs s r))\<rparr>"

definition upd_cgroup :: "nat \<Rightarrow> (alloc_group \<Rightarrow> alloc_group) \<Rightarrow> mkfs_state \<Rightarrow> mkfs_state" where
  "upd_cgroup i f s = s\<lparr>ms_groups := (ms_groups s)[i := f (ms_groups s ! i)]\<rparr>"

abbreviation (input) upd_gd :: "(bytes \<Rightarrow> bytes) \<Rightarrow> alloc_group \<Rightarrow> alloc_group" where
  "upd_gd f g \<equiv> g\<lparr>ag_gd := f (ag_gd g)\<rparr>"

definition strcpy_at :: "nat \<Rightarrow> bytes \<Rightarrow> bytes \<Rightarrow> bytes" where
  "strcpy_at off str buf = put off (str @ [0]) buf"

definition gd_bitmap :: "bytes \<Rightarrow> bytes" where
  "gd_bitmap gd = drop o_bg_bitmap gd"

definition gd_set_bit :: "nat \<Rightarrow> bytes \<Rightarrow> bytes" where
  "gd_set_bit nr gd = take o_bg_bitmap gd @ snd (cmfs_set_bit nr (gd_bitmap gd))"

definition gd_set_bits :: "nat \<Rightarrow> nat \<Rightarrow> bytes \<Rightarrow> bytes" where
  "gd_set_bits start n gd = fold (\<lambda>k. gd_set_bit (start + k)) [0..<n] gd"

text \<open>\<^verbatim>\<open>do_pwrite\<close> ends the process on an error; it does not look at short writes.\<close>

definition do_pwrite :: "bytes \<Rightarrow> u64 \<Rightarrow> unit mkfs" where
  "do_pwrite buf offset s =
     (case pwrite64 buf offset (ms_io s) of
        (Inl _, ch) \<Rightarrow> (Inl EXIT, s\<lparr>ms_io := ch\<rparr>)
      | (Inr _, ch) \<Rightarrow> (Inr (), s\<lparr>ms_io := ch\<rparr>))"

section \<open>Groups\<close>

text \<open>
  The search of \<^verbatim>\<open>alloc_from_group\<close> in a bitmap: \<open>Some None\<close> if it runs off the end and
  \<open>None\<close> if it never ends. When the first run of clear bits is too short the search goes on at
  the set bit that ends it, which is then an empty run of its own.
\<close>

partial_function (option) group_search :: "bytes \<Rightarrow> nat \<Rightarrow> nat \<Rightarrow> nat \<Rightarrow> nat option option" where
  "group_search bm bits count start_bit =
     (if start_bit < bits then
        let end_bit = cmfs_find_next_bit_set bm bits start_bit mod 65536
        in if int end_bit - int start_bit \<ge> int count then Some (Some start_bit)
           else group_search bm bits count end_bit
      else Some None)"

text \<open>The first allocated block of the group \<^verbatim>\<open>s->system_group\<close>, the only one this is called for.\<close>

definition alloc_from_group :: "u16 \<Rightarrow> u64 mkfs" where
  "alloc_from_group count s =
     (let g = ms_system_group s; gd = ag_gd g; le = ms_le s;
          bits = unat (ld16 le gd o_bg_bits)
      in case group_search (gd_bitmap gd) bits (unat count)
                (cmfs_find_first_bit_clear (gd_bitmap gd) bits mod 65536) of
           None \<Rightarrow> (Inl C_UNDEFINED, s)
         | Some None \<Rightarrow> (Inl EXIT, s)
         | Some (Some start_bit) \<Rightarrow>
             (Inr (ld64 le gd o_bg_blkno + of_nat start_bit),
              upd_rec (ag_alloc_inode g) (\<lambda>r. r\<lparr>bi_used_bits := bi_used_bits r + ucast count\<rparr>)
                (s\<lparr>ms_system_group := upd_gd (\<lambda>gd.
                    st16 le o_bg_free_bits_count (ld16 le gd o_bg_free_bits_count - count)
                      (gd_set_bits start_bit (unat count) gd)) g\<rparr>)))"

text \<open>The offset of the inode and its bit in the group.\<close>

definition alloc_inode :: "(u64 \<times> u16) mkfs" where
  "alloc_inode =
     bind_io (alloc_from_group 1) (\<lambda>blkno.
     get_io (\<lambda>s. (push_bit (ms_blocksize_bits s) blkno,
       ucast (blkno - ld64 (ms_le s) (ag_gd (ms_system_group s)) o_bg_blkno))))"

definition initialize_alloc_group ::
  "rec_id \<Rightarrow> u64 \<Rightarrow> u16 \<Rightarrow> u16 \<Rightarrow> u16 \<Rightarrow> alloc_group mkfs" where
  "initialize_alloc_group r blkno chain cpg bpc s =
     (let le = ms_le s;
          bits = cpg * bpc;
          gd = replicate (unat (ms_blocksize s)) 0;
          gd = strcpy_at o_bg_signature CMFS_GROUP_DESC_SIGNATURE gd;
          gd = st32 le o_bg_generation (ms_vol_generation s) gd;
          gd = st16 le o_bg_size (word_of_int (cmfs_group_bitmap_size (uint (ms_blocksize s)))) gd;
          gd = st16 le o_bg_bits bits gd;
          gd = st16 le o_bg_chain chain gd;
          gd = st64 le o_bg_parent_dinode
                 (drop_bit (ms_blocksize_bits s) (fe_off (ms_recs s r))) gd;
          gd = st64 le o_bg_blkno blkno gd;
          gd = gd_set_bit 0 gd;
          gd = st16 le o_bg_free_bits_count (bits - 1) gd
      in (Inr \<lparr> ag_gd = gd, ag_alloc_inode = r, ag_chain_free = 0, ag_chain_total = 0,
                ag_next = None \<rparr>,
          upd_rec r (\<lambda>rc. rc\<lparr> bi_total_bits := bi_total_bits rc + ucast bits,
                             bi_used_bits := bi_used_bits rc + 1 \<rparr>) s))"

section \<open>The global bitmap\<close>

definition group_total :: "bool \<Rightarrow> alloc_group \<Rightarrow> u32" where
  "group_total le g = ucast (ld16 le (ag_gd g) o_bg_bits)"

definition group_free :: "bool \<Rightarrow> alloc_group \<Rightarrow> u32" where
  "group_free le g = ucast (ld16 le (ag_gd g) o_bg_free_bits_count)"

text \<open>
  The groups after the first. \<open>blkno\<close> is computed anew for every group, always as the
  same block.
\<close>

definition next_groups_blkno :: "mkfs_state \<Rightarrow> u64" where
  "next_groups_blkno s =
     scast (push_bit (ms_cluster_size_bits s - ms_blocksize_bits s) (ucast (ms_global_cpg s) :: u32))"

definition link_group :: "nat \<Rightarrow> nat \<Rightarrow> mkfs_state \<Rightarrow> mkfs_state" where
  "link_group recs_per_inode i s =
     upd_cgroup (i - recs_per_inode) (\<lambda>g.
       (upd_gd (st64 (ms_le s) o_bg_next_group (next_groups_blkno s)) g)\<lparr>ag_next := Some i\<rparr>) s"

definition init_group :: "rec_id \<Rightarrow> nat \<Rightarrow> nat \<Rightarrow> nat \<Rightarrow> bool \<Rightarrow> unit mkfs" where
  "init_group r recs_per_inode i chain wrapped =
     bind_io (\<lambda>s. initialize_alloc_group r (next_groups_blkno s) (of_nat chain)
        (if i = unat (ms_nr_cluster_groups s) - 1 then ms_tail_group_bits s else ms_global_cpg s) 1 s) (\<lambda>g.
     upd_io (\<lambda>s.
       let s = s\<lparr>ms_groups := (ms_groups s)[i := g]\<rparr>;
           s = (if wrapped then link_group recs_per_inode i s else s);
           new = ms_groups s ! i
       in upd_cgroup chain (\<lambda>g. g\<lparr> ag_chain_total := ag_chain_total g + group_total (ms_le s) new,
                                   ag_chain_free := group_free (ms_le s) new \<rparr>) s))"

function init_groups :: "rec_id \<Rightarrow> nat \<Rightarrow> nat \<Rightarrow> nat \<Rightarrow> nat \<Rightarrow> bool \<Rightarrow> (nat \<times> bool) mkfs" where
  "init_groups r recs_per_inode n i chain wrapped =
     (if i < n then
        bind_io (init_group r recs_per_inode i chain wrapped) (\<lambda>_.
          if chain + 1 \<ge> recs_per_inode then init_groups r recs_per_inode n (i + 1) 0 True
          else init_groups r recs_per_inode n (i + 1) (chain + 1) wrapped)
      else ret_io (chain, wrapped))"
  by pat_completeness auto
termination
  by (relation "measure (\<lambda>(r, recs, n, i, chain, wrapped). n - i)") auto

declare init_groups.simps [simp del]

definition first_group_fields :: "mkfs_state \<Rightarrow> mkfs_state" where
  "first_group_fields s =
     (let c_to_b_bits = ms_cluster_size_bits s - ms_blocksize_bits s;
          first = drop_bit c_to_b_bits (ucast CMFS_SUPER_BLOCK_BLKNO + 1 + (push_bit c_to_b_bits 1 - 1))
      in s\<lparr> ms_first_cluster_group := first,
            ms_first_cluster_group_blkno := ucast (push_bit c_to_b_bits first) \<rparr>)"

definition reserve_cluster :: "rec_id \<Rightarrow> nat \<Rightarrow> mkfs_state \<Rightarrow> mkfs_state" where
  "reserve_cluster r i s =
     upd_rec r (\<lambda>rc. rc\<lparr>bi_used_bits := bi_used_bits rc + 1\<rparr>)
       (upd_cgroup 0 (upd_gd (\<lambda>gd. let gd = gd_set_bit i gd in
          st16 (ms_le s) o_bg_free_bits_count (ld16 (ms_le s) gd o_bg_free_bits_count - 1) gd)) s)"

definition initialize_bitmap :: "u32 \<Rightarrow> nat \<Rightarrow> rec_id \<Rightarrow> unit mkfs" where
  "initialize_bitmap bits unit_bits r =
     bind_io (upd_io (\<lambda>s. first_group_fields (upd_rec r (\<lambda>rc. rc\<lparr>
         file_size := ms_volume_size_in_bytes s, fe_off := 0, bi_used_bits := 0,
         bi_total_bits := 0 \<rparr>) (s\<lparr> ms_groups := replicate (unat (ms_nr_cluster_groups s)) zero_group,
         ms_bitmap := \<lparr> ab_valid_bits = bits, ab_unit = push_bit unit_bits 1,
                        ab_unit_bits = of_nat unit_bits, ab_bm_record = r, ab_num_chains = 0 \<rparr> \<rparr>)))) (\<lambda>_.
     bind_io (\<lambda>s. initialize_alloc_group r (ms_first_cluster_group_blkno s) 0 (ms_global_cpg s) 1 s) (\<lambda>g.
     bind_io (upd_io (\<lambda>s. s\<lparr>ms_groups := (ms_groups s)[0 := g]\<rparr>)) (\<lambda>_.
     bind_io (upd_io (\<lambda>s. fold (reserve_cluster r) [1..<unat (ms_first_cluster_group s) + 1] s)) (\<lambda>_.
     bind_io (upd_io (\<lambda>s. upd_cgroup 0 (\<lambda>g. g\<lparr> ag_chain_total := ucast (ms_global_cpg s),
         ag_chain_free := group_free (ms_le s) g \<rparr>) s)) (\<lambda>_.
     bind_io (get_io (\<lambda>s. (nat (cmfs_chain_recs_per_inode (uint (ms_blocksize s))),
                          unat (ms_nr_cluster_groups s)))) (\<lambda>(recs_per_inode, n).
     bind_io (init_groups r recs_per_inode n 1 1 False) (\<lambda>(chain, wrapped).
     bind_io (upd_io (\<lambda>s. s\<lparr>ms_bitmap := (ms_bitmap s)
         \<lparr>ab_num_chains := (if wrapped then recs_per_inode else chain)\<rparr>\<rparr>)) (\<lambda>_ s.
     if ucast (bi_total_bits (ms_recs s r)) \<noteq> ms_volume_size_in_clusters s then (Inl EXIT, s)
     else (Inr (), s)))))))))"

section \<open>Runs of clear bits\<close>

abbreviation (input) NO_BIT :: u32 where "NO_BIT \<equiv> -1"

partial_function (option) find_clear_loop ::
  "bytes \<Rightarrow> u32 \<Rightarrow> u32 \<Rightarrow> u32 \<Rightarrow> u32 \<Rightarrow> u32 \<Rightarrow> u32 option" where
  "find_clear_loop buf sz num_bits off count first_zero =
     (if sz - off + count \<ge> num_bits then
        let next_zero = of_nat (cmfs_find_next_bit_clear buf (unat sz) (unat off)) :: u32
        in if next_zero \<ge> sz then Some NO_BIT
           else
             let first_zero = (if next_zero \<noteq> off \<or> count = 0 then next_zero else first_zero);
                 count = (if next_zero \<noteq> off then 0 else count) + 1
             in if count = num_bits then Some first_zero
                else find_clear_loop buf sz num_bits (next_zero + 1) count first_zero
      else Some NO_BIT)"

definition find_clear_bits :: "bytes \<Rightarrow> u32 \<Rightarrow> u32 \<Rightarrow> u32 \<Rightarrow> u32 option" where
  "find_clear_bits buf sz num_bits offset =
     map_option (\<lambda>first_zero. if first_zero \<noteq> NO_BIT \<and> first_zero \<ge> sz then NO_BIT else first_zero)
       (find_clear_loop buf sz num_bits offset 0 NO_BIT)"

text \<open>
  The walk along one chain: the first group whose count of free bits is large enough
  decides, even when its free bits are not in one run.
\<close>

partial_function (option) find_in_chain ::
  "bool \<Rightarrow> alloc_group list \<Rightarrow> u64 \<Rightarrow> nat \<Rightarrow> (nat \<times> u32) option option" where
  "find_in_chain le groups num_bits i =
     (let gd = ag_gd (groups ! i)
      in if (ucast (ld16 le gd o_bg_free_bits_count) :: u64) \<ge> num_bits then
           case find_clear_bits (gd_bitmap gd) (ucast (ld16 le gd o_bg_bits)) (ucast num_bits) 0 of
             None \<Rightarrow> None
           | Some start_bit \<Rightarrow> Some (if start_bit \<noteq> NO_BIT then Some (i, start_bit) else None)
         else case ag_next (groups ! i) of
             None \<Rightarrow> Some None
           | Some j \<Rightarrow> find_in_chain le groups num_bits j)"

fun find_in_chains ::
  "bool \<Rightarrow> alloc_group list \<Rightarrow> u64 \<Rightarrow> nat list \<Rightarrow> (nat \<times> u32) option option" where
  "find_in_chains le groups num_bits [] = Some None"
| "find_in_chains le groups num_bits (i # is) =
     (case find_in_chain le groups num_bits i of
        None \<Rightarrow> None
      | Some None \<Rightarrow> find_in_chains le groups num_bits is
      | Some (Some hit) \<Rightarrow> Some (Some hit))"

definition alloc_from_bitmap :: "u64 \<Rightarrow> (u64 \<times> u64) mkfs" where
  "alloc_from_bitmap num_bits s =
     (let le = ms_le s; bitmap = ms_bitmap s
      in case find_in_chains le (ms_groups s) num_bits [0..<ab_num_chains bitmap] of
           None \<Rightarrow> (Inl C_UNDEFINED, s)
         | Some None \<Rightarrow> (Inl EXIT, s)
         | Some (Some (i, start_bit)) \<Rightarrow>
             let gd = ag_gd (ms_groups s ! i);
                 blkno = ld64 le gd o_bg_blkno;
                 start = (if blkno = ms_first_cluster_group_blkno s then ucast start_bit
                          else ucast start_bit
                               + drop_bit (ms_cluster_size_bits s) (push_bit (ms_blocksize_bits s) blkno));
                 unit_bits = unat (ab_unit_bits bitmap);
                 chain = unat (ld16 le gd o_bg_chain);
                 s = upd_cgroup i (upd_gd (\<lambda>gd. st16 le o_bg_free_bits_count
                       (ld16 le gd o_bg_free_bits_count - ucast num_bits) gd)) s;
                 s = upd_cgroup chain (\<lambda>g. g\<lparr>ag_chain_free := ag_chain_free g - ucast num_bits\<rparr>) s;
                 s = upd_rec (ab_bm_record bitmap)
                       (\<lambda>rc. rc\<lparr>bi_used_bits := bi_used_bits rc + ucast num_bits\<rparr>) s;
                 s = upd_cgroup i (upd_gd (gd_set_bits (unat start_bit) (unat num_bits))) s
             in (Inr (push_bit unit_bits start, push_bit unit_bits num_bits), s))"

definition alloc_bytes_from_bitmap :: "u64 \<Rightarrow> (u64 \<times> u64) mkfs" where
  "alloc_bytes_from_bitmap bytes s =
     (let num_bits = ucast (drop_bit (unat (ab_unit_bits (ms_bitmap s)))
                       (bytes + ucast (ab_unit (ms_bitmap s)) - 1)) :: u32
      in alloc_from_bitmap (ucast num_bits) s)"

end
