(* ===== verification/Mkfs_dir.thy ===== *)
theory Mkfs_dir
  imports Mkfs_alloc
begin

text \<open>
  Directories as \<^verbatim>\<open>mkfs.cmfs/mkfs.c\<close> builds them: the records of the system files, the
  buffer of a directory to which entries are added, and its byte order and output.
\<close>

section \<open>System files\<close>

datatype sfi_type = SFI_JOURNAL | SFI_CLUSTER | SFI_LOCAL_ALLOC | SFI_CHAIN | SFI_TRUNCATE_LOG | SFI_OTHER

record SystemFileInfo =
  sfi_name :: string
  sfi_type :: sfi_type
  sfi_global :: bool
  sfi_mode :: u32

abbreviation (input) S_IFREG_0644 :: u32 where "S_IFREG_0644 \<equiv> 0x81A4"
abbreviation (input) S_IFDIR_0755 :: u32 where "S_IFDIR_0755 \<equiv> 0x41ED"

definition sfi :: "string \<Rightarrow> sfi_type \<Rightarrow> SystemFileInfo" where
  "sfi name ty = \<lparr> sfi_name = name, sfi_type = ty, sfi_global = True, sfi_mode = S_IFREG_0644 \<rparr>"

definition system_files :: "SystemFileInfo list" where
  "system_files =
     [sfi ''bad_blocks'' SFI_OTHER, sfi ''global_inode_alloc'' SFI_CHAIN,
      sfi ''global_bitmap'' SFI_CLUSTER, sfi ''extent_alloc'' SFI_CHAIN,
      sfi ''inode_alloc'' SFI_CHAIN, sfi ''journal'' SFI_JOURNAL,
      sfi ''local_allc'' SFI_LOCAL_ALLOC, sfi ''truncate_log'' SFI_TRUNCATE_LOG]"

abbreviation (input) GLOBAL_INODE_ALLOC_SYSTEM_INODE :: nat where "GLOBAL_INODE_ALLOC_SYSTEM_INODE \<equiv> 1"
abbreviation (input) GLOBAL_BITMAP_SYSTEM_INODE :: nat where "GLOBAL_BITMAP_SYSTEM_INODE \<equiv> 2"
abbreviation (input) JOURNAL_SYSTEM_INODE :: nat where "JOURNAL_SYSTEM_INODE \<equiv> 5"
abbreviation (input) NUM_SYSTEM_INODES :: nat where "NUM_SYSTEM_INODES \<equiv> 8"

definition sys_blocks_needed :: "u32 \<Rightarrow> u32" where
  "sys_blocks_needed num_slots =
     fold (\<lambda>f num. if sfi_global f then num + 1 else num + num_slots) system_files 0"

definition blocks_needed :: "mkfs_state \<Rightarrow> u32" where
  "blocks_needed s = 3 + 1 + 1 + 1 + sys_blocks_needed (max 32 (ms_initial_slots s))"

definition CMFS_DIR_REC_LEN :: "nat \<Rightarrow> nat" where
  "CMFS_DIR_REC_LEN name_len = 4 * ((name_len + o_d_name + 3) div 4)"

definition system_dir_blocks_needed :: "mkfs_state \<Rightarrow> nat" where
  "system_dir_blocks_needed s =
     (let entries_per_block = unat (ms_blocksize s) div CMFS_DIR_REC_LEN 40
      in (unat (sys_blocks_needed (ms_initial_slots s)) + entries_per_block - 1) div entries_per_block)"

definition init_record :: "sfi_type \<Rightarrow> u32 \<Rightarrow> disk_record" where
  "init_record ty mode =
     zero_record\<lparr> fr_mode := mode, fr_links := (if S_ISDIR (ucast mode) then 0 else 1),
       fr_flags := CMFS_VALID_FL OR CMFS_SYSTEM_FL OR
         (case ty of
            SFI_JOURNAL \<Rightarrow> CMFS_JOURNAL_FL
          | SFI_LOCAL_ALLOC \<Rightarrow> CMFS_BITMAP_FL OR CMFS_LOCAL_ALLOC_FL
          | SFI_CLUSTER \<Rightarrow> CMFS_BITMAP_FL OR CMFS_CHAIN_FL
          | SFI_CHAIN \<Rightarrow> CMFS_BITMAP_FL OR CMFS_CHAIN_FL
          | SFI_TRUNCATE_LOG \<Rightarrow> CMFS_DEALLOC_FL
          | SFI_OTHER \<Rightarrow> 0),
       cluster_bitmap := (ty = SFI_CLUSTER) \<rparr>"

section \<open>The stand-in file system\<close>

text \<open>
  \<^verbatim>\<open>fill_fake_fs\<close> builds a file system of zeros with a block size and the feature flags, for
  the library functions that ask only for these.
\<close>

definition fill_fake_fs :: "mkfs_state \<Rightarrow> cmfs_filesys" where
  "fill_fake_fs s =
     (let le = ms_le s; f = ms_feature_flags s;
          buf = replicate (unat (ms_blocksize s)) 0;
          buf = st32 le (o_id2 + o_s_feature_incompat) (opt_incompat f) buf;
          buf = st32 le (o_id2 + o_s_feature_ro_compat) (opt_ro_compat f) buf;
          buf = st32 le (o_id2 + o_s_feature_compat) (opt_compat f) buf
      in \<lparr> fs_devname = [], fs_flags = 0, fs_io = ms_io s, fs_super = buf, fs_orig_super = None,
           fs_blocksize = ms_blocksize s, fs_clustersize = 0, fs_clusters = 0, fs_blocks = 0,
           fs_umask = 0, fs_root_blkno = 0, fs_sysdir_blkno = 0, fs_first_cg_blkno = 0,
           uuid_str = [], cpu_le = le \<rparr>)"

definition mkfs_swap_inode_from_cpu :: "mkfs_state \<Rightarrow> bytes \<Rightarrow> bytes" where
  "mkfs_swap_inode_from_cpu s di =
     (let fake_fs = fill_fake_fs s
      in cmfs_swap_inode_from_cpu (cpu_le fake_fs) (bsize fake_fs) di)"

definition mkfs_swap_group_desc_from_cpu :: "mkfs_state \<Rightarrow> bytes \<Rightarrow> bytes" where
  "mkfs_swap_group_desc_from_cpu s gd = cmfs_swap_group_desc_from_cpu (cpu_le (fill_fake_fs s)) gd"

definition mkfs_swap_group_desc_to_cpu :: "mkfs_state \<Rightarrow> bytes \<Rightarrow> bytes" where
  "mkfs_swap_group_desc_to_cpu s gd = cmfs_swap_group_desc_to_cpu (cpu_le (fill_fake_fs s)) gd"

section \<open>Adding entries\<close>

text \<open>\<open>p\<close> is the offset of the new block in the buffer of the directory.\<close>

definition mkfs_init_dir_trailer :: "mkfs_state \<Rightarrow> disk_record \<Rightarrow> nat \<Rightarrow> bytes \<Rightarrow> bytes" where
  "mkfs_init_dir_trailer s r p buf =
     (let fake_fs = fill_fake_fs s;
          blkno = drop_bit (ms_blocksize_bits s) (extent_off r + of_nat p)
      in if cmfs_supports_dir_trailer fake_fs then
           let buf = st16 (ms_le s) (p + o_d_rec_len) (of_nat (cmfs_dir_trailer_blk_off fake_fs)) buf
           in take p buf @ cmfs_init_dir_trailer fake_fs
                (drop_bit (ms_blocksize_bits s) (fe_off r)) blkno (drop p buf)
         else buf)"

text \<open>
  The place for an entry: the offset in the buffer. The last entry of the directory is used
  again when it is empty, or split when it is long enough; otherwise the directory grows by a
  block. The result is \<open>None\<close> when the directory has to grow.
\<close>

definition place_in_last :: "bool \<Rightarrow> nat \<Rightarrow> nat \<Rightarrow> bytes \<Rightarrow> (nat \<times> bytes) option" where
  "place_in_last le new_rec_len last_off buf =
     (let rec_len = unat (ld16 le buf (last_off + o_d_rec_len));
          real_len = CMFS_DIR_REC_LEN (unat (ld8 buf (last_off + o_d_name_len)));
          used = (ld64 le buf (last_off + o_d_inode) \<noteq> 0)
      in if (\<not> used \<and> rec_len \<ge> new_rec_len) \<or> rec_len \<ge> real_len + new_rec_len then
           if used then
             let buf = st16 le (last_off + real_len + o_d_rec_len) (of_nat rec_len - of_nat real_len) buf
             in Some (last_off + real_len, st16 le (last_off + o_d_rec_len) (of_nat real_len) buf)
           else Some (last_off, buf)
         else None)"

text \<open>
  The new block of a directory: the offset of the block, the buffer and the new \<^verbatim>\<open>file_size\<close>.
  The new size is an \<^verbatim>\<open>int\<close>. A negative one is an enormous number of bytes for \<^verbatim>\<open>memalign\<close>, which
  fails; the program ends when it fails. When the size has been cut to a number below the old one,
  the old contents are copied past the end of the new buffer.
\<close>

definition memalign_exit :: "int \<Rightarrow> unit mkfs" where
  "memalign_exit n s =
     (if n < 0 then (Inl EXIT, s)
      else case cmfs_malloc_block (ms_io s) of
        (Inl _, ch) \<Rightarrow> (Inl EXIT, s\<lparr>ms_io := ch\<rparr>)
      | (Inr _, ch) \<Rightarrow> (Inr (), s\<lparr>ms_io := ch\<rparr>))"

definition grown_size :: "u32 \<Rightarrow> disk_record \<Rightarrow> bytes option \<Rightarrow> int" where
  "grown_size blocksize r old =
     (case old of
        Some _ \<Rightarrow> c_int (uint (file_size r + ucast blocksize))
      | None \<Rightarrow> c_int (uint blocksize))"

definition grown_buffer :: "mkfs_state \<Rightarrow> disk_record \<Rightarrow> bytes option \<Rightarrow> nat \<Rightarrow> nat \<times> bytes" where
  "grown_buffer s r old new_size =
     (let (p, buf) = (case old of
              Some b \<Rightarrow> (let n = unat (file_size r) in (n, take n b @ replicate (new_size - n) 0))
            | None \<Rightarrow> (0, replicate new_size 0));
          buf = st64 (ms_le s) (p + o_d_inode) 0 buf;
          buf = st16 (ms_le s) (p + o_d_rec_len) (ucast (ms_blocksize s)) buf
      in (p, if \<not> ms_inline_data s \<or> fr_dir_data r = None then mkfs_init_dir_trailer s r p buf
             else buf))"

definition grow_directory :: "disk_record \<Rightarrow> bytes option \<Rightarrow> (nat \<times> bytes \<times> u64) mkfs" where
  "grow_directory r old s =
     (let new_size = grown_size (ms_blocksize s) r old
      in bind_io (memalign_exit new_size) (\<lambda>_ s.
           if old \<noteq> None \<and> word_of_int new_size < file_size r then (Inl C_UNDEFINED, s)
           else case grown_buffer s r old (nat new_size) of
                  (p, buf) \<Rightarrow> (Inr (p, buf, word_of_int new_size), s)) s)"

text \<open>The place for an entry, in the last record or in a new block.\<close>

definition find_place :: "dir_id \<Rightarrow> disk_record \<Rightarrow> nat \<Rightarrow> (nat \<times> bytes \<times> u64) mkfs" where
  "find_place d r new_rec_len s =
     (let dir = ms_dirs s d
      in case Option.bind (dd_buf dir) (place_in_last (ms_le s) new_rec_len (dd_last_off dir)) of
           Some (off, buf) \<Rightarrow> (Inr (off, buf, file_size r), s)
         | None \<Rightarrow> grow_directory r (dd_buf dir) s)"

definition fill_entry :: "bool \<Rightarrow> string \<Rightarrow> u64 \<Rightarrow> u8 \<Rightarrow> nat \<Rightarrow> bytes \<Rightarrow> bytes" where
  "fill_entry le name blkno ty off buf =
     (let buf = st8 (off + o_d_name_len) (of_nat (length name)) buf;
          buf = st64 le (off + o_d_inode) blkno buf;
          buf = st8 (off + o_d_file_type) ty buf
      in strcpy_at (off + o_d_name) (ascii name) buf)"

definition upd_dir :: "dir_id \<Rightarrow> (dir_data \<Rightarrow> dir_data) \<Rightarrow> mkfs_state \<Rightarrow> mkfs_state" where
  "upd_dir d f s = s\<lparr>ms_dirs := (ms_dirs s)(d := f (ms_dirs s d))\<rparr>"

abbreviation (input) CMFS_FT_REG_FILE :: u8 where "CMFS_FT_REG_FILE \<equiv> 1"
abbreviation (input) CMFS_FT_DIR :: u8 where "CMFS_FT_DIR \<equiv> 2"

text \<open>
  The entry must fit into the buffer with the null byte that \<^verbatim>\<open>strcpy\<close> writes after the name.
\<close>

definition put_entry ::
  "dir_id \<Rightarrow> rec_id \<Rightarrow> string \<Rightarrow> u64 \<Rightarrow> u8 \<Rightarrow> nat \<times> bytes \<times> u64 \<Rightarrow> unit mkfs" where
  "put_entry d rid name byte_off ty place s =
     (case place of (off, buf, fsize) \<Rightarrow>
        if off + o_d_name + length name + 1 > length buf then (Inl C_UNDEFINED, s)
        else
          let buf = fill_entry (ms_le s) name (drop_bit (ms_blocksize_bits s) byte_off) ty off buf;
              s = upd_dir d (\<lambda>dir. dir\<lparr> dd_buf := Some buf, dd_last_off := off \<rparr>) s
          in (Inr (), upd_rec rid (\<lambda>r. r\<lparr> file_size := fsize,
                fr_links := (if ty = CMFS_FT_DIR then fr_links r + 1 else fr_links r) \<rparr>) s))"

text \<open>A directory without a record is a null pointer.\<close>

definition add_entry_to_directory :: "dir_id \<Rightarrow> string \<Rightarrow> u64 \<Rightarrow> u8 \<Rightarrow> unit mkfs" where
  "add_entry_to_directory d name byte_off ty s =
     (case dd_record (ms_dirs s d) of
        None \<Rightarrow> (Inl C_UNDEFINED, s)
      | Some rid \<Rightarrow>
          bind_io (find_place d (ms_recs s rid) (CMFS_DIR_REC_LEN (length name)))
            (put_entry d rid name byte_off ty) s)"

section \<open>Output\<close>

text \<open>\<^verbatim>\<open>write_metadata\<close> copies \<open>file_size\<close> bytes into a cleared buffer of \<open>extent_len\<close> bytes.\<close>

definition write_metadata :: "disk_record \<Rightarrow> bytes option \<Rightarrow> unit mkfs" where
  "write_metadata r src s =
     (let buf = replicate (unat (extent_len r)) 0; n = unat (file_size r)
      in case src of
           None \<Rightarrow> do_pwrite buf (extent_off r) s
         | Some b \<Rightarrow>
             if n > length buf \<or> n > length b then (Inl C_UNDEFINED, s)
             else do_pwrite (put 0 (take n b) buf) (extent_off r) s)"

text \<open>
  Both directions convert to the order of the CPU. The result of the conversion of a block
  is ignored.
\<close>

definition swap_dir_block :: "mkfs_state \<Rightarrow> bool \<Rightarrow> nat \<Rightarrow> bytes \<Rightarrow> bytes" where
  "swap_dir_block s trailer offset buf =
     (let fake_fs = fill_fake_fs s;
          t = cmfs_dir_trailer_blk_off fake_fs;
          buf = snd (cmfs_swap_dir_entries_to_cpu (ms_le s) offset
                       (if trailer then t else unat (ms_blocksize s)) buf)
      in if trailer then cmfs_swap_dir_trailer (ms_le s) (offset + t) buf else buf)"

definition mkfs_swap_dir :: "mkfs_state \<Rightarrow> disk_record \<Rightarrow> bytes \<Rightarrow> bytes" where
  "mkfs_swap_dir s r buf =
     (if extent_len r = 0 then buf
      else
        let bs = unat (ms_blocksize s);
            trailer = (fr_dir_data r = None \<and> cmfs_supports_dir_trailer (fill_fake_fs s))
        in fold (\<lambda>k. swap_dir_block s trailer (k * bs))
             [0..<(unat (file_size r) + bs - 1) div bs] buf)"

definition mkfs_swap_dir_from_cpu :: "mkfs_state \<Rightarrow> disk_record \<Rightarrow> bytes \<Rightarrow> bytes" where
  "mkfs_swap_dir_from_cpu s r buf = mkfs_swap_dir s r buf"

definition mkfs_swap_dir_to_cpu :: "mkfs_state \<Rightarrow> disk_record \<Rightarrow> bytes \<Rightarrow> bytes" where
  "mkfs_swap_dir_to_cpu s r buf = mkfs_swap_dir s r buf"

definition write_directory_data :: "dir_id \<Rightarrow> unit mkfs" where
  "write_directory_data d s =
     (case (dd_record (ms_dirs s d), dd_buf (ms_dirs s d)) of
        (None, _) \<Rightarrow> (Inl C_UNDEFINED, s)
      | (Some rid, b) \<Rightarrow>
          let r = ms_recs s rid
          in if extent_len r = 0 then (Inr (), s)
             else case b of
               None \<Rightarrow> (Inr (), s)
             | Some buf \<Rightarrow>
                 let buf = mkfs_swap_dir_from_cpu s r buf
                 in bind_io (write_metadata r (Some buf)) (\<lambda>_.
                    upd_io (\<lambda>s. upd_dir d (\<lambda>dir. dir\<lparr>dd_buf := Some (mkfs_swap_dir_to_cpu s r buf)\<rparr>) s)) s)"

end
