(* ===== verification/System_files.thy ===== *)
theory System_files
  imports Mkfs_dir
begin

text \<open>
  The table of the system files in \<^verbatim>\<open>include/cmfs-kernel/cmfs_fs.h\<close>, by which a name is made for the
  number of a system inode, next to the table \<^verbatim>\<open>system_files\<close> from which mkfs makes the files.
\<close>

record cmfs_system_inode_info =
  si_name :: "string option"
  si_iflags :: u32
  si_mode :: u32

definition system_inode :: "string \<Rightarrow> u32 \<Rightarrow> cmfs_system_inode_info" where
  "system_inode name flags = \<lparr> si_name = Some name, si_iflags = flags, si_mode = 0x81A4 \<rparr>"

text \<open>The last entry, of the truncate log, is not initialized: its name is a null pointer.\<close>

definition cmfs_system_inodes :: "cmfs_system_inode_info list" where
  "cmfs_system_inodes =
     [system_inode ''bad_blocks'' 0,
      system_inode ''global_inode_alloc'' (CMFS_BITMAP_FL OR CMFS_CHAIN_FL),
      system_inode ''global_bitmap'' 0,
      system_inode ''extent_alloc'' (CMFS_BITMAP_FL OR CMFS_CHAIN_FL),
      system_inode ''inode_alloc'' (CMFS_BITMAP_FL OR CMFS_CHAIN_FL),
      system_inode ''journal'' CMFS_JOURNAL_FL,
      system_inode ''local_alloc'' (CMFS_BITMAP_FL OR CMFS_LOCAL_ALLOC_FL),
      \<lparr> si_name = None, si_iflags = 0, si_mode = 0 \<rparr>]"

text \<open>
  \<^verbatim>\<open>cmfs_sprintf_system_inode_name\<close>, into a buffer of \<open>len\<close> characters: the number of
  characters of the name and what the buffer holds. A null name and a number outside the
  table are undefined.
\<close>

definition cmfs_sprintf_system_inode_name :: "nat \<Rightarrow> nat \<Rightarrow> errcode + (int \<times> string)" where
  "cmfs_sprintf_system_inode_name len ty =
     (if ty < length cmfs_system_inodes then
        (case si_name (cmfs_system_inodes ! ty) of
           None \<Rightarrow> Inl C_UNDEFINED
         | Some name \<Rightarrow> Inr (int (length name), take (len - 1) name))
      else Inl C_UNDEFINED)"

text \<open>
  The names agree with those of mkfs for the first six files only: mkfs misspells the local
  allocator, and the truncate log has no name in the table. The flags also differ for the global
  bitmap.
\<close>

lemma system_file_names:
  "map (\<lambda>i. cmfs_sprintf_system_inode_name 40 i
         = Inr (int (length (sfi_name (system_files ! i))), sfi_name (system_files ! i))) [0..<8]
     = [True, True, True, True, True, True, False, False]"
  "map (\<lambda>i. si_iflags (cmfs_system_inodes ! i) OR CMFS_VALID_FL OR CMFS_SYSTEM_FL
         = fr_flags (init_record (sfi_type (system_files ! i)) 0x81A4)) [0..<8]
     = [True, True, False, True, True, True, True, False]"
  by code_simp+

end
