(* ===== verification/Percent.thy ===== *)
theory Percent
  imports Prelude Complex_Main "HOL-Library.Log_Nat"
begin

text \<open>
  The percentage of \<^verbatim>\<open>libtools-internal/progress.c\<close>, which is computed in double precision: a
  double is a rational number, and each operation rounds its exact result to the 53 bits of
  the significand, to the even neighbour in the middle. The numbers here are far from the
  ends of the range of exponents.
\<close>

section \<open>Rounding to a double\<close>

text \<open>The exponent of a positive rational: the power of two at or below it.\<close>

definition exponent :: "rat \<Rightarrow> int" where
  "exponent x =
     (let (a, b) = quotient_of x;
          k = int (floorlog 2 (nat a)) - int (floorlog 2 (nat b))
      in if x < 2 powi k then k - 1 else k)"

definition round_even :: "rat \<Rightarrow> int" where
  "round_even x =
     (let r = \<lfloor>x\<rfloor>; d = x - of_int r in
      if d < 1 / 2 then r else if d > 1 / 2 then r + 1 else if even r then r else r + 1)"

definition double :: "rat \<Rightarrow> rat" where
  "double x =
     (if x = 0 then 0
      else let e = exponent x - 52 in of_int (round_even (x / 2 powi e)) * 2 powi e)"

definition calc_percent :: "u64 \<Rightarrow> u64 \<Rightarrow> u32" where
  "calc_percent num dem =
     (let percent = double (double (of_nat (unat num)) / double (of_nat (unat dem)))
      in word_of_int \<lfloor>double (double (100 * percent) + 1 / 2)\<rfloor>)"

section \<open>Rounding is monotone\<close>

lemma exponent_bounds:
  assumes "0 < x"
  shows "2 powi exponent x \<le> x \<and> x < 2 powi (exponent x + 1)"
proof -
  obtain a b where q: "quotient_of x = (a, b)" by force
  have b: "0 < b" using quotient_of_denom_pos [OF q] .
  have x: "x = of_int a / of_int b" using quotient_of_div [OF q] .
  have a: "0 < a" using assms b unfolding x by (simp add: zero_less_divide_iff)
  define i j where "i = floorlog 2 (nat a)" and "j = floorlog 2 (nat b)"
  have nat_bounds: "2 ^ (floorlog 2 (nat n) - 1) \<le> (of_int n :: rat)
      \<and> (of_int n :: rat) < 2 ^ floorlog 2 (nat n) \<and> 0 < floorlog 2 (nat n)" if "0 < n" for n
  proof -
    have "(2 :: nat) ^ (floorlog 2 (nat n) - 1) \<le> nat n \<and> nat n < 2 ^ floorlog 2 (nat n)"
      using floorlog_bounds [of "nat n" 2] that by simp
    then have "(of_nat (2 ^ (floorlog 2 (nat n) - 1)) :: rat) \<le> of_nat (nat n)
        \<and> (of_nat (nat n) :: rat) < of_nat (2 ^ floorlog 2 (nat n))"
      by (simp only: of_nat_le_iff of_nat_less_iff)
    moreover have "0 < floorlog 2 (nat n)" using that by (simp add: floorlog_def)
    ultimately show ?thesis using that by simp
  qed
  have A: "2 powi (int i - 1) \<le> (of_int a :: rat)" "(of_int a :: rat) < 2 powi int i"
    and B: "2 powi (int j - 1) \<le> (of_int b :: rat)" "(of_int b :: rat) < 2 powi int j"
    using nat_bounds [OF a] nat_bounds [OF b]
    by (auto simp: i_def j_def power_int_def nat_diff_distrib')
  have pos: "(0 :: rat) < of_int b" using b by simp
  let ?k = "int i - int j"
  have up: "x < 2 powi (?k + 1)"
  proof -
    have "(of_int a :: rat) < 2 powi int i" by (rule A)
    also have "\<dots> = 2 powi (?k + 1) * 2 powi (int j - 1)" by (simp add: power_int_add [symmetric])
    also have "\<dots> \<le> 2 powi (?k + 1) * of_int b" using B(1) by (intro mult_left_mono) simp_all
    finally show ?thesis using pos by (simp add: x divide_less_eq)
  qed
  have low: "2 powi (?k - 1) < x"
  proof -
    have "(2 :: rat) powi (?k - 1) * of_int b < 2 powi (?k - 1) * 2 powi int j"
      using B(2) by (intro mult_strict_left_mono) simp_all
    also have "\<dots> = 2 powi (int i - 1)" using power_int_add [of "2 :: rat" "?k - 1" "int j"] by simp
    also have "\<dots> \<le> of_int a" by (rule A)
    finally show ?thesis using pos by (simp add: x less_divide_eq)
  qed
  show ?thesis
  proof (cases "x < 2 powi ?k")
    case True
    then show ?thesis using low q by (simp add: exponent_def i_def j_def)
  next
    case False
    then show ?thesis using up q by (simp add: exponent_def i_def j_def)
  qed
qed

lemma round_even_mono: "x \<le> y \<Longrightarrow> round_even x \<le> round_even y"
proof -
  assume le: "x \<le> y"
  have m: "\<lfloor>x\<rfloor> \<le> \<lfloor>y\<rfloor>" using le by (rule floor_mono)
  show ?thesis
  proof (cases "\<lfloor>x\<rfloor> = \<lfloor>y\<rfloor>")
    case True
    then show ?thesis using le by (auto simp: round_even_def Let_def)
  next
    case False
    then have "\<lfloor>x\<rfloor> + 1 \<le> \<lfloor>y\<rfloor>" using m by simp
    then show ?thesis by (auto simp: round_even_def Let_def)
  qed
qed

lemma round_even_int [simp]: "round_even (of_int n) = n"
  by (simp add: round_even_def)

lemma exponent_mono: "0 < x \<Longrightarrow> x \<le> y \<Longrightarrow> exponent x \<le> exponent y"
proof (rule ccontr)
  assume a: "0 < x" "x \<le> y" "\<not> exponent x \<le> exponent y"
  have "y < 2 powi (exponent y + 1)" using exponent_bounds [of y] a by simp
  also have "\<dots> \<le> 2 powi exponent x" using a by (intro power_int_increasing) simp_all
  also have "\<dots> \<le> x" using exponent_bounds [of x] a by simp
  finally show False using a by simp
qed

lemma double_bounds:
  assumes "0 < x"
  shows "2 powi exponent x \<le> double x \<and> double x \<le> 2 powi (exponent x + 1)"
proof -
  let ?e = "exponent x - 52"
  have b: "2 powi exponent x \<le> x" "x < 2 powi (exponent x + 1)" using exponent_bounds [OF assms] by simp_all
  have split: "(2 :: rat) powi exponent x = of_int (2 ^ 52) * 2 powi ?e"
    "(2 :: rat) powi (exponent x + 1) = of_int (2 ^ 53) * 2 powi ?e"
    using power_int_add [of "2 :: rat" 52 ?e] power_int_add [of "2 :: rat" 53 ?e]
    by (simp_all add: add.commute)
  have "of_int (2 ^ 52) \<le> x / 2 powi ?e" and "x / 2 powi ?e \<le> of_int (2 ^ 53)"
    using b unfolding split by (simp_all only: pos_le_divide_eq pos_divide_le_eq zero_less_power_int zero_less_numeral less_imp_le)
  from round_even_mono [OF this(1)] round_even_mono [OF this(2)]
  have "2 ^ 52 \<le> round_even (x / 2 powi ?e)" "round_even (x / 2 powi ?e) \<le> 2 ^ 53"
    by (simp_all only: round_even_int)
  then have "(of_int (2 ^ 52) :: rat) \<le> of_int (round_even (x / 2 powi ?e))"
    "(of_int (round_even (x / 2 powi ?e)) :: rat) \<le> of_int (2 ^ 53)"
    by (simp_all only: of_int_le_iff)
  then show ?thesis using assms unfolding split
    by (simp add: double_def Let_def del: of_int_power)
qed

lemma double_mono:
  assumes "0 \<le> x" and "x \<le> y"
  shows "double x \<le> double y"
proof (cases "x = 0")
  case True
  then show ?thesis
  proof (cases "y = 0")
    case False
    then have "0 < y" using assms by simp
    then have "0 < (2 :: rat) powi exponent y" by simp
    then have "0 \<le> double y" using double_bounds [OF \<open>0 < y\<close>] by (meson less_imp_le order_trans)
    then show ?thesis using True by (simp add: double_def)
  qed simp
next
  case False
  then have x: "0 < x" and y: "0 < y" using assms by simp_all
  have le: "exponent x \<le> exponent y" by (rule exponent_mono [OF x assms(2)])
  show ?thesis
  proof (cases "exponent x = exponent y")
    case True
    have "x / 2 powi (exponent y - 52) \<le> y / 2 powi (exponent y - 52)"
      using assms(2) by (intro divide_right_mono) simp_all
    from round_even_mono [OF this] show ?thesis
      using x y True by (simp add: double_def Let_def mult_right_mono)
  next
    case False
    then have "exponent x + 1 \<le> exponent y" using le by simp
    then have "(2 :: rat) powi (exponent x + 1) \<le> 2 powi exponent y"
      by (intro power_int_increasing) simp_all
    then show ?thesis using double_bounds [OF x] double_bounds [OF y] by linarith
  qed
qed

lemma double_nonneg: "0 \<le> x \<Longrightarrow> 0 \<le> double x"
  using double_mono [of 0 x] by (simp add: double_def)

lemma double_pos: "0 < x \<Longrightarrow> 0 < double x"
proof -
  assume "0 < x"
  have "0 < (2 :: rat) powi exponent x" by simp
  then show "0 < double x" using double_bounds [OF \<open>0 < x\<close>] by linarith
qed

lemma double_small: "double 1 = 1" "double 100 = 100" "double (201 / 2) = 201 / 2" "double (1 / 2) = 1 / 2"
  by code_simp+

section \<open>The percentage\<close>

definition percent_of :: "rat \<Rightarrow> int" where
  "percent_of p = \<lfloor>double (double (100 * double p) + 1 / 2)\<rfloor>"

lemma percent_of_mono: "0 \<le> p \<Longrightarrow> p \<le> q \<Longrightarrow> percent_of p \<le> percent_of q"
  unfolding percent_of_def
  by (intro floor_mono double_mono add_right_mono mult_left_mono add_nonneg_nonneg double_nonneg
      mult_nonneg_nonneg) simp_all

lemma percent_of_ends: "percent_of 0 = 0" "percent_of 1 = 100"
  by (simp_all add: percent_of_def double_def [of 0] double_small floor_eq_iff)

lemma calc_percent_of:
  "calc_percent num dem = word_of_int (percent_of (double (of_nat (unat num)) / double (of_nat (unat dem))))"
  by (simp add: calc_percent_def percent_of_def)

lemma ratio_bounds:
  assumes "unat num \<le> unat dem" and "0 < dem"
  defines "r \<equiv> double (of_nat (unat num)) / double (of_nat (unat dem))"
  shows "0 \<le> r \<and> r \<le> 1"
proof -
  have "0 < double (of_nat (unat dem))"
    using assms(2) by (intro double_pos) (simp only: of_nat_0_less_iff unat_gt_0 word_greater_zero_iff, simp)
  moreover have "double (of_nat (unat num)) \<le> double (of_nat (unat dem))"
    using assms(1) by (intro double_mono) (simp_all only: of_nat_le_iff of_nat_0_le_iff)
  moreover have "0 \<le> double (of_nat (unat num))" by (rule double_nonneg) (rule of_nat_0_le_iff)
  ultimately show ?thesis by (simp add: r_def divide_le_eq)
qed

lemma percent_range:
  assumes "num \<le> dem" and "0 < dem"
  shows "unat (calc_percent num dem) = nat (percent_of (double (of_nat (unat num)) / double (of_nat (unat dem))))"
    and "unat (calc_percent num dem) \<le> 100"
proof -
  let ?r = "double (of_nat (unat num)) / double (of_nat (unat dem))"
  have r: "0 \<le> ?r" "?r \<le> 1" using ratio_bounds [of num dem] assms by (simp_all add: word_le_nat_alt)
  have p: "0 \<le> percent_of ?r" "percent_of ?r \<le> 100"
    using percent_of_mono [OF order_refl r(1)] percent_of_mono [OF r] by (simp_all add: percent_of_ends)
  have "calc_percent num dem = of_nat (nat (percent_of ?r))"
    using p(1) by (simp add: calc_percent_of)
  then show "unat (calc_percent num dem) = nat (percent_of ?r)"
    using p(2) unat_of_nat_u32 [of "nat (percent_of ?r)"] by simp
  then show "unat (calc_percent num dem) \<le> 100" using p(2) by simp
qed

end
