(* ===== verification/Progress.thy ===== *)
theory Progress
  imports Percent Layout Clib
begin

text \<open>
  The progress bar of \<^verbatim>\<open>libtools-internal/progress.c\<close>. The static variables of the file are the
  record \<open>progress_state\<close>; the list \<^verbatim>\<open>progresses\<close> is a list of the displays with their
  addresses, \<open>progbuf\<close> is the buffer \<^verbatim>\<open>progbuf\<close> points to, \<open>tl_stdout\<close> is what has been printed,
  \<open>tl_heap\<close> says which allocations fail. A failed assertion, an access outside the
  buffer or to a display that is not in the list is \<open>C_UNDEFINED\<close>.
  Names are shorter than 2^31 characters, so that the offsets, which the code keeps in 32
  bits, are natural numbers here.
\<close>

section \<open>State\<close>

datatype progress_length = PROGRESS_TRUNC | PROGRESS_SHORT | PROGRESS_LONG

fun length_rank :: "progress_length \<Rightarrow> nat" where
  "length_rank PROGRESS_TRUNC = 0"
| "length_rank PROGRESS_SHORT = 1"
| "length_rank PROGRESS_LONG = 2"

text \<open>The order of the enumeration.\<close>

instantiation progress_length :: linorder
begin

definition less_eq_progress_length :: "progress_length \<Rightarrow> progress_length \<Rightarrow> bool" where
  "less_eq_progress_length a b \<longleftrightarrow> length_rank a \<le> length_rank b"

definition less_progress_length :: "progress_length \<Rightarrow> progress_length \<Rightarrow> bool" where
  "less_progress_length a b \<longleftrightarrow> length_rank a < length_rank b"

instance
proof
  fix x y :: progress_length
  show "x \<le> y \<Longrightarrow> y \<le> x \<Longrightarrow> x = y"
    by (cases x; cases y) (simp_all add: less_eq_progress_length_def)
qed (auto simp: less_eq_progress_length_def less_progress_length_def)

end

record tools_progress =
  p_id :: nat
  p_len :: progress_length
  p_long_name :: string
  p_short_name :: string
  p_current :: u64
  p_count :: u64
  p_percent :: u32
  p_spinner_pos :: nat

record progress_state =
  progresses :: "tools_progress list"
  nextline :: char
  last_tick :: u32
  progress_on :: bool
  progbuf :: string
  progbuf_len :: u32
  tl_next :: nat
  tl_heap :: "bool list"
  tl_stdout :: string

text \<open>The variable \<^verbatim>\<open>COLUMNS\<close>, and whether the standard output is a terminal.\<close>

record tools_env =
  te_columns :: "string option"
  te_tty :: bool

datatype prog_ref = Null_prog | Disabled_prog | Prog nat

abbreviation (input) TRUNC_LEN :: nat where "TRUNC_LEN \<equiv> 3"
abbreviation (input) PERCENTAGE_LEN :: nat where "PERCENTAGE_LEN \<equiv> 5"
abbreviation (input) SPINNER_LEN :: nat where "SPINNER_LEN \<equiv> 2"
abbreviation (input) DEFAULT_WIDTH :: u32 where "DEFAULT_WIDTH \<equiv> 80"
abbreviation (input) PROGBUF_EXTRA :: u32 where "PROGBUF_EXTRA \<equiv> 2"
abbreviation (input) PROGRESS_OPEN :: string where "PROGRESS_OPEN \<equiv> ''[''"
abbreviation (input) PROGRESS_SEP :: string where "PROGRESS_SEP \<equiv> '' > ''"
abbreviation (input) PROGRESS_CLOSE :: string where "PROGRESS_CLOSE \<equiv> '']''"
abbreviation (input) PROGRESS_ELIPS :: string where "PROGRESS_ELIPS \<equiv> ''... ''"
abbreviation (input) nul :: char where "nul \<equiv> CHR 0x00"
abbreviation (input) newline :: char where "newline \<equiv> CHR 0x0A"
abbreviation (input) carriage_return :: char where "carriage_return \<equiv> CHR 0x0D"

definition spinner :: "nat \<Rightarrow> char" where
  "spinner i = [CHR 0x5C, CHR ''|'', CHR ''/'', CHR ''-''] ! (i mod 4)"

definition progress_init :: progress_state where
  "progress_init =
     \<lparr> progresses = [], nextline = nul, last_tick = 0, progress_on = False,
       progbuf = replicate 82 nul, progbuf_len = DEFAULT_WIDTH + PROGBUF_EXTRA,
       tl_next = 0, tl_heap = [], tl_stdout = [] \<rparr>"

definition tl_malloc :: "(progress_state, bool) io" where
  "tl_malloc s =
     (case tl_heap s of
        [] \<Rightarrow> (Inr True, s)
      | failing # rest \<Rightarrow> (Inr (\<not> failing), s\<lparr>tl_heap := rest\<rparr>))"

section \<open>Steps of a display\<close>

text \<open>The time of day is given by seconds and microseconds.\<close>

definition check_tick :: "int \<times> int \<Rightarrow> progress_state \<Rightarrow> bool \<times> progress_state" where
  "check_tick now s =
     (let tick = word_of_int (fst now * 8 + snd now div (1000000 div 8)) :: u32 in
      if tick = last_tick s then (False, s) else (True, s\<lparr>last_tick := tick\<rparr>))"

definition check_percent :: "tools_progress \<Rightarrow> bool \<times> tools_progress" where
  "check_percent prog =
     (if p_count prog = 0 then (True, prog)
      else
        let prog = (if p_current prog \<ge> p_count prog then prog\<lparr>p_current := p_count prog\<rparr> else prog);
            new_percent = calc_percent (p_current prog) (p_count prog)
        in if new_percent = p_percent prog then (False, prog)
           else (True, prog\<lparr>p_percent := new_percent\<rparr>))"

definition step_spinner :: "tools_progress \<Rightarrow> tools_progress" where
  "step_spinner prog = prog\<lparr>p_spinner_pos := (p_spinner_pos prog + 1) mod 4\<rparr>"

section \<open>The length of the bar\<close>

definition progress_length_reset :: "tools_progress list \<Rightarrow> tools_progress list" where
  "progress_length_reset ps = map (\<lambda>p. p\<lparr>p_len := PROGRESS_LONG\<rparr>) ps"

text \<open>The lengths of the names are kept in 32 bits.\<close>

definition name_len :: "string \<Rightarrow> nat" where
  "name_len s = unat (of_nat (length s) :: u32)"

definition length_one_prog :: "tools_progress \<Rightarrow> nat" where
  "length_one_prog prog =
     (case p_len prog of
        PROGRESS_LONG \<Rightarrow> name_len (p_long_name prog)
      | PROGRESS_SHORT \<Rightarrow> name_len (p_short_name prog)
      | PROGRESS_TRUNC \<Rightarrow> TRUNC_LEN)
     + (if p_count prog \<noteq> 0 then PERCENTAGE_LEN else SPINNER_LEN)"

fun length_loop :: "bool \<Rightarrow> tools_progress list \<Rightarrow> u32 \<Rightarrow> u32" where
  "length_loop first [] len = len"
| "length_loop first (p # ps) len =
     length_loop False ps
       (len + of_nat (length (if first then PROGRESS_OPEN else PROGRESS_SEP))
            + of_nat (length_one_prog p))"

text \<open>\<open>None\<close> is the assertion that there is a display.\<close>

definition progress_length_check :: "tools_progress list \<Rightarrow> u32 option" where
  "progress_length_check ps =
     (if ps = [] then None else Some (length_loop True ps 0 + of_nat (length PROGRESS_CLOSE)))"

text \<open>The first display that is longer than one before it.\<close>

fun shrink_boundary :: "progress_length \<Rightarrow> tools_progress list \<Rightarrow> nat option" where
  "shrink_boundary len [] = None"
| "shrink_boundary len (p # ps) =
     (if len > p_len p then map_option Suc (shrink_boundary (p_len p) ps)
      else if len < p_len p then Some 0
      else map_option Suc (shrink_boundary len ps))"

definition shorter :: "progress_length \<Rightarrow> progress_length" where
  "shorter len = (if len = PROGRESS_LONG then PROGRESS_SHORT else PROGRESS_TRUNC)"

text \<open>\<open>None\<close> when nothing can be shrunk any more.\<close>

definition progress_length_shrink :: "tools_progress list \<Rightarrow> tools_progress list option" where
  "progress_length_shrink ps =
     (let i = (case shrink_boundary PROGRESS_LONG ps of Some i \<Rightarrow> i | None \<Rightarrow> 0);
          p = ps ! i
      in if p_len p = PROGRESS_TRUNC then None
         else Some (ps[i := p\<lparr>p_len := shorter (p_len p)\<rparr>]))"

section \<open>The width of the terminal\<close>

definition display_columns :: "tools_env \<Rightarrow> u32" where
  "display_columns env =
     (case te_columns env of
        None \<Rightarrow> DEFAULT_WIDTH
      | Some cols \<Rightarrow> let tmp = atoi cols in if tmp \<noteq> 0 then tmp else DEFAULT_WIDTH)"

definition check_display :: "tools_env \<Rightarrow> (progress_state, u32) io" where
  "check_display env s =
     (let columns = display_columns env;
          tmp = columns + PROGBUF_EXTRA
      in if tmp > progbuf_len s then
           (case tl_malloc s of
              (Inr True, s) \<Rightarrow>
                (Inr columns, s\<lparr>progbuf_len := tmp, progbuf := replicate (unat tmp) nul,
                               progresses := progress_length_reset (progresses s)\<rparr>)
            | (_, s) \<Rightarrow> (Inr (progbuf_len s - PROGBUF_EXTRA), s))
         else (Inr columns, s))"

section \<open>Printing\<close>

text \<open>
  \<^verbatim>\<open>snprintf\<close> of a text at an offset of the buffer, with the size that the caller
  gives it: what is written has to lie in the buffer. The value of the call is the length
  of the whole text.
\<close>

definition snprintf_at :: "nat \<Rightarrow> nat \<Rightarrow> string \<Rightarrow> string \<Rightarrow> string option" where
  "snprintf_at off sz text buf =
     (if sz = 0 then Some buf
      else let out = take (sz - 1) text @ [nul] in
        if off + length out \<le> length buf then Some (put off out buf) else None)"

fun decimal_digits :: "nat \<Rightarrow> string" where
  "decimal_digits n =
     (if n < 10 then [char_of (48 + n)] else decimal_digits (n div 10) @ [char_of (48 + n mod 10)])"

declare decimal_digits.simps [simp del]

text \<open>The conversion \<^verbatim>\<open>%3u\<close>.\<close>

definition padded3 :: "nat \<Rightarrow> string" where
  "padded3 n = (let d = decimal_digits n in replicate (3 - length d) CHR '' '' @ d)"

definition prog_name :: "tools_progress \<Rightarrow> string" where
  "prog_name prog =
     (case p_len prog of
        PROGRESS_LONG \<Rightarrow> p_long_name prog
      | PROGRESS_SHORT \<Rightarrow> p_short_name prog
      | PROGRESS_TRUNC \<Rightarrow> take TRUNC_LEN (p_short_name prog))"

definition prog_state_text :: "tools_progress \<Rightarrow> string" where
  "prog_state_text prog =
     (if p_count prog \<noteq> 0 then '' '' @ padded3 (unat (p_percent prog)) @ ''%''
      else [CHR '' '', spinner (p_spinner_pos prog)])"

text \<open>
  One display at an offset of the buffer; the sizes are 64-bit words, so that a size that
  is used up becomes a huge one. The result is the number of characters.
\<close>

definition print_one_prog ::
  "tools_progress \<Rightarrow> nat \<Rightarrow> u64 \<Rightarrow> string \<Rightarrow> (nat \<times> string) option" where
  "print_one_prog prog off len buf =
     (let name = prog_name prog; state = prog_state_text prog in
      Option.bind (snprintf_at off (unat len) name buf) (\<lambda>buf.
      Option.bind (snprintf_at (off + length name) (unat (len - of_nat (length name))) state buf) (\<lambda>buf.
      Some (length name + length state, buf))))"

definition print_trailer :: "char \<Rightarrow> nat \<Rightarrow> u64 \<Rightarrow> string \<Rightarrow> string option" where
  "print_trailer nl off len buf =
     Option.bind (snprintf_at off (unat len) PROGRESS_CLOSE buf) (\<lambda>buf.
     if \<not> 1 \<le> len then None
     else Option.bind (snprintf_at (off + 1) (unat (len - 1)) [nl] buf) (\<lambda>buf.
       if \<not> 1 < len - 1 then None else Some buf))"

text \<open>The size that \<open>columns - offset\<close> is, a 32-bit word, and the loop over the displays.\<close>

abbreviation (input) left :: "u32 \<Rightarrow> nat \<Rightarrow> u32" where
  "left columns offset \<equiv> columns - of_nat offset"

fun printf_loop ::
  "u32 \<Rightarrow> bool \<Rightarrow> tools_progress list \<Rightarrow> nat \<Rightarrow> string \<Rightarrow> (nat \<times> string) option" where
  "printf_loop columns first [] offset buf = Some (offset, buf)"
| "printf_loop columns first (p # ps) offset buf =
     (let sep = (if first then PROGRESS_OPEN else PROGRESS_SEP) in
      Option.bind (snprintf_at offset (unat (left columns offset)) sep buf) (\<lambda>buf.
      let offset = offset + length sep in
      Option.bind (print_one_prog p offset (ucast (left columns offset)) buf) (\<lambda>(n, buf).
      let offset = offset + n in
      if (of_nat offset :: u32) < columns then printf_loop columns False ps offset buf else None)))"

definition or_undefined :: "string option \<Rightarrow> (progress_state, unit) io" where
  "or_undefined res s =
     (case res of None \<Rightarrow> (Inl C_UNDEFINED, s) | Some buf \<Rightarrow> (Inr (), s\<lparr>progbuf := buf\<rparr>))"

definition progress_printf :: "u32 \<Rightarrow> (progress_state, unit) io" where
  "progress_printf columns s =
     (if progresses s = [] then (Inr (), s)
      else or_undefined
        (Option.bind (printf_loop columns True (progresses s) 0 (progbuf s)) (\<lambda>(offset, buf).
           if \<not> (of_nat offset :: u32) < columns then None
           else print_trailer (nextline s) offset (ucast (left (progbuf_len s) offset)) buf)) s)"

definition truncate_printf :: "u32 \<Rightarrow> (progress_state, unit) io" where
  "truncate_printf columns s =
     (let last_prog = last (progresses s) in
      if length_one_prog last_prog + length PROGRESS_CLOSE + length PROGRESS_ELIPS \<le> unat columns then
        or_undefined
          (Option.bind (snprintf_at 0 (unat columns) PROGRESS_ELIPS (progbuf s)) (\<lambda>buf.
           let offset = length PROGRESS_ELIPS in
           Option.bind (print_one_prog last_prog offset (ucast (left columns offset)) buf) (\<lambda>(n, buf).
           let offset = offset + n in
           if \<not> (of_nat offset :: u32) < columns then None
           else print_trailer (nextline s) offset (ucast (left (progbuf_len s) offset)) buf))) s
      else or_undefined (if progbuf s = [] then None else Some ((progbuf s)[0 := nul])) s)"

section \<open>Computing and writing the bar\<close>

lemma shrink_boundary_less: "shrink_boundary len ps = Some i \<Longrightarrow> i < length ps"
  by (induction len ps arbitrary: i rule: shrink_boundary.induct) (auto split: if_splits)

lemma shorter_rank: "len \<noteq> PROGRESS_TRUNC \<Longrightarrow> Suc (length_rank (shorter len)) = length_rank len"
  by (cases len) (simp_all add: shorter_def)

lemma sum_update_less:
  fixes f :: "'a \<Rightarrow> nat"
  shows "i < length xs \<Longrightarrow> f x < f (xs ! i) \<Longrightarrow> sum_list (map f (xs[i := x])) < sum_list (map f xs)"
proof (induction xs arbitrary: i)
  case (Cons y ys)
  then show ?case by (cases i) simp_all
qed simp

lemma shrink_measure:
  assumes "progress_length_shrink ps = Some ps'" and "ps \<noteq> []"
  shows "sum_list (map (length_rank \<circ> p_len) ps') < sum_list (map (length_rank \<circ> p_len) ps)"
proof -
  define i where "i = (case shrink_boundary PROGRESS_LONG ps of Some i \<Rightarrow> i | None \<Rightarrow> 0)"
  have i: "i < length ps"
    using assms(2) shrink_boundary_less by (auto simp: i_def split: option.splits)
  have "p_len (ps ! i) \<noteq> PROGRESS_TRUNC"
    and ps': "ps' = ps[i := (ps ! i)\<lparr>p_len := shorter (p_len (ps ! i))\<rparr>]"
    using assms(1) by (auto simp: progress_length_shrink_def i_def [symmetric] Let_def split: if_splits)
  then show ?thesis unfolding ps' using i shorter_rank [of "p_len (ps ! i)"]
    by (intro sum_update_less) simp_all
qed

text \<open>The loop of \<^verbatim>\<open>progress_compute\<close>: the displays as they are shown, and whether to truncate.\<close>

function shrink_loop :: "u32 \<Rightarrow> tools_progress list \<Rightarrow> (tools_progress list \<times> bool) option" where
  "shrink_loop columns ps =
     (case progress_length_check ps of
        None \<Rightarrow> None
      | Some len \<Rightarrow>
          if len > columns then
            (case progress_length_shrink ps of
               None \<Rightarrow> Some (ps, True)
             | Some ps' \<Rightarrow> shrink_loop columns ps')
          else Some (ps, False))"
  by pat_completeness auto
termination
proof (relation "measure (\<lambda>(columns, ps). sum_list (map (length_rank \<circ> p_len) ps))")
  fix columns len ps ps'
  assume "progress_length_check ps = Some len" and "progress_length_shrink ps = Some ps'"
  then show "((columns, ps'), (columns, ps))
      \<in> measure (\<lambda>(columns, ps). sum_list (map (length_rank \<circ> p_len) ps))"
    using shrink_measure [of ps ps'] by (simp add: progress_length_check_def split: if_splits)
qed simp

declare shrink_loop.simps [simp del]

definition progress_compute :: "tools_env \<Rightarrow> (progress_state, unit) io" where
  "progress_compute env =
     bind_io (check_display env) (\<lambda>columns s.
       case shrink_loop columns (progresses s) of
         None \<Rightarrow> (Inl C_UNDEFINED, s)
       | Some (ps, trunc) \<Rightarrow>
           (if trunc then truncate_printf columns else progress_printf columns)
             (s\<lparr>progresses := ps\<rparr>))"

definition progress_clear :: "tools_env \<Rightarrow> (progress_state, unit) io" where
  "progress_clear env =
     bind_io (check_display env) (\<lambda>columns s.
       if unat columns \<le> length (progbuf s) then
         or_undefined
           (snprintf_at (unat columns) (unat (progbuf_len s - columns)) [nextline s]
              (replicate (unat columns) CHR '' '' @ drop (unat columns) (progbuf s))) s
       else (Inl C_UNDEFINED, s))"

text \<open>Printing the buffer up to its NUL.\<close>

definition progress_write :: "(progress_state, unit) io" where
  "progress_write s =
     (if nul \<in> set (progbuf s) then
        (Inr (), s\<lparr>tl_stdout := tl_stdout s @ takeWhile (\<lambda>c. c \<noteq> nul) (progbuf s)\<rparr>)
      else (Inl C_UNDEFINED, s))"

section \<open>The interface\<close>

definition bar_visible :: "progress_state \<Rightarrow> bool" where
  "bar_visible s \<longleftrightarrow> progress_on s \<and> progresses s \<noteq> [] \<and> nextline s = carriage_return"

definition tools_progress_clear :: "tools_env \<Rightarrow> (progress_state, unit) io" where
  "tools_progress_clear env s =
     (if \<not> bar_visible s then (Inr (), s)
      else bind_io (progress_clear env) (\<lambda>_. progress_write) s)"

definition tools_progress_restore :: "tools_env \<Rightarrow> (progress_state, unit) io" where
  "tools_progress_restore env s =
     (if \<not> bar_visible s then (Inr (), s)
      else bind_io (progress_compute env) (\<lambda>_. progress_write) s)"

definition tools_progress_enable :: "tools_env \<Rightarrow> progress_state \<Rightarrow> progress_state" where
  "tools_progress_enable env s =
     (let s = s\<lparr>progress_on := True\<rparr> in
      if progresses s \<noteq> [] then s
      else s\<lparr>nextline := (if te_tty env then carriage_return else newline)\<rparr>)"

definition tools_progress_disable :: "progress_state \<Rightarrow> progress_state" where
  "tools_progress_disable s = s\<lparr>progress_on := False\<rparr>"

definition tools_progress_enabled :: "progress_state \<Rightarrow> bool" where
  "tools_progress_enabled s = progress_on s"

text \<open>
  The allocations are the display and the two copies of the names; without a short name
  the long one is taken, and without both there is nothing to copy.
\<close>

definition tools_progress_alloc ::
  "string option \<Rightarrow> string option \<Rightarrow> u64 \<Rightarrow> (progress_state, tools_progress option) io" where
  "tools_progress_alloc long_name short_name count =
     bind_io tl_malloc (\<lambda>ok.
       if \<not> ok then ret_io None
       else bind_io tl_malloc (\<lambda>ok1.
         case (case short_name of Some n \<Rightarrow> Some n | None \<Rightarrow> long_name) of
           None \<Rightarrow> err_io C_UNDEFINED
         | Some short \<Rightarrow>
             bind_io tl_malloc (\<lambda>ok2 s.
               if \<not> ok1 \<or> \<not> ok2 then (Inr None, s)
               else (Inr (Some
                 \<lparr> p_id = tl_next s, p_len = PROGRESS_TRUNC,
                   p_long_name = (case long_name of Some n \<Rightarrow> n | None \<Rightarrow> []), p_short_name = short,
                   p_current = 0, p_count = count, p_percent = 0, p_spinner_pos = 0 \<rparr>),
                 s\<lparr>tl_next := tl_next s + 1\<rparr>))))"

definition tools_progress_start ::
  "tools_env \<Rightarrow> string option \<Rightarrow> string option \<Rightarrow> u64 \<Rightarrow> (progress_state, prog_ref) io" where
  "tools_progress_start env long_name short_name count s =
     (if \<not> progress_on s then (Inr Disabled_prog, s)
      else bind_io (tools_progress_alloc long_name short_name count) (\<lambda>prog.
        case prog of
          None \<Rightarrow> ret_io Null_prog
        | Some p \<Rightarrow>
            bind_io (upd_io (\<lambda>s. s\<lparr>progresses := progresses s @ [p]\<rparr>)) (\<lambda>_.
            bind_io (tools_progress_clear env) (\<lambda>_.
            bind_io (upd_io (\<lambda>s. s\<lparr>progresses := progress_length_reset (progresses s)\<rparr>)) (\<lambda>_.
            bind_io (progress_compute env) (\<lambda>_.
            bind_io progress_write (\<lambda>_. ret_io (Prog (p_id p)))))))) s)"

definition find_prog :: "nat \<Rightarrow> tools_progress list \<Rightarrow> tools_progress option" where
  "find_prog i ps = find (\<lambda>p. p_id p = i) ps"

definition set_prog :: "tools_progress \<Rightarrow> tools_progress list \<Rightarrow> tools_progress list" where
  "set_prog q ps = map (\<lambda>p. if p_id p = p_id q then q else p) ps"

definition step_prog ::
  "tools_env \<Rightarrow> int \<times> int \<Rightarrow> tools_progress \<Rightarrow> u32 \<Rightarrow> (progress_state, unit) io" where
  "step_prog env now prog step s =
     (let prog = prog\<lparr>p_current := p_current prog + ucast step\<rparr>;
          (changed, prog) = check_percent prog;
          s = s\<lparr>progresses := set_prog prog (progresses s)\<rparr>
      in if \<not> changed then (Inr (), s)
         else
           let (ticked, s) = check_tick now s in
           if \<not> ticked \<and> p_percent prog \<noteq> 100 \<and> (p_count prog = 0 \<or> p_percent prog \<noteq> 0) then (Inr (), s)
           else
             let prog = (if p_count prog = 0 then step_spinner prog else prog);
                 s = s\<lparr>progresses := set_prog prog (progresses s)\<rparr>
             in bind_io (progress_compute env) (\<lambda>_. progress_write) s)"

definition tools_progress_step ::
  "tools_env \<Rightarrow> int \<times> int \<Rightarrow> prog_ref \<Rightarrow> u32 \<Rightarrow> (progress_state, unit) io" where
  "tools_progress_step env now ref step s =
     (case ref of
        Disabled_prog \<Rightarrow> (Inr (), s)
      | Null_prog \<Rightarrow> (Inl C_UNDEFINED, s)
      | Prog i \<Rightarrow>
          (case find_prog i (progresses s) of
             None \<Rightarrow> (Inl C_UNDEFINED, s)
           | Some prog \<Rightarrow> step_prog env now prog step s))"

definition tools_progress_stop :: "tools_env \<Rightarrow> prog_ref \<Rightarrow> (progress_state, unit) io" where
  "tools_progress_stop env ref s =
     (case ref of
        Disabled_prog \<Rightarrow> (Inr (), s)
      | Null_prog \<Rightarrow> (case tools_progress_clear env s of (_, s) \<Rightarrow> (Inl C_UNDEFINED, s))
      | Prog i \<Rightarrow>
          bind_io (tools_progress_clear env) (\<lambda>_ s.
            case find_prog i (progresses s) of
              None \<Rightarrow> (Inl C_UNDEFINED, s)
            | Some prog \<Rightarrow>
                let s = s\<lparr>progresses := filter (\<lambda>p. p_id p \<noteq> i) (progresses s)\<rparr> in
                if progresses s = [] then (Inr (), s)
                else tools_progress_restore env
                  (s\<lparr>progresses := progress_length_reset (progresses s)\<rparr>)) s)"

end
