(* ===== verification/Progress_properties.thy ===== *)
theory Progress_properties
  imports Progress
begin

text \<open>
  The progress bar: no call fails an assertion or leaves the buffer, what is printed fits
  the width of the terminal, how the displays are shortened, and the percentage.
\<close>

section \<open>Invariant\<close>

text \<open>The room a display may take in the bar, whatever the length of its name.\<close>

definition weight :: "tools_progress \<Rightarrow> nat" where
  "weight p = length (p_long_name p) + length (p_short_name p) + 11"

definition prog_ok :: "tools_progress \<Rightarrow> bool" where
  "prog_ok p \<longleftrightarrow> unat (p_percent p) \<le> 100 \<and> nul \<notin> set (p_long_name p) \<and> nul \<notin> set (p_short_name p)"

definition bar_room :: "tools_progress list \<Rightarrow> bool" where
  "bar_room ps \<longleftrightarrow> sum_list (map weight ps) < 2 ^ 31"

definition progress_ok :: "progress_state \<Rightarrow> bool" where
  "progress_ok s \<longleftrightarrow> length (progbuf s) = unat (progbuf_len s) \<and> 82 \<le> unat (progbuf_len s)
     \<and> (\<forall>p\<in>set (progresses s). prog_ok p \<and> p_id p < tl_next s)
     \<and> distinct (map p_id (progresses s)) \<and> bar_room (progresses s)
     \<and> (progress_on s \<or> progresses s \<noteq> [] \<longrightarrow> nextline s \<in> {carriage_return, newline})"

text \<open>Widths for which \<^verbatim>\<open>columns + PROGBUF_EXTRA\<close> does not wrap around.\<close>

definition width_ok :: "tools_env \<Rightarrow> bool" where
  "width_ok env \<longleftrightarrow> unat (display_columns env) + 2 < 2 ^ 32"

text \<open>Two lists of displays that differ in the lengths chosen for the names only.\<close>

abbreviation (input) same_progs :: "tools_progress list \<Rightarrow> tools_progress list \<Rightarrow> bool" where
  "same_progs ps qs \<equiv> progress_length_reset ps = progress_length_reset qs"

lemma reset_idem [simp]: "progress_length_reset (progress_length_reset ps) = progress_length_reset ps"
  by (simp add: progress_length_reset_def comp_def)

lemma prog_len_simps [simp]:
  "prog_ok (p\<lparr>p_len := l\<rparr>) = prog_ok p" "weight (p\<lparr>p_len := l\<rparr>) = weight p"
  by (simp_all add: prog_ok_def weight_def)

lemma reset_facts:
  "map p_id (progress_length_reset ps) = map p_id ps"
  "map weight (progress_length_reset ps) = map weight ps"
  "(\<forall>p\<in>set (progress_length_reset ps). prog_ok p \<and> p_id p < n) = (\<forall>p\<in>set ps. prog_ok p \<and> p_id p < n)"
  "progress_length_reset ps = [] \<longleftrightarrow> ps = []"
  by (simp_all add: progress_length_reset_def comp_def)

lemma same_progs_facts:
  assumes "same_progs ps qs"
  shows "map p_id ps = map p_id qs" and "map weight ps = map weight qs"
    and "(\<forall>p\<in>set ps. prog_ok p \<and> p_id p < n) = (\<forall>p\<in>set qs. prog_ok p \<and> p_id p < n)"
    and "ps = [] \<longleftrightarrow> qs = []"
proof -
  show "map p_id ps = map p_id qs" using assms reset_facts(1) by metis
  show "map weight ps = map weight qs" using assms reset_facts(2) by metis
  show "(\<forall>p\<in>set ps. prog_ok p \<and> p_id p < n) = (\<forall>p\<in>set qs. prog_ok p \<and> p_id p < n)"
    using assms reset_facts(3) [of ps n] reset_facts(3) [of qs n] by simp
  show "ps = [] \<longleftrightarrow> qs = []" using assms reset_facts(4) by metis
qed

lemma progress_ok_same:
  assumes "progress_ok s" and "same_progs ps (progresses s)"
  shows "progress_ok (s\<lparr>progresses := ps\<rparr>)"
  using assms same_progs_facts [OF assms(2)] by (simp add: progress_ok_def bar_room_def)

lemma reset_update:
  "i < length ps \<Longrightarrow> same_progs (ps[i := (ps ! i)\<lparr>p_len := l\<rparr>]) ps"
  by (simp add: progress_length_reset_def map_update list_update_same_conv)

lemma shrink_same: "progress_length_shrink ps = Some qs \<Longrightarrow> ps \<noteq> [] \<Longrightarrow> same_progs qs ps"
proof -
  assume a: "progress_length_shrink ps = Some qs" "ps \<noteq> []"
  define i where "i = (case shrink_boundary PROGRESS_LONG ps of Some i \<Rightarrow> i | None \<Rightarrow> 0)"
  have i: "i < length ps" using a(2) shrink_boundary_less by (auto simp: i_def split: option.splits)
  have "qs = ps[i := (ps ! i)\<lparr>p_len := shorter (p_len (ps ! i))\<rparr>]"
    using a(1) by (auto simp: progress_length_shrink_def i_def [symmetric] Let_def split: if_splits)
  then show "same_progs qs ps" using reset_update [OF i] by simp
qed

section \<open>The text of the bar\<close>

definition one_text :: "tools_progress \<Rightarrow> string" where
  "one_text p = prog_name p @ prog_state_text p"

fun bar_text :: "bool \<Rightarrow> tools_progress list \<Rightarrow> string" where
  "bar_text first [] = []"
| "bar_text first (p # ps) = (if first then PROGRESS_OPEN else PROGRESS_SEP) @ one_text p @ bar_text False ps"

fun bar_len :: "bool \<Rightarrow> tools_progress list \<Rightarrow> nat" where
  "bar_len first [] = 0"
| "bar_len first (p # ps) =
     (if first then 1 else 3) + length_one_prog p + bar_len False ps"

lemma decimal_digits_le: "n \<le> 100 \<Longrightarrow> length (decimal_digits n) \<le> 3 \<and> decimal_digits n \<noteq> []"
proof -
  assume n: "n \<le> 100"
  have one: "decimal_digits m = [char_of (48 + m)]" if "m < 10" for m
    using that by (simp add: decimal_digits.simps)
  have two: "length (decimal_digits m) \<le> 2" if "m < 100" for m
    using that one [of "m div 10"] one [of m] by (subst decimal_digits.simps) (simp add: one)
  show ?thesis using n two [of "n div 10"] by (subst decimal_digits.simps, subst decimal_digits.simps) simp
qed

lemma length_padded3: "n \<le> 100 \<Longrightarrow> length (padded3 n) = 3"
  using decimal_digits_le [of n] by (simp add: padded3_def Let_def)

lemma name_len_ok: "length s < 2 ^ 32 \<Longrightarrow> name_len s = length s"
  by (simp add: name_len_def unat_of_nat_u32)

lemma weight_bounds: "weight p < 2 ^ 31 \<Longrightarrow> length (p_long_name p) < 2 ^ 32 \<and> length (p_short_name p) < 2 ^ 32"
  by (simp add: weight_def)

lemma one_prog_weight:
  assumes "weight p < 2 ^ 31"
  shows "length_one_prog p + 3 \<le> weight p"
  using weight_bounds [OF assms] by (cases "p_len p") (auto simp: length_one_prog_def name_len_ok weight_def)

lemma length_one_text:
  assumes "prog_ok p" and "weight p < 2 ^ 31"
  shows "length (one_text p) \<le> length_one_prog p"
  using assms weight_bounds [OF assms(2)]
  by (cases "p_len p")
    (auto simp: one_text_def prog_name_def prog_state_text_def length_one_prog_def name_len_ok
      prog_ok_def length_padded3)

lemma room_Cons: "bar_room (p # ps) \<Longrightarrow> weight p < 2 ^ 31 \<and> bar_room ps"
  by (simp add: bar_room_def)

lemma bar_len_weight: "bar_room ps \<Longrightarrow> bar_len first ps \<le> sum_list (map weight ps)"
proof (induction first ps rule: bar_len.induct)
  case (2 first p ps)
  then show ?case using one_prog_weight [of p] room_Cons [OF "2.prems"] by auto
qed simp

lemma length_bar_text:
  "bar_room ps \<Longrightarrow> \<forall>p\<in>set ps. prog_ok p \<Longrightarrow> length (bar_text first ps) \<le> bar_len first ps"
proof (induction first ps rule: bar_len.induct)
  case (2 first p ps)
  then show ?case using length_one_text [of p] room_Cons [OF "2.prems"(1)] by auto
qed simp

lemma length_loop_sum:
  "bar_room ps \<Longrightarrow> unat len + bar_len first ps < 2 ^ 32 \<Longrightarrow>
    unat (length_loop first ps len) = unat len + bar_len first ps"
proof (induction first ps len rule: length_loop.induct)
  case (2 first p ps len)
  let ?sep = "if first then 1 else 3 :: nat"
  have "unat (len + of_nat ?sep + of_nat (length_one_prog p)) = unat len + ?sep + length_one_prog p"
  proof -
    have small: "unat len + ?sep + length_one_prog p < 2 ^ 32" using "2.prems"(2) by simp
    have "len + of_nat ?sep + of_nat (length_one_prog p) = of_nat (unat len + ?sep + length_one_prog p)"
      by simp
    then show ?thesis using unat_of_nat_u32 [OF small] by simp
  qed
  then show ?case using "2.IH" "2.prems" room_Cons [OF "2.prems"(1)] by (cases first) simp_all
qed simp

lemma length_check_ok:
  assumes "bar_room ps" and "ps \<noteq> []"
  shows "\<exists>n. progress_length_check ps = Some n \<and> unat n = bar_len True ps + 1"
proof -
  have b: "bar_len True ps < 2 ^ 31"
    using bar_len_weight [OF assms(1), of True] assms(1) by (simp add: bar_room_def)
  then have l: "unat (length_loop True ps 0) = bar_len True ps"
    using length_loop_sum [OF assms(1), of 0 True] by simp
  have "unat (length_loop True ps 0 + 1) = bar_len True ps + 1"
    using b l by (subst unat_add_lem [THEN iffD1]) simp_all
  then show ?thesis using assms(2) by (simp add: progress_length_check_def)
qed

section \<open>Writing into the buffer\<close>

text \<open>The buffer of \<open>n\<close> characters starts with a text.\<close>

definition written :: "nat \<Rightarrow> string \<Rightarrow> string \<Rightarrow> bool" where
  "written n t buf \<longleftrightarrow> length buf = n \<and> take (length t) buf = t"

lemma snprintf_written:
  assumes "written n t buf" and "off = length t" and "length text < k" and "off + length text < n"
  obtains buf' where "snprintf_at off k text buf = Some buf'" and "written n (t @ text) buf'"
    and "buf' ! (off + length text) = nul"
proof
  have n: "length buf = n" and t: "take (length t) buf = t" using assms(1) by (simp_all add: written_def)
  let ?buf' = "put off (text @ [nul]) buf"
  have eq: "?buf' = t @ text @ nul # drop (length t + Suc (length text)) buf"
    by (simp add: put_def t assms(2))
  show "snprintf_at off k text buf = Some ?buf'"
    using assms(2-4) n by (simp add: snprintf_at_def Let_def)
  show "written n (t @ text) ?buf'" unfolding eq using assms(2,4) n by (simp add: written_def)
  show "?buf' ! (off + length text) = nul" unfolding eq by (simp add: nth_append assms(2))
qed

lemma print_one_written:
  assumes "written n t buf" and "off = length t" and "length (one_text p) < unat k"
    and "off + length (one_text p) < n"
  obtains buf' where "print_one_prog p off k buf = Some (length (one_text p), buf')"
    and "written n (t @ one_text p) buf'"
proof -
  let ?a = "prog_name p" and ?b = "prog_state_text p"
  have len: "length (one_text p) = length ?a + length ?b" by (simp add: one_text_def)
  have "length ?a < unat k" "off + length ?a < n" using assms(3,4) by (simp_all add: len)
  from snprintf_written [OF assms(1,2) this] obtain buf1 where
    b1: "snprintf_at off (unat k) ?a buf = Some buf1" "written n (t @ ?a) buf1" by blast
  have "length ?a < 2 ^ 64" using assms(3) unat_u64_less [of k] by (simp add: len)
  then have k: "unat (k - of_nat (length ?a)) = unat k - length ?a"
    using assms(3) by (subst unat_sub) (simp_all add: word_le_nat_alt unat_of_nat_u64 len)
  have "off + length ?a = length (t @ ?a)" "length ?b < unat (k - of_nat (length ?a))"
    "off + length ?a + length ?b < n" using assms(2-4) k by (simp_all add: len)
  from snprintf_written [OF b1(2) this] obtain buf2 where
    b2: "snprintf_at (off + length ?a) (unat (k - of_nat (length ?a))) ?b buf1 = Some buf2"
      "written n ((t @ ?a) @ ?b) buf2" by blast
  show thesis
  proof (rule that)
    show "print_one_prog p off k buf = Some (length (one_text p), buf2)"
      using b1(1) b2(1) by (simp add: print_one_prog_def Let_def len)
    show "written n (t @ one_text p) buf2" using b2(2) by (simp add: one_text_def)
  qed
qed

lemma unat_left: "offset \<le> unat columns \<Longrightarrow> unat (columns - of_nat offset :: u32) = unat columns - offset"
proof -
  assume le: "offset \<le> unat columns"
  then have "offset < 2 ^ 32" using unat_u32_less [of columns] by simp
  then have "unat (of_nat offset :: u32) = offset" by (rule unat_of_nat_u32)
  then show ?thesis using le by (subst unat_sub) (simp_all add: word_le_nat_alt)
qed

lemma trailer_written:
  assumes "written n t buf" and "off = length t" and "off + 2 < n" and "unat k = n - off"
  obtains buf' where "print_trailer nl off k buf = Some buf'" and "written n (t @ '']'' @ [nl]) buf'"
    and "buf' ! (off + 2) = nul"
proof -
  have "length '']'' < unat k" "off + length '']'' < n" using assms(3,4) by simp_all
  from snprintf_written [OF assms(1,2) this] obtain buf1 where
    b1: "snprintf_at off (unat k) '']'' buf = Some buf1" "written n (t @ '']'') buf1" by blast
  have k: "1 \<le> k" using assms(3,4) by (simp add: word_le_nat_alt)
  then have k1: "unat (k - 1) = n - off - 1" using assms(4) by (subst unat_sub) (simp_all add: word_le_nat_alt)
  then have k2: "1 < k - 1" using assms(3) by (simp add: word_less_nat_alt)
  have "off + 1 = length (t @ '']'')" "length [nl] < unat (k - 1)" "off + 1 + length [nl] < n"
    using assms(2,3) k1 by simp_all
  from snprintf_written [OF b1(2) this] obtain buf2 where
    b2: "snprintf_at (off + 1) (unat (k - 1)) [nl] buf1 = Some buf2"
      "written n ((t @ '']'') @ [nl]) buf2" "buf2 ! (off + 1 + length [nl]) = nul" by blast
  show thesis
  proof (rule that)
    show "print_trailer nl off k buf = Some buf2" using b1(1) b2(1) k k2 by (simp add: print_trailer_def)
    show "written n (t @ '']'' @ [nl]) buf2" using b2(2) by simp
    show "buf2 ! (off + 2) = nul" using b2(3) by simp
  qed
qed

lemma of_nat_less_columns: "offset < unat columns \<Longrightarrow> (of_nat offset :: u32) < columns"
proof -
  assume l: "offset < unat columns"
  then have "offset < 2 ^ 32" using unat_u32_less [of columns] by simp
  then show ?thesis using l by (simp add: word_less_nat_alt unat_of_nat_u32)
qed

lemma printf_loop_written:
  assumes "bar_room ps" and "\<forall>p\<in>set ps. prog_ok p" and "written n t buf" and "off = length t"
    and "off + bar_len first ps < unat columns" and "unat columns < n"
  shows "\<exists>buf'. printf_loop columns first ps off buf = Some (off + length (bar_text first ps), buf')
    \<and> written n (t @ bar_text first ps) buf'"
  using assms
proof (induction ps arbitrary: first off t buf)
  case (Cons p ps)
  let ?sep = "if first then PROGRESS_OPEN else PROGRESS_SEP"
  have p: "prog_ok p" "weight p < 2 ^ 31" "bar_room ps" "\<forall>q\<in>set ps. prog_ok q"
    using Cons.prems(1,2) room_Cons by auto
  have one: "length (one_text p) \<le> length_one_prog p" by (rule length_one_text [OF p(1,2)])
  have fits: "off + length ?sep + length (one_text p) + bar_len False ps < unat columns"
    using Cons.prems(5) one by (cases first) simp_all
  have l1: "unat (columns - of_nat off :: u32) = unat columns - off"
    by (rule unat_left) (use fits in simp)
  have "length ?sep < unat (columns - of_nat off :: u32)" "off + length ?sep < n"
    using fits l1 Cons.prems(6) by linarith+
  from snprintf_written [OF Cons.prems(3,4) this] obtain buf1 where
    b1: "snprintf_at off (unat (columns - of_nat off :: u32)) ?sep buf = Some buf1"
      "written n (t @ ?sep) buf1" by blast
  let ?off = "off + length ?sep"
  let ?k = "ucast (columns - of_nat ?off :: u32) :: u64"
  have "unat ?k = unat columns - ?off"
    unfolding unat_ucast_u64 by (rule unat_left) (use fits in linarith)
  then have "?off = length (t @ ?sep)" "length (one_text p) < unat ?k" "?off + length (one_text p) < n"
    using fits Cons.prems(4,6) by (simp_all only: length_append)
  from print_one_written [OF b1(2) this] obtain buf2 where
    b2: "print_one_prog p ?off ?k buf1 = Some (length (one_text p), buf2)"
      "written n ((t @ ?sep) @ one_text p) buf2" by blast
  let ?off2 = "?off + length (one_text p)"
  have o2: "?off2 = length ((t @ ?sep) @ one_text p)" using Cons.prems(4) by simp
  have less: "(of_nat ?off2 :: u32) < columns" by (rule of_nat_less_columns) (use fits in linarith)
  from Cons.IH [OF p(3,4) b2(2) o2, of False] fits Cons.prems(6) obtain buf3 where
    b3: "printf_loop columns False ps ?off2 buf2 = Some (?off2 + length (bar_text False ps), buf3)"
      "written n (((t @ ?sep) @ one_text p) @ bar_text False ps) buf3" by blast
  have "printf_loop columns first (p # ps) off buf = Some (?off2 + length (bar_text False ps), buf3)"
    using b1(1) b2(1) b3(1) less by (simp only: printf_loop.simps Let_def Option.bind.simps prod.case if_True)
  moreover have "?off2 + length (bar_text False ps) = off + length (bar_text first (p # ps))" by simp
  moreover have "written n (t @ bar_text first (p # ps)) buf3" using b3(2) by simp
  ultimately show ?case by metis
qed simp


section \<open>Computing the bar\<close>

lemma shrink_loop_ok:
  assumes "bar_room ps" and "ps \<noteq> []"
  shows "\<exists>qs tr. shrink_loop columns ps = Some (qs, tr) \<and> same_progs qs ps
    \<and> (\<not> tr \<longrightarrow> bar_len True qs + 1 \<le> unat columns)"
  using assms
proof (induction columns ps rule: shrink_loop.induct)
  case (1 columns ps)
  obtain n where n: "progress_length_check ps = Some n" "unat n = bar_len True ps + 1"
    using length_check_ok [OF "1.prems"] by blast
  show ?case
  proof (cases "n > columns")
    case True
    show ?thesis
    proof (cases "progress_length_shrink ps")
      case None
      then have "shrink_loop columns ps = Some (ps, True)"
        using n True by (subst shrink_loop.simps) simp
      then show ?thesis by blast
    next
      case (Some qs)
      have same: "same_progs qs ps" by (rule shrink_same [OF Some "1.prems"(2)])
      have "bar_room qs" "qs \<noteq> []"
        using same_progs_facts [OF same] "1.prems" by (simp_all add: bar_room_def)
      from "1.IH" [OF n(1) True Some this] same show ?thesis
        using n True Some by (subst shrink_loop.simps) auto
    qed
  next
    case False
    then have "shrink_loop columns ps = Some (ps, False)"
      using n(1) by (subst shrink_loop.simps) simp
    moreover have "bar_len True ps + 1 \<le> unat columns"
      using False n(2) by (simp add: word_less_nat_alt)
    ultimately show ?thesis by blast
  qed
qed

text \<open>What the buffer may show: the whole bar, the last display, or nothing.\<close>

definition shown :: "u32 \<Rightarrow> char \<Rightarrow> tools_progress list \<Rightarrow> string \<Rightarrow> bool" where
  "shown columns nl ps t \<longleftrightarrow> length t \<le> unat columns + 1
     \<and> (t = bar_text True ps @ '']'' @ [nl] \<or> t = ''... '' @ one_text (last ps) @ '']'' @ [nl] \<or> t = [])"

definition buffer_shows :: "string \<Rightarrow> string \<Rightarrow> bool" where
  "buffer_shows t buf \<longleftrightarrow> written (length buf) t buf \<and> length t < length buf \<and> buf ! length t = nul"

lemma buffer_showsI: "written n t buf \<Longrightarrow> length t < n \<Longrightarrow> buf ! length t = nul \<Longrightarrow> buffer_shows t buf"
  by (simp add: buffer_shows_def written_def)

lemma buffer_shows_nul: "buffer_shows t buf \<Longrightarrow> nul \<in> set buf"
  by (metis buffer_shows_def nth_mem)

lemma buffer_shows_text:
  assumes "buffer_shows t buf" and "nul \<notin> set t"
  shows "takeWhile (\<lambda>c. c \<noteq> nul) buf = t"
proof -
  have len: "length t < length buf" and t: "take (length t) buf = t" and n: "buf ! length t = nul"
    using assms(1) by (simp_all add: buffer_shows_def written_def)
  have buf: "buf = t @ nul # drop (Suc (length t)) buf" using id_take_nth_drop [OF len] t n by simp
  have "takeWhile (\<lambda>c. c \<noteq> nul) (t @ nul # r) = t" for r
    using assms(2) by (subst takeWhile_append2) auto
  then show ?thesis using buf by metis
qed

lemma progress_printf_ok:
  assumes "progress_ok s" and "progresses s \<noteq> []"
    and "bar_len True (progresses s) + 1 \<le> unat columns" and "unat columns + 2 \<le> unat (progbuf_len s)"
  shows "\<exists>buf t. progress_printf columns s = (Inr (), s\<lparr>progbuf := buf\<rparr>)
    \<and> length buf = length (progbuf s) \<and> buffer_shows t buf \<and> shown columns (nextline s) (progresses s) t"
proof -
  let ?ps = "progresses s" and ?n = "length (progbuf s)"
  have ok: "bar_room ?ps" "\<forall>p\<in>set ?ps. prog_ok p" "?n = unat (progbuf_len s)"
    using assms(1) by (simp_all add: progress_ok_def)
  let ?t = "bar_text True ?ps"
  have len: "length ?t \<le> bar_len True ?ps" by (rule length_bar_text [OF ok(1,2)])
  have "written ?n [] (progbuf s)" by (simp add: written_def)
  from printf_loop_written [OF ok(1,2) this, of 0 True columns] assms(3,4) ok(3) obtain buf1 where
    b1: "printf_loop columns True ?ps 0 (progbuf s) = Some (length ?t, buf1)" "written ?n ?t buf1"
    by auto
  let ?k = "ucast (progbuf_len s - of_nat (length ?t) :: u32) :: u64"
  have "unat ?k = ?n - length ?t"
    unfolding unat_ucast_u64 ok(3) by (rule unat_left) (use len assms(3,4) in linarith)
  from trailer_written [OF b1(2) refl _ this] len assms(3,4) ok(3) obtain buf2 where
    b2: "print_trailer (nextline s) (length ?t) ?k buf1 = Some buf2"
      "written ?n (?t @ '']'' @ [nextline s]) buf2" "buf2 ! (length ?t + 2) = nul" by auto
  have less: "(of_nat (length ?t) :: u32) < columns"
    by (rule of_nat_less_columns) (use len assms(3) in linarith)
  have "progress_printf columns s = (Inr (), s\<lparr>progbuf := buf2\<rparr>)"
    using b1(1) b2(1) less assms(2) by (simp add: progress_printf_def or_undefined_def)
  moreover have "buffer_shows (?t @ '']'' @ [nextline s]) buf2"
    using b2(2,3) len assms(3,4) ok(3) by (intro buffer_showsI [of ?n]) simp_all
  moreover have "shown columns (nextline s) ?ps (?t @ '']'' @ [nextline s])"
    using len assms(3) by (simp add: shown_def)
  moreover have "length buf2 = ?n" using b2(2) by (simp add: written_def)
  ultimately show ?thesis by blast
qed

lemma truncate_printf_ok:
  assumes "progress_ok s" and "progresses s \<noteq> []" and "unat columns + 2 \<le> unat (progbuf_len s)"
  shows "\<exists>buf t. truncate_printf columns s = (Inr (), s\<lparr>progbuf := buf\<rparr>)
    \<and> length buf = length (progbuf s) \<and> buffer_shows t buf \<and> shown columns (nextline s) (progresses s) t"
proof -
  let ?ps = "progresses s" and ?n = "length (progbuf s)"
  let ?p = "last ?ps"
  have ok: "bar_room ?ps" "prog_ok ?p" "?n = unat (progbuf_len s)"
    using assms(1,2) by (simp_all add: progress_ok_def)
  have "weight ?p \<le> sum_list (map weight ?ps)" using assms(2) by (intro member_le_sum_list) simp_all
  then have w: "weight ?p < 2 ^ 31" using ok(1) by (simp add: bar_room_def)
  show ?thesis
  proof (cases "length_one_prog ?p + 5 \<le> unat columns")
    case False
    have n: "0 < ?n" using assms(3) ok(3) by simp
    let ?buf = "(progbuf s)[0 := nul]"
    have "progbuf s \<noteq> []" using n by auto
    then have "truncate_printf columns s = (Inr (), s\<lparr>progbuf := ?buf\<rparr>)"
      using False by (simp add: truncate_printf_def or_undefined_def)
    moreover have "buffer_shows [] ?buf" using n by (simp add: buffer_shows_def written_def)
    moreover have "shown columns (nextline s) ?ps []" by (simp add: shown_def)
    ultimately show ?thesis by (metis length_list_update)
  next
    case True
    let ?e = "''... ''"
    have one: "length (one_text ?p) \<le> length_one_prog ?p" by (rule length_one_text [OF ok(2) w])
    have "written ?n [] (progbuf s)" by (simp add: written_def)
    moreover have "length ?e < unat columns" "0 + length ?e < ?n" using True assms(3) ok(3) by simp_all
    ultimately obtain buf1 where
      b1: "snprintf_at 0 (unat columns) ?e (progbuf s) = Some buf1" "written ?n ?e buf1"
      using snprintf_written [of ?n "[]" "progbuf s" 0 ?e "unat columns"] by auto
    let ?k = "ucast (columns - of_nat (length ?e) :: u32) :: u64"
    have "unat ?k = unat columns - length ?e"
      unfolding unat_ucast_u64 by (rule unat_left) (use True in simp)
    then have "length (one_text ?p) < unat ?k" "length ?e + length (one_text ?p) < ?n"
      using True one assms(3) ok(3) by simp_all
    from print_one_written [OF b1(2) refl this] obtain buf2 where
      b2: "print_one_prog ?p (length ?e) ?k buf1 = Some (length (one_text ?p), buf2)"
        "written ?n (?e @ one_text ?p) buf2" by blast
    let ?t = "?e @ one_text ?p"
    let ?k2 = "ucast (progbuf_len s - of_nat (length ?t) :: u32) :: u64"
    have "unat ?k2 = ?n - length ?t"
      unfolding unat_ucast_u64 ok(3) by (rule unat_left) (use True one assms(3) in simp)
    from trailer_written [OF b2(2) refl _ this] True one assms(3) ok(3) obtain buf3 where
      b3: "print_trailer (nextline s) (length ?t) ?k2 buf2 = Some buf3"
        "written ?n (?t @ '']'' @ [nextline s]) buf3" "buf3 ! (length ?t + 2) = nul" by auto
    have less: "(of_nat (length ?t) :: u32) < columns"
      by (rule of_nat_less_columns) (use True one in simp)
    have "truncate_printf columns s = (Inr (), s\<lparr>progbuf := buf3\<rparr>)"
      using b1(1) b2(1) b3(1) less True by (simp add: truncate_printf_def or_undefined_def Let_def)
    moreover have "buffer_shows (?t @ '']'' @ [nextline s]) buf3"
      using b3(2,3) True one assms(3) ok(3) by (intro buffer_showsI [of ?n]) simp_all
    moreover have "shown columns (nextline s) ?ps (?t @ '']'' @ [nextline s])"
      using True one by (simp add: shown_def)
    moreover have "length buf3 = ?n" using b3(2) by (simp add: written_def)
    ultimately show ?thesis by blast
  qed
qed


text \<open>States with the same displays and the same output; the buffer may differ.\<close>

definition same_bar :: "progress_state \<Rightarrow> progress_state \<Rightarrow> bool" where
  "same_bar s s' \<longleftrightarrow> same_progs (progresses s') (progresses s) \<and> nextline s' = nextline s
     \<and> progress_on s' = progress_on s \<and> tl_next s' = tl_next s \<and> tl_stdout s' = tl_stdout s"

lemma same_bar_facts:
  assumes "same_bar s s'"
  shows "map p_id (progresses s') = map p_id (progresses s)" and "progresses s' = [] \<longleftrightarrow> progresses s = []"
  using assms same_progs_facts(1,4) [of "progresses s'" "progresses s"] by (simp_all add: same_bar_def)

lemma tl_malloc_ok: "\<exists>ok h. tl_malloc s = (Inr ok, s\<lparr>tl_heap := h\<rparr>)"
  by (cases "tl_heap s") (auto simp: tl_malloc_def intro: exI [of _ "[]"])

lemma check_display_ok:
  assumes "progress_ok s" and "width_ok env"
  obtains columns s' where "check_display env s = (Inr columns, s')" and "progress_ok s'"
    and "same_bar s s'" and "unat columns + 2 \<le> unat (progbuf_len s')"
    and "unat columns \<le> unat (display_columns env)"
proof -
  let ?c = "display_columns env"
  have tmp: "unat (?c + 2) = unat ?c + 2"
    using assms(2) by (subst unat_add_lem [THEN iffD1]) (simp_all add: width_ok_def)
  have len: "82 \<le> unat (progbuf_len s)" using assms(1) by (simp add: progress_ok_def)
  obtain ok h where m: "tl_malloc s = (Inr ok, s\<lparr>tl_heap := h\<rparr>)" using tl_malloc_ok by blast
  show thesis
  proof (cases "?c + 2 > progbuf_len s")
    case False
    then have "check_display env s = (Inr ?c, s)" by (simp add: check_display_def Let_def)
    moreover have "unat ?c + 2 \<le> unat (progbuf_len s)" using False tmp by (simp add: word_less_nat_alt)
    ultimately show ?thesis using that [of ?c s] assms(1) by (simp add: same_bar_def)
  next
    case True
    show ?thesis
    proof (cases ok)
      case ok: True
      let ?s = "s\<lparr>tl_heap := h, progbuf_len := ?c + 2, progbuf := replicate (unat (?c + 2)) nul,
        progresses := progress_length_reset (progresses s)\<rparr>"
      have "check_display env s = (Inr ?c, ?s)" using True m ok by (simp add: check_display_def Let_def)
      moreover have "progress_ok ?s"
        using assms(1) True len unfolding progress_ok_def bar_room_def
        by (simp add: reset_facts word_less_nat_alt)
      ultimately show ?thesis using that [of ?c ?s] tmp by (simp add: same_bar_def)
    next
      case fail: False
      let ?s = "s\<lparr>tl_heap := h\<rparr>"
      have two: "unat (progbuf_len s - 2) = unat (progbuf_len s) - 2"
        using len by (subst unat_sub) (simp_all add: word_le_nat_alt)
      have "check_display env s = (Inr (progbuf_len s - 2), ?s)"
        using True m fail by (simp add: check_display_def Let_def)
      moreover have "progress_ok ?s" using assms(1) by (simp add: progress_ok_def)
      moreover have "unat (progbuf_len s - 2) \<le> unat ?c"
        using True tmp two by (simp add: word_less_nat_alt)
      ultimately show ?thesis using that [of "progbuf_len s - 2" ?s] two len by (simp add: same_bar_def)
    qed
  qed
qed

lemma progress_compute_ok:
  assumes "progress_ok s" and "width_ok env" and "progresses s \<noteq> []"
  obtains columns s' t where "progress_compute env s = (Inr (), s')" and "progress_ok s'" and "same_bar s s'"
    and "buffer_shows t (progbuf s')" and "shown columns (nextline s) (progresses s') t"
    and "unat columns \<le> unat (display_columns env)"
proof -
  obtain columns s1 where c: "check_display env s = (Inr columns, s1)" "progress_ok s1" "same_bar s s1"
      "unat columns + 2 \<le> unat (progbuf_len s1)" "unat columns \<le> unat (display_columns env)"
    using check_display_ok [OF assms(1,2)] by blast
  have ps: "progresses s1 \<noteq> []" using same_bar_facts(2) [OF c(3)] assms(3) by simp
  have room: "bar_room (progresses s1)" using c(2) by (simp add: progress_ok_def)
  obtain qs tr where q: "shrink_loop columns (progresses s1) = Some (qs, tr)" "same_progs qs (progresses s1)"
      "\<not> tr \<longrightarrow> bar_len True qs + 1 \<le> unat columns"
    using shrink_loop_ok [OF room ps] by blast
  let ?s2 = "s1\<lparr>progresses := qs\<rparr>"
  have s2: "progress_ok ?s2" by (rule progress_ok_same [OF c(2) q(2)])
  have qs: "progresses ?s2 \<noteq> []" using same_progs_facts(4) [OF q(2)] ps by simp
  have len2: "unat columns + 2 \<le> unat (progbuf_len ?s2)" using c(4) by simp
  let ?print = "if tr then truncate_printf columns else progress_printf columns"
  obtain buf t where p: "?print ?s2 = (Inr (), ?s2\<lparr>progbuf := buf\<rparr>)" "length buf = length (progbuf ?s2)"
      "buffer_shows t buf" "shown columns (nextline ?s2) (progresses ?s2) t"
  proof (cases tr)
    case True
    then show ?thesis using that truncate_printf_ok [OF s2 qs len2] by auto
  next
    case False
    then have "bar_len True (progresses ?s2) + 1 \<le> unat columns" using q(3) by simp
    from progress_printf_ok [OF s2 qs this len2] False show ?thesis using that by auto
  qed
  let ?s3 = "?s2\<lparr>progbuf := buf\<rparr>"
  show thesis
  proof (rule that)
    show "progress_compute env s = (Inr (), ?s3)"
      using c(1) q(1) p(1) by (simp add: progress_compute_def bind_io_def)
    show "progress_ok ?s3" using s2 p(2) by (simp add: progress_ok_def)
    show "same_bar s ?s3" using c(3) q(2) by (simp add: same_bar_def)
    show "buffer_shows t (progbuf ?s3)" using p(3) by simp
    show "shown columns (nextline s) (progresses ?s3) t" using p(4) c(3) by (simp add: same_bar_def)
    show "unat columns \<le> unat (display_columns env)" by (rule c(5))
  qed
qed

section \<open>What is printed\<close>

lemma decimal_digits_no_nul: "nul \<notin> set (decimal_digits n)"
proof (induction n rule: decimal_digits.induct)
  case (1 n)
  have "nul \<noteq> char_of (48 + d)" if "d < 10" for d :: nat
  proof
    assume "nul = char_of (48 + d)"
    then have "char_of (48 + d) = nul" by simp
    then have "of_char (char_of (48 + d) :: char) = (0 :: nat)" by simp
    then show False using that by simp
  qed
  then show ?case using 1 by (subst decimal_digits.simps) auto
qed

lemma one_text_no_nul: "prog_ok p \<Longrightarrow> nul \<notin> set (one_text p)"
proof -
  assume ok: "prog_ok p"
  have "nul \<notin> set (prog_name p)"
    using ok by (auto simp: prog_ok_def prog_name_def dest: in_set_takeD split: progress_length.splits)
  moreover have "spinner i \<noteq> nul" for i
  proof -
    have "i mod 4 = 0 \<or> i mod 4 = 1 \<or> i mod 4 = 2 \<or> i mod 4 = 3" by presburger
    then show ?thesis by (elim disjE) (simp_all add: spinner_def)
  qed
  moreover have "nul \<notin> set (padded3 n)" for n
    using decimal_digits_no_nul [of n] by (auto simp: padded3_def Let_def)
  ultimately show ?thesis by (auto simp: one_text_def prog_state_text_def eq_commute [of nul])
qed

lemma bar_text_no_nul: "\<forall>p\<in>set ps. prog_ok p \<Longrightarrow> nul \<notin> set (bar_text first ps)"
  by (induction first ps rule: bar_text.induct) (auto simp: one_text_no_nul)

lemma shown_no_nul:
  assumes "shown columns nl ps t" and "\<forall>p\<in>set ps. prog_ok p" and "nl \<noteq> nul" and "ps \<noteq> []"
  shows "nul \<notin> set t"
  using assms bar_text_no_nul [OF assms(2), of True] one_text_no_nul [of "last ps"]
  by (auto simp: shown_def)

text \<open>The output of a step: texts that fit the width of the terminal, each with its terminator.\<close>

definition out_ok :: "tools_env \<Rightarrow> progress_state \<Rightarrow> progress_state \<Rightarrow> bool" where
  "out_ok env s s' \<longleftrightarrow> (\<exists>ts. tl_stdout s' = tl_stdout s @ concat ts
     \<and> (\<forall>t\<in>set ts. length t \<le> unat (display_columns env) + 1))"

lemma out_ok_same: "tl_stdout s' = tl_stdout s \<Longrightarrow> out_ok env s s'"
  by (auto simp: out_ok_def intro: exI [of _ "[]"])

lemma out_ok_one:
  "tl_stdout s' = tl_stdout s @ t \<Longrightarrow> length t \<le> unat (display_columns env) + 1 \<Longrightarrow> out_ok env s s'"
  by (auto simp: out_ok_def intro: exI [of _ "[t]"])

lemma out_ok_trans: "out_ok env s s1 \<Longrightarrow> out_ok env s1 s2 \<Longrightarrow> out_ok env s s2"
proof -
  assume "out_ok env s s1" and "out_ok env s1 s2"
  then obtain ts us where
    "tl_stdout s1 = tl_stdout s @ concat ts" "\<forall>t\<in>set ts. length t \<le> unat (display_columns env) + 1"
    "tl_stdout s2 = tl_stdout s1 @ concat us" "\<forall>t\<in>set us. length t \<le> unat (display_columns env) + 1"
    by (auto simp: out_ok_def)
  then show ?thesis unfolding out_ok_def by (intro exI [of _ "ts @ us"]) auto
qed

text \<open>Writing the bar that has been computed.\<close>

lemma compute_write_shows:
  assumes "progress_ok s" and "width_ok env" and "progresses s \<noteq> []"
  obtains s' t columns where "bind_io (progress_compute env) (\<lambda>_. progress_write) s = (Inr (), s')"
    and "progress_ok s'" and "tl_stdout s' = tl_stdout s @ t" and "shown columns (nextline s) (progresses s') t"
    and "unat columns \<le> unat (display_columns env)" and "map p_id (progresses s') = map p_id (progresses s)"
    and "tl_next s' = tl_next s" and "nextline s' = nextline s" and "progress_on s' = progress_on s"
proof -
  obtain columns s1 t where c: "progress_compute env s = (Inr (), s1)" "progress_ok s1" "same_bar s s1"
      "buffer_shows t (progbuf s1)" "shown columns (nextline s) (progresses s1) t"
      "unat columns \<le> unat (display_columns env)"
    using progress_compute_ok [OF assms] by blast
  have ps: "progresses s1 \<noteq> []" using same_bar_facts(2) [OF c(3)] assms(3) by simp
  have "nextline s \<noteq> nul" using assms(1,3) by (auto simp: progress_ok_def)
  moreover have "\<forall>p\<in>set (progresses s1). prog_ok p" using c(2) by (simp add: progress_ok_def)
  ultimately have "nul \<notin> set t" using shown_no_nul [OF c(5)] ps by blast
  note w = buffer_shows_text [OF c(4) this] buffer_shows_nul [OF c(4)]
  let ?s2 = "s1\<lparr>tl_stdout := tl_stdout s1 @ t\<rparr>"
  show thesis
  proof (rule that)
    show "bind_io (progress_compute env) (\<lambda>_. progress_write) s = (Inr (), ?s2)"
      using c(1) w by (simp add: bind_io_def progress_write_def)
    show "progress_ok ?s2" using c(2) by (simp add: progress_ok_def)
    show "tl_stdout ?s2 = tl_stdout s @ t" using c(3) by (simp add: same_bar_def)
    show "shown columns (nextline s) (progresses ?s2) t" "unat columns \<le> unat (display_columns env)"
      using c(5,6) by simp_all
    show "map p_id (progresses ?s2) = map p_id (progresses s)" using same_bar_facts(1) [OF c(3)] by simp
    show "tl_next ?s2 = tl_next s" "nextline ?s2 = nextline s" "progress_on ?s2 = progress_on s"
      using c(3) by (simp_all add: same_bar_def)
  qed
qed

lemma compute_write_ok:
  assumes "progress_ok s" and "width_ok env" and "progresses s \<noteq> []"
  obtains s' where "bind_io (progress_compute env) (\<lambda>_. progress_write) s = (Inr (), s')"
    and "progress_ok s'" and "out_ok env s s'" and "map p_id (progresses s') = map p_id (progresses s)"
    and "tl_next s' = tl_next s"
proof -
  obtain s' t columns where w: "bind_io (progress_compute env) (\<lambda>_. progress_write) s = (Inr (), s')"
    "progress_ok s'" "tl_stdout s' = tl_stdout s @ t" "shown columns (nextline s) (progresses s') t"
    "unat columns \<le> unat (display_columns env)" "map p_id (progresses s') = map p_id (progresses s)"
    "tl_next s' = tl_next s" by (rule compute_write_shows [OF assms])
  have "out_ok env s s'" using w(3-5) by (intro out_ok_one [of _ _ t]) (simp_all add: shown_def)
  then show thesis using w(1,2,6,7) that by blast
qed


section \<open>The operations\<close>

text \<open>What every operation keeps; the output is made of texts that fit the terminal.\<close>

definition kept :: "tools_env \<Rightarrow> progress_state \<Rightarrow> progress_state \<Rightarrow> bool" where
  "kept env s s' \<longleftrightarrow> progress_ok s' \<and> out_ok env s s'
     \<and> map p_id (progresses s') = map p_id (progresses s) \<and> tl_next s' = tl_next s"

lemma kept_refl: "progress_ok s \<Longrightarrow> kept env s s"
  by (simp add: kept_def out_ok_same)

lemma kept_nonempty: "kept env s s' \<Longrightarrow> progresses s' = [] \<longleftrightarrow> progresses s = []"
  by (metis kept_def map_is_Nil_conv)

text \<open>A visible bar is overwritten with blanks and the cursor goes back to the start of the line.\<close>

lemma clear_shows:
  assumes "progress_ok s" and "width_ok env" and "bar_visible s"
  obtains s' k where "tools_progress_clear env s = (Inr (), s')" and "progress_ok s'"
    and "tl_stdout s' = tl_stdout s @ replicate k CHR '' '' @ [nextline s]" and "k \<le> unat (display_columns env)"
    and "map p_id (progresses s') = map p_id (progresses s)" and "tl_next s' = tl_next s"
    and "nextline s' = nextline s" and "progress_on s' = progress_on s"
proof -
  obtain columns s1 where c: "check_display env s = (Inr columns, s1)" "progress_ok s1" "same_bar s s1"
      "unat columns + 2 \<le> unat (progbuf_len s1)" "unat columns \<le> unat (display_columns env)"
    using check_display_ok [OF assms(1,2)] by blast
  let ?n = "length (progbuf s1)" and ?blanks = "replicate (unat columns) CHR '' ''"
  let ?buf = "?blanks @ drop (unat columns) (progbuf s1)"
  have n: "?n = unat (progbuf_len s1)" using c(2) by (simp add: progress_ok_def)
  have k: "unat (progbuf_len s1 - columns) = ?n - unat columns"
    using c(4) n by (subst unat_sub) (simp_all add: word_le_nat_alt)
  have "written ?n ?blanks ?buf" using c(4) n by (simp add: written_def)
  moreover have "unat columns = length ?blanks" "length [nextline s1] < unat (progbuf_len s1 - columns)"
    "unat columns + length [nextline s1] < ?n" using c(4) n k by simp_all
  ultimately obtain buf where b: "snprintf_at (unat columns) (unat (progbuf_len s1 - columns)) [nextline s1] ?buf = Some buf"
      "written ?n (?blanks @ [nextline s1]) buf" "buf ! (unat columns + length [nextline s1]) = nul"
    by (rule snprintf_written)
  let ?t = "?blanks @ [nextline s1]"
  have sh: "buffer_shows ?t buf" using b(2,3) c(4) n by (intro buffer_showsI [of ?n]) simp_all
  have "nextline s1 \<noteq> nul" using assms(3) c(3) by (simp add: bar_visible_def same_bar_def)
  then have "nul \<notin> set ?t" by auto
  note w = buffer_shows_text [OF sh this] buffer_shows_nul [OF sh]
  let ?s2 = "s1\<lparr>progbuf := buf, tl_stdout := tl_stdout s1 @ ?t\<rparr>"
  show thesis
  proof (rule that)
    show "tools_progress_clear env s = (Inr (), ?s2)"
      using assms(3) c(1,4) b(1) n w
      by (simp add: tools_progress_clear_def progress_clear_def bind_io_def or_undefined_def progress_write_def)
    show "progress_ok ?s2" using c(2) b(2) by (simp add: progress_ok_def written_def)
    show "tl_stdout ?s2 = tl_stdout s @ replicate (unat columns) CHR '' '' @ [nextline s]"
      "nextline ?s2 = nextline s" "progress_on ?s2 = progress_on s" "tl_next ?s2 = tl_next s"
      using c(3) by (simp_all add: same_bar_def)
    show "unat columns \<le> unat (display_columns env)" by (rule c(5))
    show "map p_id (progresses ?s2) = map p_id (progresses s)" using same_bar_facts(1) [OF c(3)] by simp
  qed
qed

lemma clear_ok:
  assumes "progress_ok s" and "width_ok env"
  obtains s' where "tools_progress_clear env s = (Inr (), s')" and "kept env s s'"
proof (cases "bar_visible s")
  case False
  then show thesis using that [of s] assms(1) by (simp add: tools_progress_clear_def kept_refl)
next
  case True
  obtain s' k where c: "tools_progress_clear env s = (Inr (), s')" "progress_ok s'"
    "tl_stdout s' = tl_stdout s @ replicate k CHR '' '' @ [nextline s]" "k \<le> unat (display_columns env)"
    "map p_id (progresses s') = map p_id (progresses s)" "tl_next s' = tl_next s"
    by (rule clear_shows [OF assms True])
  have "out_ok env s s'"
    using c(3,4) by (intro out_ok_one [of _ _ "replicate k CHR '' '' @ [nextline s]"]) simp_all
  then show thesis using c(1,2,5,6) that by (simp add: kept_def)
qed

lemma reset_ok:
  "progress_ok s \<Longrightarrow> progress_ok (s\<lparr>progresses := progress_length_reset (progresses s)\<rparr>)"
  by (rule progress_ok_same) simp_all

lemma restore_ok:
  assumes "progress_ok s" and "width_ok env"
  obtains s' where "tools_progress_restore env s = (Inr (), s')" and "kept env s s'"
proof (cases "bar_visible s")
  case False
  then show thesis using that [of s] assms(1) by (simp add: tools_progress_restore_def kept_refl)
next
  case True
  then have "progresses s \<noteq> []" by (simp add: bar_visible_def)
  from compute_write_ok [OF assms this] show thesis
    using that True by (metis kept_def tools_progress_restore_def)
qed

text \<open>Starting a display: the names are C strings and the bar does not outgrow 32 bits.\<close>

definition names_fit :: "progress_state \<Rightarrow> string option \<Rightarrow> string option \<Rightarrow> bool" where
  "names_fit s long_name short_name \<longleftrightarrow>
     (let long = (case long_name of Some n \<Rightarrow> n | None \<Rightarrow> []);
          short = (case short_name of Some n \<Rightarrow> n | None \<Rightarrow> long)
      in (long_name \<noteq> None \<or> short_name \<noteq> None) \<and> nul \<notin> set long \<and> nul \<notin> set short
         \<and> sum_list (map weight (progresses s)) + length long + length short + 11 < 2 ^ 31)"

lemma alloc_ok:
  assumes "names_fit s long_name short_name"
  obtains h where "tools_progress_alloc long_name short_name count s = (Inr None, s\<lparr>tl_heap := h\<rparr>)"
  | h p where "tools_progress_alloc long_name short_name count s
        = (Inr (Some p), s\<lparr>tl_heap := h, tl_next := tl_next s + 1\<rparr>)"
      and "prog_ok p" and "p_id p = tl_next s" and "sum_list (map weight (progresses s)) + weight p < 2 ^ 31"
proof -
  obtain a h where m: "tl_malloc s = (Inr a, s\<lparr>tl_heap := h\<rparr>)" using tl_malloc_ok by blast
  obtain b h1 where m1: "tl_malloc (s\<lparr>tl_heap := h\<rparr>) = (Inr b, s\<lparr>tl_heap := h1\<rparr>)"
    using tl_malloc_ok [of "s\<lparr>tl_heap := h\<rparr>"] by auto
  obtain c h2 where m2: "tl_malloc (s\<lparr>tl_heap := h1\<rparr>) = (Inr c, s\<lparr>tl_heap := h2\<rparr>)"
    using tl_malloc_ok [of "s\<lparr>tl_heap := h1\<rparr>"] by auto
  obtain short where short: "(case short_name of Some n \<Rightarrow> Some n | None \<Rightarrow> long_name) = Some short"
      "nul \<notin> set short"
      "sum_list (map weight (progresses s)) + length (case long_name of Some n \<Rightarrow> n | None \<Rightarrow> [])
         + length short + 11 < 2 ^ 31"
    using assms by (cases long_name; cases short_name) (auto simp: names_fit_def Let_def)
  have long: "nul \<notin> set (case long_name of Some n \<Rightarrow> n | None \<Rightarrow> [])"
    using assms by (auto simp: names_fit_def Let_def)
  show thesis
  proof (cases "a \<and> b \<and> c")
    case True
    let ?p = "\<lparr> p_id = tl_next s, p_len = PROGRESS_TRUNC,
      p_long_name = (case long_name of Some n \<Rightarrow> n | None \<Rightarrow> []), p_short_name = short,
      p_current = 0, p_count = count, p_percent = 0, p_spinner_pos = 0 \<rparr>"
    show thesis
    proof (rule that(2) [of ?p h2])
      show "tools_progress_alloc long_name short_name count s
          = (Inr (Some ?p), s\<lparr>tl_heap := h2, tl_next := tl_next s + 1\<rparr>)"
        using m m1 m2 short(1) True by (simp add: tools_progress_alloc_def bind_io_def)
      show "prog_ok ?p" using short(2) long by (simp add: prog_ok_def)
      show "sum_list (map weight (progresses s)) + weight ?p < 2 ^ 31"
        using short(3) by (simp add: weight_def)
    qed simp
  next
    case False
    then show thesis using m m1 m2 short(1) that(1)
      by (cases a) (simp_all add: tools_progress_alloc_def bind_io_def ret_io_def)
  qed
qed

lemma start_ok:
  assumes "progress_ok s" and "width_ok env" and "names_fit s long_name short_name"
  shows "case tools_progress_start env long_name short_name count s of
    (Inl e, s') \<Rightarrow> False | (Inr ref, s') \<Rightarrow> progress_ok s' \<and> out_ok env s s'"
proof (cases "progress_on s")
  case False
  then show ?thesis using assms(1) by (simp add: tools_progress_start_def out_ok_same)
next
  case on: True
  show ?thesis
  proof (rule alloc_ok [OF assms(3), of count])
    fix h assume a: "tools_progress_alloc long_name short_name count s = (Inr None, s\<lparr>tl_heap := h\<rparr>)"
    have "progress_ok (s\<lparr>tl_heap := h\<rparr>)" using assms(1) by (simp add: progress_ok_def)
    then show ?thesis using a on
      by (simp add: tools_progress_start_def bind_io_def ret_io_def out_ok_same)
  next
    fix h p
    assume a: "tools_progress_alloc long_name short_name count s
        = (Inr (Some p), s\<lparr>tl_heap := h, tl_next := tl_next s + 1\<rparr>)"
      and p: "prog_ok p" "p_id p = tl_next s" "sum_list (map weight (progresses s)) + weight p < 2 ^ 31"
    let ?s1 = "s\<lparr>tl_heap := h, tl_next := tl_next s + 1, progresses := progresses s @ [p]\<rparr>"
    have s1: "progress_ok ?s1"
      using assms(1) p on by (auto simp: progress_ok_def bar_room_def)
    obtain s2 where s2: "tools_progress_clear env ?s1 = (Inr (), s2)" "kept env ?s1 s2"
      using clear_ok [OF s1 assms(2)] by blast
    let ?s3 = "s2\<lparr>progresses := progress_length_reset (progresses s2)\<rparr>"
    have s3: "progress_ok ?s3" "progresses ?s3 \<noteq> []"
      using s2(2) kept_nonempty [OF s2(2)] by (simp_all add: reset_ok kept_def reset_facts)
    obtain s4 where s4: "bind_io (progress_compute env) (\<lambda>_. progress_write) ?s3 = (Inr (), s4)"
        "progress_ok s4" "out_ok env ?s3 s4"
      using compute_write_ok [OF s3(1) assms(2) s3(2)] by blast
    have eq: "tools_progress_start env long_name short_name count s = (Inr (Prog (p_id p)), s4)"
      using a on s2(1) s4(1)
      by (auto simp: tools_progress_start_def bind_io_def ret_io_def upd_io_def split: prod.splits sum.splits)
    have "out_ok env s ?s1" "out_ok env s2 ?s3" by (simp_all add: out_ok_same)
    then have "out_ok env s s4" using s2(2) s4(3) by (meson kept_def out_ok_trans)
    then show ?thesis using eq s4(2) by simp
  qed
qed

lemma find_prog_Some:
  assumes "find_prog i ps = Some p" and "distinct (map p_id ps)"
  shows "p \<in> set ps" and "p_id p = i" and "\<forall>q\<in>set ps. p_id q = i \<longrightarrow> q = p"
proof -
  show p: "p \<in> set ps" "p_id p = i" using assms(1) by (auto simp: find_prog_def find_Some_iff)
  show "\<forall>q\<in>set ps. p_id q = i \<longrightarrow> q = p" using p assms(2) by (auto simp: distinct_map inj_on_def)
qed

lemma find_prog_live: "i \<in> p_id ` set ps \<Longrightarrow> \<exists>p. find_prog i ps = Some p"
proof -
  assume "i \<in> p_id ` set ps"
  then have "find_prog i ps \<noteq> None" by (auto simp: find_prog_def find_None_iff)
  then show ?thesis by blast
qed

lemma set_prog_ok:
  assumes "progress_ok s" and "find_prog i (progresses s) = Some p" and "p_id q = i" and "prog_ok q"
    and "weight q = weight p"
  shows "progress_ok (s\<lparr>progresses := set_prog q (progresses s)\<rparr>)"
    and "map p_id (set_prog q (progresses s)) = map p_id (progresses s)"
proof -
  let ?ps = "progresses s"
  have d: "distinct (map p_id ?ps)" using assms(1) by (simp add: progress_ok_def)
  note f = find_prog_Some [OF assms(2) d]
  show ids: "map p_id (set_prog q ?ps) = map p_id ?ps" using assms(3) by (simp add: set_prog_def)
  have "weight (if p_id x = p_id q then q else x) = weight x" if "x \<in> set ?ps" for x
    using that f(3) assms(3,5) by (cases "p_id x = p_id q") fastforce+
  then have w: "map weight (set_prog q ?ps) = map weight ?ps" by (simp add: set_prog_def)
  have "prog_ok (if p_id x = p_id q then q else x) \<and> p_id (if p_id x = p_id q then q else x) < tl_next s"
    if "x \<in> set ?ps" for x
    using that assms(1,4) by (auto simp: progress_ok_def)
  then have all: "\<forall>x\<in>set (set_prog q ?ps). prog_ok x \<and> p_id x < tl_next s"
    unfolding set_prog_def set_map by blast
  have "set_prog q ?ps = [] \<longleftrightarrow> ?ps = []" by (simp add: set_prog_def)
  then show "progress_ok (s\<lparr>progresses := set_prog q ?ps\<rparr>)"
    using assms(1) ids w all by (simp add: progress_ok_def bar_room_def)
qed

lemma check_percent_ok:
  assumes "prog_ok p" and "check_percent p = (changed, q)"
  shows "prog_ok q \<and> p_id q = p_id p \<and> weight q = weight p"
proof (cases "p_count p = 0")
  case True
  then show ?thesis using assms by (simp add: check_percent_def)
next
  case False
  define r where "r = (if p_current p \<ge> p_count p then p\<lparr>p_current := p_count p\<rparr> else p)"
  have r: "prog_ok r" "p_id r = p_id p" "weight r = weight p" "p_current r \<le> p_count r" "0 < p_count r"
    using assms(1) False by (auto simp: r_def prog_ok_def weight_def word_greater_zero_iff)
  have c: "p_count r = p_count p" by (simp add: r_def)
  let ?n = "calc_percent (p_current r) (p_count r)"
  have n: "unat ?n \<le> 100" by (rule percent_range(2) [OF r(4,5)])
  have "q = r \<or> q = r\<lparr>p_percent := ?n\<rparr>"
    using assms(2) False c by (simp add: check_percent_def r_def [symmetric] Let_def split: if_splits)
  then show ?thesis using r(1-3) n by (auto simp: prog_ok_def weight_def)
qed


lemma set_prog_twice: "p_id q = p_id r \<Longrightarrow> set_prog r (set_prog q ps) = set_prog r ps"
  by (simp add: set_prog_def)

lemma check_tick_ok: "\<exists>b n. check_tick now s = (b, s\<lparr>last_tick := n\<rparr>)"
  by (auto simp: check_tick_def Let_def intro: exI [of _ "last_tick s"])

lemma step_prog_ok:
  assumes "progress_ok s" and "width_ok env" and "find_prog i (progresses s) = Some p"
  shows "case step_prog env now p step s of (Inl e, s') \<Rightarrow> False | (Inr u, s') \<Rightarrow> kept env s s'"
proof -
  let ?ps = "progresses s"
  have d: "distinct (map p_id ?ps)" using assms(1) by (simp add: progress_ok_def)
  note fp = find_prog_Some [OF assms(3) d]
  have pok: "prog_ok p" using fp(1) assms(1) by (simp add: progress_ok_def)
  define p1 where "p1 = p\<lparr>p_current := p_current p + ucast step\<rparr>"
  have p1: "prog_ok p1" "p_id p1 = i" "weight p1 = weight p"
    using pok fp(2) by (simp_all add: p1_def prog_ok_def weight_def)
  obtain changed q where q: "check_percent p1 = (changed, q)" by force
  have qok: "prog_ok q" "p_id q = i" "weight q = weight p" using check_percent_ok [OF p1(1) q] p1 by simp_all
  define r where "r = (if p_count q = 0 then step_spinner q else q)"
  have rok: "p_id r = i" "prog_ok r" "weight r = weight p"
    using qok by (auto simp: r_def step_spinner_def prog_ok_def weight_def)
  let ?s1 = "s\<lparr>progresses := set_prog q ?ps\<rparr>"
  note s1 = set_prog_ok [OF assms(1,3) qok(2,1,3)]
  obtain ticked n where t: "check_tick now ?s1 = (ticked, ?s1\<lparr>last_tick := n\<rparr>)" using check_tick_ok by blast
  let ?s3 = "(?s1\<lparr>last_tick := n\<rparr>)\<lparr>progresses := set_prog r (set_prog q ?ps)\<rparr>"
  have s3: "progress_ok ?s3" "map p_id (progresses ?s3) = map p_id ?ps"
    using set_prog_ok [OF assms(1,3) rok] qok(2) rok(1)
    by (simp_all add: progress_ok_def set_prog_twice)
  have ne: "progresses ?s3 \<noteq> []" using fp(1) by (auto simp: set_prog_def)
  obtain s4 where s4: "bind_io (progress_compute env) (\<lambda>_. progress_write) ?s3 = (Inr (), s4)"
      "progress_ok s4" "out_ok env ?s3 s4" "map p_id (progresses s4) = map p_id (progresses ?s3)"
      "tl_next s4 = tl_next ?s3"
    using compute_write_ok [OF s3(1) assms(2) ne] by blast
  have "out_ok env s ?s3" by (simp add: out_ok_same)
  then have k4: "kept env s s4" using s4 s3(2) out_ok_trans by (auto simp: kept_def)
  have k1: "kept env s ?s1" using s1 by (simp add: kept_def out_ok_same)
  then have k2: "kept env s (?s1\<lparr>last_tick := n\<rparr>)" using d
    by (simp add: kept_def progress_ok_def out_ok_def)
  show ?thesis
    using q t s4(1) k1 k2 k4 unfolding step_prog_def p1_def [symmetric] Let_def
    by (simp add: r_def [symmetric])
qed

lemma step_ok:
  assumes "progress_ok s" and "width_ok env" and "i \<in> p_id ` set (progresses s)"
  shows "case tools_progress_step env now (Prog i) step s of
    (Inl e, s') \<Rightarrow> False | (Inr u, s') \<Rightarrow> kept env s s'"
proof -
  obtain p where f: "find_prog i (progresses s) = Some p" using find_prog_live [OF assms(3)] by blast
  show ?thesis using step_prog_ok [OF assms(1,2) f] f by (simp add: tools_progress_step_def)
qed

lemma filter_ok:
  assumes "progress_ok s"
  shows "progress_ok (s\<lparr>progresses := filter P (progresses s)\<rparr>)"
proof -
  have "sum_list (map weight (filter P ps)) \<le> sum_list (map weight ps)" for ps :: "tools_progress list"
    by (induction ps) simp_all
  then show ?thesis using assms
    by (auto simp: progress_ok_def bar_room_def distinct_map_filter intro: order_le_less_trans)
qed

lemma stop_ok:
  assumes "progress_ok s" and "width_ok env" and "i \<in> p_id ` set (progresses s)"
  shows "case tools_progress_stop env (Prog i) s of
    (Inl e, s') \<Rightarrow> False
  | (Inr u, s') \<Rightarrow> progress_ok s' \<and> out_ok env s s' \<and> i \<notin> p_id ` set (progresses s')"
proof -
  obtain s1 where s1: "tools_progress_clear env s = (Inr (), s1)" "kept env s s1"
    using clear_ok [OF assms(1,2)] by blast
  have ids: "map p_id (progresses s1) = map p_id (progresses s)" and ok1: "progress_ok s1"
    and out1: "out_ok env s s1" using s1(2) by (simp_all add: kept_def)
  have "i \<in> p_id ` set (progresses s1)" using assms(3) ids by (metis list.set_map)
  then obtain p where f: "find_prog i (progresses s1) = Some p" using find_prog_live by blast
  let ?ps = "filter (\<lambda>p. p_id p \<noteq> i) (progresses s1)"
  let ?s2 = "s1\<lparr>progresses := ?ps\<rparr>"
  have ok2: "progress_ok ?s2" by (rule filter_ok [OF ok1])
  show ?thesis
  proof (cases "?ps = []")
    case True
    then have "tools_progress_stop env (Prog i) s = (Inr (), ?s2)"
      using s1(1) f by (simp add: tools_progress_stop_def bind_io_def Let_def)
    moreover have "out_ok env s ?s2" using out1 by (simp add: out_ok_def)
    ultimately show ?thesis using ok2 True by (simp del: progress_state.update_convs)
  next
    case False
    let ?s3 = "?s2\<lparr>progresses := progress_length_reset (progresses ?s2)\<rparr>"
    obtain s4 where s4: "tools_progress_restore env ?s3 = (Inr (), s4)" "kept env ?s3 s4"
      using restore_ok [OF reset_ok [OF ok2] assms(2)] by blast
    have eq: "tools_progress_stop env (Prog i) s = (Inr (), s4)"
      using s1(1) f False s4(1) by (simp add: tools_progress_stop_def bind_io_def Let_def)
    have "out_ok env s ?s3" using out1 by (simp add: out_ok_def)
    then have "out_ok env s s4" using s4(2) out_ok_trans by (auto simp: kept_def)
    moreover have "map p_id (progresses s4) = map p_id ?ps"
      using s4(2) by (simp add: kept_def reset_facts)
    then have "p_id ` set (progresses s4) = p_id ` set ?ps" by (metis list.set_map)
    ultimately show ?thesis using eq s4(2) by (auto simp: kept_def)
  qed
qed

section \<open>Shortening\<close>

fun shrinks :: "nat \<Rightarrow> tools_progress list \<Rightarrow> tools_progress list option" where
  "shrinks 0 ps = Some ps"
| "shrinks (Suc k) ps = Option.bind (shrinks k ps) progress_length_shrink"

abbreviation (input) with_len :: "progress_length \<Rightarrow> tools_progress list \<Rightarrow> tools_progress list" where
  "with_len l ps \<equiv> map (\<lambda>p. p\<lparr>p_len := l\<rparr>) ps"

lemma shrinks_add: "shrinks (a + b) ps = Option.bind (shrinks a ps) (shrinks b)"
proof (induction b)
  case (Suc b)
  then show ?case by (cases "shrinks a ps") simp_all
qed (cases "shrinks a ps", simp_all)

lemma boundary_none: "\<forall>p\<in>set ps. p_len p = l \<Longrightarrow> shrink_boundary l ps = None"
  by (induction ps) simp_all

lemma boundary_some:
  "\<forall>p\<in>set xs. p_len p = l \<Longrightarrow> l < p_len y \<Longrightarrow> shrink_boundary l (xs @ y # ys) = Some (length xs)"
  by (induction xs) (simp_all add: less_le_not_le)

lemma shorter_less: "l \<noteq> PROGRESS_TRUNC \<Longrightarrow> shorter l < l" "l \<noteq> PROGRESS_TRUNC \<Longrightarrow> shorter l < PROGRESS_LONG"
  by (cases l; simp add: shorter_def less_progress_length_def)+

lemma boundary_equal:
  assumes "\<forall>p\<in>set ps. p_len p = l"
  shows "shrink_boundary PROGRESS_LONG ps = None"
proof (cases ps)
  case (Cons p qs)
  show ?thesis
  proof (cases "l = PROGRESS_LONG")
    case True
    then show ?thesis using boundary_none assms by blast
  next
    case False
    then have "l < PROGRESS_LONG" by (cases l) (simp_all add: less_progress_length_def)
    then show ?thesis using assms boundary_none [of qs l] by (simp add: Cons)
  qed
qed simp

lemma shrink_first:
  "\<forall>q\<in>set (p # ps). p_len q = l \<Longrightarrow>
    progress_length_shrink (p # ps) =
      (if l = PROGRESS_TRUNC then None else Some (p\<lparr>p_len := shorter l\<rparr> # ps))"
  using boundary_equal [of "p # ps" l] by (simp add: progress_length_shrink_def)

lemma shrink_next:
  assumes "xs \<noteq> []" and "\<forall>q\<in>set xs. p_len q = shorter l" and "p_len y = l" and "l \<noteq> PROGRESS_TRUNC"
  shows "progress_length_shrink (xs @ y # ys) = Some (xs @ y\<lparr>p_len := shorter l\<rparr> # ys)"
proof -
  obtain x zs where xs: "xs = x # zs" using assms(1) by (cases xs) auto
  have "shrink_boundary (shorter l) (zs @ y # ys) = Some (length zs)"
    using assms(2,3) shorter_less(1) [OF assms(4)] by (intro boundary_some) (simp_all add: xs)
  then have "shrink_boundary PROGRESS_LONG (xs @ y # ys) = Some (length xs)"
    using assms(2) shorter_less(2) [OF assms(4)] by (simp add: xs)
  then show ?thesis using assms(3,4) by (simp add: progress_length_shrink_def nth_append list_update_append)
qed

lemma shrink_phase:
  assumes "l \<noteq> PROGRESS_TRUNC" and "\<forall>p\<in>set ps. p_len p = l" and "a \<le> length ps"
  shows "shrinks a ps = Some (with_len (shorter l) (take a ps) @ drop a ps)"
  using assms(3)
proof (induction a)
  case (Suc a)
  then have IH: "shrinks a ps = Some (with_len (shorter l) (take a ps) @ drop a ps)" and a: "a < length ps"
    by simp_all
  have split: "drop a ps = ps ! a # drop (Suc a) ps" and t: "take (Suc a) ps = take a ps @ [ps ! a]"
    using a by (simp_all add: Cons_nth_drop_Suc take_Suc_conv_app_nth)
  have y: "p_len (ps ! a) = l" using a assms(2) by simp
  show ?case
  proof (cases "a = 0")
    case True
    have "\<forall>q\<in>set (ps ! 0 # drop (Suc 0) ps). p_len q = l"
      using assms(2) split True by (metis drop0)
    from shrink_first [OF this] show ?thesis using IH split t assms(1) True by simp
  next
    case False
    then have "with_len (shorter l) (take a ps) \<noteq> []" using a by auto
    from shrink_next [OF this _ y assms(1), of "drop (Suc a) ps"] show ?thesis
      using IH split t by simp
  qed
qed simp

section \<open>Properties\<close>

text \<open>
  C13. As long as the width of the terminal does not wrap around, no operation of the
  progress bar fails an assertion, writes outside its buffer or uses a display that is gone:
  starting a display with names that fit (whatever allocations fail), stepping or stopping one
  that is there, clearing and restoring keep the state well formed, and all that they print is
  made of texts that fit the width, with their terminator.
\<close>

theorem progress_never_fails:
  assumes "progress_ok s" and "width_ok env"
  shows "(\<forall>l n count. names_fit s l n \<longrightarrow> (case tools_progress_start env l n count s of
        (Inl e, s') \<Rightarrow> False | (Inr ref, s') \<Rightarrow> progress_ok s' \<and> out_ok env s s'))
    \<and> (\<forall>now i n. i \<in> p_id ` set (progresses s) \<longrightarrow> (case tools_progress_step env now (Prog i) n s of
        (Inl e, s') \<Rightarrow> False | (Inr u, s') \<Rightarrow> progress_ok s' \<and> out_ok env s s'))
    \<and> (\<forall>i. i \<in> p_id ` set (progresses s) \<longrightarrow> (case tools_progress_stop env (Prog i) s of
        (Inl e, s') \<Rightarrow> False
      | (Inr u, s') \<Rightarrow> progress_ok s' \<and> out_ok env s s' \<and> i \<notin> p_id ` set (progresses s')))
    \<and> (case tools_progress_clear env s of
        (Inl e, s') \<Rightarrow> False | (Inr u, s') \<Rightarrow> progress_ok s' \<and> out_ok env s s')
    \<and> (case tools_progress_restore env s of
        (Inl e, s') \<Rightarrow> False | (Inr u, s') \<Rightarrow> progress_ok s' \<and> out_ok env s s')
    \<and> progress_ok (tools_progress_enable env s) \<and> progress_ok (tools_progress_disable s)"
proof (intro conjI allI impI)
  fix l n count assume "names_fit s l n"
  then show "case tools_progress_start env l n count s of
      (Inl e, s') \<Rightarrow> False | (Inr ref, s') \<Rightarrow> progress_ok s' \<and> out_ok env s s'"
    by (rule start_ok [OF assms])
next
  fix now i n assume "i \<in> p_id ` set (progresses s)"
  then show "case tools_progress_step env now (Prog i) n s of
      (Inl e, s') \<Rightarrow> False | (Inr u, s') \<Rightarrow> progress_ok s' \<and> out_ok env s s'"
    using step_ok [OF assms, of i now n] by (auto simp: kept_def split: prod.splits sum.splits)
next
  fix i assume "i \<in> p_id ` set (progresses s)"
  then show "case tools_progress_stop env (Prog i) s of
      (Inl e, s') \<Rightarrow> False
    | (Inr u, s') \<Rightarrow> progress_ok s' \<and> out_ok env s s' \<and> i \<notin> p_id ` set (progresses s')"
    by (rule stop_ok [OF assms])
next
  show "case tools_progress_clear env s of
      (Inl e, s') \<Rightarrow> False | (Inr u, s') \<Rightarrow> progress_ok s' \<and> out_ok env s s'"
    using clear_ok [OF assms] by (metis (no_types, lifting) kept_def prod.case sum.case(2))
  show "case tools_progress_restore env s of
      (Inl e, s') \<Rightarrow> False | (Inr u, s') \<Rightarrow> progress_ok s' \<and> out_ok env s s'"
    using restore_ok [OF assms] by (metis (no_types, lifting) kept_def prod.case sum.case(2))
  show "progress_ok (tools_progress_enable env s)" "progress_ok (tools_progress_disable s)"
    using assms(1) by (auto simp: progress_ok_def tools_progress_enable_def tools_progress_disable_def Let_def)
qed

text \<open>A terminal of 40 columns, and the state after the progress bar has been enabled.\<close>

definition narrow :: tools_env where
  "narrow = \<lparr> te_columns = Some ''40'', te_tty = True \<rparr>"

lemma init_ok: "progress_ok (tools_progress_enable env progress_init)"
  by (simp add: progress_ok_def tools_progress_enable_def progress_init_def bar_room_def)

lemma narrow_ok: "width_ok narrow"
proof -
  have "display_columns narrow = 40" by code_simp
  then show ?thesis by (simp add: width_ok_def)
qed

theorem progress_never_fails_witness:
  "case tools_progress_start narrow (Some ''Checking blocks'') (Some ''blocks'') 7
      (tools_progress_enable narrow progress_init) of
    (Inl e, s') \<Rightarrow> False
  | (Inr ref, s') \<Rightarrow> progress_ok s' \<and> out_ok narrow (tools_progress_enable narrow progress_init) s'"
proof -
  have "names_fit (tools_progress_enable narrow progress_init) (Some ''Checking blocks'') (Some ''blocks'')"
    by (simp add: names_fit_def tools_progress_enable_def progress_init_def)
  then show ?thesis
    by (rule conjunct1 [OF progress_never_fails [OF init_ok narrow_ok], rule_format])
qed

text \<open>
  C30. The bar is shortened as \<^verbatim>\<open>progress.h\<close> says: from the state in which all displays show
  their long names, the steps of shortening first take the outermost displays to their short
  names, one after the other, then truncate them in the same order, and then there is
  nothing left to shorten.
\<close>

theorem shrink_order:
  assumes "ps \<noteq> []" and "a \<le> length ps"
  shows "shrinks a (progress_length_reset ps)
      = Some (with_len PROGRESS_SHORT (take a ps) @ with_len PROGRESS_LONG (drop a ps))
    \<and> shrinks (length ps + a) (progress_length_reset ps)
      = Some (with_len PROGRESS_TRUNC (take a ps) @ with_len PROGRESS_SHORT (drop a ps))
    \<and> shrinks (2 * length ps + 1) (progress_length_reset ps) = None"
proof -
  let ?long = "with_len PROGRESS_LONG ps" and ?short = "with_len PROGRESS_SHORT ps"
    and ?trunc = "with_len PROGRESS_TRUNC ps"
  have r: "progress_length_reset ps = ?long" by (simp add: progress_length_reset_def)
  have one: "shrinks b ?long = Some (with_len PROGRESS_SHORT (take b ps) @ with_len PROGRESS_LONG (drop b ps))"
    if "b \<le> length ps" for b
    using shrink_phase [of PROGRESS_LONG ?long b] that
    by (simp add: shorter_def take_map drop_map comp_def)
  have two: "shrinks b ?short = Some (with_len PROGRESS_TRUNC (take b ps) @ with_len PROGRESS_SHORT (drop b ps))"
    if "b \<le> length ps" for b
    using shrink_phase [of PROGRESS_SHORT ?short b] that
    by (simp add: shorter_def take_map drop_map comp_def)
  have "progress_length_shrink ?trunc = None"
    using assms(1) by (cases ps) (simp_all add: shrink_first [of _ _ PROGRESS_TRUNC])
  then have "shrinks (length ps + 1) ?short = None" using two [of "length ps"] by simp
  then have "shrinks (length ps + (length ps + 1)) ?long = None"
    using one [of "length ps"] shrinks_add [of "length ps" "length ps + 1" ?long] by simp
  moreover have "2 * length ps + 1 = length ps + (length ps + 1)" by simp
  ultimately have "shrinks (2 * length ps + 1) ?long = None" by (simp only:)
  then show ?thesis
    using one [OF assms(2)] one [of "length ps"] two [OF assms(2)] unfolding r by (simp add: shrinks_add)
qed

definition demo_progs :: "tools_progress list" where
  "demo_progs = map (\<lambda>i. \<lparr> p_id = i, p_len = PROGRESS_TRUNC, p_long_name = ''long name'',
     p_short_name = ''short'', p_current = 0, p_count = 0, p_percent = 0, p_spinner_pos = 0 \<rparr>) [0, 1, 2]"

theorem shrink_order_witness:
  "map_option (map p_len) (shrinks 4 (progress_length_reset demo_progs))
    = Some [PROGRESS_TRUNC, PROGRESS_SHORT, PROGRESS_SHORT]"
proof -
  have len: "length demo_progs = 3" and ne: "demo_progs \<noteq> []" by (simp_all add: demo_progs_def)
  have "shrinks (length demo_progs + 1) (progress_length_reset demo_progs)
      = Some (with_len PROGRESS_TRUNC (take 1 demo_progs) @ with_len PROGRESS_SHORT (drop 1 demo_progs))"
    using shrink_order [OF ne, of 1] len by simp
  then show ?thesis by (simp add: len) (simp add: demo_progs_def)
qed

text \<open>
  C24. With the environment variable \<^verbatim>\<open>COLUMNS\<close> at -1 or -2 the width wraps around when
  the two extra characters are added, so that the buffer is not enlarged: on a terminal the
  first display that is started writes outside the buffer.
\<close>

theorem progress_overrun:
  assumes "progress_ok s" and "progress_on s" and "nextline s = carriage_return" and "tl_heap s = []"
    and "display_columns env \<in> {0xFFFFFFFF, 0xFFFFFFFE}" and "unat (progbuf_len s) < 2 ^ 32 - 2"
  shows "fst (tools_progress_start env (Some l) n count s) = Inl C_UNDEFINED"
proof -
  let ?c = "display_columns env"
  have c: "\<not> ?c + 2 > progbuf_len s" and big: "\<not> unat ?c \<le> length (progbuf s)"
    using assms(1,5,6) by (auto simp: progress_ok_def word_less_nat_alt)
  obtain p s1 where a: "tools_progress_alloc (Some l) n count s = (Inr (Some p), s1)"
    and s1: "s1 = s\<lparr>tl_next := tl_next s + 1\<rparr>"
    using assms(4) by (cases n) (simp_all add: tools_progress_alloc_def bind_io_def tl_malloc_def)
  let ?s2 = "s1\<lparr>progresses := progresses s1 @ [p]\<rparr>"
  have "check_display env ?s2 = (Inr ?c, ?s2)" using c by (simp add: check_display_def s1 Let_def)
  moreover have "bar_visible ?s2" using assms(2,3) by (simp add: bar_visible_def s1)
  ultimately have "tools_progress_clear env ?s2 = (Inl C_UNDEFINED, ?s2)"
    using big by (simp add: tools_progress_clear_def progress_clear_def bind_io_def s1)
  then show ?thesis using a assms(2) by (simp add: tools_progress_start_def bind_io_def upd_io_def)
qed

theorem progress_overrun_witness:
  "let env = \<lparr> te_columns = Some ''-1'', te_tty = True \<rparr> in
    fst (tools_progress_start env (Some ''fsck'') None 0 (tools_progress_enable env progress_init))
      = Inl C_UNDEFINED"
proof -
  let ?env = "\<lparr> te_columns = Some ''-1'', te_tty = True \<rparr>"
  let ?s = "tools_progress_enable ?env progress_init"
  have "display_columns ?env = 0xFFFFFFFF" by code_simp
  then show ?thesis
    using progress_overrun [OF init_ok, of ?env ?env "''fsck''" None 0]
    by (simp add: tools_progress_enable_def progress_init_def)
qed

text \<open>
  C34. The percentage of a display never goes back as its count of steps grows, starts at 0 and
  ends at 100, whatever the sizes of the two numbers (its arithmetic is that of doubles).
\<close>

theorem calc_percent_monotone:
  assumes "m \<le> n" and "n \<le> dem" and "0 < dem"
  shows "unat (calc_percent m dem) \<le> unat (calc_percent n dem) \<and> unat (calc_percent n dem) \<le> 100
    \<and> calc_percent 0 dem = 0 \<and> calc_percent dem dem = 100"
proof -
  let ?d = "\<lambda>x :: u64. double (of_nat (unat x))"
  have m: "m \<le> dem" using assms(1,2) by simp
  have "?d m \<le> ?d n"
    using assms(1) by (intro double_mono) (simp_all only: of_nat_le_iff of_nat_0_le_iff word_le_nat_alt)
  moreover have r: "0 \<le> ?d m / ?d dem" using ratio_bounds [of m dem] m assms(3) by (simp add: word_le_nat_alt)
  moreover have pos: "0 < ?d dem"
    using assms(3) by (intro double_pos) (simp only: of_nat_0_less_iff unat_gt_0 word_greater_zero_iff, simp)
  ultimately have "percent_of (?d m / ?d dem) \<le> percent_of (?d n / ?d dem)"
    by (intro percent_of_mono divide_right_mono) simp_all
  then have "unat (calc_percent m dem) \<le> unat (calc_percent n dem)"
    using percent_range(1) [OF m assms(3)] percent_range(1) [OF assms(2,3)] by simp
  moreover have "calc_percent 0 dem = 0" by (simp add: calc_percent_of double_def [of 0] percent_of_ends)
  moreover have "calc_percent dem dem = 100" using pos by (simp add: calc_percent_of percent_of_ends)
  ultimately show ?thesis using percent_range(2) [OF assms(2,3)] by simp
qed

theorem calc_percent_monotone_witness: "unat (calc_percent 1 3) \<le> unat (calc_percent 2 3)"
  using calc_percent_monotone [of 1 2 3] by simp

end
