(* ===== verification/Verbose.thy ===== *)
theory Verbose
  imports Progress_properties
begin

text \<open>
  Messages and questions (\<^verbatim>\<open>libtools-internal/verbose.c\<close>) and the trimming of strings
  (\<^verbatim>\<open>libtools-internal/utils.c\<close>). The static variables of \<^verbatim>\<open>verbose.c\<close> are the record
  \<open>verbose_state\<close>, which carries the state of the progress bar: both print to the standard
  output. A message is given as the text that its format and arguments make. The library
  of \<^verbatim>\<open>com_err\<close> is not part of the sources; the text it prints is an argument.
\<close>

section \<open>State\<close>

record verbose_state =
  vb_progress :: progress_state
  progname :: string
  verbosity :: int
  interactive :: bool
  interactive_answer :: "char option"
  com_err_quiet :: bool
  vb_stderr :: string
  vb_stdin :: string

definition verbose_init :: verbose_state where
  "verbose_init =
     \<lparr> vb_progress = progress_init, progname = ''(Unknown)'', verbosity = 1, interactive = False,
       interactive_answer = None, com_err_quiet = False, vb_stderr = [], vb_stdin = [] \<rparr>"

datatype stream = Stdout | Stderr

abbreviation (input) VL_FLAG_STDOUT :: u32 where "VL_FLAG_STDOUT \<equiv> 0x100"
abbreviation (input) VL_CRIT :: u32 where "VL_CRIT \<equiv> 0"
abbreviation (input) VL_ERR :: u32 where "VL_ERR \<equiv> 1"

text \<open>An operation of the progress bar on its part of the state.\<close>

definition in_progress :: "(progress_state, 'a) io \<Rightarrow> (verbose_state, 'a) io" where
  "in_progress m s = (case m (vb_progress s) of (r, p) \<Rightarrow> (r, s\<lparr>vb_progress := p\<rparr>))"

section \<open>The name of the program and the level of output\<close>

abbreviation (input) PATH_MAX :: nat where "PATH_MAX \<equiv> 4096"

definition base_name :: "string \<Rightarrow> string" where
  "base_name path = rev (takeWhile (\<lambda>c. c \<noteq> CHR ''/'') (rev path))"

definition tools_setup_argv0 :: "string \<Rightarrow> verbose_state \<Rightarrow> verbose_state" where
  "tools_setup_argv0 argv0 s =
     s\<lparr>progname := take (PATH_MAX - 1) (base_name (take (PATH_MAX - 1) argv0))\<rparr>"

definition tools_verbose :: "verbose_state \<Rightarrow> verbose_state" where
  "tools_verbose s =
     (let s = s\<lparr>verbosity := verbosity s + 1\<rparr> in
      if verbosity s = 1 then s\<lparr>com_err_quiet := False\<rparr> else s)"

definition tools_quiet :: "verbose_state \<Rightarrow> verbose_state" where
  "tools_quiet s =
     (let s = (if verbosity s = 1 then s\<lparr>com_err_quiet := True\<rparr> else s) in
      s\<lparr>verbosity := verbosity s - 1\<rparr>)"

definition tools_verbosity :: "verbose_state \<Rightarrow> int" where
  "tools_verbosity s = verbosity s"

section \<open>Messages\<close>

definition print_to :: "stream \<Rightarrow> string \<Rightarrow> verbose_state \<Rightarrow> verbose_state" where
  "print_to f t s =
     (case f of
        Stdout \<Rightarrow> s\<lparr>vb_progress := (vb_progress s)\<lparr>tl_stdout := tl_stdout (vb_progress s) @ t\<rparr>\<rparr>
      | Stderr \<Rightarrow> s\<lparr>vb_stderr := vb_stderr s @ t\<rparr>)"

definition vfverbosef :: "tools_env \<Rightarrow> stream \<Rightarrow> u32 \<Rightarrow> string \<Rightarrow> (verbose_state, unit) io" where
  "vfverbosef env f level t s =
     (if int (unat level) \<le> verbosity s then
        bind_io (in_progress (tools_progress_clear env)) (\<lambda>_.
        bind_io (upd_io (print_to f t)) (\<lambda>_.
        in_progress (tools_progress_restore env))) s
      else (Inr (), s))"

definition verbosef :: "tools_env \<Rightarrow> u32 \<Rightarrow> string \<Rightarrow> (verbose_state, unit) io" where
  "verbosef env level t =
     (if level AND VL_FLAG_STDOUT \<noteq> 0 then vfverbosef env Stdout (level AND NOT VL_FLAG_STDOUT) t
      else vfverbosef env Stderr level t)"

definition errorf :: "tools_env \<Rightarrow> string \<Rightarrow> (verbose_state, unit) io" where
  "errorf env t =
     bind_io (\<lambda>s. vfverbosef env Stderr VL_ERR (progname s @ '': '') s) (\<lambda>_.
     vfverbosef env Stderr VL_ERR t)"

definition tcom_err :: "tools_env \<Rightarrow> string \<Rightarrow> (verbose_state, unit) io" where
  "tcom_err env com_err_text =
     bind_io (in_progress (tools_progress_clear env)) (\<lambda>_.
     bind_io (upd_io (\<lambda>s. if com_err_quiet s then s else print_to Stderr com_err_text s)) (\<lambda>_.
     in_progress (tools_progress_restore env)))"

definition tools_version :: "tools_env \<Rightarrow> string \<Rightarrow> (verbose_state, unit) io" where
  "tools_version env version s =
     verbosef env VL_ERR (progname s @ '' '' @ version @ [newline]) s"

definition tools_progname :: "verbose_state \<Rightarrow> string" where
  "tools_progname s = progname s"

section \<open>Questions\<close>

abbreviation (input) NAME_MAX :: nat where "NAME_MAX \<equiv> 255"

text \<open>A line from the standard input, into a buffer of \<open>n\<close> characters; \<open>None\<close> at its end.\<close>

definition fgets_stdin :: "nat \<Rightarrow> verbose_state \<Rightarrow> string option \<times> verbose_state" where
  "fgets_stdin n s =
     (let inp = vb_stdin s;
          line = takeWhile (\<lambda>c. c \<noteq> newline) inp;
          k = min (n - 1) (if length line < length inp then length line + 1 else length line)
      in if inp = [] then (None, s) else (Some (take k inp), s\<lparr>vb_stdin := drop k inp\<rparr>))"

definition to_lower :: "char \<Rightarrow> char" where
  "to_lower c =
     (let n = of_char c :: nat in if 65 \<le> n \<and> n \<le> 90 then char_of (n + 32) else c)"

text \<open>The answer is yes when its first character is a y.\<close>

definition says_yes :: "string option \<Rightarrow> bool" where
  "says_yes answer =
     (case answer of
        Some (c # cs) \<Rightarrow> c \<noteq> nul \<and> to_lower c = CHR ''y''
      | _ \<Rightarrow> False)"

definition ask :: "tools_env \<Rightarrow> u32 \<Rightarrow> (verbose_state, string option) io" where
  "ask env level s =
     (case interactive_answer s of
        Some c \<Rightarrow>
          bind_io (vfverbosef env Stderr level [c, newline]) (\<lambda>_. ret_io (Some [c])) s
      | None \<Rightarrow> (case fgets_stdin NAME_MAX s of (line, s) \<Rightarrow> (Inr line, s)))"

definition vtools_interact :: "tools_env \<Rightarrow> u32 \<Rightarrow> string \<Rightarrow> (verbose_state, bool) io" where
  "vtools_interact env level question s =
     (let progress_enabled = tools_progress_enabled (vb_progress s) in
      bind_io (if progress_enabled
               then bind_io (in_progress (tools_progress_clear env)) (\<lambda>_.
                      upd_io (\<lambda>s. s\<lparr>vb_progress := tools_progress_disable (vb_progress s)\<rparr>))
               else ret_io ()) (\<lambda>_.
      bind_io (vfverbosef env Stderr level question) (\<lambda>_.
      bind_io (ask env level) (\<lambda>answer.
      bind_io (if progress_enabled
               then bind_io (upd_io (\<lambda>s. s\<lparr>vb_progress := tools_progress_enable env (vb_progress s)\<rparr>)) (\<lambda>_.
                      in_progress (tools_progress_restore env))
               else ret_io ()) (\<lambda>_.
      ret_io (says_yes answer))))) s)"

definition tools_interactive :: "verbose_state \<Rightarrow> verbose_state" where
  "tools_interactive s = s\<lparr>interactive := True\<rparr>"

definition tools_interactive_yes :: "verbose_state \<Rightarrow> verbose_state" where
  "tools_interactive_yes s = s\<lparr>interactive_answer := Some CHR ''y''\<rparr>"

definition tools_interactive_no :: "verbose_state \<Rightarrow> verbose_state" where
  "tools_interactive_no s = s\<lparr>interactive_answer := Some CHR ''n''\<rparr>"

definition tools_is_interactive :: "verbose_state \<Rightarrow> bool" where
  "tools_is_interactive s = interactive s"

definition tools_interact :: "tools_env \<Rightarrow> string \<Rightarrow> (verbose_state, bool) io" where
  "tools_interact env question s =
     (if \<not> interactive s then (Inr True, s) else vtools_interact env VL_ERR question s)"

definition tools_interact_critical :: "tools_env \<Rightarrow> string \<Rightarrow> (verbose_state, bool) io" where
  "tools_interact_critical env question = vtools_interact env VL_CRIT question"

section \<open>Trimming\<close>

text \<open>
  The characters of the string from its end on, \<open>None\<close> when the loop reads the
  character in front of the string: at the end of a string of white space only.
\<close>

fun chomp_loop :: "string \<Rightarrow> string option" where
  "chomp_loop [] = None"
| "chomp_loop (c # cs) = (if is_space c then chomp_loop cs else Some (c # cs))"

definition tools_strchomp :: "string \<Rightarrow> string option" where
  "tools_strchomp str = (if str = [] then Some [] else map_option rev (chomp_loop (rev str)))"

text \<open>The NUL at the end of the string is no white space.\<close>

fun tools_strchug :: "string \<Rightarrow> string" where
  "tools_strchug [] = []"
| "tools_strchug (c # cs) = (if is_space c then tools_strchug cs else c # cs)"

lemma chomp_loop_spec:
  "chomp_loop s = (if \<forall>c\<in>set s. is_space c then None else Some (dropWhile is_space s))"
  by (induction s) auto

lemma strchug_spec: "tools_strchug s = dropWhile is_space s"
  by (induction s) auto

lemma dropWhile_split: "\<exists>w. s = w @ dropWhile P s \<and> (\<forall>c\<in>set w. P c)"
  by (metis set_takeWhileD takeWhile_dropWhile_id)

section \<open>Properties\<close>

text \<open>
  Messages and questions leave the progress bar in order: with a width that does not wrap
  around, no message fails; a message that is not below the level of output is printed, others
  print nothing and change nothing; a question is answered yes without asking when the
  tool is not interactive.
\<close>

theorem messages_ok:
  assumes "progress_ok (vb_progress s)" and "width_ok env"
  shows "(case vfverbosef env Stderr level t s of
      (Inl e, s') \<Rightarrow> False
    | (Inr u, s') \<Rightarrow> progress_ok (vb_progress s')
        \<and> (if int (unat level) \<le> verbosity s then vb_stderr s' = vb_stderr s @ t else s' = s))
    \<and> (\<not> interactive s \<longrightarrow> tools_interact env question s = (Inr True, s))"
proof -
  obtain p1 where p1: "tools_progress_clear env (vb_progress s) = (Inr (), p1)" "kept env (vb_progress s) p1"
    using clear_ok [OF assms] by blast
  then have "progress_ok p1" by (simp add: kept_def)
  then obtain p2 where p2: "tools_progress_restore env p1 = (Inr (), p2)" "kept env p1 p2"
    using restore_ok [OF _ assms(2)] by blast
  have "progress_ok p2" using p2(2) by (simp add: kept_def)
  then show ?thesis using p1(1) p2(1) assms(1)
    by (simp add: vfverbosef_def in_progress_def bind_io_def upd_io_def print_to_def tools_interact_def)
qed

theorem messages_ok_witness:
  "case vfverbosef narrow Stderr 1 ''hello'' verbose_init of
      (Inl e, s') \<Rightarrow> False | (Inr u, s') \<Rightarrow> vb_stderr s' = ''hello''"
proof -
  have "progress_ok (vb_progress verbose_init)"
    by (simp add: verbose_init_def progress_ok_def progress_init_def bar_room_def)
  from messages_ok [OF this narrow_ok, of 1 "''hello''"] show ?thesis
    by (auto simp: verbose_init_def split: prod.splits sum.splits)
qed

text \<open>
  C37. \<^verbatim>\<open>tools_strchug\<close> removes exactly the white space at the start of a string and
  \<^verbatim>\<open>tools_strchomp\<close> that at its end, unless the string is made of white space only: then
  \<^verbatim>\<open>tools_strchomp\<close> reads the character in front of the string.
\<close>

theorem trimming:
  "(\<exists>w. s = w @ tools_strchug s \<and> (\<forall>c\<in>set w. is_space c))
    \<and> (tools_strchug s = [] \<or> \<not> is_space (hd (tools_strchug s)))
    \<and> (if s \<noteq> [] \<and> (\<forall>c\<in>set s. is_space c) then tools_strchomp s = None
       else \<exists>r w. tools_strchomp s = Some r \<and> s = r @ w \<and> (\<forall>c\<in>set w. is_space c)
         \<and> (r = [] \<or> \<not> is_space (last r)))"
proof -
  have chug: "\<exists>w. s = w @ tools_strchug s \<and> (\<forall>c\<in>set w. is_space c)"
    unfolding strchug_spec by (rule dropWhile_split)
  have first: "tools_strchug s = [] \<or> \<not> is_space (hd (tools_strchug s))"
    unfolding strchug_spec by (metis hd_dropWhile)
  have chomp: "\<exists>r w. tools_strchomp s = Some r \<and> s = r @ w \<and> (\<forall>c\<in>set w. is_space c)
      \<and> (r = [] \<or> \<not> is_space (last r))" if ex: "\<not> (s \<noteq> [] \<and> (\<forall>c\<in>set s. is_space c))"
  proof (cases "s = []")
    case False
    from dropWhile_split [of "rev s" is_space] obtain w where
      w: "rev s = w @ dropWhile is_space (rev s)" "\<forall>c\<in>set w. is_space c"
      by (elim exE conjE) (rule that)
    have ne: "dropWhile is_space (rev s) \<noteq> []" using ex False by auto
    let ?r = "rev (dropWhile is_space (rev s))"
    have "tools_strchomp s = Some ?r" using ex False by (simp add: tools_strchomp_def chomp_loop_spec)
    moreover have "rev (rev s) = rev (w @ dropWhile is_space (rev s))" using w(1) by (rule arg_cong)
    then have "s = ?r @ rev w" by (simp only: rev_append rev_rev_ident)
    moreover have "\<not> is_space (last ?r)" using ne by (simp add: last_rev hd_dropWhile)
    moreover have "\<forall>c\<in>set (rev w). is_space c" using w(2) by simp
    ultimately show ?thesis by (intro exI [of _ ?r] exI [of _ "rev w"] conjI disjI2)
  qed (simp add: tools_strchomp_def)
  have none: "tools_strchomp s = None" if "s \<noteq> [] \<and> (\<forall>c\<in>set s. is_space c)"
    using that by (simp add: tools_strchomp_def chomp_loop_spec)
  have "if s \<noteq> [] \<and> (\<forall>c\<in>set s. is_space c) then tools_strchomp s = None
      else \<exists>r w. tools_strchomp s = Some r \<and> s = r @ w \<and> (\<forall>c\<in>set w. is_space c)
        \<and> (r = [] \<or> \<not> is_space (last r))"
  proof (rule if_bool_eq_conj [THEN iffD2], intro conjI impI)
    assume "s \<noteq> [] \<and> (\<forall>c\<in>set s. is_space c)"
    then show "tools_strchomp s = None" by (rule none)
  next
    assume "\<not> (s \<noteq> [] \<and> (\<forall>c\<in>set s. is_space c))"
    then show "\<exists>r w. tools_strchomp s = Some r \<and> s = r @ w \<and> (\<forall>c\<in>set w. is_space c)
        \<and> (r = [] \<or> \<not> is_space (last r))" by (rule chomp)
  qed
  with chug first show ?thesis by (rule conjI [OF _ conjI])
qed

theorem trimming_witness: "tools_strchomp ''  '' = None"
  using trimming [of "''  ''"] by (simp add: is_space_def)

end
