(* ===== verification/Messages.thy ===== *)
theory Messages
  imports Verbose
begin

text \<open>
  Messages and questions above the progress bar: what \<^verbatim>\<open>verbose.c\<close> asks of the bar is the locale
  \<open>display_line\<close>, an operation that takes the bar off its line and one that draws it again,
  between which text may be printed. The progress bar provides it for every width that does
  not wrap around.
\<close>

section \<open>The line of the bar\<close>

locale display_line =
  fixes ok :: "'s \<Rightarrow> bool" and clear :: "('s, unit) io" and restore :: "('s, unit) io"
    and cleared :: "'s \<Rightarrow> 's \<Rightarrow> bool" and drawn :: "'s \<Rightarrow> 's \<Rightarrow> bool"
  assumes clear: "ok s \<Longrightarrow> \<exists>s'. clear s = (Inr (), s') \<and> ok s' \<and> cleared s s'"
    and restore: "ok s \<Longrightarrow> \<exists>s'. restore s = (Inr (), s') \<and> ok s' \<and> drawn s s'"
begin

lemma around:
  assumes "ok s" and "\<And>s. ok s \<Longrightarrow> ok (f s)"
  shows "\<exists>s1 s'. bind_io clear (\<lambda>_. bind_io (upd_io f) (\<lambda>_. restore)) s = (Inr (), s')
    \<and> ok s' \<and> cleared s s1 \<and> drawn (f s1) s'"
proof -
  obtain s1 where s1: "clear s = (Inr (), s1)" "ok s1" "cleared s s1" using clear [OF assms(1)] by blast
  obtain s' where "restore (f s1) = (Inr (), s')" "ok s'" "drawn (f s1) s'"
    using restore [OF assms(2) [OF s1(2)]] by blast
  then show ?thesis using s1 by (simp add: bind_io_def upd_io_def) blast
qed

end

definition verbose_ok :: "tools_env \<Rightarrow> verbose_state \<Rightarrow> bool" where
  "verbose_ok env s \<longleftrightarrow> width_ok env \<and> progress_ok (vb_progress s)"

text \<open>
  What is printed where the bar is: blanks over it, and the bar itself, when it is visible.
  \<open>line_kept\<close>: the displays and the switches of the bar are those they were.
\<close>

definition blank_text :: "tools_env \<Rightarrow> bool \<Rightarrow> string \<Rightarrow> bool" where
  "blank_text env visible t \<longleftrightarrow>
     (if visible then \<exists>k \<le> unat (display_columns env). t = replicate k CHR '' '' @ [carriage_return] else t = [])"

definition bar_drawn :: "tools_env \<Rightarrow> bool \<Rightarrow> tools_progress list \<Rightarrow> string \<Rightarrow> bool" where
  "bar_drawn env visible ps t \<longleftrightarrow>
     (if visible then \<exists>columns. unat columns \<le> unat (display_columns env) \<and> shown columns carriage_return ps t
      else t = [])"

definition line_kept :: "progress_state \<Rightarrow> progress_state \<Rightarrow> bool" where
  "line_kept p q \<longleftrightarrow> map p_id (progresses q) = map p_id (progresses p) \<and> nextline q = nextline p
     \<and> progress_on q = progress_on p"

lemma line_kept_visible: "line_kept p q \<Longrightarrow> bar_visible q = bar_visible p"
  by (metis bar_visible_def line_kept_def map_is_Nil_conv)

lemma line_kept_trans: "line_kept p q \<Longrightarrow> line_kept q r \<Longrightarrow> line_kept p r"
  by (simp add: line_kept_def)

definition line_cleared :: "tools_env \<Rightarrow> verbose_state \<Rightarrow> verbose_state \<Rightarrow> bool" where
  "line_cleared env s s' \<longleftrightarrow> (\<exists>p b. s' = s\<lparr>vb_progress := p\<rparr> \<and> line_kept (vb_progress s) p
     \<and> tl_stdout p = tl_stdout (vb_progress s) @ b \<and> blank_text env (bar_visible (vb_progress s)) b)"

definition line_drawn :: "tools_env \<Rightarrow> verbose_state \<Rightarrow> verbose_state \<Rightarrow> bool" where
  "line_drawn env s s' \<longleftrightarrow> (\<exists>p d. s' = s\<lparr>vb_progress := p\<rparr> \<and> line_kept (vb_progress s) p
     \<and> tl_stdout p = tl_stdout (vb_progress s) @ d
     \<and> bar_drawn env (bar_visible (vb_progress s)) (progresses p) d)"

lemma hidden_line:
  assumes "\<not> bar_visible (vb_progress s)"
  shows "line_cleared env s s" and "line_drawn env s s"
proof -
  have "s = s\<lparr>vb_progress := vb_progress s\<rparr>" by simp
  then show "line_cleared env s s" "line_drawn env s s"
    unfolding line_cleared_def line_drawn_def
    using assms by (auto simp: blank_text_def bar_drawn_def line_kept_def intro!: exI [of _ "vb_progress s"])
qed

interpretation line: display_line "verbose_ok env" "in_progress (tools_progress_clear env)"
    "in_progress (tools_progress_restore env)" "line_cleared env" "line_drawn env" for env
proof
  fix s assume "verbose_ok env s"
  then have ok: "progress_ok (vb_progress s)" "width_ok env" by (simp_all add: verbose_ok_def)
  let ?p = "vb_progress s"
  show "\<exists>s'. in_progress (tools_progress_clear env) s = (Inr (), s') \<and> verbose_ok env s' \<and> line_cleared env s s'"
  proof (cases "bar_visible ?p")
    case False
    then show ?thesis using hidden_line ok by (simp add: in_progress_def tools_progress_clear_def verbose_ok_def)
  next
    case True
    obtain p k where p: "tools_progress_clear env ?p = (Inr (), p)" "progress_ok p"
      "tl_stdout p = tl_stdout ?p @ replicate k CHR '' '' @ [nextline ?p]" "k \<le> unat (display_columns env)"
      "map p_id (progresses p) = map p_id (progresses ?p)" "nextline p = nextline ?p"
      "progress_on p = progress_on ?p" by (rule clear_shows [OF ok True])
    moreover have "nextline ?p = carriage_return" using True by (simp add: bar_visible_def)
    ultimately have "line_cleared env s (s\<lparr>vb_progress := p\<rparr>)"
      using True unfolding line_cleared_def
      by (intro exI [of _ p] exI [of _ "replicate k CHR '' '' @ [nextline ?p]"])
        (auto simp: line_kept_def blank_text_def)
    then show ?thesis using p(1,2) ok(2) by (simp add: in_progress_def verbose_ok_def)
  qed
  show "\<exists>s'. in_progress (tools_progress_restore env) s = (Inr (), s') \<and> verbose_ok env s' \<and> line_drawn env s s'"
  proof (cases "bar_visible ?p")
    case False
    then show ?thesis using hidden_line ok by (simp add: in_progress_def tools_progress_restore_def verbose_ok_def)
  next
    case True
    then have "progresses ?p \<noteq> []" and cr: "nextline ?p = carriage_return" by (simp_all add: bar_visible_def)
    then obtain p t columns where p: "bind_io (progress_compute env) (\<lambda>_. progress_write) ?p = (Inr (), p)"
      "progress_ok p" "tl_stdout p = tl_stdout ?p @ t" "shown columns (nextline ?p) (progresses p) t"
      "unat columns \<le> unat (display_columns env)" "map p_id (progresses p) = map p_id (progresses ?p)"
      "nextline p = nextline ?p" "progress_on p = progress_on ?p"
      using compute_write_shows [OF ok] by blast
    then have "line_drawn env s (s\<lparr>vb_progress := p\<rparr>)"
      using True cr unfolding line_drawn_def
      by (intro exI [of _ p] exI [of _ t]) (auto simp: line_kept_def bar_drawn_def)
    then show ?thesis using p(1,2) True ok(2)
      by (simp add: in_progress_def tools_progress_restore_def verbose_ok_def)
  qed
qed

section \<open>Messages\<close>

text \<open>
  \<open>printed\<close>: the text is on its stream, behind the blanks over the bar and before the bar
  when that shares the stream, and nothing else has changed.
\<close>

definition printed :: "tools_env \<Rightarrow> stream \<Rightarrow> string \<Rightarrow> verbose_state \<Rightarrow> verbose_state \<Rightarrow> bool" where
  "printed env f t s s' \<longleftrightarrow> (\<exists>p b d.
       s' = s\<lparr>vb_progress := p, vb_stderr := vb_stderr s @ (if f = Stderr then t else [])\<rparr>
     \<and> line_kept (vb_progress s) p
     \<and> tl_stdout p = tl_stdout (vb_progress s) @ b @ (if f = Stdout then t else []) @ d
     \<and> blank_text env (bar_visible (vb_progress s)) b
     \<and> bar_drawn env (bar_visible (vb_progress s)) (progresses p) d)"

lemma print_ok: "verbose_ok env s \<Longrightarrow> verbose_ok env (print_to f t s)"
  by (cases f) (auto simp: print_to_def verbose_ok_def progress_ok_def)

lemma cleared_drawn:
  assumes "line_cleared env s s1" and "line_drawn env (print_to f t s1) s'"
  shows "printed env f t s s'"
proof -
  obtain p1 b where p1: "s1 = s\<lparr>vb_progress := p1\<rparr>" "line_kept (vb_progress s) p1"
    "tl_stdout p1 = tl_stdout (vb_progress s) @ b" "blank_text env (bar_visible (vb_progress s)) b"
    using assms(1) by (auto simp: line_cleared_def)
  let ?q = "vb_progress (print_to f t s1)"
  have q: "line_kept p1 ?q" "tl_stdout ?q = tl_stdout p1 @ (if f = Stdout then t else [])"
    "print_to f t s1 = s\<lparr>vb_progress := ?q, vb_stderr := vb_stderr s @ (if f = Stderr then t else [])\<rparr>"
    by (cases f; simp add: print_to_def p1(1) line_kept_def)+
  have kept: "line_kept (vb_progress s) ?q" by (rule line_kept_trans [OF p1(2) q(1)])
  obtain p d where p: "s' = (print_to f t s1)\<lparr>vb_progress := p\<rparr>" "line_kept ?q p"
    "tl_stdout p = tl_stdout ?q @ d" "bar_drawn env (bar_visible ?q) (progresses p) d"
    using assms(2) by (auto simp: line_drawn_def)
  have "s' = s\<lparr>vb_progress := p, vb_stderr := vb_stderr s @ (if f = Stderr then t else [])\<rparr>"
    unfolding p(1) by (subst q(3)) simp
  then show ?thesis unfolding printed_def
    using p(3,4) p1(3,4) q(2) line_kept_visible [OF kept] line_kept_trans [OF kept p(2)]
    by (intro exI [of _ p] exI [of _ b] exI [of _ d]) simp
qed

lemma message_ok:
  assumes "verbose_ok env s"
  shows "\<exists>s'. vfverbosef env f level t s = (Inr (), s') \<and> verbose_ok env s'
    \<and> (if int (unat level) \<le> verbosity s then printed env f t s s' else s' = s)"
proof (cases "int (unat level) \<le> verbosity s")
  case True
  obtain s1 s' where "bind_io (in_progress (tools_progress_clear env)) (\<lambda>_.
      bind_io (upd_io (print_to f t)) (\<lambda>_. in_progress (tools_progress_restore env))) s = (Inr (), s')"
    "verbose_ok env s'" "line_cleared env s s1" "line_drawn env (print_to f t s1) s'"
    using line.around [OF assms, of "print_to f t"] print_ok by blast
  then show ?thesis using True cleared_drawn by (simp add: vfverbosef_def)
qed (simp add: vfverbosef_def assms)

section \<open>Questions\<close>

text \<open>With the bar off its line, the question and the echo of a fixed answer go to the standard error.\<close>

lemma printed_hidden:
  assumes "printed env Stderr t s s'" and "\<not> bar_visible (vb_progress s)"
  shows "\<exists>p. s' = s\<lparr>vb_progress := p, vb_stderr := vb_stderr s @ t\<rparr>
    \<and> line_kept (vb_progress s) p \<and> tl_stdout p = tl_stdout (vb_progress s)"
  using assms by (auto simp: printed_def blank_text_def bar_drawn_def)

definition answer_of :: "verbose_state \<Rightarrow> string option" where
  "answer_of s = (case interactive_answer s of Some c \<Rightarrow> Some [c] | None \<Rightarrow> fst (fgets_stdin NAME_MAX s))"

definition echo_of :: "verbose_state \<Rightarrow> string" where
  "echo_of s = (case interactive_answer s of Some c \<Rightarrow> [c, newline] | None \<Rightarrow> [])"

definition input_after :: "verbose_state \<Rightarrow> string" where
  "input_after s = (case interactive_answer s of Some c \<Rightarrow> vb_stdin s
     | None \<Rightarrow> vb_stdin (snd (fgets_stdin NAME_MAX s)))"

text \<open>The question and the answer while the bar is not visible.\<close>

lemma question_ok:
  assumes "verbose_ok env s" and "\<not> bar_visible (vb_progress s)"
  shows "\<exists>p. bind_io (vfverbosef env Stderr level q) (\<lambda>_. ask env level) s = (Inr (answer_of s),
      s\<lparr>vb_progress := p, vb_stderr := vb_stderr s @ (if int (unat level) \<le> verbosity s then q @ echo_of s else []),
        vb_stdin := input_after s\<rparr>)
    \<and> progress_ok p \<and> line_kept (vb_progress s) p \<and> tl_stdout p = tl_stdout (vb_progress s)"
proof -
  have one: "\<exists>p. vfverbosef env Stderr level t s0 = (Inr (), s0\<lparr>vb_progress := p,
        vb_stderr := vb_stderr s0 @ (if int (unat level) \<le> verbosity s0 then t else [])\<rparr>)
      \<and> progress_ok p \<and> line_kept (vb_progress s0) p \<and> tl_stdout p = tl_stdout (vb_progress s0)"
    if ok: "verbose_ok env s0" and hid: "\<not> bar_visible (vb_progress s0)" for s0 t
  proof -
    obtain s1 where s1: "vfverbosef env Stderr level t s0 = (Inr (), s1)" "verbose_ok env s1"
      "if int (unat level) \<le> verbosity s0 then printed env Stderr t s0 s1 else s1 = s0"
      using message_ok [OF ok] by blast
    show ?thesis
    proof (cases "int (unat level) \<le> verbosity s0")
      case True
      then show ?thesis using printed_hidden [of env t s0 s1] s1 hid by (auto simp: verbose_ok_def)
    next
      case False
      then show ?thesis using s1 by (intro exI [of _ "vb_progress s0"]) (simp add: verbose_ok_def line_kept_def)
    qed
  qed
  let ?level = "int (unat level) \<le> verbosity s"
  obtain p where p: "vfverbosef env Stderr level q s = (Inr (), s\<lparr>vb_progress := p,
        vb_stderr := vb_stderr s @ (if ?level then q else [])\<rparr>)"
      "progress_ok p" "line_kept (vb_progress s) p" "tl_stdout p = tl_stdout (vb_progress s)"
    using one [OF assms] by blast
  let ?s1 = "s\<lparr>vb_progress := p, vb_stderr := vb_stderr s @ (if ?level then q else [])\<rparr>"
  show ?thesis
  proof (cases "interactive_answer s")
    case None
    have "fgets_stdin NAME_MAX ?s1 = (answer_of s, ?s1\<lparr>vb_stdin := input_after s\<rparr>)"
      using None by (simp add: fgets_stdin_def answer_of_def input_after_def Let_def)
    then show ?thesis using p None
      by (intro exI [of _ p]) (simp add: bind_io_def ask_def echo_of_def)
  next
    case (Some c)
    have "verbose_ok env ?s1" "\<not> bar_visible (vb_progress ?s1)"
      using assms p(2) line_kept_visible [OF p(3)] by (simp_all add: verbose_ok_def)
    from one [OF this, of "[c, newline]"] obtain p2 where p2:
      "vfverbosef env Stderr level [c, newline] ?s1 = (Inr (), ?s1\<lparr>vb_progress := p2,
          vb_stderr := vb_stderr ?s1 @ (if ?level then [c, newline] else [])\<rparr>)"
      "progress_ok p2" "line_kept p p2" "tl_stdout p2 = tl_stdout p" by auto
    have "line_kept (vb_progress s) p2" by (rule line_kept_trans [OF p(3) p2(3)])
    then show ?thesis using p(1,4) p2 Some
      by (intro exI [of _ p2])
        (simp add: bind_io_def ask_def ret_io_def answer_of_def echo_of_def input_after_def)
  qed
qed

text \<open>
  \<open>asked\<close>: what a question leaves behind. The bar has been cleared before the question and is
  drawn behind the answer when it was visible, and it is switched on exactly if it was.
\<close>

definition asked :: "tools_env \<Rightarrow> u32 \<Rightarrow> string \<Rightarrow> verbose_state \<Rightarrow> verbose_state \<Rightarrow> bool" where
  "asked env level q s s' \<longleftrightarrow> (\<exists>p b d.
       s' = s\<lparr>vb_progress := p,
              vb_stderr := vb_stderr s @ (if int (unat level) \<le> verbosity s then q @ echo_of s else []),
              vb_stdin := input_after s\<rparr>
     \<and> progress_on p = progress_on (vb_progress s)
     \<and> map p_id (progresses p) = map p_id (progresses (vb_progress s))
     \<and> tl_stdout p = tl_stdout (vb_progress s) @ b @ d
     \<and> blank_text env (bar_visible (vb_progress s)) b
     \<and> bar_drawn env (bar_visible (vb_progress s)) (progresses p) d)"

lemma switched_off: "\<not> bar_visible (tools_progress_disable p)"
  by (simp add: bar_visible_def tools_progress_disable_def)

lemma interact_ok:
  assumes "verbose_ok env s"
  shows "\<exists>s'. vtools_interact env level q s = (Inr (says_yes (answer_of s)), s') \<and> verbose_ok env s'
    \<and> asked env level q s s'"
proof (cases "progress_on (vb_progress s)")
  case False
  then have hid: "\<not> bar_visible (vb_progress s)" by (simp add: bar_visible_def)
  obtain p where p: "bind_io (vfverbosef env Stderr level q) (\<lambda>_. ask env level) s = (Inr (answer_of s),
      s\<lparr>vb_progress := p, vb_stderr := vb_stderr s @ (if int (unat level) \<le> verbosity s then q @ echo_of s else []),
        vb_stdin := input_after s\<rparr>)"
    "progress_ok p" "line_kept (vb_progress s) p" "tl_stdout p = tl_stdout (vb_progress s)"
    using question_ok [OF assms hid] by blast
  then have "vtools_interact env level q s = (Inr (says_yes (answer_of s)),
      s\<lparr>vb_progress := p, vb_stderr := vb_stderr s @ (if int (unat level) \<le> verbosity s then q @ echo_of s else []),
        vb_stdin := input_after s\<rparr>)"
    using False by (auto simp: vtools_interact_def tools_progress_enabled_def bind_io_def ret_io_def Let_def
        split: prod.splits sum.splits)
  moreover have "verbose_ok env (s\<lparr>vb_progress := p,
        vb_stderr := vb_stderr s @ (if int (unat level) \<le> verbosity s then q @ echo_of s else []),
        vb_stdin := input_after s\<rparr>)"
    using assms p(2) by (simp add: verbose_ok_def)
  ultimately show ?thesis using p(3,4) hid
    by (auto simp: asked_def blank_text_def bar_drawn_def line_kept_def)
next
  case True
  obtain s1 where s1: "in_progress (tools_progress_clear env) s = (Inr (), s1)" "verbose_ok env s1"
    "line_cleared env s s1" using line.clear [OF assms] by blast
  then obtain p1 b where p1: "s1 = s\<lparr>vb_progress := p1\<rparr>" "line_kept (vb_progress s) p1"
    "tl_stdout p1 = tl_stdout (vb_progress s) @ b" "blank_text env (bar_visible (vb_progress s)) b"
    by (auto simp: line_cleared_def)
  let ?off = "s1\<lparr>vb_progress := tools_progress_disable (vb_progress s1)\<rparr>"
  have off: "verbose_ok env ?off" "\<not> bar_visible (vb_progress ?off)"
    using s1(2) switched_off by (simp_all add: verbose_ok_def progress_ok_def) (simp_all add: tools_progress_disable_def)
  let ?err = "vb_stderr s @ (if int (unat level) \<le> verbosity s then q @ echo_of s else [])"
  have same: "answer_of ?off = answer_of s" "echo_of ?off = echo_of s" "input_after ?off = input_after s"
    by (simp_all add: answer_of_def echo_of_def input_after_def fgets_stdin_def p1(1) Let_def split: option.split)
  obtain p2 where p2: "bind_io (vfverbosef env Stderr level q) (\<lambda>_. ask env level) ?off = (Inr (answer_of s),
      s\<lparr>vb_progress := p2, vb_stderr := ?err, vb_stdin := input_after s\<rparr>)"
    "progress_ok p2" "line_kept (tools_progress_disable p1) p2" "tl_stdout p2 = tl_stdout (tools_progress_disable p1)"
    using question_ok [OF off, of level q] unfolding same by (auto simp: p1(1))
  let ?on = "s\<lparr>vb_progress := tools_progress_enable env p2, vb_stderr := ?err, vb_stdin := input_after s\<rparr>"
  have on_ok: "verbose_ok env ?on" using p2(2) assms
    by (auto simp: verbose_ok_def progress_ok_def tools_progress_enable_def Let_def)
  obtain s' where s': "in_progress (tools_progress_restore env) ?on = (Inr (), s')" "verbose_ok env s'"
    "line_drawn env ?on s'" using line.restore [OF on_ok] by blast
  have on': "?on = s\<lparr>vb_stderr := ?err, vb_stdin := input_after s, vb_progress := tools_progress_enable env p2\<rparr>"
    by simp
  have onp: "vb_progress ?on = tools_progress_enable env p2" by simp
  from s'(3) obtain p d where p0: "s' = ?on\<lparr>vb_progress := p\<rparr>"
    "line_kept (tools_progress_enable env p2) p" "tl_stdout p = tl_stdout (tools_progress_enable env p2) @ d"
    "bar_drawn env (bar_visible (tools_progress_enable env p2)) (progresses p) d"
    unfolding line_drawn_def onp by blast
  have "s' = s\<lparr>vb_progress := p, vb_stderr := ?err, vb_stdin := input_after s\<rparr>" using p0(1) by simp
  note p = this p0(2-4)
  have ids: "map p_id (progresses p2) = map p_id (progresses (vb_progress s))" "nextline p2 = nextline (vb_progress s)"
    using p2(3) p1(2) by (simp_all add: line_kept_def tools_progress_disable_def)
  then have empty: "progresses p2 = [] \<longleftrightarrow> progresses (vb_progress s) = []" by (metis map_is_Nil_conv)
  then have vis: "bar_visible (tools_progress_enable env p2) = bar_visible (vb_progress s)"
    using ids(2) True by (auto simp: bar_visible_def tools_progress_enable_def Let_def)
  have run: "vtools_interact env level q s = (Inr (says_yes (answer_of s)), s')"
    using True s1(1) p2(1) s'(1) [unfolded on']
    by (auto simp: vtools_interact_def tools_progress_enabled_def bind_io_def upd_io_def ret_io_def Let_def
        split: prod.splits sum.splits)
  have "asked env level q s s'"
    unfolding asked_def p(1)
    using p(2-4) p1(3,4) p2(4) ids vis True
    by (intro exI [of _ p] exI [of _ b] exI [of _ d])
      (auto simp: line_kept_def tools_progress_enable_def tools_progress_disable_def Let_def split: if_splits)
  then show ?thesis using run s'(2) by blast
qed

section \<open>Properties\<close>

text \<open>
  C36. Messages and questions leave the progress bar as it was, as long as the width of the
  terminal does not wrap around. A message whose level is within the level of output is on its
  stream, between blanks over the bar and the bar drawn again when the bar is visible; any
  other message changes nothing. A critical question switches the bar off while it waits for
  the answer and on again afterwards; its result says whether the answer, the fixed one or the
  line that is read, begins with a y.
\<close>

theorem messages_above_bar:
  assumes "verbose_ok env s"
  shows "(\<exists>s'. verbosef env level t s = (Inr (), s') \<and> verbose_ok env s'
      \<and> (if int (unat (level AND NOT VL_FLAG_STDOUT)) \<le> verbosity s
         then printed env (if level AND VL_FLAG_STDOUT \<noteq> 0 then Stdout else Stderr) t s s' else s' = s))
    \<and> (\<exists>s'. tcom_err env t s = (Inr (), s') \<and> verbose_ok env s'
      \<and> printed env Stderr (if com_err_quiet s then [] else t) s s')
    \<and> (\<exists>s'. tools_interact_critical env question s = (Inr (says_yes (answer_of s)), s') \<and> verbose_ok env s'
      \<and> asked env VL_CRIT question s s')"
proof (intro conjI)
  have "level AND NOT VL_FLAG_STDOUT = level" if "level AND VL_FLAG_STDOUT = 0"
  proof -
    have "level = (level AND VL_FLAG_STDOUT) OR (level AND NOT VL_FLAG_STDOUT)"
      by (rule bit_word_eqI) (auto simp: bit_simps)
    then show ?thesis using that by simp
  qed
  then show "\<exists>s'. verbosef env level t s = (Inr (), s') \<and> verbose_ok env s'
      \<and> (if int (unat (level AND NOT VL_FLAG_STDOUT)) \<le> verbosity s
         then printed env (if level AND VL_FLAG_STDOUT \<noteq> 0 then Stdout else Stderr) t s s' else s' = s)"
    using message_ok [OF assms, of Stdout "level AND NOT VL_FLAG_STDOUT" t] message_ok [OF assms, of Stderr level t]
    by (cases "level AND VL_FLAG_STDOUT = 0") (simp_all add: verbosef_def)
  have "(if com_err_quiet s1 then s1 else print_to Stderr t s1)
      = print_to Stderr (if com_err_quiet s1 then [] else t) s1" for s1
    by (simp add: print_to_def)
  then have "tcom_err env t = bind_io (in_progress (tools_progress_clear env)) (\<lambda>_.
      bind_io (upd_io (\<lambda>s1. print_to Stderr (if com_err_quiet s1 then [] else t) s1))
        (\<lambda>_. in_progress (tools_progress_restore env)))"
    by (simp add: tcom_err_def)
  then obtain s1 s' where "tcom_err env t s = (Inr (), s')" "verbose_ok env s'" "line_cleared env s s1"
    "line_drawn env (print_to Stderr (if com_err_quiet s1 then [] else t) s1) s'"
    using line.around [OF assms, of "\<lambda>s1. print_to Stderr (if com_err_quiet s1 then [] else t) s1"] print_ok
    by auto
  moreover from this(3) have "com_err_quiet s1 = com_err_quiet s" by (auto simp: line_cleared_def)
  ultimately show "\<exists>s'. tcom_err env t s = (Inr (), s') \<and> verbose_ok env s'
      \<and> printed env Stderr (if com_err_quiet s then [] else t) s s'"
    using cleared_drawn by metis
  show "\<exists>s'. tools_interact_critical env question s = (Inr (says_yes (answer_of s)), s') \<and> verbose_ok env s'
      \<and> asked env VL_CRIT question s s'"
    unfolding tools_interact_critical_def by (rule interact_ok [OF assms])
qed

text \<open>A question with the bar switched on, and a message on the standard output.\<close>

definition demo_tool :: verbose_state where
  "demo_tool = verbose_init\<lparr> vb_progress := tools_progress_enable narrow progress_init,
     vb_stdin := ''Yes'' @ [newline] \<rparr>"

theorem messages_above_bar_witness:
  "(\<exists>s'. tools_interact_critical narrow ''Overwrite?'' demo_tool = (Inr True, s')
      \<and> vb_stderr s' = ''Overwrite?'' \<and> vb_stdin s' = [] \<and> progress_on (vb_progress s'))
    \<and> (\<exists>s'. verbosef narrow (VL_FLAG_STDOUT OR VL_ERR) ''done'' demo_tool = (Inr (), s')
      \<and> tl_stdout (vb_progress s') = ''done'')"
proof -
  have ok: "verbose_ok narrow demo_tool"
    using narrow_ok init_ok [of narrow] by (simp add: verbose_ok_def demo_tool_def)
  have hid: "\<not> bar_visible (vb_progress demo_tool)"
    by (simp add: demo_tool_def bar_visible_def tools_progress_enable_def progress_init_def)
  have f: "verbosity demo_tool = 1" "vb_stderr demo_tool = []" "tl_stdout (vb_progress demo_tool) = []"
    "progress_on (vb_progress demo_tool)"
    by (simp_all add: demo_tool_def verbose_init_def progress_init_def tools_progress_enable_def)
  have a: "answer_of demo_tool = Some (''Yes'' @ [newline])" "echo_of demo_tool = []" "input_after demo_tool = []"
    by (simp_all add: answer_of_def echo_of_def input_after_def demo_tool_def verbose_init_def fgets_stdin_def)
  have yes: "says_yes (Some (''Yes'' @ [newline]))" by code_simp
  have lv: "(VL_FLAG_STDOUT OR VL_ERR) AND NOT VL_FLAG_STDOUT = 1" "(VL_FLAG_STDOUT OR VL_ERR) AND VL_FLAG_STDOUT \<noteq> 0"
    by simp_all
  note m = messages_above_bar [OF ok, of "VL_FLAG_STDOUT OR VL_ERR" "''done''" "''Overwrite?''"]
  show ?thesis
  proof
    show "\<exists>s'. tools_interact_critical narrow ''Overwrite?'' demo_tool = (Inr True, s')
      \<and> vb_stderr s' = ''Overwrite?'' \<and> vb_stdin s' = [] \<and> progress_on (vb_progress s')"
      using m [THEN conjunct2, THEN conjunct2] f yes by (auto simp: asked_def a)
    show "\<exists>s'. verbosef narrow (VL_FLAG_STDOUT OR VL_ERR) ''done'' demo_tool = (Inr (), s')
      \<and> tl_stdout (vb_progress s') = ''done''"
      using m [THEN conjunct1] lv f hid by (auto simp: printed_def blank_text_def bar_drawn_def)
  qed
qed

end
