(* ===== verification/Member_offset.thy ===== *)
theory Member_offset
  imports Layout
begin

text \<open>
  The program \<^verbatim>\<open>misc/member_offset.c\<close>, which prints the offsets and sizes of the members of
  the on-disk structures. What the compiler makes of \<^verbatim>\<open>offsetof\<close> and \<^verbatim>\<open>sizeof\<close> is computed from
  the tables of the on-disk format by the layout rules. The output is a string.
\<close>

section \<open>Members\<close>

type_synonym member = "string \<times> nat \<times> nat"

text \<open>The members of a structure that starts at \<open>base\<close>, each with its offset and size.\<close>

definition members :: "nat \<Rightarrow> (string \<times> nat \<times> nat) list \<Rightarrow> member list" where
  "members base fs =
     map2 (\<lambda>(f, off) (_, n, _). (f, base + off, n)) (c_offsets 0 fs) fs"

definition offset_of :: "(string \<times> nat \<times> nat) list \<Rightarrow> string \<Rightarrow> nat" where
  "offset_of fs f = the (map_of (c_offsets 0 fs) f)"

text \<open>The second structure in the union of an extent record, for the leaves of the tree.\<close>

definition extent_leaf_fields :: "(string \<times> nat \<times> nat) list" where
  "extent_leaf_fields =
    [(''e_leaf_blocks'', 4, 4),
     (''e_flags'', 1, 1),
     (''e_reserved1'', 1, 1),
     (''e_reserved2'', 2, 2),
     (''e_reserved3'', 8, 8)]"

definition extent_rec_members :: "member list" where
  "extent_rec_members =
     members 0 extent_rec_fields
     @ members (offset_of extent_rec_fields ''e_int_blocks'') extent_leaf_fields"

text \<open>The structures in the two unions of an inode.\<close>

definition id1_members :: "nat \<Rightarrow> member list" where
  "id1_members base =
     members base [(''id1.i_pad1'', 8, 8)]
     @ members base [(''id1.dev1.i_rdev'', 8, 8)]
     @ members base [(''id1.bitmap1.i_used'', 4, 4), (''id1.bitmap1.i_total'', 4, 4)]
     @ members base [(''id1.journal1.ij_flags'', 4, 4), (''id1.journal1.ij_recovery_generation'', 4, 4)]"

definition id2_members :: "nat \<Rightarrow> member list" where
  "id2_members base =
     [(''id2.i_super'', base, c_sizeof super_block_fields),
      (''id2.i_lab'', base, c_sizeof local_alloc_fields),
      (''id2.i_chain'', base, c_sizeof chain_list_fields),
      (''id2.i_list'', base, c_sizeof extent_list_fields),
      (''id2.i_dealloc'', base, c_sizeof truncate_log_fields),
      (''id2.i_data'', base, c_sizeof inline_data_fields),
      (''id2.i_symlink'', base, 0)]"

definition dinode_members :: "member list" where
  "dinode_members =
     members 0 dinode_fields
     @ id1_members (offset_of dinode_fields ''id1'')
     @ id2_members (offset_of dinode_fields ''id2'')"

section \<open>Printing\<close>

abbreviation (input) tab :: string where "tab \<equiv> [CHR 0x09]"
abbreviation (input) nl :: string where "nl \<equiv> [CHR 0x0A]"

definition hex_digit :: "nat \<Rightarrow> char" where
  "hex_digit d = ''0123456789ABCDEF'' ! d"

fun hex_digits :: "nat \<Rightarrow> string" where
  "hex_digits n =
     (if n < 16 then [hex_digit n] else hex_digits (n div 16) @ [hex_digit (n mod 16)])"

declare hex_digits.simps [simp del]

text \<open>The conversions \<^verbatim>\<open>%0wX\<close> and \<^verbatim>\<open>%-20s\<close>.\<close>

definition hex :: "nat \<Rightarrow> nat \<Rightarrow> string" where
  "hex w n = (let d = hex_digits n in replicate (w - length d) CHR ''0'' @ d)"

definition padded :: "string \<Rightarrow> string" where
  "padded s = s @ replicate (20 - length s) CHR '' ''"

definition START_TYPE :: "string \<Rightarrow> string" where
  "START_TYPE type_name = ''[off]'' @ tab @ padded type_name @ tab @ ''[size]'' @ nl"

definition SHOW_OFFSET :: "member list \<Rightarrow> string \<Rightarrow> string" where
  "SHOW_OFFSET ms f =
     (case the (map_of ms f) of (off, n) \<Rightarrow>
        ''0x'' @ hex 3 off @ tab @ padded f @ tab @ ''+0x'' @ hex 2 n @ nl)"

definition END_TYPE :: "nat \<Rightarrow> string" where
  "END_TYPE n = tab @ padded ''Total'' @ tab @ ''0x'' @ hex 3 n @ nl"

text \<open>The form that all the functions have.\<close>

definition print_type :: "string \<Rightarrow> nat \<Rightarrow> member list \<Rightarrow> string list \<Rightarrow> string" where
  "print_type type_name n ms fs =
     START_TYPE type_name @ concat (map (SHOW_OFFSET ms) fs) @ END_TYPE n @ nl"

section \<open>The structures\<close>

definition print_cmfs_vol_disk_hdr :: string where
  "print_cmfs_vol_disk_hdr =
     print_type ''cmfs_vol_disk_hdr'' (c_sizeof vol_hdr_fields) (members 0 vol_hdr_fields)
      [''signature'', ''mount_point'']"

definition print_cmfs_vol_label :: string where
  "print_cmfs_vol_label =
     print_type ''cmfs_vol_label'' (c_sizeof vol_label_fields) (members 0 vol_label_fields)
      [''label'', ''label_len'', ''vol_id'', ''vol_id_len'']"

definition print_cmfs_block_check :: string where
  "print_cmfs_block_check =
     print_type ''cmfs_block_check'' (c_sizeof block_check_fields) (members 0 block_check_fields)
      [''bc_crc32e'', ''bc_ecc'', ''bc_reserved1'']"

definition print_cmfs_extent_rec :: string where
  "print_cmfs_extent_rec =
     print_type ''cmfs_extent_rec'' (c_sizeof extent_rec_fields) extent_rec_members
      [''e_cpos'', ''e_blkno'', ''e_int_blocks'', ''e_leaf_blocks'', ''e_flags'',
       ''e_reserved1'', ''e_reserved2'', ''e_reserved3'']"

definition print_cmfs_extent_list :: string where
  "print_cmfs_extent_list =
     print_type ''cmfs_extent_list'' (c_sizeof extent_list_fields)
      (members 0 (extent_list_fields @ [(''l_recs'', 0, 8)]))
      [''l_tree_depth'', ''l_count'', ''l_next_free_rec'', ''l_reserved1'', ''l_reserved2'',
       ''l_recs'']"

definition print_cmfs_chain_rec :: string where
  "print_cmfs_chain_rec =
     print_type ''cmfs_chain_rec'' (c_sizeof chain_rec_fields) (members 0 chain_rec_fields)
      [''c_free'', ''c_total'', ''c_blkno'']"

definition print_cmfs_chain_list :: string where
  "print_cmfs_chain_list =
     print_type ''cmfs_chain_list'' (c_sizeof chain_list_fields)
      (members 0 (chain_list_fields @ [(''cl_recs'', 0, 8)]))
      [''cl_cpg'', ''cl_bpc'', ''cl_count'', ''cl_next_free_rec'', ''cl_reserved1'',
       ''cl_recs'']"

definition print_cmfs_local_alloc :: string where
  "print_cmfs_local_alloc =
     print_type ''cmfs_local_alloc'' (c_sizeof local_alloc_fields)
      (members 0 (local_alloc_fields @ [(''la_bitmap'', 0, 1)]))
      [''la_bm_off'', ''la_size'', ''la_reserved1'', ''la_bitmap'']"

definition print_cmfs_truncate_rec :: string where
  "print_cmfs_truncate_rec =
     print_type ''cmfs_truncate_rec'' (c_sizeof truncate_rec_fields) (members 0 truncate_rec_fields)
      [''t_start'', ''t_clusters'']"

definition print_cmfs_truncate_log :: string where
  "print_cmfs_truncate_log =
     print_type ''cmfs_truncate_log'' (c_sizeof truncate_log_fields)
      (members 0 (truncate_log_fields @ [(''tl_recs'', 0, 4)]))
      [''tl_count'', ''tl_used'', ''tl_reserved1'', ''tl_recs'']"

definition print_cmfs_inline_data :: string where
  "print_cmfs_inline_data =
     print_type ''cmfs_inline_data'' (c_sizeof inline_data_fields)
      (members 0 (inline_data_fields @ [(''id_data'', 0, 1)]))
      [''id_count'', ''id_reserved1'', ''id_data'']"

definition print_cmfs_super_block :: string where
  "print_cmfs_super_block =
     print_type ''cmfs_super_block'' (c_sizeof super_block_fields) (members 0 super_block_fields)
      [''s_major_rev_level'', ''s_minor_rev_level'', ''s_mnt_count'', ''s_max_mnt_count'',
       ''s_state'', ''s_errors'', ''s_checkinterval'', ''s_lastcheck'', ''s_creator_os'',
       ''s_feature_compat'', ''s_feature_incompat'', ''s_feature_ro_compat'', ''s_root_blkno'',
       ''s_system_dir_blkno'', ''s_blocksize_bits'', ''s_clustersize_bits'', ''s_label'',
       ''s_uuid'', ''s_tunefs_flag'', ''s_uuid_hash'', ''s_first_cluster_group'',
       ''s_xattr_inline_size'']"

definition print_cmfs_dinode :: string where
  "print_cmfs_dinode =
     print_type ''cmfs_dinode'' (c_sizeof dinode_fields) dinode_members
      [''i_signature'', ''i_generation'', ''i_links_count'', ''i_uid'', ''i_gid'', ''i_size'',
       ''i_atime'', ''i_ctime'', ''i_mtime'', ''i_dtime'', ''i_flags'', ''i_mode'',
       ''i_suballoc_slot'', ''i_blkno'', ''i_clusters'', ''i_fs_generation'',
       ''i_last_eb_blk'', ''i_last_eb_blk'', ''i_atime_nsec'', ''i_ctime_nsec'',
       ''i_mtime_nsec'', ''i_attr'', ''i_xattr_loc'', ''i_refcount_loc'', ''i_suballoc_loc'',
       ''i_check'', ''i_dyn_features'', ''i_xattr_inline_size'', ''i_reserved1'',
       ''id1.i_pad1'', ''id1.dev1.i_rdev'', ''id1.bitmap1.i_used'', ''id1.bitmap1.i_total'',
       ''id1.journal1.ij_flags'', ''id1.journal1.ij_recovery_generation'', ''id2.i_super'',
       ''id2.i_lab'', ''id2.i_chain'', ''id2.i_list'', ''id2.i_dealloc'', ''id2.i_data'',
       ''id2.i_symlink'']"

definition print_cmfs_dir_entry :: string where
  "print_cmfs_dir_entry =
     print_type ''cmfs_dir_entry'' (c_sizeof dir_entry_fields) (members 0 dir_entry_fields)
      [''inode'', ''rec_len'', ''name_len'', ''file_type'', ''name'']"

definition print_cmfs_dir_block_trailer :: string where
  "print_cmfs_dir_block_trailer =
     print_type ''cmfs_dir_block_trailer'' (c_sizeof dir_trailer_fields)
      (members 0 dir_trailer_fields)
      [''db_compat_inode'', ''db_compat_rec_len'', ''db_compat_name_len'', ''db_reserved0'',
       ''db_free_rec_len'', ''db_signature'', ''db_reserved2'', ''db_free_next'', ''db_blkno'',
       ''db_reserved3'', ''db_check'']"

definition member_offset_main :: string where
  "member_offset_main =
     print_cmfs_vol_disk_hdr @ print_cmfs_vol_label @ print_cmfs_block_check
     @ print_cmfs_extent_rec @ print_cmfs_extent_list @ print_cmfs_chain_rec
     @ print_cmfs_chain_list @ print_cmfs_local_alloc @ print_cmfs_truncate_rec
     @ print_cmfs_truncate_log @ print_cmfs_inline_data @ print_cmfs_super_block
     @ print_cmfs_dinode @ print_cmfs_dir_entry @ print_cmfs_dir_block_trailer"

section \<open>The documented tables\<close>

text \<open>
  The tables of \<^verbatim>\<open>misc/member_offset.txt\<close>, columns separated by tabs, without the
  three that have fallen behind: those of the extent record, the inode and the trailer of a directory block.
\<close>

definition doc_vol_disk_hdr :: "string list list" where
  "doc_vol_disk_hdr =
     [[''[off]'', ''cmfs_vol_disk_hdr   '', ''[size]''],
      [''0x000'', ''signature           '', ''+0x80''],
      [''0x080'', ''mount_point         '', ''+0x80''],
      ['''', ''Total               '', ''0x100'']]"

definition doc_vol_label :: "string list list" where
  "doc_vol_label =
     [[''[off]'', ''cmfs_vol_label      '', ''[size]''],
      [''0x000'', ''label               '', ''+0x40''],
      [''0x040'', ''label_len           '', ''+0x02''],
      [''0x042'', ''vol_id              '', ''+0x10''],
      [''0x052'', ''vol_id_len          '', ''+0x02''],
      ['''', ''Total               '', ''0x054'']]"

definition doc_block_check :: "string list list" where
  "doc_block_check =
     [[''[off]'', ''cmfs_block_check    '', ''[size]''],
      [''0x000'', ''bc_crc32e           '', ''+0x04''],
      [''0x004'', ''bc_ecc              '', ''+0x02''],
      [''0x006'', ''bc_reserved1        '', ''+0x02''],
      ['''', ''Total               '', ''0x008'']]"

definition doc_extent_list :: "string list list" where
  "doc_extent_list =
     [[''[off]'', ''cmfs_extent_list    '', ''[size]''],
      [''0x000'', ''l_tree_depth        '', ''+0x02''],
      [''0x002'', ''l_count             '', ''+0x02''],
      [''0x004'', ''l_next_free_rec     '', ''+0x02''],
      [''0x006'', ''l_reserved1         '', ''+0x02''],
      [''0x008'', ''l_reserved2         '', ''+0x18''],
      [''0x020'', ''l_recs              '', ''+0x00''],
      ['''', ''Total               '', ''0x020'']]"

definition doc_chain_rec :: "string list list" where
  "doc_chain_rec =
     [[''[off]'', ''cmfs_chain_rec      '', ''[size]''],
      [''0x000'', ''c_free              '', ''+0x04''],
      [''0x004'', ''c_total             '', ''+0x04''],
      [''0x008'', ''c_blkno             '', ''+0x08''],
      ['''', ''Total               '', ''0x010'']]"

definition doc_chain_list :: "string list list" where
  "doc_chain_list =
     [[''[off]'', ''cmfs_chain_list     '', ''[size]''],
      [''0x000'', ''cl_cpg              '', ''+0x02''],
      [''0x002'', ''cl_bpc              '', ''+0x02''],
      [''0x004'', ''cl_count            '', ''+0x02''],
      [''0x006'', ''cl_next_free_rec    '', ''+0x02''],
      [''0x008'', ''cl_reserved1        '', ''+0x08''],
      [''0x010'', ''cl_recs             '', ''+0x00''],
      ['''', ''Total               '', ''0x010'']]"

definition doc_local_alloc :: "string list list" where
  "doc_local_alloc =
     [[''[off]'', ''cmfs_local_alloc    '', ''[size]''],
      [''0x000'', ''la_bm_off           '', ''+0x04''],
      [''0x004'', ''la_size             '', ''+0x02''],
      [''0x006'', ''la_reserved1        '', ''+0x0A''],
      [''0x010'', ''la_bitmap           '', ''+0x00''],
      ['''', ''Total               '', ''0x010'']]"

definition doc_truncate_rec :: "string list list" where
  "doc_truncate_rec =
     [[''[off]'', ''cmfs_truncate_rec   '', ''[size]''],
      [''0x000'', ''t_start             '', ''+0x04''],
      [''0x004'', ''t_clusters          '', ''+0x04''],
      ['''', ''Total               '', ''0x008'']]"

definition doc_truncate_log :: "string list list" where
  "doc_truncate_log =
     [[''[off]'', ''cmfs_truncate_log   '', ''[size]''],
      [''0x000'', ''tl_count            '', ''+0x02''],
      [''0x002'', ''tl_used             '', ''+0x02''],
      [''0x004'', ''tl_reserved1        '', ''+0x0C''],
      [''0x010'', ''tl_recs             '', ''+0x00''],
      ['''', ''Total               '', ''0x010'']]"

definition doc_inline_data :: "string list list" where
  "doc_inline_data =
     [[''[off]'', ''cmfs_inline_data    '', ''[size]''],
      [''0x000'', ''id_count            '', ''+0x02''],
      [''0x002'', ''id_reserved1        '', ''+0x06''],
      [''0x008'', ''id_data             '', ''+0x00''],
      ['''', ''Total               '', ''0x008'']]"

definition doc_super_block :: "string list list" where
  "doc_super_block =
     [[''[off]'', ''cmfs_super_block    '', ''[size]''],
      [''0x000'', ''s_major_rev_level   '', ''+0x02''],
      [''0x002'', ''s_minor_rev_level   '', ''+0x02''],
      [''0x004'', ''s_mnt_count         '', ''+0x02''],
      [''0x006'', ''s_max_mnt_count     '', ''+0x02''],
      [''0x008'', ''s_state             '', ''+0x02''],
      [''0x00A'', ''s_errors            '', ''+0x02''],
      [''0x00C'', ''s_checkinterval     '', ''+0x04''],
      [''0x010'', ''s_lastcheck         '', ''+0x08''],
      [''0x018'', ''s_creator_os        '', ''+0x04''],
      [''0x01C'', ''s_feature_compat    '', ''+0x04''],
      [''0x020'', ''s_feature_incompat  '', ''+0x04''],
      [''0x024'', ''s_feature_ro_compat '', ''+0x04''],
      [''0x028'', ''s_root_blkno        '', ''+0x08''],
      [''0x030'', ''s_system_dir_blkno  '', ''+0x08''],
      [''0x038'', ''s_blocksize_bits    '', ''+0x04''],
      [''0x03C'', ''s_clustersize_bits  '', ''+0x04''],
      [''0x040'', ''s_label             '', ''+0x40''],
      [''0x080'', ''s_uuid              '', ''+0x10''],
      [''0x090'', ''s_tunefs_flag       '', ''+0x02''],
      [''0x094'', ''s_uuid_hash         '', ''+0x04''],
      [''0x098'', ''s_first_cluster_group'', ''+0x08''],
      [''0x092'', ''s_xattr_inline_size '', ''+0x02''],
      ['''', ''Total               '', ''0x0A0'']]"

definition doc_dir_entry :: "string list list" where
  "doc_dir_entry =
     [[''[off]'', ''cmfs_dir_entry      '', ''[size]''],
      [''0x000'', ''inode               '', ''+0x08''],
      [''0x008'', ''rec_len             '', ''+0x02''],
      [''0x00A'', ''name_len            '', ''+0x01''],
      [''0x00B'', ''file_type           '', ''+0x01''],
      [''0x00C'', ''name                '', ''+0xFF''],
      ['''', ''Total               '', ''0x10B'']]"

definition table_text :: "string list list \<Rightarrow> string" where
  "table_text rows =
     concat (map (\<lambda>cols. hd cols @ concat (map (\<lambda>c. tab @ c) (tl cols)) @ nl) rows) @ nl"

lemma vol_disk_hdr_documented: "print_cmfs_vol_disk_hdr = table_text doc_vol_disk_hdr"
  by code_simp

lemma vol_label_documented: "print_cmfs_vol_label = table_text doc_vol_label"
  by code_simp

lemma block_check_documented: "print_cmfs_block_check = table_text doc_block_check"
  by code_simp

lemma extent_list_documented: "print_cmfs_extent_list = table_text doc_extent_list"
  by code_simp

lemma chain_rec_documented: "print_cmfs_chain_rec = table_text doc_chain_rec"
  by code_simp

lemma chain_list_documented: "print_cmfs_chain_list = table_text doc_chain_list"
  by code_simp

lemma local_alloc_documented: "print_cmfs_local_alloc = table_text doc_local_alloc"
  by code_simp

lemma truncate_rec_documented: "print_cmfs_truncate_rec = table_text doc_truncate_rec"
  by code_simp

lemma truncate_log_documented: "print_cmfs_truncate_log = table_text doc_truncate_log"
  by code_simp

lemma inline_data_documented: "print_cmfs_inline_data = table_text doc_inline_data"
  by code_simp

lemma super_block_documented: "print_cmfs_super_block = table_text doc_super_block"
  by code_simp

lemma dir_entry_documented: "print_cmfs_dir_entry = table_text doc_dir_entry"
  by code_simp

text \<open>
  For every other structure the program prints the documented table, so that the tables
  are what the layout rules make of the structures of the header.
\<close>

theorem member_offset_documented:
  "print_cmfs_vol_disk_hdr = table_text doc_vol_disk_hdr
    \<and> print_cmfs_vol_label = table_text doc_vol_label
    \<and> print_cmfs_block_check = table_text doc_block_check
    \<and> print_cmfs_extent_list = table_text doc_extent_list
    \<and> print_cmfs_chain_rec = table_text doc_chain_rec
    \<and> print_cmfs_chain_list = table_text doc_chain_list
    \<and> print_cmfs_local_alloc = table_text doc_local_alloc
    \<and> print_cmfs_truncate_rec = table_text doc_truncate_rec
    \<and> print_cmfs_truncate_log = table_text doc_truncate_log
    \<and> print_cmfs_inline_data = table_text doc_inline_data
    \<and> print_cmfs_super_block = table_text doc_super_block
    \<and> print_cmfs_dir_entry = table_text doc_dir_entry"
  by (intro conjI vol_disk_hdr_documented
      vol_label_documented
      block_check_documented
      extent_list_documented
      chain_rec_documented
      chain_list_documented
      local_alloc_documented
      truncate_rec_documented
      truncate_log_documented
      inline_data_documented
      super_block_documented
      dir_entry_documented)

text \<open>
  The table of an inode has a line for every member but \<open>i_suballoc_bit\<close>, and two for
  \<open>i_last_eb_blk\<close>.
\<close>

lemma dinode_table_repeats:
  "print_cmfs_dinode = print_type ''cmfs_dinode'' 320 dinode_members
     (concat (map (\<lambda>(f, _). if f = ''i_last_eb_blk'' then [f, f] else [f])
        (filter (\<lambda>(f, _). f \<noteq> ''i_suballoc_bit'' \<and> f \<noteq> ''id1'' \<and> f \<noteq> ''id2'') dinode_fields))
      @ map fst (id1_members 152) @ map fst (id2_members 160))"
  by code_simp

end
