(* ===== verification/Scandisk.thy ===== *)
theory Scandisk
  imports Clib
begin

text \<open>
  The scan for block devices (\<^verbatim>\<open>libtools-internal/scandisk.c\<close>). What the system answers is the
  record \<open>scan_env\<close>; it does not change during a scan. The list of devices is the record
  \<open>devlisthead\<close>, with the nodes in the order of their links. Freeing the nodes leaves the
  pointers of the head as they are: \<open>dl_dangling\<close> is a head whose pointers lead to freed
  memory, and following them is \<open>C_UNDEFINED\<close>, as is a text that does not fit its buffer.
\<close>

section \<open>State\<close>

datatype file_type = Directory | Symlink | Block_device | Other_file

record stat_buf =
  sb_type :: file_type
  sb_major :: int
  sb_minor :: int

text \<open>\<open>se_scandir\<close> gives the names in a directory in the order of \<^verbatim>\<open>alphasort\<close>.\<close>

record scan_env =
  se_scandir :: "string \<Rightarrow> string list option"
  se_lstat :: "string \<Rightarrow> stat_buf option"
  se_stat :: "string \<Rightarrow> stat_buf option"
  se_file :: "string \<Rightarrow> string option"
  se_time :: int

record sysfsattrs =
  sa_sysfs :: int
  sa_slaves :: int
  sa_holders :: int
  sa_removable :: int
  sa_disk :: int

record devnode =
  dn_paths :: "string list"
  dn_maj :: int
  dn_min :: int
  dn_sysfs :: sysfsattrs
  dn_procpart :: int
  dn_procname :: string
  dn_md :: int
  dn_mapper :: int

record devlisthead =
  dl_nodes :: "devnode list"
  dl_dangling :: bool
  dl_timestamp :: int
  dl_timeout :: int
  dl_sysfs :: int
  dl_procpart :: int
  dl_lsdev :: int
  dl_mdstat :: int
  dl_mapper :: int
  dl_heap :: "bool list"

abbreviation (input) MAXPATHLEN :: nat where "MAXPATHLEN \<equiv> 4096"
abbreviation (input) DEVPATH :: string where "DEVPATH \<equiv> ''/dev''"
abbreviation (input) SYSBLOCKPATH :: string where "SYSBLOCKPATH \<equiv> ''/sys/block''"
abbreviation (input) DEVCACHETIMEOUT :: int where "DEVCACHETIMEOUT \<equiv> 30"

definition sd_malloc :: "(devlisthead, bool) io" where
  "sd_malloc dl =
     (case dl_heap dl of
        [] \<Rightarrow> (Inr True, dl)
      | failing # rest \<Rightarrow> (Inr (\<not> failing), dl\<lparr>dl_heap := rest\<rparr>))"

text \<open>Following the pointers of the head.\<close>

definition live_nodes :: "(devlisthead, devnode list) io" where
  "live_nodes dl = (if dl_dangling dl then (Inl C_UNDEFINED, dl) else (Inr (dl_nodes dl), dl))"

definition set_node :: "nat \<Rightarrow> (devnode \<Rightarrow> devnode) \<Rightarrow> devlisthead \<Rightarrow> devlisthead" where
  "set_node i f dl = dl\<lparr>dl_nodes := (dl_nodes dl)[i := f (dl_nodes dl ! i)]\<rparr>"

section \<open>Strings of the C library\<close>

fun strstr :: "string \<Rightarrow> string \<Rightarrow> string option" where
  "strstr [] needle = (if needle = [] then Some [] else None)"
| "strstr (c # cs) needle =
     (if take (length needle) (c # cs) = needle then Some (c # cs) else strstr cs needle)"

text \<open>A path and a name in a buffer of \<^verbatim>\<open>MAXPATHLEN\<close> characters.\<close>

definition join :: "string \<Rightarrow> string \<Rightarrow> string" where
  "join path name = take (MAXPATHLEN - 1) (path @ ''/'' @ name)"

text \<open>The lines that \<^verbatim>\<open>fgets\<close> reads into a buffer of 4096 characters.\<close>

fun first_line :: "nat \<Rightarrow> string \<Rightarrow> string" where
  "first_line 0 cs = []"
| "first_line (Suc n) [] = []"
| "first_line (Suc n) (c # cs) = (if c = CHR 0x0A then [c] else c # first_line n cs)"

lemma first_line_pos: "0 < n \<Longrightarrow> cs \<noteq> [] \<Longrightarrow> first_line n cs \<noteq> []"
  by (cases n; cases cs) auto

function file_lines :: "string \<Rightarrow> string list" where
  "file_lines cs =
     (if cs = [] then []
      else let l = first_line 4095 cs in takeWhile (\<lambda>c. c \<noteq> CHR 0x00) l # file_lines (drop (length l) cs))"
  by pat_completeness auto
termination
  by (relation "measure length") (auto intro!: diff_less simp: first_line_pos)

declare file_lines.simps [simp del]

text \<open>
  The conversions \<^verbatim>\<open>%wd\<close> and \<^verbatim>\<open>%s\<close> of \<^verbatim>\<open>scanf\<close>: the value and what follows. A number
  that is too long for a \<^verbatim>\<open>long\<close> is the largest or smallest one, and its low 32 bits are taken.
\<close>

definition scan_int :: "nat \<Rightarrow> string \<Rightarrow> (int \<times> string) option" where
  "scan_int width s =
     (let s = dropWhile is_space s;
          neg = (s \<noteq> [] \<and> hd s = CHR ''-'');
          signed = (s \<noteq> [] \<and> (hd s = CHR ''-'' \<or> hd s = CHR ''+''));
          s = (if signed then tl s else s);
          ds = takeWhile (\<lambda>c. digit_of 10 c \<noteq> None) (take (if signed then width - 1 else width) s);
          n = int (fst (digits 10 0 ds));
          v = (if neg then max (- n) (- (2 ^ 63)) else min n (2 ^ 63 - 1))
      in if ds = [] then None else Some (sint (word_of_int v :: u32), drop (length ds) s))"

definition scan_string :: "string \<Rightarrow> (string \<times> string) option" where
  "scan_string s =
     (let s = dropWhile is_space s; w = takeWhile (\<lambda>c. \<not> is_space c) s
      in if w = [] then None else Some (w, drop (length w) s))"

text \<open>The words of a line, at most \<open>n\<close>; each goes into a buffer of the given size.\<close>

fun scan_words :: "nat \<Rightarrow> string \<Rightarrow> string list" where
  "scan_words 0 s = []"
| "scan_words (Suc n) s =
     (case scan_string s of None \<Rightarrow> [] | Some (w, rest) \<Rightarrow> w # scan_words n rest)"

definition words_fit :: "nat list \<Rightarrow> string list \<Rightarrow> bool" where
  "words_fit sizes ws \<longleftrightarrow> list_all (\<lambda>(k, w). length w < k) (zip sizes ws)"

section \<open>Searching the list\<close>

fun first_index :: "('a \<Rightarrow> bool) \<Rightarrow> 'a list \<Rightarrow> nat option" where
  "first_index P [] = None"
| "first_index P (x # xs) = (if P x then Some 0 else map_option Suc (first_index P xs))"

definition find_dev_by_path :: "devnode list \<Rightarrow> string \<Rightarrow> bool \<Rightarrow> nat option" where
  "find_dev_by_path nodes path mtch =
     first_index (\<lambda>n. \<exists>p\<in>set (dn_paths n). if mtch then strstr p path \<noteq> None else p = path) nodes"

definition find_dev_by_majmin :: "devnode list \<Rightarrow> int \<Rightarrow> int \<Rightarrow> nat option" where
  "find_dev_by_majmin nodes maj mnr = first_index (\<lambda>n. dn_maj n = maj \<and> dn_min n = mnr) nodes"

section \<open>Freeing\<close>

text \<open>Freeing the nodes of a list whose nodes have been freed is a double free.\<close>

definition flush_dev_cache :: "(devlisthead, unit) io" where
  "flush_dev_cache =
     bind_io live_nodes (\<lambda>nodes dl. (Inr (), dl\<lparr>dl_nodes := [], dl_dangling := (nodes \<noteq> [])\<rparr>))"

section \<open>Adding nodes and paths\<close>

definition new_node :: "int \<Rightarrow> int \<Rightarrow> devnode" where
  "new_node maj mnr =
     \<lparr> dn_paths = [], dn_maj = maj, dn_min = mnr,
       dn_sysfs = \<lparr> sa_sysfs = 0, sa_slaves = 0, sa_holders = 0, sa_removable = 0, sa_disk = 0 \<rparr>,
       dn_procpart = 0, dn_procname = [], dn_md = 0, dn_mapper = 0 \<rparr>"

text \<open>The position of the new node, \<open>None\<close> when there is no memory.\<close>

definition alloc_list_obj :: "int \<Rightarrow> int \<Rightarrow> (devlisthead, nat option) io" where
  "alloc_list_obj maj mnr =
     bind_io sd_malloc (\<lambda>ok.
       if \<not> ok then ret_io None
       else bind_io live_nodes (\<lambda>nodes dl.
         (Inr (Some (length nodes)), dl\<lparr>dl_nodes := nodes @ [new_node maj mnr]\<rparr>)))"

definition add_path_obj :: "nat \<Rightarrow> string \<Rightarrow> (devlisthead, bool) io" where
  "add_path_obj i path =
     bind_io sd_malloc (\<lambda>ok dl.
       if \<not> ok then (Inr False, dl)
       else (Inr True, set_node i (\<lambda>n. n\<lparr>dn_paths := dn_paths n @ [take (MAXPATHLEN - 1) path]\<rparr>) dl))"

text \<open>The node of a device, which is made if it is not there.\<close>

definition find_or_alloc :: "int \<Rightarrow> int \<Rightarrow> (devlisthead, nat option) io" where
  "find_or_alloc maj mnr =
     bind_io live_nodes (\<lambda>nodes.
       case find_dev_by_majmin nodes maj mnr of
         Some i \<Rightarrow> ret_io (Some i)
       | None \<Rightarrow> alloc_list_obj maj mnr)"

definition add_lsdev_block :: "stat_buf \<Rightarrow> string \<Rightarrow> (devlisthead, bool) io" where
  "add_lsdev_block sb path =
     bind_io (find_or_alloc (sb_major sb) (sb_minor sb)) (\<lambda>r.
       case r of None \<Rightarrow> ret_io False | Some i \<Rightarrow> add_path_obj i path)"

section \<open>The device files\<close>

text \<open>For a link the file it leads to replaces what \<open>sb\<close> holds.\<close>

definition dev_is_block :: "scan_env \<Rightarrow> stat_buf \<Rightarrow> string \<Rightarrow> bool \<times> stat_buf" where
  "dev_is_block env sb path =
     (if sb_type sb = Block_device then (True, sb)
      else if sb_type sb = Symlink then
        (case se_stat env path of
           Some sb' \<Rightarrow> (sb_type sb' = Block_device, sb')
         | None \<Rightarrow> (False, sb))
      else (False, sb))"

abbreviation (input) hidden :: "string \<Rightarrow> bool" where
  "hidden name \<equiv> name \<noteq> [] \<and> hd name = CHR ''.''"

text \<open>
  A path that fills the buffer is its own subdirectory: the recursion then never ends, which
  is \<open>C_UNDEFINED\<close>. Elsewhere paths grow with each level.
\<close>

function lsdev :: "scan_env \<Rightarrow> string \<Rightarrow> (devlisthead, int) io"
  and lsdev_loop :: "scan_env \<Rightarrow> string \<Rightarrow> string list \<Rightarrow> (devlisthead, int) io" where
  "lsdev env path dl =
     (case se_scandir env path of
        None \<Rightarrow> (Inr (- 1), dl)
      | Some names \<Rightarrow> lsdev_loop env path names dl)"
| "lsdev_loop env path [] dl = (Inr 1, dl)"
| "lsdev_loop env path (name # names) dl =
     (if hidden name then lsdev_loop env path names dl
      else let newpath = join path name in
        case se_lstat env newpath of
          None \<Rightarrow> lsdev_loop env path names dl
        | Some sb \<Rightarrow>
            (case (if sb_type sb \<noteq> Directory then (Inr 0, dl)
                   else if length newpath \<le> length path then (Inl C_UNDEFINED, dl)
                   else lsdev env newpath dl) of
               (Inl e, dl) \<Rightarrow> (Inl e, dl)
             | (Inr err, dl) \<Rightarrow>
                 if err < 0 then (Inr err, dl)
                 else if \<not> fst (dev_is_block env sb newpath) then lsdev_loop env path names dl
                 else (case add_lsdev_block (snd (dev_is_block env sb newpath)) newpath dl of
                   (Inl e, dl) \<Rightarrow> (Inl e, dl)
                 | (Inr ok, dl) \<Rightarrow>
                     if ok then lsdev_loop env path names dl else (Inr (- 2), dl))))"
  by pat_completeness auto
termination
proof (relation "measures
    [\<lambda>x. case x of Inl (env, path, dl) \<Rightarrow> MAXPATHLEN - length path
               | Inr (env, path, names, dl) \<Rightarrow> MAXPATHLEN - length path,
     \<lambda>x. case x of Inl _ \<Rightarrow> 1 | Inr _ \<Rightarrow> 0,
     \<lambda>x. case x of Inl _ \<Rightarrow> 0 | Inr (env, path, names, dl) \<Rightarrow> length names]")
qed (auto simp: join_def not_le)

declare lsdev.simps [simp del] lsdev_loop.simps [simp del]

section \<open>The files in /proc\<close>

fun procpart_loop :: "string list \<Rightarrow> (devlisthead, int) io" where
  "procpart_loop [] dl = (Inr 1, dl)"
| "procpart_loop (line # rest) dl =
     (if length line > 128 + 22 then procpart_loop rest dl
      else case Option.bind (scan_int 4 line) (\<lambda>(maj, s).
                Option.bind (scan_int 4 s) (\<lambda>(mnr, s).
                Option.bind (scan_int 10 s) (\<lambda>(blkcnt, s).
                Option.bind (scan_string s) (\<lambda>(device, s). Some (maj, mnr, device))))) of
          None \<Rightarrow> procpart_loop rest dl
        | Some (maj, mnr, device) \<Rightarrow>
            if \<not> length device < 128 then (Inl C_UNDEFINED, dl)
            else (case find_or_alloc maj mnr dl of
                (Inl e, dl) \<Rightarrow> (Inl e, dl)
              | (Inr None, dl) \<Rightarrow> (Inr (- 2), dl)
              | (Inr (Some i), dl) \<Rightarrow>
                  procpart_loop rest
                    (set_node i (\<lambda>n. n\<lparr>dn_procpart := 1, dn_procname := device\<rparr>) dl)))"

definition scanprocpart :: "scan_env \<Rightarrow> (devlisthead, int) io" where
  "scanprocpart env dl =
     (case se_file env ''/proc/partitions'' of
        None \<Rightarrow> (Inr 0, dl)
      | Some content \<Rightarrow> procpart_loop (file_lines content) dl)"

text \<open>
  The slaves of a raid, from the buffer at \<^verbatim>\<open>tmp\<close> on. The names are not cut at the blanks
  but at the next bracket, where a NUL is stored.
\<close>

definition c_str :: "string \<Rightarrow> string" where
  "c_str buf = takeWhile (\<lambda>c. c \<noteq> CHR 0x00) buf"

definition index_in :: "string \<Rightarrow> string \<Rightarrow> nat option" where
  "index_in s needle = map_option (\<lambda>t. length s - length t) (strstr s needle)"

lemma strstr_length: "strstr s needle = Some t \<Longrightarrow> length t \<le> length s"
  by (induction s needle rule: strstr.induct) (auto split: if_splits)

lemma strstr_nonempty: "strstr s (c # cs) = Some t \<Longrightarrow> t \<noteq> []"
  by (induction s "c # cs" rule: strstr.induct) (auto split: if_splits)

definition mark_slave :: "string \<Rightarrow> devnode list \<Rightarrow> devnode list" where
  "mark_slave name nodes =
     (case find_dev_by_path nodes name True of
        None \<Rightarrow> nodes
      | Some i \<Rightarrow> nodes[i := (nodes ! i)\<lparr>dn_md := 2\<rparr>])"

function md_slaves :: "string \<Rightarrow> devnode list \<Rightarrow> devnode list" where
  "md_slaves buf nodes =
     (case index_in (c_str buf) '' '' of
        None \<Rightarrow>
          if c_str buf = [] then nodes
          else mark_slave (case index_in (c_str buf) ''['' of
              Some k \<Rightarrow> c_str (buf[k := CHR 0x00]) | None \<Rightarrow> c_str buf) nodes
      | Some nxt \<Rightarrow>
          let buf' = (case index_in (c_str buf) ''['' of Some k \<Rightarrow> buf[k := CHR 0x00] | None \<Rightarrow> buf)
          in md_slaves (drop (nxt + 1) buf') (mark_slave (c_str buf') nodes))"
  by pat_completeness auto
termination
proof (relation "measure (\<lambda>(buf, nodes). length buf)")
  fix buf nodes nxt buf'
  assume nxt: "index_in (c_str buf) '' '' = Some nxt"
    and buf': "buf' = (case index_in (c_str buf) ''['' of Some k \<Rightarrow> buf[k := CHR 0x00] | None \<Rightarrow> buf)"
  have "c_str buf \<noteq> []" using nxt by (auto simp: index_in_def)
  then have "buf \<noteq> []" by (auto simp: c_str_def)
  moreover have "length buf' = length buf" by (simp add: buf' split: option.split)
  ultimately show "((drop (nxt + 1) buf', mark_slave (c_str buf') nodes), (buf, nodes))
      \<in> measure (\<lambda>(buf, nodes). length buf)" by simp
qed simp

declare md_slaves.simps [simp del]

definition mdstat_line :: "string \<Rightarrow> (devlisthead, unit) io" where
  "mdstat_line line dl =
     (if \<not> (length line \<ge> 2 \<and> line ! 0 = CHR ''m'' \<and> line ! 1 = CHR ''d'') then (Inr (), dl)
      else let ws = scan_words 5 line in
        if \<not> words_fit [16, 4, 16, 16, 16] ws then (Inl C_UNDEFINED, dl)
        else if length ws < 5 \<or> ws ! 2 \<noteq> ''active'' then (Inr (), dl)
        else bind_io live_nodes (\<lambda>nodes dl.
          case find_dev_by_path nodes (ws ! 0) True of
            None \<Rightarrow> (Inr (), dl)
          | Some i \<Rightarrow>
              let dl = set_node i (\<lambda>n. n\<lparr>dn_md := 1\<rparr>) dl in
              case index_in (ws ! 4) ''['' of
                None \<Rightarrow> (Inr (), dl)
              | Some k \<Rightarrow>
                  (case strstr line (take k (ws ! 4)) of
                     None \<Rightarrow> (Inr (), dl)
                   | Some devices \<Rightarrow>
                       (Inr (), dl\<lparr>dl_nodes := md_slaves (take 4095 devices) (dl_nodes dl)\<rparr>))) dl)"

fun mdstat_loop :: "string list \<Rightarrow> (devlisthead, int) io" where
  "mdstat_loop [] dl = (Inr 1, dl)"
| "mdstat_loop (line # rest) dl =
     (case mdstat_line line dl of
        (Inl e, dl) \<Rightarrow> (Inl e, dl)
      | (Inr _, dl) \<Rightarrow> mdstat_loop rest dl)"

definition scanmdstat :: "scan_env \<Rightarrow> (devlisthead, int) io" where
  "scanmdstat env dl =
     (case se_file env ''/proc/mdstat'' of
        None \<Rightarrow> (Inr 0, dl)
      | Some content \<Rightarrow> mdstat_loop (file_lines content) dl)"

fun mapper_loop :: "bool \<Rightarrow> string list \<Rightarrow> (devlisthead, int) io" where
  "mapper_loop start [] dl = (Inr 1, dl)"
| "mapper_loop start (line # rest) dl =
     (if take 13 line = ''Block devices'' then mapper_loop True rest dl
      else if \<not> start then mapper_loop start rest dl
      else let ws = scan_words 2 line in
        if \<not> words_fit [4, 64] ws then (Inl C_UNDEFINED, dl)
        else if length ws < 2 \<or> take 13 (ws ! 1) \<noteq> ''device-mapper'' then mapper_loop start rest dl
        else case live_nodes dl of
            (Inl e, dl) \<Rightarrow> (Inl e, dl)
          | (Inr nodes, dl) \<Rightarrow>
              mapper_loop start rest
                (dl\<lparr>dl_nodes := map (\<lambda>n. if dn_maj n = sint (atoi (ws ! 0)) then n\<lparr>dn_mapper := 1\<rparr> else n)
                      nodes\<rparr>))"

definition scanmapper :: "scan_env \<Rightarrow> (devlisthead, int) io" where
  "scanmapper env dl =
     (case se_file env ''/proc/devices'' of
        None \<Rightarrow> (Inr 0, dl)
      | Some content \<Rightarrow> mapper_loop False (file_lines content) dl)"

section \<open>The files in /sys\<close>

definition sysfs_is_dev :: "scan_env \<Rightarrow> string \<Rightarrow> int \<times> (int \<times> int)" where
  "sysfs_is_dev env path =
     (let newpath = join path ''dev'' in
      if se_lstat env newpath = None then (0, (- 1, - 1))
      else case se_file env newpath of
          None \<Rightarrow> (- 1, (- 1, - 1))
        | Some content \<Rightarrow>
            (case Option.bind (scan_int (length content) content) (\<lambda>(maj, s).
                  if s \<noteq> [] \<and> hd s = CHR '':'' then
                    Option.bind (scan_int (length s) (tl s)) (\<lambda>(mnr, s). Some (maj, mnr))
                  else None) of
               None \<Rightarrow> (- 1, (- 1, - 1))
             | Some mm \<Rightarrow> (1, mm)))"

definition sysfs_is_removable :: "scan_env \<Rightarrow> string \<Rightarrow> int" where
  "sysfs_is_removable env path =
     (let newpath = join path ''removable'' in
      if se_lstat env newpath = None then - 1
      else case se_file env newpath of
          None \<Rightarrow> - 1
        | Some content \<Rightarrow>
            (case scan_int (length content) content of None \<Rightarrow> - 1 | Some (i, s) \<Rightarrow> i))"

definition sysfs_has_subdirs_entries :: "scan_env \<Rightarrow> string \<Rightarrow> string \<Rightarrow> int" where
  "sysfs_has_subdirs_entries env path subdir =
     (let newpath = join path subdir in
      case se_lstat env newpath of
        None \<Rightarrow> 0
      | Some sb \<Rightarrow>
          if sb_type sb \<noteq> Directory then 0
          else (case se_scandir env newpath of
              None \<Rightarrow> - 1
            | Some names \<Rightarrow> int (length (filter (\<lambda>n. \<not> hidden n) names))))"

definition sysfs_is_disk :: "scan_env \<Rightarrow> string \<Rightarrow> int" where
  "sysfs_is_disk env path =
     (let there = (\<lambda>p. se_lstat env (join path p) \<noteq> None);
          found = (\<lambda>p. case se_file env (join path p) of
              None \<Rightarrow> - 2
            | Some content \<Rightarrow>
                (case scan_int (length content) content of
                   None \<Rightarrow> 0
                 | Some (i, s) \<Rightarrow> if i = 0 \<or> i = 14 then 1 else 0))
      in if there ''device/type'' then found ''device/type''
         else if there ''../device/type'' then found ''../device/type''
         else if there ''device/media'' then found ''device/media''
         else if there ''../device/media'' then found ''../device/media''
         else if there ''device/devtype'' \<or> there ''../device/devtype'' then 1
         else - 1)"

text \<open>
  One entry of a directory in \<^verbatim>\<open>/sys/block\<close>: the node of a device; the value is \<open>has_holder\<close>, or
  \<open>None\<close> when there is no memory.
\<close>

definition sysfs_entry :: "scan_env \<Rightarrow> string \<Rightarrow> int \<Rightarrow> (devlisthead, int option) io" where
  "sysfs_entry env newpath parent_holder =
     (case sysfs_is_dev env newpath of (r, maj, mnr) \<Rightarrow>
      if \<not> r > 0 then ret_io (Some parent_holder)
      else bind_io (alloc_list_obj maj mnr) (\<lambda>node.
        case node of
          None \<Rightarrow> ret_io None
        | Some i \<Rightarrow>
            let has_holder = (if parent_holder = 0 then sysfs_has_subdirs_entries env newpath ''holders''
                              else parent_holder)
            in bind_io (upd_io (set_node i (\<lambda>n. n\<lparr>dn_sysfs :=
                 \<lparr> sa_sysfs = 1, sa_slaves = sysfs_has_subdirs_entries env newpath ''slaves'',
                   sa_holders = has_holder, sa_removable = sysfs_is_removable env newpath,
                   sa_disk = sysfs_is_disk env newpath \<rparr>\<rparr>))) (\<lambda>_.
               ret_io (Some has_holder))))"

abbreviation (input) is_dir :: "stat_buf option \<Rightarrow> bool" where
  "is_dir st \<equiv> (case st of None \<Rightarrow> False | Some sb \<Rightarrow> sb_type sb = Directory)"

text \<open>At the top level a directory that is not a link is scanned twice.\<close>

function scansysfs :: "scan_env \<Rightarrow> string \<Rightarrow> bool \<Rightarrow> int \<Rightarrow> (devlisthead, int) io"
  and sysfs_loop :: "scan_env \<Rightarrow> string \<Rightarrow> bool \<Rightarrow> int \<Rightarrow> string list \<Rightarrow> (devlisthead, int) io" where
  "scansysfs env path level parent_holder dl =
     (case se_scandir env path of
        None \<Rightarrow> (Inr (- 1), dl)
      | Some names \<Rightarrow> sysfs_loop env path level parent_holder names dl)"
| "sysfs_loop env path level parent_holder [] dl = (Inr 1, dl)"
| "sysfs_loop env path level parent_holder (name # names) dl =
     (let newpath = join path name;
          link = (case se_lstat env newpath of None \<Rightarrow> False | Some sb \<Rightarrow> level \<and> sb_type sb = Symlink)
      in if hidden name \<or> link then sysfs_loop env path level parent_holder names dl
         else case sysfs_entry env newpath parent_holder dl of
             (Inl e, dl) \<Rightarrow> (Inl e, dl)
           | (Inr None, dl) \<Rightarrow> (Inr (- 2), dl)
           | (Inr (Some has_holder), dl) \<Rightarrow>
               (case (if \<not> (\<not> level \<and> is_dir (se_stat env newpath)) then (Inr 0, dl)
                      else if length newpath \<le> length path then (Inl C_UNDEFINED, dl)
                      else scansysfs env newpath True has_holder dl) of
                  (Inl e, dl) \<Rightarrow> (Inl e, dl)
                | (Inr r, dl) \<Rightarrow>
                    if r < 0 then (Inr (- 1), dl)
                    else (case (if \<not> is_dir (se_lstat env newpath) then (Inr 0, dl)
                                else if length newpath \<le> length path then (Inl C_UNDEFINED, dl)
                                else scansysfs env newpath True has_holder dl) of
                        (Inl e, dl) \<Rightarrow> (Inl e, dl)
                      | (Inr r, dl) \<Rightarrow>
                          if r < 0 then (Inr (- 1), dl)
                          else sysfs_loop env path level parent_holder names dl)))"
  by pat_completeness auto
termination
proof (relation "measures
    [\<lambda>x. case x of Inl (env, path, l, h, dl) \<Rightarrow> MAXPATHLEN - length path
               | Inr (env, path, l, h, names, dl) \<Rightarrow> MAXPATHLEN - length path,
     \<lambda>x. case x of Inl _ \<Rightarrow> 1 | Inr _ \<Rightarrow> 0,
     \<lambda>x. case x of Inl _ \<Rightarrow> 0 | Inr (env, path, l, h, names, dl) \<Rightarrow> length names]")
qed (auto simp: join_def not_le)

declare scansysfs.simps [simp del] sysfs_loop.simps [simp del]

section \<open>The scan\<close>

text \<open>The filter of the caller sees each node and carries its own state.\<close>

definition run_filter :: "(devnode \<Rightarrow> 'a \<Rightarrow> 'a) \<Rightarrow> devnode list \<Rightarrow> 'a \<Rightarrow> 'a" where
  "run_filter f nodes args = fold f nodes args"

definition new_head :: "int \<Rightarrow> bool list \<Rightarrow> devlisthead" where
  "new_head timeout heap =
     \<lparr> dl_nodes = [], dl_dangling = False, dl_timestamp = 0,
       dl_timeout = (if timeout \<noteq> 0 then sint (word_of_int timeout :: u32) else DEVCACHETIMEOUT),
       dl_sysfs = 0, dl_procpart = 0, dl_lsdev = 0, dl_mdstat = 0, dl_mapper = 0, dl_heap = heap \<rparr>"

text \<open>Giving up: the list is freed and the value is a null pointer.\<close>

definition emergencyout :: "(devlisthead, devlisthead option) io" where
  "emergencyout = bind_io flush_dev_cache (\<lambda>_. ret_io None)"

text \<open>The scan proper, after the old nodes have been freed.\<close>

definition scan_steps :: "scan_env \<Rightarrow> (devlisthead, devlisthead option) io" where
  "scan_steps env =
     bind_io (upd_io (\<lambda>dl. dl\<lparr>dl_timestamp := se_time env\<rparr>)) (\<lambda>_.
     bind_io (scansysfs env SYSBLOCKPATH False 0) (\<lambda>res.
     bind_io (upd_io (\<lambda>dl. dl\<lparr>dl_sysfs := res\<rparr>)) (\<lambda>_.
     if res < - 1 then emergencyout else
     bind_io (scanprocpart env) (\<lambda>res.
     bind_io (upd_io (\<lambda>dl. dl\<lparr>dl_procpart := res\<rparr>)) (\<lambda>_.
     if res < - 1 then emergencyout else
     bind_io (lsdev env DEVPATH) (\<lambda>res.
     bind_io (upd_io (\<lambda>dl. dl\<lparr>dl_lsdev := res\<rparr>)) (\<lambda>_.
     if res < - 1 then emergencyout else
     bind_io (scanmdstat env) (\<lambda>res.
     bind_io (upd_io (\<lambda>dl. dl\<lparr>dl_mdstat := res\<rparr>)) (\<lambda>_.
     bind_io (scanmapper env) (\<lambda>res.
     bind_io (upd_io (\<lambda>dl. dl\<lparr>dl_mapper := res\<rparr>)) (\<lambda>_ dl.
       (Inr (Some dl), dl))))))))))))"

definition do_scan :: "scan_env \<Rightarrow> (devlisthead, devlisthead option) io" where
  "do_scan env = bind_io flush_dev_cache (\<lambda>_. scan_steps env)"

text \<open>
  \<^verbatim>\<open>scan_for_dev\<close>: with an old list, which is returned while it is fresh, or with none;
  \<open>heap\<close> says which allocations fail.
\<close>

definition scan_for_dev ::
  "scan_env \<Rightarrow> bool list \<Rightarrow> devlisthead option \<Rightarrow> int \<Rightarrow> (devnode \<Rightarrow> 'a \<Rightarrow> 'a) option \<Rightarrow> 'a
    \<Rightarrow> errcode + (devlisthead option \<times> 'a)" where
  "scan_for_dev env heap devlist timeout filt args =
     (let scan = (\<lambda>dl.
        case fst (do_scan env dl) of
          Inl e \<Rightarrow> Inl e
        | Inr None \<Rightarrow> Inr (None, args)
        | Inr (Some dl) \<Rightarrow>
            (case filt of
               None \<Rightarrow> Inr (Some dl, args)
             | Some f \<Rightarrow>
                 if dl_dangling dl then Inl C_UNDEFINED
                 else Inr (Some dl, run_filter f (dl_nodes dl) args)))
      in case devlist of
           Some dl \<Rightarrow>
             if se_time env - dl_timestamp dl < dl_timeout dl then Inr (Some dl, args)
             else scan (dl\<lparr>dl_heap := heap\<rparr>)
         | None \<Rightarrow>
             (case sd_malloc (new_head timeout heap) of
                (Inr True, dl) \<Rightarrow> scan dl
              | _ \<Rightarrow> Inr (None, args)))"

definition free_dev_list :: "devlisthead option \<Rightarrow> errcode + unit" where
  "free_dev_list devlist =
     (case devlist of None \<Rightarrow> Inr () | Some dl \<Rightarrow> fst (flush_dev_cache dl))"


section \<open>The disks of the machine\<close>

text \<open>
  The client in the file: it lists the disks that belong to no other device, and scans
  again, after a pause, while there is one without a path. Memory is assumed available for
  its list.
\<close>

record scan_context =
  sc_devlist :: "(int \<times> int \<times> string) list"
  sc_rescan :: bool

definition path_wanted :: "devnode \<Rightarrow> string \<Rightarrow> bool" where
  "path_wanted node path =
     (if dn_mapper node \<noteq> 0 then take 12 path = ''/dev/mapper/'' else take 7 path = ''/dev/sd'')"

definition add_to_list :: "devnode \<Rightarrow> scan_context \<Rightarrow> scan_context" where
  "add_to_list node ctxt =
     (case find (path_wanted node) (dn_paths node) of
        None \<Rightarrow> ctxt
      | Some path \<Rightarrow> ctxt\<lparr>sc_devlist := sc_devlist ctxt @ [(dn_maj node, dn_min node, path)]\<rparr>)"

definition filter_devices :: "devnode \<Rightarrow> scan_context \<Rightarrow> scan_context" where
  "filter_devices node ctxt =
     (if sa_sysfs (dn_sysfs node) = 0 then ctxt
      else if sa_disk (dn_sysfs node) = 0 then ctxt
      else if sa_holders (dn_sysfs node) \<noteq> 0 then ctxt
      else if dn_paths node = [] then ctxt\<lparr>sc_rescan := True\<rparr>
      else add_to_list node ctxt)"

text \<open>
  The rounds of \<^verbatim>\<open>main\<close>; \<open>envs n\<close> is the system at the n-th scan. \<open>None\<close> is the exit with an
  error; after the fourth scan its list is taken as it is.
\<close>

function scan_rounds ::
  "(nat \<Rightarrow> scan_env) \<Rightarrow> nat \<Rightarrow> nat \<Rightarrow> (int \<times> int \<times> string) list
    \<Rightarrow> errcode + (int \<times> int \<times> string) list option" where
  "scan_rounds envs n delay devlist =
     (if delay > 5 then Inr (Some devlist)
      else
        case scan_for_dev (envs n) [] None 5 (Some filter_devices) \<lparr> sc_devlist = [], sc_rescan = False \<rparr> of
          Inl e \<Rightarrow> Inl e
        | Inr (None, ctxt) \<Rightarrow> Inr None
        | Inr (Some dl, ctxt) \<Rightarrow>
            if sc_rescan ctxt
            then scan_rounds envs (n + 1) (if n = 0 then delay else delay + 2) (sc_devlist ctxt)
            else Inr (Some (sc_devlist ctxt)))"
  by pat_completeness auto
termination
  by (relation "measure (\<lambda>(envs, n, delay, devlist). if n = 0 then 10 else 7 - delay)") auto

declare scan_rounds.simps [simp del]

definition list_disks :: "(nat \<Rightarrow> scan_env) \<Rightarrow> errcode + (int \<times> int \<times> string) list option" where
  "list_disks envs = scan_rounds envs 0 1 []"

end
