(* ===== verification/Scandisk_properties.thy ===== *)
theory Scandisk_properties
  imports Scandisk
begin

text \<open>
  The scan for devices: which files of \<^verbatim>\<open>/dev\<close> end up in the list, what scanning again with
  an old list does, and the buffers for the words of a line.
\<close>

section \<open>Searching\<close>

lemma first_index_Some:
  "first_index P xs = Some i \<Longrightarrow> i < length xs \<and> P (xs ! i)"
  by (induction xs arbitrary: i) (auto split: if_splits)

lemma first_index_None: "first_index P xs = None \<longleftrightarrow> (\<forall>x\<in>set xs. \<not> P x)"
  by (induction xs) auto

lemma strstr_Some: "strstr s needle = Some t \<Longrightarrow> \<exists>pre post. s = pre @ needle @ post \<and> t = needle @ post"
proof (induction s needle rule: strstr.induct)
  case (2 c cs needle)
  show ?case
  proof (cases "take (length needle) (c # cs) = needle")
    case True
    then have "c # cs = needle @ drop (length needle) (c # cs)" by (metis append_take_drop_id)
    then show ?thesis using 2(2) True by (metis append_Nil option.inject strstr.simps(2))
  next
    case False
    then have "strstr cs needle = Some t" using 2(2) by simp
    then obtain pre post where "cs = pre @ needle @ post" "t = needle @ post" using 2(1) [OF False] by blast
    then show ?thesis by (intro exI [of _ "c # pre"] exI [of _ post]) simp
  qed
qed (auto split: if_splits)

section \<open>The list as a relation\<close>

definition in_list :: "devnode list \<Rightarrow> string \<Rightarrow> int \<Rightarrow> int \<Rightarrow> bool" where
  "in_list nodes p a b \<longleftrightarrow> (\<exists>n\<in>set nodes. dn_maj n = a \<and> dn_min n = b \<and> p \<in> set (dn_paths n))"

abbreviation (input) majmin :: "devnode \<Rightarrow> int \<times> int" where
  "majmin n \<equiv> (dn_maj n, dn_min n)"

lemma in_list_update:
  assumes "i < length nodes" and "majmin n = majmin (nodes ! i)" and "set (dn_paths n) = insert q (set (dn_paths (nodes ! i)))"
  shows "in_list (nodes[i := n]) p a b \<longleftrightarrow> in_list nodes p a b \<or> (p = q \<and> a = dn_maj n \<and> b = dn_min n)"
proof
  assume "in_list (nodes[i := n]) p a b"
  then obtain m where m: "m \<in> set (nodes[i := n])" "dn_maj m = a" "dn_min m = b" "p \<in> set (dn_paths m)"
    by (auto simp: in_list_def)
  then have "m = n \<or> m \<in> set nodes" using set_update_subset_insert by fastforce
  then show "in_list nodes p a b \<or> (p = q \<and> a = dn_maj n \<and> b = dn_min n)"
    using m assms nth_mem [OF assms(1)] by (auto simp: in_list_def)
next
  assume "in_list nodes p a b \<or> (p = q \<and> a = dn_maj n \<and> b = dn_min n)"
  then show "in_list (nodes[i := n]) p a b"
  proof
    assume "p = q \<and> a = dn_maj n \<and> b = dn_min n"
    then show ?thesis using assms(1,3) set_update_memI [OF assms(1), of n] by (auto simp: in_list_def)
  next
    assume "in_list nodes p a b"
    then obtain m where m: "m \<in> set nodes" "dn_maj m = a" "dn_min m = b" "p \<in> set (dn_paths m)"
      by (auto simp: in_list_def)
    then obtain j where "j < length nodes" "nodes ! j = m" by (auto simp: in_set_conv_nth)
    with m have j: "j < length nodes" "dn_maj (nodes ! j) = a" "dn_min (nodes ! j) = b"
        "p \<in> set (dn_paths (nodes ! j))" by simp_all
    have "nodes[i := n] ! j \<in> set (nodes[i := n])" using j(1) by (intro nth_mem) simp
    moreover have "dn_maj (nodes[i := n] ! j) = a" "dn_min (nodes[i := n] ! j) = b"
      "p \<in> set (dn_paths (nodes[i := n] ! j))"
      using j assms by (auto simp: nth_list_update)
    ultimately show ?thesis unfolding in_list_def by blast
  qed
qed

lemma majmin_update:
  "i < length nodes \<Longrightarrow> majmin n = majmin (nodes ! i) \<Longrightarrow> map majmin (nodes[i := n]) = map majmin nodes"
  by (simp add: map_update list_update_same_conv)

lemma sd_malloc_ok: "\<exists>ok h. sd_malloc dl = (Inr ok, dl\<lparr>dl_heap := h\<rparr>)"
  by (cases "dl_heap dl") (auto simp: sd_malloc_def intro: exI [of _ "[]"])

text \<open>Adding a path to a device keeps one node for each device.\<close>

lemma add_block_ok:
  assumes "add_lsdev_block sb q dl = (Inr True, dl')" and "\<not> dl_dangling dl" and "length q < MAXPATHLEN"
  shows "\<not> dl_dangling dl'"
    and "in_list (dl_nodes dl') p a b \<longleftrightarrow>
      in_list (dl_nodes dl) p a b \<or> (p = q \<and> a = sb_major sb \<and> b = sb_minor sb)"
    and "distinct (map majmin (dl_nodes dl)) \<Longrightarrow> distinct (map majmin (dl_nodes dl'))"
proof -
  let ?nodes = "dl_nodes dl" and ?new = "new_node (sb_major sb) (sb_minor sb)"
  have q: "take (MAXPATHLEN - 1) q = q" using assms(3) by simp
  obtain i nodes1 h where i: "i < length nodes1" "majmin (nodes1 ! i) = (sb_major sb, sb_minor sb)"
      "dl' = dl\<lparr>dl_nodes := nodes1[i := (nodes1 ! i)\<lparr>dn_paths := dn_paths (nodes1 ! i) @ [q]\<rparr>], dl_heap := h\<rparr>"
      "nodes1 = ?nodes \<or> nodes1 = ?nodes @ [?new] \<and> (\<forall>n\<in>set ?nodes. majmin n \<noteq> (sb_major sb, sb_minor sb))"
  proof (cases "find_dev_by_majmin ?nodes (sb_major sb) (sb_minor sb)")
    case (Some i)
    then have "i < length ?nodes \<and> majmin (?nodes ! i) = (sb_major sb, sb_minor sb)"
      using first_index_Some by (fastforce simp: find_dev_by_majmin_def)
    moreover obtain ok h where "sd_malloc dl = (Inr ok, dl\<lparr>dl_heap := h\<rparr>)" using sd_malloc_ok by blast
    ultimately show ?thesis using that [of i ?nodes h] assms(1,2) Some q
      by (auto simp: add_lsdev_block_def find_or_alloc_def live_nodes_def bind_io_def ret_io_def
          add_path_obj_def set_node_def split: if_splits)
  next
    case None
    then have none: "\<forall>n\<in>set ?nodes. majmin n \<noteq> (sb_major sb, sb_minor sb)"
      by (auto simp: find_dev_by_majmin_def first_index_None)
    obtain ok h where m: "sd_malloc dl = (Inr ok, dl\<lparr>dl_heap := h\<rparr>)" using sd_malloc_ok by blast
    let ?d = "dl\<lparr>dl_heap := h, dl_nodes := ?nodes @ [?new]\<rparr>"
    obtain ok2 h2 where m2: "sd_malloc ?d = (Inr ok2, ?d\<lparr>dl_heap := h2\<rparr>)" using sd_malloc_ok by blast
    have "find_or_alloc (sb_major sb) (sb_minor sb) dl
        = (Inr (if ok then Some (length ?nodes) else None), if ok then ?d else dl\<lparr>dl_heap := h\<rparr>)"
      using m None assms(2)
      by (simp add: find_or_alloc_def live_nodes_def bind_io_def ret_io_def alloc_list_obj_def)
    then have ok: "ok" "ok2" and dl': "dl' = set_node (length ?nodes)
        (\<lambda>n. n\<lparr>dn_paths := dn_paths n @ [take (MAXPATHLEN - 1) q]\<rparr>) (?d\<lparr>dl_heap := h2\<rparr>)"
      using assms(1) m2
      by (auto simp: add_lsdev_block_def bind_io_def ret_io_def add_path_obj_def split: if_splits)
    show ?thesis
    proof (rule that [of "length ?nodes" "?nodes @ [?new]" h2])
      show "dl' = dl\<lparr>dl_nodes := (?nodes @ [?new])[length ?nodes := ((?nodes @ [?new]) ! length ?nodes)
          \<lparr>dn_paths := dn_paths ((?nodes @ [?new]) ! length ?nodes) @ [q]\<rparr>], dl_heap := h2\<rparr>"
        using dl' q by (simp add: set_node_def)
    qed (use none in \<open>simp_all add: new_node_def\<close>)
  qed
  let ?n = "(nodes1 ! i)\<lparr>dn_paths := dn_paths (nodes1 ! i) @ [q]\<rparr>"
  have nodes': "dl_nodes dl' = nodes1[i := ?n]" using i(3) by simp
  show "\<not> dl_dangling dl'" using i(3) assms(2) by simp
  have "in_list nodes1 p a b \<longleftrightarrow> in_list ?nodes p a b"
    using i(4) by (auto simp: in_list_def new_node_def)
  moreover have "dn_maj ?n = sb_major sb" "dn_min ?n = sb_minor sb" using i(2) by simp_all
  ultimately show "in_list (dl_nodes dl') p a b \<longleftrightarrow>
      in_list ?nodes p a b \<or> (p = q \<and> a = sb_major sb \<and> b = sb_minor sb)"
    unfolding nodes' using in_list_update [OF i(1), of ?n q p a b] by simp
  assume d: "distinct (map majmin ?nodes)"
  have "map majmin (nodes1[i := ?n]) = map majmin nodes1" using i(1) by (intro majmin_update) simp_all
  moreover have "distinct (map majmin nodes1)" using i(4) d by (auto simp: new_node_def) blast
  ultimately show "distinct (map majmin (dl_nodes dl'))" unfolding nodes' by simp
qed

section \<open>The block devices under a directory\<close>

text \<open>
  \<open>dev_file env path p a b\<close>: \<open>p\<close> is a file below \<open>path\<close> that is the block device with the numbers
  \<open>a\<close> and \<open>b\<close>, or a link to one (\<open>block_file\<close>); names that start with a dot do not count, links to
  directories are not followed.
\<close>

definition block_file :: "scan_env \<Rightarrow> string \<Rightarrow> int \<Rightarrow> int \<Rightarrow> bool" where
  "block_file env p a b \<longleftrightarrow> (\<exists>sb. sb_type sb = Block_device \<and> sb_major sb = a \<and> sb_minor sb = b
     \<and> (se_lstat env p = Some sb
        \<or> map_option sb_type (se_lstat env p) = Some Symlink \<and> se_stat env p = Some sb))"

lemma block_file_dev:
  "se_lstat env p = Some sb \<Longrightarrow> block_file env p a b \<longleftrightarrow>
    fst (dev_is_block env sb p) \<and> a = sb_major (snd (dev_is_block env sb p))
      \<and> b = sb_minor (snd (dev_is_block env sb p))"
  by (auto simp: block_file_def dev_is_block_def split: option.splits if_splits)

lemma block_file_lstat: "block_file env p a b \<Longrightarrow> \<exists>sb. se_lstat env p = Some sb"
  by (auto simp: block_file_def)

inductive dev_file :: "scan_env \<Rightarrow> string \<Rightarrow> string \<Rightarrow> int \<Rightarrow> int \<Rightarrow> bool" for env where
  here: "\<lbrakk>se_scandir env path = Some names; name \<in> set names; \<not> hidden name;
     block_file env (join path name) a b\<rbrakk>
    \<Longrightarrow> dev_file env path (join path name) a b"
| below: "\<lbrakk>se_scandir env path = Some names; name \<in> set names; \<not> hidden name;
     se_lstat env (join path name) = Some sb; sb_type sb = Directory; dev_file env (join path name) p a b\<rbrakk>
    \<Longrightarrow> dev_file env path p a b"

text \<open>What one name of a directory contributes.\<close>

definition entry_file :: "scan_env \<Rightarrow> string \<Rightarrow> string \<Rightarrow> string \<Rightarrow> int \<Rightarrow> int \<Rightarrow> bool" where
  "entry_file env path name p a b \<longleftrightarrow> \<not> hidden name \<and> (\<exists>sb. se_lstat env (join path name) = Some sb
     \<and> ((fst (dev_is_block env sb (join path name)) \<and> p = join path name
          \<and> a = sb_major (snd (dev_is_block env sb (join path name)))
          \<and> b = sb_minor (snd (dev_is_block env sb (join path name))))
       \<or> (sb_type sb = Directory \<and> dev_file env (join path name) p a b)))"

lemma entry_file_here: "\<not> hidden name \<Longrightarrow> block_file env (join path name) a b \<Longrightarrow>
    entry_file env path name (join path name) a b"
  using block_file_lstat [of env "join path name" a b] by (auto simp: entry_file_def block_file_dev)

lemma dev_file_entry:
  "dev_file env path p a b \<longleftrightarrow>
    (\<exists>names name. se_scandir env path = Some names \<and> name \<in> set names \<and> entry_file env path name p a b)"
proof
  assume "dev_file env path p a b"
  then show "\<exists>names name. se_scandir env path = Some names \<and> name \<in> set names \<and> entry_file env path name p a b"
  proof cases
    case (here names name)
    then show ?thesis using entry_file_here by blast
  next
    case (below names name sb)
    then show ?thesis unfolding entry_file_def by blast
  qed
next
  assume "\<exists>names name. se_scandir env path = Some names \<and> name \<in> set names \<and> entry_file env path name p a b"
  then obtain names name sb where n: "se_scandir env path = Some names" "name \<in> set names" "\<not> hidden name"
    and sb: "se_lstat env (join path name) = Some sb"
    and dev: "(fst (dev_is_block env sb (join path name)) \<and> p = join path name
          \<and> a = sb_major (snd (dev_is_block env sb (join path name)))
          \<and> b = sb_minor (snd (dev_is_block env sb (join path name))))
       \<or> (sb_type sb = Directory \<and> dev_file env (join path name) p a b)"
    unfolding entry_file_def by blast
  from dev show "dev_file env path p a b"
  proof
    assume "sb_type sb = Directory \<and> dev_file env (join path name) p a b"
    then show ?thesis using dev_file.below [OF n sb] by blast
  next
    assume "fst (dev_is_block env sb (join path name)) \<and> p = join path name
          \<and> a = sb_major (snd (dev_is_block env sb (join path name)))
          \<and> b = sb_minor (snd (dev_is_block env sb (join path name)))"
    then show ?thesis using dev_file.here [OF n, of a b] block_file_dev [OF sb] by simp
  qed
qed

definition listed :: "devlisthead \<Rightarrow> (string \<Rightarrow> int \<Rightarrow> int \<Rightarrow> bool) \<Rightarrow> devlisthead \<Rightarrow> bool" where
  "listed dl F dl' \<longleftrightarrow> \<not> dl_dangling dl'
     \<and> (\<forall>p a b. in_list (dl_nodes dl') p a b \<longleftrightarrow> in_list (dl_nodes dl) p a b \<or> F p a b)
     \<and> (distinct (map majmin (dl_nodes dl)) \<longrightarrow> distinct (map majmin (dl_nodes dl')))"

text \<open>A name that is there and not hidden: \<open>?step\<close> is what its subdirectory does.\<close>

lemma lsdev_loop_visible:
  fixes dl :: devlisthead
  assumes "\<not> hidden name" and "se_lstat env (join path name) = Some sb"
    and "(if sb_type sb \<noteq> Directory then (Inr 0, dl)
        else if length (join path name) \<le> length path then (Inl C_UNDEFINED, dl)
        else lsdev env (join path name) dl) = (r1, dl1)"
  shows "lsdev_loop env path (name # names) dl =
    (case r1 of
       Inl e \<Rightarrow> (Inl e, dl1)
     | Inr err \<Rightarrow>
         if err < 0 then (Inr err, dl1)
         else if \<not> fst (dev_is_block env sb (join path name)) then lsdev_loop env path names dl1
         else case add_lsdev_block (snd (dev_is_block env sb (join path name))) (join path name) dl1 of
             (Inl e, dl) \<Rightarrow> (Inl e, dl)
           | (Inr ok, dl) \<Rightarrow> if ok then lsdev_loop env path names dl else (Inr (- 2), dl))"
  unfolding lsdev_loop.simps(2) Let_def using assms by (cases r1) auto

lemma lsdev_listed:
  "lsdev env path dl = (Inr r, dl') \<Longrightarrow> \<not> dl_dangling dl \<Longrightarrow> 0 \<le> r \<Longrightarrow>
    listed dl (dev_file env path) dl'"
  "lsdev_loop env path names dl = (Inr r, dl') \<Longrightarrow> \<not> dl_dangling dl \<Longrightarrow> 0 \<le> r \<Longrightarrow>
    listed dl (\<lambda>p a b. \<exists>name\<in>set names. entry_file env path name p a b) dl'"
proof (induction env path dl and env path names dl arbitrary: r dl' and r dl' rule: lsdev_lsdev_loop.induct)
  case (1 env path dl)
  show ?case
  proof (cases "se_scandir env path")
    case None
    then show ?thesis using "1.prems" by (simp add: lsdev.simps)
  next
    case (Some names)
    then have "listed dl (\<lambda>p a b. \<exists>name\<in>set names. entry_file env path name p a b) dl'"
      using 1 by (simp add: lsdev.simps)
    moreover have "(\<exists>name\<in>set names. entry_file env path name p a b) \<longleftrightarrow> dev_file env path p a b" for p a b
      using Some by (auto simp: dev_file_entry)
    ultimately show ?thesis by (simp add: listed_def)
  qed
next
  case (2 env path dl)
  then show ?case by (simp add: lsdev_loop.simps listed_def)
next
  case (3 env path name names dl)
  let ?np = "join path name"
  let ?rest = "\<lambda>p a b. \<exists>name\<in>set names. entry_file env path name p a b"
  show ?case
  proof (cases "hidden name")
    case True
    then have "\<not> entry_file env path name p a b" for p a b by (auto simp: entry_file_def)
    then show ?thesis using 3 True by (simp add: lsdev_loop.simps listed_def)
  next
    case vis: False
    show ?thesis
    proof (cases "se_lstat env ?np")
      case None
      then have "\<not> entry_file env path name p a b" for p a b by (auto simp: entry_file_def)
      then show ?thesis using 3 vis None by (simp add: lsdev_loop.simps listed_def)
    next
      case (Some sb)
      let ?dir = "sb_type sb = Directory"
      let ?step = "if \<not> ?dir then (Inr 0, dl)
        else if length ?np \<le> length path then (Inl C_UNDEFINED, dl) else lsdev env ?np dl"
      obtain r1 dl1 where s1: "?step = (r1, dl1)" by force
      obtain err where err: "r1 = Inr err" "0 \<le> err"
        using "3.prems"(1,3) vis Some s1 by (cases r1) (auto simp: lsdev_loop.simps Let_def split: if_splits)
      have l1: "listed dl (\<lambda>p a b. ?dir \<and> dev_file env ?np p a b) dl1"
      proof (cases ?dir)
        case True
        then have "\<not> length ?np \<le> length path" and "lsdev env ?np dl = (Inr err, dl1)"
          using s1 err by (auto split: if_splits)
        then show ?thesis using "3.IH"(3) [OF vis refl Some _ _ _ "3.prems"(2) err(2)] True by simp
      next
        case False
        then show ?thesis using s1 err "3.prems"(2) by (simp add: listed_def)
      qed
      have live1: "\<not> dl_dangling dl1" using l1 by (simp add: listed_def)
      have vis': "\<not> (name \<noteq> [] \<and> hd name = CHR ''.'')" using vis by simp
      have e1: "\<not> err < 0" using err(2) by simp
      let ?blk = "fst (dev_is_block env sb ?np)" and ?sb = "snd (dev_is_block env sb ?np)"
      have entry: "entry_file env path name p a b \<longleftrightarrow>
          ?blk \<and> p = ?np \<and> a = sb_major ?sb \<and> b = sb_minor ?sb \<or> ?dir \<and> dev_file env ?np p a b" for p a b
        using vis Some by (auto simp: entry_file_def)
      have eq: "lsdev_loop env path (name # names) dl =
          (if \<not> ?blk then lsdev_loop env path names dl1
           else case add_lsdev_block ?sb ?np dl1 of
               (Inl e, dl) \<Rightarrow> (Inl e, dl)
             | (Inr ok, dl) \<Rightarrow> if ok then lsdev_loop env path names dl else (Inr (- 2), dl))"
        using lsdev_loop_visible [OF vis Some s1] err by simp
      show ?thesis
      proof (cases ?blk)
        case False
        then have "lsdev_loop env path names dl1 = (Inr r, dl')" using "3.prems"(1) eq by simp
        from "3.IH"(4) [OF vis' refl Some s1 [symmetric] err(1) e1 False this live1 "3.prems"(3)] l1 False
        show ?thesis by (auto simp: listed_def entry)
      next
        case True
        obtain dl2 where a: "add_lsdev_block ?sb ?np dl1 = (Inr True, dl2)"
          and rest: "lsdev_loop env path names dl2 = (Inr r, dl')"
          using "3.prems"(1,3) True unfolding eq by (auto split: prod.splits sum.splits if_splits)
        have "length ?np < MAXPATHLEN" by (simp add: join_def)
        note add = add_block_ok [OF a live1 this]
        have nn: "\<not> \<not> ?blk" using True by simp
        from "3.IH"(5) [OF vis' refl Some s1 [symmetric] err(1) e1 nn a [symmetric] refl TrueI rest add(1) "3.prems"(3)]
          l1 add(2,3) True
        show ?thesis by (auto simp: listed_def entry)
      qed
    qed
  qed
qed

section \<open>Dangling lists\<close>

text \<open>No step of the scan mends the pointers of a head.\<close>

definition keeps :: "(devlisthead, 'a) io \<Rightarrow> bool" where
  "keeps m \<longleftrightarrow> (\<forall>dl. dl_dangling (snd (m dl)) = dl_dangling dl)"

named_theorems keeps_intros \<open>operations that leave the pointers of the head as they are\<close>

lemma keepsD: "keeps m \<Longrightarrow> m dl = (r, dl') \<Longrightarrow> dl_dangling dl' = dl_dangling dl"
  by (metis keeps_def snd_conv)

lemma keeps_bind [keeps_intros]: "keeps m \<Longrightarrow> (\<And>x. keeps (f x)) \<Longrightarrow> keeps (bind_io m f)"
  unfolding keeps_def bind_io_def by (auto split: prod.splits sum.splits) (metis snd_conv)+

lemma keeps_ret [keeps_intros]: "keeps (ret_io x)"
  by (simp add: keeps_def ret_io_def)

lemma keeps_const [keeps_intros]: "keeps (\<lambda>dl. (r, dl))"
  by (simp add: keeps_def)

lemma keeps_if [keeps_intros]: "keeps m \<Longrightarrow> keeps n \<Longrightarrow> keeps (if b then m else n)"
  by simp

lemma keeps_node [keeps_intros]: "keeps (\<lambda>dl. (r, set_node i f dl))" "keeps (upd_io (set_node i f))"
  by (simp_all add: keeps_def set_node_def upd_io_def)

lemma keeps_live [keeps_intros]: "keeps live_nodes"
  by (simp add: keeps_def live_nodes_def)

lemma keeps_malloc [keeps_intros]: "keeps sd_malloc"
  by (auto simp: keeps_def sd_malloc_def split: list.split)

lemma keeps_alloc [keeps_intros]: "keeps (alloc_list_obj a b)"
  unfolding alloc_list_obj_def by (intro keeps_intros) (simp add: keeps_def)

lemma keeps_find_or_alloc [keeps_intros]: "keeps (find_or_alloc a b)"
  unfolding find_or_alloc_def by (intro keeps_intros) (auto split: option.split intro: keeps_intros)

lemma keeps_add_path [keeps_intros]: "keeps (add_path_obj i path)"
  unfolding add_path_obj_def by (intro keeps_intros) (simp add: keeps_def set_node_def)

lemma keeps_add_block [keeps_intros]: "keeps (add_lsdev_block sb path)"
  unfolding add_lsdev_block_def by (intro keeps_intros) (auto split: option.split intro: keeps_intros)

lemma keeps_lsdev:
  "dl_dangling (snd (lsdev env path dl)) = dl_dangling dl"
  "dl_dangling (snd (lsdev_loop env path names dl)) = dl_dangling dl"
proof (induction env path dl and env path names dl rule: lsdev_lsdev_loop.induct)
  case (3 env path name names dl)
  let ?np = "join path name"
  have add: "dl_dangling d' = dl_dangling d" if "add_lsdev_block sb p d = (r, d')" for sb p d r d'
    using keepsD [OF keeps_add_block that] .
  show ?case
  proof (cases "hidden name")
    case True
    then show ?thesis using "3.IH"(1) by (simp add: lsdev_loop.simps)
  next
    case vis: False
    show ?thesis
    proof (cases "se_lstat env ?np")
      case None
      then show ?thesis using "3.IH"(2) [OF _ refl] vis by (auto simp: lsdev_loop.simps)
    next
      case (Some sb)
      let ?step = "if sb_type sb \<noteq> Directory then (Inr 0, dl)
        else if length ?np \<le> length path then (Inl C_UNDEFINED, dl) else lsdev env ?np dl"
      have vis': "\<not> (name \<noteq> [] \<and> hd name = CHR ''.'')" using vis by simp
      obtain r1 dl1 where s1: "?step = (r1, dl1)" by force
      have d1: "dl_dangling dl1 = dl_dangling dl"
        using s1 "3.IH"(3) [OF vis' refl Some] by (metis snd_conv)
      let ?blk = "fst (dev_is_block env sb ?np)" and ?sb = "snd (dev_is_block env sb ?np)"
      show ?thesis
      proof (cases r1)
        case (Inl e)
        then show ?thesis using lsdev_loop_visible [OF vis Some s1] d1 by simp
      next
        case err: (Inr err)
        obtain r2 dl2 where a: "add_lsdev_block ?sb ?np dl1 = (r2, dl2)" by force
        have rest: "dl_dangling (snd (lsdev_loop env path names dl1)) = dl_dangling dl1"
          if "\<not> err < 0" "\<not> ?blk"
          using "3.IH"(4) [OF vis' refl Some s1 [symmetric] err that] .
        have rest2: "dl_dangling (snd (lsdev_loop env path names dl2)) = dl_dangling dl2"
          if "\<not> err < 0" "\<not> \<not> ?blk" "r2 = Inr True"
          using "3.IH"(5) [OF vis' refl Some s1 [symmetric] err that(1,2) a [symmetric] that(3) TrueI] .
        show ?thesis
          using lsdev_loop_visible [OF vis Some s1, of names] d1 add [OF a] rest rest2
          by (auto simp: err a split: sum.split)
      qed
    qed
  qed
qed (simp_all add: lsdev.simps lsdev_loop.simps split: option.split)

lemma keeps_procpart: "keeps (procpart_loop lines)"
proof (induction lines)
  case (Cons line rest)
  have fa: "dl_dangling d' = dl_dangling d" if "find_or_alloc a b d = (r, d')" for a b d r d'
    using keepsD [OF keeps_find_or_alloc that] .
  show ?case using Cons
    by (auto simp: keeps_def set_node_def dest: fa split: prod.splits sum.splits option.splits)
qed (simp add: keeps_def)

lemma keeps_mdstat: "keeps (mdstat_loop lines)"
proof (induction lines)
  case (Cons line rest)
  have line: "keeps (mdstat_line line)"
    unfolding mdstat_line_def keeps_def bind_io_def Let_def
    by (auto simp: live_nodes_def set_node_def split: prod.splits sum.splits option.splits)
  show ?case using Cons keepsD [OF line]
    by (auto simp: keeps_def split: prod.splits sum.splits)
qed (simp add: keeps_def)

lemma keeps_mapper: "keeps (mapper_loop start lines)"
proof (induction lines arbitrary: start)
  case (Cons line rest)
  then show ?case by (auto simp: keeps_def live_nodes_def Let_def)
qed (simp add: keeps_def)

lemma keeps_entry: "keeps (sysfs_entry env path holder)"
  unfolding sysfs_entry_def Let_def
  by (auto split: prod.split option.split intro!: keeps_intros)

lemma keeps_scansysfs:
  "dl_dangling (snd (scansysfs env path level holder dl)) = dl_dangling dl"
  "dl_dangling (snd (sysfs_loop env path level holder names dl)) = dl_dangling dl"
proof (induction env path level holder dl and env path level holder names dl
    rule: scansysfs_sysfs_loop.induct)
  case (3 env path level holder name names dl)
  let ?np = "join path name"
  let ?link = "case se_lstat env ?np of None \<Rightarrow> False | Some sb \<Rightarrow> level \<and> sb_type sb = Symlink"
  show ?case
  proof (cases "hidden name \<or> ?link")
    case True
    then show ?thesis using "3.IH"(1) [OF refl refl True] by (simp only: sysfs_loop.simps(2) Let_def if_True)
  next
    case vis: False
    note ih = "3.IH"(2-4) [OF refl refl vis]
    obtain r0 d0 where e: "sysfs_entry env ?np holder dl = (r0, d0)" by force
    have d0: "dl_dangling d0 = dl_dangling dl" by (rule keepsD [OF keeps_entry e])
    have eq: "sysfs_loop env path level holder (name # names) dl =
        (case (r0, d0) of
           (Inl e, dl) \<Rightarrow> (Inl e, dl)
         | (Inr None, dl) \<Rightarrow> (Inr (- 2), dl)
         | (Inr (Some has_holder), dl) \<Rightarrow>
             (case (if \<not> (\<not> level \<and> is_dir (se_stat env ?np)) then (Inr 0, dl)
                    else if length ?np \<le> length path then (Inl C_UNDEFINED, dl)
                    else scansysfs env ?np True has_holder dl) of
                (Inl e, dl) \<Rightarrow> (Inl e, dl)
              | (Inr r, dl) \<Rightarrow>
                  if r < 0 then (Inr (- 1), dl)
                  else (case (if \<not> is_dir (se_lstat env ?np) then (Inr 0, dl)
                              else if length ?np \<le> length path then (Inl C_UNDEFINED, dl)
                              else scansysfs env ?np True has_holder dl) of
                      (Inl e, dl) \<Rightarrow> (Inl e, dl)
                    | (Inr r, dl) \<Rightarrow>
                        if r < 0 then (Inr (- 1), dl)
                        else sysfs_loop env path level holder names dl)))"
      using vis by (simp only: sysfs_loop.simps(2) Let_def e if_False)
    show ?thesis
    proof (cases "\<exists>h. r0 = Inr (Some h)")
      case False
      then show ?thesis unfolding eq using d0 by (auto split: sum.split option.split)
    next
      case True
      then obtain h where h: "r0 = Inr (Some h)" by blast
      let ?s1 = "if \<not> (\<not> level \<and> is_dir (se_stat env ?np)) then (Inr 0, d0)
        else if length ?np \<le> length path then (Inl C_UNDEFINED, d0) else scansysfs env ?np True h d0"
      obtain r1 d1 where s1: "?s1 = (r1, d1)" by force
      have d1: "dl_dangling d1 = dl_dangling d0"
        using s1 ih(1) [OF e [symmetric] h refl] by (metis snd_conv)
      let ?s2 = "if \<not> is_dir (se_lstat env ?np) then (Inr 0, d1)
        else if length ?np \<le> length path then (Inl C_UNDEFINED, d1) else scansysfs env ?np True h d1"
      obtain r2 d2 where s2: "?s2 = (r2, d2)" by force
      show ?thesis
      proof (cases r1)
        case (Inl x)
        then show ?thesis unfolding eq using h s1 d1 d0 by simp
      next
        case r1: (Inr x)
        show ?thesis
        proof (cases "x < 0")
          case True
          then show ?thesis unfolding eq using h s1 d1 d0 r1 by simp
        next
          case x: False
          have d2: "dl_dangling d2 = dl_dangling d1"
            using s2 ih(2) [OF e [symmetric] h refl s1 [symmetric] r1 x] by (metis snd_conv)
          have rest: "dl_dangling (snd (sysfs_loop env path level holder names d2)) = dl_dangling d2"
            if "r2 = Inr y" "\<not> y < 0" for y
            using ih(3) [OF e [symmetric] h refl s1 [symmetric] r1 x s2 [symmetric] that] .
          show ?thesis unfolding eq using h s1 s2 d2 d1 d0 r1 x rest
            by (cases r2) simp_all
        qed
      qed
    qed
  qed
qed (simp_all add: scansysfs.simps sysfs_loop.simps split: option.split)


lemma keeps_files [keeps_intros]:
  "keeps (scanprocpart env)" "keeps (scanmdstat env)" "keeps (scanmapper env)"
  "keeps (lsdev env path)" "keeps (scansysfs env path level holder)"
  using keeps_procpart keeps_mdstat keeps_mapper keeps_lsdev(1) keeps_scansysfs(1)
  by (auto simp: keeps_def scanprocpart_def scanmdstat_def scanmapper_def split: option.split)

text \<open>A step that either fails or leaves a dangling head, when it starts with one.\<close>

definition stays_lost :: "(devlisthead, devlisthead option) io \<Rightarrow> bool" where
  "stays_lost m \<longleftrightarrow> (\<forall>dl. dl_dangling dl \<longrightarrow>
     (case fst (m dl) of Inl e \<Rightarrow> True | Inr None \<Rightarrow> False | Inr (Some dl') \<Rightarrow> dl_dangling dl'))"

lemma lost_bind: "keeps m \<Longrightarrow> (\<And>x. stays_lost (f x)) \<Longrightarrow> stays_lost (bind_io m f)"
  unfolding stays_lost_def
proof (intro allI impI)
  fix dl :: devlisthead
  assume keeps: "keeps m" and d: "dl_dangling dl"
    and f: "\<And>x. \<forall>dl. dl_dangling dl \<longrightarrow>
      (case fst (f x dl) of Inl e \<Rightarrow> True | Inr None \<Rightarrow> False | Inr (Some dl') \<Rightarrow> dl_dangling dl')"
  obtain r d1 where m: "m dl = (r, d1)" by force
  have "dl_dangling d1" using keepsD [OF keeps m] d by simp
  then show "case fst (bind_io m f dl) of
      Inl e \<Rightarrow> True | Inr None \<Rightarrow> False | Inr (Some dl') \<Rightarrow> dl_dangling dl'"
    using f m by (cases r) (simp_all add: bind_io_def)
qed

lemma lost_emergencyout: "stays_lost emergencyout"
  by (simp add: stays_lost_def emergencyout_def flush_dev_cache_def bind_io_def live_nodes_def)

lemma lost_return: "stays_lost (\<lambda>dl. (Inr (Some dl), dl))"
  by (simp add: stays_lost_def)

lemma lost_if: "stays_lost m \<Longrightarrow> stays_lost n \<Longrightarrow> stays_lost (if b then m else n)"
  by simp

lemma keeps_set_result [keeps_intros]:
  "keeps (upd_io (\<lambda>dl. dl\<lparr>dl_timestamp := t\<rparr>))" "keeps (upd_io (\<lambda>dl. dl\<lparr>dl_sysfs := r\<rparr>))"
  "keeps (upd_io (\<lambda>dl. dl\<lparr>dl_procpart := r\<rparr>))" "keeps (upd_io (\<lambda>dl. dl\<lparr>dl_lsdev := r\<rparr>))"
  "keeps (upd_io (\<lambda>dl. dl\<lparr>dl_mdstat := r\<rparr>))" "keeps (upd_io (\<lambda>dl. dl\<lparr>dl_mapper := r\<rparr>))"
  by (simp_all add: keeps_def upd_io_def)

lemma scan_steps_lost: "stays_lost (scan_steps env)"
  unfolding scan_steps_def
  by (intro lost_bind lost_if lost_emergencyout lost_return keeps_intros)

section \<open>Properties\<close>

text \<open>
  C11. A successful scan of \<^verbatim>\<open>/dev\<close> adds exactly the block devices below it, with the links that
  lead to block devices, each under its numbers: a path is in the list with a pair of numbers
  if it was before or if it is such a file. Devices that have one node keep having one.
\<close>

theorem lsdev_finds_devices:
  assumes "lsdev env path dl = (Inr r, dl')" and "0 \<le> r" and "\<not> dl_dangling dl"
  shows "\<not> dl_dangling dl'
    \<and> (in_list (dl_nodes dl') p a b \<longleftrightarrow> in_list (dl_nodes dl) p a b \<or> dev_file env path p a b)
    \<and> (distinct (map majmin (dl_nodes dl)) \<longrightarrow> distinct (map majmin (dl_nodes dl')))"
  using lsdev_listed(1) [OF assms(1,3,2)] by (simp add: listed_def)

text \<open>A machine with a disk, a directory of links and a hidden file.\<close>

definition demo_stat :: "(string \<times> file_type \<times> int \<times> int) list \<Rightarrow> string \<Rightarrow> stat_buf option" where
  "demo_stat files p = map_option (\<lambda>(t, a, b). \<lparr> sb_type = t, sb_major = a, sb_minor = b \<rparr>) (map_of files p)"

definition demo_env :: scan_env where
  "demo_env =
     \<lparr> se_scandir = map_of [(''/dev'', [''.'', ''..'', ''disk'', ''sda'']), (''/dev/disk'', [''.'', ''..'', ''boot''])],
       se_lstat = demo_stat [(''/dev/disk'', Directory, 0, 0), (''/dev/sda'', Block_device, 8, 0),
         (''/dev/disk/boot'', Symlink, 0, 0)],
       se_stat = demo_stat [(''/dev/disk/boot'', Block_device, 8, 0)],
       se_file = (\<lambda>_. None), se_time = 100 \<rparr>"

theorem lsdev_finds_devices_witness:
  "in_list (dl_nodes (snd (lsdev demo_env ''/dev'' (new_head 5 [])))) ''/dev/disk/boot'' 8 0
    \<longleftrightarrow> dev_file demo_env ''/dev'' ''/dev/disk/boot'' 8 0"
proof -
  let ?dl = "new_head 5 []"
  have "fst (lsdev demo_env ''/dev'' ?dl) = Inr 1" by code_simp
  then obtain dl' where l: "lsdev demo_env ''/dev'' ?dl = (Inr 1, dl')"
    by (cases "lsdev demo_env ''/dev'' ?dl") simp
  have "\<not> dl_dangling ?dl" "\<not> in_list (dl_nodes ?dl) p a b" for p a b
    by (simp_all add: new_head_def in_list_def)
  then show ?thesis using lsdev_finds_devices [OF l] l by simp
qed

text \<open>
  C23. Scanning again with a list that has expired never gives a list that can be used: freeing
  its nodes leaves the pointers of the head, so that the scan follows them into freed
  memory, or returns a head that still has them. Expired means what the code tests, that the
  age of the list is not below its timeout: this includes every list with a timeout of zero or
  less and a time that has not gone back, although the comment above \<^verbatim>\<open>scan_for_dev\<close> says that such
  a list does not expire.
\<close>

theorem rescan_never_usable:
  assumes "dl_nodes dl \<noteq> []" and "\<not> dl_dangling dl"
    and "dl_timeout dl \<le> se_time env - dl_timestamp dl"
  shows "case scan_for_dev env heap (Some dl) timeout filt args of
      Inl e \<Rightarrow> True
    | Inr (None, args') \<Rightarrow> False
    | Inr (Some dl', args') \<Rightarrow> dl_dangling dl'"
proof -
  let ?dl = "dl\<lparr>dl_heap := heap\<rparr>" and ?lost = "dl\<lparr>dl_heap := heap, dl_nodes := [], dl_dangling := True\<rparr>"
  have flush: "flush_dev_cache ?dl = (Inr (), ?lost)"
    using assms(1,2) by (simp add: flush_dev_cache_def bind_io_def live_nodes_def)
  have "do_scan env ?dl = scan_steps env ?lost" using flush by (simp add: do_scan_def bind_io_def)
  moreover have "case fst (scan_steps env ?lost) of
      Inl e \<Rightarrow> True | Inr None \<Rightarrow> False | Inr (Some dl') \<Rightarrow> dl_dangling dl'"
    using scan_steps_lost [of env] by (simp add: stays_lost_def)
  ultimately show ?thesis using assms(3)
    by (auto simp: scan_for_dev_def Let_def split: sum.splits option.splits)
qed

theorem rescan_never_usable_witness:
  "case scan_for_dev demo_env [] (Some ((new_head 5 [])\<lparr>dl_nodes := [new_node 8 0]\<rparr>)) 5 None () of
      Inl e \<Rightarrow> True
    | Inr (None, args') \<Rightarrow> False
    | Inr (Some dl', args') \<Rightarrow> dl_dangling dl'"
  by (rule rescan_never_usable) (simp_all add: new_head_def demo_env_def signed_take_bit_def)

text \<open>
  A raid that is started read-only is shown in \<^verbatim>\<open>/proc/mdstat\<close> with the word
  \<^verbatim>\<open>(auto-read-only)\<close>, which does not fit the buffer of 16 characters that the word goes into.
\<close>

theorem mdstat_overrun:
  "fst (mdstat_line (''md127 : active (auto-read-only) raid1 sdb1[1] sda1[0]'' @ [CHR 0x0A]) dl)
    = Inl C_UNDEFINED
   \<and> fst (mdstat_line (''md127 : active raid1 sdb1[1] sda1[0]'' @ [CHR 0x0A]) (new_head 5 [])) = Inr ()"
proof
  have "scan_words 5 (''md127 : active (auto-read-only) raid1 sdb1[1] sda1[0]'' @ [CHR 0x0A])
      = [''md127'', '':'', ''active'', ''(auto-read-only)'', ''raid1'']" by code_simp
  then show "fst (mdstat_line (''md127 : active (auto-read-only) raid1 sdb1[1] sda1[0]'' @ [CHR 0x0A]) dl)
      = Inl C_UNDEFINED"
    by (simp add: mdstat_line_def words_fit_def)
qed code_simp

end
