(* ===== verification/Extents.thy ===== *)
theory Extents
  imports Filesys
begin

text \<open>
  The iterators over the extents and the blocks of an inode (\<^verbatim>\<open>libcmfs/extents.c\<close>). An
  extent list is given by the buffer it lies in and its offset \<open>b\<close> there; a pointer to
  a record is the offset of the record. A callback gets the buffer it may change and
  a state of its own, \<open>'p\<close>, which is the C code's \<^verbatim>\<open>priv_data\<close>. Each level of the tree has a
  buffer of its own, so that reading a lower level does not change an upper one.
\<close>

section \<open>Callbacks and context\<close>

abbreviation (input) CMFS_EXTENT_CHANGED :: u32 where "CMFS_EXTENT_CHANGED \<equiv> 0x01"
abbreviation (input) CMFS_EXTENT_ABORT :: u32 where "CMFS_EXTENT_ABORT \<equiv> 0x02"
abbreviation (input) CMFS_EXTENT_ERROR :: u32 where "CMFS_EXTENT_ERROR \<equiv> 0x04"

abbreviation (input) CMFS_EXTENT_FLAG_APPEND :: u32 where "CMFS_EXTENT_FLAG_APPEND \<equiv> 0x01"
abbreviation (input) CMFS_EXTENT_FLAG_DEPTH_TRAVERSE :: u32 where
  "CMFS_EXTENT_FLAG_DEPTH_TRAVERSE \<equiv> 0x02"
abbreviation (input) CMFS_EXTENT_FLAG_DATA_ONLY :: u32 where "CMFS_EXTENT_FLAG_DATA_ONLY \<equiv> 0x04"

abbreviation (input) CMFS_BLOCK_ABORT :: u32 where "CMFS_BLOCK_ABORT \<equiv> 0x02"
abbreviation (input) CMFS_BLOCK_FLAG_APPEND :: u32 where "CMFS_BLOCK_FLAG_APPEND \<equiv> 0x01"

type_synonym 'p cb_state = "cmfs_filesys \<times> 'p"

text \<open>Buffer, offset of the record, tree depth, \<open>ccount\<close>, \<open>ref_blkno\<close> and \<open>ref_recno\<close>.\<close>

type_synonym 'p extent_func =
  "bytes \<Rightarrow> nat \<Rightarrow> nat \<Rightarrow> u32 \<Rightarrow> u64 \<Rightarrow> nat \<Rightarrow> ('p cb_state, u32 \<times> bytes) io"

text \<open>
  In \<open>ec_errcode\<close>, \<open>None\<close> is the value before the first assignment and \<open>Some None\<close> is 0.
\<close>

record 'p extent_context =
  ec_fs :: cmfs_filesys
  ec_priv :: 'p
  ec_ccount :: u32
  ec_errcode :: "errcode option option"
  ec_last_eb_blkno :: u64
  ec_last_eb_cpos :: u64

definition on_ec_fs :: "(cmfs_filesys, 'a) io \<Rightarrow> ('p extent_context, errcode + 'a) io" where
  "on_ec_fs m c = (case m (ec_fs c) of
     (Inl C_UNDEFINED, fs) \<Rightarrow> (Inl C_UNDEFINED, c\<lparr>ec_fs := fs\<rparr>)
   | (r, fs) \<Rightarrow> (Inr r, c\<lparr>ec_fs := fs\<rparr>))"

definition on_callback :: "('p cb_state, 'a) io \<Rightarrow> ('p extent_context, 'a) io" where
  "on_callback m c = (case m (ec_fs c, ec_priv c) of
     (r, (fs, p)) \<Rightarrow> (r, c\<lparr>ec_fs := fs, ec_priv := p\<rparr>))"

section \<open>Iterating over the records of a list\<close>

definition update_leaf_rec :: "cmfs_extent_rec \<Rightarrow> cmfs_extent_rec \<Rightarrow> u32" where
  "update_leaf_rec rec0 current = 0"

definition update_eb_rec :: "cmfs_extent_rec \<Rightarrow> cmfs_extent_rec \<Rightarrow> u32" where
  "update_eb_rec rec0 current = 0"

abbreviation (input) rec_off :: "nat \<Rightarrow> nat \<Rightarrow> nat" where
  "rec_off b i \<equiv> b + o_l_recs + 32 * i"

text \<open>
  One round of the loop: what is done with record \<open>i\<close> of the list at \<open>b\<close>. \<open>visit_eb\<close> is the
  iteration over the extent block below a record.
\<close>

definition iterate_rec ::
  "'p extent_func \<Rightarrow>
   (bytes \<Rightarrow> nat \<Rightarrow> u64 \<Rightarrow> nat \<Rightarrow> ('p extent_context, u32 \<times> bytes) io) \<Rightarrow>
   nat \<Rightarrow> u64 \<Rightarrow> u32 \<Rightarrow> bytes \<Rightarrow> nat \<Rightarrow> ('p extent_context, u32 \<times> bytes) io" where
  "iterate_rec func visit_eb b ref_blkno iret buf i c =
     (let le = cpu_le (ec_fs c);
          depth = ld16 le buf (b + o_l_tree_depth);
          rec0 = el_rec le buf b i
      in if rec_off b i + 32 > length buf then (Inl C_UNDEFINED, c)
         else if depth \<noteq> 0 then
           bind_io (visit_eb buf (rec_off b i) ref_blkno i) (\<lambda>(flags, buf) c.
             let le = cpu_le (ec_fs c);
                 iret = iret OR flags;
                 rec = el_rec le buf b i;
                 iret = (if iret AND CMFS_EXTENT_CHANGED \<noteq> 0 then iret OR update_eb_rec rec0 rec
                         else iret);
                 c = (if e_int_blocks rec \<noteq> 0 \<and> e_cpos rec \<ge> ec_last_eb_cpos c
                      then let c = (if ld16 le buf (b + o_l_tree_depth) = 1
                                    then c\<lparr>ec_last_eb_blkno := e_blkno rec\<rparr> else c)
                           in c\<lparr>ec_last_eb_cpos := e_cpos rec\<rparr>
                      else c)
             in (Inr (iret, buf), c)) c
         else if i = 0 \<and> e_leaf_blocks rec0 = 0 then (Inr (iret, buf), c)
         else
           bind_io (on_callback (func buf (rec_off b i) (unat depth) (ec_ccount c) ref_blkno i))
             (\<lambda>(flags, buf) c.
               let le = cpu_le (ec_fs c);
                   iret = iret OR flags;
                   rec = el_rec le buf b i;
                   iret = (if iret AND CMFS_EXTENT_CHANGED \<noteq> 0 then iret OR update_leaf_rec rec0 rec
                           else iret);
                   depth = ld16 le buf (b + o_l_tree_depth)
               in (Inr (iret, buf),
                   c\<lparr>ec_ccount := ec_ccount c + ucast (cmfs_rec_clusters (ec_fs c) depth rec)\<rparr>)) c)"

text \<open>The skipped empty first record goes on without testing \<open>iret\<close>, which is still 0 then.\<close>

function iterate_recs ::
  "(u32 \<Rightarrow> bytes \<Rightarrow> nat \<Rightarrow> ('p extent_context, u32 \<times> bytes) io) \<Rightarrow>
   nat \<Rightarrow> u32 \<Rightarrow> bytes \<Rightarrow> nat \<Rightarrow> ('p extent_context, u32 \<times> bytes) io" where
  "iterate_recs step b iret buf i c =
     (if i < unat (ld16 (cpu_le (ec_fs c)) buf (b + o_l_next_free_rec)) then
        (case step iret buf i c of
           (Inl e, c) \<Rightarrow> (Inl e, c)
         | (Inr (iret, buf), c) \<Rightarrow>
             if iret AND (CMFS_EXTENT_ABORT OR CMFS_EXTENT_ERROR) \<noteq> 0 then (Inr (iret, buf), c)
             else iterate_recs step b iret buf (i + 1) c)
      else (Inr (iret, buf), c))"
  by pat_completeness auto
termination
proof (relation "measure (\<lambda>(step, b, iret, buf, i, c). 65536 - i)", goal_cases)
  case (2 step b iret buf i c)
  then have "i < 65536" by (blast intro: order_less_trans unat_u16_less)
  then show ?case by simp
qed simp

declare iterate_recs.simps [simp del]

text \<open>After a change the list ends at its first record without clusters, if there is one.\<close>

fun first_empty_rec :: "cmfs_filesys \<Rightarrow> bytes \<Rightarrow> nat \<Rightarrow> nat \<Rightarrow> nat \<Rightarrow> nat option" where
  "first_empty_rec fs buf b i 0 = None"
| "first_empty_rec fs buf b i (Suc k) =
     (if cmfs_rec_clusters fs (ld16 (cpu_le fs) buf (b + o_l_tree_depth)) (el_rec (cpu_le fs) buf b i) \<noteq> 0
      then first_empty_rec fs buf b (i + 1) k
      else Some i)"

definition trim_recs :: "cmfs_filesys \<Rightarrow> nat \<Rightarrow> u32 \<Rightarrow> bytes \<Rightarrow> bytes" where
  "trim_recs fs b iret buf =
     (if iret AND CMFS_EXTENT_CHANGED \<noteq> 0 then
        (case first_empty_rec fs buf b 0 (unat (ld16 (cpu_le fs) buf (b + o_l_count))) of
           None \<Rightarrow> buf
         | Some i \<Rightarrow> st16 (cpu_le fs) (b + o_l_next_free_rec) (of_nat i) buf)
      else buf)"

section \<open>Iterating over the tree\<close>

text \<open>
  The extent block that a record refers to; \<open>iterate_el\<close> is the iteration over its list.
  The check of the tree depth makes the recursion go down one level each time.
\<close>

definition extent_iterate_eb_with ::
  "(bytes \<Rightarrow> nat \<Rightarrow> u64 \<Rightarrow> ('p extent_context, u32 \<times> bytes) io) \<Rightarrow> nat \<Rightarrow>
   'p extent_func \<Rightarrow> u32 \<Rightarrow> bytes \<Rightarrow> nat \<Rightarrow> u64 \<Rightarrow> nat \<Rightarrow> ('p extent_context, u32 \<times> bytes) io" where
  "extent_iterate_eb_with iterate_el tree_depth func flags buf r ref_blkno ref_recno c =
     (let call = (\<lambda>buf c. on_callback (func buf r (tree_depth + 1) (ec_ccount c) ref_blkno ref_recno) c);
          fail = (\<lambda>e iret buf c.
                   (Inr (iret OR CMFS_EXTENT_ERROR, buf), c\<lparr>ec_errcode := Some (Some e)\<rparr>))
      in bind_io
        (if flags AND CMFS_EXTENT_FLAG_DEPTH_TRAVERSE = 0 \<and> flags AND CMFS_EXTENT_FLAG_DATA_ONLY = 0
         then call buf else ret_io (0, buf)) (\<lambda>(iret, buf) c.
        let blkno = ld64 (cpu_le (ec_fs c)) buf (r + o_e_blkno)
        in if blkno = 0 \<or> iret AND CMFS_EXTENT_ABORT \<noteq> 0 then (Inr (iret, buf), c)
        else if \<not> blkno_ok (ec_fs c) blkno then fail CMFS_ET_BAD_BLKNO iret buf c
        else bind_io (on_ec_fs (cmfs_read_extent_block blkno)) (\<lambda>rd c.
          case rd of
            Inl e \<Rightarrow> fail e iret buf c
          | Inr eb \<Rightarrow>
              let le = cpu_le (ec_fs c);
                  c = c\<lparr>ec_errcode := Some None\<rparr>
              in if unat (ld16 le eb (o_h_list + o_l_tree_depth)) \<noteq> tree_depth
                    \<or> ld64 le eb o_h_blkno \<noteq> blkno
                 then fail CMFS_ET_CORRUPT_EXTENT_BLOCK iret buf c
                 else bind_io (iterate_el eb o_h_list blkno) (\<lambda>(changed, eb) c.
                   let iret = iret OR (changed AND (CMFS_EXTENT_ABORT OR CMFS_EXTENT_ERROR))
                   in bind_io
                     (if changed AND CMFS_EXTENT_CHANGED \<noteq> 0
                      then on_ec_fs (cmfs_write_extent_block blkno eb)
                      else ret_io (Inr ())) (\<lambda>wr c.
                     case wr of
                       Inl e \<Rightarrow> fail e iret buf c
                     | Inr _ \<Rightarrow>
                         let c = (if changed AND CMFS_EXTENT_CHANGED \<noteq> 0
                                  then c\<lparr>ec_errcode := Some None\<rparr> else c)
                         in if flags AND CMFS_EXTENT_FLAG_DEPTH_TRAVERSE \<noteq> 0
                               \<and> flags AND CMFS_EXTENT_FLAG_DATA_ONLY = 0
                               \<and> iret AND (CMFS_EXTENT_ABORT OR CMFS_EXTENT_ERROR) = 0
                            then call buf c
                            else (Inr (iret, buf), c)) c) c) c) c)"

primrec extent_iterate_el ::
  "nat \<Rightarrow> 'p extent_func \<Rightarrow> u32 \<Rightarrow> bytes \<Rightarrow> nat \<Rightarrow> u64 \<Rightarrow> ('p extent_context, u32 \<times> bytes) io" where
  "extent_iterate_el 0 func flags buf b ref_blkno =
     bind_io (iterate_recs (iterate_rec func (\<lambda>_ _ _ _. err_io C_UNDEFINED) b ref_blkno) b 0 buf 0)
       (\<lambda>(iret, buf) c. (Inr (iret, trim_recs (ec_fs c) b iret buf), c))"
| "extent_iterate_el (Suc d) func flags buf b ref_blkno =
     bind_io (iterate_recs (iterate_rec func
                (extent_iterate_eb_with (extent_iterate_el d func flags) d func flags) b ref_blkno) b 0 buf 0)
       (\<lambda>(iret, buf) c. (Inr (iret, trim_recs (ec_fs c) b iret buf), c))"

definition extent_iterate_eb ::
  "nat \<Rightarrow> 'p extent_func \<Rightarrow> u32 \<Rightarrow> bytes \<Rightarrow> nat \<Rightarrow> u64 \<Rightarrow> nat \<Rightarrow> ('p extent_context, u32 \<times> bytes) io" where
  "extent_iterate_eb ref_tree_depth func flags =
     extent_iterate_eb_with (extent_iterate_el (ref_tree_depth - 1) func flags) (ref_tree_depth - 1)
       func flags"

section \<open>Iterating over an inode\<close>

text \<open>An operation on the file system for a callback's state.\<close>

definition on_cb_fs :: "(cmfs_filesys, 'a) io \<Rightarrow> ('p cb_state, 'a) io" where
  "on_cb_fs m s = (case m (fst s) of (r, fs) \<Rightarrow> (r, (fs, snd s)))"

text \<open>
  The inode is the content of its block, converted; the result is the inode the
  caller is left with. \<open>has_buf\<close> says whether the caller passes a block buffer. An error
  bit that a callback sets while \<^verbatim>\<open>errcode\<close> is unassigned makes the code return an
  uninitialised value.
\<close>

definition cmfs_extent_iterate_inode ::
  "bytes \<Rightarrow> u32 \<Rightarrow> bool \<Rightarrow> 'p extent_func \<Rightarrow> ('p cb_state, bytes) io" where
  "cmfs_extent_iterate_inode inode flags has_buf func =
     bind_io (get_io (\<lambda>(fs, p). dinode_of (cpu_le fs) inode 0)) (\<lambda>di.
     bind_io (get_io (\<lambda>(fs, p). unat (ld16 (cpu_le fs) inode (o_id2 + o_l_tree_depth)))) (\<lambda>depth.
     bind_io (guard_io (i_flags di AND CMFS_VALID_FL \<noteq> 0) CMFS_ET_INODE_NOT_VALID) (\<lambda>_.
     bind_io (guard_io (i_flags di AND (CMFS_SUPER_BLOCK_FL OR CMFS_LOCAL_ALLOC_FL OR CMFS_CHAIN_FL) = 0)
                CMFS_ET_INODE_CANNOT_BE_ITERATED) (\<lambda>_.
     bind_io (guard_io (i_dyn_features di AND CMFS_INLINE_DATA_FL = 0)
                CMFS_ET_INODE_CANNOT_BE_ITERATED) (\<lambda>_.
     bind_io (if depth \<noteq> 0
              then bind_io (on_cb_fs malloc_block) (\<lambda>_.
                   if has_buf then ret_io () else on_cb_fs malloc_block)
              else ret_io ()) (\<lambda>_ s.
       let c = \<lparr> ec_fs = fst s, ec_priv = snd s, ec_ccount = 0, ec_errcode = None,
                 ec_last_eb_blkno = 0, ec_last_eb_cpos = 0 \<rparr>
       in case extent_iterate_el depth func flags inode o_id2 0 c of
         (Inl e, c) \<Rightarrow> (Inl e, (ec_fs c, ec_priv c))
       | (Inr (iret, inode), c) \<Rightarrow>
           let s = (ec_fs c, ec_priv c);
               ret = (if iret AND CMFS_EXTENT_ERROR \<noteq> 0
                      then (case ec_errcode c of None \<Rightarrow> Some C_UNDEFINED | Some r \<Rightarrow> r)
                      else None);
               le = cpu_le (ec_fs c);
               (iret, inode) =
                 (if iret AND CMFS_EXTENT_ABORT = 0
                     \<and> ld64 le inode o_i_last_eb_blk \<noteq> ec_last_eb_blkno c
                  then (iret OR CMFS_EXTENT_CHANGED,
                        st64 le o_i_last_eb_blk (ec_last_eb_blkno c) inode)
                  else (iret, inode))
           in case ret of
                Some e \<Rightarrow> (Inl e, s)
              | None \<Rightarrow>
                  if iret AND CMFS_EXTENT_CHANGED \<noteq> 0
                  then bind_io (on_cb_fs (cmfs_write_inode (ld64 le inode o_i_blkno) inode))
                         (\<lambda>_. ret_io inode) s
                  else (Inr inode, s)))))))"

section \<open>Iterating over the blocks\<close>

type_synonym 'p block_func = "u64 \<Rightarrow> u64 \<Rightarrow> u16 \<Rightarrow> ('p cb_state, u32) io"

text \<open>The loop over the blocks of a record; \<open>i_size\<close> is the inode's.\<close>

function iterate_blocks ::
  "'p block_func \<Rightarrow> u32 \<Rightarrow> u64 \<Rightarrow> u16 \<Rightarrow> u32 \<Rightarrow> u64 \<Rightarrow> u64 \<Rightarrow> u64 \<Rightarrow> ('p cb_state, u32) io" where
  "iterate_blocks func flags isize ext_flags iret blkno bcount bend s =
     (if bcount < bend then
        if bcount * ucast (fs_blocksize (fst s)) \<ge> isize \<and> flags AND CMFS_BLOCK_FLAG_APPEND = 0
        then (Inr iret, s)
        else
          (case func blkno bcount ext_flags s of
             (Inl e, s) \<Rightarrow> (Inl e, s)
           | (Inr iret, s) \<Rightarrow>
               if iret AND CMFS_BLOCK_ABORT \<noteq> 0 then (Inr iret, s)
               else iterate_blocks func flags isize ext_flags iret (blkno + 1) (bcount + 1) bend s)
      else (Inr iret, s))"
  by pat_completeness auto
termination
proof (relation "measure (\<lambda>(func, flags, isize, ef, iret, blkno, bcount, bend, s). unat (bend - bcount))", goal_cases)
  case 1
  then show ?case by simp
next
  case (2 func flags isize ef iret blkno bcount bend s x s1 iret1)
  have "bend - bcount \<noteq> 0" using 2(1) by auto
  then have "unat (bend - bcount - 1) < unat (bend - bcount)" by (rule measure_unat)
  then show ?case by (simp add: algebra_simps)
qed

declare iterate_blocks.simps [simp del]

definition block_iterate_func ::
  "bytes \<Rightarrow> u32 \<Rightarrow> 'p block_func \<Rightarrow> 'p extent_func" where
  "block_iterate_func inode flags func buf r tree_depth ccount ref_blkno ref_recno s =
     (let fs = fst s;
          rec = extent_rec_of (cpu_le fs) buf r;
          bcount = cmfs_clusters_to_blocks fs (ucast (e_cpos rec));
          bend = bcount + cmfs_clusters_to_blocks fs
                   (ucast (cmfs_rec_clusters fs (of_nat tree_depth) rec))
      in bind_io (iterate_blocks func flags (ld64 (cpu_le fs) inode o_i_size)
                    (ucast (e_flags rec)) 0 (e_blkno rec) bcount bend)
           (\<lambda>iret. ret_io (iret, buf)) s)"

definition cmfs_block_iterate_inode ::
  "bytes \<Rightarrow> u32 \<Rightarrow> 'p block_func \<Rightarrow> ('p cb_state, bytes) io" where
  "cmfs_block_iterate_inode inode flags func =
     cmfs_extent_iterate_inode inode CMFS_EXTENT_FLAG_DATA_ONLY False
       (block_iterate_func inode flags func)"

definition cmfs_block_iterate :: "u64 \<Rightarrow> u32 \<Rightarrow> 'p block_func \<Rightarrow> ('p cb_state, unit) io" where
  "cmfs_block_iterate blkno flags func =
     bind_io (on_cb_fs malloc_block) (\<lambda>_.
     bind_io (on_cb_fs (cmfs_read_inode blkno)) (\<lambda>inode.
     bind_io (cmfs_block_iterate_inode inode flags func) (\<lambda>_. ret_io ())))"

end
