(* ===== verification/Directory.thy ===== *)
theory Directory
  imports Extents
begin

text \<open>
  Walking the entries of a directory (\<^verbatim>\<open>libcmfs/dir_iterate.c\<close>) and looking up a name
  (\<^verbatim>\<open>libcmfs/lookup.c\<close>). A directory entry is the offset of its first byte in the
  directory block; the callback gets the block and returns it, perhaps changed, and
  may read from the file system and has a state of its own, \<open>'q\<close>. An entry whose header reaches past the block is
  \<open>C_UNDEFINED\<close>.
\<close>

abbreviation (input) CMFS_DIRENT_CHANGED :: u32 where "CMFS_DIRENT_CHANGED \<equiv> 0x01"
abbreviation (input) CMFS_DIRENT_ABORT :: u32 where "CMFS_DIRENT_ABORT \<equiv> 0x02"

abbreviation (input) CMFS_DIRENT_FLAG_INCLUDE_EMPTY :: u32 where
  "CMFS_DIRENT_FLAG_INCLUDE_EMPTY \<equiv> 0x01"
abbreviation (input) CMFS_DIRENT_FLAG_INCLUDE_REMOVED :: u32 where
  "CMFS_DIRENT_FLAG_INCLUDE_REMOVED \<equiv> 0x02"
abbreviation (input) CMFS_DIRENT_FLAG_EXCLUDE_DOTS :: u32 where
  "CMFS_DIRENT_FLAG_EXCLUDE_DOTS \<equiv> 0x04"

abbreviation (input) CMFS_DIRENT_DOT_FILE :: nat where "CMFS_DIRENT_DOT_FILE \<equiv> 1"
abbreviation (input) CMFS_DIRENT_OTHER_FILE :: nat where "CMFS_DIRENT_OTHER_FILE \<equiv> 3"
abbreviation (input) CMFS_DIRENT_DELETED_FILE :: nat where "CMFS_DIRENT_DELETED_FILE \<equiv> 4"

abbreviation (input) de_rec_len :: "bool \<Rightarrow> bytes \<Rightarrow> nat \<Rightarrow> nat" where
  "de_rec_len le buf o1 \<equiv> unat (ld16 le buf (o1 + o_d_rec_len))"
abbreviation (input) de_name_len :: "bytes \<Rightarrow> nat \<Rightarrow> nat" where
  "de_name_len buf o1 \<equiv> unat (ld8 buf (o1 + o_d_name_len))"

section \<open>Entries of a block\<close>

text \<open>The three tests on an entry that \<^verbatim>\<open>cmfs_validate_entry\<close> and the walk share.\<close>

definition rec_len_ok :: "bool \<Rightarrow> bytes \<Rightarrow> nat \<Rightarrow> bool" where
  "rec_len_ok le buf o1 \<longleftrightarrow>
     \<not> (de_rec_len le buf o1 < 8 \<or> de_rec_len le buf o1 mod 4 \<noteq> 0
        \<or> de_name_len buf o1 + 8 > de_rec_len le buf o1)"

text \<open>
  \<open>None\<close> is an access past the block.
\<close>

function cmfs_validate_entry :: "bool \<Rightarrow> bytes \<Rightarrow> nat \<Rightarrow> nat \<Rightarrow> bool option" where
  "cmfs_validate_entry le buf o1 final_offset =
     (if o1 < final_offset then
        if o1 + DIRENT_HEADER_SIZE > length buf then None
        else if \<not> rec_len_ok le buf o1 then Some False
        else cmfs_validate_entry le buf (o1 + de_rec_len le buf o1) final_offset
      else Some (o1 = final_offset))"
  by pat_completeness auto
termination
  by (relation "measure (\<lambda>(le, buf, o1, f). f - o1)") (auto simp: rec_len_ok_def)

declare cmfs_validate_entry.simps [simp del]

text \<open>The first offset from which the rest of a deleted entry looks valid.\<close>

function skip_deleted :: "bool \<Rightarrow> bytes \<Rightarrow> nat \<Rightarrow> nat \<Rightarrow> nat option" where
  "skip_deleted le buf o1 final_offset =
     (if o1 < final_offset then
        (case cmfs_validate_entry le buf o1 final_offset of
           None \<Rightarrow> None
         | Some valid \<Rightarrow> if valid then Some o1 else skip_deleted le buf (o1 + 4) final_offset)
      else Some o1)"
  by pat_completeness auto
termination
  by (relation "measure (\<lambda>(le, buf, o1, f). f - o1)") auto

declare skip_deleted.simps [simp del]

lemma skip_deleted_ge: "skip_deleted le buf o1 f = Some o2 \<Longrightarrow> o1 \<le> o2"
proof (induction le buf o1 f arbitrary: o2 rule: skip_deleted.induct)
  case (1 le buf o1 f)
  from "1.prems" show ?case
    unfolding skip_deleted.simps [of le buf o1 f]
    by (auto split: if_splits option.splits dest!: "1.IH")
qed

text \<open>
  The callback gets the kind of the entry, the block, the entry's offset and the block
  number.
\<close>

type_synonym 'q dirent_func = "nat \<Rightarrow> bytes \<Rightarrow> nat \<Rightarrow> u64 \<Rightarrow> 'q \<Rightarrow> u32 \<times> bytes \<times> 'q"

record walk =
  w_offset :: nat
  w_entry :: nat
  w_next_real_entry :: nat
  w_changed :: bool
  w_abort :: bool

datatype walk_end = Done | Corrupted | Outside

text \<open>
  The call of the callback for the entry at the offset of \<open>w\<close>, unless the flags exclude it.
\<close>

definition visit_entry ::
  "bool \<Rightarrow> u32 \<Rightarrow> 'q dirent_func \<Rightarrow> u64 \<Rightarrow> walk \<Rightarrow> bytes \<Rightarrow> 'q \<Rightarrow> walk \<times> bytes \<times> 'q" where
  "visit_entry le flags func blocknr w buf q =
     (let o1 = w_offset w in
      if ld64 le buf (o1 + o_d_inode) = 0 \<and> flags AND CMFS_DIRENT_FLAG_INCLUDE_EMPTY = 0
      then (w, buf, q)
      else if flags AND CMFS_DIRENT_FLAG_EXCLUDE_DOTS \<noteq> 0
              \<and> is_dots (drop (o1 + o_d_name) buf) (de_name_len buf o1)
      then (w, buf, q)
      else
        let (ret, buf, q) =
              func (if w_next_real_entry w > o1 then CMFS_DIRENT_DELETED_FILE else w_entry w)
                buf o1 blocknr q
        in (w\<lparr>w_entry := (if w_entry w < CMFS_DIRENT_OTHER_FILE then w_entry w + 1 else w_entry w),
              w_changed := w_changed w \<or> ret AND CMFS_DIRENT_CHANGED \<noteq> 0,
              w_abort := ret AND CMFS_DIRENT_ABORT \<noteq> 0\<rparr>, buf, q))"

text \<open>The step to the next entry, after the callback may have changed the block.\<close>

definition next_entry :: "bool \<Rightarrow> u32 \<Rightarrow> bytes \<Rightarrow> walk \<Rightarrow> walk option" where
  "next_entry le flags buf w =
     (let o1 = w_offset w;
          rl = de_rec_len le buf o1;
          w = (if w_next_real_entry w = o1 then w\<lparr>w_next_real_entry := o1 + rl\<rparr> else w);
          sz = (de_name_len buf o1 + 11) div 4 * 4
      in if flags AND CMFS_DIRENT_FLAG_INCLUDE_REMOVED \<noteq> 0 \<and> rl \<noteq> sz
         then map_option (\<lambda>o2. w\<lparr>w_offset := o2\<rparr>) (skip_deleted le buf (o1 + sz) (o1 + rl))
         else Some (w\<lparr>w_offset := o1 + rl\<rparr>))"

text \<open>
  A callback that sets the length of its entry to 0 makes the walk come back to it,
  where the test of the length ends the walk.
\<close>

function process_entries ::
  "bool \<Rightarrow> nat \<Rightarrow> u32 \<Rightarrow> 'q dirent_func \<Rightarrow> u64 \<Rightarrow> walk \<Rightarrow> bytes \<Rightarrow> 'q \<Rightarrow> walk_end \<times> walk \<times> bytes \<times> 'q" where
  "process_entries le blocksize flags func blocknr w buf q =
     (let o1 = w_offset w in
      if o1 < blocksize then
        if o1 + DIRENT_HEADER_SIZE > length buf then (Outside, w, buf, q)
        else if o1 + de_rec_len le buf o1 > blocksize \<or> \<not> rec_len_ok le buf o1
        then (Corrupted, w, buf, q)
        else
          (case visit_entry le flags func blocknr w buf q of
             (w1, buf1, q1) \<Rightarrow>
               if w_abort w1 then (Done, w1, buf1, q1)
               else case next_entry le flags buf1 w1 of
                 None \<Rightarrow> (Outside, w1, buf1, q1)
               | Some w2 \<Rightarrow> process_entries le blocksize flags func blocknr w2 buf1 q1)
      else (Done, w, buf, q))"
  by pat_completeness auto
termination
proof (relation "measures [\<lambda>(le, bs, flags, func, blocknr, w, buf, q). bs - w_offset w,
    \<lambda>(le, bs, flags, func, blocknr, w, buf, q). de_rec_len le buf (w_offset w)]", goal_cases)
  case 1
  then show ?case by simp
next
  case (2 le blocksize flags func blocknr w buf q o1 w1 y buf1 q1 w2)
  note o1 = 2(1) and lt = 2(2) and ok = 2(4)
  have w1: "w_offset w1 = w_offset w"
    using 2(5-) by (auto simp: visit_entry_def Let_def split: if_splits prod.splits)
  have sz: "(de_name_len buf1 (w_offset w) + 11) div 4 * 4 \<ge> 8"
    by (simp add: le_div_geq)
  have rl: "de_rec_len le buf (w_offset w) \<ge> 8" using ok o1 by (auto simp: rec_len_ok_def)
  show ?case
  proof (cases "flags AND CMFS_DIRENT_FLAG_INCLUDE_REMOVED \<noteq> 0
      \<and> de_rec_len le buf1 (w_offset w) \<noteq> (de_name_len buf1 (w_offset w) + 11) div 4 * 4")
    case True
    then obtain o2 where "skip_deleted le buf1
        (w_offset w + (de_name_len buf1 (w_offset w) + 11) div 4 * 4)
        (w_offset w + de_rec_len le buf1 (w_offset w)) = Some o2" and "w_offset w2 = o2"
      using 2 w1 by (auto simp: next_entry_def Let_def split: if_splits)
    then have "w_offset w + 8 \<le> w_offset w2" using skip_deleted_ge sz by fastforce
    then have "blocksize - w_offset w2 < blocksize - w_offset w" using o1 lt by linarith
    then show ?thesis by simp
  next
    case False
    then have w2: "w_offset w2 = w_offset w + de_rec_len le buf1 (w_offset w)"
      using 2 w1 by (auto simp: next_entry_def Let_def split: if_splits)
    show ?thesis
    proof (cases "de_rec_len le buf1 (w_offset w) = 0")
      case True
      then show ?thesis using w2 rl by simp
    next
      case False
      then have "blocksize - w_offset w2 < blocksize - w_offset w" using w2 o1 lt by linarith
      then show ?thesis by simp
    qed
  qed
qed

declare process_entries.simps [simp del]

section \<open>Blocks of a directory\<close>

record 'q dir_state =
  ds_buf :: bytes
  ds_errcode :: "errcode option"
  ds_priv :: 'q

type_synonym 'q dir_cb = "'q dir_state cb_state"

definition cmfs_process_dir_entry ::
  "u32 \<Rightarrow> 'q cb_state dirent_func \<Rightarrow> u64 \<Rightarrow> nat \<Rightarrow> nat \<Rightarrow> ('q dir_cb, u32 \<times> bool \<times> bool) io" where
  "cmfs_process_dir_entry flags func blocknr o1 entry s =
     (let (fs, ds) = s;
          w = \<lparr> w_offset = o1, w_entry = entry, w_next_real_entry = 0, w_changed = False, w_abort = False \<rparr>
      in case process_entries (cpu_le fs) (bsize fs) flags func blocknr w (ds_buf ds) (fs, ds_priv ds) of
        (res, w, buf, fs, q) \<Rightarrow>
          let ds = ds\<lparr>ds_buf := buf, ds_priv := q\<rparr>
          in case res of
               Done \<Rightarrow> (Inr (0, w_changed w, w_abort w), (fs, ds))
             | Corrupted \<Rightarrow> (Inr (CMFS_BLOCK_ABORT, w_changed w, w_abort w),
                             (fs, ds\<lparr>ds_errcode := Some CMFS_ET_DIR_CORRUPTED\<rparr>))
             | Outside \<Rightarrow> (Inl C_UNDEFINED, (fs, ds)))"

definition set_errcode :: "errcode + 'a \<Rightarrow> 'q dir_state \<Rightarrow> 'q dir_state" where
  "set_errcode r ds = ds\<lparr>ds_errcode := (case r of Inl e \<Rightarrow> Some e | Inr _ \<Rightarrow> None)\<rparr>"

text \<open>An operation whose error code goes to \<open>ds_errcode\<close> and aborts the iteration.\<close>

definition or_abort ::
  "(cmfs_filesys, 'a) io \<Rightarrow> ('a \<Rightarrow> ('q dir_cb, u32) io) \<Rightarrow> ('q dir_cb, u32) io" where
  "or_abort m f s =
     (case m (fst s) of (r, fs) \<Rightarrow>
        let s' = (fs, set_errcode r (snd s))
        in case r of
             Inl C_UNDEFINED \<Rightarrow> (Inl C_UNDEFINED, s')
           | Inl e \<Rightarrow> (Inr CMFS_BLOCK_ABORT, s')
           | Inr x \<Rightarrow> f x s')"

definition cmfs_process_dir_block :: "u32 \<Rightarrow> 'q cb_state dirent_func \<Rightarrow> 'q dir_state block_func" where
  "cmfs_process_dir_block flags func blocknr blockcnt ext_flags =
     (let entry = (if blockcnt \<noteq> 0 then CMFS_DIRENT_OTHER_FILE else CMFS_DIRENT_DOT_FILE) in
      or_abort (cmfs_read_dir_block blocknr) (\<lambda>buf.
      bind_io (upd_io (\<lambda>(fs, ds). (fs, ds\<lparr>ds_buf := buf\<rparr>))) (\<lambda>_.
      bind_io (cmfs_process_dir_entry flags func blocknr 0 entry) (\<lambda>(ret, changed, do_abort) s.
        if ret \<noteq> 0 then (Inr ret, s)
        else if changed
        then or_abort (cmfs_write_dir_block blocknr (ds_buf (snd s)))
               (\<lambda>_. ret_io (if do_abort then CMFS_BLOCK_ABORT else 0)) s
        else (Inr (if do_abort then CMFS_BLOCK_ABORT else 0), s)))))"

text \<open>
  \<open>has_buf\<close> says whether the caller passes a block buffer; its content does not matter,
  as every block is read into it before it is looked at.
\<close>

definition cmfs_dir_iterate2 ::
  "u64 \<Rightarrow> u32 \<Rightarrow> bool \<Rightarrow> 'q cb_state dirent_func \<Rightarrow> ('q cb_state, unit) io" where
  "cmfs_dir_iterate2 dir flags has_buf func =
     bind_io (on_cb_fs (cmfs_check_directory dir)) (\<lambda>_.
     bind_io (if has_buf then ret_io () else on_cb_fs malloc_block) (\<lambda>_.
     bind_io (on_cb_fs malloc_block) (\<lambda>_.
     bind_io (on_cb_fs (cmfs_read_inode dir)) (\<lambda>di s.
       case cmfs_block_iterate dir 0 (cmfs_process_dir_block flags func)
              (fst s, \<lparr> ds_buf = di, ds_errcode = None, ds_priv = snd s \<rparr>) of
         (r, (fs, ds)) \<Rightarrow>
           ((case r of
               Inl e \<Rightarrow> Inl e
             | Inr _ \<Rightarrow> (case ds_errcode ds of None \<Rightarrow> Inr () | Some e \<Rightarrow> Inl e)),
            (fs, ds_priv ds))))))"

definition xlate_func :: "(bytes \<Rightarrow> nat \<Rightarrow> u64 \<Rightarrow> 'q \<Rightarrow> u32 \<times> bytes \<times> 'q) \<Rightarrow> 'q dirent_func" where
  "xlate_func func entry buf o1 blocknr q = func buf o1 blocknr q"

definition cmfs_dir_iterate ::
  "u64 \<Rightarrow> u32 \<Rightarrow> bool \<Rightarrow> (bytes \<Rightarrow> nat \<Rightarrow> u64 \<Rightarrow> 'q cb_state \<Rightarrow> u32 \<times> bytes \<times> 'q cb_state) \<Rightarrow>
   ('q cb_state, unit) io" where
  "cmfs_dir_iterate dir flags has_buf func = cmfs_dir_iterate2 dir flags has_buf (xlate_func func)"

section \<open>Lookup\<close>

text \<open>
  \<^verbatim>\<open>strncmp\<close> of two byte strings: the first \<open>n\<close> bytes, up to and including a common NUL,
  are the same. Reading past the end of a buffer counts as reading NUL.
\<close>

fun strncmp_eq :: "bytes \<Rightarrow> bytes \<Rightarrow> nat \<Rightarrow> bool" where
  "strncmp_eq xs ys 0 = True"
| "strncmp_eq xs ys (Suc n) =
     (let x = (case xs of [] \<Rightarrow> 0 | x # _ \<Rightarrow> x); y = (case ys of [] \<Rightarrow> 0 | y # _ \<Rightarrow> y)
      in x = y \<and> (x = 0 \<or> strncmp_eq (tl xs) (tl ys) n))"

record lookup_struct =
  ls_inode :: "u64 option"
  ls_found :: nat

definition lookup_proc ::
  "bytes \<Rightarrow> int \<Rightarrow> bytes \<Rightarrow> nat \<Rightarrow> u64 \<Rightarrow> lookup_struct cb_state \<Rightarrow>
   u32 \<times> bytes \<times> lookup_struct cb_state" where
  "lookup_proc name namelen buf o1 blocknr s =
     (let (fs, ls) = s in
      if namelen \<noteq> int (de_name_len buf o1) then (0, buf, s)
      else if \<not> strncmp_eq name (drop (o1 + o_d_name) buf) (de_name_len buf o1) then (0, buf, s)
      else (CMFS_DIRENT_ABORT, buf,
            (fs, ls\<lparr>ls_inode := Some (ld64 (cpu_le fs) buf (o1 + o_d_inode)), ls_found := ls_found ls + 1\<rparr>)))"

text \<open>\<open>name\<close> is the text that starts at the pointer passed.\<close>

definition cmfs_lookup :: "u64 \<Rightarrow> bytes \<Rightarrow> int \<Rightarrow> bool \<Rightarrow> (cmfs_filesys, u64) io" where
  "cmfs_lookup dir name namelen has_buf =
     bind_io malloc_block (\<lambda>_.
     bind_io (cmfs_read_inode dir) (\<lambda>di fs.
       case cmfs_dir_iterate dir 0 has_buf (lookup_proc name namelen)
              (fs, \<lparr> ls_inode = None, ls_found = 0 \<rparr>) of
         (Inl e, (fs, ls)) \<Rightarrow> (Inl e, fs)
       | (Inr _, (fs, ls)) \<Rightarrow>
           (case ls_inode ls of
              Some ino \<Rightarrow> if ls_found ls \<noteq> 0 then (Inr ino, fs) else (Inl CMFS_ET_FILE_NOT_FOUND, fs)
            | None \<Rightarrow> (Inl CMFS_ET_FILE_NOT_FOUND, fs))))"

end
