(* ===== verification/Namei.thy ===== *)
theory Namei
  imports Directory
begin

text \<open>
  Resolving a path name (\<^verbatim>\<open>libcmfs/namei.c\<close>). \<open>link_count\<close> bounds the symbolic links that
  are followed inside one another, which is what makes the recursion end.
\<close>

lemma bind_io_cong [fundef_cong]:
  assumes "m s = m' s'" and "\<And>x s1. m' s' = (Inr x, s1) \<Longrightarrow> f x s1 = f' x s1"
  shows "bind_io m f s = bind_io m' f' s'"
  using assms by (auto simp: bind_io_def split: prod.splits sum.splits)

text \<open>
  The bytes of a path name of \<open>pathlen\<close> bytes, after the leading slash if it has one, and
  whether it has one. The first byte is read whatever the length. \<open>None\<close> is an access
  past the buffer of the name.
\<close>

definition path_start :: "bytes \<Rightarrow> int \<Rightarrow> (bool \<times> bytes) option" where
  "path_start pathname pathlen =
     (case pathname of
        [] \<Rightarrow> None
      | c # rest \<Rightarrow>
          let absolute = (c = 47);
              body = (if absolute then rest else pathname);
              n = nat (if absolute then pathlen - 1 else pathlen)
          in if n > length body then None else Some (absolute, take n body))"

text \<open>The name up to the next slash, and what follows the slash if there is one.\<close>

fun next_component :: "bytes \<Rightarrow> bytes \<times> bytes option" where
  "next_component [] = ([], None)"
| "next_component (c # cs) =
     (if c = 47 then ([], Some cs)
      else case next_component cs of (name, rest) \<Rightarrow> (c # name, rest))"

lemma next_component_shorter: "next_component p = (name, Some rest) \<Longrightarrow> length rest < length p"
  by (induction p arbitrary: name rest) (fastforce split: if_splits prod.splits)+

text \<open>What \<^verbatim>\<open>follow_link\<close> reads of a link: the block with the target and its length.\<close>

definition read_link :: "bytes \<Rightarrow> (cmfs_filesys, bytes) io" where
  "read_link di =
     bind_io (get_io (\<lambda>fs. ld32 (cpu_le fs) di o_i_clusters = 0
                \<or> ld16 (cpu_le fs) di (o_id2 + o_l_next_free_rec) = 0)) (\<lambda>bad.
     bind_io (guard_io (\<not> bad) CMFS_ET_INTERNAL_FAILURE) (\<lambda>_.
     bind_io malloc_block (\<lambda>_.
     bind_io (get_io (\<lambda>fs. e_blkno (el_rec (cpu_le fs) di o_id2 0))) (\<lambda>blkno.
     cmfs_read_blocks blkno 1))))"

function follow_link :: "u64 \<Rightarrow> u64 \<Rightarrow> u64 \<Rightarrow> nat \<Rightarrow> cmfs_filesys \<Rightarrow> (errcode + u64) \<times> cmfs_filesys"
  and dir_namei_loop ::
    "u64 \<Rightarrow> u64 \<Rightarrow> bytes \<Rightarrow> bytes \<Rightarrow> nat \<Rightarrow> cmfs_filesys \<Rightarrow> (errcode + bytes \<times> bytes \<times> u64) \<times> cmfs_filesys"
  and open_namei ::
    "u64 \<Rightarrow> u64 \<Rightarrow> bytes \<Rightarrow> int \<Rightarrow> bool \<Rightarrow> nat \<Rightarrow> cmfs_filesys \<Rightarrow> (errcode + u64) \<times> cmfs_filesys" where
  "follow_link root dir ino link_count fs =
     bind_io malloc_block (\<lambda>_.
     bind_io (cmfs_read_inode ino) (\<lambda>di fs.
       if \<not> S_ISLNK (ld16 (cpu_le fs) di o_i_mode) then (Inr ino, fs)
       else if link_count > 5 then (Inl CMFS_ET_SYMLINK_LOOP, fs)
       else bind_io (read_link di) (\<lambda>pathname fs.
         open_namei root dir pathname (sint (ucast (ld64 (cpu_le fs) di o_i_size) :: u32)) True
           (link_count + 1) fs) fs)) fs"
| "dir_namei_loop root dir rest tail link_count fs =
     (case next_component rest of
        (thisname, None) \<Rightarrow> (Inr (thisname, rest @ tail, dir), fs)
      | (thisname, Some rest') \<Rightarrow>
          bind_io (cmfs_lookup dir (rest @ tail) (int (length thisname)) True) (\<lambda>ino.
          bind_io (follow_link root dir ino link_count) (\<lambda>dir fs.
          dir_namei_loop root dir rest' tail link_count fs)) fs)"
| "open_namei root base pathname pathlen follow link_count fs =
     (case path_start pathname pathlen of
        None \<Rightarrow> (Inl C_UNDEFINED, fs)
      | Some (absolute, rest) \<Rightarrow>
          bind_io (\<lambda>fs. dir_namei_loop root (if absolute then root else base) rest
              (drop (length rest + (if absolute then 1 else 0)) pathname) link_count fs)
            (\<lambda>(name, name_ptr, dir) fs.
            if name = [] then (Inr dir, fs)
            else bind_io (cmfs_lookup dir name_ptr (int (length name)) True) (\<lambda>ino fs.
              if follow then follow_link root dir ino link_count fs
              else (Inr ino, fs)) fs) fs)"
  by pat_completeness auto

termination
  by (relation "inv_image (less_than <*lex*> less_than <*lex*> less_than)
       (\<lambda>x. case x of
          Inl (root, dir, ino, lc, fs) \<Rightarrow> (7 - lc, 0::nat, 0::nat)
        | Inr (Inl (root, dir, rest, tail, lc, fs)) \<Rightarrow> (7 - lc, 1, length rest)
        | Inr (Inr (root, base, path, len, follow, lc, fs)) \<Rightarrow> (7 - lc, 2, 0))")
    (auto dest!: next_component_shorter [OF sym] next_component_shorter)

declare follow_link.simps [simp del] dir_namei_loop.simps [simp del] open_namei.simps [simp del]

text \<open>\<open>dir_namei\<close>: the last component, the text that starts with it, and its directory.\<close>

definition dir_namei ::
  "u64 \<Rightarrow> u64 \<Rightarrow> bytes \<Rightarrow> int \<Rightarrow> nat \<Rightarrow> (cmfs_filesys, bytes \<times> bytes \<times> u64) io" where
  "dir_namei root dir pathname pathlen link_count =
     (case path_start pathname pathlen of
        None \<Rightarrow> err_io C_UNDEFINED
      | Some (absolute, rest) \<Rightarrow>
          dir_namei_loop root (if absolute then root else dir) rest
            (drop (length rest + (if absolute then 1 else 0)) pathname) link_count)"

text \<open>\<open>name\<close> is the text of a C string, without its NUL.\<close>

definition cmfs_namei :: "u64 \<Rightarrow> u64 \<Rightarrow> bytes \<Rightarrow> (cmfs_filesys, u64) io" where
  "cmfs_namei root cwd name =
     bind_io malloc_block (\<lambda>_.
     open_namei root cwd (name @ [0]) (int (length name)) False 0)"

end
