(* ===== verification/Extent_tree.thy ===== *)
theory Extent_tree
  imports Filesys
begin

text \<open>
  Searching the extent tree of an inode (\<^verbatim>\<open>libcmfs/extent_tree.c\<close>) and mapping blocks of a
  file to blocks of the device (\<^verbatim>\<open>libcmfs/extent_map.c\<close>). A pointer to an extent list is a
  buffer and an offset in it. A failed \<^verbatim>\<open>assert\<close>, an access outside a buffer or outside
  the array of path nodes, and a copy from a null pointer are \<open>C_UNDEFINED\<close>.
\<close>

section \<open>Paths\<close>

record cmfs_path_item =
  pi_blkno :: u64
  pi_buf :: "bytes option"
  pi_el :: nat

record cmfs_path =
  p_tree_depth :: nat
  p_node :: "cmfs_path_item list"

abbreviation (input) CMFS_MAX_PATH_DEPTH :: nat where "CMFS_MAX_PATH_DEPTH \<equiv> 5"

definition empty_item :: cmfs_path_item where
  "empty_item = \<lparr> pi_blkno = 0, pi_buf = None, pi_el = 0 \<rparr>"

definition cmfs_path_insert_eb :: "bool \<Rightarrow> nat \<Rightarrow> bytes \<Rightarrow> cmfs_path \<Rightarrow> cmfs_path option" where
  "cmfs_path_insert_eb le index buf path =
     (if index = 0 \<or> index \<ge> length (p_node path) then None
      else Some (path\<lparr>p_node := (p_node path)[index :=
             \<lparr> pi_blkno = ld64 le buf o_h_blkno, pi_buf = Some buf, pi_el = o_h_list \<rparr>]\<rparr>))"

definition find_path_ins :: "bool \<Rightarrow> bytes \<Rightarrow> nat \<times> cmfs_path \<Rightarrow> (nat \<times> cmfs_path) option" where
  "find_path_ins le eb fp =
     map_option (\<lambda>path. (fst fp + 1, path)) (cmfs_path_insert_eb le (fst fp) eb (snd fp))"

text \<open>The record to descend: the first of all but the last that covers \<open>cpos\<close>, or the last.\<close>

fun choose_rec :: "cmfs_filesys \<Rightarrow> bytes \<Rightarrow> nat \<Rightarrow> u64 \<Rightarrow> nat \<Rightarrow> nat \<Rightarrow> nat" where
  "choose_rec fs buf b cpos i 0 = i"
| "choose_rec fs buf b cpos i (Suc k) =
     (let rec = el_rec (cpu_le fs) buf b i;
          range = ucast (e_cpos rec + cmfs_rec_clusters fs (ld16 (cpu_le fs) buf (b + o_l_tree_depth)) rec)
                  :: u32
      in if cpos \<ge> e_cpos rec \<and> cpos < ucast range then i
         else choose_rec fs buf b cpos (i + 1) k)"

text \<open>
  The descent, with the callback \<open>find_path_ins\<close>, which keeps every block read. The number
  of levels is not compared with the depth of the tree: the array of path nodes is what
  ends a descent that does not come to a leaf.
\<close>

function find_path_loop ::
  "bytes \<Rightarrow> nat \<Rightarrow> u64 \<Rightarrow> nat \<times> cmfs_path \<Rightarrow> (cmfs_filesys, cmfs_path) io" where
  "find_path_loop buf b cpos fp fs =
     (let le = cpu_le fs; n = unat (ld16 le buf (b + o_l_next_free_rec)) in
      if ld16 le buf (b + o_l_tree_depth) = 0 then (Inr (snd fp), fs)
      else if n = 0 then (Inl CMFS_ET_CORRUPT_EXTENT_BLOCK, fs)
      else if b + o_l_recs + 32 * n > length buf then (Inl C_UNDEFINED, fs)
      else
        let blkno = e_blkno (el_rec le buf b (choose_rec fs buf b cpos 0 (n - 1))) in
        if blkno = 0 then (Inl CMFS_ET_CORRUPT_EXTENT_BLOCK, fs)
        else (case bind_io malloc_block (\<lambda>_. cmfs_read_extent_block blkno) fs of
          (Inl e, fs) \<Rightarrow> (Inl e, fs)
        | (Inr eb, fs) \<Rightarrow>
            if ld16 (cpu_le fs) eb (o_h_list + o_l_next_free_rec)
                 > ld16 (cpu_le fs) eb (o_h_list + o_l_count)
            then (Inl CMFS_ET_CORRUPT_EXTENT_BLOCK, fs)
            else (case find_path_ins (cpu_le fs) eb fp of
                None \<Rightarrow> (Inl C_UNDEFINED, fs)
              | Some fp' \<Rightarrow> find_path_loop eb o_h_list cpos fp' fs)))"
  by pat_completeness auto
termination
  by (relation "measure (\<lambda>(buf, b, cpos, (i, path), fs). length (p_node path) - i)")
    (auto simp: find_path_ins_def cmfs_path_insert_eb_def split: if_splits)

declare find_path_loop.simps [simp del]

definition cmfs_find_path :: "cmfs_path \<Rightarrow> u64 \<Rightarrow> (cmfs_filesys, cmfs_path) io" where
  "cmfs_find_path path cpos =
     (let root = p_node path ! 0
      in find_path_loop (the (pi_buf root)) (pi_el root) cpos (1, path))"

definition cmfs_new_path :: "bytes \<Rightarrow> nat \<Rightarrow> u64 \<Rightarrow> (cmfs_filesys, cmfs_path) io" where
  "cmfs_new_path buf b blkno fs =
     (let depth = unat (ld16 (cpu_le fs) buf (b + o_l_tree_depth))
      in if depth \<ge> CMFS_MAX_PATH_DEPTH then (Inl C_UNDEFINED, fs)
         else bind_io malloc_block (\<lambda>_. ret_io
                \<lparr> p_tree_depth = depth,
                  p_node = \<lparr> pi_blkno = blkno, pi_buf = Some buf, pi_el = b \<rparr>
                           # replicate (CMFS_MAX_PATH_DEPTH - 1) empty_item \<rparr>) fs)"

definition cmfs_reinit_path :: "bool \<Rightarrow> bool \<Rightarrow> cmfs_path \<Rightarrow> cmfs_path" where
  "cmfs_reinit_path le keep_root path =
     (let start = (if keep_root then 1 else 0 :: nat);
          root = p_node path ! 0
      in \<lparr> p_tree_depth = (if keep_root then unat (ld16 le (the (pi_buf root)) (pi_el root + o_l_tree_depth))
                          else 0),
           p_node = map (\<lambda>i. if start \<le> i \<and> i \<le> p_tree_depth path \<and> pi_buf (p_node path ! i) \<noteq> None
                             then empty_item else p_node path ! i) [0..<length (p_node path)] \<rparr>)"

definition cmfs_tree_find_leaf :: "bytes \<Rightarrow> nat \<Rightarrow> u64 \<Rightarrow> u64 \<Rightarrow> (cmfs_filesys, bytes) io" where
  "cmfs_tree_find_leaf el_blk b el_blkno cpos =
     bind_io (get_io (\<lambda>fs. ld16 (cpu_le fs) el_blk (b + o_l_tree_depth))) (\<lambda>depth.
     bind_io (guard_io (depth > 0) C_UNDEFINED) (\<lambda>_.
     bind_io (cmfs_new_path el_blk b el_blkno) (\<lambda>path.
     bind_io (cmfs_find_path path cpos) (\<lambda>path.
     bind_io malloc_block (\<lambda>_.
     case pi_buf (p_node path ! p_tree_depth path) of
       None \<Rightarrow> err_io C_UNDEFINED
     | Some leaf \<Rightarrow> get_io (\<lambda>fs. take (bsize fs) leaf))))))"

definition cmfs_find_leaf :: "bytes \<Rightarrow> u64 \<Rightarrow> (cmfs_filesys, bytes) io" where
  "cmfs_find_leaf di cpos =
     bind_io (get_io (\<lambda>fs. ld64 (cpu_le fs) di o_i_blkno)) (\<lambda>blkno.
     cmfs_tree_find_leaf di o_id2 blkno cpos)"

section \<open>Searching a list\<close>

fun search_recs :: "cmfs_filesys \<Rightarrow> bytes \<Rightarrow> nat \<Rightarrow> u64 \<Rightarrow> nat \<Rightarrow> nat \<Rightarrow> nat option" where
  "search_recs fs buf b v_cluster i 0 = None"
| "search_recs fs buf b v_cluster i (Suc k) =
     (let rec = el_rec (cpu_le fs) buf b i;
          clusters = cmfs_rec_clusters fs (ld16 (cpu_le fs) buf (b + o_l_tree_depth)) rec
      in if v_cluster \<ge> e_cpos rec \<and> v_cluster < e_cpos rec + clusters then Some i
         else search_recs fs buf b v_cluster (i + 1) k)"

text \<open>\<open>None\<close> is the index -1.\<close>

definition cmfs_search_extent_list :: "cmfs_filesys \<Rightarrow> bytes \<Rightarrow> nat \<Rightarrow> u64 \<Rightarrow> nat option" where
  "cmfs_search_extent_list fs buf b v_cluster =
     search_recs fs buf b v_cluster 0 (unat (ld16 (cpu_le fs) buf (b + o_l_next_free_rec)))"

fun hole_index :: "bool \<Rightarrow> bytes \<Rightarrow> nat \<Rightarrow> u64 \<Rightarrow> nat \<Rightarrow> nat \<Rightarrow> nat" where
  "hole_index le buf b v_cluster i 0 = i"
| "hole_index le buf b v_cluster i (Suc k) =
     (if v_cluster < e_cpos (el_rec le buf b i) then i else hole_index le buf b v_cluster (i + 1) k)"

definition cmfs_search_for_hole_index :: "bool \<Rightarrow> bytes \<Rightarrow> nat \<Rightarrow> u64 \<Rightarrow> nat" where
  "cmfs_search_for_hole_index le buf b v_cluster =
     hole_index le buf b v_cluster 0 (unat (ld16 le buf (b + o_l_next_free_rec)))"

section \<open>Holes\<close>

text \<open>
  The list at \<open>b\<close> of \<open>buf\<close>; \<open>in_eb\<close> says whether \<open>buf\<close> is an extent block. After the next leaf
  has been read, \<open>el\<close> is the list of that leaf.
\<close>

definition cmfs_figure_hole_clusters ::
  "bytes \<Rightarrow> nat \<Rightarrow> bool \<Rightarrow> u64 \<Rightarrow> (cmfs_filesys, u64) io" where
  "cmfs_figure_hole_clusters buf b in_eb v_cluster fs =
     (let le = cpu_le fs;
          i = cmfs_search_for_hole_index le buf b v_cluster;
          n = (\<lambda>buf b. unat (ld16 le buf (b + o_l_next_free_rec)));
          result = (\<lambda>buf b i. if i = n buf b then UINT64_MAX - v_cluster
                              else e_cpos (el_rec le buf b i) - v_cluster)
      in if i = n buf b \<and> in_eb \<and> ld64 le buf o_h_next_leaf_block \<noteq> 0 then
           bind_io malloc_block (\<lambda>_.
           bind_io (cmfs_read_extent_block (ld64 le buf o_h_next_leaf_block)) (\<lambda>next_eb fs.
             let i = cmfs_search_for_hole_index le next_eb o_h_list v_cluster
             in if i > 0 \<and> (i > 1 \<or> cmfs_rec_clusters fs (ld16 le next_eb (o_h_list + o_l_tree_depth))
                                       (el_rec le next_eb o_h_list 0) \<noteq> 0)
                then (Inl CMFS_ET_CORRUPT_EXTENT_BLOCK, fs)
                else (Inr (result next_eb o_h_list i), fs))) fs
         else (Inr (result buf b i), fs))"

section \<open>Mapping\<close>

text \<open>\<open>want_num\<close> says whether the caller asks for the number of clusters.\<close>

definition cmfs_get_clusters ::
  "bytes \<Rightarrow> u64 \<Rightarrow> bool \<Rightarrow> (cmfs_filesys, u64 \<times> u64 \<times> u16) io" where
  "cmfs_get_clusters di v_cluster want_num =
     bind_io (get_io cpu_le) (\<lambda>le.
     bind_io
       (if ld16 le di (o_id2 + o_l_tree_depth) \<noteq> 0 then
          bind_io (cmfs_find_leaf di v_cluster) (\<lambda>eb.
          bind_io (guard_io (ld16 le eb (o_h_list + o_l_tree_depth) = 0) CMFS_ET_CORRUPT_EXTENT_BLOCK)
            (\<lambda>_. ret_io (eb, o_h_list, True)))
        else ret_io (di, o_id2, False)) (\<lambda>(buf, b, in_eb) fs.
     if b + o_l_recs + 32 * unat (ld16 le buf (b + o_l_next_free_rec)) > length buf
     then (Inl C_UNDEFINED, fs)
     else (case cmfs_search_extent_list fs buf b v_cluster of
        None \<Rightarrow>
          if want_num
          then bind_io (cmfs_figure_hole_clusters buf b in_eb v_cluster) (\<lambda>num. ret_io (0, num, 0)) fs
          else (Inr (0, UINT64_MAX, 0), fs)
      | Some i \<Rightarrow>
          let rec = el_rec le buf b i;
              coff = ucast (v_cluster - e_cpos rec) :: u32
          in if e_blkno rec = 0 then (Inl CMFS_ET_BAD_BLKNO, fs)
             else (Inr (cmfs_blocks_to_clusters fs (e_blkno rec) + ucast coff,
                        (if want_num
                         then cmfs_rec_clusters fs (ld16 le buf (b + o_l_tree_depth)) rec - ucast coff
                         else UINT64_MAX),
                        ucast (e_flags rec)), fs))))"

text \<open>The result is the block on the device, the number of blocks from there and the flags.\<close>

definition cmfs_extent_map_get_blocks ::
  "bytes \<Rightarrow> u64 \<Rightarrow> (cmfs_filesys, u64 \<times> u64 \<times> u16) io" where
  "cmfs_extent_map_get_blocks di v_blkno fs =
     (let bpc = sint (ucast (cmfs_clusters_to_blocks fs 1) :: u32);
          cpos = cmfs_blocks_to_clusters fs v_blkno;
          off = v_blkno AND word_of_int (bpc - 1)
      in bind_io (cmfs_get_clusters di cpos True) (\<lambda>(p_cluster, num_clusters, flags).
           ret_io ((if p_cluster \<noteq> 0 then cmfs_clusters_to_blocks fs (ucast p_cluster) + off else 0),
                   cmfs_clusters_to_blocks fs (ucast num_clusters) - off, flags)) fs)"

end
