(* ===== verification/Fileio.thy ===== *)
theory Fileio
  imports Extent_tree
begin

text \<open>
  Reading a file (\<^verbatim>\<open>libcmfs/fileio.c\<close>). The bytes that \<^verbatim>\<open>cmfs_file_read\<close> stores in the
  caller's buffer are part of the result; \<open>aligned\<close> says whether the address of that
  buffer is a multiple of the block size.
\<close>

abbreviation (input) CMFS_EXT_UNWRITTEN :: u16 where "CMFS_EXT_UNWRITTEN \<equiv> 0x01"

definition sb_bits :: "cmfs_filesys \<Rightarrow> nat" where
  "sb_bits fs = unat (s_blocksize_bits (CMFS_RAW_SB fs))"

text \<open>
  One round of the loop: the mapping of \<open>v_blkno\<close> and what the round stores, with the
  number of blocks it is for.
\<close>

definition file_read_step :: "bytes \<Rightarrow> u32 \<Rightarrow> u64 \<Rightarrow> (cmfs_filesys, u64 \<times> bytes) io" where
  "file_read_step di wanted_blocks v_blkno =
     bind_io (cmfs_extent_map_get_blocks di v_blkno) (\<lambda>(p_blkno, contig_blocks, extent_flags).
     let contig_blocks = (if contig_blocks > ucast wanted_blocks then ucast wanted_blocks else contig_blocks)
     in if p_blkno = 0 \<or> extent_flags AND CMFS_EXT_UNWRITTEN \<noteq> 0
        then get_io (\<lambda>fs. (contig_blocks, replicate (unat (contig_blocks * ucast (fs_blocksize fs))) 0))
        else bind_io (cmfs_read_blocks p_blkno (sint (ucast contig_blocks :: u32)))
               (\<lambda>d. ret_io (contig_blocks, d)))"

text \<open>A round for no block at all would be repeated without end: the loop is partial.\<close>

partial_function (option) file_read_loop ::
  "bytes \<Rightarrow> u64 \<Rightarrow> u32 \<Rightarrow> u64 \<Rightarrow> bytes \<Rightarrow> u32 \<Rightarrow> cmfs_filesys \<Rightarrow>
   ((errcode + bytes \<times> u32) \<times> cmfs_filesys) option" where
  "file_read_loop di off wanted_blocks v_blkno data got fs =
     (if wanted_blocks = 0 then Some (Inr (data, got), fs)
      else case file_read_step di wanted_blocks v_blkno fs of
        (Inl e, fs) \<Rightarrow> Some (Inl e, fs)
      | (Inr r, fs) \<Rightarrow>
          (let contig_blocks = fst r;
               data = data @ snd r;
               got = got + ucast (push_bit (sb_bits fs) contig_blocks);
               wanted_blocks = wanted_blocks - ucast contig_blocks;
               isize = ld64 (cpu_le fs) di o_i_size
           in if wanted_blocks \<noteq> 0
              then file_read_loop di off wanted_blocks (v_blkno + contig_blocks) data got fs
              else Some (Inr (data, if ucast got + off > isize then ucast (isize - off) else got), fs)))"

definition cmfs_file_read ::
  "bytes \<Rightarrow> bool \<Rightarrow> u32 \<Rightarrow> u64 \<Rightarrow> cmfs_filesys \<Rightarrow> ((errcode + bytes \<times> u32) \<times> cmfs_filesys) option" where
  "cmfs_file_read di aligned count off fs =
     (let tmp = fs_blocksize fs - 1;
          wanted_blocks = drop_bit (sb_bits fs) count;
          v_blkno = drop_bit (sb_bits fs) off;
          num_blocks = drop_bit (sb_bits fs) (ld64 (cpu_le fs) di o_i_size + ucast (fs_blocksize fs) - 1)
      in if count AND tmp \<noteq> 0 \<or> off AND ucast tmp \<noteq> 0 \<or> \<not> aligned
         then Some (Inl CMFS_ET_INVALID_ARGUMENT, fs)
         else if v_blkno \<ge> num_blocks then Some (Inr ([], 0), fs)
         else
           let wanted_blocks = (if v_blkno + ucast wanted_blocks > num_blocks
                                then ucast (num_blocks - v_blkno) else wanted_blocks)
           in file_read_loop di off wanted_blocks v_blkno [] 0 fs)"

end
