(* ===== verification/Debugfs_session.thy ===== *)
theory Debugfs_session
  imports Namei Fileio Feature Bitops Clib
begin

text \<open>
  The session of \<^verbatim>\<open>debugfs.cmfs\<close> and the helpers of \<^verbatim>\<open>debugfs.cmfs/utils.c\<close>. The state is
  the global structure \<^verbatim>\<open>gbls\<close>, together with the devices, what has been printed, and
  how the process has ended. The devices are channels by name; the channel of the open
  file system is the one in \<open>g_fs\<close>. Printed text is kept as the format with the values
  printed, not expanded. \<^verbatim>\<open>blockbuf\<close> is refilled before every use, so that only its being
  allocated matters.
\<close>

section \<open>State\<close>

text \<open>
  Values in a printed line: \<open>Uv\<close> unsigned, \<open>Sg\<close> signed, \<open>Hx\<close> hexadecimal, \<open>Oc\<close> octal, \<open>St\<close> text,
  and \<open>Fr\<close> a quotient that the code computes in single precision.
\<close>

datatype out_arg = Uv nat | Sg int | Hx nat | Oc nat | St string | Fr nat nat

datatype com_code = Code errcode | No_error | Minus_one

datatype event =
    Printf string "out_arg list"
  | Eprintf string "out_arg list"
  | Com_err string com_code string "out_arg list"

record dbgfs_gbls =
  g_allow_write :: bool
  g_interactive :: bool
  g_device :: "string option"
  g_fs :: "cmfs_filesys option"
  g_cwd :: "string option"
  g_cmd :: string
  g_cwd_blkno :: u64
  g_blockbuf :: bool
  g_max_clusters :: u64
  g_max_blocks :: u64
  g_root_blkno :: u64
  g_sysdir_blkno :: u64
  g_jrnl_blkno :: u64
  g_devs :: "string \<Rightarrow> io_channel"
  g_out :: "event list"
  g_exit :: "nat option"

text \<open>
  What the session gets from outside: the results of opening a device and of the
  \<^verbatim>\<open>BLKROGET\<close> ioctl, \<^verbatim>\<open>g_strsplit\<close> at blanks and \<^verbatim>\<open>g_strchug\<close> of GLib, and the answers of the
  C library that depend on the system.
\<close>

record dbgfs_env =
  de_le :: bool
  de_open64 :: "string \<Rightarrow> nat option"
  de_readonly :: "string \<Rightarrow> bool"
  de_strsplit :: "string \<Rightarrow> string list"
  de_strchug :: "string \<Rightarrow> string"
  de_ctime :: "u64 \<Rightarrow> string option"
  de_localtime :: "u64 \<Rightarrow> (int \<times> nat \<times> int \<times> int \<times> int) option"
  de_pw_name :: "u32 \<Rightarrow> string option"
  de_gr_name :: "u32 \<Rightarrow> string option"
  de_getcwd :: "nat + string"
  de_chdir :: "string \<Rightarrow> nat option"
  de_progname :: string
  de_version :: string

type_synonym 'a dbg = "(dbgfs_gbls, 'a) io"

definition say :: "event \<Rightarrow> unit dbg" where
  "say ev = upd_io (\<lambda>g. g\<lparr>g_out := g_out g @ [ev]\<rparr>)"

definition printf :: "string \<Rightarrow> out_arg list \<Rightarrow> unit dbg" where
  "printf fmt args = say (Printf fmt args)"

definition eprintf :: "string \<Rightarrow> out_arg list \<Rightarrow> unit dbg" where
  "eprintf fmt args = say (Eprintf fmt args)"

definition com_err :: "string \<Rightarrow> errcode \<Rightarrow> string \<Rightarrow> out_arg list \<Rightarrow> unit dbg" where
  "com_err who e fmt args = say (Com_err who (Code e) fmt args)"

text \<open>An operation on the open file system; without one the code dereferences null.\<close>

definition on_fs :: "(cmfs_filesys, 'a) io \<Rightarrow> 'a dbg" where
  "on_fs m g = (case g_fs g of
     None \<Rightarrow> (Inl C_UNDEFINED, g)
   | Some fs \<Rightarrow> (case m fs of (r, fs) \<Rightarrow> (r, g\<lparr>g_fs := Some fs\<rparr>)))"

text \<open>The test of a result that the code makes; an undefined run stays undefined.\<close>

definition try_io :: "('s, 'a) io \<Rightarrow> (errcode \<Rightarrow> ('s, 'b) io) \<Rightarrow> ('a \<Rightarrow> ('s, 'b) io) \<Rightarrow> ('s, 'b) io" where
  "try_io m h f s = (case m s of
     (Inl e, s) \<Rightarrow> if e = C_UNDEFINED then (Inl C_UNDEFINED, s) else h e s
   | (Inr x, s) \<Rightarrow> f x s)"

section \<open>Arguments of a command\<close>

text \<open>The next argument from \<open>j\<close> on that is not empty.\<close>

function next_nonempty :: "string list \<Rightarrow> nat \<Rightarrow> nat" where
  "next_nonempty args j =
     (if j < length args then if args ! j \<noteq> [] then j else next_nonempty args (j + 1) else j)"
  by pat_completeness auto
termination by (relation "measure (\<lambda>(args, j). length args - j)") auto

declare next_nonempty.simps [simp del]

function crunch_loop :: "string list \<Rightarrow> nat \<Rightarrow> nat \<Rightarrow> string list" where
  "crunch_loop args i j =
     (if i < length args then
        if args ! i = [] then
          let j = next_nonempty args (max j (i + 1))
          in if j < length args then crunch_loop (args[i := args ! j, j := args ! i]) (i + 1) j
             else args
        else crunch_loop args (i + 1) j
      else args)"
  by pat_completeness auto
termination by (relation "measure (\<lambda>(args, i, j). length args - i)") auto

declare crunch_loop.simps [simp del]

definition crunch_strsplit :: "string list \<Rightarrow> string list" where
  "crunch_strsplit args = crunch_loop args 0 0"

abbreviation (input) arg :: "string list \<Rightarrow> nat \<Rightarrow> string option" where
  "arg args i \<equiv> (if i < length args then Some (args ! i) else None)"

text \<open>
  The number in a text of the form \<^verbatim>\<open><ino>\<close>. \<open>None\<close> is an error code; the memory for the
  copy is assumed to be there.
\<close>

definition inodestr_to_inode :: "string \<Rightarrow> u64 option" where
  "inodestr_to_inode str =
     (let len = length str
      in if \<not> (len > 2 \<and> str ! 0 = CHR ''<'' \<and> str ! (len - 1) = CHR ''>'') then None
         else let (blkno, rest) = strtoull (take (len - 2) (drop 1 str))
              in if rest \<noteq> [] then None else Some blkno)"

definition string_to_inode :: "u64 \<Rightarrow> u64 \<Rightarrow> string \<Rightarrow> (cmfs_filesys, u64) io" where
  "string_to_inode root_blkno cwd_blkno str fs =
     (case inodestr_to_inode str of
        Some blkno \<Rightarrow> (Inr blkno, fs)
      | None \<Rightarrow>
          if take 2 str = ''//'' then cmfs_namei (fs_sysdir_blkno fs) cwd_blkno (c_bytes (tl str)) fs
          else cmfs_namei root_blkno cwd_blkno (c_bytes str) fs)"

section \<open>Files\<close>

text \<open>
  \<open>read_whole_file\<close> with \<open>buflen\<close> as it comes in; the result is what has been read and the
  length of the buffer. The messages go to the session.
\<close>

definition read_whole_file :: "string \<Rightarrow> u64 \<Rightarrow> u32 \<Rightarrow> cmfs_filesys \<Rightarrow>
    ((errcode + bytes \<times> u32) \<times> cmfs_filesys \<times> event list) option" where
  "read_whole_file cmd ino buflen fs =
     (case cmfs_read_cached_inode ino fs of
        (Inl e, fs) \<Rightarrow> Some (Inl e, fs, [Com_err cmd (Code e) ''while reading inode %lu'' [Uv (unat ino)]])
      | (Inr ci, fs) \<Rightarrow>
          let buflen = (if buflen = 0
                then ucast (push_bit (sb_bits fs) (drop_bit (sb_bits fs)
                       (ld64 (cpu_le fs) (ci_inode ci) o_i_size + ucast (fs_blocksize fs) - 1)))
                else buflen)
          in if buflen > 104857600 then Some (Inl CMFS_ET_INTERNAL_FAILURE, fs, [])
             else (case on_io cmfs_malloc_block fs of
                (Inl e, fs) \<Rightarrow>
                  Some (Inl e, fs, [Com_err cmd (Code e) ''while allocating %u bytes'' [Uv (unat buflen)]])
              | (Inr _, fs) \<Rightarrow>
                  (case cmfs_file_read (ci_inode ci) True buflen 0 fs of
                     None \<Rightarrow> None
                   | Some (Inl e, fs) \<Rightarrow>
                       Some (Inl e, fs, [Com_err cmd (Code e) ''while reading file at inode %lu'' [Uv (unat ino)]])
                   | Some (Inr (data, got), fs) \<Rightarrow> Some (Inr (data, buflen), fs, []))))"

text \<open>
  The test after reading the inode is inverted: a success is reported as an error with
  code 0 and ends the function, and after an error the code goes on with a null inode. What
  follows is not reached with a valid inode.
\<close>

definition dump_file :: "u64 \<Rightarrow> unit dbg" where
  "dump_file ino g =
     (case on_fs (cmfs_read_cached_inode ino) g of
        (Inr ci, g) \<Rightarrow> say (Com_err (g_cmd g) No_error ''while reading inode %lu'' [Uv (unat ino)]) g
      | (Inl e, g) \<Rightarrow> (Inl C_UNDEFINED, g))"

section \<open>Text for the fields of an inode\<close>

definition S_ISFIFO :: "u16 \<Rightarrow> bool" where "S_ISFIFO m = (S_IFMT m = 0x1000)"
definition S_ISSOCK :: "u16 \<Rightarrow> bool" where "S_ISSOCK m = (S_IFMT m = 0xC000)"

definition inode_perms_to_str :: "u16 \<Rightarrow> string" where
  "inode_perms_to_str mode =
     (let has = (\<lambda>b. mode AND b \<noteq> 0);
          rw = (\<lambda>b c. if has b then c else CHR ''-'');
          exec = (\<lambda>special b yes no. if has special then (if has b then yes else no)
                                     else if has b then CHR ''x'' else CHR ''-'')
      in [(if S_ISREG mode then CHR ''-''
           else if S_ISDIR mode then CHR ''d''
           else if S_ISLNK mode then CHR ''l''
           else if S_ISCHR mode then CHR ''c''
           else if S_ISBLK mode then CHR ''b''
           else if S_ISFIFO mode then CHR ''f''
           else if S_ISSOCK mode then CHR ''s''
           else CHR ''-''),
          rw 0x100 (CHR ''r''), rw 0x80 (CHR ''w''), exec 0x800 0x40 (CHR ''s'') (CHR ''S''),
          rw 0x20 (CHR ''r''), rw 0x10 (CHR ''w''), exec 0x400 0x8 (CHR ''s'') (CHR ''S''),
          rw 0x4 (CHR ''r''), rw 0x2 (CHR ''w''), exec 0x200 0x1 (CHR ''t'') (CHR ''T'')])"

text \<open>The values of \<^verbatim>\<open>%2d-%s-%4d %02d:%02d\<close>; \<open>None\<close> is a null result of \<^verbatim>\<open>localtime\<close>.\<close>

definition inode_time_to_str :: "dbgfs_env \<Rightarrow> u64 \<Rightarrow> out_arg list option" where
  "inode_time_to_str env timeval =
     map_option (\<lambda>(mday, mon, year, hour, minute).
         [Sg mday, St ([''Jan'', ''Feb'', ''Mar'', ''Apr'', ''May'', ''Jun'', ''Jul'', ''Aug'', ''Sep'',
                      ''Oct'', ''Nov'', ''Dec''] ! mon), Sg (1900 + year), Sg hour, Sg minute])
       (de_localtime env timeval)"

text \<open>The text before and after the last blank, \<open>None\<close> if the buffer is not written.\<close>

definition ctime_nano :: "dbgfs_env \<Rightarrow> u64 \<Rightarrow> u32 \<Rightarrow> out_arg list option" where
  "ctime_nano env sec nsec =
     (case de_ctime env sec of
        None \<Rightarrow> None
      | Some tmp \<Rightarrow>
          if CHR '' '' \<in> set tmp
          then Some [St (rev (tl (dropWhile (\<lambda>c. c \<noteq> CHR '' '') (rev tmp)))), Uv (unat nsec),
                     St (rev (takeWhile (\<lambda>c. c \<noteq> CHR '' '') (rev tmp)))]
          else None)"

definition get_compat_flag :: "cmfs_super_block \<Rightarrow> string" where
  "get_compat_flag sb = snd (cmfs_snprint_feature_flags 4096 (Options (s_feature_compat sb) 0 0))"

definition get_incompat_flag :: "cmfs_super_block \<Rightarrow> string" where
  "get_incompat_flag sb = snd (cmfs_snprint_feature_flags 4096 (Options 0 (s_feature_incompat sb) 0))"

definition get_rocompat_flag :: "cmfs_super_block \<Rightarrow> string" where
  "get_rocompat_flag sb = snd (cmfs_snprint_feature_flags 4096 (Options 0 0 (s_feature_ro_compat sb)))"

text \<open>
  Both searches of \<open>find_max_contig_free_bits\<close> look for a set bit, so that the second one
  stays where the first one stopped.
\<close>

partial_function (option) contig_loop :: "bytes \<Rightarrow> nat \<Rightarrow> nat \<Rightarrow> int \<Rightarrow> int option" where
  "contig_loop bm bits end_bit max_free =
     (if end_bit < bits then
        let start = cmfs_find_next_bit_set bm bits end_bit
        in if start \<ge> bits then Some max_free
           else
             let end_bit = cmfs_find_next_bit_set bm bits start;
                 free_bits = int end_bit - int start
             in contig_loop bm bits end_bit (if max_free < free_bits then free_bits else max_free)
      else Some max_free)"

definition find_max_contig_free_bits :: "bool \<Rightarrow> bytes \<Rightarrow> int option" where
  "find_max_contig_free_bits le gd =
     contig_loop (drop o_bg_bitmap gd) (unat (ld16 le gd o_bg_bits)) 0 0"

section \<open>What is not implemented\<close>

definition traverse_chains :: "com_code" where "traverse_chains = Minus_one"
definition find_block_inode :: "u64 list \<Rightarrow> com_code" where "find_block_inode blkno = Minus_one"
definition find_inode_paths :: "bool \<Rightarrow> u64 list \<Rightarrow> com_code" where "find_inode_paths findall blknos = Minus_one"
definition show_stat_sysdir :: "unit dbg" where "show_stat_sysdir = ret_io ()"

end
