(* ===== verification/Debugfs_dump.thy ===== *)
theory Debugfs_dump
  imports Debugfs_session
begin

text \<open>
  The printing of the on-disk structures (\<^verbatim>\<open>debugfs.cmfs/dump.c\<close>). Each call of \<^verbatim>\<open>fprintf\<close> is
  one event; the tabs and ends of lines of the formats are left out.
\<close>

abbreviation (input) uw :: "'a::len word \<Rightarrow> out_arg" where "uw w \<equiv> Uv (unat w)"
abbreviation (input) xw :: "'a::len word \<Rightarrow> out_arg" where "xw w \<equiv> Hx (unat w)"

definition print_time :: "dbgfs_env \<Rightarrow> u64 \<Rightarrow> out_arg" where
  "print_time env t = St (case de_ctime env t of None \<Rightarrow> ''(null)'' | Some str \<Rightarrow> str)"

fun say_all :: "event list \<Rightarrow> unit dbg" where
  "say_all [] = ret_io ()"
| "say_all (ev # evs) = bind_io (say ev) (\<lambda>_. say_all evs)"

section \<open>Superblock\<close>

definition dump_super_block :: "dbgfs_env \<Rightarrow> cmfs_super_block \<Rightarrow> unit dbg" where
  "dump_super_block env sb = say_all
     [Printf ''Revision: %u.%u'' [uw (s_major_rev_level sb), uw (s_minor_rev_level sb)],
      Printf ''Mount Count: %u   Max Mount Count: %u'' [uw (s_mnt_count sb), uw (s_max_mnt_count sb)],
      Printf ''State: %u   Errors: %u'' [uw (s_state sb), uw (s_errors sb)],
      Printf ''Check Interval: %u   Last Check: %s''
        [uw (s_checkinterval sb), print_time env (s_lastcheck sb)],
      Printf ''Creator OS: %u'' [uw (s_creator_os sb)],
      Printf ''Feature Compat: %u %s'' [uw (s_feature_compat sb), St (get_compat_flag sb)],
      Printf ''Feature Incompat: %u %s'' [uw (s_feature_incompat sb), St (get_incompat_flag sb)],
      Printf ''Feature RO compat: %u %s'' [uw (s_feature_ro_compat sb), St (get_rocompat_flag sb)],
      Printf ''Root Blknum: %lu   System Dir Blknum: %lu''
        [uw (s_root_blkno sb), uw (s_system_dir_blkno sb)],
      Printf ''First Cluster Group Blknum: %lu'' [uw (s_first_cluster_group sb)],
      Printf ''Block Size Bits: %u   Cluster Size Bits: %u''
        [uw (s_blocksize_bits sb), uw (s_clustersize_bits sb)],
      Printf ''Label: %.*s'' [Sg 64, St (c_text (take 64 (s_label sb)))],
      Printf ''UUID: %s'' [St (uuid_text (take 16 (s_uuid sb)))],
      Printf ''Hash: %u (0x%x)'' [uw (s_uuid_hash sb), xw (s_uuid_hash sb)]]"

section \<open>Directory entries\<close>

text \<open>
  The state of the callback for the entries of a directory. \<open>ld_outside\<close> is set when the
  code would write past the block or pass a null result of \<^verbatim>\<open>localtime\<close> on.
\<close>

record list_dir_opts =
  ld_out :: "event list"
  ld_long_opt :: bool
  ld_outside :: bool

definition dump_dir_entry ::
  "dbgfs_env \<Rightarrow> bytes \<Rightarrow> nat \<Rightarrow> u64 \<Rightarrow> list_dir_opts cb_state \<Rightarrow> u32 \<times> bytes \<times> list_dir_opts cb_state" where
  "dump_dir_entry env buf o1 blocknr s =
     (let (fs, ls) = s; le = cpu_le fs; n = de_name_len buf o1;
          rec = dir_entry_of le buf o1;
          name = c_text (take n (drop (o1 + o_d_name) buf));
          outside = (CMFS_DIRENT_ABORT, buf, (fs, ls\<lparr>ld_outside := True\<rparr>))
      in if o1 + o_d_name + n \<ge> length buf then outside
         else if \<not> ld_long_opt ls then
           (0, buf, (fs, ls\<lparr>ld_out := ld_out ls @ [Printf ''%-15lu %-4u %-4u %-2u %s''
              [uw (d_inode rec), uw (d_rec_len rec), uw (d_name_len rec), uw (d_file_type rec), St name]]\<rparr>))
         else
           (case cmfs_read_inode (d_inode rec) fs of (r, fs) \<Rightarrow>
              if r = Inl C_UNDEFINED then (CMFS_DIRENT_ABORT, buf, (fs, ls\<lparr>ld_outside := True\<rparr>))
              else
                let di = dinode_of le (case r of Inr b \<Rightarrow> b | Inl _ \<Rightarrow> replicate (bsize fs) 0) 0
                in case inode_time_to_str env (i_mtime di) of
                     None \<Rightarrow> (CMFS_DIRENT_ABORT, buf, (fs, ls\<lparr>ld_outside := True\<rparr>))
                   | Some timestr \<Rightarrow>
                       (0, buf, (fs, ls\<lparr>ld_out := ld_out ls @ [Printf
                          ''%-15lu %10s %3u %5u %5u %15lu %2d-%s-%4d %02d:%02d %s''
                          ([uw (d_inode rec), St (inode_perms_to_str (i_mode di)), uw (i_links_count di),
                            uw (i_uid di), uw (i_gid di), uw (i_size di)] @ timestr @ [St name])]\<rparr>))))"

text \<open>
  The entries of a block until the first that does not look right; \<open>None\<close> is an access
  past the block.
\<close>

function dump_entries ::
  "dbgfs_env \<Rightarrow> cmfs_filesys \<Rightarrow> bytes \<Rightarrow> nat \<Rightarrow> event list \<Rightarrow> event list option" where
  "dump_entries env fs buf o1 out =
     (let rl = de_rec_len (cpu_le fs) buf o1 in
      if o1 < bsize fs then
        if o1 + DIRENT_HEADER_SIZE > length buf then None
        else if o1 + rl > bsize fs \<or> rl < 8 \<or> rl mod 4 \<noteq> 0 \<or> de_name_len buf o1 + 8 > rl then Some out
        else case dump_dir_entry env buf o1 0
                    (fs, \<lparr> ld_out = out, ld_long_opt = False, ld_outside = False \<rparr>) of
               (_, _, (_, ls)) \<Rightarrow>
                 if ld_outside ls then None else dump_entries env fs buf (o1 + rl) (ld_out ls)
      else Some out)"
  by pat_completeness auto
termination by (relation "measure (\<lambda>(env, fs, buf, o1, out). bsize fs - o1)") auto

declare dump_entries.simps [simp del]

definition dump_dir_block :: "dbgfs_env \<Rightarrow> cmfs_filesys \<Rightarrow> bytes \<Rightarrow> event list option" where
  "dump_dir_block env fs buf = dump_entries env fs buf 0 [Printf ''Entries'' []]"

section \<open>Extents\<close>

text \<open>
  The list at \<open>b\<close> of \<open>buf\<close>. The flags of a leaf are printed into a buffer of \<^verbatim>\<open>PATH_MAX\<close>
  bytes.
\<close>

definition extent_line :: "cmfs_filesys \<Rightarrow> u16 \<Rightarrow> nat \<Rightarrow> cmfs_extent_rec \<Rightarrow> event" where
  "extent_line fs depth i rec =
     (let num = cmfs_rec_clusters fs depth rec
      in if depth \<noteq> 0
         then Printf ''%-2d %-11lu   %-12lu   %lu'' [Uv i, uw (e_cpos rec), uw num, uw (e_blkno rec)]
         else
           let flags = (case cmfs_snprint_extent_flags 4096 (e_flags rec) of
                          (None, str) \<Rightarrow> str | (Some _, _) \<Rightarrow> [])
           in Printf ''%-2d %-11lu   %-12luu   %-13lu   0x%x %s''
                [Uv i, uw (e_cpos rec), uw num, uw (e_blkno rec), xw (e_flags rec), St flags])"

definition dump_extent_list :: "cmfs_filesys \<Rightarrow> bytes \<Rightarrow> nat \<Rightarrow> unit dbg" where
  "dump_extent_list fs buf b =
     (let le = cpu_le fs; el = extent_list_of le buf b; n = unat (l_next_free_rec el) in
      bind_io (printf ''Tree Depth: %u   Count: %u   Next Free Rec: %u''
        [uw (l_tree_depth el), uw (l_count el), uw (l_next_free_rec el)]) (\<lambda>_.
      if n = 0 then ret_io ()
      else bind_io (if l_tree_depth el \<noteq> 0
             then printf ''## %-11s   %-12s   %-s'' [St ''Offset'', St ''Cluster'', St ''Block#'']
             else printf ''## %-11s   %-12s   %-13s   %s'' [St ''Offset'', St ''Clusters'', St ''Block#'', St ''Flags'']) (\<lambda>_.
           bind_io (guard_io (b + o_l_recs + 32 * n \<le> length buf) C_UNDEFINED) (\<lambda>_.
           say_all (map (\<lambda>i. extent_line fs (l_tree_depth el) i (el_rec le buf b i)) [0..<n])))))"

definition dump_extent_block :: "cmfs_extent_block \<Rightarrow> unit dbg" where
  "dump_extent_block blk = say_all
     [Printf ''Suballoc Bit: %u   SubAlloc Slot: %u'' [uw (h_suballoc_bit blk), uw (h_suballoc_slot blk)],
      Printf ''Blknum: %lu   Next Leaf: %lu'' [uw (h_blkno blk), uw (h_next_leaf_block blk)]]"

definition dump_fast_symlink :: "string \<Rightarrow> unit dbg" where
  "dump_fast_symlink link = printf ''Fast Symlink Destination: %s'' [St link]"

definition dump_logical_blkno :: "u64 \<Rightarrow> unit dbg" where
  "dump_logical_blkno blkno = printf ''%lu'' [uw blkno]"

text \<open>The two quotients are 0 when there is at most one cluster or no extent.\<close>

definition dump_frag :: "cmfs_filesys \<Rightarrow> u64 \<Rightarrow> u32 \<Rightarrow> u32 \<Rightarrow> unit dbg" where
  "dump_frag fs ino clusters extents =
     (let clusters_per_mb = sint (cmfs_clusters_in_bytes fs 33554432);
          frag = (\<lambda>k. if clusters > 1 \<and> extents \<noteq> 0
                      then Fr (100 * unat extents * k) (unat clusters) else Fr 0 1)
      in printf ''Inode: %lu %% fragmented: %.2f clusters: %u extents: %u score: %.0f''
           [uw ino, frag 1, uw clusters, uw extents, frag (nat clusters_per_mb)])"

section \<open>Groups, chains and local allocations\<close>

definition dump_group_descriptor :: "bool \<Rightarrow> bytes \<Rightarrow> nat \<Rightarrow> event list option" where
  "dump_group_descriptor le gd index =
     (let f16 = (\<lambda>off. ld16 le gd off);
          header =
            [Printf ''Group Chain: %u   Parent Inode: %lu   Generation: %u''
               [uw (f16 o_bg_chain), uw (ld64 le gd o_bg_parent_dinode), uw (ld32 le gd o_bg_generation)],
             Printf ''##   %-15s   %-6s   %-6s   %-6s   %-6s   %-6s''
               [St ''Block#'', St ''Total'', St ''Used'', St ''Free'', St ''Contig'', St ''Size'']]
      in map_option (\<lambda>contig.
           (if index = 0 then header else []) @
           [Printf ''%-2d   %-15lu   %-6u   %-6u   %-6u   %-6u   %-6u''
              [Uv index, uw (ld64 le gd o_bg_blkno), uw (f16 o_bg_bits),
               Sg (int (unat (f16 o_bg_bits)) - int (unat (f16 o_bg_free_bits_count))),
               uw (f16 o_bg_free_bits_count), Sg contig, uw (f16 o_bg_size)]])
           (find_max_contig_free_bits le gd))"

definition dump_chain_list :: "cmfs_chain_list \<Rightarrow> cmfs_chain_rec list \<Rightarrow> unit dbg" where
  "dump_chain_list cl recs =
     bind_io (say_all
       [Printf ''Clusters per Group: %u   Bits per Cluster: %u'' [uw (cl_cpg cl), uw (cl_bpc cl)],
        Printf ''Count: %u   Next Free Rec: %u'' [uw (cl_count cl), uw (cl_next_free_rec cl)]]) (\<lambda>_.
     if cl_next_free_rec cl = 0 then ret_io ()
     else bind_io (printf ''##   %-10s   %-10s   %-10s   %s''
            [St ''Total'', St ''Used'', St ''Free'', St ''Block#'']) (\<lambda>_.
          bind_io (guard_io (unat (cl_next_free_rec cl) \<le> length recs) C_UNDEFINED) (\<lambda>_.
          say_all (map (\<lambda>i. let rec = recs ! i in
             Printf ''%-2d   %-10u   %-10u   %-10u   %lu''
               [Uv i, uw (c_total rec), uw (c_total rec - c_free rec), uw (c_free rec), uw (c_blkno rec)])
             [0..<unat (cl_next_free_rec cl)]))))"

definition dump_local_alloc :: "cmfs_local_alloc \<Rightarrow> unit dbg" where
  "dump_local_alloc loc =
     printf ''Local Bitmap Offset: %u   Size: %u'' [uw (la_bm_off loc), uw (la_size loc)]"

section \<open>Inodes\<close>

definition inode_type_name :: "u16 \<Rightarrow> string" where
  "inode_type_name mode =
     (if S_ISREG mode then ''Regular''
      else if S_ISDIR mode then ''Directory''
      else if S_ISCHR mode then ''Char Device''
      else if S_ISBLK mode then ''Block Device''
      else if S_ISFIFO mode then ''FIFO''
      else if S_ISLNK mode then ''Symbolic Link''
      else if S_ISSOCK mode then ''Socket''
      else ''Unknown'')"

definition inode_flag_names :: "u32 \<Rightarrow> string" where
  "inode_flag_names flags =
     concat (map snd (filter (\<lambda>(f, name). flags AND f \<noteq> 0)
       [(CMFS_VALID_FL, ''Valid ''), (CMFS_SYSTEM_FL, ''System ''), (CMFS_SUPER_BLOCK_FL, ''Superblock ''),
        (CMFS_LOCAL_ALLOC_FL, ''Localalloc ''), (CMFS_BITMAP_FL, ''Allocbitmap ''),
        (CMFS_JOURNAL_FL, ''Journal ''), (CMFS_CHAIN_FL, ''Chain '')]))"

text \<open>A time that \<^verbatim>\<open>ctime_nano\<close> does not print leaves its buffer uninitialised.\<close>

definition show_time :: "dbgfs_env \<Rightarrow> string \<Rightarrow> u64 \<Rightarrow> u32 \<Rightarrow> unit dbg" where
  "show_time env str sec nsec =
     (case ctime_nano env sec nsec of
        None \<Rightarrow> err_io C_UNDEFINED
      | Some t \<Rightarrow> printf ''%s: 0x%lx 0x%x -- %s.%ld %s'' ([St str, xw sec, xw nsec] @ t))"

text \<open>\<open>buf\<close> is the block of the inode, for the members of its unions.\<close>

definition dump_inode :: "dbgfs_env \<Rightarrow> bool \<Rightarrow> bytes \<Rightarrow> unit dbg" where
  "dump_inode env le buf =
     (let di = dinode_of le buf 0;
          name = (\<lambda>n. St (case n of None \<Rightarrow> ''unknown'' | Some n \<Rightarrow> n));
          has = (\<lambda>f. i_flags di AND f \<noteq> 0);
          total = ld32 le buf o_i_total; used = ld32 le buf o_i_used
      in
     bind_io (say_all
       [Printf ''Inode: %lu   Mode: 0%0o   Generation: %u (0x%x)''
          [uw (i_blkno di), Oc (unat (i_mode di AND 0x1FF)), uw (i_generation di), xw (i_generation di)],
        Printf ''FS Generation: %u (0x%x)'' [uw (i_fs_generation di), xw (i_fs_generation di)],
        Printf ''Type: %s   Attr: 0x%x   Flags: %s''
          [St (inode_type_name (i_mode di)), xw (i_attr di), St (inode_flag_names (i_flags di))],
        Printf ''User: %d (%s)   Group: %d (%s)   Size: %lu''
          [Sg (sint (i_uid di)), name (de_pw_name env (i_uid di)), Sg (sint (i_gid di)),
           name (de_gr_name env (i_gid di)), uw (i_size di)],
        Printf ''Links: %u   Clusters: %u'' [uw (i_links_count di), uw (i_clusters di)]]) (\<lambda>_.
     bind_io (show_time env ''ctime'' (i_ctime di) (i_ctime_nsec di)) (\<lambda>_.
     bind_io (show_time env ''atime'' (i_atime di) (i_atime_nsec di)) (\<lambda>_.
     bind_io (show_time env ''mtime'' (i_mtime di) (i_mtime_nsec di)) (\<lambda>_.
     say_all
       ([Printf ''dtime: 0x%lx -- %s'' [xw (i_dtime di), print_time env (i_dtime di)],
         Printf ''Refcount Block: %lu'' [uw (i_refcount_loc di)],
         Printf ''Last Extblk: %lu'' [uw (i_last_eb_blk di)],
         Printf ''Sub Alloc Slot: %s   Sub Alloc Bit: %u''
           [(if i_suballoc_slot di = 0xFFFF then St ''Global'' else uw (i_suballoc_slot di)),
            uw (i_suballoc_bit di)],
         (if i_suballoc_loc di \<noteq> 0 then Printf ''   Sub Alloc Group %lu'' [uw (i_suballoc_loc di)]
          else Printf [] [])] @
        (if has CMFS_BITMAP_FL
         then [Printf ''Bitmap Total: %u   Used: %u   Free: %u'' [uw total, uw used, uw (total - used)]] else []) @
        (if has CMFS_JOURNAL_FL
         then [Printf ''Journal Flags: '' []] @
              (if ld32 le buf o_ij_flags AND 1 \<noteq> 0 then [Printf ''Dirty '' []] else []) @
              [Printf [] [], Printf ''Recovery Generation: %u'' [uw (ld32 le buf 156)]]
         else [])))))))"

end
