(* ===== verification/Debugfs_commands.thy ===== *)
theory Debugfs_commands
  imports Debugfs_dump
begin

text \<open>
  The commands of \<^verbatim>\<open>debugfs.cmfs/commands.c\<close> and the session of \<^verbatim>\<open>debugfs.cmfs/main.c\<close>. A
  command gets its arguments with its name first; an argument past the end is the null
  pointer. \<open>EXIT\<close> ends the session, with the exit code in \<open>g_exit\<close>. The pager is not modelled:
  what is written to it is printed.
\<close>

section \<open>Arguments\<close>

definition check_device_open :: "bool dbg" where
  "check_device_open g =
     (if g_fs g = None then bind_io (eprintf ''No device open'' []) (\<lambda>_. ret_io False) g
      else (Inr True, g))"

text \<open>A command that goes on only with a device open.\<close>

definition with_device :: "'a \<Rightarrow> 'a dbg \<Rightarrow> 'a dbg" where
  "with_device x m = bind_io check_device_open (\<lambda>is_open. if is_open then m else ret_io x)"

definition read_blockbuf :: "(cmfs_filesys, bytes) io \<Rightarrow> bytes dbg" where
  "read_blockbuf m =
     bind_io (on_fs m) (\<lambda>b g. if g_blockbuf g then (Inr b, g) else (Inl C_UNDEFINED, g))"

definition lookup_path :: "string \<Rightarrow> u64 dbg" where
  "lookup_path str g = on_fs (string_to_inode (g_root_blkno g) (g_cwd_blkno g) str) g"

text \<open>The number of a block that a path or \<^verbatim>\<open><ino>\<close> names; \<open>None\<close> after an error message.\<close>

definition path_blkno :: "string \<Rightarrow> string \<Rightarrow> u64 option dbg" where
  "path_blkno cmd str =
     try_io (lookup_path str) (\<lambda>e. bind_io (com_err cmd e ''%s'' [St str]) (\<lambda>_. ret_io None)) (\<lambda>blkno g.
       if blkno \<ge> g_max_blocks g
       then bind_io (com_err cmd CMFS_ET_BAD_BLKNO ''- %lu'' [uw blkno]) (\<lambda>_. ret_io None) g
       else (Inr (Some blkno), g))"

definition process_inode_args :: "string list \<Rightarrow> u64 option dbg" where
  "process_inode_args args =
     with_device None
       (case arg args 1 of
          None \<Rightarrow> bind_io (eprintf ''usage: %s <filespec>'' [St (args ! 0)]) (\<lambda>_. ret_io None)
        | Some opts \<Rightarrow> path_blkno (args ! 0) opts)"

text \<open>The block and whether the long form is asked for.\<close>

definition process_ls_args :: "string list \<Rightarrow> (u64 \<times> bool) option dbg" where
  "process_ls_args args =
     with_device None
       (let long_opt = (arg args 1 = Some ''-l'');
            ind = (if long_opt then 2 else 1);
            opts = (case arg args ind of Some a \<Rightarrow> a | None \<Rightarrow> ''.'')
        in bind_io (path_blkno (args ! 0) opts) (\<lambda>r. ret_io (map_option (\<lambda>blkno. (blkno, long_opt)) r)))"

text \<open>
  The numbers from the front of the arguments, at most \<open>count\<close>; \<open>None\<close> when one of them is not a
  block of the file system.
\<close>

fun inodestr_prefix :: "u64 \<Rightarrow> nat \<Rightarrow> string list \<Rightarrow> u64 + u64 list" where
  "inodestr_prefix max_blocks (Suc n) (a # as) =
     (case inodestr_to_inode a of
        None \<Rightarrow> Inr []
      | Some blkno \<Rightarrow>
          if blkno \<ge> max_blocks then Inl blkno
          else (case inodestr_prefix max_blocks n as of Inl b \<Rightarrow> Inl b | Inr bs \<Rightarrow> Inr (blkno # bs)))"
| "inodestr_prefix max_blocks n as = Inr []"

text \<open>\<open>None\<close> is a result below 1.\<close>

definition process_inodestr_args :: "string list \<Rightarrow> nat \<Rightarrow> u64 list option dbg" where
  "process_inodestr_args args count =
     with_device None (\<lambda>g.
       if count < 1 then (Inr None, g)
       else case inodestr_prefix (g_max_blocks g) count (drop 1 args) of
         Inl b \<Rightarrow> bind_io (com_err (args ! 0) CMFS_ET_BAD_BLKNO ''- %lu'' [uw b]) (\<lambda>_. ret_io None) g
       | Inr [] \<Rightarrow> bind_io (eprintf ''usage: %s <inode#>'' [St (args ! 0)]) (\<lambda>_. ret_io None) g
       | Inr bs \<Rightarrow> (Inr (Some bs), g))"

section \<open>Opening and closing\<close>

definition leave_fs :: "dbgfs_gbls \<Rightarrow> dbgfs_gbls" where
  "leave_fs g = (case g_fs g of
     None \<Rightarrow> g
   | Some fs \<Rightarrow> g\<lparr>g_fs := None, g_devs := (g_devs g)(fs_devname fs := fs_io fs)\<rparr>)"

text \<open>Closing from within another command passes a null argument vector.\<close>

definition do_close :: "string list option \<Rightarrow> unit dbg" where
  "do_close args =
     with_device () (\<lambda>g.
       case g_fs g of
         None \<Rightarrow> (Inr (), g)
       | Some fs \<Rightarrow>
           (case cmfs_close fs of
              Inr ch \<Rightarrow> (Inr (), (leave_fs g)\<lparr> g_devs := (g_devs g)(fs_devname fs := ch),
                                             g_blockbuf := False, g_device := None \<rparr>)
            | Inl e \<Rightarrow>
                bind_io (case args of None \<Rightarrow> err_io C_UNDEFINED
                         | Some args \<Rightarrow> com_err (args ! 0) e ''while closing context'' [])
                  (\<lambda>_. upd_io (\<lambda>g. (leave_fs g)\<lparr>g_blockbuf := False, g_device := None\<rparr>)) g))"

definition open_device_fs :: "dbgfs_env \<Rightarrow> string \<Rightarrow> cmfs_filesys dbg" where
  "open_device_fs env dev g =
     (case cmfs_open (de_le env) dev (if g_allow_write g then CMFS_FLAG_RW else CMFS_FLAG_RO)
             (de_open64 env dev) (de_readonly env dev) (ucast CMFS_SUPER_BLOCK_BLKNO) 4096
             (g_devs (leave_fs g) dev) of
        (Inl e, ch) \<Rightarrow> (Inl e, (leave_fs g)\<lparr>g_devs := (g_devs (leave_fs g))(dev := ch)\<rparr>)
      | (Inr fs, _) \<Rightarrow> (Inr fs, (leave_fs g)\<lparr>g_fs := Some fs\<rparr>))"

definition set_globals :: "string \<Rightarrow> cmfs_filesys \<Rightarrow> dbgfs_gbls \<Rightarrow> dbgfs_gbls" where
  "set_globals dev fs g =
     (let sb = CMFS_RAW_SB fs;
          clusters = i_clusters (dinode_of (cpu_le fs) (fs_super fs) 0)
      in g\<lparr> g_device := Some dev, g_max_clusters := ucast clusters,
            g_max_blocks := cmfs_clusters_to_blocks fs clusters,
            g_root_blkno := s_root_blkno sb, g_sysdir_blkno := s_system_dir_blkno sb,
            g_cwd_blkno := s_root_blkno sb, g_cwd := Some ''/'' \<rparr>)"

definition do_open :: "dbgfs_env \<Rightarrow> string list \<Rightarrow> unit dbg" where
  "do_open env args =
     bind_io (get_io g_device) (\<lambda>device.
     bind_io (if device \<noteq> None then do_close None else ret_io ()) (\<lambda>_.
     case arg args 1 of
       None \<Rightarrow> eprintf ''usage: %s <device>'' [St (args ! 0)]
     | Some dev \<Rightarrow>
         try_io (open_device_fs env dev)
           (\<lambda>e. com_err (args ! 0) e ''while opening context for device %s'' [St dev]) (\<lambda>fs.
         try_io (on_fs malloc_block) (\<lambda>e. com_err (args ! 0) e ''while allocating a block'' []) (\<lambda>_.
         bind_io (upd_io (\<lambda>g. set_globals dev fs (g\<lparr>g_blockbuf := True\<rparr>))) (\<lambda>_.
         bind_io (get_io g_sysdir_blkno) (\<lambda>sysdir.
         try_io (on_fs (cmfs_lookup sysdir (c_bytes ''journal'') 7 False))
           (\<lambda>_. upd_io (\<lambda>g. g\<lparr>g_jrnl_blkno := 0\<rparr>))
           (\<lambda>blkno. upd_io (\<lambda>g. g\<lparr>g_jrnl_blkno := blkno\<rparr>))))))))"

section \<open>Directories\<close>

definition checked_directory :: "string \<Rightarrow> u64 \<Rightarrow> unit dbg \<Rightarrow> unit dbg" where
  "checked_directory cmd blkno m =
     try_io (on_fs (cmfs_check_directory blkno))
       (\<lambda>e. com_err cmd e ''while checking directory at block %lu'' [uw blkno]) (\<lambda>_. m)"

text \<open>A command on the block that its first argument names.\<close>

definition on_inode_arg :: "string list \<Rightarrow> (u64 \<Rightarrow> unit dbg) \<Rightarrow> unit dbg" where
  "on_inode_arg args f =
     bind_io (process_inode_args args) (\<lambda>r. case r of None \<Rightarrow> ret_io () | Some blkno \<Rightarrow> f blkno)"

definition do_cd :: "string list \<Rightarrow> unit dbg" where
  "do_cd args = on_inode_arg args (\<lambda>blkno.
     checked_directory (args ! 0) blkno (upd_io (\<lambda>g. g\<lparr>g_cwd_blkno := blkno\<rparr>)))"

definition do_chroot :: "string list \<Rightarrow> unit dbg" where
  "do_chroot args = on_inode_arg args (\<lambda>blkno.
     checked_directory (args ! 0) blkno (upd_io (\<lambda>g. g\<lparr>g_root_blkno := blkno\<rparr>)))"

text \<open>An operation with a callback that prints.\<close>

definition on_fs_printing :: "('p cb_state, 'a) io \<Rightarrow> 'p \<Rightarrow> ('p \<Rightarrow> event list option) \<Rightarrow> (errcode + 'a) dbg" where
  "on_fs_printing m p out g =
     (case g_fs g of
        None \<Rightarrow> (Inl C_UNDEFINED, g)
      | Some fs \<Rightarrow>
          (case m (fs, p) of (r, (fs, p)) \<Rightarrow>
             (case out p of
                None \<Rightarrow> (Inl C_UNDEFINED, g\<lparr>g_fs := Some fs\<rparr>)
              | Some evs \<Rightarrow>
                  ((case r of Inl C_UNDEFINED \<Rightarrow> Inl C_UNDEFINED | r \<Rightarrow> Inr r),
                   g\<lparr>g_fs := Some fs, g_out := g_out g @ evs\<rparr>))))"

definition report :: "string \<Rightarrow> string \<Rightarrow> u64 \<Rightarrow> errcode + 'a \<Rightarrow> unit dbg" where
  "report cmd msg blkno r = (case r of Inl e \<Rightarrow> com_err cmd e msg [uw blkno] | Inr _ \<Rightarrow> ret_io ())"

definition do_ls :: "dbgfs_env \<Rightarrow> string list \<Rightarrow> unit dbg" where
  "do_ls env args =
     bind_io (process_ls_args args) (\<lambda>r. case r of
       None \<Rightarrow> ret_io ()
     | Some (blkno, long_opt) \<Rightarrow>
         checked_directory (args ! 0) blkno
           (try_io (if long_opt then on_fs malloc_block else ret_io ())
              (\<lambda>e. com_err (args ! 0) e ''while allocating a block'' []) (\<lambda>_.
            bind_io (on_fs_printing (cmfs_dir_iterate blkno 0 False (dump_dir_entry env))
                       \<lparr> ld_out = [], ld_long_opt = long_opt, ld_outside = False \<rparr>
                       (\<lambda>ls. if ld_outside ls then None else Some (ld_out ls))) (\<lambda>r.
            report (args ! 0) ''while iterating directory at block %lu'' blkno r))))"

definition dirblocks_proxy :: "dbgfs_env \<Rightarrow> string \<Rightarrow> u64 \<Rightarrow> event list block_func" where
  "dirblocks_proxy env cmd ino blkno bcount ext_flags s =
     (let (fs, out) = s in
      case cmfs_read_dir_block blkno fs of
        (Inr buf, fs) \<Rightarrow>
          (case dump_dir_block env fs buf of
             None \<Rightarrow> (Inl C_UNDEFINED, (fs, out))
           | Some evs \<Rightarrow> (Inr 0, (fs, out @ Printf ''Dirblock: %lu'' [uw blkno] # evs)))
      | (Inl e, fs) \<Rightarrow>
          if e = C_UNDEFINED then (Inl C_UNDEFINED, (fs, out))
          else (Inr 0, (fs, out @ [Com_err cmd (Code e) ''while reading dirblock %lu on inode %lu''
                                     [uw blkno, uw ino]])))"

definition do_dirblocks :: "dbgfs_env \<Rightarrow> string list \<Rightarrow> unit dbg" where
  "do_dirblocks env args = on_inode_arg args (\<lambda>blkno.
     checked_directory (args ! 0) blkno
       (try_io (read_blockbuf (cmfs_read_inode blkno))
          (\<lambda>e. com_err (args ! 0) e ''while reading inode %lu'' [uw blkno]) (\<lambda>di.
        bind_io (get_io g_cmd) (\<lambda>cmd.
        try_io (on_fs malloc_block) (\<lambda>e. com_err cmd e ''while allocating a block'' []) (\<lambda>_.
        bind_io (get_io (\<lambda>g. case g_fs g of Some fs \<Rightarrow> ld64 (cpu_le fs) di o_i_blkno | None \<Rightarrow> 0)) (\<lambda>ino.
        bind_io (on_fs_printing (cmfs_block_iterate_inode di 0 (dirblocks_proxy env cmd ino)) [] Some) (\<lambda>r.
        report (args ! 0) ''while iterating directory at block %lu'' blkno r)))))))"

section \<open>Extents\<close>

text \<open>
  The search for the block of a file, printed. \<open>buf\<close> holds the list at \<open>b\<close>. The levels of the
  tree are not counted, so that a cycle of extent blocks would be followed without end.
\<close>

fun find_rec :: "cmfs_filesys \<Rightarrow> bytes \<Rightarrow> nat \<Rightarrow> u32 \<Rightarrow> nat \<Rightarrow> nat \<Rightarrow> nat option" where
  "find_rec fs buf b clstoff i 0 = None"
| "find_rec fs buf b clstoff i (Suc k) =
     (let rec = el_rec (cpu_le fs) buf b i;
          clusters = ucast (cmfs_rec_clusters fs (ld16 (cpu_le fs) buf (b + o_l_tree_depth)) rec) :: u32
      in if clusters = 0 \<or> ucast clstoff \<ge> e_cpos rec + ucast clusters
         then find_rec fs buf b clstoff (i + 1) k
         else Some i)"

partial_function (option) find_block_offset ::
  "bytes \<Rightarrow> nat \<Rightarrow> u64 \<Rightarrow> cmfs_filesys \<Rightarrow> dbgfs_gbls \<Rightarrow> ((errcode + unit) \<times> dbgfs_gbls) option" where
  "find_block_offset buf b blkoff fs g =
     (let le = cpu_le fs; n = unat (ld16 le buf (b + o_l_next_free_rec));
          clstoff = ucast (cmfs_blocks_to_clusters fs blkoff) :: u32;
          outside = (\<lambda>k. b + o_l_recs + 32 * k > length buf)
      in case find_rec fs buf b clstoff 0 n of
           None \<Rightarrow> if outside n then Some (Inl C_UNDEFINED, g) else Some (dump_logical_blkno 0 g)
         | Some i \<Rightarrow>
             let rec = el_rec le buf b i in
             if outside (i + 1) then Some (Inl C_UNDEFINED, g) else
             if ld16 le buf (b + o_l_tree_depth) = 0 then
               if ucast clstoff < e_cpos rec then Some (dump_logical_blkno 0 g)
               else
                 let tmp = ucast (blkoff - cmfs_clusters_to_blocks fs (ucast (e_cpos rec))) :: u32
                 in Some (dump_logical_blkno (e_blkno rec + ucast tmp) g)
             else (case on_fs malloc_block g of
                 (Inl e, g) \<Rightarrow>
                   Some (bind_io (com_err (g_cmd g) e ''while allocating a block'' []) (\<lambda>_. err_io e) g)
               | (Inr _, g) \<Rightarrow>
                   (case on_fs (cmfs_read_extent_block (e_blkno rec)) g of
                      (Inl e, g) \<Rightarrow>
                        if e = C_UNDEFINED then Some (Inl C_UNDEFINED, g)
                        else Some (bind_io (com_err (g_cmd g) e ''while reading extent %lu'' [uw (e_blkno rec)])
                                     (\<lambda>_. err_io e) g)
                    | (Inr eb, g) \<Rightarrow>
                        (case g_fs g of
                           None \<Rightarrow> Some (Inl C_UNDEFINED, g)
                         | Some fs \<Rightarrow> find_block_offset eb o_h_list blkoff fs g))))"

text \<open>
  The number of extents below a list; \<open>rest\<close> are the records that are left of it, starting at \<open>i\<close>.
\<close>

partial_function (option) calc_num_extents_from ::
  "bytes \<Rightarrow> nat \<Rightarrow> nat \<Rightarrow> u32 \<Rightarrow> cmfs_filesys \<Rightarrow> ((errcode + u32) \<times> cmfs_filesys) option" where
  "calc_num_extents_from buf b i ne fs =
     (let le = cpu_le fs; n = unat (ld16 le buf (b + o_l_next_free_rec));
          depth = ld16 le buf (b + o_l_tree_depth);
          rec = el_rec le buf b i;
          clusters = ucast (cmfs_rec_clusters fs depth rec) :: u32
      in if \<not> i < n then Some (Inr ne, fs)
         else if b + o_l_recs + 32 * (i + 1) > length buf then Some (Inl C_UNDEFINED, fs)
         else if clusters = 0 \<and> i = n - 1 then Some (Inr ne, fs)
         else if depth = 0 then calc_num_extents_from buf b (i + 1) (ne + 1) fs
         else (case bind_io malloc_block (\<lambda>_. cmfs_read_extent_block (e_blkno rec)) fs of
             (Inl e, fs) \<Rightarrow> Some (Inl e, fs)
           | (Inr eb, fs) \<Rightarrow>
               Option.bind (calc_num_extents_from eb o_h_list 0 0 fs) (\<lambda>r. case r of
                 (Inl e, fs) \<Rightarrow> Some (Inl e, fs)
               | (Inr extents, fs) \<Rightarrow> calc_num_extents_from buf b (i + 1) (ne + extents) fs)))"

definition calc_num_extents :: "bytes \<Rightarrow> nat \<Rightarrow> cmfs_filesys \<Rightarrow> ((errcode + u32) \<times> cmfs_filesys) option" where
  "calc_num_extents buf b fs = calc_num_extents_from buf b 0 0 fs"

text \<open>A run that does not end is \<open>C_UNDEFINED\<close>.\<close>

definition or_undefined :: "((errcode + 'a) \<times> 's) option \<Rightarrow> 's \<Rightarrow> (errcode + 'a) \<times> 's" where
  "or_undefined r s = (case r of None \<Rightarrow> (Inl C_UNDEFINED, s) | Some x \<Rightarrow> x)"

definition do_extent :: "string list \<Rightarrow> unit dbg" where
  "do_extent args =
     bind_io (process_inodestr_args args 1) (\<lambda>r. case r of
       Some [blkno] \<Rightarrow>
         try_io (read_blockbuf (cmfs_read_extent_block blkno))
           (\<lambda>e. com_err (args ! 0) e ''while reading extent block %lu'' [uw blkno]) (\<lambda>eb g.
             case g_fs g of
               None \<Rightarrow> (Inl C_UNDEFINED, g)
             | Some fs \<Rightarrow>
                 bind_io (dump_extent_block (extent_block_of (cpu_le fs) eb 0))
                   (\<lambda>_. dump_extent_list fs eb o_h_list) g)
     | _ \<Rightarrow> ret_io ())"

definition do_frag :: "string list \<Rightarrow> unit dbg" where
  "do_frag args = on_inode_arg args (\<lambda>blkno.
     try_io (read_blockbuf (cmfs_read_inode blkno))
       (\<lambda>e. com_err (args ! 0) e ''while reading inode %lu'' [uw blkno]) (\<lambda>buf g.
         case g_fs g of
           None \<Rightarrow> (Inl C_UNDEFINED, g)
         | Some fs \<Rightarrow>
             let le = cpu_le fs in
             try_io (if ld16 le buf o_i_dyn_features AND CMFS_INLINE_DATA_FL = 0
                     then on_fs (\<lambda>fs. or_undefined (calc_num_extents buf o_id2 fs) fs) else ret_io 0)
               (\<lambda>e. com_err (args ! 0) e ''while traversing inode at block %lu'' [uw blkno])
               (\<lambda>extents. dump_frag fs (ld64 le buf o_i_blkno) (ld32 le buf o_i_clusters) extents) g))"

definition do_bmap :: "string list \<Rightarrow> unit dbg" where
  "do_bmap args =
     with_device ()
       (case (arg args 1, arg args 2) of
          (Some path, Some off) \<Rightarrow>
            bind_io (path_blkno (args ! 0) path) (\<lambda>r. case r of
              None \<Rightarrow> ret_io ()
            | Some blkno \<Rightarrow>
                let (blkoff, rest) = strtoull off in
                if rest \<noteq> [] then com_err (args ! 0) CMFS_ET_BAD_BLKNO ''- %lu'' [uw blkoff]
                else try_io (read_blockbuf (cmfs_read_inode blkno))
                  (\<lambda>e. com_err (args ! 0) e ''while reading inode %lu'' [uw blkno]) (\<lambda>buf g.
                    case g_fs g of
                      None \<Rightarrow> (Inl C_UNDEFINED, g)
                    | Some fs \<Rightarrow>
                        let di = dinode_of (cpu_le fs) buf 0 in
                        if i_flags di AND (CMFS_LOCAL_ALLOC_FL OR CMFS_CHAIN_FL OR CMFS_DEALLOC_FL) \<noteq> 0
                           \<or> S_ISLNK (i_mode di) \<and> i_clusters di = 0
                           \<or> blkoff > drop_bit (sb_bits fs) (i_size di)
                        then dump_logical_blkno 0 g
                        else (case or_undefined (find_block_offset buf o_id2 blkoff fs g) g of
                                (Inl C_UNDEFINED, g) \<Rightarrow> (Inl C_UNDEFINED, g)
                              | (_, g) \<Rightarrow> (Inr (), g))))
        | _ \<Rightarrow> eprintf ''usage: %s'' [St ''bmap <filespec> <logical_blk>''])"

section \<open>Showing structures\<close>

text \<open>\<^verbatim>\<open>getopt\<close> with the options \<^verbatim>\<open>h\<close>: whether \<^verbatim>\<open>-h\<close> is there, and the characters that are no options.\<close>

fun getopt_h :: "string list \<Rightarrow> bool \<times> string" where
  "getopt_h [] = (False, [])"
| "getopt_h (a # as) =
     (if a = ''--'' then (False, [])
      else let (h, bad) = getopt_h as
           in if length a > 1 \<and> a ! 0 = CHR ''-''
              then (h \<or> CHR ''h'' \<in> set (tl a), filter (\<lambda>c. c \<noteq> CHR ''h'') (tl a) @ bad)
              else (h, bad))"

definition do_stats :: "dbgfs_env \<Rightarrow> string list \<Rightarrow> unit dbg" where
  "do_stats env args =
     with_device ()
       (let (only_super, bad) = getopt_h (drop 1 args) in
        bind_io (say_all (map (\<lambda>c. Eprintf ''%s: invalid option -- %c'' [St (args ! 0), St [c]]) bad)) (\<lambda>_ g.
        case g_fs g of
          None \<Rightarrow> (Inl C_UNDEFINED, g)
        | Some fs \<Rightarrow>
            bind_io (dump_super_block env (CMFS_RAW_SB fs)) (\<lambda>_.
            if only_super then ret_io () else dump_inode env (cpu_le fs) (fs_super fs)) g))"

definition symlink_text :: "bytes \<Rightarrow> string" where
  "symlink_text buf = c_text (drop o_id2 buf)"

definition do_stat :: "dbgfs_env \<Rightarrow> string list \<Rightarrow> unit dbg" where
  "do_stat env args =
     with_device ()
       (case arg args 1 of
          None \<Rightarrow> eprintf ''usage: stat [-t|-T] <filespec>'' []
        | Some opt \<Rightarrow>
            let traverse = (take 2 opt \<noteq> ''-T'');
                index = (if take 2 opt \<in> {''-t'', ''-T''} then 2 else 1)
            in case arg args index of
              None \<Rightarrow> err_io C_UNDEFINED
            | Some path \<Rightarrow>
                try_io (lookup_path path) (\<lambda>e. com_err (args ! 0) e ''%s'' [St path]) (\<lambda>blkno.
                try_io (read_blockbuf (cmfs_read_inode blkno))
                  (\<lambda>e. com_err (args ! 0) e ''while reading inode %lu'' [uw blkno]) (\<lambda>buf g.
                  case g_fs g of
                    None \<Rightarrow> (Inl C_UNDEFINED, g)
                  | Some fs \<Rightarrow>
                      let le = cpu_le fs; di = dinode_of le buf 0 in
                      bind_io (dump_inode env le buf) (\<lambda>_.
                      if \<not> traverse then ret_io ()
                      else if i_flags di AND CMFS_LOCAL_ALLOC_FL \<noteq> 0
                      then dump_local_alloc (local_alloc_of le buf o_id2)
                      else if i_flags di AND CMFS_CHAIN_FL \<noteq> 0
                      then say (Com_err (args ! 0) traverse_chains ''while traversing inode at block %lu'' [uw blkno])
                      else if S_ISLNK (i_mode di) \<and> i_clusters di = 0
                      then dump_fast_symlink (symlink_text buf)
                      else ret_io ()) g)))"

definition do_cat :: "string list \<Rightarrow> unit dbg" where
  "do_cat args = on_inode_arg args (\<lambda>blkno.
     try_io (read_blockbuf (cmfs_read_inode blkno))
       (\<lambda>e. com_err (args ! 0) e ''while reading inode %lu'' [uw blkno]) (\<lambda>buf g.
         case g_fs g of
           None \<Rightarrow> (Inl C_UNDEFINED, g)
         | Some fs \<Rightarrow>
             if \<not> S_ISREG (ld16 (cpu_le fs) buf o_i_mode)
             then eprintf ''%s: Not a regular file'' [St (args ! 0)] g
             else try_io (dump_file blkno)
               (\<lambda>e. com_err (args ! 0) e ''while reading file for inode %lu'' [uw blkno]) (\<lambda>_. ret_io ()) g))"

text \<open>The groups of a chain, one after the other.\<close>

partial_function (option) show_groups ::
  "string \<Rightarrow> u64 \<Rightarrow> nat \<Rightarrow> dbgfs_gbls \<Rightarrow> ((errcode + unit) \<times> dbgfs_gbls) option" where
  "show_groups cmd blkno index g =
     (if blkno = 0 then Some (Inr (), g)
      else case read_blockbuf (cmfs_read_group_desc blkno) g of
        (Inl e, g) \<Rightarrow>
          if e = C_UNDEFINED then Some (Inl C_UNDEFINED, g)
          else Some (com_err cmd e ''while reading block group descriptor %lu'' [uw blkno] g)
      | (Inr gd, g) \<Rightarrow>
          (case g_fs g of
             None \<Rightarrow> Some (Inl C_UNDEFINED, g)
           | Some fs \<Rightarrow>
               (case dump_group_descriptor (cpu_le fs) gd index of
                  None \<Rightarrow> None
                | Some evs \<Rightarrow>
                    show_groups cmd (ld64 (cpu_le fs) gd o_bg_next_group) (index + 1)
                      (g\<lparr>g_out := g_out g @ evs\<rparr>))))"

definition do_group :: "string list \<Rightarrow> unit dbg" where
  "do_group args =
     bind_io (process_inodestr_args args 1) (\<lambda>r. case r of
       Some [blkno] \<Rightarrow> (\<lambda>g. or_undefined (show_groups (args ! 0) blkno 0 g) g)
     | _ \<Rightarrow> ret_io ())"

abbreviation (input) MAX_BLOCKS :: nat where "MAX_BLOCKS \<equiv> 50"

text \<open>The search that the two commands start is not implemented; its result is not looked at.\<close>

definition do_locate :: "string list \<Rightarrow> unit dbg" where
  "do_locate args =
     bind_io (process_inodestr_args args MAX_BLOCKS) (\<lambda>r. case r of
       None \<Rightarrow> ret_io ()
     | Some blknos \<Rightarrow>
         let _ = find_inode_paths (take 8 (args ! 0) \<noteq> ''findpath'') blknos in ret_io ())"

fun icheck_blocks :: "string \<Rightarrow> u64 \<Rightarrow> nat \<Rightarrow> string list \<Rightarrow> event + u64 list" where
  "icheck_blocks cmd max_blocks (Suc n) (a # as) =
     (let (blkno, rest) = strtoull a in
      if rest \<noteq> [] then Inl (Com_err cmd (Code CMFS_ET_BAD_BLKNO) ''- %s'' [St a])
      else if blkno \<ge> max_blocks then Inl (Com_err cmd (Code CMFS_ET_BAD_BLKNO) ''- %lu'' [uw blkno])
      else (case icheck_blocks cmd max_blocks n as of Inl ev \<Rightarrow> Inl ev | Inr bs \<Rightarrow> Inr (blkno # bs)))"
| "icheck_blocks cmd max_blocks n as = Inr []"

definition do_icheck :: "string list \<Rightarrow> unit dbg" where
  "do_icheck args =
     with_device ()
       (if arg args 1 = None then eprintf ''%s'' [St ''usage: icheck block# ...'']
        else bind_io (get_io g_max_blocks) (\<lambda>max_blocks.
          case icheck_blocks (args ! 0) max_blocks MAX_BLOCKS (drop 1 args) of
            Inl ev \<Rightarrow> say ev
          | Inr bs \<Rightarrow> let _ = find_block_inode bs in ret_io ()))"

definition do_stat_sysdir :: "unit dbg" where
  "do_stat_sysdir = with_device () show_stat_sysdir"

definition do_lcd :: "dbgfs_env \<Rightarrow> string list \<Rightarrow> unit dbg" where
  "do_lcd env args =
     with_device ()
       (case arg args 1 of
          None \<Rightarrow> (case de_getcwd env of
              Inl e \<Rightarrow> com_err (args ! 0) (ERRNO e) ''while reading current working directory'' []
            | Inr dir \<Rightarrow> printf ''%s'' [St dir])
        | Some dir \<Rightarrow> (case de_chdir env dir of
              Some e \<Rightarrow> com_err (args ! 0) (ERRNO e) ''%s'' [St dir]
            | None \<Rightarrow> ret_io ()))"

definition do_curdev :: "unit dbg" where
  "do_curdev = bind_io (get_io g_device) (\<lambda>d.
     printf ''%s'' [St (case d of Some d \<Rightarrow> d | None \<Rightarrow> ''No device'')])"

definition exit_with :: "nat \<Rightarrow> unit dbg" where
  "exit_with code = bind_io (upd_io (\<lambda>g. g\<lparr>g_exit := Some code\<rparr>)) (\<lambda>_. err_io EXIT)"

definition close_device :: "unit dbg" where
  "close_device = bind_io (get_io g_device) (\<lambda>d. if d \<noteq> None then do_close None else ret_io ())"

definition do_quit :: "unit dbg" where
  "do_quit = bind_io close_device (\<lambda>_. exit_with 0)"

text \<open>\<open>SIGTERM\<close> and \<open>SIGINT\<close>.\<close>

definition handle_signal :: "unit dbg" where
  "handle_signal = bind_io close_device (\<lambda>_. exit_with 1)"

section \<open>The command table\<close>

datatype cmdfunc =
    Bmap | Cat | Cd | Chroot | Close | Curdev | Dirblocks | Extent | Locate | Frag | Group | Help
  | Icheck | Lcd | Ls | Open | Quit | Stat | Stat_sysdir | Stats

definition commands :: "(string \<times> cmdfunc \<times> (string \<times> string) option) list" where
  "commands =
     [(''bmap'', Bmap, Some (''bmap <filespec> <logical_blk>'',
         ''Show the corresponding physical block# for the inode'')),
      (''cat'', Cat, Some (''cat <filespec>'', ''Show file on stdout'')),
      (''cd'', Cd, Some (''cd <filespec>'', ''Change directory'')),
      (''chroot'', Chroot, Some (''chroot <filespec>'', ''Change root'')),
      (''close'', Close, Some (''close'', ''Close a device'')),
      (''curdev'', Curdev, Some (''curdev'', ''Show current device'')),
      (''dirblocks'', Dirblocks, Some (''dirblocks <filespec>'', ''Dump directory blocks'')),
      (''extent'', Extent, Some (''extent <block#>'', ''Show extent block'')),
      (''findpath'', Locate, Some (''findpath <block#>'', ''List one pathname of the inode/lockname'')),
      (''frag'', Frag, Some (''frag <filespec>'', ''Show inode extents / clusters ratio'')),
      (''group'', Group, Some (''group <block#>'', ''Show chain group'')),
      (''help'', Help, Some (''help, ?'', ''This information'')),
      (''?'', Help, None),
      (''icheck'', Icheck, Some (''icheck block# ...'', ''List inode# that is using the block#'')),
      (''lcd'', Lcd, Some (''lcd <directory>'', ''Change directory on a mounted flesystem'')),
      (''locate'', Locate, Some (''locate <block#> ...'', ''List all pathnames of the inode(s)/lockname(s)'')),
      (''ls'', Ls, Some (''ls [-l] <filespec>'', ''List directory'')),
      (''ncheck'', Locate, Some (''ncheck <block#> ...'', ''List all pathnames of the inode(s)/lockname(s)'')),
      (''open'', Open, Some (''open <device> [-i] [-s backup#]'', ''Open a device'')),
      (''quit'', Quit, Some (''quit, q'', ''Exit the program'')),
      (''q'', Quit, None),
      (''stat'', Stat, Some (''stat [-t|-T] <filespec>'', ''Show inode'')),
      (''stat_sysdir'', Stat_sysdir, Some (''stat_sysdir'', ''Show all objects in the system directory'')),
      (''stats'', Stats, Some (''stats [-h]'', ''Show superblock''))]"

definition do_help :: "unit dbg" where
  "do_help =
     (let usages = List.map_filter (\<lambda>(_, _, d). d) commands;
          usagelen = fold (\<lambda>(usage, _) m. max m (length usage)) usages 40
      in say_all (map (\<lambda>(usage, desc). Printf ''%-*s  %s'' [Uv usagelen, St usage, St desc]) usages))"

definition find_command :: "string \<Rightarrow> cmdfunc option" where
  "find_command cmd = map_option fst (map_of commands cmd)"

definition cmd_func :: "dbgfs_env \<Rightarrow> cmdfunc \<Rightarrow> string list \<Rightarrow> unit dbg" where
  "cmd_func env f args =
     (case f of
        Bmap \<Rightarrow> do_bmap args | Cat \<Rightarrow> do_cat args | Cd \<Rightarrow> do_cd args | Chroot \<Rightarrow> do_chroot args
      | Close \<Rightarrow> do_close (Some args) | Curdev \<Rightarrow> do_curdev | Dirblocks \<Rightarrow> do_dirblocks env args
      | Extent \<Rightarrow> do_extent args | Locate \<Rightarrow> do_locate args | Frag \<Rightarrow> do_frag args
      | Group \<Rightarrow> do_group args | Help \<Rightarrow> do_help | Icheck \<Rightarrow> do_icheck args | Lcd \<Rightarrow> do_lcd env args
      | Ls \<Rightarrow> do_ls env args | Open \<Rightarrow> do_open env args | Quit \<Rightarrow> do_quit | Stat \<Rightarrow> do_stat env args
      | Stat_sysdir \<Rightarrow> do_stat_sysdir | Stats \<Rightarrow> do_stats env args)"

text \<open>GLib's \<^verbatim>\<open>g_strsplit\<close> gives no argument at all only for an empty line.\<close>

definition do_command :: "dbgfs_env \<Rightarrow> string \<Rightarrow> unit dbg" where
  "do_command env cmd =
     (if cmd = [] then ret_io ()
      else case crunch_strsplit (de_strsplit env cmd) of
        [] \<Rightarrow> err_io C_UNDEFINED
      | a # as \<Rightarrow>
          if take 1 a = ''#'' then ret_io ()
          else (case find_command a of
              Some f \<Rightarrow> bind_io (upd_io (\<lambda>g. g\<lparr>g_cmd := a\<rparr>)) (\<lambda>_. cmd_func env f (a # as))
            | None \<Rightarrow> eprintf ''%s: command not found'' [St a]))"

section \<open>The session\<close>

text \<open>
  \<^verbatim>\<open>fgets\<close> into the buffer of 1024 bytes. The last character is cut off even when it is not
  the end of a line; lines that are then blank are skipped. The result is the line and what
  is left of the input.
\<close>

definition fgets :: "string \<Rightarrow> string \<times> string" where
  "fgets input =
     (let line = takeWhile (\<lambda>c. c \<noteq> CHR 0x0A) input;
          n = min 1023 (if length line < length input then length line + 1 else length line)
      in (take n input, drop n input))"

lemma fgets_shorter: "input \<noteq> [] \<Longrightarrow> length (snd (fgets input)) < length input"
  by (cases input) (auto simp: fgets_def Let_def min_def)

function get_line :: "dbgfs_env \<Rightarrow> string \<Rightarrow> (string \<times> string) option" where
  "get_line env input =
     (if input = [] then None
      else let line = de_strchug env (butlast (fst (fgets input)))
           in if line \<noteq> [] then Some (line, snd (fgets input)) else get_line env (snd (fgets input)))"
  by pat_completeness auto
termination by (relation "measure (\<lambda>(env, input). length input)") (auto simp: fgets_shorter)

declare get_line.simps [simp del]

lemma get_line_shorter: "get_line env input = Some (line, rest) \<Longrightarrow> length rest < length input"
proof (induction env input rule: get_line.induct)
  case (1 env input)
  then show ?case
    by (subst (asm) (2) get_line.simps) (fastforce simp: Let_def fgets_shorter split: if_splits dest: less_trans [OF _ fgets_shorter])
qed

text \<open>The lines of a command file, and a line that has been typed in.\<close>

function file_lines :: "dbgfs_env \<Rightarrow> string \<Rightarrow> string list" where
  "file_lines env input =
     (case get_line env input of None \<Rightarrow> [] | Some (line, rest) \<Rightarrow> line # file_lines env rest)"
  by pat_completeness auto
termination by (relation "measure (\<lambda>(env, input). length input)") (auto simp: get_line_shorter)

declare file_lines.simps [simp del]

definition typed_line :: "dbgfs_env \<Rightarrow> string \<Rightarrow> string" where
  "typed_line env line = (if line = [] then [] else de_strchug env line)"

text \<open>The session, until the input ends.\<close>

fun run_lines :: "dbgfs_env \<Rightarrow> bool \<Rightarrow> string list \<Rightarrow> unit dbg" where
  "run_lines env no_prompt [] = bind_io (printf [] []) (\<lambda>_. handle_signal)"
| "run_lines env no_prompt (line # lines) =
     bind_io (get_io g_interactive) (\<lambda>interactive.
     bind_io (if \<not> interactive \<and> \<not> no_prompt
              then printf ''%s%s'' [St ''debugfs: '', St line] else ret_io ()) (\<lambda>_.
     bind_io (do_command env line) (\<lambda>_. run_lines env no_prompt lines)))"

record dbgfs_opts =
  o_allow_write :: bool
  o_no_prompt :: bool
  o_sb_num :: u32
  o_cmd_file :: "string option"
  o_one_cmd :: "string option"
  o_device :: "string option"

text \<open>
  The options as \<^verbatim>\<open>getopt_long\<close> delivers them, with their text; the long forms of \<^verbatim>\<open>-w\<close> and
  \<^verbatim>\<open>-s\<close> are declared as \<^verbatim>\<open>-?\<close> and without a value. An empty text or a request for help prints
  the usage and ends the process.
\<close>

datatype dbgfs_option = OptFile string | OptRequest string | OptWrite | OptNoprompt | OptHelp
  | OptVers | OptSuper "string option" | OptLog

definition usage_exit :: "'a dbg" where
  "usage_exit = bind_io (say_all (map (\<lambda>line. Printf line [])
     [''usage: %s [-f cmdfile] [-R request] [-i] [-s backup#] [-V] [-w] [-n] [-?] [device]'',
      ''-f, --file <cmdfile>  Execute commands in cmdfile'',
      ''-R, --request <command>  Execute a single command'',
      ''-s, --superblock <backup#>  Open the device using a backup superblock'',
      ''-w, --write  Open in read-write mode instead of the default of read-only'',
      ''-V, --version  Show version'', ''-n, --noprompt  Hide prompt'', ''-?, --help  Show this help'']))
     (\<lambda>_. bind_io (upd_io (\<lambda>g. g\<lparr>g_exit := Some 0\<rparr>)) (\<lambda>_. err_io EXIT))"

definition print_version :: "dbgfs_env \<Rightarrow> unit dbg" where
  "print_version env = eprintf ''%s %s'' [St (de_progname env), St (de_version env)]"

fun get_options :: "dbgfs_env \<Rightarrow> dbgfs_option list \<Rightarrow> string option \<Rightarrow> dbgfs_opts \<Rightarrow> dbgfs_opts dbg" where
  "get_options env [] device opts = ret_io (opts\<lparr>o_device := device\<rparr>)"
| "get_options env (opt # rest) device opts =
     (case opt of
        OptFile f \<Rightarrow> if f = [] then usage_exit else get_options env rest device (opts\<lparr>o_cmd_file := Some f\<rparr>)
      | OptRequest r \<Rightarrow> if r = [] then usage_exit else get_options env rest device (opts\<lparr>o_one_cmd := Some r\<rparr>)
      | OptWrite \<Rightarrow> get_options env rest device (opts\<lparr>o_allow_write := True\<rparr>)
      | OptNoprompt \<Rightarrow> get_options env rest device (opts\<lparr>o_no_prompt := True\<rparr>)
      | OptHelp \<Rightarrow> bind_io (print_version env) (\<lambda>_. usage_exit)
      | OptVers \<Rightarrow> bind_io (print_version env)
          (\<lambda>_. bind_io (upd_io (\<lambda>g. g\<lparr>g_exit := Some 0\<rparr>)) (\<lambda>_. err_io EXIT))
      | OptSuper None \<Rightarrow> err_io C_UNDEFINED
      | OptSuper (Some t) \<Rightarrow> get_options env rest device (opts\<lparr>o_sb_num := ucast (fst (strtoull t))\<rparr>)
      | OptLog \<Rightarrow> usage_exit)"

definition zero_gbls :: "(string \<Rightarrow> io_channel) \<Rightarrow> dbgfs_opts \<Rightarrow> dbgfs_gbls" where
  "zero_gbls devs opts =
     \<lparr> g_allow_write = o_allow_write opts, g_interactive = (o_cmd_file opts = None), g_device = None,
       g_fs = None, g_cwd = None, g_cmd = [], g_cwd_blkno = 0, g_blockbuf = False,
       g_max_clusters = 0, g_max_blocks = 0, g_root_blkno = 0, g_sysdir_blkno = 0, g_jrnl_blkno = 0,
       g_devs = devs, g_out = [], g_exit = None \<rparr>"

text \<open>
  \<^verbatim>\<open>main\<close> after the options: \<open>files\<close> gives the text of a command file, or the errno of opening it,
  \<open>typed\<close> the lines typed in, and \<open>decimal_text\<close> prints a number.
\<close>

definition debugfs_main ::
  "dbgfs_env \<Rightarrow> (u32 \<Rightarrow> string) \<Rightarrow> (string \<Rightarrow> nat + string) \<Rightarrow> string list \<Rightarrow> string \<Rightarrow> dbgfs_opts \<Rightarrow> unit dbg" where
  "debugfs_main env decimal_text files typed argv0 opts =
     bind_io (case o_device opts of
         None \<Rightarrow> ret_io ()
       | Some dev \<Rightarrow> do_command env (''open '' @ dev @
           (if o_sb_num opts \<noteq> 0 then '' -s '' @ decimal_text (o_sb_num opts) else []))) (\<lambda>_.
     case o_one_cmd opts of
       Some cmd \<Rightarrow> bind_io (do_command env cmd) (\<lambda>_. ret_io ())
     | None \<Rightarrow>
         (case (case o_cmd_file opts of None \<Rightarrow> Inr (map (typed_line env) typed) | Some f \<Rightarrow> map_sum id (file_lines env) (files f)) of
            Inl e \<Rightarrow> com_err argv0 (ERRNO e) ''%s'' [St (case o_cmd_file opts of Some f \<Rightarrow> f | None \<Rightarrow> [])]
          | Inr lines \<Rightarrow>
              bind_io (if o_no_prompt opts then ret_io ()
                       else print_version env)
                (\<lambda>_. run_lines env (o_no_prompt opts) lines)))"

end
