(* ===== verification/Reading.thy ===== *)
theory Reading
  imports Transfers Filesys
begin

text \<open>
  Reading metadata from a quiet device, that is one on which no system call fails and no
  allocation fails: there every read of the file-system layer is a function of the
  blocks of the device. \<open>calm\<close> relates the states before and after operations that only
  read; \<open>yields\<close> says what an operation returns, and that it is calm.
\<close>

section \<open>Results of operations that only read\<close>

definition yields :: "('s \<Rightarrow> 's \<Rightarrow> bool) \<Rightarrow> ('s, 'a) io \<Rightarrow> 's \<Rightarrow> errcode + 'a \<Rightarrow> bool" where
  "yields R m s r \<longleftrightarrow> fst (m s) = r \<and> R s (snd (m s))"

text \<open>What the composition of operations needs to know of the relation.\<close>

locale calm_steps =
  fixes R :: "'s \<Rightarrow> 's \<Rightarrow> bool"
  assumes refl [simp]: "R s s"
    and trans: "R s t \<Longrightarrow> R t u \<Longrightarrow> R s u"
begin

lemma ret: "yields R (ret_io x) s (Inr x)"
  by (simp add: yields_def io_simps)

lemma get: "f s = x \<Longrightarrow> yields R (get_io f) s (Inr x)"
  by (simp add: yields_def io_simps)

lemma guard: "b \<Longrightarrow> yields R (guard_io b e) s (Inr ())"
  by (simp add: yields_def io_simps)

lemma guard_err: "\<not> b \<Longrightarrow> yields R (guard_io b e) s (Inl e)"
  by (simp add: yields_def io_simps)

lemma bind:
  assumes "yields R m s (Inr x)" and "\<And>t. R s t \<Longrightarrow> yields R (f x) t r"
  shows "yields R (bind_io m f) s r"
  using assms trans by (cases "m s") (auto simp: yields_def bind_io_def)

lemma bind_err: "yields R m s (Inl e) \<Longrightarrow> yields R (bind_io m f) s (Inl e)"
  by (cases "m s") (auto simp: yields_def bind_io_def)

lemma bind_cases:
  assumes "yields R m s r" and "\<And>x t. r = Inr x \<Longrightarrow> R s t \<Longrightarrow> yields R (f x) t (g x)"
  shows "yields R (bind_io m f) s (case r of Inl e \<Rightarrow> Inl e | Inr x \<Rightarrow> g x)"
  using assms by (cases r) (auto intro: bind bind_err)

end

lemma yields_run: "yields R m s r \<Longrightarrow> \<exists>t. m s = (r, t) \<and> R s t"
  by (cases "m s") (auto simp: yields_def)

section \<open>A quiet file system\<close>

text \<open>A block has room at least for an inode and the header of its extent list.\<close>

definition quiet :: "cmfs_filesys \<Rightarrow> bool" where
  "quiet fs \<longleftrightarrow> chan_ok (fs_io fs) \<and> \<not> has_fault (fs_io fs) \<and> heap_script (fs_io fs) = []
     \<and> io_blksize (fs_io fs) = int (bsize fs) \<and> 192 \<le> bsize fs \<and> bsize fs \<le> 2 ^ 30 \<and> length (dev_data (fs_io fs)) < 2 ^ 63"

definition calm :: "cmfs_filesys \<Rightarrow> cmfs_filesys \<Rightarrow> bool" where
  "calm fs fs' \<longleftrightarrow> (\<exists>ch. fs' = fs\<lparr>fs_io := ch\<rparr>) \<and> dev_data (fs_io fs') = dev_data (fs_io fs)
     \<and> (io_cache (fs_io fs') = None \<longleftrightarrow> io_cache (fs_io fs) = None) \<and> (quiet fs \<longrightarrow> quiet fs')"

text \<open>The block \<open>k\<close> of the device, and \<open>n\<close> blocks from \<open>k\<close> on.\<close>

definition block_at :: "cmfs_filesys \<Rightarrow> u64 \<Rightarrow> bytes option" where
  "block_at fs k = dev_block (bsize fs) (dev_data (fs_io fs)) k"

lemma calm_refl [simp]: "calm fs fs"
  by (auto simp: calm_def intro: exI [of _ "fs_io fs"])

lemma calm_trans: "calm a b \<Longrightarrow> calm b c \<Longrightarrow> calm a c"
  by (auto simp: calm_def)

interpretation calm: calm_steps calm
  by unfold_locales (auto intro: calm_trans)

lemma calm_quiet: "calm fs fs' \<Longrightarrow> quiet fs \<Longrightarrow> quiet fs'"
  by (simp add: calm_def)

named_theorems calm_simps \<open>what a calm operation does not change\<close>

lemma calm_fields [calm_simps]:
  assumes "calm fs fs'"
  shows "cpu_le fs' = cpu_le fs" "fs_super fs' = fs_super fs" "fs_blocksize fs' = fs_blocksize fs"
    "fs_blocks fs' = fs_blocks fs" "block_at fs' k = block_at fs k" "fs_flags fs' = fs_flags fs"
    "dev_data (fs_io fs') = dev_data (fs_io fs)"
    "(io_cache (fs_io fs') = None) = (io_cache (fs_io fs) = None)"
  using assms by (auto simp: calm_def block_at_def)

lemma calm_derived [calm_simps]:
  assumes "calm fs fs'"
  shows "blkno_ok fs' k = blkno_ok fs k" "CMFS_RAW_SB fs' = CMFS_RAW_SB fs"
    "cmfs_clusters_to_blocks fs' c = cmfs_clusters_to_blocks fs c"
    "cmfs_blocks_to_clusters fs' w = cmfs_blocks_to_clusters fs w"
    "cmfs_rec_clusters fs' d r = cmfs_rec_clusters fs d r"
  using calm_fields [OF assms]
  by (simp_all add: blkno_ok_def CMFS_RAW_SB_def cmfs_clusters_to_blocks_def
      cmfs_blocks_to_clusters_def cmfs_rec_clusters_def)

section \<open>Blocks\<close>

lemma quiet_channel:
  assumes "quiet fs" and "dev_data ch = dev_data (fs_io fs)" and "chan_ok ch" and "\<not> has_fault ch"
    and "heap_script ch = []" and "io_blksize ch = io_blksize (fs_io fs)"
    and "(io_cache ch = None) = (io_cache (fs_io fs) = None)"
  shows "calm fs (fs\<lparr>fs_io := ch\<rparr>)"
  using assms by (auto simp: calm_def quiet_def)

lemma malloc_yields: "quiet fs \<Longrightarrow> yields calm malloc_block fs (Inr ())"
  by (simp add: yields_def malloc_block_def on_io_def cmfs_malloc_block_def quiet_def)

definition blocks_at :: "cmfs_filesys \<Rightarrow> u64 \<Rightarrow> nat \<Rightarrow> bytes option" where
  "blocks_at fs k n =
     (if (unat k + n) * bsize fs \<le> length (dev_data (fs_io fs))
      then Some (field (n * bsize fs) (unat k * bsize fs) (dev_data (fs_io fs))) else None)"

lemma read_blocks_yields:
  assumes "quiet fs" and "blocks_at fs k n = Some d" and "n < 2 ^ 31"
    and "io_cache (fs_io fs) = None \<longrightarrow> n * bsize fs < 2 ^ 31"
  shows "yields calm (cmfs_read_blocks k (int n)) fs (Inr d)"
proof -
  let ?ch = "fs_io fs"
  have on: "on_device ?ch k n" and d: "d = dev_blocks ?ch k n"
    using assms(1,2) by (auto simp del: of_nat_unat simp: blocks_at_def quiet_def on_device_def split: if_splits)
  have b: "io_blksize ?ch = int (bsize fs)" "bsize fs \<le> 2 ^ 30" using assms(1) by (simp_all only: quiet_def)
  have "request_fits ?ch n" if "n * bsize fs < 2 ^ 31"
  proof -
    have "int (n * bsize fs) < 2 ^ 31" using that by (simp only: of_nat_less_numeral_power_cancel_iff)
    then show ?thesis by (simp only: request_fits_def b of_nat_mult)
  qed
  moreover have "io_blksize ?ch \<le> 2 ^ 30"
    using b(2) unfolding b(1) by (simp only: of_nat_le_numeral_power_cancel_iff)
  ultimately have fits: "read_fits ?ch n" using assms(3,4) by (simp only: read_fits_def) blast
  have ok: "chan_ok ?ch" and nf: "\<not> has_fault ?ch" and heap: "heap_script ?ch = []"
    using assms(1) by (auto simp: quiet_def)
  obtain r ch' where run: "io_read_block k (int n) ?ch = (r, ch')" by force
  have out: "read_outcome ?ch k n (r, ch')" using io_read_block_ok(1) [OF ok on fits] run by simp
  then have r: "r = Inr d" using nf d by (auto simp: read_outcome_def split: sum.splits)
  have "calm fs (fs\<lparr>fs_io := ch'\<rparr>)"
    using out r by (intro quiet_channel [OF assms(1)])
      (use nf heap in \<open>auto simp: read_outcome_def\<close>)
  then show ?thesis using run r
    by (simp add: yields_def cmfs_read_blocks_def cmfs_read_blocks_cached_def on_io_def)
qed

lemma blocks_at_1: "blocks_at fs k 1 = block_at fs k"
  by (simp add: blocks_at_def block_at_def dev_block_def)

lemma read_block_yields:
  assumes "quiet fs" and "block_at fs k = Some d"
  shows "yields calm (cmfs_read_blocks k 1) fs (Inr d)"
  using read_blocks_yields [OF assms(1), of k 1 d] assms by (simp add: blocks_at_1 [simplified] quiet_def)

lemma length_block_at: "block_at fs k = Some d \<Longrightarrow> length d = bsize fs"
  by (auto simp: block_at_def dev_block_def field_def split: if_splits)

section \<open>Inodes and extent blocks\<close>

text \<open>What the device holds at block \<open>k\<close>, in the form the code works on.\<close>

definition inode_at :: "cmfs_filesys \<Rightarrow> u64 \<Rightarrow> bytes \<Rightarrow> bool" where
  "inode_at fs k di \<longleftrightarrow> blkno_ok fs k \<and> (\<exists>b. block_at fs k = Some b
     \<and> has_signature CMFS_INODE_SIGNATURE b \<and> di = cmfs_swap_inode_to_cpu (cpu_le fs) (bsize fs) b)"

definition extent_block_at :: "cmfs_filesys \<Rightarrow> u64 \<Rightarrow> bytes \<Rightarrow> bool" where
  "extent_block_at fs k eb \<longleftrightarrow> blkno_ok fs k \<and> (\<exists>b. block_at fs k = Some b
     \<and> has_signature CMFS_EXTENT_BLOCK_SIGNATURE b
     \<and> eb = cmfs_swap_extent_block_to_cpu (cpu_le fs) (bsize fs) b)
     \<and> ld16 (cpu_le fs) eb (o_h_list + o_l_next_free_rec) \<le> ld16 (cpu_le fs) eb (o_h_list + o_l_count)"

lemma calm_at [calm_simps]:
  assumes "calm fs fs'"
  shows "inode_at fs' k di = inode_at fs k di" "extent_block_at fs' k eb = extent_block_at fs k eb"
  using calm_fields [OF assms] calm_derived(1) [OF assms]
  by (simp_all add: inode_at_def extent_block_at_def)

lemma take_block: "block_at fs k = Some b \<Longrightarrow> take (bsize fs) b = b"
  by (simp add: length_block_at)

lemma read_inode_yields:
  assumes "quiet fs" and "inode_at fs k di"
  shows "yields calm (cmfs_read_inode k) fs (Inr di)"
proof -
  obtain b where b: "blkno_ok fs k" "block_at fs k = Some b" "has_signature CMFS_INODE_SIGNATURE b"
    "di = cmfs_swap_inode_to_cpu (cpu_le fs) (bsize fs) b"
    using assms(2) by (auto simp: inode_at_def)
  have "yields calm (bind_io malloc_block (\<lambda>_.
           bind_io (cmfs_read_blocks k 1) (\<lambda>blk.
           bind_io (guard_io (has_signature CMFS_INODE_SIGNATURE blk) CMFS_ET_BAD_INODE_MAGIC) (\<lambda>_.
           get_io (\<lambda>fs. cmfs_swap_inode_to_cpu (cpu_le fs) (bsize fs) (take (bsize fs) blk)))))) fs (Inr di)"
    by (rule calm.bind [OF malloc_yields [OF assms(1)]])
      (auto intro!: calm.bind [OF read_block_yields, where x = b] calm.bind [OF calm.guard] calm.get
        simp: b take_block [OF b(2)] calm_simps calm_quiet [OF _ assms(1)])
  then show ?thesis using b(1) by (simp add: yields_def cmfs_read_inode_def)
qed

lemma read_extent_block_yields:
  assumes "quiet fs" and "extent_block_at fs k eb"
  shows "yields calm (cmfs_read_extent_block k) fs (Inr eb)"
proof -
  obtain b where b: "blkno_ok fs k" "block_at fs k = Some b" "has_signature CMFS_EXTENT_BLOCK_SIGNATURE b"
    "eb = cmfs_swap_extent_block_to_cpu (cpu_le fs) (bsize fs) b"
    and n: "ld16 (cpu_le fs) eb (o_h_list + o_l_next_free_rec) \<le> ld16 (cpu_le fs) eb (o_h_list + o_l_count)"
    using assms(2) by (auto simp: extent_block_at_def)
  have "yields calm (bind_io malloc_block (\<lambda>_.
           bind_io (cmfs_read_blocks k 1) (\<lambda>blk.
           bind_io (guard_io (has_signature CMFS_EXTENT_BLOCK_SIGNATURE blk)
                      CMFS_ET_BAD_EXTENT_BLOCK_MAGIC) (\<lambda>_.
           get_io (\<lambda>fs. cmfs_swap_extent_block_to_cpu (cpu_le fs) (bsize fs) (take (bsize fs) blk)))))) fs (Inr eb)"
    by (rule calm.bind [OF malloc_yields [OF assms(1)]])
      (auto intro!: calm.bind [OF read_block_yields, where x = b] calm.bind [OF calm.guard] calm.get
        simp: b take_block [OF b(2)] calm_simps calm_quiet [OF _ assms(1)])
  then have "yields calm (cmfs_read_extent_block_nocheck k) fs (Inr eb)"
    using b(1) by (simp add: yields_def cmfs_read_extent_block_nocheck_def)
  then show ?thesis unfolding cmfs_read_extent_block_def
    by (rule calm.bind)
      (use n in \<open>auto intro!: calm.bind [OF calm.get] calm.bind [OF calm.guard] calm.ret
        simp: calm_simps extent_list_of_def\<close>)
qed

lemma length_extent_block_at:
  assumes "quiet fs" and "extent_block_at fs k eb"
  shows "length eb = bsize fs"
proof -
  obtain b where b: "block_at fs k = Some b" "eb = cmfs_swap_extent_block_to_cpu (cpu_le fs) (bsize fs) b"
    using assms(2) by (auto simp: extent_block_at_def)
  have "length b = bsize fs" and "192 \<le> bsize fs"
    using length_block_at [OF b(1)] assms(1) by (simp_all add: quiet_def)
  then show ?thesis using b(2)
    by (simp add: cmfs_swap_extent_block_to_cpu_def cmfs_swap_extent_block_header_def)
qed

end
