(* ===== verification/Readonly.thy ===== *)
theory Readonly
  imports Reading Extent_tree Fileio Namei
begin

text \<open>
  What the operations of the library leave alone. \<open>safe R m\<close> says that every run of \<open>m\<close>, whatever
  its result, leads from a state to one that \<open>R\<close> relates to it; the rules follow the structure
  of the monadic code. The relation used is \<open>keeps\<close>: a file system that is not open for
  writing keeps its fields and the content of its device.
\<close>

section \<open>Frame rules\<close>

named_theorems safe_rules \<open>structural rules of the frame property\<close>
named_theorems safe_ops \<open>operations with the frame property\<close>

definition safe :: "('s \<Rightarrow> 's \<Rightarrow> bool) \<Rightarrow> ('s, 'a) io \<Rightarrow> bool" where
  "safe R m \<longleftrightarrow> (\<forall>s. R s (snd (m s)))"

lemma safeI: "(\<And>s. R s (snd (m s))) \<Longrightarrow> safe R m"
  by (simp add: safe_def)

lemma safeD: "safe R m \<Longrightarrow> R s (snd (m s))"
  by (simp add: safe_def)

lemma safe_run: "safe R m \<Longrightarrow> m s = (r, s') \<Longrightarrow> R s s'"
  by (metis safe_def snd_conv)

context calm_steps
begin

lemma stop [safe_rules]: "R s (snd (r, s))"
  by simp

lemma op: "safe R m \<Longrightarrow> R s (snd (m s))"
  by (rule safeD)

lemma at_bind [safe_rules]:
  assumes "R s (snd (m s))" and "\<And>x s'. R s' (snd (f x s'))"
  shows "R s (snd (bind_io m f s))"
  using assms(1) trans [OF _ assms(2)] by (auto simp: bind_io_def split: prod.splits sum.splits)

lemma at_try [safe_rules]:
  assumes "R s (snd (m s))" and "\<And>e s'. R s' (snd (h e s'))" and "\<And>x s'. R s' (snd (f x s'))"
  shows "R s (snd (case m s of (Inl e, s') \<Rightarrow> h e s' | (Inr x, s') \<Rightarrow> f x s'))"
  using assms(1) trans [OF _ assms(2)] trans [OF _ assms(3)] by (auto split: prod.splits sum.splits)

lemma at_run [safe_rules]:
  assumes "R s (snd (m s))" and "\<And>r s'. R s' (snd (f r s'))"
  shows "R s (snd (case m s of (r, s') \<Rightarrow> f r s'))"
  using assms(1) trans [OF _ assms(2)] by (auto split: prod.splits)

lemma at_if [safe_rules]:
  assumes "b \<Longrightarrow> R s (snd x)" and "\<not> b \<Longrightarrow> R s (snd y)"
  shows "R s (snd (if b then x else y))"
  using assms by simp

lemma at_if_fun [safe_rules]:
  assumes "b \<Longrightarrow> R s (snd (m s))" and "\<not> b \<Longrightarrow> R s (snd (n s))"
  shows "R s (snd ((if b then m else n) s))"
  using assms by simp

lemma at_option [safe_rules]:
  assumes "R s (snd m)" and "\<And>x. R s (snd (f x))"
  shows "R s (snd (case z of None \<Rightarrow> m | Some x \<Rightarrow> f x))"
  using assms by (simp split: option.split)

lemma at_option_fun [safe_rules]:
  assumes "R s (snd (m s))" and "\<And>x. R s (snd (f x s))"
  shows "R s (snd ((case z of None \<Rightarrow> m | Some x \<Rightarrow> f x) s))"
  using assms by (simp split: option.split)

lemma at_sum [safe_rules]:
  assumes "\<And>e. R s (snd (m e))" and "\<And>x. R s (snd (f x))"
  shows "R s (snd (case z of Inl e \<Rightarrow> m e | Inr x \<Rightarrow> f x))"
  using assms by (simp split: sum.split)

lemma at_sum_fun [safe_rules]:
  assumes "\<And>e. R s (snd (m e s))" and "\<And>x. R s (snd (f x s))"
  shows "R s (snd ((case z of Inl e \<Rightarrow> m e | Inr x \<Rightarrow> f x) s))"
  using assms by (simp split: sum.split)

lemma at_prod_fun [safe_rules]:
  assumes "\<And>a b. R s (snd (f a b s))"
  shows "R s (snd ((case z of (a, b) \<Rightarrow> f a b) s))"
  using assms by (simp split: prod.split)

lemma at_prod [safe_rules]:
  assumes "\<And>a b. R s (snd (f a b))"
  shows "R s (snd (case z of (a, b) \<Rightarrow> f a b))"
  using assms by (simp split: prod.split)

lemma at_ret [safe_rules]: "R s (snd (ret_io x s))"
  and at_err [safe_rules]: "R s (snd (err_io e s))"
  and at_guard [safe_rules]: "R s (snd (guard_io b e s))"
  and at_get [safe_rules]: "R s (snd (get_io g s))"
  by (simp_all add: io_simps)

lemma at_upd [safe_rules]: "R s (h s) \<Longrightarrow> R s (snd (upd_io h s))"
  by (simp add: io_simps)

end

section \<open>The channel\<close>

definition same_disk :: "io_channel \<Rightarrow> io_channel \<Rightarrow> bool" where
  "same_disk ch ch' \<longleftrightarrow> dev_data ch' = dev_data ch \<and> io_blksize ch' = io_blksize ch"

interpretation disk: calm_steps same_disk
  by unfold_locales (auto simp: same_disk_def)

lemma pread64_disk: "pread64 n l ch = (r, ch') \<Longrightarrow> same_disk ch ch'"
  by (auto simp: same_disk_def pread64_def Let_def split: list.splits sys_outcome.splits)

lemma read_loop_disk: "unix_read_loop n l data ch = (r, ch') \<Longrightarrow> same_disk ch ch'"
proof (induction n l data ch arbitrary: r ch' rule: unix_read_loop.induct)
  case (1 n l data ch)
  obtain rd ch1 where rd: "pread64 (n - length data) (l + of_nat (length data)) ch = (rd, ch1)" by force
  note 2 = pread64_disk [OF this]
  show ?case
    using "1.prems" 2 "1.IH" rd
    by (subst (asm) unix_read_loop.simps)
      (fastforce simp: same_disk_def split: if_splits sum.splits)
qed

lemma unix_read_safe: "safe same_disk (unix_io_read_block blkno count)"
  using read_loop_disk
  by (fastforce simp: safe_def unix_io_read_block_def Let_def same_disk_def split: prod.splits option.splits)

lemma cache_read_safe: "safe same_disk (io_cache_read_blocks blkno count nocache)"
proof (rule safeI)
  fix ch
  show "same_disk ch (snd (io_cache_read_blocks blkno count nocache ch))"
    using safe_run [OF unix_read_safe]
    by (fastforce simp: io_cache_read_blocks_def Let_def same_disk_def
        split: prod.splits option.splits sum.splits if_splits)
qed

lemma hunks_safe: "same_disk ch (snd (read_hunks todo blkno count nocache ch))"
proof (induction todo blkno count nocache ch rule: read_hunks.induct)
  case (1 todo blkno count nocache ch)
  define n where "n = (if todo > count then count else todo)"
  obtain r ch1 where run: "io_cache_read_blocks blkno n nocache ch = (r, ch1)" by force
  have ch1: "same_disk ch ch1" by (rule safe_run [OF cache_read_safe run])
  show ?case
  proof (cases "count \<noteq> 0 \<and> \<not> (n = 0 \<or> n < 0 \<and> count > 0)")
    case False
    then show ?thesis by (subst read_hunks.simps) (auto simp: n_def Let_def)
  next
    case True
    then have step: "read_hunks todo blkno count nocache ch = (case r of Inl e \<Rightarrow> (Inl e, ch1)
      | Inr d \<Rightarrow> if n < 0 then (Inr d, ch1)
          else case read_hunks n (blkno + word_of_int n) (count - n) nocache ch1 of
            (Inl e, ch) \<Rightarrow> (Inl e, ch) | (Inr d', ch) \<Rightarrow> (Inr (d @ d'), ch))"
      unfolding read_hunks.simps [of todo] Let_def n_def [symmetric] run
      by (cases r) auto
    show ?thesis
    proof (cases "\<exists>d. r = Inr d \<and> \<not> n < 0")
      case False
      then show ?thesis using step ch1 by (auto split: sum.splits)
    next
      case rec: True
      then obtain d where d: "r = Inr d" "\<not> n < 0" by blast
      have "same_disk ch1 (snd (read_hunks n (blkno + word_of_int n) (count - n) nocache ch1))"
        by (rule "1.IH") (use True d run in \<open>simp_all add: n_def\<close>)
      then have "same_disk ch (snd (read_hunks n (blkno + word_of_int n) (count - n) nocache ch1))"
        by (rule disk.trans [OF ch1])
      then show ?thesis using step d by (auto split: prod.splits sum.splits)
    qed
  qed
qed

lemma channel_reads [safe_ops]:
  "safe same_disk cmfs_malloc_block" "safe same_disk (io_read_block blkno count)"
  "safe same_disk (io_read_block_nocache blkno count)"
  using hunks_safe safeD [OF unix_read_safe]
  by (auto simp: safe_def cmfs_malloc_block_def io_read_block_def io_read_block_nocache_def
      io_cache_read_block_def same_disk_def split: list.split)

section \<open>The file system\<close>

definition keeps :: "cmfs_filesys \<Rightarrow> cmfs_filesys \<Rightarrow> bool" where
  "keeps fs fs' \<longleftrightarrow> fs_flags fs AND CMFS_FLAG_RW = 0 \<longrightarrow>
     fs' = fs\<lparr>fs_io := fs_io fs'\<rparr> \<and> same_disk (fs_io fs) (fs_io fs')"

lemma keeps_flags: "keeps fs fs' \<Longrightarrow> fs_flags fs AND CMFS_FLAG_RW = 0 \<Longrightarrow> fs_flags fs' = fs_flags fs"
  unfolding keeps_def by (metis cmfs_filesys.select_convs(2) cmfs_filesys.surjective cmfs_filesys.update_convs(3))

lemma keeps_trans:
  assumes "keeps a b" and "keeps b c"
  shows "keeps a c"
proof (unfold keeps_def, intro impI)
  assume ro: "fs_flags a AND CMFS_FLAG_RW = 0"
  have b: "b = a\<lparr>fs_io := fs_io b\<rparr>" "same_disk (fs_io a) (fs_io b)" using assms(1) ro by (simp_all add: keeps_def)
  have "fs_flags b AND CMFS_FLAG_RW = 0" using ro keeps_flags [OF assms(1) ro] by simp
  then have c: "c = b\<lparr>fs_io := fs_io c\<rparr>" "same_disk (fs_io b) (fs_io c)" using assms(2) by (simp_all add: keeps_def)
  have "c = a\<lparr>fs_io := fs_io c\<rparr>" using b(1) c(1) by (metis cmfs_filesys.surjective cmfs_filesys.update_convs(3))
  then show "c = a\<lparr>fs_io := fs_io c\<rparr> \<and> same_disk (fs_io a) (fs_io c)"
    using disk.trans [OF b(2) c(2)] by blast
qed

interpretation fs: calm_steps keeps
proof unfold_locales
  show "keeps s s" for s by (simp add: keeps_def same_disk_def)
qed (rule keeps_trans)

lemma on_io_keeps: "safe same_disk m \<Longrightarrow> keeps fs (snd (on_io m fs))"
  by (auto simp: keeps_def on_io_def dest: safe_run split: prod.splits)

lemma disk_ops [safe_ops]:
  "keeps fs (snd (malloc_block fs))"
  "keeps fs (snd (cmfs_read_blocks_cached blkno count nocache fs))"
  "keeps fs (snd (cmfs_read_blocks blkno count fs))"
  by (auto simp: malloc_block_def cmfs_read_blocks_def cmfs_read_blocks_cached_def
      intro: on_io_keeps channel_reads)

lemma write_inode_keeps [safe_ops]: "keeps fs (snd (cmfs_write_inode blkno buf fs))"
  and write_extent_block_keeps [safe_ops]: "keeps fs (snd (cmfs_write_extent_block blkno buf fs))"
  by (simp_all add: keeps_def cmfs_write_inode_def cmfs_write_extent_block_def)

lemmas frame = fs.at_bind fs.at_try fs.at_run fs.at_if fs.at_if_fun fs.at_option fs.at_option_fun fs.at_sum
  fs.at_sum_fun fs.at_prod fs.at_prod_fun fs.at_ret fs.at_err fs.at_guard fs.at_get fs.stop

lemma read_inode_keeps [safe_ops]: "keeps fs (snd (cmfs_read_inode blkno fs))"
  unfolding cmfs_read_inode_def by (intro frame safe_ops)

lemma metadata_ops [safe_ops]:
  "keeps fs (snd (cmfs_check_directory blkno fs))"
  "keeps fs (snd (cmfs_read_cached_inode blkno fs))"
  "keeps fs (snd (cmfs_read_extent_block_nocheck blkno fs))"
  "keeps fs (snd (cmfs_read_group_desc blkno fs))"
  unfolding cmfs_check_directory_def cmfs_read_cached_inode_def cmfs_read_extent_block_nocheck_def
    cmfs_read_group_desc_def Let_def
  by (intro frame safe_ops)+

lemma on_buf_keeps [safe_ops]: "keeps fs (snd (on_buf m buf fs))"
  by (auto simp: on_buf_def split: prod.split sum.split)

lemma block_ops [safe_ops]:
  "keeps fs (snd (cmfs_read_extent_block blkno fs))" "keeps fs (snd (cmfs_read_dir_block blkno fs))"
  unfolding cmfs_read_extent_block_def cmfs_read_dir_block_def by (intro frame safe_ops)+

section \<open>Callbacks and iterators\<close>

definition keeps_cb :: "'p cb_state \<Rightarrow> 'p cb_state \<Rightarrow> bool" where
  "keeps_cb s s' \<longleftrightarrow> keeps (fst s) (fst s')"

definition keeps_ec :: "'p extent_context \<Rightarrow> 'p extent_context \<Rightarrow> bool" where
  "keeps_ec c c' \<longleftrightarrow> keeps (ec_fs c) (ec_fs c')"

interpretation cb: calm_steps keeps_cb
  by unfold_locales (auto simp: keeps_cb_def intro: keeps_trans)

interpretation ec: calm_steps keeps_ec
  by unfold_locales (auto simp: keeps_ec_def intro: keeps_trans)

lemmas cb_frame = cb.at_bind cb.at_try cb.at_run cb.at_if cb.at_if_fun cb.at_option cb.at_option_fun cb.at_sum
  cb.at_sum_fun cb.at_prod cb.at_prod_fun cb.at_ret cb.at_err cb.at_guard cb.at_get cb.stop

lemmas ec_frame = ec.at_bind ec.at_try ec.at_run ec.at_if ec.at_if_fun ec.at_option ec.at_option_fun ec.at_sum
  ec.at_sum_fun ec.at_prod ec.at_prod_fun ec.at_ret ec.at_err ec.at_guard ec.at_get ec.stop

lemma on_cb_fs_keeps: "(\<And>fs. keeps fs (snd (m fs))) \<Longrightarrow> keeps_cb s (snd (on_cb_fs m s))"
  by (simp add: keeps_cb_def on_cb_fs_def split: prod.split) (metis snd_conv)

lemma on_ec_fs_keeps:
  assumes "\<And>fs. keeps fs (snd (m fs))"
  shows "keeps_ec c (snd (on_ec_fs m c))"
proof -
  obtain r fs where r: "m (ec_fs c) = (r, fs)" by force
  then have "keeps (ec_fs c) fs" using assms [of "ec_fs c"] by simp
  then show ?thesis using r
    by (cases r) (auto simp: keeps_ec_def on_ec_fs_def split: errcode.split)
qed

definition safe_func :: "'p extent_func \<Rightarrow> bool" where
  "safe_func func \<longleftrightarrow> (\<forall>buf r d cc ref no s. keeps_cb s (snd (func buf r d cc ref no s)))"

lemma on_callback_keeps:
  assumes "safe_func func"
  shows "keeps_ec c (snd (on_callback (func buf r d cc ref no) c))"
proof -
  obtain res fs p where r: "func buf r d cc ref no (ec_fs c, ec_priv c) = (res, fs, p)"
    by (metis prod.exhaust)
  then have "keeps_cb (ec_fs c, ec_priv c) (fs, p)" using assms unfolding safe_func_def by (metis snd_conv)
  then show ?thesis using r by (simp add: on_callback_def keeps_ec_def keeps_cb_def)
qed

lemma iterate_rec_keeps:
  assumes "safe_func func" and "\<And>buf r ref no c. keeps_ec c (snd (visit buf r ref no c))"
  shows "keeps_ec c (snd (iterate_rec func visit b ref iret buf i c))"
  unfolding iterate_rec_def Let_def
  by (intro ec_frame assms(2) on_callback_keeps [OF assms(1)]) (auto simp: keeps_ec_def split: prod.splits)

lemma iterate_recs_keeps:
  assumes "\<And>iret buf i c. keeps_ec c (snd (step iret buf i c))"
  shows "keeps_ec c (snd (iterate_recs step b iret buf i c))"
  using assms
proof (induction step b iret buf i c rule: iterate_recs.induct)
  case (1 step b iret buf i c)
  obtain r c1 where r: "step iret buf i c = (r, c1)" by force
  have c1: "keeps_ec c c1" using "1.prems" [of c iret buf i] r by simp
  show ?case
    using "1.IH" [OF _ r [symmetric]] "1.prems" c1 r
    by (subst iterate_recs.simps) (auto split: sum.splits intro: ec.trans)
qed

lemma ec_bind_from:
  assumes "keeps_ec c0 c" and "keeps_ec c (snd (m c))" and "\<And>x s. keeps_ec s (snd (f x s))"
  shows "keeps_ec c0 (snd (bind_io m f c))"
  by (rule ec.trans [OF assms(1)]) (intro ec.at_bind assms(2,3))

lemma iterate_eb_keeps:
  assumes "safe_func func" and "\<And>eb b blkno c. keeps_ec c (snd (iterate_el eb b blkno c))"
  shows "keeps_ec c (snd (extent_iterate_eb_with iterate_el d func flags buf r ref no c))"
proof -
  have call: "keeps_ec c0 (snd (on_callback (func buf r d cc ref no) c))" if "keeps_ec c0 c" for c0 c buf d cc
    using on_callback_keeps [OF assms(1)] that by (rule ec.trans [rotated])
  show ?thesis
    unfolding extent_iterate_eb_with_def Let_def
    by (intro ec_bind_from ec_frame assms(2) call on_ec_fs_keeps safe_ops)
      (auto simp: keeps_ec_def)
qed

lemma iterate_el_keeps:
  assumes "safe_func func"
  shows "keeps_ec c (snd (extent_iterate_el d func flags buf b ref c))"
proof (induction d arbitrary: buf b ref c)
  case 0
  show ?case
    by simp (intro ec_frame iterate_recs_keeps iterate_rec_keeps assms)
next
  case (Suc d)
  show ?case
    by simp (intro ec_frame iterate_recs_keeps iterate_rec_keeps iterate_eb_keeps Suc.IH assms)
qed

lemma extent_iterate_keeps:
  assumes "safe_func func"
  shows "keeps_cb s (snd (cmfs_extent_iterate_inode inode flags has_buf func s))"
proof -
  have el: "keeps_cb s (ec_fs c', ec_priv c')"
    if "extent_iterate_el d func flags inode o_id2 0 \<lparr> ec_fs = fst s, ec_priv = snd s, ec_ccount = 0,
      ec_errcode = None, ec_last_eb_blkno = 0, ec_last_eb_cpos = 0 \<rparr> = (r, c')" for d r c' and s :: "'a cb_state"
    using iterate_el_keeps [OF assms, of _ d flags inode o_id2 0] that
    by (metis extent_context.select_convs(1) fst_conv keeps_cb_def keeps_ec_def snd_conv)
  have fin: "keeps_cb s (snd (bind_io (on_cb_fs (cmfs_write_inode a b)) (\<lambda>_. ret_io b) s'))"
    if "keeps_cb s s'" for a b and s s' :: "'a cb_state"
    using that by (rule cb.trans) (intro cb_frame on_cb_fs_keeps safe_ops)
  show ?thesis
    unfolding cmfs_extent_iterate_inode_def Let_def
    by (intro cb.at_bind cb.at_guard cb.at_get cb.at_if_fun cb.at_ret on_cb_fs_keeps safe_ops)
      (auto split: prod.split sum.split option.split simp: Let_def dest!: el intro: fin)
qed

definition safe_block_func :: "'p block_func \<Rightarrow> bool" where
  "safe_block_func func \<longleftrightarrow> (\<forall>blkno bcount ef s. keeps_cb s (snd (func blkno bcount ef s)))"

lemma iterate_blocks_keeps:
  "safe_block_func func \<Longrightarrow> keeps_cb s (snd (iterate_blocks func flags isize ef iret blkno bcount bend s))"
proof (induction func flags isize ef iret blkno bcount bend s rule: iterate_blocks.induct)
  case (1 func flags isize ef iret blkno bcount bend s)
  obtain r s1 where r: "func blkno bcount ef s = (r, s1)" by (rule prod.exhaust)
  have s1: "keeps_cb s s1" using "1.prems" r by (metis safe_block_func_def snd_conv)
  show ?case
    using "1.IH" [OF _ _ r [symmetric]] "1.prems" s1 r
    by (subst iterate_blocks.simps) (auto split: sum.splits intro: cb.trans)
qed

lemma block_func_safe: "safe_block_func func \<Longrightarrow> safe_func (block_iterate_func inode flags func)"
  unfolding safe_func_def block_iterate_func_def Let_def
  by (intro allI cb_frame iterate_blocks_keeps)

lemma block_iterate_keeps:
  assumes "safe_block_func func"
  shows "keeps_cb s (snd (cmfs_block_iterate_inode inode flags func s))"
    and "keeps_cb s (snd (cmfs_block_iterate blkno flags func s))"
proof -
  show inode: "keeps_cb s (snd (cmfs_block_iterate_inode inode flags func s))" for s inode
    unfolding cmfs_block_iterate_inode_def by (intro extent_iterate_keeps block_func_safe assms)
  show "keeps_cb s (snd (cmfs_block_iterate blkno flags func s))"
    unfolding cmfs_block_iterate_def by (intro cb_frame on_cb_fs_keeps safe_ops inode)
qed

section \<open>Directories\<close>

text \<open>
  A callback for directory entries that keeps the file system and never asks for the
  block to be written: a directory block is written without a look at the flags of the file system.
\<close>

definition quiet_func :: "'q cb_state dirent_func \<Rightarrow> bool" where
  "quiet_func func \<longleftrightarrow> (\<forall>e buf o1 k s ret buf' s'. func e buf o1 k s = (ret, buf', s') \<longrightarrow>
     keeps_cb s s' \<and> ret AND CMFS_DIRENT_CHANGED = 0)"

lemma visit_quiet:
  assumes "quiet_func func" and "visit_entry le flags func k w buf s = (w', buf', s')"
  shows "keeps_cb s s' \<and> w_changed w' = w_changed w"
proof -
  obtain ret b q where r: "func (if w_next_real_entry w > w_offset w then CMFS_DIRENT_DELETED_FILE
      else w_entry w) buf (w_offset w) k s = (ret, b, q)" by (metis prod.exhaust)
  have q: "keeps_cb s q \<and> ret AND CMFS_DIRENT_CHANGED = 0" using assms(1) r unfolding quiet_func_def by blast
  have s: "s = (fst s, snd s)" by simp
  show ?thesis using assms(2) q r
    by (auto simp: visit_entry_def Let_def split: if_splits prod.splits)
qed

lemma next_entry_changed: "next_entry le flags buf w = Some w' \<Longrightarrow> w_changed w' = w_changed w"
  by (auto simp: next_entry_def Let_def split: if_splits)

lemma process_entries_quiet:
  "quiet_func func \<Longrightarrow> process_entries le bs flags func k w buf s = (res, w', buf', s') \<Longrightarrow>
    keeps_cb s s' \<and> w_changed w' = w_changed w"
proof (induction le bs flags func k w buf s arbitrary: res w' buf' s' rule: process_entries.induct)
  case (1 le bs flags func k w buf s)
  obtain w1 buf1 s1 where v: "visit_entry le flags func k w buf s = (w1, buf1, s1)" by (metis prod.exhaust)
  note q = visit_quiet [OF "1.prems"(1) v]
  show ?case
  proof (cases "w_offset w < bs \<and> \<not> w_offset w + DIRENT_HEADER_SIZE > length buf
      \<and> \<not> (w_offset w + de_rec_len le buf (w_offset w) > bs \<or> \<not> rec_len_ok le buf (w_offset w))
      \<and> \<not> w_abort w1 \<and> next_entry le flags buf1 w1 \<noteq> None")
    case False
    then show ?thesis
      using "1.prems"(2) v q by (subst (asm) process_entries.simps) (auto simp: Let_def split: if_splits option.splits)
  next
    case True
    then obtain w2 where w2: "next_entry le flags buf1 w1 = Some w2" by blast
    have "process_entries le bs flags func k w2 buf1 s1 = (res, w', buf', s')"
      using "1.prems"(2) True v w2 by (subst (asm) process_entries.simps) (simp add: Let_def)
    then have "keeps_cb s1 s' \<and> w_changed w' = w_changed w2"
      by (intro "1.IH" [OF refl _ _ _ v [symmetric] refl _ w2 "1.prems"(1)]) (use True in auto)
    then show ?thesis using q next_entry_changed [OF w2] by (auto intro: cb.trans)
  qed
qed

lemma process_dir_entry_keeps:
  assumes "quiet_func func" and "cmfs_process_dir_entry flags func k o1 entry s = (r, s')"
  shows "keeps_cb s s' \<and> (\<forall>ret changed ab. r = Inr (ret, changed, ab) \<longrightarrow> \<not> changed)"
proof -
  obtain fs ds where s: "s = (fs, ds)" by (cases s)
  let ?w = "\<lparr> w_offset = o1, w_entry = entry, w_next_real_entry = 0, w_changed = False, w_abort = False \<rparr>"
  obtain res w buf fs1 q where p:
    "process_entries (cpu_le fs) (bsize fs) flags func k ?w (ds_buf ds) (fs, ds_priv ds) = (res, w, buf, fs1, q)"
    by (metis prod.exhaust)
  show ?thesis
    using assms(2) process_entries_quiet [OF assms(1) p] p
    by (auto simp: s cmfs_process_dir_entry_def Let_def keeps_cb_def split: walk_end.splits)
qed

lemma or_abort_keeps:
  assumes "\<And>fs. keeps fs (snd (m fs))" and "\<And>x s. keeps_cb s (snd (f x s))"
  shows "keeps_cb s (snd (or_abort m f s))"
proof -
  obtain r fs where r: "m (fst s) = (r, fs)" by force
  then have "keeps (fst s) fs" using assms(1) [of "fst s"] by simp
  then have k: "keeps_cb s (fs, set_errcode r (snd s))" by (simp add: keeps_cb_def)
  show ?thesis
  proof (cases r)
    case (Inl e)
    then show ?thesis using r k by (cases e) (simp_all add: or_abort_def)
  next
    case (Inr x)
    then show ?thesis using r k assms(2) by (auto simp: or_abort_def intro: cb.trans)
  qed
qed

lemma process_dir_block_safe:
  assumes "quiet_func func"
  shows "safe_block_func (cmfs_process_dir_block flags func)"
proof -
  have entry: "keeps_cb s (snd (bind_io (cmfs_process_dir_entry flags func k 0 entry) (\<lambda>(ret, changed, do_abort) s.
        if ret \<noteq> 0 then (Inr ret, s)
        else if changed
        then or_abort (cmfs_write_dir_block k (ds_buf (snd s)))
               (\<lambda>_. ret_io (if do_abort then CMFS_BLOCK_ABORT else 0)) s
        else (Inr (if do_abort then CMFS_BLOCK_ABORT else 0), s)) s))" for k entry and s :: "'a dir_cb"
  proof -
    obtain r s1 where r: "cmfs_process_dir_entry flags func k 0 entry s = (r, s1)" by (rule prod.exhaust)
    show ?thesis using r process_dir_entry_keeps [OF assms r] by (auto simp: bind_io_def split: sum.split)
  qed
  have buf: "keeps_cb s (snd (upd_io (\<lambda>(fs, ds). (fs, ds\<lparr>ds_buf := x\<rparr>)) s))" for x and s :: "'a dir_cb"
    by (simp add: upd_io_def keeps_cb_def split: prod.split)
  show ?thesis
    unfolding safe_block_func_def cmfs_process_dir_block_def Let_def
    by (intro allI or_abort_keeps safe_ops) (rule cb.at_bind [OF buf entry])
qed

lemma dir_iterate2_keeps:
  assumes "quiet_func func"
  shows "keeps_cb s (snd (cmfs_dir_iterate2 dir flags has_buf func s))"
  unfolding cmfs_dir_iterate2_def
proof (intro cb.at_bind on_cb_fs_keeps safe_ops cb.at_if_fun cb.at_ret)
  fix s :: "'a cb_state" and di
  let ?s = "(fst s, \<lparr> ds_buf = di, ds_errcode = None, ds_priv = snd s \<rparr>)"
  obtain r fs ds where r: "cmfs_block_iterate dir 0 (cmfs_process_dir_block flags func) ?s = (r, fs, ds)"
    by (metis prod.exhaust)
  have "keeps_cb ?s (fs, ds)"
    using block_iterate_keeps(2) [OF process_dir_block_safe [OF assms], of ?s dir 0 flags] r by simp
  then show "keeps_cb s (snd (case cmfs_block_iterate dir 0 (cmfs_process_dir_block flags func) ?s of
      (r, fs, ds) \<Rightarrow> ((case r of Inl e \<Rightarrow> Inl e
         | Inr _ \<Rightarrow> (case ds_errcode ds of None \<Rightarrow> Inr () | Some e \<Rightarrow> Inl e)), fs, ds_priv ds)))"
    using r by (simp add: keeps_cb_def)
qed

lemma dir_iterate_keeps:
  "quiet_func (xlate_func func) \<Longrightarrow> keeps_cb s (snd (cmfs_dir_iterate dir flags has_buf func s))"
  unfolding cmfs_dir_iterate_def by (rule dir_iterate2_keeps)

lemma lookup_proc_quiet: "quiet_func (xlate_func (lookup_proc name namelen))"
  by (auto simp: quiet_func_def xlate_func_def lookup_proc_def keeps_cb_def Let_def split: if_splits prod.splits)

lemma lookup_keeps [safe_ops]: "keeps fs (snd (cmfs_lookup dir name namelen has_buf fs))"
  unfolding cmfs_lookup_def
proof (intro fs.at_bind safe_ops)
  fix fs :: cmfs_filesys
  let ?s = "(fs, \<lparr> ls_inode = None, ls_found = 0 \<rparr>)"
  obtain r fs1 ls where r: "cmfs_dir_iterate dir 0 has_buf (lookup_proc name namelen) ?s = (r, fs1, ls)"
    by (metis prod.exhaust)
  then have "keeps fs fs1"
    using dir_iterate_keeps [OF lookup_proc_quiet, of ?s dir 0 has_buf name namelen] by (simp add: keeps_cb_def)
  then show "keeps fs (snd (case cmfs_dir_iterate dir 0 has_buf (lookup_proc name namelen) ?s of
       (Inl e, (fs, ls)) \<Rightarrow> (Inl e, fs)
     | (Inr _, (fs, ls)) \<Rightarrow>
         (case ls_inode ls of
            Some ino \<Rightarrow> if ls_found ls \<noteq> 0 then (Inr ino, fs) else (Inl CMFS_ET_FILE_NOT_FOUND, fs)
          | None \<Rightarrow> (Inl CMFS_ET_FILE_NOT_FOUND, fs))))"
    using r by (auto split: sum.split option.split)
qed

section \<open>Path names\<close>

lemma read_link_keeps [safe_ops]: "keeps fs (snd (read_link di fs))"
  unfolding read_link_def by (intro frame safe_ops)

lemma follow_link_keeps:
  assumes "\<And>root base path len f fs. lc \<le> 5 \<Longrightarrow> keeps fs (snd (open_namei root base path len f (lc + 1) fs))"
  shows "keeps fs (snd (follow_link root dir ino lc fs))"
  by (subst follow_link.simps) (intro frame safe_ops assms, simp)

lemma namei_loop_keeps:
  assumes "\<And>root dir ino fs. keeps fs (snd (follow_link root dir ino lc fs))"
  shows "keeps fs (snd (dir_namei_loop root dir rest tail lc fs))"
proof (induction rest arbitrary: dir fs rule: length_induct)
  case (1 rest)
  obtain name r where n: "next_component rest = (name, r)" by force
  show ?case
  proof (cases r)
    case (Some rest')
    then have "keeps fs (snd (dir_namei_loop root dir rest' tail lc fs))" for dir fs
      using 1 next_component_shorter n by blast
    then show ?thesis
      by (subst dir_namei_loop.simps) (simp add: n Some, intro fs.at_bind safe_ops assms)
  qed (subst dir_namei_loop.simps, simp add: n)
qed

lemma open_namei_keeps: "keeps fs (snd (open_namei root base path len f lc fs))"
proof (induction "6 - lc" arbitrary: lc root base path len f fs rule: less_induct)
  case less
  have follow: "keeps fs (snd (follow_link root dir ino lc fs))" for root dir ino fs
    by (rule follow_link_keeps) (rule less, simp)
  show ?case
    by (subst open_namei.simps) (intro frame safe_ops namei_loop_keeps follow)
qed

lemma namei_keeps [safe_ops]: "keeps fs (snd (cmfs_namei root cwd name fs))"
  unfolding cmfs_namei_def by (intro frame safe_ops open_namei_keeps)

section \<open>Files\<close>

lemma path_ops [safe_ops]:
  "keeps fs (snd (cmfs_new_path buf b blkno fs))"
  unfolding cmfs_new_path_def Let_def by (intro frame safe_ops)

lemma find_path_loop_keeps [safe_ops]: "keeps fs (snd (find_path_loop buf b cpos fp fs))"
proof (induction buf b cpos fp fs rule: find_path_loop.induct)
  case (1 buf b cpos fp fs)
  let ?n = "unat (ld16 (cpu_le fs) buf (b + o_l_next_free_rec))"
  let ?k = "e_blkno (el_rec (cpu_le fs) buf b (choose_rec fs buf b cpos 0 (?n - 1)))"
  obtain r fs1 where r: "bind_io malloc_block (\<lambda>_. cmfs_read_extent_block ?k) fs = (r, fs1)" by force
  moreover have "keeps fs (snd (bind_io malloc_block (\<lambda>_. cmfs_read_extent_block ?k) fs))"
    by (intro frame safe_ops)
  ultimately have k: "keeps fs fs1" by simp
  show ?case
    using "1.IH" k r
    by (subst find_path_loop.simps)
      (fastforce simp: Let_def split: sum.splits option.splits intro: keeps_trans)
qed

lemma extent_ops [safe_ops]:
  "keeps fs (snd (cmfs_find_path path cpos fs))"
  "keeps fs (snd (cmfs_tree_find_leaf el b blkno cpos fs))"
  "keeps fs (snd (cmfs_find_leaf di cpos fs))"
  "keeps fs (snd (cmfs_figure_hole_clusters buf b in_eb v fs))"
  "keeps fs (snd (cmfs_get_clusters di v want fs))"
  "keeps fs (snd (cmfs_extent_map_get_blocks di v fs))"
proof -
  show path: "keeps fs (snd (cmfs_find_path path cpos fs))" for path cpos fs
    unfolding cmfs_find_path_def Let_def by (intro safe_ops)
  show tree: "keeps fs (snd (cmfs_tree_find_leaf el b blkno cpos fs))" for el b blkno cpos fs
    unfolding cmfs_tree_find_leaf_def by (intro frame safe_ops path)
  show leaf: "keeps fs (snd (cmfs_find_leaf di cpos fs))" for di cpos fs
    unfolding cmfs_find_leaf_def by (intro frame safe_ops tree)
  show hole: "keeps fs (snd (cmfs_figure_hole_clusters buf b in_eb v fs))" for buf b in_eb v fs
    unfolding cmfs_figure_hole_clusters_def Let_def by (intro frame safe_ops)
  show clusters: "keeps fs (snd (cmfs_get_clusters di v want fs))" for di v want fs
    unfolding cmfs_get_clusters_def Let_def by (intro frame safe_ops leaf hole)
  show "keeps fs (snd (cmfs_extent_map_get_blocks di v fs))"
    unfolding cmfs_extent_map_get_blocks_def Let_def by (intro frame safe_ops clusters)
qed

lemma file_read_step_keeps [safe_ops]: "keeps fs (snd (file_read_step di n v fs))"
  unfolding file_read_step_def Let_def by (intro frame safe_ops)

lemma file_read_loop_keeps:
  assumes "file_read_loop di off n v data got fs = Some (r, fs')"
  shows "keeps fs fs'"
proof -
  let ?P = "\<lambda>di off n v data got fs y. keeps fs (snd y)"
  have "?P di off n v data got fs (r, fs')"
  proof (rule file_read_loop.raw_induct [where P = ?P, OF _ assms])
    fix f and di :: bytes and off :: u64 and n :: u32 and v :: u64 and data :: bytes and got :: u32
      and fs :: cmfs_filesys and y
    assume IH: "\<And>di off n v data got fs y. f di off n v data got fs = Some y \<Longrightarrow> keeps fs (snd y)"
      and step: "(if n = 0 then Some (Inr (data, got), fs)
        else case file_read_step di n v fs of
          (Inl e, fs) \<Rightarrow> Some (Inl e, fs)
        | (Inr r, fs) \<Rightarrow>
          (let contig_blocks = fst r;
               data = data @ snd r;
               got = got + ucast (push_bit (sb_bits fs) contig_blocks);
               wanted_blocks = n - ucast contig_blocks;
               isize = ld64 (cpu_le fs) di o_i_size
           in if wanted_blocks \<noteq> 0
              then f di off wanted_blocks (v + contig_blocks) data got fs
              else Some (Inr (data, if ucast got + off > isize then ucast (isize - off) else got), fs))) = Some y"
    obtain r1 fs1 where r1: "file_read_step di n v fs = (r1, fs1)" by force
    have "keeps fs fs1" using file_read_step_keeps [of fs di n v] r1 by simp
    then show "keeps fs (snd y)"
      using step r1 by (auto simp: Let_def split: if_splits sum.splits dest: IH intro: keeps_trans)
  qed
  then show ?thesis by simp
qed

lemma file_read_keeps: "cmfs_file_read di aligned count off fs = Some (r, fs') \<Longrightarrow> keeps fs fs'"
  by (auto simp: cmfs_file_read_def Let_def split: if_splits dest: file_read_loop_keeps)

end
