(* ===== verification/Extent_search.thy ===== *)
theory Extent_search
  imports Reading Extent_tree
begin

text \<open>
  What the search of an extent tree finds. \<open>tree_ok\<close> is the well-formedness of a tree on
  the device: depths go down by one, the records of a list are in order and do not
  overlap, and a subtree lies within the clusters of the record above it. \<open>tree_recs\<close> is
  the set of extents of the tree, the abstract view of the file's mapping.
\<close>

section \<open>Extent trees on the device\<close>

definition el_len :: "cmfs_filesys \<Rightarrow> bytes \<Rightarrow> nat \<Rightarrow> nat" where
  "el_len fs buf b = unat (ld16 (cpu_le fs) buf (b + o_l_next_free_rec))"

definition el_depth :: "cmfs_filesys \<Rightarrow> bytes \<Rightarrow> nat \<Rightarrow> u16" where
  "el_depth fs buf b = ld16 (cpu_le fs) buf (b + o_l_tree_depth)"

abbreviation (input) rec_at :: "cmfs_filesys \<Rightarrow> bytes \<Rightarrow> nat \<Rightarrow> nat \<Rightarrow> cmfs_extent_rec" where
  "rec_at fs buf b i \<equiv> el_rec (cpu_le fs) buf b i"

text \<open>The clusters of the file that a record of a list of depth \<open>d\<close> covers.\<close>

definition rec_start :: "cmfs_extent_rec \<Rightarrow> nat" where
  "rec_start r = unat (e_cpos r)"

definition rec_end :: "cmfs_filesys \<Rightarrow> u16 \<Rightarrow> cmfs_extent_rec \<Rightarrow> nat" where
  "rec_end fs d r = unat (e_cpos r) + unat (cmfs_rec_clusters fs d r)"

definition list_ok :: "u16 \<Rightarrow> cmfs_filesys \<Rightarrow> bytes \<Rightarrow> nat \<Rightarrow> nat \<Rightarrow> nat \<Rightarrow> bool" where
  "list_ok d fs buf b lo hi \<longleftrightarrow> el_depth fs buf b = d
     \<and> b + o_l_recs + 32 * el_len fs buf b \<le> length buf
     \<and> (\<forall>i < el_len fs buf b. lo \<le> rec_start (rec_at fs buf b i) \<and> rec_end fs d (rec_at fs buf b i) \<le> hi
          \<and> (\<forall>j < i. rec_end fs d (rec_at fs buf b j) \<le> rec_start (rec_at fs buf b i)))"

primrec tree_ok :: "nat \<Rightarrow> cmfs_filesys \<Rightarrow> bytes \<Rightarrow> nat \<Rightarrow> nat \<Rightarrow> nat \<Rightarrow> bool" where
  "tree_ok 0 fs buf b lo hi \<longleftrightarrow> list_ok 0 fs buf b lo hi"
| "tree_ok (Suc d) fs buf b lo hi \<longleftrightarrow> list_ok (of_nat (Suc d)) fs buf b lo hi \<and> 0 < el_len fs buf b
     \<and> (\<forall>i < el_len fs buf b. e_blkno (rec_at fs buf b i) \<noteq> 0
          \<and> (\<exists>eb. extent_block_at fs (e_blkno (rec_at fs buf b i)) eb
               \<and> tree_ok d fs eb o_h_list (rec_start (rec_at fs buf b i))
                   (rec_end fs (of_nat (Suc d)) (rec_at fs buf b i))))"

primrec tree_recs :: "nat \<Rightarrow> cmfs_filesys \<Rightarrow> bytes \<Rightarrow> nat \<Rightarrow> cmfs_extent_rec set" where
  "tree_recs 0 fs buf b = rec_at fs buf b ` {..<el_len fs buf b}"
| "tree_recs (Suc d) fs buf b =
     {r. \<exists>i < el_len fs buf b. \<exists>eb. extent_block_at fs (e_blkno (rec_at fs buf b i)) eb
       \<and> r \<in> tree_recs d fs eb o_h_list}"

text \<open>The list in which the search for cluster \<open>c\<close> ends.\<close>

primrec leaf_of :: "nat \<Rightarrow> cmfs_filesys \<Rightarrow> bytes \<Rightarrow> nat \<Rightarrow> u64 \<Rightarrow> bytes \<Rightarrow> nat \<Rightarrow> bool" where
  "leaf_of 0 fs buf b c leaf lb \<longleftrightarrow> leaf = buf \<and> lb = b"
| "leaf_of (Suc d) fs buf b c leaf lb \<longleftrightarrow>
     (\<exists>eb. extent_block_at fs (e_blkno (rec_at fs buf b (choose_rec fs buf b c 0 (el_len fs buf b - 1)))) eb
       \<and> leaf_of d fs eb o_h_list c leaf lb)"

lemma extent_block_at_unique:
  "extent_block_at fs k eb \<Longrightarrow> extent_block_at fs k eb' \<Longrightarrow> eb' = eb"
  by (auto simp: extent_block_at_def)

lemma calm_tree [calm_simps]:
  assumes "calm fs fs'"
  shows "el_len fs' buf b = el_len fs buf b" "el_depth fs' buf b = el_depth fs buf b"
    "rec_end fs' d r = rec_end fs d r" "choose_rec fs' buf b c i n = choose_rec fs buf b c i n"
proof -
  note eqs = calm_fields [OF assms] calm_derived [OF assms]
  show "el_len fs' buf b = el_len fs buf b" "el_depth fs' buf b = el_depth fs buf b"
    "rec_end fs' d r = rec_end fs d r" by (simp_all add: el_len_def el_depth_def rec_end_def eqs)
  show "choose_rec fs' buf b c i n = choose_rec fs buf b c i n"
    by (induction n arbitrary: i) (simp_all add: eqs Let_def)
qed

lemma calm_tree_ok [calm_simps]:
  assumes "calm fs fs'"
  shows "tree_ok d fs' buf b lo hi = tree_ok d fs buf b lo hi"
    and "leaf_of d fs' buf b c leaf lb = leaf_of d fs buf b c leaf lb"
  using calm_fields [OF assms] calm_tree [OF assms] calm_at [OF assms]
  by (induction d arbitrary: buf b lo hi) (simp_all add: list_ok_def)

lemma tree_ok_list: "tree_ok d fs buf b lo hi \<Longrightarrow> list_ok (of_nat d) fs buf b lo hi"
  by (cases d) simp_all

lemma tree_recs_bounds:
  assumes "tree_ok d fs buf b lo hi" and "r \<in> tree_recs d fs buf b"
  shows "lo \<le> rec_start r \<and> rec_end fs 0 r \<le> hi"
  using assms
proof (induction d arbitrary: buf b lo hi)
  case 0
  then show ?case by (auto simp: list_ok_def)
next
  case (Suc d)
  from Suc.prems(2) obtain i eb where i: "i < el_len fs buf b"
    "extent_block_at fs (e_blkno (rec_at fs buf b i)) eb" "r \<in> tree_recs d fs eb o_h_list"
    by auto
  with Suc.prems(1) extent_block_at_unique
  have "tree_ok d fs eb o_h_list (rec_start (rec_at fs buf b i)) (rec_end fs (of_nat (Suc d)) (rec_at fs buf b i))"
    by fastforce
  from Suc.IH [OF this i(3)] tree_ok_list [OF Suc.prems(1)] i(1) show ?case
    by (fastforce simp: list_ok_def simp del: of_nat_Suc)
qed

section \<open>Choosing a record\<close>

definition in_rec :: "cmfs_filesys \<Rightarrow> u16 \<Rightarrow> cmfs_extent_rec \<Rightarrow> u64 \<Rightarrow> bool" where
  "in_rec fs d r c \<longleftrightarrow> rec_start r \<le> unat c \<and> unat c < rec_end fs d r"

lemma rec_end_word:
  assumes "rec_end fs d r < 2 ^ 32"
  shows "unat (e_cpos r + cmfs_rec_clusters fs d r) = rec_end fs d r"
    and "(ucast (ucast (e_cpos r + cmfs_rec_clusters fs d r) :: u32) :: u64)
      = e_cpos r + cmfs_rec_clusters fs d r"
proof -
  have "unat (e_cpos r) + unat (cmfs_rec_clusters fs d r) < 2 ^ 64"
    using assms by (simp add: rec_end_def)
  then show u: "unat (e_cpos r + cmfs_rec_clusters fs d r) = rec_end fs d r"
    by (simp add: rec_end_def unat_add_lem [THEN iffD1])
  have "unat (ucast (ucast (e_cpos r + cmfs_rec_clusters fs d r) :: u32) :: u64)
      = unat (e_cpos r + cmfs_rec_clusters fs d r)"
    using u assms by (simp add: unsigned_ucast_eq unsigned_take_bit_eq take_bit_nat_eq_self)
  then show "(ucast (ucast (e_cpos r + cmfs_rec_clusters fs d r) :: u32) :: u64)
      = e_cpos r + cmfs_rec_clusters fs d r" by (simp only: word_unat_eq_iff)
qed


lemma choose_rec_spec:
  assumes "\<And>j. i \<le> j \<Longrightarrow> j < i + k \<Longrightarrow> rec_end fs (el_depth fs buf b) (rec_at fs buf b j) < 2 ^ 32"
  shows "i \<le> choose_rec fs buf b c i k \<and> choose_rec fs buf b c i k \<le> i + k
    \<and> (choose_rec fs buf b c i k < i + k \<longrightarrow>
         in_rec fs (el_depth fs buf b) (rec_at fs buf b (choose_rec fs buf b c i k)) c)
    \<and> (\<forall>j. i \<le> j \<longrightarrow> j < choose_rec fs buf b c i k \<longrightarrow> \<not> in_rec fs (el_depth fs buf b) (rec_at fs buf b j) c)"
  using assms
proof (induction k arbitrary: i)
  case (Suc k)
  let ?r = "rec_at fs buf b i" and ?d = "el_depth fs buf b"
  have end_ok: "rec_end fs ?d ?r < 2 ^ 32" using Suc.prems [of i] by simp
  have test: "(c \<ge> e_cpos ?r \<and> c < ucast (ucast (e_cpos ?r + cmfs_rec_clusters fs ?d ?r) :: u32))
      \<longleftrightarrow> in_rec fs ?d ?r c"
    unfolding rec_end_word(2) [OF end_ok] in_rec_def rec_start_def word_le_nat_alt word_less_nat_alt
      rec_end_word(1) [OF end_ok] by simp
  have IH: "\<And>P. (\<And>j. i + 1 \<le> j \<Longrightarrow> j < i + 1 + k \<Longrightarrow> rec_end fs ?d (rec_at fs buf b j) < 2 ^ 32)"
    using Suc.prems by simp
  show ?case
  proof (cases "in_rec fs ?d ?r c")
    case True
    then show ?thesis using test by (simp add: Let_def el_depth_def)
  next
    case False
    then have step: "choose_rec fs buf b c i (Suc k) = choose_rec fs buf b c (i + 1) k"
      using test by (auto simp: Let_def el_depth_def)
    have "\<And>j. i \<le> j \<Longrightarrow> j \<noteq> i \<Longrightarrow> i + 1 \<le> j" by simp
    then show ?thesis unfolding step using Suc.IH [of "i + 1", OF IH] False by fastforce
  qed
qed simp

text \<open>The chosen record is the one below which the extent that covers \<open>c\<close> lies.\<close>

lemma choose_rec_covers:
  assumes "list_ok d fs buf b lo hi" and "hi < 2 ^ 32" and "i < el_len fs buf b"
    and "in_rec fs d (rec_at fs buf b i) c"
  shows "choose_rec fs buf b c 0 (el_len fs buf b - 1) = i"
proof -
  let ?n = "el_len fs buf b" and ?ch = "choose_rec fs buf b c 0 (el_len fs buf b - 1)"
  have d: "el_depth fs buf b = d" using assms(1) by (simp add: list_ok_def)
  have "rec_end fs d (rec_at fs buf b j) < 2 ^ 32" if "j < ?n" for j
    using assms(1,2) that by (auto simp: list_ok_def intro: order_le_less_trans)
  then have spec: "?ch \<le> ?n - 1" "?ch < ?n - 1 \<longrightarrow> in_rec fs d (rec_at fs buf b ?ch) c"
    "\<forall>j < ?ch. \<not> in_rec fs d (rec_at fs buf b j) c"
    using choose_rec_spec [of 0 "?n - 1" fs buf b c] assms(3) d by auto
  have disjoint: "\<not> in_rec fs d (rec_at fs buf b j) c" if "j < ?n" "j \<noteq> i" for j
  proof -
    have "rec_end fs d (rec_at fs buf b j) \<le> rec_start (rec_at fs buf b i)
      \<or> rec_end fs d (rec_at fs buf b i) \<le> rec_start (rec_at fs buf b j)"
      using assms(1,3) that by (meson list_ok_def linorder_neqE_nat)
    then show ?thesis using assms(4) by (auto simp: in_rec_def)
  qed
  show ?thesis
  proof (cases "?ch < ?n - 1")
    case True
    then have "in_rec fs d (rec_at fs buf b ?ch) c" "?ch < ?n" using spec(2) by simp_all
    then show ?thesis using disjoint by blast
  next
    case False
    then have "?ch = ?n - 1" using spec(1) by simp
    moreover have "\<not> i < ?ch" using spec(3) assms(4) by blast
    ultimately show ?thesis using assms(3) by simp
  qed
qed

lemma leaf_of_exists: "tree_ok d fs buf b lo hi \<Longrightarrow> hi < 2 ^ 32 \<Longrightarrow>
  \<exists>leaf lb lo' hi'. leaf_of d fs buf b c leaf lb \<and> tree_ok 0 fs leaf lb lo' hi' \<and> hi' < 2 ^ 32"
proof (induction d arbitrary: buf b lo hi)
  case (Suc d)
  let ?i = "choose_rec fs buf b c 0 (el_len fs buf b - 1)"
  have ok: "list_ok (of_nat (Suc d)) fs buf b lo hi" using Suc.prems(1) by simp
  have ends: "rec_end fs (of_nat (Suc d)) (rec_at fs buf b j) < 2 ^ 32" if "j < el_len fs buf b" for j
    using ok Suc.prems(2) that by (auto simp: list_ok_def simp del: of_nat_Suc intro: order_le_less_trans)
  have n: "0 < el_len fs buf b" using Suc.prems(1) by simp
  then have "?i \<le> el_len fs buf b - 1"
    using choose_rec_spec [of 0 "el_len fs buf b - 1" fs buf b c] ends ok
    by (simp add: list_ok_def del: of_nat_Suc)
  then have i: "?i < el_len fs buf b" using n by simp
  with Suc.prems(1) obtain eb where "extent_block_at fs (e_blkno (rec_at fs buf b ?i)) eb"
    "tree_ok d fs eb o_h_list (rec_start (rec_at fs buf b ?i)) (rec_end fs (of_nat (Suc d)) (rec_at fs buf b ?i))"
    by auto
  with Suc.IH [OF this(2) ends [OF i]] show ?case by fastforce
qed auto

lemma leaf_of_covers:
  assumes "tree_ok d fs buf b lo hi" and "hi < 2 ^ 32" and "r \<in> tree_recs d fs buf b"
    and "in_rec fs 0 r c" and "leaf_of d fs buf b c leaf lb"
  shows "r \<in> tree_recs 0 fs leaf lb"
  using assms
proof (induction d arbitrary: buf b lo hi)
  case (Suc d)
  let ?d = "of_nat (Suc d) :: u16"
  from Suc.prems(3) obtain i eb where i: "i < el_len fs buf b"
    "extent_block_at fs (e_blkno (rec_at fs buf b i)) eb" "r \<in> tree_recs d fs eb o_h_list"
    by auto
  have ok: "list_ok ?d fs buf b lo hi" using Suc.prems(1) by simp
  from Suc.prems(1) i extent_block_at_unique
  have sub: "tree_ok d fs eb o_h_list (rec_start (rec_at fs buf b i)) (rec_end fs ?d (rec_at fs buf b i))"
    by fastforce
  have hi: "rec_end fs ?d (rec_at fs buf b i) < 2 ^ 32"
    using ok i(1) Suc.prems(2) by (auto simp: list_ok_def simp del: of_nat_Suc intro: order_le_less_trans)
  have "in_rec fs ?d (rec_at fs buf b i) c"
    using tree_recs_bounds [OF sub i(3)] Suc.prems(4) by (auto simp: in_rec_def)
  then have "choose_rec fs buf b c 0 (el_len fs buf b - 1) = i"
    by (rule choose_rec_covers [OF ok Suc.prems(2) i(1)])
  then have "leaf_of d fs eb o_h_list c leaf lb"
    using Suc.prems(5) i(2) extent_block_at_unique by auto
  then show ?case by (rule Suc.IH [OF sub hi i(3) Suc.prems(4)])
qed simp


section \<open>The search\<close>

lemma of_nat_depth: "d < 6 \<Longrightarrow> (of_nat (Suc d) :: u16) \<noteq> 0"
proof
  assume d: "d < 6" and "(of_nat (Suc d) :: u16) = 0"
  then have "unat (of_nat (Suc d) :: u16) = 0" by simp
  moreover have "Suc d < 2 ^ 16" using d(1) by simp
  ultimately show False using unat_of_nat_u16 by fastforce
qed

lemma find_path_yields:
  assumes "quiet fs" and "tree_ok d fs buf b lo hi" and "hi < 2 ^ 32" and "leaf_of d fs buf b c leaf lb"
    and "1 \<le> i" and "i + d \<le> length (p_node path)" and "d \<le> 5"
  shows "\<exists>path'. yields calm (find_path_loop buf b c (i, path)) fs (Inr path')
    \<and> p_tree_depth path' = p_tree_depth path
    \<and> (0 < d \<longrightarrow> pi_buf (p_node path' ! (i + d - 1)) = Some leaf \<and> lb = o_h_list)
    \<and> (\<forall>j < i. p_node path' ! j = p_node path ! j)"
  using assms
proof (induction d arbitrary: fs buf b lo hi i path)
  case 0
  then have "ld16 (cpu_le fs) buf (b + o_l_tree_depth) = 0"
    by (simp add: list_ok_def el_depth_def)
  then have "find_path_loop buf b c (i, path) fs = (Inr path, fs)"
    by (subst find_path_loop.simps) (simp add: Let_def)
  then show ?case by (auto simp: yields_def)
next
  case (Suc d)
  let ?n = "el_len fs buf b"
  let ?k = "choose_rec fs buf b c 0 (?n - 1)"
  let ?blkno = "e_blkno (rec_at fs buf b ?k)"
  have ok: "list_ok (of_nat (Suc d)) fs buf b lo hi" and n: "0 < ?n" using Suc.prems(2) by simp_all
  have ends: "rec_end fs (of_nat (Suc d)) (rec_at fs buf b j) < 2 ^ 32" if "j < ?n" for j
    using ok Suc.prems(3) that by (auto simp: list_ok_def simp del: of_nat_Suc intro: order_le_less_trans)
  have "?k \<le> ?n - 1"
    using choose_rec_spec [of 0 "?n - 1" fs buf b c] ends n ok by (simp add: list_ok_def del: of_nat_Suc)
  then have k: "?k < ?n" using n by simp
  obtain eb where eb: "extent_block_at fs ?blkno eb" "leaf_of d fs eb o_h_list c leaf lb"
    using Suc.prems(4) by auto
  have sub: "?blkno \<noteq> 0" "tree_ok d fs eb o_h_list (rec_start (rec_at fs buf b ?k))
      (rec_end fs (of_nat (Suc d)) (rec_at fs buf b ?k))"
    using Suc.prems(2) k eb(1) extent_block_at_unique by fastforce+
  have "yields calm (bind_io malloc_block (\<lambda>_. cmfs_read_extent_block ?blkno)) fs (Inr eb)"
    by (rule calm.bind [OF malloc_yields [OF Suc.prems(1)]])
      (use eb(1) in \<open>auto intro!: read_extent_block_yields simp: calm_simps calm_quiet [OF _ Suc.prems(1)]\<close>)
  then obtain fs1 where read: "bind_io malloc_block (\<lambda>_. cmfs_read_extent_block ?blkno) fs = (Inr eb, fs1)"
    and fs1: "calm fs fs1" by (blast dest: yields_run)
  let ?path1 = "path\<lparr>p_node := (p_node path)[i :=
    \<lparr> pi_blkno = ld64 (cpu_le fs) eb o_h_blkno, pi_buf = Some eb, pi_el = o_h_list \<rparr>]\<rparr>"
  have ins: "find_path_ins (cpu_le fs) eb (i, path) = Some (i + 1, ?path1)"
    using Suc.prems(5,6) by (simp add: find_path_ins_def cmfs_path_insert_eb_def)
  have depth: "ld16 (cpu_le fs) buf (b + o_l_tree_depth) \<noteq> 0"
    using ok of_nat_depth [of d] Suc.prems(7) by (simp add: list_ok_def el_depth_def del: of_nat_Suc)
  have fits: "\<not> b + o_l_recs + 32 * unat (ld16 (cpu_le fs) buf (b + o_l_next_free_rec)) > length buf"
    using ok by (simp add: list_ok_def el_len_def)
  have count: "\<not> ld16 (cpu_le fs) eb (o_h_list + o_l_next_free_rec)
      > ld16 (cpu_le fs) eb (o_h_list + o_l_count)"
    using eb(1) by (auto simp: extent_block_at_def)
  have step: "find_path_loop buf b c (i, path) fs = find_path_loop eb o_h_list c (i + 1, ?path1) fs1"
    using depth fits n count sub(1) ins fs1 read
    by (subst find_path_loop.simps) (simp add: Let_def calm_simps el_len_def)
  have "\<exists>path'. yields calm (find_path_loop eb o_h_list c (i + 1, ?path1)) fs1 (Inr path')
    \<and> p_tree_depth path' = p_tree_depth ?path1
    \<and> (0 < d \<longrightarrow> pi_buf (p_node path' ! (i + 1 + d - 1)) = Some leaf \<and> lb = o_h_list)
    \<and> (\<forall>j < i + 1. p_node path' ! j = p_node ?path1 ! j)"
    by (rule Suc.IH [where lo = "rec_start (rec_at fs buf b ?k)"
          and hi = "rec_end fs (of_nat (Suc d)) (rec_at fs buf b ?k)"])
      (use sub(2) eb(2) fs1 ends [OF k] Suc.prems(1,5,6,7) in
        \<open>auto simp: calm_simps calm_quiet [OF fs1] simp del: of_nat_Suc\<close>)
  then obtain path' where p: "yields calm (find_path_loop eb o_h_list c (i + 1, ?path1)) fs1 (Inr path')"
    "p_tree_depth path' = p_tree_depth path"
    "0 < d \<longrightarrow> pi_buf (p_node path' ! (i + d)) = Some leaf \<and> lb = o_h_list"
    "\<forall>j < i + 1. p_node path' ! j = p_node ?path1 ! j" by auto
  have "pi_buf (p_node path' ! (i + d)) = Some leaf \<and> lb = o_h_list"
  proof (cases "d = 0")
    case True
    then show ?thesis using p(4) eb(2) Suc.prems(6) by simp
  next
    case False
    then show ?thesis using p(3) by simp
  qed
  moreover have "\<forall>j < i. p_node path' ! j = p_node path ! j" using p(4) by simp
  moreover have "yields calm (find_path_loop buf b c (i, path)) fs (Inr path')"
    using p(1) fs1 step by (auto simp: yields_def intro: calm_trans)
  ultimately show ?case using p(2) by auto
qed


lemma new_path_yields:
  assumes "quiet fs" and "unat (el_depth fs buf b) < CMFS_MAX_PATH_DEPTH"
  shows "yields calm (cmfs_new_path buf b blkno) fs (Inr
    \<lparr> p_tree_depth = unat (el_depth fs buf b),
      p_node = \<lparr> pi_blkno = blkno, pi_buf = Some buf, pi_el = b \<rparr>
               # replicate (CMFS_MAX_PATH_DEPTH - 1) empty_item \<rparr>)"
proof -
  have "yields calm (bind_io malloc_block (\<lambda>_. ret_io
    \<lparr> p_tree_depth = unat (el_depth fs buf b),
      p_node = \<lparr> pi_blkno = blkno, pi_buf = Some buf, pi_el = b \<rparr>
               # replicate (CMFS_MAX_PATH_DEPTH - 1) empty_item \<rparr>)) fs (Inr
    \<lparr> p_tree_depth = unat (el_depth fs buf b),
      p_node = \<lparr> pi_blkno = blkno, pi_buf = Some buf, pi_el = b \<rparr>
               # replicate (CMFS_MAX_PATH_DEPTH - 1) empty_item \<rparr>)"
    by (rule calm.bind [OF malloc_yields [OF assms(1)] calm.ret])
  then show ?thesis using assms(2) by (simp add: yields_def cmfs_new_path_def el_depth_def)
qed

lemma length_leaf:
  assumes "quiet fs" and "leaf_of (Suc d) fs buf b c leaf lb"
  shows "length leaf = bsize fs"
  using assms(2)
proof (induction d arbitrary: buf b)
  case 0
  then show ?case by (auto intro: length_extent_block_at [OF assms(1)])
next
  case (Suc d)
  from Suc.prems obtain eb where "leaf_of (Suc d) fs eb o_h_list c leaf lb"
    by (simp only: leaf_of.simps(2) [of "Suc d"]) blast
  then show ?case by (rule Suc.IH)
qed

lemma tree_find_leaf_yields:
  assumes "quiet fs" and "tree_ok (Suc d) fs di b lo hi" and "hi < 2 ^ 32" and "d < 4"
    and "leaf_of (Suc d) fs di b c leaf lb"
  shows "yields calm (cmfs_tree_find_leaf di b blkno c) fs (Inr leaf)" and "lb = o_h_list"
proof -
  have depth: "el_depth fs di b = of_nat (Suc d)"
    using assms(2) by (simp add: list_ok_def del: of_nat_Suc)
  then have ud: "unat (el_depth fs di b) = Suc d" and pos: "0 < el_depth fs di b"
    using assms(4) of_nat_depth [of d] by (simp_all add: unat_of_nat_u16 word_gt_0 del: of_nat_Suc)
  define path where "path = \<lparr> p_tree_depth = Suc d,
      p_node = \<lparr> pi_blkno = blkno, pi_buf = Some di, pi_el = b \<rparr>
               # replicate (CMFS_MAX_PATH_DEPTH - 1) empty_item \<rparr>"
  have find: "\<exists>path'. yields calm (cmfs_find_path path c) t (Inr path') \<and> p_tree_depth path' = Suc d
      \<and> pi_buf (p_node path' ! Suc d) = Some leaf \<and> lb = o_h_list" if "calm fs t" for t
    using find_path_yields [OF calm_quiet [OF that assms(1)], of "Suc d" di b lo hi c leaf lb 1 path]
      assms(2-5) that by (auto simp: path_def calm_simps cmfs_find_path_def simp del: tree_ok.simps leaf_of.simps)
  show "lb = o_h_list" using find [of fs] by auto
  have copy: "yields calm (bind_io malloc_block (\<lambda>_.
      case pi_buf (p_node path' ! p_tree_depth path') of
        None \<Rightarrow> err_io C_UNDEFINED
      | Some leaf \<Rightarrow> get_io (\<lambda>fs. take (bsize fs) leaf))) t (Inr leaf)"
    if "calm fs t" "p_tree_depth path' = Suc d" "pi_buf (p_node path' ! Suc d) = Some leaf" for t path'
    using that length_leaf [OF assms(1,5)]
    by (auto intro!: calm.bind [OF malloc_yields] calm.get simp: calm_quiet [OF _ assms(1)] calm_simps)
  have "yields calm (bind_io (cmfs_new_path di b blkno) (\<lambda>path.
     bind_io (cmfs_find_path path c) (\<lambda>path.
     bind_io malloc_block (\<lambda>_.
     case pi_buf (p_node path ! p_tree_depth path) of
       None \<Rightarrow> err_io C_UNDEFINED
     | Some leaf \<Rightarrow> get_io (\<lambda>fs. take (bsize fs) leaf))))) t (Inr leaf)" if t: "calm fs t" for t
  proof (rule calm.bind [where x = path])
    show "yields calm (cmfs_new_path di b blkno) t (Inr path)"
      using new_path_yields [OF calm_quiet [OF t assms(1)], of di b blkno] assms(4)
      by (simp add: ud path_def calm_simps [OF t])
  next
    fix u assume "calm t u"
    then have u: "calm fs u" using t calm_trans by blast
    obtain path' where p: "yields calm (cmfs_find_path path c) u (Inr path')"
      "p_tree_depth path' = Suc d" "pi_buf (p_node path' ! Suc d) = Some leaf"
      using find [OF u] by blast
    show "yields calm (bind_io (cmfs_find_path path c) (\<lambda>path.
     bind_io malloc_block (\<lambda>_.
     case pi_buf (p_node path ! p_tree_depth path) of
       None \<Rightarrow> err_io C_UNDEFINED
     | Some leaf \<Rightarrow> get_io (\<lambda>fs. take (bsize fs) leaf)))) u (Inr leaf)"
      using p(1) by (rule calm.bind) (rule copy [OF _ p(2,3)], use u calm_trans in blast)
  qed
  then show "yields calm (cmfs_tree_find_leaf di b blkno c) fs (Inr leaf)"
    unfolding cmfs_tree_find_leaf_def using pos
    by (intro calm.bind [OF calm.get] calm.bind [OF calm.guard])
      (auto simp: el_depth_def intro: calm_trans)
qed

lemma find_leaf_yields:
  assumes "quiet fs" and "tree_ok (Suc d) fs di o_id2 lo hi" and "hi < 2 ^ 32" and "d < 4"
    and "leaf_of (Suc d) fs di o_id2 c leaf lb"
  shows "yields calm (cmfs_find_leaf di c) fs (Inr leaf)"
  unfolding cmfs_find_leaf_def using assms
  by (intro calm.bind [OF calm.get [OF HOL.refl]] tree_find_leaf_yields(1) [where lo = lo and hi = hi and lb = lb])
    (simp_all add: calm_simps calm_quiet del: tree_ok.simps leaf_of.simps)

section \<open>Searching a leaf\<close>

lemma in_rec_word:
  assumes "rec_end fs d r < 2 ^ 32"
  shows "(c \<ge> e_cpos r \<and> c < e_cpos r + cmfs_rec_clusters fs d r) \<longleftrightarrow> in_rec fs d r c"
  by (simp add: in_rec_def rec_start_def word_le_nat_alt word_less_nat_alt rec_end_word(1) [OF assms])

lemma search_recs_spec:
  assumes "\<And>j. i \<le> j \<Longrightarrow> j < i + k \<Longrightarrow> rec_end fs (el_depth fs buf b) (rec_at fs buf b j) < 2 ^ 32"
  shows "case search_recs fs buf b c i k of
      None \<Rightarrow> \<forall>j. i \<le> j \<longrightarrow> j < i + k \<longrightarrow> \<not> in_rec fs (el_depth fs buf b) (rec_at fs buf b j) c
    | Some j \<Rightarrow> i \<le> j \<and> j < i + k \<and> in_rec fs (el_depth fs buf b) (rec_at fs buf b j) c"
  using assms
proof (induction k arbitrary: i)
  case (Suc k)
  let ?r = "rec_at fs buf b i" and ?d = "el_depth fs buf b"
  have test: "(c \<ge> e_cpos ?r \<and> c < e_cpos ?r + cmfs_rec_clusters fs ?d ?r) \<longleftrightarrow> in_rec fs ?d ?r c"
    using Suc.prems [of i] by (intro in_rec_word) simp
  have step: "search_recs fs buf b c i (Suc k)
      = (if in_rec fs ?d ?r c then Some i else search_recs fs buf b c (i + 1) k)"
    using test by (auto simp: Let_def el_depth_def)
  have IH: "case search_recs fs buf b c (i + 1) k of
      None \<Rightarrow> \<forall>j. i + 1 \<le> j \<longrightarrow> j < i + 1 + k \<longrightarrow> \<not> in_rec fs ?d (rec_at fs buf b j) c
    | Some j \<Rightarrow> i + 1 \<le> j \<and> j < i + 1 + k \<and> in_rec fs ?d (rec_at fs buf b j) c"
    using Suc.prems by (intro Suc.IH) simp
  have "j = i \<or> i + 1 \<le> j" if "i \<le> j" for j using that by auto
  then show ?case unfolding step using IH by (auto split: option.splits)
qed simp

lemma search_list:
  assumes "list_ok d fs buf b lo hi" and "hi < 2 ^ 32"
  shows "(\<forall>r \<in> tree_recs 0 fs buf b. in_rec fs d r c \<longrightarrow>
      (\<exists>i. cmfs_search_extent_list fs buf b c = Some i \<and> rec_at fs buf b i = r))
    \<and> ((\<forall>r \<in> tree_recs 0 fs buf b. \<not> in_rec fs d r c) \<longrightarrow> cmfs_search_extent_list fs buf b c = None)"
proof -
  let ?n = "el_len fs buf b"
  have d: "el_depth fs buf b = d" using assms(1) by (simp add: list_ok_def)
  have spec: "case cmfs_search_extent_list fs buf b c of
      None \<Rightarrow> \<forall>j < ?n. \<not> in_rec fs d (rec_at fs buf b j) c
    | Some j \<Rightarrow> j < ?n \<and> in_rec fs d (rec_at fs buf b j) c"
    using search_recs_spec [of 0 ?n fs buf b c] assms d
    by (force simp: cmfs_search_extent_list_def el_len_def list_ok_def split: option.splits)
  have unique: "i = j" if "i < ?n" "j < ?n" "in_rec fs d (rec_at fs buf b i) c"
    "in_rec fs d (rec_at fs buf b j) c" for i j
  proof (rule ccontr)
    assume "i \<noteq> j"
    then have "rec_end fs d (rec_at fs buf b j) \<le> rec_start (rec_at fs buf b i)
      \<or> rec_end fs d (rec_at fs buf b i) \<le> rec_start (rec_at fs buf b j)"
      using assms(1) that(1,2) by (meson list_ok_def linorder_neqE_nat)
    then show False using that(3,4) by (auto simp: in_rec_def)
  qed
  show ?thesis
    using spec unique by (auto split: option.splits)
qed

lemma leaf_recs_subset:
  assumes "tree_ok d fs buf b lo hi" and "hi < 2 ^ 32" and "leaf_of d fs buf b c leaf lb"
  shows "tree_recs 0 fs leaf lb \<subseteq> tree_recs d fs buf b"
  using assms
proof (induction d arbitrary: buf b lo hi)
  case (Suc d)
  let ?n = "el_len fs buf b"
  let ?k = "choose_rec fs buf b c 0 (?n - 1)"
  have ok: "list_ok (of_nat (Suc d)) fs buf b lo hi" and n: "0 < ?n" using Suc.prems(1) by simp_all
  have ends: "rec_end fs (of_nat (Suc d)) (rec_at fs buf b j) < 2 ^ 32" if "j < ?n" for j
    using ok Suc.prems(2) that by (auto simp: list_ok_def simp del: of_nat_Suc intro: order_le_less_trans)
  have "?k \<le> ?n - 1"
    using choose_rec_spec [of 0 "?n - 1" fs buf b c] ends n ok by (simp add: list_ok_def del: of_nat_Suc)
  then have k: "?k < ?n" using n by simp
  obtain eb where eb: "extent_block_at fs (e_blkno (rec_at fs buf b ?k)) eb"
    "leaf_of d fs eb o_h_list c leaf lb" using Suc.prems(3) by auto
  have sub: "tree_ok d fs eb o_h_list (rec_start (rec_at fs buf b ?k))
      (rec_end fs (of_nat (Suc d)) (rec_at fs buf b ?k))"
    using Suc.prems(1) k eb(1) extent_block_at_unique by fastforce
  show ?case using Suc.IH [OF sub ends [OF k] eb(2)] k eb(1) by fastforce
qed simp

lemma leaf_of_unique:
  "leaf_of d fs buf b c leaf lb \<Longrightarrow> leaf_of d fs buf b c leaf' lb' \<Longrightarrow> leaf' = leaf \<and> lb' = lb"
  by (induction d arbitrary: buf b) (auto dest: extent_block_at_unique)

lemma leaf_of_ok:
  assumes "tree_ok d fs buf b lo hi" and "hi < 2 ^ 32" and "leaf_of d fs buf b c leaf lb"
  obtains lo' hi' where "list_ok 0 fs leaf lb lo' hi'" and "hi' < 2 ^ 32"
  using leaf_of_exists [OF assms(1,2), of c] leaf_of_unique [OF assms(3)] by auto

text \<open>The leaf list that \<open>cmfs_get_clusters\<close> works on.\<close>

lemma get_leaf_yields:
  assumes "quiet fs" and "tree_ok d fs di o_id2 lo hi" and "hi < 2 ^ 32" and "d < 5"
    and "leaf_of d fs di o_id2 c leaf lb" and le: "le = cpu_le fs"
  shows "yields calm
       (if ld16 le di (o_id2 + o_l_tree_depth) \<noteq> 0 then
          bind_io (cmfs_find_leaf di c) (\<lambda>eb.
          bind_io (guard_io (ld16 le eb (o_h_list + o_l_tree_depth) = 0) CMFS_ET_CORRUPT_EXTENT_BLOCK)
            (\<lambda>_. ret_io (eb, o_h_list, True)))
        else ret_io (di, o_id2, False)) fs (Inr (leaf, lb, 0 < d))"
proof (cases d)
  case 0
  then have "ld16 (cpu_le fs) di (o_id2 + o_l_tree_depth) = 0"
    using assms(2) by (simp add: list_ok_def el_depth_def)
  then show ?thesis using 0 assms(5) by (simp add: calm.ret le)
next
  case (Suc e)
  have depth: "ld16 (cpu_le fs) di (o_id2 + o_l_tree_depth) \<noteq> 0"
    using assms(2,4) of_nat_depth [of e] by (simp add: Suc list_ok_def el_depth_def del: of_nat_Suc)
  have lb: "lb = o_h_list"
    using assms(4,5) by (intro tree_find_leaf_yields(2) [OF assms(1) assms(2) [unfolded Suc] assms(3)])
      (simp_all add: Suc)
  have find: "yields calm (cmfs_find_leaf di c) fs (Inr leaf)"
    using assms(4,5) by (intro find_leaf_yields [OF assms(1) assms(2) [unfolded Suc] assms(3)])
      (simp_all add: Suc)
  obtain lo' hi' where "list_ok 0 fs leaf lb lo' hi'" using leaf_of_ok [OF assms(2,3,5)] by blast
  then have "ld16 (cpu_le fs) leaf (o_h_list + o_l_tree_depth) = 0"
    by (simp add: list_ok_def el_depth_def lb)
  then show ?thesis using depth find
    by (auto intro!: calm.bind [OF find] calm.bind [OF calm.guard] calm.ret simp: lb Suc le)
qed

lemma list_fits: "list_ok d fs buf b lo hi \<Longrightarrow>
  \<not> b + o_l_recs + 32 * unat (ld16 (cpu_le fs) buf (b + o_l_next_free_rec)) > length buf"
  by (simp add: list_ok_def el_len_def)

lemma get_clusters_extent:
  assumes "quiet fs" and "tree_ok d fs di o_id2 lo hi" and "hi < 2 ^ 32" and "d < 5"
    and "r \<in> tree_recs d fs di o_id2" and "in_rec fs 0 r c" and "e_blkno r \<noteq> 0"
  shows "yields calm (cmfs_get_clusters di c True) fs (Inr
    (cmfs_blocks_to_clusters fs (e_blkno r) + (c - e_cpos r),
     cmfs_rec_clusters fs 0 r - (c - e_cpos r), ucast (e_flags r)))"
proof -
  obtain leaf lb where leaf: "leaf_of d fs di o_id2 c leaf lb"
    using leaf_of_exists [OF assms(2,3)] by blast
  obtain lo' hi' where ok: "list_ok 0 fs leaf lb lo' hi'" "hi' < 2 ^ 32"
    using leaf_of_ok [OF assms(2,3) leaf] by blast
  have "r \<in> tree_recs 0 fs leaf lb" by (rule leaf_of_covers [OF assms(2,3,5,6) leaf])
  then obtain i where i: "cmfs_search_extent_list fs leaf lb c = Some i" "rec_at fs leaf lb i = r"
    using search_list [OF ok, of c] assms(6) by blast
  have bounds: "rec_end fs 0 r < 2 ^ 32"
    using tree_recs_bounds [OF assms(2,5)] assms(3) by simp
  have diff: "unat (c - e_cpos r) = unat c - unat (e_cpos r)"
    using assms(6) by (simp add: in_rec_def rec_start_def unat_sub word_le_nat_alt)
  have "unat (c - e_cpos r) < 2 ^ 32"
    using bounds assms(6) unfolding diff by (auto simp: in_rec_def)
  then have "unat (ucast (ucast (c - e_cpos r) :: u32) :: u64) = unat (c - e_cpos r)"
    by (simp add: unsigned_ucast_eq unsigned_take_bit_eq take_bit_nat_eq_self)
  then have coff: "(ucast (ucast (c - e_cpos r) :: u32) :: u64) = c - e_cpos r"
    by (simp only: word_unat_eq_iff)
  have depth0: "ld16 (cpu_le fs) leaf lb = 0" using ok(1) by (simp add: list_ok_def el_depth_def)
  have search: "cmfs_search_extent_list t leaf lb c = Some i" if "calm fs t" for t
  proof -
    have "search_recs t leaf lb c j n = search_recs fs leaf lb c j n" for j n
      by (induction n arbitrary: j) (simp_all add: Let_def calm_simps [OF that])
    then show ?thesis using i(1) by (simp add: cmfs_search_extent_list_def calm_simps [OF that])
  qed
  show ?thesis
    unfolding cmfs_get_clusters_def
  proof (rule calm.bind [OF calm.get [OF HOL.refl]], rule calm.bind [where x = "(leaf, lb, 0 < d)"], goal_cases)
    case (1 t)
    then show ?case using assms(1-4) leaf
      by (intro get_leaf_yields [where lo = lo and hi = hi])
        (simp_all add: calm_quiet calm_simps del: tree_ok.simps leaf_of.simps)
  next
    case (2 t u)
    then have u: "calm fs u" using calm_trans by blast
    then show ?case using list_fits [OF ok(1)] search [OF u] i(2) assms(7) coff depth0
      by (simp add: yields_def Let_def calm_simps [OF u])
  qed
qed

lemma get_clusters_hole:
  assumes "quiet fs" and "tree_ok d fs di o_id2 lo hi" and "hi < 2 ^ 32" and "d < 5"
    and "\<forall>r \<in> tree_recs d fs di o_id2. \<not> in_rec fs 0 r c"
    and "leaf_of d fs di o_id2 c leaf lb"
    and "d = 0 \<or> ld64 (cpu_le fs) leaf o_h_next_leaf_block = 0
      \<or> hole_index (cpu_le fs) leaf lb c 0 (el_len fs leaf lb) < el_len fs leaf lb"
  shows "yields calm (cmfs_get_clusters di c True) fs (Inr (0,
    (let i = hole_index (cpu_le fs) leaf lb c 0 (el_len fs leaf lb)
     in if i = el_len fs leaf lb then UINT64_MAX - c else e_cpos (rec_at fs leaf lb i) - c), 0))"
proof -
  obtain lo' hi' where ok: "list_ok 0 fs leaf lb lo' hi'" "hi' < 2 ^ 32"
    using leaf_of_ok [OF assms(2,3,6)] by blast
  have none: "cmfs_search_extent_list fs leaf lb c = None"
    using search_list [OF ok, of c] leaf_recs_subset [OF assms(2,3,6)] assms(5) by blast
  have search: "cmfs_search_extent_list t leaf lb c = None" if "calm fs t" for t
  proof -
    have "search_recs t leaf lb c j n = search_recs fs leaf lb c j n" for j n
      by (induction n arbitrary: j) (simp_all add: Let_def calm_simps [OF that])
    then show ?thesis using none by (simp add: cmfs_search_extent_list_def calm_simps [OF that])
  qed
  show ?thesis
    unfolding cmfs_get_clusters_def
  proof (rule calm.bind [OF calm.get [OF HOL.refl]], rule calm.bind [where x = "(leaf, lb, 0 < d)"], goal_cases)
    case (1 t)
    then show ?case using assms(1-4,6)
      by (intro get_leaf_yields [where lo = lo and hi = hi])
        (simp_all add: calm_quiet calm_simps del: tree_ok.simps leaf_of.simps)
  next
    case (2 t u)
    then have u: "calm fs u" using calm_trans by blast
    have "d \<noteq> 0 \<longrightarrow> ld64 (cpu_le fs) leaf o_h_next_leaf_block = 0
      \<or> hole_index (cpu_le fs) leaf lb c 0 (el_len fs leaf lb) \<noteq> el_len fs leaf lb"
      using assms(7) by auto
    then have "\<not> (hole_index (cpu_le fs) leaf lb c 0 (el_len fs leaf lb) = el_len fs leaf lb \<and> 0 < d
        \<and> ld64 (cpu_le fs) leaf o_h_next_leaf_block \<noteq> 0)" by auto
    then have "cmfs_figure_hole_clusters leaf lb (0 < d) c u = (Inr
      (let i = hole_index (cpu_le fs) leaf lb c 0 (el_len fs leaf lb)
       in if i = el_len fs leaf lb then UINT64_MAX - c else e_cpos (rec_at fs leaf lb i) - c), u)"
      by (simp only: cmfs_figure_hole_clusters_def Let_def cmfs_search_for_hole_index_def
          calm_simps [OF u] el_len_def [symmetric] if_False)
    then show ?case using list_fits [OF ok(1)] search [OF u] u
      by (simp add: yields_def bind_io_def ret_io_def)
  qed
qed

end
