(* ===== verification/File_map.thy ===== *)
theory File_map
  imports Extent_search Fileio
begin

text \<open>
  The mapping of the blocks of a file to blocks of the device, in natural numbers: the
  unit conversions with their 32-bit shift, \<^verbatim>\<open>cmfs_extent_map_get_blocks\<close> on an extent
  tree, and reading a file.
\<close>

section \<open>Units\<close>

definition c_bits :: "cmfs_filesys \<Rightarrow> nat" where
  "c_bits fs = unat (s_clustersize_bits (CMFS_RAW_SB fs) - s_blocksize_bits (CMFS_RAW_SB fs))"

lemma unat_clusters_to_blocks:
  "unat (cmfs_clusters_to_blocks fs c) = (unat c * 2 ^ c_bits fs) mod 2 ^ 32"
proof -
  have "unat (push_bit (c_bits fs) c) = (unat c * 2 ^ c_bits fs) mod 2 ^ 32"
    by (simp only: unsigned_push_bit_eq push_bit_eq_mult [where 'a = nat] take_bit_eq_mod) simp
  moreover have "(unat c * 2 ^ c_bits fs) mod 2 ^ 32 < 2 ^ 64"
    by (rule order_less_trans [OF mod_less_divisor]) simp_all
  ultimately show ?thesis
    by (simp add: cmfs_clusters_to_blocks_def c_bits_def [symmetric] unsigned_ucast_eq
        unsigned_take_bit_eq take_bit_nat_eq_self)
qed

lemma unat_blocks_to_clusters: "unat (cmfs_blocks_to_clusters fs w) = unat w div 2 ^ c_bits fs"
proof -
  have "\<not> x > UINT64_MAX" for x :: u64 using unat_u64_less [of x] by (simp add: word_less_nat_alt)
  then have "cmfs_blocks_to_clusters fs w = drop_bit (c_bits fs) w"
    by (simp add: cmfs_blocks_to_clusters_def c_bits_def)
  then show ?thesis by (simp only: unat_drop_bit)
qed

lemma block_offset:
  fixes v :: u64
  assumes "c_bits fs < 31"
  shows "unat (v AND word_of_int (sint (ucast (cmfs_clusters_to_blocks fs 1) :: u32) - 1))
    = unat v mod 2 ^ c_bits fs"
proof -
  let ?k = "c_bits fs"
  have small: "(2::nat) ^ ?k < 2 ^ 31" using assms by (rule power_strict_increasing) simp
  have "unat (cmfs_clusters_to_blocks fs 1) = 2 ^ ?k" using small by (simp only: unat_clusters_to_blocks) simp
  then have u: "unat (ucast (cmfs_clusters_to_blocks fs 1) :: u32) = 2 ^ ?k"
    using small assms by (simp add: unsigned_ucast_eq unsigned_take_bit_eq take_bit_nat_eq_self)
  have "(2::int) ^ ?k < 2 ^ 31" using assms by (rule power_strict_increasing) simp
  moreover have "- (2 ^ 31) \<le> (2::int) ^ ?k" by (rule order_trans [of _ 0]) simp_all
  ultimately have "signed_take_bit 31 ((2::int) ^ ?k) = 2 ^ ?k" by (simp only: signed_take_bit_int_eq_self)
  then have "sint (ucast (cmfs_clusters_to_blocks fs 1) :: u32) = 2 ^ ?k"
    using u by (simp add: sint_uint uint_nat)
  then have eq: "word_of_int (sint (ucast (cmfs_clusters_to_blocks fs 1) :: u32) - 1) = (mask ?k :: u64)"
    by (simp add: mask_eq_exp_minus_1)
  show ?thesis
    unfolding eq take_bit_eq_mask [symmetric]
    by (simp only: unsigned_take_bit_eq take_bit_eq_mod [where 'a = nat])
qed

section \<open>Mapping a block\<close>

lemma cluster_arith:
  fixes v s e K :: nat
  assumes "0 < K" and "s * K \<le> v" and "v < e * K"
  shows "s \<le> v div K" and "v div K < e" and "(v div K - s) * K + v mod K = v - s * K"
    and "(e - v div K) * K - v mod K = e * K - v" and "v mod K \<le> (e - v div K) * K"
proof -
  have v: "v div K * K + v mod K = v" by simp
  show s: "s \<le> v div K" using assms(1,2) by (simp add: less_eq_div_iff_mult_less_eq)
  show e: "v div K < e" using assms(1,3) by (simp add: div_less_iff_less_mult)
  show "(v div K - s) * K + v mod K = v - s * K"
    using v assms(2) mult_le_mono1 [OF s, of K] by (simp add: diff_mult_distrib)
  have "(v div K + 1) * K \<le> e * K" using e by (intro mult_le_mono1) simp
  moreover have "v mod K < K" using assms(1) by simp
  ultimately show "(e - v div K) * K - v mod K = e * K - v" and "v mod K \<le> (e - v div K) * K"
    using v by (simp_all add: diff_mult_distrib)
qed

lemma word_eq_of_nat: "unat (w :: u64) = n \<Longrightarrow> w = of_nat n"
  by auto

lemma get_blocks_yields:
  assumes "quiet fs" and "tree_ok d fs di o_id2 lo hi" and "hi < 2 ^ 32" and "d < 5"
    and "r \<in> tree_recs d fs di o_id2" and "c_bits fs < 31"
    and "e_blkno r \<noteq> 0" and "2 ^ c_bits fs dvd unat (e_blkno r)"
    and "rec_start r * 2 ^ c_bits fs \<le> unat v" and "unat v < rec_end fs 0 r * 2 ^ c_bits fs"
    and "unat (e_blkno r) + (unat v - rec_start r * 2 ^ c_bits fs) < 2 ^ 32"
  shows "yields calm (cmfs_extent_map_get_blocks di v) fs (Inr
    (of_nat (unat (e_blkno r) + (unat v - rec_start r * 2 ^ c_bits fs)),
     of_nat (rec_end fs 0 r * 2 ^ c_bits fs - unat v), ucast (e_flags r)))"
proof -
  let ?K = "(2::nat) ^ c_bits fs" and ?c = "cmfs_blocks_to_clusters fs v"
  have c: "unat ?c = unat v div ?K" by (rule unat_blocks_to_clusters)
  note arith = cluster_arith [OF _ assms(9,10)]
  have in_r: "in_rec fs 0 r ?c" using arith(1,2) by (simp add: in_rec_def c)
  note get = get_clusters_extent [OF assms(1-5) in_r assms(7)]
  let ?p = "cmfs_blocks_to_clusters fs (e_blkno r) + (?c - e_cpos r)"
    and ?num = "cmfs_rec_clusters fs 0 r - (?c - e_cpos r)"
  define off where "off = v AND word_of_int (sint (ucast (cmfs_clusters_to_blocks fs 1) :: u32) - 1)"
  have pos: "0 < ?K" by simp
  obtain q where q: "unat (e_blkno r) = ?K * q" using assms(8) by (auto elim: dvdE)
  have small: "?K * q + (unat v - rec_start r * ?K) < 2 ^ 32" using assms(11) by (simp add: q)
  have diff: "unat (?c - e_cpos r) = unat v div ?K - rec_start r"
    using arith(1) by (simp add: unat_sub word_le_nat_alt c rec_start_def)
  have pK: "(q + (unat v div ?K - rec_start r)) * ?K + unat v mod ?K = unat (e_blkno r) + (unat v - rec_start r * ?K)"
    using arith(3) by (simp add: q algebra_simps)
  then have lt: "(q + (unat v div ?K - rec_start r)) * ?K < 2 ^ 32" using assms(11) by linarith
  have "q + (unat v div ?K - rec_start r) \<le> (q + (unat v div ?K - rec_start r)) * ?K" by simp
  then have lt1: "q + (unat v div ?K - rec_start r) < 2 ^ 32" using lt by linarith
  have p: "unat ?p = q + (unat v div ?K - rec_start r)"
    using lt1 q by (simp add: unat_add_lem [THEN iffD1] unat_blocks_to_clusters diff)
  have off: "unat off = unat v mod ?K" unfolding off_def by (rule block_offset [OF assms(6)])
  have up: "unat (ucast ?p :: u32) = unat ?p"
    using lt1 by (simp add: p unsigned_ucast_eq unsigned_take_bit_eq take_bit_nat_eq_self)
  have cp: "unat (cmfs_clusters_to_blocks fs (ucast ?p)) = unat ?p * ?K"
    using lt by (simp only: unat_clusters_to_blocks up p mod_less)
  have sum: "unat ?p * ?K + unat v mod ?K = unat (e_blkno r) + (unat v - rec_start r * ?K)"
    by (simp only: p pK)
  have P: "cmfs_clusters_to_blocks fs (ucast ?p) + off
      = of_nat (unat (e_blkno r) + (unat v - rec_start r * ?K))"
    by (rule word_eq_of_nat) (use assms(11) in \<open>simp add: unat_add_lem [THEN iffD1] cp off sum\<close>)
  have "q \<noteq> 0" using assms(7) q by (metis mult_0_right unat_eq_zero)
  then have nz: "?p \<noteq> 0" using p by (metis add_is_0 unat_0)
  have cl: "unat (cmfs_rec_clusters fs 0 r) = unat (e_leaf_blocks r) div ?K"
    by (simp add: cmfs_rec_clusters_def cmfs_rec_blocks_def unat_blocks_to_clusters unsigned_ucast_eq
        take_bit_nat_eq_self order_less_trans [OF unat_u32_less])
  have le: "unat v div ?K - rec_start r \<le> unat (cmfs_rec_clusters fs 0 r)"
    using arith(2) by (simp add: rec_end_def rec_start_def)
  have num: "unat ?num = rec_end fs 0 r - unat v div ?K"
    using le arith(1) by (simp add: unat_sub word_le_nat_alt diff rec_end_def rec_start_def)
  have "unat (e_leaf_blocks r) div ?K * ?K \<le> unat (e_leaf_blocks r)" by (rule div_times_less_eq_dividend)
  moreover have "unat (e_leaf_blocks r) < 2 ^ 32" using unat_u32_less by simp
  ultimately have leaf: "unat (cmfs_rec_clusters fs 0 r) * ?K < 2 ^ 32" unfolding cl by linarith
  have "unat ?num \<le> unat (cmfs_rec_clusters fs 0 r)"
    using arith(1) by (simp add: num rec_end_def rec_start_def)
  then have numK: "unat ?num * ?K < 2 ^ 32" using leaf mult_le_mono1 order_le_less_trans by blast
  have "unat ?num \<le> unat ?num * ?K" by simp
  then have "unat ?num < 2 ^ 32" using numK by linarith
  then have un: "unat (ucast ?num :: u32) = unat ?num"
    by (simp add: unsigned_ucast_eq unsigned_take_bit_eq take_bit_nat_eq_self)
  have cn: "unat (cmfs_clusters_to_blocks fs (ucast ?num)) = unat ?num * ?K"
    using numK by (simp only: unat_clusters_to_blocks un mod_less)
  have "unat off \<le> unat ?num * ?K" using arith(5) by (simp only: off num) simp
  then have "unat (cmfs_clusters_to_blocks fs (ucast ?num) - off) = unat ?num * ?K - unat off"
    by (simp add: unat_sub word_le_nat_alt cn)
  also have "\<dots> = rec_end fs 0 r * ?K - unat v" using arith(4) by (simp only: off num) simp
  finally have N: "cmfs_clusters_to_blocks fs (ucast ?num) - off = of_nat (rec_end fs 0 r * ?K - unat v)"
    by (rule word_eq_of_nat)
  have "yields calm (bind_io (cmfs_get_clusters di ?c True) (\<lambda>(p_cluster, num_clusters, flags).
      ret_io ((if p_cluster \<noteq> 0 then cmfs_clusters_to_blocks fs (ucast p_cluster) + off else 0),
              cmfs_clusters_to_blocks fs (ucast num_clusters) - off, flags))) fs
    (Inr (of_nat (unat (e_blkno r) + (unat v - rec_start r * ?K)),
      of_nat (rec_end fs 0 r * ?K - unat v), ucast (e_flags r)))"
    by (rule calm.bind [OF get]) (use nz in \<open>simp only: P N prod.case if_True not_False_eq_True calm.ret\<close>)
  then show ?thesis by (simp only: yields_def cmfs_extent_map_get_blocks_def Let_def off_def)
qed

end
