(* ===== verification/File_read.thy ===== *)
theory File_read
  imports File_map
begin

text \<open>
  Reading a file: \<^verbatim>\<open>cmfs_file_read\<close> on a quiet device returns the contents that the extent
  tree of the inode describes.
\<close>

section \<open>The contents of a file\<close>

text \<open>
  \<open>extent_ready\<close>: the extent is cluster-aligned and lies on the device, within the first
  \<open>2 ^ 31\<close> blocks. \<open>rec_block\<close> is the content of block \<open>j\<close> of the file in the extent \<open>r\<close>.
\<close>

definition extent_ready :: "cmfs_filesys \<Rightarrow> cmfs_extent_rec \<Rightarrow> bool" where
  "extent_ready fs r \<longleftrightarrow> e_blkno r \<noteq> 0 \<and> 2 ^ c_bits fs dvd unat (e_blkno r)
     \<and> unat (e_blkno r) + unat (cmfs_rec_clusters fs 0 r) * 2 ^ c_bits fs < 2 ^ 31
     \<and> (unat (e_blkno r) + unat (cmfs_rec_clusters fs 0 r) * 2 ^ c_bits fs) * bsize fs
        \<le> length (dev_data (fs_io fs))"

definition in_extent :: "cmfs_filesys \<Rightarrow> cmfs_extent_rec \<Rightarrow> nat \<Rightarrow> bool" where
  "in_extent fs r j \<longleftrightarrow> rec_start r * 2 ^ c_bits fs \<le> j \<and> j < rec_end fs 0 r * 2 ^ c_bits fs"

definition rec_unwritten :: "cmfs_extent_rec \<Rightarrow> bool" where
  "rec_unwritten r \<longleftrightarrow> (ucast (e_flags r) :: u16) AND CMFS_EXT_UNWRITTEN \<noteq> 0"

definition rec_block :: "cmfs_filesys \<Rightarrow> cmfs_extent_rec \<Rightarrow> nat \<Rightarrow> bytes" where
  "rec_block fs r j =
     (if rec_unwritten r then replicate (bsize fs) 0
      else field (bsize fs) ((unat (e_blkno r) + (j - rec_start r * 2 ^ c_bits fs)) * bsize fs)
             (dev_data (fs_io fs)))"

text \<open>Block \<open>j\<close> of the file with the inode \<open>di\<close>, whose tree has depth \<open>d\<close>, is \<open>blk\<close>.\<close>

definition file_block :: "cmfs_filesys \<Rightarrow> nat \<Rightarrow> bytes \<Rightarrow> nat \<Rightarrow> bytes \<Rightarrow> bool" where
  "file_block fs d di j blk \<longleftrightarrow> (\<exists>r \<in> tree_recs d fs di o_id2.
     extent_ready fs r \<and> in_extent fs r j \<and> blk = rec_block fs r j)"

lemma calm_tree_recs [calm_simps]: "calm fs fs' \<Longrightarrow> tree_recs d fs' buf b = tree_recs d fs buf b"
  by (induction d arbitrary: buf b) (simp_all add: calm_simps)

lemma calm_file_block [calm_simps]:
  assumes "calm fs fs'"
  shows "file_block fs' d di j blk = file_block fs d di j blk"
  using calm_fields [OF assms] calm_derived [OF assms] calm_tree [OF assms] calm_tree_recs [OF assms]
  by (simp add: file_block_def extent_ready_def in_extent_def rec_block_def c_bits_def)

lemma calm_blocks_at: "calm fs fs' \<Longrightarrow> blocks_at fs' k n = blocks_at fs k n"
  by (simp add: blocks_at_def calm_simps)

lemma tree_recs_unique:
  assumes "tree_ok d fs buf b lo hi" and "hi < 2 ^ 32"
    and "r \<in> tree_recs d fs buf b" and "r' \<in> tree_recs d fs buf b"
    and "in_rec fs 0 r c" and "in_rec fs 0 r' c"
  shows "r' = r"
proof -
  obtain leaf lb where leaf: "leaf_of d fs buf b c leaf lb" using leaf_of_exists [OF assms(1,2)] by blast
  obtain lo' hi' where ok: "list_ok 0 fs leaf lb lo' hi'" "hi' < 2 ^ 32"
    using leaf_of_ok [OF assms(1,2) leaf] by blast
  have "r \<in> tree_recs 0 fs leaf lb" "r' \<in> tree_recs 0 fs leaf lb"
    using leaf_of_covers [OF assms(1,2) _ _ leaf] assms(3-6) by blast+
  then obtain i i' where "cmfs_search_extent_list fs leaf lb c = Some i" "rec_at fs leaf lb i = r"
    "cmfs_search_extent_list fs leaf lb c = Some i'" "rec_at fs leaf lb i' = r'"
    using search_list [OF ok, of c] assms(5,6) by blast
  then show ?thesis by simp
qed

lemma in_extent_rec:
  assumes "in_extent fs r j" and "j < 2 ^ 64"
  shows "in_rec fs 0 r (of_nat (j div 2 ^ c_bits fs))"
proof -
  have "j div 2 ^ c_bits fs < 2 ^ 64" by (rule order_le_less_trans [OF div_le_dividend assms(2)])
  then have "unat (of_nat (j div 2 ^ c_bits fs) :: u64) = j div 2 ^ c_bits fs"
    by (rule unat_of_nat_u64)
  then show ?thesis
    using cluster_arith(1,2) [of "2 ^ c_bits fs" "rec_start r" j "rec_end fs 0 r"] assms(1)
    by (simp add: in_rec_def in_extent_def)
qed

lemma concat_blocks:
  "concat (map (\<lambda>j. field n ((p + (j - a)) * n) dat) [a..<a + k]) = field (k * n) (p * n) dat"
proof (induction k)
  case (Suc k)
  have "concat (map (\<lambda>j. field n ((p + (j - a)) * n) dat) [a..<a + Suc k])
      = field (k * n) (p * n) dat @ field n ((p + k) * n) dat"
    using Suc by simp
  also have "\<dots> = field (Suc k * n) (p * n) dat"
    by (simp add: field_def add_mult_distrib take_add_drop [symmetric] drop_drop add.commute)
      (metis add.commute drop_drop take_add)
  finally show ?case .
qed (simp add: field_def)

lemma concat_zeros: "concat (map (\<lambda>j. replicate n x) [a..<a + k]) = replicate (k * n) x"
  by (induction k) (simp_all add: replicate_add [symmetric] add.commute)

section \<open>One round\<close>

lemma read_step_yields:
  assumes "quiet fs" and "tree_ok d fs di o_id2 lo hi" and "hi < 2 ^ 32" and "d < 5" and "c_bits fs < 31"
    and "r \<in> tree_recs d fs di o_id2" and "extent_ready fs r" and "in_extent fs r (unat v)"
    and n: "n = min (rec_end fs 0 r * 2 ^ c_bits fs - unat v) (unat wanted)"
    and room: "io_cache (fs_io fs) = None \<longrightarrow> unat wanted * bsize fs < 2 ^ 31"
  shows "yields calm (file_read_step di wanted v) fs
    (Inr (of_nat n, concat (map (rec_block fs r) [unat v..<unat v + n])))"
proof -
  let ?K = "(2::nat) ^ c_bits fs" and ?bs = "bsize fs"
  let ?p = "unat (e_blkno r) + (unat v - rec_start r * ?K)"
  let ?cont = "rec_end fs 0 r * ?K - unat v"
  have cov: "rec_start r * ?K \<le> unat v" "unat v < rec_end fs 0 r * ?K"
    using assms(8) by (simp_all add: in_extent_def)
  have len: "rec_end fs 0 r * ?K = rec_start r * ?K + unat (cmfs_rec_clusters fs 0 r) * ?K"
    by (simp add: rec_end_def rec_start_def add_mult_distrib)
  have fit: "?p + ?cont = unat (e_blkno r) + unat (cmfs_rec_clusters fs 0 r) * ?K"
    using cov len by simp
  have p31: "?p + ?cont < 2 ^ 31" and dev: "(?p + ?cont) * ?bs \<le> length (dev_data (fs_io fs))"
    using assms(7) by (simp_all add: fit extent_ready_def)
  have n31: "n < 2 ^ 31" and nle: "n \<le> ?cont" using p31 by (simp_all add: n)
  have get: "yields calm (cmfs_extent_map_get_blocks di v) fs
      (Inr (of_nat ?p, of_nat ?cont, ucast (e_flags r)))"
    by (rule get_blocks_yields [OF assms(1-4,6,5)])
      (use assms(7) cov p31 in \<open>simp_all add: extent_ready_def\<close>)
  have "(if (of_nat ?cont :: u64) > ucast wanted then ucast wanted else of_nat ?cont) = (of_nat n :: u64)"
  proof -
    have "unat (of_nat ?cont :: u64) = ?cont" using p31 by (intro unat_of_nat_u64) simp
    moreover have "unat (ucast wanted :: u64) = unat wanted"
      by (simp add: unsigned_ucast_eq take_bit_nat_eq_self order_less_trans [OF unat_u32_less])
    ultimately have "unat (if (of_nat ?cont :: u64) > ucast wanted then ucast wanted else of_nat ?cont :: u64) = n"
      by (simp add: word_less_nat_alt n)
    then show ?thesis by (rule word_eq_of_nat)
  qed
  note clip = this
  have n32: "(ucast (of_nat n :: u64) :: u32) = of_nat n" by (rule bit_word_eqI) (simp add: bit_simps)
  have un: "unat (of_nat n :: u32) = n" using n31 by (intro unat_of_nat_u32) simp
  have sn: "sint (of_nat n :: u32) = int n"
  proof -
    have "sint (of_nat n :: u32) = signed_take_bit 31 (uint (of_nat n :: u32))" by (simp add: sint_uint)
    also have "uint (of_nat n :: u32) = int n" using un by (metis uint_nat)
    also have "signed_take_bit 31 (int n) = int n" using n31 by (intro signed_take_bit_int_eq_self) simp_all
    finally show ?thesis .
  qed
  have zero: "unat (of_nat n * ucast (fs_blocksize fs) :: u64) = n * ?bs"
  proof -
    have "unat (of_nat n :: u64) = n" using n31 by (intro unat_of_nat_u64) simp
    moreover have "unat (ucast (fs_blocksize fs) :: u64) = ?bs"
      by (simp add: unsigned_ucast_eq take_bit_nat_eq_self order_less_trans [OF unat_u32_less])
    moreover have "n * ?bs < 2 ^ 31 * 2 ^ 32"
      using n31 unat_u32_less [of "fs_blocksize fs"] by (intro mult_strict_mono) simp_all
    ultimately show ?thesis by (simp add: unat_mult_lem [THEN iffD1])
  qed
  have p0: "(of_nat ?p :: u64) \<noteq> 0"
  proof -
    have "unat (of_nat ?p :: u64) = ?p" using p31 by (intro unat_of_nat_u64) simp
    moreover have "?p \<noteq> 0" using assms(7) by (simp add: extent_ready_def unat_eq_zero)
    ultimately show ?thesis by (metis unat_0)
  qed
  have up: "unat (of_nat ?p :: u64) = ?p" using p31 by (intro unat_of_nat_u64) simp
  have "blocks_at fs (of_nat ?p) n = Some (field (n * ?bs) (?p * ?bs) (dev_data (fs_io fs)))"
  proof -
    have "(?p + n) * ?bs \<le> (?p + ?cont) * ?bs" using nle by (intro mult_le_mono1) simp
    then have "(?p + n) * ?bs \<le> length (dev_data (fs_io fs))" using dev by linarith
    then show ?thesis by (simp only: blocks_at_def up if_True)
  qed
  note blocks = this
  have data: "concat (map (rec_block fs r) [unat v..<unat v + n]) =
    (if rec_unwritten r then replicate (n * ?bs) 0 else field (n * ?bs) (?p * ?bs) (dev_data (fs_io fs)))"
  proof (cases "rec_unwritten r")
    case True
    then have "rec_block fs r = (\<lambda>j. replicate ?bs 0)" by (simp add: rec_block_def fun_eq_iff)
    then show ?thesis using True by (simp only: concat_zeros if_True)
  next
    case False
    have "rec_block fs r j = field ?bs ((?p + (j - unat v)) * ?bs) (dev_data (fs_io fs))" if "unat v \<le> j" for j
      using False cov(1) that by (simp add: rec_block_def)
    then have "map (rec_block fs r) [unat v..<unat v + n]
        = map (\<lambda>j. field ?bs ((?p + (j - unat v)) * ?bs) (dev_data (fs_io fs))) [unat v..<unat v + n]"
      by (intro map_cong) auto
    then show ?thesis using False by (simp only: concat_blocks if_False)
  qed
  show ?thesis
    unfolding file_read_step_def
  proof (rule calm.bind [OF get], goal_cases)
    case (1 t)
    note t = calm_simps [OF 1]
    show ?case
    proof (cases "rec_unwritten r")
      case True
      then show ?thesis using data zero
        by (simp only: prod.case Let_def clip rec_unwritten_def [symmetric] if_True simp_thms)
          (auto intro!: calm.get simp: t)
    next
      case False
      have "yields calm (cmfs_read_blocks (of_nat ?p) (int n)) t (Inr (field (n * ?bs) (?p * ?bs) (dev_data (fs_io fs))))"
      proof (rule read_blocks_yields [OF calm_quiet [OF 1 assms(1)]])
        show "blocks_at t (of_nat ?p) n = Some (field (n * ?bs) (?p * ?bs) (dev_data (fs_io fs)))"
          using blocks by (simp only: calm_blocks_at [OF 1])
        have "n * ?bs \<le> unat wanted * ?bs" by (intro mult_le_mono1) (simp add: n)
        then show "io_cache (fs_io t) = None \<longrightarrow> n * bsize t < 2 ^ 31"
          using room unfolding calm_fields(8) [OF 1] calm_fields(3) [OF 1] by linarith
      qed (rule n31)
      then have "yields calm (bind_io (cmfs_read_blocks (of_nat ?p) (int n)) (\<lambda>d. ret_io (of_nat n, d))) t
          (Inr (of_nat n, field (n * ?bs) (?p * ?bs) (dev_data (fs_io fs))))"
        by (rule calm.bind) (rule calm.ret)
      then show ?thesis using False p0 data
        by (simp only: prod.case Let_def clip rec_unwritten_def [symmetric] if_False simp_thms n32 sn)
    qed
  qed
qed

section \<open>The loop\<close>

lemma file_block_in:
  assumes "tree_ok d fs di o_id2 lo hi" and "hi < 2 ^ 32" and "r \<in> tree_recs d fs di o_id2"
    and "in_extent fs r j" and "j < 2 ^ 64" and "file_block fs d di j blk"
  shows "blk = rec_block fs r j"
proof -
  obtain r' where r': "r' \<in> tree_recs d fs di o_id2" "in_extent fs r' j" "blk = rec_block fs r' j"
    using assms(6) by (auto simp: file_block_def)
  have "r' = r"
    by (rule tree_recs_unique [OF assms(1-3) r'(1) in_extent_rec [OF assms(4,5)] in_extent_rec [OF r'(2) assms(5)]])
  then show ?thesis using r'(3) by simp
qed

lemma file_read_loop_yields:
  assumes "quiet fs" and "tree_ok d fs di o_id2 lo hi" and "hi < 2 ^ 32" and "d < 5" and "c_bits fs < 31"
    and "bsize fs = 2 ^ sb_bits fs" and "0 < unat wanted"
    and "\<forall>j. unat v \<le> j \<longrightarrow> j < unat v + unat wanted \<longrightarrow> file_block fs d di j (conts j)"
    and "unat got + unat wanted * bsize fs < 2 ^ 32" and "unat v + unat wanted < 2 ^ 63"
    and "unat off \<le> unat isize" and "unat isize < 2 ^ 63" and isize: "isize = ld64 (cpu_le fs) di o_i_size"
    and "io_cache (fs_io fs) = None \<longrightarrow> unat wanted * bsize fs < 2 ^ 31"
  shows "\<exists>n fs'. file_read_loop di off wanted v data got fs
      = Some (Inr (data @ concat (map conts [unat v..<unat v + unat wanted]), n), fs')
    \<and> calm fs fs' \<and> unat n = min (unat got + unat wanted * bsize fs) (unat isize - unat off)"
  using assms
proof (induction "unat wanted" arbitrary: fs wanted v data got rule: less_induct)
  case less
  let ?bs = "bsize fs" and ?w = "unat wanted"
  obtain r where r: "r \<in> tree_recs d fs di o_id2" "extent_ready fs r" "in_extent fs r (unat v)"
    using less.prems(7,8) by (fastforce simp: file_block_def)
  define n where "n = min (rec_end fs 0 r * 2 ^ c_bits fs - unat v) ?w"
  have n: "0 < n" "n \<le> ?w" using r(3) less.prems(7) by (auto simp: n_def in_extent_def)
  have step: "yields calm (file_read_step di wanted v) fs
      (Inr (of_nat n, concat (map (rec_block fs r) [unat v..<unat v + n])))"
    using less.prems(1-5) r n_def less.prems(14) by (rule read_step_yields)
  then obtain fs1 where run: "file_read_step di wanted v fs
      = (Inr (of_nat n, concat (map (rec_block fs r) [unat v..<unat v + n])), fs1)" and fs1: "calm fs fs1"
    by (blast dest: yields_run)
  note t = calm_simps [OF fs1]
  have "conts j = rec_block fs r j" if "unat v \<le> j" "j < unat v + n" for j
    using that n less.prems(8,10) r(3)
    by (intro file_block_in [OF less.prems(2,3) r(1)]) (auto simp: n_def in_extent_def)
  then have data: "concat (map (rec_block fs r) [unat v..<unat v + n]) = concat (map conts [unat v..<unat v + n])"
    by (intro arg_cong [where f = concat] map_cong) auto
  have w0: "\<not> wanted = 0" using less.prems(7) by auto
  have isize: "isize = ld64 (cpu_le fs) di o_i_size" by (fact less.prems(13))
  have w32: "?w < 2 ^ 32" using unat_u32_less [of wanted] by simp
  have un: "unat (of_nat n :: u64) = n" "unat (of_nat n :: u32) = n"
    using n w32 by (simp_all add: unat_of_nat_u64 unat_of_nat_u32)
  have nc: "(ucast (of_nat n :: u64) :: u32) = of_nat n" by (rule bit_word_eqI) (simp add: bit_simps)
  have uw: "unat (wanted - of_nat n) = ?w - n" using n un by (simp add: unat_sub word_le_nat_alt)
  have nbs: "n * ?bs \<le> ?w * ?bs" using n by (intro mult_le_mono1) simp
  then have nb32: "unat got + n * ?bs < 2 ^ 32" using less.prems(9) by linarith
  have bits: "sb_bits fs1 = sb_bits fs" by (simp add: sb_bits_def t)
  define got' where "got' = got + ucast (push_bit (sb_bits fs) (of_nat n :: u64))"
  have "unat (push_bit (sb_bits fs) (of_nat n :: u64)) = n * ?bs"
  proof -
    have "unat (push_bit (sb_bits fs) (of_nat n :: u64)) = take_bit 64 (push_bit (sb_bits fs) n)"
      by (simp only: unsigned_push_bit_eq un) simp
    also have "\<dots> = n * ?bs" using nb32 less.prems(6)
      by (simp add: take_bit_nat_eq_self push_bit_eq_mult)
    finally show ?thesis .
  qed
  then have "unat (ucast (push_bit (sb_bits fs) (of_nat n :: u64)) :: u32) = n * ?bs"
    using nb32 by (simp add: unsigned_ucast_eq take_bit_nat_eq_self)
  then have got': "unat got' = unat got + n * ?bs" using nb32
    by (simp add: got'_def unat_add_lem [THEN iffD1])
  have loop: "file_read_loop di off wanted v data got fs =
      (if wanted - of_nat n \<noteq> 0
       then file_read_loop di off (wanted - of_nat n) (v + of_nat n)
              (data @ concat (map conts [unat v..<unat v + n])) got' fs1
       else Some (Inr (data @ concat (map conts [unat v..<unat v + n]),
              if ucast got' + off > isize then ucast (isize - off) else got'), fs1))"
    using w0 run unfolding file_read_loop.simps [of di off wanted v data got fs]
    by (simp only: Let_def data nc got'_def bits t isize if_False prod.case sum.case fst_conv snd_conv)
  show ?case
  proof (cases "n = ?w")
    case True
    then have "wanted - of_nat n = 0" using uw by (simp add: unat_eq_zero)
    moreover have "unat (if ucast got' + off > isize then ucast (isize - off) else got')
        = min (unat got + ?w * ?bs) (unat isize - unat off)"
    proof -
      have ug: "unat (ucast got' :: u64) = unat got'"
        by (simp add: unsigned_ucast_eq take_bit_nat_eq_self order_less_trans [OF unat_u32_less])
      then have sum: "unat (ucast got' + off) = unat got' + unat off"
        using unat_u32_less [of got'] less.prems(11,12) by (simp add: unat_add_lem [THEN iffD1])
      have sub: "unat (isize - off) = unat isize - unat off"
        using less.prems(11) by (simp add: unat_sub word_le_nat_alt)
      show ?thesis
      proof (cases "ucast got' + off > isize")
        case c: True
        then have lt: "unat isize - unat off < unat got'" using sum less.prems(11) by (simp add: word_less_nat_alt)
        then have "unat (ucast (isize - off) :: u32) = unat isize - unat off"
          using sub unat_u32_less [of got'] by (simp add: unsigned_ucast_eq take_bit_nat_eq_self)
        then show ?thesis using c lt got' True by simp
      next
        case c: False
        then show ?thesis using sum got' True by (simp add: word_less_nat_alt)
      qed
    qed
    ultimately show ?thesis using fs1 loop True by auto
  next
    case False
    then have lt: "n < ?w" using n by simp
    then have "wanted - of_nat n \<noteq> 0" using uw by (metis unat_0 zero_less_diff less_irrefl)
    moreover have uv: "unat (v + of_nat n) = unat v + n"
      using n less.prems(10) un by (simp add: unat_add_lem [THEN iffD1])
    have sp: "n * ?bs + (?w - n) * ?bs = ?w * ?bs" using n(2) by (simp add: add_mult_distrib [symmetric])
    have "\<exists>m fs'. file_read_loop di off (wanted - of_nat n) (v + of_nat n)
          (data @ concat (map conts [unat v..<unat v + n])) got' fs1
        = Some (Inr ((data @ concat (map conts [unat v..<unat v + n]))
              @ concat (map conts [unat (v + of_nat n)..<unat (v + of_nat n) + unat (wanted - of_nat n)]), m), fs')
      \<and> calm fs1 fs' \<and> unat m = min (unat got' + unat (wanted - of_nat n) * bsize fs1) (unat isize - unat off)"
    proof (rule less.hyps)
      show "unat (wanted - of_nat n) < unat wanted" "0 < unat (wanted - of_nat n)"
        using n lt by (auto simp only: uw)
      show "quiet fs1" using fs1 less.prems(1) by (rule calm_quiet)
      show "tree_ok d fs1 di o_id2 lo hi" using less.prems(2) by (simp only: t)
      show "c_bits fs1 < 31" using less.prems(5) by (simp only: c_bits_def t)
      show "bsize fs1 = 2 ^ sb_bits fs1" using less.prems(6) by (simp only: bits t)
      show "\<forall>j. unat (v + of_nat n) \<le> j \<longrightarrow> j < unat (v + of_nat n) + unat (wanted - of_nat n)
          \<longrightarrow> file_block fs1 d di j (conts j)"
        using less.prems(8) n by (simp only: uv uw t) simp
      show "unat got' + unat (wanted - of_nat n) * bsize fs1 < 2 ^ 32"
        using less.prems(9) sp by (simp only: got' uw t)
      show "unat (v + of_nat n) + unat (wanted - of_nat n) < 2 ^ 63"
        using less.prems(10) n by (auto simp only: uv uw)
      show "isize = ld64 (cpu_le fs1) di o_i_size" using isize by (simp only: t)
      have "(?w - n) * ?bs \<le> ?w * ?bs" by (intro mult_le_mono1) simp
      then show "io_cache (fs_io fs1) = None \<longrightarrow> unat (wanted - of_nat n) * bsize fs1 < 2 ^ 31"
        using less.prems(14) by (simp only: t uw) linarith
    qed (fact less.prems)+
    moreover have "[unat v..<unat v + n] @ [unat v + n..<unat v + n + (?w - n)] = [unat v..<unat v + ?w]"
    proof -
      have "unat v + n + (?w - n) = unat v + ?w" using n(2) by simp
      then show ?thesis using upt_add_eq_append [of "unat v" "unat v + n" "?w - n"] by simp
    qed
    then have "concat (map conts [unat v..<unat v + n]) @ concat (map conts [unat v + n..<unat v + n + (?w - n)])
        = concat (map conts [unat v..<unat v + ?w])"
      by (simp only: concat_append [symmetric] map_append [symmetric])
    moreover have "unat got' + unat (wanted - of_nat n) * bsize fs1 = unat got + ?w * ?bs"
      using sp by (simp add: got' uw t)
    ultimately show ?thesis using loop fs1 uw uv by (auto simp: intro: calm_trans)
  qed
qed

section \<open>The whole read\<close>

lemma block_mask:
  assumes "bsize fs = 2 ^ s" and "unat (x :: 'a::len word) = k * bsize fs" and "32 \<le> LENGTH('a)"
  shows "x AND ucast (fs_blocksize fs - 1) = 0"
proof -
  have s: "s < 32"
  proof (rule ccontr)
    assume "\<not> s < 32"
    then have "(2::nat) ^ 32 \<le> 2 ^ s" by (intro power_increasing) simp_all
    then show False using assms(1) unat_u32_less [of "fs_blocksize fs"] by simp
  qed
  have "fs_blocksize fs = of_nat (bsize fs)" by simp
  then have "fs_blocksize fs = 2 ^ s" by (simp only: assms(1) of_nat_power of_nat_numeral)
  then have "fs_blocksize fs - 1 = mask s" by (simp add: mask_eq_exp_minus_1)
  moreover have "ucast (mask s :: u32) = (mask s :: 'a word)"
    using s by (intro bit_word_eqI) (auto simp: bit_simps)
  moreover have "unat (take_bit s x) = 0"
    by (simp only: unsigned_take_bit_eq take_bit_eq_mod [where 'a = nat] assms(1,2) mod_mult_self2_is_0)
  ultimately show ?thesis by (simp add: take_bit_eq_mask [symmetric] unat_eq_zero)
qed

lemma file_read_yields:
  assumes fs: "quiet fs" "tree_ok d fs di o_id2 lo hi" "hi < 2 ^ 32" "d < 5" "c_bits fs < 31"
    and bs: "bsize fs = 2 ^ sb_bits fs"
    and count: "unat count = w * bsize fs" and off: "unat off = v * bsize fs"
    and isize: "isize = unat (ld64 (cpu_le fs) di o_i_size)" "isize < 2 ^ 62"
    and v: "v < (isize + bsize fs - 1) div bsize fs" and w: "0 < w"
    and m: "m = min w ((isize + bsize fs - 1) div bsize fs - v)"
    and conts: "\<forall>j. v \<le> j \<longrightarrow> j < v + m \<longrightarrow> file_block fs d di j (conts j)"
    and room: "io_cache (fs_io fs) = None \<longrightarrow> unat count < 2 ^ 31"
  shows "\<exists>n fs'. cmfs_file_read di True count off fs
      = Some (Inr (concat (map conts [v..<v + m]), n), fs')
    \<and> calm fs fs' \<and> unat n = min (w * bsize fs) (isize - v * bsize fs)"
proof -
  let ?bs = "bsize fs" and ?s = "sb_bits fs"
  let ?is = "ld64 (cpu_le fs) di o_i_size" and ?nb = "(isize + bsize fs - 1) div bsize fs"
  have pos: "0 < ?bs" using bs by simp
  have bs32: "?bs < 2 ^ 32" using unat_u32_less [of "fs_blocksize fs"] by simp
  have w32: "w * ?bs < 2 ^ 32" using unat_u32_less [of count] by (simp add: count [symmetric])
  have "w \<le> w * ?bs" using pos by simp
  then have wl: "w < 2 ^ 32" using w32 by linarith
  have masks: "count AND (fs_blocksize fs - 1) = 0" "off AND ucast (fs_blocksize fs - 1) = 0"
    using block_mask [OF bs, of count w] block_mask [OF bs, of off v] count off by simp_all
  have uw: "unat (drop_bit ?s count) = w"
    by (simp only: unat_drop_bit count bs) simp
  have uv: "unat (drop_bit ?s off) = v"
    by (simp only: unat_drop_bit off bs) simp
  have ub: "unat (ucast (fs_blocksize fs) :: u64) = ?bs"
    by (rule unat_ucast_u64)
  have s1: "unat (?is + ucast (fs_blocksize fs)) = isize + ?bs"
    using isize bs32 by (simp add: unat_add_lem [THEN iffD1] ub)
  have "1 \<le> ?is + ucast (fs_blocksize fs)" using s1 pos by (simp add: word_le_nat_alt)
  then have s2: "unat (?is + ucast (fs_blocksize fs) - 1) = isize + ?bs - 1"
    using s1 by (simp add: unat_sub)
  have un: "unat (drop_bit ?s (?is + ucast (fs_blocksize fs) - 1)) = ?nb"
    by (simp only: unat_drop_bit s2 bs)
  have nb: "?nb < 2 ^ 63"
    using order_le_less_trans [OF div_le_dividend, of "isize + ?bs - 1" "2 ^ 63"] isize(2) bs32 by simp
  define wanted where "wanted = (if drop_bit ?s off + ucast (drop_bit ?s count)
        > drop_bit ?s (?is + ucast (fs_blocksize fs) - 1)
      then ucast (drop_bit ?s (?is + ucast (fs_blocksize fs) - 1) - drop_bit ?s off) else drop_bit ?s count)"
  have uc: "unat (ucast (drop_bit ?s count) :: u64) = w"
    by (simp only: unat_ucast_u64 uw)
  have sum: "unat (drop_bit ?s off + ucast (drop_bit ?s count)) = v + w"
    using uv uc v nb wl by (simp add: unat_add_lem [THEN iffD1])
  have sub: "unat (drop_bit ?s (?is + ucast (fs_blocksize fs) - 1) - drop_bit ?s off) = ?nb - v"
    using v by (simp add: unat_sub word_le_nat_alt un uv)
  have wanted: "unat wanted = m"
  proof (cases "v + w > ?nb")
    case True
    then have "wanted = ucast (drop_bit ?s (?is + ucast (fs_blocksize fs) - 1) - drop_bit ?s off)"
      by (simp only: wanted_def word_less_nat_alt sum un if_True)
    moreover have "?nb - v < 2 ^ 32" using True wl by simp
    ultimately show ?thesis using True sub by (simp add: unsigned_ucast_eq take_bit_nat_eq_self m)
  next
    case False
    then have "wanted = drop_bit ?s count" by (simp only: wanted_def word_less_nat_alt sum un if_False)
    then show ?thesis using False uw by (simp add: m)
  qed
  have "v * ?bs < isize"
  proof -
    have "(v + 1) * ?bs \<le> ?nb * ?bs" using v by (intro mult_le_mono1) simp
    also have "\<dots> \<le> isize + ?bs - 1" by (rule div_times_less_eq_dividend)
    finally show ?thesis using pos by simp
  qed
  note off_lt = this
  have mw: "m * ?bs \<le> w * ?bs" by (intro mult_le_mono1) (simp add: m)
  have "\<exists>n fs'. file_read_loop di off wanted (drop_bit ?s off) [] 0 fs
      = Some (Inr ([] @ concat (map conts [unat (drop_bit ?s off)..<unat (drop_bit ?s off) + unat wanted]), n), fs')
    \<and> calm fs fs' \<and> unat n = min (unat (0 :: u32) + unat wanted * ?bs) (unat ?is - unat off)"
  proof (rule file_read_loop_yields [OF fs bs])
    show "0 < unat wanted" using v w by (simp only: wanted m min_less_iff_conj zero_less_diff simp_thms)
    show "\<forall>j. unat (drop_bit ?s off) \<le> j \<longrightarrow> j < unat (drop_bit ?s off) + unat wanted
        \<longrightarrow> file_block fs d di j (conts j)" using conts by (simp only: uv wanted)
    show "unat (0 :: u32) + unat wanted * ?bs < 2 ^ 32" using mw w32 by (auto simp only: wanted unat_0)
    show "unat (drop_bit ?s off) + unat wanted < 2 ^ 63" using v nb by (auto simp only: uv wanted m)
    show "unat off \<le> unat ?is" using off_lt by (simp only: off isize(1) [symmetric])
    show "unat ?is < 2 ^ 63" using isize(2) by (simp add: isize(1) [symmetric])
    show "io_cache (fs_io fs) = None \<longrightarrow> unat wanted * ?bs < 2 ^ 31"
      using room mw by (auto simp only: wanted count)
  qed simp
  then obtain n fs' where loop: "file_read_loop di off wanted (drop_bit ?s off) [] 0 fs
      = Some (Inr (concat (map conts [v..<v + m]), n), fs')"
    "calm fs fs'" "unat n = min (m * ?bs) (isize - v * ?bs)"
    by (auto simp only: uv wanted append_Nil unat_0 add_0 isize(1) [symmetric] off)
  have "min (m * ?bs) (isize - v * ?bs) = min (w * ?bs) (isize - v * ?bs)"
  proof (cases "m = w")
    case False
    then have "m = ?nb - v" "?nb - v \<le> w" using m by auto
    then have "m * ?bs = ?nb * ?bs - v * ?bs" by (simp add: diff_mult_distrib)
    moreover have "isize \<le> ?nb * ?bs"
      using pos dividend_less_div_times [OF pos, of "isize + ?bs - 1"] by simp
    ultimately show ?thesis using mw by simp
  qed simp
  moreover have "\<not> drop_bit ?s off \<ge> drop_bit ?s (?is + ucast (fs_blocksize fs) - 1)"
    using v by (simp add: word_le_nat_alt un uv)
  ultimately show ?thesis using loop masks
    unfolding cmfs_file_read_def Let_def wanted_def [symmetric] by simp
qed

end
