(* ===== verification/Buffers.thy ===== *)
theory Buffers
  imports Layout
begin

text \<open>
  Loads after stores, for buffers that are filled member by member: a load of a member
  skips the stores into the others.
\<close>

lemma ld16_stw_other [buf_simps]:
  "off < length buf \<Longrightarrow> o' + 2 \<le> off \<or> off + 1 \<le> o' \<Longrightarrow> ld16 le (st8 off v8 buf) o' = ld16 le buf o'"
  "off + 2 \<le> length buf \<Longrightarrow> o' + 2 \<le> off \<or> off + 2 \<le> o' \<Longrightarrow> ld16 le (st16 le' off v16 buf) o' = ld16 le buf o'"
  "off + 4 \<le> length buf \<Longrightarrow> o' + 2 \<le> off \<or> off + 4 \<le> o' \<Longrightarrow> ld16 le (st32 le' off v32 buf) o' = ld16 le buf o'"
  "off + 8 \<le> length buf \<Longrightarrow> o' + 2 \<le> off \<or> off + 8 \<le> o' \<Longrightarrow> ld16 le (st64 le' off v64 buf) o' = ld16 le buf o'"
  by (auto simp: stw_put ldw_put_other)

lemma ld32_stw_other [buf_simps]:
  "off < length buf \<Longrightarrow> o' + 4 \<le> off \<or> off + 1 \<le> o' \<Longrightarrow> ld32 le (st8 off v8 buf) o' = ld32 le buf o'"
  "off + 2 \<le> length buf \<Longrightarrow> o' + 4 \<le> off \<or> off + 2 \<le> o' \<Longrightarrow> ld32 le (st16 le' off v16 buf) o' = ld32 le buf o'"
  "off + 4 \<le> length buf \<Longrightarrow> o' + 4 \<le> off \<or> off + 4 \<le> o' \<Longrightarrow> ld32 le (st32 le' off v32 buf) o' = ld32 le buf o'"
  "off + 8 \<le> length buf \<Longrightarrow> o' + 4 \<le> off \<or> off + 8 \<le> o' \<Longrightarrow> ld32 le (st64 le' off v64 buf) o' = ld32 le buf o'"
  by (auto simp: stw_put ldw_put_other)

lemma ld64_stw_other [buf_simps]:
  "off < length buf \<Longrightarrow> o' + 8 \<le> off \<or> off + 1 \<le> o' \<Longrightarrow> ld64 le (st8 off v8 buf) o' = ld64 le buf o'"
  "off + 2 \<le> length buf \<Longrightarrow> o' + 8 \<le> off \<or> off + 2 \<le> o' \<Longrightarrow> ld64 le (st16 le' off v16 buf) o' = ld64 le buf o'"
  "off + 4 \<le> length buf \<Longrightarrow> o' + 8 \<le> off \<or> off + 4 \<le> o' \<Longrightarrow> ld64 le (st32 le' off v32 buf) o' = ld64 le buf o'"
  "off + 8 \<le> length buf \<Longrightarrow> o' + 8 \<le> off \<or> off + 8 \<le> o' \<Longrightarrow> ld64 le (st64 le' off v64 buf) o' = ld64 le buf o'"
  by (auto simp: stw_put ldw_put_other)

lemma ld8_stw_other [buf_simps]:
  "off < length buf \<Longrightarrow> o' < length buf \<Longrightarrow> o' < off \<or> off + 1 \<le> o' \<Longrightarrow> ld8 (st8 off v8 buf) o' = ld8 buf o'"
  "off + 2 \<le> length buf \<Longrightarrow> o' < length buf \<Longrightarrow> o' < off \<or> off + 2 \<le> o' \<Longrightarrow> ld8 (st16 le' off v16 buf) o' = ld8 buf o'"
  "off + 4 \<le> length buf \<Longrightarrow> o' < length buf \<Longrightarrow> o' < off \<or> off + 4 \<le> o' \<Longrightarrow> ld8 (st32 le' off v32 buf) o' = ld8 buf o'"
  "off + 8 \<le> length buf \<Longrightarrow> o' < length buf \<Longrightarrow> o' < off \<or> off + 8 \<le> o' \<Longrightarrow> ld8 (st64 le' off v64 buf) o' = ld8 buf o'"
  by (auto simp: stw_put ld8_put_other)

lemma field_stw_other [buf_simps]:
  "off < length buf \<Longrightarrow> o' + n \<le> off \<or> off + 1 \<le> o' \<Longrightarrow> field n o' (st8 off v8 buf) = field n o' buf"
  "off + 2 \<le> length buf \<Longrightarrow> o' + n \<le> off \<or> off + 2 \<le> o' \<Longrightarrow> field n o' (st16 le' off v16 buf) = field n o' buf"
  "off + 4 \<le> length buf \<Longrightarrow> o' + n \<le> off \<or> off + 4 \<le> o' \<Longrightarrow> field n o' (st32 le' off v32 buf) = field n o' buf"
  "off + 8 \<le> length buf \<Longrightarrow> o' + n \<le> off \<or> off + 8 \<le> o' \<Longrightarrow> field n o' (st64 le' off v64 buf) = field n o' buf"
  by (auto simp: stw_put field_put_other)

lemma le_nat_zeros: "le_nat (replicate n 0) = 0"
  by (induction n) simp_all

lemma field_zeros [buf_simps]: "field n off (replicate m x) = replicate (min n (m - off)) x"
  by (simp add: field_def)

lemma ld_zeros: "ld le n (replicate m 0) off = 0"
  by (simp add: ld_def field_zeros cpu_order_def le_nat_zeros)

lemma ldw_zeros [buf_simps]:
  "off < m \<Longrightarrow> ld8 (replicate m 0) off = 0" "ld16 le (replicate m 0) off = 0"
  "ld32 le (replicate m 0) off = 0" "ld64 le (replicate m 0) off = 0"
  by (simp_all add: ld8_def ld16_def ld32_def ld64_def ld_zeros)

lemma take_0_field: "take n buf = field n 0 buf"
  by (simp add: field_def)

end
