(* ===== verification/Demo.thy ===== *)
theory Demo
  imports File_read Buffers
begin

text \<open>
  A small file system for the concrete instances of the properties: sixteen blocks of 256
  bytes, clusters of two blocks, a little-endian CPU. Block 3 is the inode of a file of 1124
  bytes, block 4 its one extent block, with an extent at block 6 and an unwritten one at
  block 12.
\<close>

definition demo_inode :: bytes where
  "demo_inode =
     (let di = put 0 CMFS_INODE_SIGNATURE (replicate 256 0);
          di = st64 True o_i_size 1124 di;
          di = st64 True o_i_blkno 3 di;
          di = st32 True o_i_flags 1 di;
          di = st16 True o_i_mode 0x81A4 di;
          di = st16 True (o_id2 + o_l_tree_depth) 1 di;
          di = st16 True (o_id2 + o_l_count) 1 di;
          di = st16 True (o_id2 + o_l_next_free_rec) 1 di;
          rec = o_id2 + o_l_recs;
          di = st64 True (rec + o_e_blkno) 4 di
      in st64 True (rec + o_e_int_blocks) 8 di)"

definition demo_leaf_rec :: "nat \<Rightarrow> u64 \<Rightarrow> u64 \<Rightarrow> u8 \<Rightarrow> bytes \<Rightarrow> bytes" where
  "demo_leaf_rec i cpos blkno flags eb =
     (let rec = o_h_list + o_l_recs + 32 * i;
          eb = st64 True (rec + o_e_cpos) cpos eb;
          eb = st64 True (rec + o_e_blkno) blkno eb;
          eb = st32 True (rec + o_e_leaf_blocks) 4 eb
      in st8 (rec + o_e_flags) flags eb)"

definition demo_extents :: bytes where
  "demo_extents =
     (let eb = put 0 CMFS_EXTENT_BLOCK_SIGNATURE (replicate 256 0);
          eb = st64 True o_h_blkno 4 eb;
          eb = st16 True (o_h_list + o_l_count) 6 eb;
          eb = st16 True (o_h_list + o_l_next_free_rec) 2 eb
      in demo_leaf_rec 1 2 12 1 (demo_leaf_rec 0 0 6 0 eb))"

definition demo_data :: "nat \<Rightarrow> bytes" where
  "demo_data n = replicate 256 (of_nat n)"

definition demo_blocks :: "bytes list" where
  "demo_blocks = [demo_data 0, demo_data 0, demo_data 0, demo_inode, demo_extents]
     @ map demo_data [5..<16]"

definition demo_super :: bytes where
  "demo_super = st32 True (o_id2 + o_s_clustersize_bits) 9
     (st32 True (o_id2 + o_s_blocksize_bits) 8 (replicate 512 0))"

definition demo_fs :: cmfs_filesys where
  "demo_fs = \<lparr> fs_devname = ''/dev/demo'', fs_flags = CMFS_FLAG_RW,
     fs_io = \<lparr> io_blksize = 256, io_error = 0, io_nocache = False, io_cache = None,
       io_bytes_read = 0, io_bytes_written = 0, dev_data = concat demo_blocks, dev_script = [],
       heap_script = [] \<rparr>,
     fs_super = demo_super, fs_orig_super = None, fs_blocksize = 256, fs_clustersize = 512,
     fs_clusters = 8, fs_blocks = 16, fs_umask = 18, fs_root_blkno = 0, fs_sysdir_blkno = 0,
     fs_first_cg_blkno = 0, uuid_str = [], cpu_le = True \<rparr>"

lemma demo_lengths:
  "length demo_inode = 256" "length demo_extents = 256" "length (demo_data n) = 256"
  by (simp_all add: demo_inode_def demo_extents_def demo_leaf_rec_def demo_data_def Let_def
      CMFS_INODE_SIGNATURE_def CMFS_EXTENT_BLOCK_SIGNATURE_def ascii_def)

lemma demo_sizes: "\<forall>b \<in> set demo_blocks. length b = 256" "length demo_blocks = 16"
  by (auto simp: demo_blocks_def demo_lengths)

lemma length_demo_dev: "length (concat demo_blocks) = 4096"
proof -
  have "length (concat bs) = 256 * length bs" if "\<forall>b \<in> set bs. length b = 256" for bs :: "bytes list"
    using that by (induction bs) auto
  then show ?thesis using demo_sizes by simp
qed

lemma field_concat: "\<forall>b \<in> set bs. length b = n \<Longrightarrow> k < length bs \<Longrightarrow> field n (k * n) (concat bs) = bs ! k"
proof (induction bs arbitrary: k)
  case (Cons b bs)
  then show ?case by (cases k) (auto simp: field_def add.commute)
qed simp

lemma demo_block_at:
  assumes "unat k < 16"
  shows "block_at demo_fs k = Some (demo_blocks ! unat k)"
  using field_concat [OF demo_sizes(1), of "unat k"] demo_sizes(2) length_demo_dev assms
  by (simp add: block_at_def dev_block_def demo_fs_def)

lemma demo_quiet: "quiet demo_fs"
  using length_demo_dev by (simp add: quiet_def demo_fs_def chan_ok_def has_fault_def)

lemma demo_sb: "s_clustersize_bits (CMFS_RAW_SB demo_fs) = 9" "s_blocksize_bits (CMFS_RAW_SB demo_fs) = 8"
  by (simp_all add: CMFS_RAW_SB_def super_block_of_def demo_fs_def demo_super_def buf_simps)

lemma demo_c_bits: "c_bits demo_fs = 1" and demo_sb_bits: "sb_bits demo_fs = 8"
  by (simp_all add: c_bits_def sb_bits_def demo_sb)

lemma demo_list: "el_len demo_fs demo_inode o_id2 = 1" "el_depth demo_fs demo_inode o_id2 = 1"
  "el_len demo_fs demo_extents o_h_list = 2" "el_depth demo_fs demo_extents o_h_list = 0"
  by (simp_all add: el_len_def el_depth_def demo_fs_def demo_inode_def demo_extents_def demo_leaf_rec_def
      Let_def CMFS_INODE_SIGNATURE_def CMFS_EXTENT_BLOCK_SIGNATURE_def ascii_def buf_simps)

lemma demo_root_rec:
  "e_cpos (rec_at demo_fs demo_inode o_id2 0) = 0" "e_blkno (rec_at demo_fs demo_inode o_id2 0) = 4"
  "e_int_blocks (rec_at demo_fs demo_inode o_id2 0) = 8"
  by (simp_all add: el_rec_def extent_rec_of_def demo_fs_def demo_inode_def
      Let_def CMFS_INODE_SIGNATURE_def ascii_def buf_simps)

lemma length_demo_leaf_rec: "i < 6 \<Longrightarrow> length buf = 256 \<Longrightarrow> length (demo_leaf_rec i c k f buf) = 256"
  by (simp add: demo_leaf_rec_def Let_def)

lemma demo_leaf_rec_same:
  assumes "i < 6" and "length buf = 256"
  shows "e_cpos (el_rec True (demo_leaf_rec i c k f buf) o_h_list i) = c"
    "e_blkno (el_rec True (demo_leaf_rec i c k f buf) o_h_list i) = k"
    "e_leaf_blocks (el_rec True (demo_leaf_rec i c k f buf) o_h_list i) = 4"
    "e_flags (el_rec True (demo_leaf_rec i c k f buf) o_h_list i) = f"
  using assms by (simp_all add: el_rec_def extent_rec_of_def demo_leaf_rec_def Let_def buf_simps)

lemma demo_leaf_rec_other:
  assumes "length buf = 256"
  shows "el_rec True (demo_leaf_rec 1 c k f buf) o_h_list 0 = el_rec True buf o_h_list 0"
  using assms by (simp add: el_rec_def extent_rec_of_def demo_leaf_rec_def Let_def buf_simps)

definition demo_rec :: "nat \<Rightarrow> cmfs_extent_rec" where
  "demo_rec i = rec_at demo_fs demo_extents o_h_list i"

lemma demo_recs:
  "e_cpos (demo_rec 0) = 0" "e_blkno (demo_rec 0) = 6" "e_leaf_blocks (demo_rec 0) = 4"
  "e_flags (demo_rec 0) = 0" "e_cpos (demo_rec (Suc 0)) = 2" "e_blkno (demo_rec (Suc 0)) = 12"
  "e_leaf_blocks (demo_rec (Suc 0)) = 4" "e_flags (demo_rec (Suc 0)) = 1"
  unfolding demo_rec_def demo_extents_def Let_def
  by (simp_all add: demo_fs_def demo_leaf_rec_same demo_leaf_rec_other [unfolded One_nat_def]
      length_demo_leaf_rec CMFS_EXTENT_BLOCK_SIGNATURE_def ascii_def)

lemma demo_extent_block: "extent_block_at demo_fs 4 demo_extents"
proof -
  have "block_at demo_fs 4 = Some demo_extents"
    using demo_block_at [of 4] by (simp add: demo_blocks_def)
  moreover have "has_signature CMFS_EXTENT_BLOCK_SIGNATURE demo_extents"
    by (simp add: has_signature_def take_0_field demo_extents_def demo_leaf_rec_def Let_def
        CMFS_EXTENT_BLOCK_SIGNATURE_def ascii_def buf_simps)
  moreover have "ld16 True demo_extents (o_h_list + o_l_next_free_rec) = 2"
    "ld16 True demo_extents (o_h_list + o_l_count) = 6"
    by (simp_all add: demo_extents_def demo_leaf_rec_def Let_def
        CMFS_EXTENT_BLOCK_SIGNATURE_def ascii_def buf_simps)
  ultimately show ?thesis
    by (simp add: extent_block_at_def blkno_ok_def demo_fs_def cmfs_swap_extent_block_to_cpu_def)
qed

lemma demo_rec_clusters: "unat (cmfs_rec_clusters demo_fs d r)
    = (if d \<noteq> 0 then unat (e_int_blocks r) else unat (e_leaf_blocks r)) div 2"
  by (simp add: cmfs_rec_clusters_def unat_blocks_to_clusters demo_c_bits cmfs_rec_blocks_def
      unat_ucast_u64)

lemma demo_tree: "tree_ok 1 demo_fs demo_inode o_id2 0 4"
proof -
  have "tree_ok 0 demo_fs demo_extents o_h_list 0 4"
    by (auto simp: list_ok_def demo_list demo_lengths rec_start_def rec_end_def demo_rec_clusters
        demo_rec_def [symmetric] demo_recs less_2_cases_iff)
  moreover have "list_ok 1 demo_fs demo_inode o_id2 0 4"
    by (simp add: list_ok_def demo_list demo_lengths rec_start_def rec_end_def demo_rec_clusters demo_root_rec)
  ultimately show ?thesis using demo_extent_block
    by (auto simp: demo_list demo_root_rec rec_start_def rec_end_def demo_rec_clusters)
qed

lemma demo_tree_recs: "tree_recs 1 demo_fs demo_inode o_id2 = {demo_rec 0, demo_rec (Suc 0)}"
proof -
  have "tree_recs 0 demo_fs demo_extents o_h_list = {demo_rec 0, demo_rec (Suc 0)}"
    by (simp add: demo_list demo_rec_def lessThan_Suc numeral_2_eq_2 insert_commute)
  moreover have "extent_block_at demo_fs 4 eb \<longleftrightarrow> eb = demo_extents" for eb
    using demo_extent_block extent_block_at_unique by blast
  ultimately show ?thesis by (auto simp: demo_list demo_root_rec)
qed

end
