(* ===== verification/Debugfs_readonly.thy ===== *)
theory Debugfs_readonly
  imports Debugfs_commands Readonly Demo
begin

text \<open>
  A session of \<^verbatim>\<open>debugfs.cmfs\<close> that was not started with \<^verbatim>\<open>-w\<close> never changes a device: the
  frame property of the library (\<open>Readonly\<close>) carried over to every command.
\<close>

section \<open>Opening a device\<close>

definition same_data :: "io_channel \<Rightarrow> io_channel \<Rightarrow> bool" where
  "same_data ch ch' \<longleftrightarrow> dev_data ch' = dev_data ch"

interpretation data: calm_steps same_data
  by unfold_locales (auto simp: same_data_def)

lemmas data_frame = data.at_bind data.at_try data.at_run data.at_if data.at_if_fun data.at_option
  data.at_option_fun data.at_prod_fun data.at_ret data.at_err data.at_guard data.at_get data.stop

lemma disk_data: "safe same_disk m \<Longrightarrow> same_data ch (snd (m ch))"
  by (auto simp: same_data_def same_disk_def safe_def)

lemma take_allocs_data: "same_data ch (snd (take_allocs n ch))"
proof (induction n arbitrary: ch)
  case (Suc n)
  show ?case by (simp, intro data.at_bind disk_data channel_reads Suc.IH)
qed simp

lemma validate_data: "same_data ch (snd (io_validate_o_direct bs e ch))"
proof (induction bs e ch rule: io_validate_o_direct.induct)
  case (1 bs e ch)
  let ?c0 = "snd (io_set_blksize bs ch)"
  obtain r ch1 where r: "cmfs_malloc_block ?c0 = (r, ch1)" by force
  obtain r2 ch2 where r2: "unix_io_read_block 0 1 ch1 = (r2, ch2)" by force
  have "same_data ch ?c0" by (auto simp: same_data_def io_set_blksize_def Let_def)
  moreover have "same_data ?c0 ch1" using disk_data [OF channel_reads(1), of ?c0] r by simp
  moreover have "same_data ch1 ch2" using disk_data [OF unix_read_safe, of ch1 0 1] r2 by simp
  ultimately show ?case
    using "1.IH" r r2
    by (subst io_validate_o_direct.simps) (auto simp: same_data_def Let_def split: sum.split)
qed

lemma io_open_data: "same_data ch (snd (io_open name flags o64 ch))"
  unfolding io_open_def
  by (intro data_frame take_allocs_data data.at_upd) (auto simp: same_data_def validate_data [unfolded same_data_def])

definition mild :: "cmfs_filesys \<Rightarrow> cmfs_filesys \<Rightarrow> bool" where
  "mild fs fs' \<longleftrightarrow> same_data (fs_io fs) (fs_io fs') \<and> fs_flags fs' = fs_flags fs \<and> fs_devname fs' = fs_devname fs"

interpretation mild: calm_steps mild
  by unfold_locales (auto simp: mild_def same_data_def)

lemmas mild_frame = mild.at_bind mild.at_if mild.at_if_fun mild.at_prod_fun mild.at_ret mild.at_err
  mild.at_guard mild.at_get mild.stop

lemma on_io_mild:
  assumes "safe same_disk m"
  shows "mild fs (snd (on_io m fs))"
proof -
  obtain r ch where m: "m (fs_io fs) = (r, ch)" by force
  then have "same_data (fs_io fs) ch" using disk_data [OF assms, of "fs_io fs"] by simp
  then show ?thesis using m by (simp add: mild_def on_io_def)
qed

lemma mild_ops:
  "mild fs (snd (malloc_block fs))" "mild fs (snd (cmfs_read_blocks blkno count fs))"
  "mild fs (snd (cmfs_validate_meta_ecc d fs))" "mild fs (snd (open_check sb fs))"
  by (auto simp: malloc_block_def cmfs_read_blocks_def cmfs_read_blocks_cached_def cmfs_validate_meta_ecc_def
      open_check_def Let_def intro: on_io_mild channel_reads mild_frame)

lemma mild_upd: "(fs_io (h fs) = fs_io fs \<and> fs_flags (h fs) = fs_flags fs \<and> fs_devname (h fs) = fs_devname fs) \<Longrightarrow>
    mild fs (snd (upd_io h fs))"
  by (simp add: mild_def same_data_def upd_io_def)

lemma read_super_mild: "mild fs (snd (cmfs_read_super sb has_sb fs))"
  unfolding cmfs_read_super_def Let_def
  by (intro mild_frame mild_ops mild_upd) simp_all

lemma open_fill_fields:
  "fs_io (open_fill fs) = fs_io fs" "fs_flags (open_fill fs) = fs_flags fs"
  "fs_devname (open_fill fs) = fs_devname fs"
  by (simp_all add: open_fill_def Let_def)

text \<open>Whatever the result of opening, the data of the device stays as it is.\<close>

definition opened :: "string \<Rightarrow> u32 \<Rightarrow> io_channel \<Rightarrow> (errcode + cmfs_filesys) \<times> io_channel \<Rightarrow> bool" where
  "opened name flags ch res \<longleftrightarrow> same_data ch (snd res) \<and> (\<forall>fs. fst res = Inr fs \<longrightarrow>
     fs_devname fs = name \<and> same_data ch (fs_io fs) \<and> fs_flags fs = flags)"

lemma opened_err: "opened name flags ch (Inl e, ch)"
  by (simp add: opened_def same_data_def)

lemma opened_bind:
  assumes "same_data ch (snd (m ch))" and "\<And>x ch. opened name flags ch (f x ch)"
  shows "opened name flags ch (bind_io m f ch)"
proof -
  obtain r c where m: "m ch = (r, c)" by force
  show ?thesis
  proof (cases r)
    case (Inr x)
    then show ?thesis using m assms(1) assms(2) [of c x] by (auto simp: bind_io_def opened_def same_data_def)
  qed (use m assms(1) in \<open>simp add: bind_io_def opened_def\<close>)
qed

lemma opened_run:
  assumes "mild fs (snd (m fs))" and "fs_devname fs = name" "fs_flags fs = flags" "same_data ch (fs_io fs)"
  shows "opened name flags ch (case m fs of (Inl e, fs) \<Rightarrow> (Inl e, fs_io fs) | (Inr _, fs) \<Rightarrow> (Inr (open_fill fs), fs_io fs))"
  using assms by (auto simp: opened_def mild_def open_fill_fields same_data_def split: prod.splits sum.splits)

lemma opened_if: "(\<not> b \<Longrightarrow> opened name flags ch y) \<Longrightarrow> opened name flags ch (if b then (Inl e, ch) else y)"
  by (simp add: opened_err)

lemma set_blksize_data: "same_data ch (snd (io_set_blksize bs ch))"
  by (auto simp: same_data_def io_set_blksize_def Let_def)

lemma open_result:
  "opened name (flags OR (if ro then CMFS_FLAG_HARD_RO else 0)) ch (cmfs_open le name flags o64 ro sb bs ch)"
  unfolding cmfs_open_def Let_def
  by (intro opened_if opened_bind take_allocs_data io_open_data opened_run mild_frame read_super_mild mild_ops
      mild_upd) (simp_all add: set_blksize_data)

section \<open>The session\<close>

definition current :: "dbgfs_gbls \<Rightarrow> string \<Rightarrow> io_channel" where
  "current g name = (case g_fs g of
     None \<Rightarrow> g_devs g name
   | Some fs \<Rightarrow> if fs_devname fs = name then fs_io fs else g_devs g name)"

definition no_write :: "dbgfs_gbls \<Rightarrow> bool" where
  "no_write g \<longleftrightarrow> \<not> g_allow_write g \<and> (\<forall>fs. g_fs g = Some fs \<longrightarrow> fs_flags fs AND CMFS_FLAG_RW = 0)"

definition ro_step :: "dbgfs_gbls \<Rightarrow> dbgfs_gbls \<Rightarrow> bool" where
  "ro_step g g' \<longleftrightarrow> no_write g \<longrightarrow>
     no_write g' \<and> (\<forall>name. dev_data (current g' name) = dev_data (current g name))"

interpretation ro: calm_steps ro_step
  by unfold_locales (auto simp: ro_step_def)

named_theorems ro_ops \<open>operations of a session without write access\<close>

lemma ro_same:
  assumes "g_allow_write g' = g_allow_write g" and "g_fs g' = g_fs g" and "g_devs g' = g_devs g"
  shows "ro_step g g'"
  using assms by (simp add: ro_step_def no_write_def current_def split: option.split)

lemma ro_say [ro_ops]:
  "ro_step g (snd (say ev g))" "ro_step g (snd (printf fmt args g))" "ro_step g (snd (eprintf fmt args g))"
  "ro_step g (snd (com_err who e fmt args g))"
  by (auto simp: say_def printf_def eprintf_def com_err_def upd_io_def intro: ro_same)

lemma ro_say_all [ro_ops]: "ro_step g (snd (say_all evs g))"
  by (induction evs arbitrary: g) (simp, intro ro.at_ret, simp, intro ro.at_bind ro_ops, simp)

lemma ro_fs:
  assumes "g_fs g = Some fs" and "keeps fs fs'"
  shows "ro_step g (g\<lparr>g_fs := Some fs'\<rparr>)"
proof -
  have "fs_flags fs' = fs_flags fs" "fs_devname fs' = fs_devname fs" "dev_data (fs_io fs') = dev_data (fs_io fs)"
    if "fs_flags fs AND CMFS_FLAG_RW = 0"
  proof -
    have eq: "fs' = fs\<lparr>fs_io := fs_io fs'\<rparr>" "same_disk (fs_io fs) (fs_io fs')"
      using assms(2) that by (simp_all add: keeps_def)
    show "fs_flags fs' = fs_flags fs" "fs_devname fs' = fs_devname fs" by (subst eq(1), simp)+
    show "dev_data (fs_io fs') = dev_data (fs_io fs)" using eq(2) by (simp add: same_disk_def)
  qed
  then show ?thesis using assms(1) by (auto simp: ro_step_def no_write_def current_def)
qed

lemma ro_on_fs [intro]: "(\<And>fs. keeps fs (snd (m fs))) \<Longrightarrow> ro_step g (snd (on_fs m g))"
  by (auto simp: on_fs_def split: option.split prod.split intro!: ro_fs) (metis snd_conv)

lemma ro_on_fs_printing:
  assumes "\<And>s. keeps_cb s (snd (m s))"
  shows "ro_step g (snd (on_fs_printing m p out g))"
proof (cases "g_fs g")
  case (Some fs)
  obtain r fs' p' where m: "m (fs, p) = (r, fs', p')" by (metis prod.exhaust)
  then have "keeps fs fs'" using assms [of "(fs, p)"] by (simp add: keeps_cb_def)
  then have "ro_step g (g\<lparr>g_fs := Some fs'\<rparr>)" by (rule ro_fs [OF Some])
  moreover have "ro_step (g\<lparr>g_fs := Some fs'\<rparr>) (g\<lparr>g_fs := Some fs', g_out := o1\<rparr>)" for o1
    by (rule ro_same) simp_all
  ultimately show ?thesis using Some m
    by (auto simp: on_fs_printing_def intro: ro.trans split: option.split)
qed (simp add: on_fs_printing_def)

lemma ro_try:
  assumes "ro_step g (snd (m g))" and "\<And>e g. ro_step g (snd (h e g))" and "\<And>x g. ro_step g (snd (f x g))"
  shows "ro_step g (snd (try_io m h f g))"
  using assms(1) ro.trans [OF _ assms(2)] ro.trans [OF _ assms(3)]
  by (auto simp: try_io_def split: prod.splits sum.splits)

lemmas ro_frame = ro.at_bind ro_try ro.at_run ro.at_if ro.at_if_fun ro.at_option ro.at_option_fun ro.at_sum
  ro.at_sum_fun ro.at_prod ro.at_prod_fun ro.at_ret ro.at_err ro.at_guard ro.at_get ro.stop

lemma ro_upd: "g_allow_write (h g) = g_allow_write g \<and> g_fs (h g) = g_fs g \<and> g_devs (h g) = g_devs g \<Longrightarrow>
    ro_step g (snd (upd_io h g))"
  by (simp add: upd_io_def ro_same)

section \<open>Arguments\<close>

lemma ro_list [ro_ops]:
  assumes "ro_step g (snd m)" and "\<And>x xs. ro_step g (snd (f x xs))"
  shows "ro_step g (snd (case z of [] \<Rightarrow> m | x # xs \<Rightarrow> f x xs))"
  using assms by (simp split: list.split)

lemma ro_list_fun [ro_ops]:
  assumes "ro_step g (snd (m g))" and "\<And>x xs. ro_step g (snd (f x xs g))"
  shows "ro_step g (snd ((case z of [] \<Rightarrow> m | x # xs \<Rightarrow> f x xs) g))"
  using assms by (simp split: list.split)

lemma ro_device [ro_ops]: "ro_step g (snd (check_device_open g))"
  unfolding check_device_open_def by (intro ro_frame ro_ops)

lemma ro_with_device: "(\<And>g. ro_step g (snd (m g))) \<Longrightarrow> ro_step g (snd (with_device x m g))"
  unfolding with_device_def by (intro ro_frame ro_ops)

lemma ro_blockbuf: "(\<And>fs. keeps fs (snd (m fs))) \<Longrightarrow> ro_step g (snd (read_blockbuf m g))"
  unfolding read_blockbuf_def by (intro ro_frame ro_on_fs)

lemma string_to_inode_keeps [safe_ops]: "keeps fs (snd (string_to_inode root cwd str fs))"
  unfolding string_to_inode_def by (intro frame safe_ops)

lemma ro_path [ro_ops]:
  "ro_step g (snd (lookup_path str g))" "ro_step g (snd (path_blkno cmd str g))"
proof -
  show path: "ro_step g (snd (lookup_path str g))" for g
    unfolding lookup_path_def by (intro ro_on_fs safe_ops)
  show "ro_step g (snd (path_blkno cmd str g))"
    unfolding path_blkno_def by (intro ro_frame ro_ops path)
qed

lemma ro_args [ro_ops]:
  "ro_step g (snd (process_inode_args args g))" "ro_step g (snd (process_ls_args args g))"
  "ro_step g (snd (process_inodestr_args args n g))"
  unfolding process_inode_args_def process_ls_args_def process_inodestr_args_def Let_def
  by (intro ro_with_device ro_frame ro_ops)+

section \<open>Opening and closing\<close>

lemma close_data: "cmfs_close fs = Inr ch \<Longrightarrow> dev_data ch = dev_data (fs_io fs)"
  by (auto simp: cmfs_close_def cmfs_freefs_def cmfs_flush_def ret_io_def io_destroy_cache_def split: if_splits)

lemma ro_leave:
  "g_allow_write g' = g_allow_write g \<Longrightarrow> g_fs g' = None \<Longrightarrow>
    (\<And>name. dev_data (g_devs g' name) = dev_data (current g name)) \<Longrightarrow> ro_step g g'"
  by (simp add: ro_step_def no_write_def current_def)

lemma leave_fs_fields:
  "g_allow_write (leave_fs g) = g_allow_write g" "g_fs (leave_fs g) = None"
  "g_devs (leave_fs g) name = current g name"
  by (auto simp: leave_fs_def current_def split: option.split)

lemma ro_close [ro_ops]: "ro_step g (snd (do_close args g))"
proof -
  have err: "ro_step g (snd (bind_io (case args of None \<Rightarrow> err_io C_UNDEFINED
      | Some args \<Rightarrow> com_err (args ! 0) e ''while closing context'' [])
      (\<lambda>_. upd_io (\<lambda>g. (leave_fs g)\<lparr>g_blockbuf := False, g_device := None\<rparr>)) g))" for g e
    by (intro ro_frame ro_ops ro.at_upd ro_leave) (simp_all add: leave_fs_fields)
  show ?thesis
    unfolding do_close_def
  proof (rule ro_with_device)
    fix g
    show "ro_step g (snd (case g_fs g of None \<Rightarrow> (Inr (), g) | Some fs \<Rightarrow>
      (case cmfs_close fs of
         Inr ch \<Rightarrow> (Inr (), (leave_fs g)\<lparr> g_devs := (g_devs g)(fs_devname fs := ch),
                                        g_blockbuf := False, g_device := None \<rparr>)
       | Inl e \<Rightarrow> bind_io (case args of None \<Rightarrow> err_io C_UNDEFINED
                    | Some args \<Rightarrow> com_err (args ! 0) e ''while closing context'' [])
                  (\<lambda>_. upd_io (\<lambda>g. (leave_fs g)\<lparr>g_blockbuf := False, g_device := None\<rparr>)) g)))"
      using err by (auto simp: leave_fs_fields current_def close_data intro!: ro_leave split: option.split sum.split)
  qed
qed

lemma ro_open_device [ro_ops]: "ro_step g (snd (open_device_fs env dev g))"
proof (cases "g_allow_write g")
  case True
  then show ?thesis by (simp add: ro_step_def no_write_def)
next
  case False
  obtain r ch where o1: "cmfs_open (de_le env) dev CMFS_FLAG_RO (de_open64 env dev) (de_readonly env dev)
      (ucast CMFS_SUPER_BLOCK_BLKNO) 4096 (g_devs (leave_fs g) dev) = (r, ch)" by force
  have res: "opened dev (CMFS_FLAG_RO OR (if de_readonly env dev then CMFS_FLAG_HARD_RO else 0))
      (g_devs (leave_fs g) dev) (r, ch)"
    using open_result by (metis o1)
  show ?thesis
    using res False o1
    by (cases r) (auto simp: open_device_fs_def opened_def same_data_def leave_fs_fields ro_step_def no_write_def current_def)
qed

lemma ro_set: "g_allow_write (h g) = g_allow_write g \<Longrightarrow> g_fs (h g) = g_fs g \<Longrightarrow> g_devs (h g) = g_devs g \<Longrightarrow>
    ro_step g (snd (upd_io h g))"
  by (rule ro_upd) simp

lemma ro_open [ro_ops]: "ro_step g (snd (do_open env args g))"
  unfolding do_open_def
  by (intro ro_frame ro_ops ro_on_fs safe_ops ro_set) (simp_all add: set_globals_def Let_def)

section \<open>Directories\<close>

lemma ro_directory: "(\<And>g. ro_step g (snd (m g))) \<Longrightarrow> ro_step g (snd (checked_directory cmd blkno m g))"
  unfolding checked_directory_def by (intro ro_frame ro_ops ro_on_fs safe_ops)

lemma ro_inode_arg: "(\<And>blkno g. ro_step g (snd (f blkno g))) \<Longrightarrow> ro_step g (snd (on_inode_arg args f g))"
  unfolding on_inode_arg_def by (intro ro_frame ro_ops)

lemma ro_cd [ro_ops]: "ro_step g (snd (do_cd args g))" "ro_step g (snd (do_chroot args g))"
  unfolding do_cd_def do_chroot_def by (intro ro_inode_arg ro_directory ro_set; simp)+

lemma ro_report [ro_ops]: "ro_step g (snd (report cmd msg blkno r g))"
  unfolding report_def by (intro ro_frame ro_ops)

lemma dump_entry_quiet: "quiet_func (xlate_func (dump_dir_entry env))"
proof -
  have "keeps_cb s s' \<and> ret AND CMFS_DIRENT_CHANGED = 0"
    if "dump_dir_entry env buf o1 k s = (ret, buf', s')" for buf o1 k s ret buf' s'
  proof -
    obtain fs ls where s: "s = (fs, ls)" by force
    obtain r fs1 where r: "cmfs_read_inode (d_inode (dir_entry_of (cpu_le fs) buf o1)) fs = (r, fs1)" by force
    then have "keeps fs fs1" using read_inode_keeps by (metis snd_conv)
    then show ?thesis using that r
      by (auto simp: s dump_dir_entry_def keeps_cb_def Let_def split: if_splits option.splits)
  qed
  then show ?thesis by (auto simp: quiet_func_def xlate_func_def)
qed

lemma ro_ls [ro_ops]: "ro_step g (snd (do_ls env args g))"
  unfolding do_ls_def
  by (intro ro_frame ro_ops ro_directory ro_on_fs ro_on_fs_printing dir_iterate_keeps dump_entry_quiet safe_ops)

lemma dirblocks_safe: "safe_block_func (dirblocks_proxy env cmd ino)"
proof -
  have "keeps_cb s (snd (dirblocks_proxy env cmd ino blkno bcount ef s))" for blkno bcount ef s
  proof -
    obtain fs out where s: "s = (fs, out)" by force
    obtain r fs1 where r: "cmfs_read_dir_block blkno fs = (r, fs1)" by force
    then have "keeps fs fs1" using block_ops(2) by (metis snd_conv)
    then show ?thesis using r
      by (cases r) (auto simp: s dirblocks_proxy_def keeps_cb_def split: option.split)
  qed
  then show ?thesis by (simp add: safe_block_func_def)
qed

lemma ro_dirblocks [ro_ops]: "ro_step g (snd (do_dirblocks env args g))"
  unfolding do_dirblocks_def
  by (intro ro_inode_arg ro_directory ro_frame ro_ops ro_blockbuf ro_on_fs ro_on_fs_printing
      block_iterate_keeps dirblocks_safe safe_ops)

section \<open>Structures\<close>

lemma ro_dumps [ro_ops]:
  "ro_step g (snd (dump_super_block env sb g))" "ro_step g (snd (dump_extent_list fs buf b g))"
  "ro_step g (snd (dump_extent_block blk g))" "ro_step g (snd (dump_fast_symlink link g))"
  "ro_step g (snd (dump_logical_blkno blkno g))" "ro_step g (snd (dump_frag fs ino c e g))"
  "ro_step g (snd (dump_chain_list cl recs g))" "ro_step g (snd (dump_local_alloc loc g))"
  "ro_step g (snd (show_time env str sec nsec g))"
  unfolding dump_super_block_def dump_extent_list_def dump_extent_block_def dump_fast_symlink_def
    dump_logical_blkno_def dump_frag_def dump_chain_list_def dump_local_alloc_def show_time_def Let_def
  by (intro ro_frame ro_ops)+

lemma ro_dump_inode [ro_ops]: "ro_step g (snd (dump_inode env le buf g))"
  unfolding dump_inode_def Let_def by (intro ro_frame ro_ops)

lemma ro_extent [ro_ops]: "ro_step g (snd (do_extent args g))"
  unfolding do_extent_def by (intro ro_frame ro_ops ro_try ro_blockbuf safe_ops)

lemma ro_stats [ro_ops]: "ro_step g (snd (do_stats env args g))"
  unfolding do_stats_def Let_def by (intro ro_with_device ro_frame ro_ops)

lemma ro_stat [ro_ops]: "ro_step g (snd (do_stat env args g))"
  unfolding do_stat_def Let_def by (intro ro_with_device ro_frame ro_ops ro_try ro_blockbuf safe_ops)

lemma ro_or_undefined:
  "(\<And>x. r = Some x \<Longrightarrow> ro_step g (snd x)) \<Longrightarrow> ro_step g (snd (or_undefined r g))"
  by (auto simp: or_undefined_def split: option.split)

lemma find_block_offset_ro:
  assumes "find_block_offset buf b blkoff fs g = Some y"
  shows "ro_step g (snd y)"
  using assms
proof (induction rule: find_block_offset.raw_induct [rotated, consumes 1, case_names step])
  case (step f buf b blkoff fs g y)
  have logical: "ro_step g (snd (dump_logical_blkno k g))" for k g by (intro ro_ops)
  have error: "ro_step g (snd (bind_io (com_err cmd e msg xs) (\<lambda>_. err_io e) g))" for cmd e msg xs g
    by (intro ro_frame ro_ops)
  have op: "ro_step g1 g2" if "on_fs m g1 = (r, g2)" and "\<And>fs. keeps fs (snd (m fs))"
    for m :: "(cmfs_filesys, 'x) io" and r g1 g2
    using ro_on_fs [OF that(2)] that(1) by (metis snd_conv)
  have malloc: "ro_step g1 g2" if "on_fs malloc_block g1 = (r, g2)" for r g1 g2
    by (rule op [OF that]) (intro safe_ops)
  have read: "ro_step g1 g2" if "on_fs (cmfs_read_extent_block k) g1 = (r, g2)" for k r g1 g2
    by (rule op [OF that]) (intro safe_ops)
  note tr = ro.trans [OF malloc] ro.trans [OF malloc ro.trans [OF read]]
  show ?case
    using step(2)
    by (auto simp: Let_def intro: logical error tr dest: malloc step(1)
        split: option.splits if_splits prod.splits sum.splits)
qed

lemma calc_extents_keeps:
  assumes "calc_num_extents_from buf b i ne fs = Some y"
  shows "keeps fs (snd y)"
  using assms
proof (induction rule: calc_num_extents_from.raw_induct [rotated, consumes 1, case_names step])
  case (step f buf b i ne fs y)
  have read: "keeps fs1 fs2" if "bind_io malloc_block (\<lambda>_. cmfs_read_extent_block k) fs1 = (r, fs2)" for k r fs1 fs2
  proof -
    have "keeps fs1 (snd (bind_io malloc_block (\<lambda>_. cmfs_read_extent_block k) fs1))" by (intro frame safe_ops)
    then show ?thesis using that by simp
  qed
  have child: "keeps fs1 (snd y)" if b: "Option.bind (f eb o_h_list 0 0 fs1) (\<lambda>r. case r of
      (Inl e, fs) \<Rightarrow> Some (Inl e, fs) | (Inr extents, fs) \<Rightarrow> f buf b (i + 1) (ne + extents) fs) = Some y" for eb fs1
  proof -
    obtain r fs2 where r: "f eb o_h_list 0 0 fs1 = Some (r, fs2)"
      using b by (cases "f eb o_h_list 0 0 fs1") auto
    show ?thesis using b r step(1) [OF r] by (cases r) (auto dest!: step(1) intro: keeps_trans)
  qed
  show ?case
    using step(2)
    by (auto simp: Let_def dest!: step(1) read child intro: keeps_trans
        split: option.splits if_splits prod.splits sum.splits)
qed

lemma show_groups_ro:
  assumes "show_groups cmd blkno index g = Some y"
  shows "ro_step g (snd y)"
  using assms
proof (induction rule: show_groups.raw_induct [rotated, consumes 1, case_names step])
  case (step f cmd blkno index g y)
  have read: "ro_step g1 g2" if "read_blockbuf (cmfs_read_group_desc k) g1 = (r, g2)" for k r g1 g2
    using ro_blockbuf [of "cmfs_read_group_desc k", OF metadata_ops(4), of g1] that by simp
  have say: "ro_step g1 (g1\<lparr>g_out := o1\<rparr>)" for g1 o1 by (rule ro_same) simp_all
  have err: "ro_step g (snd (com_err who e fmt args g))" for who e fmt args g by (intro ro_ops)
  show ?case
    using step(2)
    by (auto dest!: step(1) read intro: ro.trans [OF _ err] ro.trans [OF _ ro.trans [OF say]]
        split: option.splits if_splits prod.splits sum.splits)
qed

lemma ro_frag [ro_ops]: "ro_step g (snd (do_frag args g))"
proof -
  have extents: "keeps fs (snd (or_undefined (calc_num_extents buf b fs) fs))" for buf b fs
    by (auto simp: or_undefined_def calc_num_extents_def dest: calc_extents_keeps split: option.split)
  show ?thesis
    unfolding do_frag_def Let_def
    by (intro ro_inode_arg ro_frame ro_ops ro_blockbuf ro_on_fs extents safe_ops)
qed

lemma ro_offset:
  "ro_step g (snd (case or_undefined (find_block_offset buf b blkoff fs g) g of
     (Inl C_UNDEFINED, g) \<Rightarrow> (Inl C_UNDEFINED, g) | (_, g) \<Rightarrow> (Inr (), g)))"
  by (auto simp: or_undefined_def dest: find_block_offset_ro split: option.split prod.split sum.split errcode.split)

lemma ro_bmap [ro_ops]: "ro_step g (snd (do_bmap args g))"
  unfolding do_bmap_def Let_def
  by (intro ro_with_device ro_frame ro_ops ro_blockbuf ro_offset safe_ops)

lemma ro_group [ro_ops]: "ro_step g (snd (do_group args g))"
  unfolding do_group_def
  by (intro ro_frame ro_ops ro_or_undefined show_groups_ro)

lemma ro_dump_file [ro_ops]: "ro_step g (snd (dump_file ino g))"
  unfolding dump_file_def by (intro ro_frame ro_ops ro_on_fs safe_ops)

lemma ro_cat [ro_ops]: "ro_step g (snd (do_cat args g))"
  unfolding do_cat_def by (intro ro_inode_arg ro_frame ro_ops ro_blockbuf safe_ops)

section \<open>The session\<close>

lemma ro_small [ro_ops]:
  "ro_step g (snd (do_locate args g))" "ro_step g (snd (do_icheck args g))"
  "ro_step g (snd (do_stat_sysdir g))" "ro_step g (snd (do_lcd env args g))" "ro_step g (snd (do_curdev g))"
  "ro_step g (snd (close_device g))" "ro_step g (snd (exit_with n g))" "ro_step g (snd (do_help g))"
  unfolding do_locate_def do_icheck_def do_stat_sysdir_def do_lcd_def do_curdev_def close_device_def
    exit_with_def do_help_def show_stat_sysdir_def Let_def
  by (intro ro_with_device ro_frame ro_ops ro_set; simp)+

lemma ro_quit [ro_ops]: "ro_step g (snd (do_quit g))" "ro_step g (snd (handle_signal g))"
  unfolding do_quit_def handle_signal_def by (intro ro_frame ro_ops)+

lemma ro_cmd [ro_ops]: "ro_step g (snd (cmd_func env f args g))"
  unfolding cmd_func_def by (cases f; simp; intro ro_ops)

lemma ro_command [ro_ops]: "ro_step g (snd (do_command env cmd g))"
  unfolding do_command_def by (intro ro_frame ro_ops ro_set) simp_all

lemma ro_lines [ro_ops]: "ro_step g (snd (run_lines env no_prompt lines g))"
proof (induction lines arbitrary: g)
  case Nil
  show ?case by simp (intro ro_frame ro_ops)
next
  case (Cons line lines)
  show ?case by simp (intro ro_frame ro_ops Cons.IH)
qed

lemma ro_main: "ro_step g (snd (debugfs_main env decimal_text files typed argv0 opts g))"
  unfolding debugfs_main_def print_version_def by (intro ro_frame ro_ops)

text \<open>
  C9. A session of debugfs.cmfs that is started without write access leaves the data of every
  device as it is, whatever its commands, its command file and the answers of the system are, and
  whether or not its commands fail.
\<close>

theorem debugfs_never_writes:
  assumes "\<not> o_allow_write opts"
  shows "dev_data (current (snd (debugfs_main env decimal_text files typed argv0 opts (zero_gbls devs opts))) name)
    = dev_data (devs name)"
proof -
  have "no_write (zero_gbls devs opts)" using assms by (simp add: no_write_def zero_gbls_def)
  then show ?thesis
    using ro_main [of "zero_gbls devs opts"] by (simp add: ro_step_def current_def zero_gbls_def)
qed

fun split_blanks :: "string \<Rightarrow> string list" where
  "split_blanks [] = [[]]"
| "split_blanks (c # cs) =
     (if c = CHR '' '' then [] # split_blanks cs
      else case split_blanks cs of [] \<Rightarrow> [[c]] | w # ws \<Rightarrow> (c # w) # ws)"

definition demo_env :: dbgfs_env where
  "demo_env = \<lparr> de_le = True, de_open64 = \<lambda>_. None, de_readonly = \<lambda>_. False, de_strsplit = split_blanks,
     de_strchug = dropWhile (\<lambda>c. c = CHR '' ''), de_ctime = \<lambda>_. None, de_localtime = \<lambda>_. None,
     de_pw_name = \<lambda>_. None, de_gr_name = \<lambda>_. None, de_getcwd = Inr ''/'', de_chdir = \<lambda>_. None,
     de_progname = ''debugfs.cmfs'', de_version = ''0.1'' \<rparr>"

definition demo_opts :: dbgfs_opts where
  "demo_opts = \<lparr> o_allow_write = False, o_no_prompt = False, o_sb_num = 0, o_cmd_file = None,
     o_one_cmd = None, o_device = Some ''/dev/demo'' \<rparr>"

lemma debugfs_never_writes_witness:
  "dev_data (current (snd (debugfs_main demo_env (\<lambda>_. ''1'') (\<lambda>_. Inl 2) [''ls /'', ''stats'', ''quit'']
     ''debugfs.cmfs'' demo_opts (zero_gbls (\<lambda>_. fs_io demo_fs) demo_opts))) ''/dev/demo'') = dev_data (fs_io demo_fs)"
  by (rule debugfs_never_writes) (simp add: demo_opts_def)

end
