(* ===== verification/Debugfs_properties.thy ===== *)
theory Debugfs_properties
  imports Debugfs_readonly
begin

text \<open>
  Properties of \<^verbatim>\<open>debugfs.cmfs\<close>: the arguments of a command, the text of the permissions, the
  search that does not end, and how commands and sessions end.
\<close>

section \<open>Arguments\<close>

lemma next_nonempty_spec:
  assumes "j \<le> length args"
  shows "j \<le> next_nonempty args j \<and> next_nonempty args j \<le> length args
    \<and> (\<forall>k. j \<le> k \<longrightarrow> k < next_nonempty args j \<longrightarrow> args ! k = [])
    \<and> (next_nonempty args j < length args \<longrightarrow> args ! next_nonempty args j \<noteq> [])"
  using assms
proof (induction args j rule: next_nonempty.induct)
  case (1 args j)
  show ?case
  proof (cases "j < length args \<and> args ! j = []")
    case True
    then have eq: "next_nonempty args j = next_nonempty args (j + 1)"
      by (subst next_nonempty.simps) simp
    have "args ! k = []" if "j \<le> k" "k < next_nonempty args (j + 1)" for k
      using "1.IH" True that by (cases "k = j") auto
    then show ?thesis using "1.IH" True unfolding eq by auto
  next
    case False
    then have "next_nonempty args j = j" by (subst next_nonempty.simps) simp
    then show ?thesis using False "1.prems" by auto
  qed
qed

definition crunched :: "string list \<Rightarrow> string list" where
  "crunched args = filter (\<lambda>a. a \<noteq> []) args @ replicate (length (filter (\<lambda>a. a = []) args)) []"

lemma crunched_empties: "\<forall>a \<in> set args. a = [] \<Longrightarrow> crunched args = args"
  by (simp add: crunched_def replicate_length_same)

lemma crunched_Cons: "a \<noteq> [] \<Longrightarrow> crunched (a # args) = a # crunched args"
  by (simp add: crunched_def)

lemma crunched_swap: "x \<noteq> [] \<Longrightarrow> \<forall>a \<in> set xs. a = [] \<Longrightarrow>
    crunched ([] # xs @ x # ys) = x # crunched (xs @ [] # ys)"
  by (induction xs) (auto simp: crunched_def)

lemma crunch_loop_eq:
  assumes "i \<le> length args" "j \<le> length args" and "\<forall>k. i \<le> k \<longrightarrow> k < j \<longrightarrow> args ! k = []"
  shows "crunch_loop args i j = take i args @ crunched (drop i args)"
  using assms
proof (induction args i j rule: crunch_loop.induct)
  case (1 args i j)
  define j' where "j' = next_nonempty args (max j (i + 1))"
  have j'_eq: "next_nonempty args (max j (Suc i)) = j'" by (simp add: j'_def)
  show ?case
  proof (cases "i < length args \<and> args ! i = []")
    case False
    then show ?thesis
      using "1.IH"(2) "1.prems"
      by (subst crunch_loop.simps)
        (auto simp: crunched_Cons Cons_nth_drop_Suc [symmetric] take_Suc_conv_app_nth crunched_empties)
  next
    case True
    have m: "max j (i + 1) \<le> length args" using True "1.prems" by simp
    note spec = next_nonempty_spec [OF m, folded j'_def]
    have empty: "args ! k = []" if "i \<le> k" "k < j'" for k
    proof (cases "k < max j (i + 1)")
      case True
      then show ?thesis using that "1.prems"(3) \<open>i < length args \<and> args ! i = []\<close>
        by (metis Suc_eq_plus1 le_neq_implies_less less_Suc_eq_le max_less_iff_conj not_less max_def)
    qed (use that spec in \<open>metis leI\<close>)
    show ?thesis
    proof (cases "j' < length args")
      case False
      then have "\<forall>a \<in> set (drop i args). a = []" using empty spec by (auto simp: in_set_conv_nth)
      then show ?thesis using True False
        by (subst crunch_loop.simps) (auto simp: crunched_empties j'_eq Let_def)
    next
      case lt: True
      let ?args = "args[i := args ! j', j' := args ! i]"
      have ij: "i < j'" using spec by simp
      have step: "crunch_loop args i j = crunch_loop ?args (i + 1) j'"
        using True lt by (subst crunch_loop.simps) (simp add: j'_eq Let_def)
      have "crunch_loop ?args (i + 1) j' = take (i + 1) ?args @ crunched (drop (i + 1) ?args)"
        using "1.IH"(1) [of j'] True lt ij empty by (auto simp: j'_eq nth_list_update)
      moreover have "drop i args = [] # take (j' - i - 1) (drop (i + 1) args) @ args ! j' # drop (j' + 1) args"
      proof -
        have "drop i args = args ! i # drop (i + 1) args" using True Cons_nth_drop_Suc [of i args] by simp
        also have "drop (i + 1) args = take (j' - i - 1) (drop (i + 1) args) @ drop (j' - i - 1) (drop (i + 1) args)"
          by (simp only: append_take_drop_id)
        also have "drop (j' - i - 1) (drop (i + 1) args) = args ! j' # drop (j' + 1) args"
          using ij lt Cons_nth_drop_Suc [of j' args] by simp
        finally show ?thesis using True by simp
      qed
      moreover have "drop (i + 1) ?args = take (j' - i - 1) (drop (i + 1) args) @ [] # drop (j' + 1) args"
      proof -
        have "drop (i + 1) ?args = (drop (i + 1) args)[j' - (i + 1) := []]"
          by (subst drop_update_swap) (use ij True in simp_all)
        also have "\<dots> = take (j' - i - 1) (drop (i + 1) args) @ [] # drop (j' + 1) args"
          by (subst upd_conv_take_nth_drop) (use ij lt in simp_all)
        finally show ?thesis .
      qed
      moreover have "take (i + 1) ?args = take i args @ [args ! j']"
        using ij True by (simp add: take_Suc_conv_app_nth)
      moreover have "\<forall>a \<in> set (take (j' - i - 1) (drop (i + 1) args)). a = []"
        using empty ij lt by (auto simp: in_set_conv_nth)
      ultimately show ?thesis using step spec lt by (simp add: crunched_swap)
    qed
  qed
qed

text \<open>
  \<^verbatim>\<open>crunch_strsplit\<close> moves the empty strings to the end and keeps the other arguments in
  their order, whatever the number of blanks between them.
\<close>

theorem crunch_strsplit_moves_empties:
  "crunch_strsplit args = filter (\<lambda>a. a \<noteq> []) args @ replicate (length (filter (\<lambda>a. a = []) args)) []"
  using crunch_loop_eq [of 0 args 0] by (simp add: crunch_strsplit_def crunched_def)

section \<open>Free bits of a group\<close>

lemma contig_loop_no_bit:
  assumes "contig_loop bm bits e m = Some y"
  shows "\<forall>i. e \<le> i \<longrightarrow> i < bits \<longrightarrow> \<not> bit_at bm i"
  using assms
proof (induction bm bits e m y rule: contig_loop.raw_induct [rotated, consumes 1, case_names step])
  case (step f bm bits e m y)
  define start where "start = cmfs_find_next_bit_set bm bits e"
  show ?case
  proof (cases "e < bits")
    case True
    then have ok: "found_ok (bit_at bm) e bits start" unfolding start_def by (intro find_next_bit_set_ok) simp
    show ?thesis
    proof (cases "bits \<le> start")
      case True
      then show ?thesis using ok by (auto simp: found_ok_def)
    next
      case False
      then have start: "e \<le> start" "start < bits" "bit_at bm start" "\<forall>i. e \<le> i \<longrightarrow> i < start \<longrightarrow> \<not> bit_at bm i"
        using ok by (auto simp: found_ok_def)
      have "found_ok (bit_at bm) start bits (cmfs_find_next_bit_set bm bits start)"
        using start by (intro find_next_bit_set_ok) simp
      then have again: "cmfs_find_next_bit_set bm bits start = start"
        using start by (auto simp: found_ok_def)
      have "f bm bits start (if m < 0 then 0 else m) = Some y"
        using step(2) True False by (simp add: Let_def start_def [symmetric] again split: if_splits)
      then show ?thesis using step(1) start by blast
    qed
  qed simp
qed

lemma contig_loop_none:
  assumes "\<forall>i < bits. \<not> bit_at bm i"
  shows "contig_loop bm bits 0 0 = Some 0"
proof -
  have "bits \<le> cmfs_find_next_bit_set bm bits 0"
    using find_next_bit_set_ok [of 0 bits bm] assms by (auto simp: found_ok_def)
  then show ?thesis by (subst contig_loop.simps) (simp add: Let_def)
qed

text \<open>
  C40. The search for the longest run of free bits, which \<^verbatim>\<open>group\<close> makes for every group
  descriptor, returns only when no bit of the group is set, and then returns 0: as both searches
  look for a set bit, the loop stays where the first one is.
\<close>

theorem find_max_contig_free_bits_returns:
  "find_max_contig_free_bits le gd =
     (if \<exists>i < unat (ld16 le gd o_bg_bits). cmfs_test_bit i (drop o_bg_bitmap gd) then None else Some 0)"
proof (cases "\<exists>i < unat (ld16 le gd o_bg_bits). bit_at (drop o_bg_bitmap gd) i")
  case True
  then show ?thesis
    using contig_loop_no_bit [of "drop o_bg_bitmap gd" "unat (ld16 le gd o_bg_bits)" 0 0]
    by (cases "find_max_contig_free_bits le gd") (auto simp: find_max_contig_free_bits_def cmfs_test_bit_eq)
next
  case False
  then show ?thesis
    using contig_loop_none by (simp add: find_max_contig_free_bits_def cmfs_test_bit_eq)
qed

section \<open>Permissions\<close>

lemma low_bits_eq:
  fixes m m' :: u16
  shows "m AND 0xFFF = m' AND 0xFFF \<longleftrightarrow> (\<forall>i < 12. bit m i = bit m' i)"
proof -
  have low: "w AND 0xFFF = take_bit 12 w" for w :: u16
    by (simp add: take_bit_eq_mask mask_eq_exp_minus_1)
  show ?thesis
  proof
    assume "m AND 0xFFF = m' AND 0xFFF"
    then show "\<forall>i < 12. bit m i = bit m' i" unfolding low by (metis bit_take_bit_iff)
  next
    assume "\<forall>i < 12. bit m i = bit m' i"
    then show "m AND 0xFFF = m' AND 0xFFF" unfolding low by (intro bit_eqI) (auto simp: bit_take_bit_iff)
  qed
qed

lemma perm_bit: "n < 16 \<Longrightarrow> ((m :: u16) AND 2 ^ n = 0) = (\<not> bit m n)"
  using and_power_iff_bit [of n m] by (auto simp: and.commute)

lemma perm_bits:
  fixes m :: u16
  shows "(m AND 1 = 0) = (\<not> bit m 0)" "(m AND 2 = 0) = (\<not> bit m 1)" "(m AND 4 = 0) = (\<not> bit m 2)"
    "(m AND 8 = 0) = (\<not> bit m 3)" "(m AND 0x10 = 0) = (\<not> bit m 4)" "(m AND 0x20 = 0) = (\<not> bit m 5)"
    "(m AND 0x40 = 0) = (\<not> bit m 6)" "(m AND 0x80 = 0) = (\<not> bit m 7)" "(m AND 0x100 = 0) = (\<not> bit m 8)"
    "(m AND 0x200 = 0) = (\<not> bit m 9)" "(m AND 0x400 = 0) = (\<not> bit m 10)" "(m AND 0x800 = 0) = (\<not> bit m 11)"
  using perm_bit [of 0 m] perm_bit [of 1 m] perm_bit [of 2 m] perm_bit [of 3 m] perm_bit [of 4 m]
    perm_bit [of 5 m] perm_bit [of 6 m] perm_bit [of 7 m] perm_bit [of 8 m] perm_bit [of 9 m]
    perm_bit [of 10 m] perm_bit [of 11 m]
  by (simp_all del: not_not)

lemma exec_char_eq:
  assumes "distinct [y, n, x, d]"
  shows "(if a then (if b then y else n) else if b then x else d) =
    (if a' then (if b' then y else n) else if b' then x else d) \<longleftrightarrow> a = a' \<and> b = b'"
  using assms by auto

lemma rw_char_eq: "c \<noteq> d \<Longrightarrow> (if a then c else d) = (if a' then c else d) \<longleftrightarrow> a = a'"
  by auto

text \<open>
  The text of the permissions determines the twelve permission bits, and apart from them
  shows only the letter of the file type.
\<close>

theorem perms_text_determines_mode:
  "inode_perms_to_str m = inode_perms_to_str m' \<longleftrightarrow>
     hd (inode_perms_to_str m) = hd (inode_perms_to_str m') \<and> m AND 0xFFF = m' AND 0xFFF"
proof -
  have all: "(\<forall>i < (12::nat). P i) \<longleftrightarrow> P 0 \<and> P 1 \<and> P 2 \<and> P 3 \<and> P 4 \<and> P 5 \<and> P 6 \<and> P 7 \<and> P 8 \<and> P 9 \<and> P 10 \<and> P 11" for P
    by (simp add: eval_nat_numeral All_less_Suc) blast
  show ?thesis
    unfolding low_bits_eq all inode_perms_to_str_def Let_def list.sel list.inject perm_bits not_not
    by (simp only: exec_char_eq rw_char_eq distinct.simps list.set char.inject insert_iff empty_iff simp_thms) blast
qed

section \<open>How commands end\<close>

text \<open>
  The result of a command: it returns, its run is undefined, or it ends the process with one of
  the exit codes \<open>S\<close>. No error of the library is left.
\<close>

definition ends :: "nat set \<Rightarrow> (errcode + 'a) \<times> dbgfs_gbls \<Rightarrow> bool" where
  "ends S res \<longleftrightarrow> (case res of
     (Inr _, _) \<Rightarrow> True
   | (Inl e, g) \<Rightarrow> e = C_UNDEFINED \<or> e = EXIT \<and> (\<exists>code \<in> S. g_exit g = Some code))"

named_theorems ends_rules \<open>structural rules for the results of commands\<close>
named_theorems ends_ops \<open>results of the parts of commands\<close>

lemma ends_bind [ends_rules]:
  assumes "ends S (m g)" and "\<And>x g. ends S (f x g)"
  shows "ends S (bind_io m f g)"
proof -
  obtain r g1 where m: "m g = (r, g1)" by force
  then show ?thesis using assms(1) assms(2) [of _ g1] by (cases r) (simp_all add: bind_io_def ends_def)
qed

lemma ends_try [ends_rules]:
  "(\<And>e g. ends S (h e g)) \<Longrightarrow> (\<And>x g. ends S (f x g)) \<Longrightarrow> ends S (try_io m h f g)"
  by (auto simp: try_io_def split: prod.split sum.split) (simp add: ends_def)

lemma ends_if [ends_rules]:
  "ends S x \<Longrightarrow> ends S y \<Longrightarrow> ends S (if b then x else y)"
  "ends S (m g) \<Longrightarrow> ends S (n g) \<Longrightarrow> ends S ((if b then m else n) g)"
  by simp_all

lemma ends_option [ends_rules]:
  "ends S x \<Longrightarrow> (\<And>z. ends S (y z)) \<Longrightarrow> ends S (case a of None \<Rightarrow> x | Some z \<Rightarrow> y z)"
  "ends S (m g) \<Longrightarrow> (\<And>z. ends S (n z g)) \<Longrightarrow> ends S ((case a of None \<Rightarrow> m | Some z \<Rightarrow> n z) g)"
  by (simp_all split: option.split)

lemma ends_sum [ends_rules]:
  "(\<And>z. ends S (x z)) \<Longrightarrow> (\<And>z. ends S (y z)) \<Longrightarrow> ends S (case b of Inl z \<Rightarrow> x z | Inr z \<Rightarrow> y z)"
  "(\<And>z. ends S (m z g)) \<Longrightarrow> (\<And>z. ends S (n z g)) \<Longrightarrow> ends S ((case b of Inl z \<Rightarrow> m z | Inr z \<Rightarrow> n z) g)"
  by (simp_all split: sum.split)

lemma ends_prod [ends_rules]:
  "(\<And>a b. ends S (x a b)) \<Longrightarrow> ends S (case p of (a, b) \<Rightarrow> x a b)"
  "(\<And>a b. ends S (m a b g)) \<Longrightarrow> ends S ((case p of (a, b) \<Rightarrow> m a b) g)"
  by (simp_all split: prod.split)

lemma ends_list [ends_rules]:
  "ends S x \<Longrightarrow> (\<And>z zs. ends S (y z zs)) \<Longrightarrow> ends S (case a of [] \<Rightarrow> x | z # zs \<Rightarrow> y z zs)"
  "ends S (m g) \<Longrightarrow> (\<And>z zs. ends S (n z zs g)) \<Longrightarrow> ends S ((case a of [] \<Rightarrow> m | z # zs \<Rightarrow> n z zs) g)"
  by (simp_all split: list.split)

lemma ends_base [ends_rules]:
  "ends S (Inr x, g)" "ends S (Inl C_UNDEFINED, g)" "ends S (ret_io x g)" "ends S (get_io f g)"
  "ends S (upd_io h g)" "ends S (err_io C_UNDEFINED g)" "ends S (guard_io b C_UNDEFINED g)"
  by (simp_all add: ends_def io_simps)

lemma ends_say [ends_ops]:
  "ends S (say ev g)" "ends S (printf fmt args g)" "ends S (eprintf fmt args g)" "ends S (com_err who e fmt args g)"
  unfolding say_def printf_def eprintf_def com_err_def by (intro ends_rules)+

lemma ends_say_all [ends_ops]: "ends S (say_all evs g)"
  by (induction evs arbitrary: g) (simp, intro ends_rules, simp, intro ends_rules ends_ops, simp)

lemma ends_device [ends_ops]: "ends S (check_device_open g)"
  unfolding check_device_open_def by (intro ends_rules ends_ops)

lemma ends_with_device [ends_rules]: "(\<And>g. ends S (m g)) \<Longrightarrow> ends S (with_device x m g)"
  unfolding with_device_def by (intro ends_rules ends_ops)

lemma ends_args [ends_ops]:
  "ends S (path_blkno cmd str g)" "ends S (process_inode_args args g)" "ends S (process_ls_args args g)"
  "ends S (process_inodestr_args args n g)"
  unfolding process_inode_args_def process_ls_args_def process_inodestr_args_def path_blkno_def Let_def
  by (intro ends_rules ends_ops)+

lemma ends_inode_arg [ends_rules]: "(\<And>x g. ends S (f x g)) \<Longrightarrow> ends S (on_inode_arg args f g)"
  unfolding on_inode_arg_def by (intro ends_rules ends_ops)

lemma ends_directory [ends_rules]: "(\<And>g. ends S (m g)) \<Longrightarrow> ends S (checked_directory cmd blkno m g)"
  unfolding checked_directory_def by (intro ends_rules ends_ops)

lemma ends_printing [ends_ops]: "ends S (on_fs_printing m p out g)"
  by (auto simp: on_fs_printing_def ends_def split: option.split prod.split sum.split errcode.split)

lemma ends_report [ends_ops]: "ends S (report cmd msg blkno r g)"
  unfolding report_def by (intro ends_rules ends_ops)

lemma ends_close [ends_ops]: "ends S (do_close args g)"
  unfolding do_close_def by (intro ends_rules ends_ops)

lemma ends_dumps [ends_ops]:
  "ends S (dump_super_block env sb g)" "ends S (dump_extent_list fs buf b g)"
  "ends S (dump_extent_block blk g)" "ends S (dump_fast_symlink link g)"
  "ends S (dump_logical_blkno blkno g)" "ends S (dump_frag fs ino c e g)"
  "ends S (dump_local_alloc loc g)" "ends S (show_time env str sec nsec g)"
  unfolding dump_super_block_def dump_extent_list_def dump_extent_block_def dump_fast_symlink_def
    dump_logical_blkno_def dump_frag_def dump_local_alloc_def show_time_def Let_def
  by (intro ends_rules ends_ops)+

lemma ends_dump_inode [ends_ops]: "ends S (dump_inode env le buf g)"
  unfolding dump_inode_def Let_def by (intro ends_rules ends_ops)

lemma ends_groups [ends_ops]: "ends S (or_undefined (show_groups cmd blkno index g) g)"
proof -
  have "ends S y" if "show_groups cmd blkno index g = Some y" for y
    using that
  proof (induction cmd blkno index g y rule: show_groups.raw_induct [rotated, consumes 1, case_names step])
    case (step f cmd blkno index g y)
    then show ?case
      by (auto intro: ends_rules ends_ops split: if_splits prod.splits sum.splits option.splits)
  qed
  then show ?thesis by (auto simp: or_undefined_def intro: ends_rules split: option.split)
qed

lemma ends_bmap_result [ends_ops]:
  "ends S (case r of (Inl C_UNDEFINED, g) \<Rightarrow> (Inl C_UNDEFINED, g) | (_, g) \<Rightarrow> (Inr (), g))"
  by (auto simp: ends_def split: prod.split sum.split errcode.split)

lemma ends_commands [ends_ops]:
  "ends S (do_bmap args g)" "ends S (do_cat args g)" "ends S (do_cd args g)" "ends S (do_chroot args g)"
  "ends S (do_curdev g)" "ends S (do_dirblocks env args g)" "ends S (do_extent args g)"
  "ends S (do_locate args g)" "ends S (do_frag args g)" "ends S (do_group args g)" "ends S (do_help g)"
  "ends S (do_icheck args g)" "ends S (do_lcd env args g)" "ends S (do_ls env args g)"
  "ends S (do_open env args g)" "ends S (do_stat env args g)" "ends S (do_stat_sysdir g)"
  "ends S (do_stats env args g)"
  unfolding do_bmap_def do_cat_def do_cd_def do_chroot_def do_curdev_def do_dirblocks_def do_extent_def
    do_locate_def do_frag_def do_group_def do_help_def do_icheck_def do_lcd_def do_ls_def do_open_def
    do_stat_def do_stat_sysdir_def show_stat_sysdir_def do_stats_def Let_def
  by (intro ends_rules ends_ops)+

section \<open>How a session ends\<close>

definition is_quit :: "dbgfs_env \<Rightarrow> string \<Rightarrow> bool" where
  "is_quit env line \<longleftrightarrow> line \<noteq> [] \<and> (case crunch_strsplit (de_strsplit env line) of
     [] \<Rightarrow> False | a # _ \<Rightarrow> find_command a = Some Quit)"

lemma ends_exit: "code \<in> S \<Longrightarrow> ends S (bind_io close_device (\<lambda>_. exit_with code) g)"
proof (rule ends_bind)
  show "ends S (close_device g)"
    unfolding close_device_def by (intro ends_rules ends_ops)
  show "code \<in> S \<Longrightarrow> ends S (exit_with code g)" for x g
    by (simp add: exit_with_def ends_def io_simps)
qed

lemma ends_cmd: "f = Quit \<longrightarrow> 0 \<in> S \<Longrightarrow> ends S (cmd_func env f args g)"
  unfolding cmd_func_def by (cases f) (simp_all add: ends_ops do_quit_def ends_exit)

lemma ends_command: "is_quit env line \<longrightarrow> 0 \<in> S \<Longrightarrow> ends S (do_command env line g)"
  unfolding do_command_def is_quit_def
  by (auto split: list.split option.split intro!: ends_bind ends_base ends_ops ends_cmd)

text \<open>Running lines without the end of the session, and the start of it.\<close>

fun run_commands :: "dbgfs_env \<Rightarrow> bool \<Rightarrow> string list \<Rightarrow> unit dbg" where
  "run_commands env no_prompt [] = ret_io ()"
| "run_commands env no_prompt (line # lines) =
     bind_io (get_io g_interactive) (\<lambda>interactive.
     bind_io (if \<not> interactive \<and> \<not> no_prompt
              then printf ''%s%s'' [St ''debugfs: '', St line] else ret_io ()) (\<lambda>_.
     bind_io (do_command env line) (\<lambda>_. run_commands env no_prompt lines)))"

definition session_start :: "dbgfs_env \<Rightarrow> (u32 \<Rightarrow> string) \<Rightarrow> dbgfs_opts \<Rightarrow> unit dbg" where
  "session_start env decimal_text opts =
     bind_io (case o_device opts of
         None \<Rightarrow> ret_io ()
       | Some dev \<Rightarrow> do_command env (''open '' @ dev @
           (if o_sb_num opts \<noteq> 0 then '' -s '' @ decimal_text (o_sb_num opts) else [])))
       (\<lambda>_. if o_no_prompt opts then ret_io () else print_version env)"

text \<open>The end of a session: the end of the input, or the first of the lines that are left.\<close>

definition session_end :: "dbgfs_env \<Rightarrow> bool \<Rightarrow> string list \<Rightarrow> unit dbg" where
  "session_end env no_prompt rest =
     (case rest of
        [] \<Rightarrow> bind_io (printf [] []) (\<lambda>_. handle_signal)
      | line # _ \<Rightarrow> run_commands env no_prompt [line])"

lemma bind_io_assoc: "bind_io (bind_io m f) h = bind_io m (\<lambda>x. bind_io (f x) h)"
  by (rule ext) (simp add: bind_io_def split: prod.split sum.split)

lemma bind_io_ret: "bind_io (ret_io ()) h = h ()"
  by (rule ext) (simp add: bind_io_def ret_io_def)

lemma run_lines_split:
  "run_lines env no_prompt (pre @ rest) = bind_io (run_commands env no_prompt pre) (\<lambda>_. run_lines env no_prompt rest)"
  by (induction pre) (simp_all add: bind_io_assoc bind_io_ret)

lemma bind_stops: "(\<And>g. \<exists>e g'. m g = (Inl e, g')) \<Longrightarrow> bind_io m f = bind_io m h"
proof (rule ext)
  fix g
  assume "\<And>g. \<exists>e g'. m g = (Inl e, g')"
  then obtain e g' where "m g = (Inl e, g')" by blast
  then show "bind_io m f g = bind_io m h g" by (simp add: bind_io_def)
qed

lemma ends_commands_run:
  "(\<forall>line \<in> set lines. \<not> is_quit env line) \<Longrightarrow> ends S (run_commands env no_prompt lines g)"
proof (induction lines arbitrary: g)
  case (Cons line lines)
  then show ?case by (simp, intro ends_bind ends_if ends_base ends_ops ends_command Cons.IH) auto
qed (simp add: ends_base)

section \<open>Closing and leaving\<close>

text \<open>The device of the session can be closed: an error of \<^verbatim>\<open>cmfs_close\<close> would use a null pointer.\<close>

definition closable :: "dbgfs_gbls \<Rightarrow> bool" where
  "closable g \<longleftrightarrow> g_device g = None \<or> (case g_fs g of None \<Rightarrow> True | Some fs \<Rightarrow> \<exists>ch. cmfs_close fs = Inr ch)"

lemma close_device_cases:
  "\<exists>g'. close_device g = (if closable g then Inr () else Inl C_UNDEFINED, g')
    \<and> (closable g \<longrightarrow> g_fs g \<noteq> None \<longrightarrow> g_device g' = None)"
proof (cases "g_device g = None \<or> g_fs g = None")
  case True
  then show ?thesis
    by (auto simp: close_device_def do_close_def with_device_def check_device_open_def eprintf_def say_def
        closable_def io_simps split: option.splits)
next
  case False
  then obtain fs where fs: "g_fs g = Some fs" "g_device g \<noteq> None" by auto
  have "close_device g = do_close None g" using fs(2) by (auto simp: close_device_def io_simps)
  also have "\<dots> = (case cmfs_close fs of
      Inr ch \<Rightarrow> (Inr (), (leave_fs g)\<lparr> g_devs := (g_devs g)(fs_devname fs := ch), g_blockbuf := False, g_device := None \<rparr>)
    | Inl e \<Rightarrow> (Inl C_UNDEFINED, g))"
    using fs(1) by (simp add: do_close_def with_device_def check_device_open_def io_simps split: sum.split)
  finally show ?thesis using fs by (cases "cmfs_close fs") (auto simp: closable_def)
qed

lemma leave_cases:
  "\<exists>g'. bind_io close_device (\<lambda>_. exit_with code) g = (if closable g then Inl EXIT else Inl C_UNDEFINED, g')
    \<and> (closable g \<longrightarrow> g_exit g' = Some code \<and> (g_fs g \<noteq> None \<longrightarrow> g_device g' = None))"
proof -
  obtain g1 where "close_device g = (if closable g then Inr () else Inl C_UNDEFINED, g1)"
    "closable g \<longrightarrow> g_fs g \<noteq> None \<longrightarrow> g_device g1 = None" using close_device_cases by blast
  then show ?thesis by (auto simp: exit_with_def io_simps)
qed

lemma quit_names: "find_command a = Some Quit \<Longrightarrow> a = ''quit'' \<or> a = ''q''"
  by (auto simp: find_command_def commands_def split: if_splits)

lemma closable_same: "g_fs g' = g_fs g \<Longrightarrow> g_device g' = g_device g \<Longrightarrow> closable g' = closable g"
  by (simp add: closable_def)

lemma quit_cases:
  assumes "is_quit env line"
  shows "\<exists>g'. do_command env line g = (if closable g then Inl EXIT else Inl C_UNDEFINED, g')
    \<and> (closable g \<longrightarrow> g_exit g' = Some 0 \<and> (g_fs g \<noteq> None \<longrightarrow> g_device g' = None))"
proof -
  obtain a as where a: "line \<noteq> []" "crunch_strsplit (de_strsplit env line) = a # as" "find_command a = Some Quit"
    using assms by (auto simp: is_quit_def split: list.splits)
  have "take 1 a \<noteq> ''#''" using quit_names [OF a(3)] by auto
  then have run: "do_command env line g = bind_io close_device (\<lambda>_. exit_with 0) (g\<lparr>g_cmd := a\<rparr>)"
    using a by (simp add: do_command_def cmd_func_def do_quit_def bind_io_def upd_io_def)
  have "closable (g\<lparr>g_cmd := a\<rparr>) = closable g" by (rule closable_same) simp_all
  then show ?thesis unfolding run using leave_cases [of 0 "g\<lparr>g_cmd := a\<rparr>"] by simp
qed

lemma first_dropped: "\<forall>x \<in> set (take 1 (dropWhile (\<lambda>x. \<not> P x) xs)). P x"
proof (cases "dropWhile (\<lambda>x. \<not> P x) xs")
  case (Cons y ys)
  have "\<not> \<not> P (hd (dropWhile (\<lambda>x. \<not> P x) xs))" by (rule hd_dropWhile) (simp only: Cons list.distinct not_False_eq_True)
  then show ?thesis by (simp only: Cons list.sel) simp
next
  case Nil
  show ?thesis by (simp only: Nil) simp
qed

lemma session_end_cases:
  assumes "\<forall>line \<in> set (take 1 rest). is_quit env line"
  shows "\<exists>g'. session_end env no_prompt rest g = (if closable g then Inl EXIT else Inl C_UNDEFINED, g')
    \<and> (closable g \<longrightarrow> g_exit g' = Some (if rest = [] then 1 else 0) \<and> (g_fs g \<noteq> None \<longrightarrow> g_device g' = None))"
proof (cases rest)
  case Nil
  let ?g = "g\<lparr>g_out := g_out g @ [Printf [] []]\<rparr>"
  have "session_end env no_prompt rest g = bind_io close_device (\<lambda>_. exit_with 1) ?g"
    using Nil by (simp add: session_end_def handle_signal_def printf_def say_def bind_io_def upd_io_def)
  moreover have "closable ?g = closable g" by (rule closable_same) simp_all
  ultimately show ?thesis using leave_cases [of 1 ?g] Nil by simp
next
  case (Cons line more)
  let ?g = "if \<not> g_interactive g \<and> \<not> no_prompt
    then g\<lparr>g_out := g_out g @ [Printf ''%s%s'' [St ''debugfs: '', St line]]\<rparr> else g"
  have c: "closable ?g = closable g" "g_fs ?g = g_fs g" by (auto intro!: closable_same)
  obtain g' where g': "do_command env line ?g = (if closable g then Inl EXIT else Inl C_UNDEFINED, g')"
    "closable g \<longrightarrow> g_exit g' = Some 0 \<and> (g_fs g \<noteq> None \<longrightarrow> g_device g' = None)"
    using quit_cases [of env line ?g] assms Cons unfolding c by auto
  then show ?thesis using Cons
    by (auto simp: session_end_def printf_def say_def io_simps split: if_splits)
qed

lemma session_stops:
  assumes "\<forall>line \<in> set (take 1 rest). is_quit env line"
  shows "run_lines env no_prompt rest g = session_end env no_prompt rest g"
proof (cases rest)
  case (Cons line more)
  have "\<exists>e g'. do_command env line g = (Inl e, g')" for g
    using quit_cases [of env line g] assms Cons by (cases "closable g") auto
  then have "bind_io (do_command env line) (\<lambda>_. run_lines env no_prompt more)
      = bind_io (do_command env line) (\<lambda>_. run_commands env no_prompt [])"
    by (rule bind_stops)
  then show ?thesis using Cons by (simp only: session_end_def list.case run_lines.simps run_commands.simps)
qed (simp add: session_end_def)

lemma open_not_quit:
  assumes "de_strsplit env (''open '' @ t) = ''open'' # args"
  shows "\<not> is_quit env (''open '' @ t)"
proof -
  have "crunch_strsplit (''open'' # args) = ''open'' # crunched args"
    using crunch_loop_eq [of 0 "''open'' # args" 0] by (simp add: crunch_strsplit_def crunched_Cons)
  moreover have "find_command ''open'' \<noteq> Some Quit"
    by (simp add: find_command_def commands_def)
  ultimately show ?thesis using assms by (simp add: is_quit_def)
qed

lemma start_ends:
  assumes "\<forall>t. \<exists>args. de_strsplit env (''open '' @ t) = ''open'' # args"
  shows "ends S (session_start env decimal_text opts g)"
proof -
  have not_quit: "\<not> is_quit env (''open '' @ t)" for t
    using open_not_quit assms by blast
  show ?thesis unfolding session_start_def
    by (intro ends_bind ends_option(2) ends_if(2) ends_base ends_command)
      (auto simp: print_version_def not_quit [simplified] intro: ends_ops)
qed

text \<open>
  C39. How a session ends. Nothing after the first \<^verbatim>\<open>quit\<close> among the lines is run. When the commands
  before it return, the process leaves with the exit code 0 at the \<^verbatim>\<open>quit\<close>, or with the code 1 at the
  end of the input when there is none, and closes the device before; only an error of
  closing it is undefined, a null pointer. No error of the library and no other command ends
  the process: a session that does not come to its end is undefined in one of the commands. Of
  \<^verbatim>\<open>g_strsplit\<close> this uses that a line starting with \<^verbatim>\<open>open\<close> and a blank gives the argument \<^verbatim>\<open>open\<close> first.
\<close>

theorem session_ends:
  assumes "o_one_cmd opts = None"
    and "\<forall>t. \<exists>args. de_strsplit env (''open '' @ t) = ''open'' # args"
    and "(case o_cmd_file opts of None \<Rightarrow> Inr (map (typed_line env) typed)
      | Some f \<Rightarrow> map_sum id (file_lines env) (files f)) = Inr lines"
    and "bind_io (session_start env decimal_text opts)
        (\<lambda>_. run_commands env (o_no_prompt opts) (takeWhile (\<lambda>l. \<not> is_quit env l) lines)) g = (r, g1)"
    and "debugfs_main env decimal_text files typed argv0 opts g = (r', g')"
  shows "case r of
      Inl e \<Rightarrow> e = C_UNDEFINED \<and> r' = Inl C_UNDEFINED \<and> g' = g1
    | Inr _ \<Rightarrow> (r', g') = session_end env (o_no_prompt opts) (dropWhile (\<lambda>l. \<not> is_quit env l) lines) g1
      \<and> (if closable g1
         then r' = Inl EXIT \<and> g_exit g' = Some (if \<exists>l \<in> set lines. is_quit env l then 0 else 1)
           \<and> (g_fs g1 \<noteq> None \<longrightarrow> g_device g' = None)
         else r' = Inl C_UNDEFINED)"
proof -
  let ?pre = "takeWhile (\<lambda>l. \<not> is_quit env l) lines" and ?rest = "dropWhile (\<lambda>l. \<not> is_quit env l) lines"
  let ?np = "o_no_prompt opts"
  have main: "debugfs_main env decimal_text files typed argv0 opts = bind_io (bind_io (session_start env decimal_text opts)
      (\<lambda>_. run_commands env ?np ?pre)) (\<lambda>_. run_lines env ?np ?rest)"
    using assms(1,3) run_lines_split [of env ?np ?pre ?rest]
    by (simp add: debugfs_main_def session_start_def bind_io_assoc)
  have first: "\<forall>line \<in> set (take 1 ?rest). is_quit env line"
    by (rule first_dropped)
  have quits: "?rest = [] \<longleftrightarrow> \<not> (\<exists>l \<in> set lines. is_quit env l)" by (simp add: dropWhile_eq_Nil_conv)
  show ?thesis
  proof (cases r)
    case (Inl e)
    have "ends {} (bind_io (session_start env decimal_text opts) (\<lambda>_. run_commands env ?np ?pre) g)"
      by (intro ends_bind start_ends assms(2) ends_commands_run) (auto dest: set_takeWhileD)
    then have e: "e = C_UNDEFINED" using assms(4) Inl by (simp add: ends_def)
    have "r' = Inl C_UNDEFINED \<and> g' = g1"
      using assms(4,5) unfolding e Inl main bind_io_def [of "bind_io _ _"] by simp
    then show ?thesis by (simp only: Inl e sum.case simp_thms)
  next
    case (Inr u)
    have run: "(r', g') = session_end env ?np ?rest g1"
      using assms(4,5) Inr session_stops [OF first] by (simp add: main bind_io_def [of "bind_io _ _"])
    obtain g2 where g2: "session_end env ?np ?rest g1 = (if closable g1 then Inl EXIT else Inl C_UNDEFINED, g2)"
      "closable g1 \<longrightarrow> g_exit g2 = Some (if ?rest = [] then 1 else 0) \<and> (g_fs g1 \<noteq> None \<longrightarrow> g_device g2 = None)"
      using session_end_cases [OF first] by blast
    have "r' = (if closable g1 then Inl EXIT else Inl C_UNDEFINED)" "g' = g2" using run g2(1) by simp_all
    then show ?thesis using g2 run Inr quits by (cases "closable g1") simp_all
  qed
qed

definition demo_console :: "string list \<Rightarrow> (errcode + unit) \<times> dbgfs_gbls" where
  "demo_console typed = debugfs_main demo_env (\<lambda>_. ''1'') (\<lambda>_. Inl 2) typed ''debugfs.cmfs''
     (demo_opts\<lparr>o_device := None\<rparr>) (zero_gbls (\<lambda>_. fs_io demo_fs) demo_opts)"

text \<open>The line after the \<^verbatim>\<open>quit\<close> is not run.\<close>

theorem session_ends_witness:
  "fst (demo_console [''curdev'', ''quit'', ''ls /'']) = Inl EXIT
    \<and> g_exit (snd (demo_console [''curdev'', ''quit'', ''ls /''])) = Some 0
    \<and> fst (demo_console [''curdev'']) = Inl EXIT \<and> g_exit (snd (demo_console [''curdev''])) = Some 1"
proof -
  let ?opts = "demo_opts\<lparr>o_device := None\<rparr>" and ?g = "zero_gbls (\<lambda>_. fs_io demo_fs) demo_opts"
  have words: "crunch_strsplit [''curdev''] = [''curdev'']" "crunch_strsplit [''quit''] = [''quit'']"
    using crunch_loop_eq [of 0 "[''curdev'']" 0] crunch_loop_eq [of 0 "[''quit'']" 0]
    by (simp_all add: crunch_strsplit_def crunched_def)
  have quit: "\<not> is_quit demo_env ''curdev''" "is_quit demo_env ''quit''"
    by (simp_all add: is_quit_def demo_env_def words find_command_def commands_def)
  have opts: "o_one_cmd ?opts = None" "o_no_prompt ?opts = False" by (simp_all add: demo_opts_def)
  have lines: "(case o_cmd_file ?opts of None \<Rightarrow> Inr (map (typed_line demo_env) typed)
      | Some f \<Rightarrow> map_sum id (file_lines demo_env) (Inl 2)) = Inr typed"
    if "\<forall>t \<in> set typed. take 1 t \<noteq> '' ''" for typed
  proof -
    have "dropWhile (\<lambda>c. c = CHR '' '') t = t" if "take 1 t \<noteq> '' ''" for t :: string
      using that by (cases t) auto
    then have "map (typed_line demo_env) typed = typed"
      using that by (intro map_idI) (simp add: typed_line_def demo_env_def)
    then show ?thesis by (simp add: demo_opts_def)
  qed
  have open_first: "\<forall>t. \<exists>args. de_strsplit demo_env (''open '' @ t) = ''open'' # args"
    by (simp add: demo_env_def)
  have "\<exists>g1. bind_io (session_start demo_env (\<lambda>_. ''1'') ?opts) (\<lambda>_. run_commands demo_env False [''curdev'']) ?g
      = (Inr (), g1) \<and> g_device g1 = None"
    by (simp add: session_start_def demo_opts_def print_version_def eprintf_def printf_def say_def io_simps
        do_command_def demo_env_def words find_command_def commands_def cmd_func_def do_curdev_def zero_gbls_def)
  then obtain g1 where g1: "bind_io (session_start demo_env (\<lambda>_. ''1'') ?opts)
      (\<lambda>_. run_commands demo_env False [''curdev'']) ?g = (Inr (), g1)" "closable g1"
    by (auto simp: closable_def)
  have ends: "fst (demo_console typed) = Inl EXIT
      \<and> g_exit (snd (demo_console typed)) = Some (if \<exists>l \<in> set typed. is_quit demo_env l then 0 else 1)"
    if t: "takeWhile (\<lambda>l. \<not> is_quit demo_env l) typed = [''curdev'']" "\<forall>t \<in> set typed. take 1 t \<noteq> '' ''" for typed
  proof -
    have run: "bind_io (session_start demo_env (\<lambda>_. ''1'') ?opts) (\<lambda>_. run_commands demo_env (o_no_prompt ?opts)
        (takeWhile (\<lambda>l. \<not> is_quit demo_env l) typed)) ?g = (Inr (), g1)"
      using g1(1) by (simp only: t(1) opts(2))
    have "debugfs_main demo_env (\<lambda>_. ''1'') (\<lambda>_. Inl 2) typed ''debugfs.cmfs'' ?opts ?g
        = (fst (demo_console typed), snd (demo_console typed))" by (simp add: demo_console_def)
    from session_ends [OF opts(1) open_first lines [OF t(2)] run this] g1(2)
    have "fst (demo_console typed) = Inl EXIT
        \<and> g_exit (snd (demo_console typed)) = Some (if \<exists>l \<in> set typed. is_quit demo_env l then 0 else 1)"
      by (simp only: sum.case if_True)
    then show ?thesis .
  qed
  show ?thesis using ends [of "[''curdev'', ''quit'', ''ls /'']"] ends [of "[''curdev'']"] quit by simp
qed

end
