(* ===== verification/Dir_entries.thy ===== *)
theory Dir_entries
  imports Directory
begin

text \<open>
  The entries of a directory block as a list, and what the walk of \<^verbatim>\<open>libcmfs/dir_iterate.c\<close>
  does on a block that is made of entries without a gap.
\<close>

section \<open>The entries of a block\<close>

text \<open>
  The offsets of the entries from \<open>p\<close> to \<open>bs\<close>; \<open>None\<close> when one of them does not fit.
\<close>

function dirents :: "bool \<Rightarrow> bytes \<Rightarrow> nat \<Rightarrow> nat \<Rightarrow> nat list option" where
  "dirents le buf bs p =
     (if p < bs then
        let rl = de_rec_len le buf p
        in if p + rl > bs \<or> rl < 12 \<or> rl mod 4 \<noteq> 0 \<or> de_name_len buf p + 12 > rl then None
           else map_option ((#) p) (dirents le buf bs (p + rl))
      else Some [])"
  by pat_completeness auto
termination by (relation "measure (\<lambda>(le, buf, bs, p). bs - p)") auto

declare dirents.simps [simp del]

definition entry_name :: "bytes \<Rightarrow> nat \<Rightarrow> bytes" where
  "entry_name buf p = take (de_name_len buf p) (drop (p + o_d_name) buf)"

definition entry_inode :: "bool \<Rightarrow> bytes \<Rightarrow> nat \<Rightarrow> u64" where
  "entry_inode le buf p = ld64 le buf (p + o_d_inode)"

definition live :: "bool \<Rightarrow> bytes \<Rightarrow> nat list \<Rightarrow> nat list" where
  "live le buf ps = filter (\<lambda>p. entry_inode le buf p \<noteq> 0) ps"

text \<open>The names and inodes of the entries that are in use.\<close>

definition listing :: "bool \<Rightarrow> bytes \<Rightarrow> nat list \<Rightarrow> (bytes \<times> u64) list" where
  "listing le buf ps = map (\<lambda>p. (entry_name buf p, entry_inode le buf p)) (live le buf ps)"

definition block_listing :: "bool \<Rightarrow> nat \<Rightarrow> bytes \<Rightarrow> (bytes \<times> u64) list option" where
  "block_listing le bs buf = map_option (listing le buf) (dirents le buf bs 0)"

lemma dirents_cases [consumes 1, case_names stop entry]:
  assumes "dirents le buf bs p = Some ps"
  obtains "bs \<le> p" and "ps = []"
  | ps' where "ps = p # ps'" and "p < bs" and "p + de_rec_len le buf p \<le> bs"
      and "12 \<le> de_rec_len le buf p" and "de_rec_len le buf p mod 4 = 0"
      and "de_name_len buf p + 12 \<le> de_rec_len le buf p"
      and "dirents le buf bs (p + de_rec_len le buf p) = Some ps'"
  using assms by (subst (asm) dirents.simps) (auto simp: Let_def not_less not_le split: if_splits)

lemma dirents_induct [consumes 1, case_names stop entry]:
  assumes "dirents le buf bs p = Some ps"
    and "\<And>p. bs \<le> p \<Longrightarrow> P p []"
    and "\<And>p ps. p < bs \<Longrightarrow> p + de_rec_len le buf p \<le> bs \<Longrightarrow> 12 \<le> de_rec_len le buf p \<Longrightarrow>
      de_rec_len le buf p mod 4 = 0 \<Longrightarrow> de_name_len buf p + 12 \<le> de_rec_len le buf p \<Longrightarrow>
      dirents le buf bs (p + de_rec_len le buf p) = Some ps \<Longrightarrow> P (p + de_rec_len le buf p) ps \<Longrightarrow> P p (p # ps)"
  shows "P p ps"
  using assms(1)
proof (induction "bs - p" arbitrary: p ps rule: less_induct)
  case less
  from less.prems show ?case
  proof (cases rule: dirents_cases)
    case stop
    then show ?thesis using assms(2) by simp
  next
    case (entry ps')
    have "p < p + de_rec_len le buf p" using entry(4) by simp
    then have "bs - (p + de_rec_len le buf p) < bs - p" using entry(2) by (rule diff_less_mono2)
    then have "P (p + de_rec_len le buf p) ps'" using entry(7) by (rule less.hyps)
    then show ?thesis unfolding entry(1) using entry(2-7) by (intro assms(3))
  qed
qed

lemma dirents_bounds:
  assumes "dirents le buf bs p = Some ps"
  shows "\<forall>q \<in> set ps. p \<le> q \<and> q + 12 + de_name_len buf q \<le> bs"
  using assms
proof (induction rule: dirents_induct)
  case (entry p ps)
  then show ?case by force
qed simp

section \<open>The check when a block is read\<close>

lemma swap_dir_loop_ok:
  assumes "dirents True buf bs p = Some ps"
  shows "swap_dir_loop True True bs p None buf = (None, buf)"
  using assms
proof (induction rule: dirents_induct)
  case (stop p)
  then show ?case by (subst swap_dir_loop.simps) simp
next
  case (entry p ps)
  then show ?case
    by (subst swap_dir_loop.simps) (simp add: cmfs_swap_dir_entry_def Let_def)
qed

section \<open>The walk\<close>

text \<open>
  The visits of a callback that leaves the block alone, until it asks to stop; the result says
  whether it did.
\<close>

fun walk_all :: "(nat \<Rightarrow> 'q \<Rightarrow> u32 \<times> 'q) \<Rightarrow> nat list \<Rightarrow> 'q \<Rightarrow> bool \<times> 'q" where
  "walk_all g [] q = (False, q)"
| "walk_all g (p # ps) q =
     (case g p q of (ret, q) \<Rightarrow> if ret AND CMFS_DIRENT_ABORT \<noteq> 0 then (True, q) else walk_all g ps q)"

definition only_reads :: "'q dirent_func \<Rightarrow> bytes \<Rightarrow> u64 \<Rightarrow> (nat \<Rightarrow> 'q \<Rightarrow> u32 \<times> 'q) \<Rightarrow> nat set \<Rightarrow> bool" where
  "only_reads func buf k g A \<longleftrightarrow>
     (\<forall>e q. \<forall>p \<in> A. func e buf p k q = (fst (g p q), buf, snd (g p q)) \<and> fst (g p q) AND CMFS_DIRENT_CHANGED = 0)"

lemma next_entry_plain:
  obtains w' where "next_entry le 0 buf w = Some w'" and "w_offset w' = w_offset w + de_rec_len le buf (w_offset w)"
    and "w_abort w' = w_abort w" and "w_changed w' = w_changed w"
  by (rule that [of "(if w_next_real_entry w = w_offset w
      then w\<lparr>w_next_real_entry := w_offset w + de_rec_len le buf (w_offset w)\<rparr> else w)
      \<lparr>w_offset := w_offset w + de_rec_len le buf (w_offset w)\<rparr>"]) (simp_all add: next_entry_def Let_def)

lemma process_entries_walk:
  assumes "dirents le buf bs p = Some ps" and "bs \<le> length buf" and "only_reads func buf k g A"
    and "set ps \<subseteq> A" and "w_offset w = p" and "\<not> w_abort w" and "\<not> w_changed w"
  shows "\<exists>w'. process_entries le bs 0 func k w buf q = (Done, w', buf, snd (walk_all g (live le buf ps) q))
    \<and> w_abort w' = fst (walk_all g (live le buf ps) q) \<and> \<not> w_changed w'"
  using assms(1,4-7)
proof (induction arbitrary: w q rule: dirents_induct)
  case (stop p)
  then show ?case by (subst process_entries.simps) (simp add: Let_def live_def)
next
  case (entry p ps)
  note read = assms(3) [unfolded only_reads_def, rule_format]
  have ok: "\<not> w_offset w + DIRENT_HEADER_SIZE > length buf"
    "\<not> (w_offset w + de_rec_len le buf (w_offset w) > bs \<or> \<not> rec_len_ok le buf (w_offset w))"
    using entry.hyps entry.prems(2) assms(2) by (auto simp: rec_len_ok_def)
  obtain w1 q1 where v: "visit_entry le 0 func k w buf q = (w1, buf, q1)" "w_offset w1 = p" "\<not> w_changed w1"
    and abort: "w_abort w1 = (entry_inode le buf p \<noteq> 0 \<and> fst (g p q) AND CMFS_DIRENT_ABORT \<noteq> 0)"
    and q1: "q1 = (if entry_inode le buf p = 0 then q else snd (g p q))"
    using read [of p _ q] entry.prems
    by (cases "entry_inode le buf p = 0") (auto simp: visit_entry_def Let_def entry_inode_def)
  show ?case
  proof (cases "w_abort w1")
    case True
    then show ?thesis using v abort q1 ok entry.hyps(1) entry.prems(2)
      by (subst process_entries.simps) (auto simp: Let_def live_def split: prod.splits)
  next
    case False
    obtain w2 where w2: "next_entry le 0 buf w1 = Some w2" "w_offset w2 = p + de_rec_len le buf p"
      "\<not> w_abort w2" "\<not> w_changed w2"
      using next_entry_plain [of le buf w1] v False by metis
    have step: "process_entries le bs 0 func k w buf q = process_entries le bs 0 func k w2 buf q1"
      using v(1) w2(1) False ok entry.hyps(1) entry.prems(2) by (subst process_entries.simps) (simp add: Let_def)
    have "walk_all g (live le buf (p # ps)) q = walk_all g (live le buf ps) q1"
      using abort q1 False by (auto simp: live_def split: prod.split)
    then show ?thesis using entry.IH [OF _ w2(2-4)] entry.prems(1) step by simp
  qed
qed

section \<open>Looking up a name\<close>

lemma strncmp_take:
  assumes "0 \<notin> set (take n xs)" and "n \<le> length xs" and "n \<le> length ys"
  shows "strncmp_eq xs ys n \<longleftrightarrow> take n xs = take n ys"
  using assms
proof (induction n arbitrary: xs ys)
  case (Suc n)
  then obtain x xs' y ys' where "xs = x # xs'" "ys = y # ys'" by (meson Suc_le_length_iff)
  then show ?case using Suc by auto
qed simp

text \<open>The search of \<^verbatim>\<open>lookup_proc\<close> in the entries of a block is that of the first pair with the name.\<close>

definition lookup_step :: "bytes \<Rightarrow> bytes \<Rightarrow> nat \<Rightarrow> lookup_struct cb_state \<Rightarrow> u32 \<times> lookup_struct cb_state" where
  "lookup_step nm buf p s = (if entry_name buf p = nm then
      (CMFS_DIRENT_ABORT, (fst s, (snd s)\<lparr> ls_inode := Some (entry_inode (cpu_le (fst s)) buf p),
                                           ls_found := ls_found (snd s) + 1 \<rparr>))
    else (0, s))"

lemma lookup_proc_eq:
  assumes "0 \<notin> set nm" and "take (length nm) name = nm" and "p + 12 + de_name_len buf p \<le> length buf"
  shows "xlate_func (lookup_proc name (int (length nm))) e buf p k s
    = (fst (lookup_step nm buf p s), buf, snd (lookup_step nm buf p s))"
proof (cases "length nm = de_name_len buf p")
  case True
  have len: "length nm \<le> length name" using arg_cong [OF assms(2), of length] by (simp add: min_def split: if_splits)
  have "strncmp_eq name (drop (p + o_d_name) buf) (length nm) \<longleftrightarrow> nm = take (length nm) (drop (p + o_d_name) buf)"
    using strncmp_take [of "length nm" name "drop (p + o_d_name) buf"] assms True len by simp
  then show ?thesis using True
    by (auto simp: xlate_func_def lookup_proc_def lookup_step_def entry_name_def entry_inode_def split: prod.split)
next
  case False
  then have "entry_name buf p \<noteq> nm" using assms(3) by (auto simp: entry_name_def)
  moreover have "int (length nm) \<noteq> int (de_name_len buf p)" using False by (simp del: of_nat_unat)
  ultimately show ?thesis
    by (auto simp: xlate_func_def lookup_proc_def lookup_step_def split: prod.split)
qed

lemma walk_lookup:
  "walk_all (lookup_step nm buf) (live le buf ps) (fs, ls) =
    (case map_of (listing le buf ps) nm of
       None \<Rightarrow> (False, (fs, ls))
     | Some ino \<Rightarrow> (True, (fs, ls\<lparr> ls_inode := Some ino, ls_found := ls_found ls + 1 \<rparr>)))"
  if "cpu_le fs = le"
  using that by (induction ps) (auto simp: live_def listing_def lookup_step_def)

lemma process_dir_entry_lookup:
  assumes "dirents (cpu_le fs) (ds_buf ds) (bsize fs) 0 = Some ps" and "bsize fs \<le> length (ds_buf ds)"
    and "0 \<notin> set nm" and "take (length nm) name = nm"
  shows "cmfs_process_dir_entry 0 (xlate_func (lookup_proc name (int (length nm)))) k 0 entry (fs, ds) =
    (case map_of (listing (cpu_le fs) (ds_buf ds) ps) nm of
       None \<Rightarrow> (Inr (0, False, False), (fs, ds))
     | Some ino \<Rightarrow> (Inr (0, False, True), (fs, ds\<lparr> ds_priv := (ds_priv ds)\<lparr> ls_inode := Some ino,
         ls_found := ls_found (ds_priv ds) + 1 \<rparr> \<rparr>)))"
proof -
  let ?le = "cpu_le fs" and ?buf = "ds_buf ds" and ?func = "xlate_func (lookup_proc name (int (length nm)))"
  let ?w = "\<lparr> w_offset = 0, w_entry = entry, w_next_real_entry = 0, w_changed = False, w_abort = False \<rparr>"
  have "only_reads ?func ?buf k (lookup_step nm ?buf) (set ps)"
    using lookup_proc_eq [OF assms(3,4)] dirents_bounds [OF assms(1)] assms(2)
    by (fastforce simp: only_reads_def lookup_step_def)
  from process_entries_walk [OF assms(1,2) this subset_refl, of ?w "(fs, ds_priv ds)"]
  show ?thesis
    by (auto simp: cmfs_process_dir_entry_def Let_def walk_lookup split: option.splits)
qed

end
