(* ===== verification/Mkfs_directory.thy ===== *)
theory Mkfs_directory
  imports Mkfs_dir Dir_entries Buffers
begin

text \<open>
  What \<^verbatim>\<open>add_entry_to_directory\<close> of \<^verbatim>\<open>mkfs.cmfs/mkfs.c\<close> keeps of the buffer of a directory: every
  block is made of entries without a gap, and an added entry comes after those that were there.
\<close>

section \<open>Buffers that agree on a range\<close>

definition agree :: "nat \<Rightarrow> nat \<Rightarrow> bytes \<Rightarrow> bytes \<Rightarrow> bool" where
  "agree a e buf buf' \<longleftrightarrow> e \<le> length buf \<and> e \<le> length buf'
     \<and> (\<forall>off n. a \<le> off \<and> off + n \<le> e \<longrightarrow> field n off buf' = field n off buf)"

lemma agreeD: "agree a e buf buf' \<Longrightarrow> a \<le> off \<Longrightarrow> off + n \<le> e \<Longrightarrow> field n off buf' = field n off buf"
  by (simp add: agree_def)

lemma agree_mono: "agree a e buf buf' \<Longrightarrow> a \<le> a' \<Longrightarrow> e' \<le> e \<Longrightarrow> agree a' e' buf buf'"
  by (auto simp: agree_def)

lemma agree_trans: "agree a e buf buf1 \<Longrightarrow> agree a e buf1 buf2 \<Longrightarrow> agree a e buf buf2"
  by (simp add: agree_def)

lemma agree_refl: "e \<le> length buf \<Longrightarrow> agree a e buf buf"
  by (simp add: agree_def)

lemma agree_put: "off + length bs \<le> length buf \<Longrightarrow> e \<le> off \<Longrightarrow> agree a e buf (put off bs buf)"
  by (simp add: agree_def field_put_other)

lemma agree_ld:
  assumes "agree a e buf buf'" and "a \<le> off"
  shows "off < e \<Longrightarrow> ld8 buf' off = ld8 buf off" and "off + 2 \<le> e \<Longrightarrow> ld16 le buf' off = ld16 le buf off"
    and "off + 8 \<le> e \<Longrightarrow> ld64 le buf' off = ld64 le buf off"
proof -
  have byte: "b ! off = hd (field 1 off b)" if "off < e" "e \<le> length b" for b
    using that by (simp add: field_def hd_conv_nth)
  have "ld8 buf' off = ld8 buf off" if "off < e"
    using agreeD [OF assms, of 1] that assms(1) byte [OF that, of buf] byte [OF that, of buf']
    by (simp add: ld8_def agree_def)
  then show "off < e \<Longrightarrow> ld8 buf' off = ld8 buf off" .
  show "off + 2 \<le> e \<Longrightarrow> ld16 le buf' off = ld16 le buf off" "off + 8 \<le> e \<Longrightarrow> ld64 le buf' off = ld64 le buf off"
    using agreeD [OF assms] by (simp_all add: ld16_def ld64_def ld_def)
qed

lemma agree_entry:
  assumes "agree a e buf buf'" and "a \<le> p" and "p + 12 \<le> e"
  shows "de_rec_len le buf' p = de_rec_len le buf p" and "de_name_len buf' p = de_name_len buf p"
    and "entry_inode le buf' p = entry_inode le buf p"
    and "p + 12 + de_name_len buf p \<le> e \<Longrightarrow> entry_name buf' p = entry_name buf p"
  using assms agreeD [OF assms(1), of "p + o_d_name" "de_name_len buf p"]
  by (simp_all add: agree_ld [OF assms(1)] entry_inode_def entry_name_def field_def [symmetric])

lemma listing_simps:
  "listing le buf [] = []"
  "listing le buf (p # ps) = (if entry_inode le buf p = 0 then [] else [(entry_name buf p, entry_inode le buf p)]) @ listing le buf ps"
  "listing le buf (ps @ qs) = listing le buf ps @ listing le buf qs"
  by (simp_all add: listing_def live_def)

lemma dirents_ge: "dirents le buf e p = Some ps \<Longrightarrow> q \<in> set ps \<Longrightarrow> p \<le> q"
  using dirents_bounds by blast

text \<open>Entries up to the last one are read from the bytes before it.\<close>

lemma dirents_extend:
  assumes "dirents le buf e p = Some ps" and "ps \<noteq> []" and "agree a (last ps) buf buf'" and "a \<le> p"
    and "dirents le buf' e (last ps) = Some rs"
  shows "dirents le buf' e p = Some (butlast ps @ rs)
    \<and> listing le buf' (butlast ps @ rs) = listing le buf (butlast ps) @ listing le buf' rs"
  using assms
proof (induction rule: dirents_induct)
  case (entry p ps)
  show ?case
  proof (cases "ps = []")
    case True
    then show ?thesis using entry.prems by (simp add: listing_simps)
  next
    case False
    then have "p + de_rec_len le buf p \<le> last ps" by (intro dirents_ge [OF entry.hyps(6)]) simp
    then have "p + 12 + de_name_len buf p \<le> last ps" "p + 12 \<le> last ps" using entry.hyps(3,5) by simp_all
    note same = agree_entry [OF entry.prems(2) entry.prems(3), unfolded last_ConsR [OF False], OF this(2)] this(1)
    have "dirents le buf' e p = Some (p # butlast ps @ rs)"
      using entry False by (subst dirents.simps) (simp add: same Let_def)
    then show ?thesis using entry False same by (simp add: listing_simps)
  qed
qed simp

lemma dirents_agree:
  assumes "dirents le buf e p = Some ps" and "agree a e buf buf'" and "a \<le> p"
  shows "dirents le buf' e p = Some ps \<and> listing le buf' ps = listing le buf ps"
  using assms
proof (induction rule: dirents_induct)
  case (stop p)
  then show ?case by (subst dirents.simps) (simp add: listing_simps)
next
  case (entry p ps)
  then have "p + 12 + de_name_len buf p \<le> e" "p + 12 \<le> e" by simp_all
  note same = agree_entry [OF entry.prems this(2)] this(1)
  have "dirents le buf' e p = Some (p # ps)"
    using entry by (subst dirents.simps) (simp add: same Let_def)
  then show ?case using entry same by (simp add: listing_simps)
qed

lemma dirents_last:
  assumes "dirents le buf e p = Some ps" and "ps \<noteq> []"
  shows "dirents le buf e (last ps) = Some [last ps]"
  using assms
proof (induction rule: dirents_induct)
  case (entry p ps)
  then show ?case by (cases "ps = []") (auto intro: dirents.simps [THEN trans] simp: Let_def)
qed simp

lemma single_entry:
  "dirents le buf e p = Some [p] \<longleftrightarrow> p < e \<and> p + de_rec_len le buf p = e \<and> 12 \<le> de_rec_len le buf p
     \<and> de_rec_len le buf p mod 4 = 0 \<and> de_name_len buf p + 12 \<le> de_rec_len le buf p"
proof
  assume "dirents le buf e p = Some [p]"
  then show "p < e \<and> p + de_rec_len le buf p = e \<and> 12 \<le> de_rec_len le buf p
     \<and> de_rec_len le buf p mod 4 = 0 \<and> de_name_len buf p + 12 \<le> de_rec_len le buf p"
  proof (cases rule: dirents_cases)
    case (entry ps')
    from entry(7,1) have "e \<le> p + de_rec_len le buf p" by (cases rule: dirents_cases) simp_all
    then show ?thesis using entry by simp
  qed simp
next
  assume ok: "p < e \<and> p + de_rec_len le buf p = e \<and> 12 \<le> de_rec_len le buf p
     \<and> de_rec_len le buf p mod 4 = 0 \<and> de_name_len buf p + 12 \<le> de_rec_len le buf p"
  then have "dirents le buf e (p + de_rec_len le buf p) = Some []" by (subst dirents.simps) simp
  then show "dirents le buf e p = Some [p]" using ok by (subst dirents.simps) (simp add: Let_def)
qed

section \<open>Placing an entry\<close>

lemma rec_len_bounds: "n + 12 \<le> CMFS_DIR_REC_LEN n" "12 \<le> CMFS_DIR_REC_LEN n" "CMFS_DIR_REC_LEN n mod 4 = 0"
  by (simp_all add: CMFS_DIR_REC_LEN_def)

lemma fill_entry_single:
  assumes "p + de_rec_len le buf p = e" and "de_rec_len le buf p mod 4 = 0" and "e \<le> length buf"
    and "p + 12 + length name + 1 \<le> length buf" and "length name + 12 \<le> de_rec_len le buf p"
    and "length name < 256"
  shows "length (fill_entry le name k ty p buf) = length buf" and "agree 0 p buf (fill_entry le name k ty p buf)"
    and "dirents le (fill_entry le name k ty p buf) e p = Some [p]"
    and "listing le (fill_entry le name k ty p buf) [p] = (if k = 0 then [] else [(ascii name, k)])"
proof -
  let ?b1 = "st8 (p + o_d_name_len) (of_nat (length name)) buf"
  let ?b2 = "st64 le (p + o_d_inode) k ?b1"
  let ?b3 = "st8 (p + o_d_file_type) ty ?b2"
  let ?b4 = "put (p + o_d_name) (ascii name @ [0]) ?b3"
  have fill: "fill_entry le name k ty p buf = ?b4" by (simp add: fill_entry_def strcpy_at_def)
  have len: "length ?b1 = length buf" "length ?b2 = length buf" "length ?b3 = length buf" "length ?b4 = length buf"
    "length (ascii name @ [0]) = length name + 1"
    using assms(4) by (simp_all add: ascii_def)
  then show "length (fill_entry le name k ty p buf) = length buf" by (simp only: fill)
  have "agree 0 p buf ?b1" "agree 0 p ?b1 ?b2" "agree 0 p ?b2 ?b3" "agree 0 p ?b3 ?b4"
    using assms(4) len(1-3) by (simp_all add: stw_put agree_put ascii_def)
  then show "agree 0 p buf (fill_entry le name k ty p buf)" unfolding fill by (meson agree_trans)
  have nl: "unat (of_nat (length name) :: u8) = length name" using assms(6) by (simp add: unat_of_nat take_bit_nat_eq_self)
  have rl: "de_rec_len le ?b4 p = de_rec_len le buf p" and nm: "de_name_len ?b4 p = length name"
    using assms(4) by (simp_all add: buf_simps len(5) ascii_def nl)
  show "dirents le (fill_entry le name k ty p buf) e p = Some [p]"
    using assms(1,2,5) unfolding fill single_entry rl nm by simp
  have "entry_name ?b4 p = ascii name"
  proof -
    have "field (length name + 1) (p + o_d_name) ?b4 = ascii name @ [0]"
      using assms(4) len(3,5) by (intro field_put_same) (simp_all add: add.commute)
    then have "take (length name) (field (length name + 1) (p + o_d_name) ?b4) = ascii name" by (simp add: ascii_def)
    then show ?thesis unfolding entry_name_def nm by (simp add: field_def)
  qed
  moreover have "entry_inode le ?b4 p = k" using assms(4) by (simp add: entry_inode_def buf_simps ascii_def)
  ultimately show "listing le (fill_entry le name k ty p buf) [p] = (if k = 0 then [] else [(ascii name, k)])"
    unfolding fill by (simp add: listing_simps)
qed

text \<open>
  A place for an entry: a record at \<open>o1\<close> that ends the block, is long enough, and once it is
  filled follows the entries \<open>es\<close>.
\<close>

definition place_for :: "bool \<Rightarrow> bytes \<Rightarrow> nat \<Rightarrow> nat \<Rightarrow> (bytes \<times> u64) list \<Rightarrow> nat \<Rightarrow> nat \<Rightarrow> bool" where
  "place_for le buf e p es o1 nl \<longleftrightarrow> p \<le> o1 \<and> o1 + de_rec_len le buf o1 = e \<and> de_rec_len le buf o1 mod 4 = 0
     \<and> nl \<le> de_rec_len le buf o1
     \<and> (\<exists>qs. \<forall>buf'. agree 0 o1 buf buf' \<and> dirents le buf' e o1 = Some [o1] \<longrightarrow>
          dirents le buf' e p = Some (qs @ [o1]) \<and> listing le buf' qs = es)"

lemma fill_place:
  assumes "place_for le buf e p es o1 (CMFS_DIR_REC_LEN (length name))" and "e \<le> length buf"
    and "o1 + 12 + length name + 1 \<le> length buf" and "length name < 256"
  shows "length (fill_entry le name k ty o1 buf) = length buf" and "agree 0 p buf (fill_entry le name k ty o1 buf)"
    and "\<exists>qs. dirents le (fill_entry le name k ty o1 buf) e p = Some (qs @ [o1])
      \<and> listing le (fill_entry le name k ty o1 buf) (qs @ [o1]) = es @ (if k = 0 then [] else [(ascii name, k)])"
proof -
  note place = assms(1) [unfolded place_for_def]
  have "length name + 12 \<le> de_rec_len le buf o1" using place rec_len_bounds(1) [of "length name"] by simp
  note fill = fill_entry_single [OF _ _ assms(2,3) this assms(4), of k ty]
  show "length (fill_entry le name k ty o1 buf) = length buf" using place by (intro fill(1)) simp_all
  have before: "agree 0 o1 buf (fill_entry le name k ty o1 buf)" using place by (intro fill(2)) simp_all
  then show "agree 0 p buf (fill_entry le name k ty o1 buf)" using agree_mono place by blast
  have single: "dirents le (fill_entry le name k ty o1 buf) e o1 = Some [o1]" using place by (intro fill(3)) simp_all
  have new: "listing le (fill_entry le name k ty o1 buf) [o1] = (if k = 0 then [] else [(ascii name, k)])"
    using place by (intro fill(4)) simp_all
  from place before single obtain qs where "dirents le (fill_entry le name k ty o1 buf) e p = Some (qs @ [o1])"
    "listing le (fill_entry le name k ty o1 buf) qs = es" by blast
  then show "\<exists>qs. dirents le (fill_entry le name k ty o1 buf) e p = Some (qs @ [o1])
      \<and> listing le (fill_entry le name k ty o1 buf) (qs @ [o1]) = es @ (if k = 0 then [] else [(ascii name, k)])"
    using new by (auto simp: listing_simps(3))
qed

lemma reuse_or_split:
  assumes "dirents le buf e p = Some ps" and "ps \<noteq> []" and "e = length buf" and "12 \<le> nl" and "nl mod 4 = 0"
    and "place_in_last le nl (last ps) buf = Some (o1, buf1)"
  shows "length buf1 = length buf \<and> agree 0 p buf buf1 \<and> place_for le buf1 e p (listing le buf ps) o1 nl"
proof -
  let ?off = "last ps"
  let ?real = "CMFS_DIR_REC_LEN (de_name_len buf ?off)" and ?rl = "de_rec_len le buf ?off"
  have last: "dirents le buf e ?off = Some [?off]" by (rule dirents_last [OF assms(1,2)])
  note off = last [unfolded single_entry]
  have pp: "p \<le> ?off" using dirents_ge [OF assms(1)] assms(2) by simp
  have "listing le buf (butlast ps @ [?off]) = listing le buf (butlast ps) @ listing le buf [?off]"
    by (rule listing_simps(3))
  then have split_ps: "listing le buf ps = listing le buf (butlast ps) @ listing le buf [?off]"
    using assms(2) by simp
  show ?thesis
  proof (cases "entry_inode le buf ?off = 0")
    case True
    then have eqs: "o1 = ?off" "buf1 = buf" "nl \<le> ?rl"
      using assms(6) rec_len_bounds(2) [of "de_name_len buf ?off"]
      by (auto simp: place_in_last_def Let_def entry_inode_def split: if_splits)
    have "dirents le buf' e p = Some (butlast ps @ [o1]) \<and> listing le buf' (butlast ps) = listing le buf ps"
      if "agree 0 o1 buf buf'" "dirents le buf' e o1 = Some [o1]" for buf'
    proof -
      have "agree 0 ?off buf buf'" using that(1) eqs(1) by simp
      from dirents_extend [OF assms(1,2) this _ that(2) [unfolded eqs(1)]] show ?thesis
        using split_ps True eqs(1) by (simp add: listing_simps)
    qed
    then show ?thesis using eqs off pp assms(3) unfolding place_for_def by (auto simp: agree_refl)
  next
    case False
    then have o1: "o1 = ?off + ?real" and long: "?real + nl \<le> ?rl"
      and buf1: "buf1 = st16 le (?off + o_d_rec_len) (of_nat ?real)
        (st16 le (o1 + o_d_rec_len) (of_nat ?rl - of_nat ?real) buf)"
      using assms(6) by (auto simp: place_in_last_def Let_def entry_inode_def add.assoc split: if_splits)
    have small: "?real < 65536" "?rl < 65536" using long unat_u16_less [of "ld16 le buf (?off + o_d_rec_len)"] by simp_all
    have real: "unat (of_nat ?real :: u16) = ?real" using small(1) by (intro unat_of_nat_u16) simp
    have rest: "unat (of_nat ?rl - of_nat ?real :: u16) = ?rl - ?real"
    proof -
      have "(of_nat ?rl - of_nat ?real :: u16) = of_nat (?rl - ?real)" using long by (simp del: of_nat_unat)
      also have "unat \<dots> = ?rl - ?real" using small(2) by (intro unat_of_nat_u16) simp
      finally show ?thesis .
    qed
    have real12: "12 \<le> ?real" "?real mod 4 = 0" "de_name_len buf ?off + 12 \<le> ?real"
      by (simp_all add: rec_len_bounds)
    have room: "?off + ?real + 12 \<le> length buf" using off assms(3,4) long by simp
    let ?b = "st16 le (o1 + o_d_rec_len) (of_nat ?rl - of_nat ?real) buf"
    have b: "length ?b = length buf" "agree 0 ?off buf ?b"
      using room o1 by (simp_all add: stw_put agree_put)
    have len: "length buf1 = length buf" using room b by (simp add: buf1)
    have "agree 0 ?off ?b buf1" unfolding buf1 using room b(1) by (subst stw_put(2)) (rule agree_put; simp)
    then have before: "agree 0 ?off buf buf1" by (rule agree_trans [OF b(2)])
    have e1: "de_rec_len le buf1 ?off = ?real" "de_rec_len le buf1 o1 = ?rl - ?real"
      using room real12 real rest b(1) unfolding buf1 o1 by (simp_all add: buf_simps)
    have e2: "de_name_len buf1 ?off = de_name_len buf ?off" "entry_inode le buf1 ?off = entry_inode le buf ?off"
      using room real12 b(1) unfolding buf1 o1 entry_inode_def by (simp_all add: buf_simps)
    have e3: "entry_name buf1 ?off = entry_name buf ?off"
    proof -
      have "field (de_name_len buf ?off) (?off + o_d_name) buf1 = field (de_name_len buf ?off) (?off + o_d_name) buf"
        using room real12(3) b(1) unfolding buf1 o1 by (simp add: buf_simps)
      then show ?thesis by (simp only: entry_name_def e2 field_def)
    qed
    have "dirents le buf' e p = Some ((butlast ps @ [?off]) @ [o1])
        \<and> listing le buf' (butlast ps @ [?off]) = listing le buf ps"
      if a: "agree 0 o1 buf1 buf'" and d: "dirents le buf' e o1 = Some [o1]" for buf'
    proof -
      have "?off + 12 + de_name_len buf1 ?off \<le> o1" "?off + 12 \<le> o1" using o1 real12(1,3) e2(1) by simp_all
      note same = agree_entry(1,3) [OF a le0 this(2), of le, unfolded e1 e2] agree_entry(2) [OF a le0 this(2), unfolded e2]
        agree_entry(4) [OF a le0 this(2,1), unfolded e3]
      have rs: "dirents le buf' e ?off = Some [?off, o1]"
        using off real12 long assms(4) d o1 by (subst dirents.simps) (simp add: same Let_def)
      have "agree 0 ?off buf buf'" using agree_trans [OF before agree_mono [OF a le0]] o1 by simp
      from dirents_extend [OF assms(1,2) this le0 rs] show ?thesis using split_ps same
        by (simp add: listing_simps)
    qed
    then show ?thesis using len before agree_mono [OF before le0 pp] pp o1 off long e1(2) real12(2)
      unfolding place_for_def by (intro conjI exI [of _ "butlast ps @ [?off]"]) (auto simp: mod_diff_left_eq)
  qed
qed

section \<open>The buffer of a directory\<close>

text \<open>The entries of block \<open>k\<close>, the contents of the first \<open>n\<close> blocks and those of the buffer.\<close>

definition block_entries :: "bool \<Rightarrow> nat \<Rightarrow> bytes \<Rightarrow> nat \<Rightarrow> nat list option" where
  "block_entries le bs buf k = dirents le buf (Suc k * bs) (k * bs)"

definition contents_upto :: "bool \<Rightarrow> nat \<Rightarrow> nat \<Rightarrow> bytes \<Rightarrow> (bytes \<times> u64) list" where
  "contents_upto le bs n buf = concat (map (\<lambda>k. listing le buf (the (block_entries le bs buf k))) [0..<n])"

definition dir_contents :: "bool \<Rightarrow> nat \<Rightarrow> bytes \<Rightarrow> (bytes \<times> u64) list" where
  "dir_contents le bs buf = contents_upto le bs (length buf div bs) buf"

definition well_formed :: "bool \<Rightarrow> nat \<Rightarrow> bytes \<Rightarrow> nat \<Rightarrow> bool" where
  "well_formed le bs buf off \<longleftrightarrow>
     (let n = length buf div bs
      in 0 < n \<and> length buf = n * bs \<and> (\<forall>k < n. block_entries le bs buf k \<noteq> None)
         \<and> (\<exists>ps. block_entries le bs buf (n - 1) = Some (ps @ [off])))"

lemma contents_agree:
  assumes "agree 0 (n * bs) buf buf'" and "\<forall>k < n. block_entries le bs buf k \<noteq> None"
  shows "contents_upto le bs n buf' = contents_upto le bs n buf"
    and "\<forall>k < n. block_entries le bs buf' k \<noteq> None"
proof -
  have same: "block_entries le bs buf' k = block_entries le bs buf k
      \<and> listing le buf' (the (block_entries le bs buf' k)) = listing le buf (the (block_entries le bs buf k))"
    if "k < n" for k
  proof -
    obtain ps where ps: "dirents le buf (Suc k * bs) (k * bs) = Some ps"
      using assms(2) \<open>k < n\<close> by (auto simp: block_entries_def)
    have "Suc k * bs \<le> n * bs" by (rule mult_le_mono1) (use that in simp)
    then have "agree (k * bs) (Suc k * bs) buf buf'" by (rule agree_mono [OF assms(1) le0])
    from dirents_agree [OF ps this order_refl] show ?thesis unfolding block_entries_def ps by simp
  qed
  then show "\<forall>k < n. block_entries le bs buf' k \<noteq> None" using assms(2) by simp
  show "contents_upto le bs n buf' = contents_upto le bs n buf"
    unfolding contents_upto_def using same by (intro arg_cong [where f = concat] map_cong refl) fastforce
qed

lemma well_formedI:
  assumes "length buf = Suc n * bs" and "0 < bs" and "\<forall>k < n. block_entries le bs buf k \<noteq> None"
    and "block_entries le bs buf n = Some (ps @ [off])"
  shows "well_formed le bs buf off"
    and "dir_contents le bs buf = contents_upto le bs n buf @ listing le buf (ps @ [off])"
proof -
  have n: "length buf div bs = Suc n" using assms(1,2) by simp
  show "well_formed le bs buf off" unfolding well_formed_def Let_def n
    using assms(1,3,4) by (auto simp: less_Suc_eq)
  show "dir_contents le bs buf = contents_upto le bs n buf @ listing le buf (ps @ [off])"
    unfolding dir_contents_def n contents_upto_def using assms(4) by simp
qed

lemma well_formedE:
  assumes "well_formed le bs buf off"
  obtains n ps where "length buf = Suc n * bs" and "0 < bs" and "\<forall>k < n. block_entries le bs buf k \<noteq> None"
    and "block_entries le bs buf n = Some (ps @ [off])"
    and "dir_contents le bs buf = contents_upto le bs n buf @ listing le buf (ps @ [off])"
proof -
  obtain n where n: "length buf div bs = Suc n" using assms by (auto simp: well_formed_def Let_def gr0_conv_Suc)
  then have "0 < bs" by (cases bs) simp_all
  moreover obtain ps where "length buf = Suc n * bs" "\<forall>k < n. block_entries le bs buf k \<noteq> None"
    "block_entries le bs buf n = Some (ps @ [off])"
    using assms unfolding well_formed_def Let_def n by auto
  ultimately show ?thesis using that well_formedI(2) by blast
qed

text \<open>A buffer with a place for an entry after the contents \<open>es\<close>.\<close>

definition has_place :: "bool \<Rightarrow> nat \<Rightarrow> bytes \<Rightarrow> (bytes \<times> u64) list \<Rightarrow> nat \<Rightarrow> nat \<Rightarrow> bool" where
  "has_place le bs buf es o1 nl \<longleftrightarrow> (\<exists>n es'. length buf = Suc n * bs \<and> 0 < bs
     \<and> (\<forall>k < n. block_entries le bs buf k \<noteq> None) \<and> place_for le buf (Suc n * bs) (n * bs) es' o1 nl
     \<and> es = contents_upto le bs n buf @ es')"

lemma has_place_fill:
  assumes "has_place le bs buf es off (CMFS_DIR_REC_LEN (length name))"
    and "off + 12 + length name + 1 \<le> length buf" and "length name < 256"
  shows "length (fill_entry le name k ty off buf) = length buf"
    and "well_formed le bs (fill_entry le name k ty off buf) off"
    and "dir_contents le bs (fill_entry le name k ty off buf) = es @ (if k = 0 then [] else [(ascii name, k)])"
proof -
  let ?buf = "fill_entry le name k ty off buf"
  obtain n es' where n: "length buf = Suc n * bs" "0 < bs" "\<forall>k < n. block_entries le bs buf k \<noteq> None"
    and place: "place_for le buf (Suc n * bs) (n * bs) es' off (CMFS_DIR_REC_LEN (length name))"
    and es: "es = contents_upto le bs n buf @ es'"
    using assms(1) by (auto simp: has_place_def)
  have e: "Suc n * bs \<le> length buf" using n(1) by simp
  note fill = fill_place [OF place e assms(2,3), of k ty]
  show "length ?buf = length buf" by (rule fill(1))
  obtain qs where qs: "block_entries le bs ?buf n = Some (qs @ [off])"
    "listing le ?buf (qs @ [off]) = es' @ (if k = 0 then [] else [(ascii name, k)])"
    using fill(3) unfolding block_entries_def by blast
  note old = contents_agree [OF fill(2) n(3)]
  have len: "length ?buf = Suc n * bs" using fill(1) n(1) by simp
  show "well_formed le bs ?buf off" by (rule well_formedI(1) [OF len n(2) old(2) qs(1)])
  show "dir_contents le bs ?buf = es @ (if k = 0 then [] else [(ascii name, k)])"
    using well_formedI(2) [OF len n(2) old(2) qs(1)] unfolding old(1) qs(2) es by simp
qed

text \<open>Only the null byte after a name that fills the last record to its end can be outside the buffer.\<close>

lemma has_place_room:
  assumes "has_place le bs buf es off (CMFS_DIR_REC_LEN (length name))"
    and "length buf < off + 12 + length name + 1"
  shows "length name mod 4 = 0"
proof -
  obtain n es' where "length buf = Suc n * bs"
    and place: "place_for le buf (Suc n * bs) (n * bs) es' off (CMFS_DIR_REC_LEN (length name))"
    using assms(1) by (auto simp: has_place_def)
  then have "CMFS_DIR_REC_LEN (length name) < length name + 13" using assms(2) by (simp add: place_for_def)
  then show ?thesis unfolding CMFS_DIR_REC_LEN_def by presburger
qed

lemma place_in_last_ok:
  assumes "well_formed le bs buf off" and "place_in_last le nl off buf = Some (o1, buf1)" and "12 \<le> nl" and "nl mod 4 = 0"
  shows "length buf1 = length buf" and "has_place le bs buf1 (dir_contents le bs buf) o1 nl"
proof -
  from assms(1) obtain n ps where n: "length buf = Suc n * bs" "0 < bs" "\<forall>k < n. block_entries le bs buf k \<noteq> None"
    "block_entries le bs buf n = Some (ps @ [off])"
    "dir_contents le bs buf = contents_upto le bs n buf @ listing le buf (ps @ [off])"
    by (rule well_formedE)
  have off: "place_in_last le nl (last (ps @ [off])) buf = Some (o1, buf1)"
    using assms(2) by simp
  from reuse_or_split [OF n(4) [unfolded block_entries_def] _ n(1) [symmetric] assms(3,4) off]
  have buf1: "length buf1 = length buf" "agree 0 (n * bs) buf buf1"
    and place: "place_for le buf1 (Suc n * bs) (n * bs) (listing le buf (ps @ [off])) o1 nl"
    by simp_all
  show "length buf1 = length buf" by (rule buf1(1))
  show "has_place le bs buf1 (dir_contents le bs buf) o1 nl"
    unfolding has_place_def buf1(1) n(5)
    using n(1,2) place contents_agree [OF buf1(2) n(3)] by metis
qed

lemma new_block_place:
  assumes "length buf = n * bs" and "12 \<le> bs" and "bs < 65536" and "bs mod 4 = 0" and "nl \<le> bs"
  shows "place_for le (st16 le (n * bs + o_d_rec_len) (of_nat bs) (st64 le (n * bs + o_d_inode) 0 (buf @ replicate bs 0)))
      (Suc n * bs) (n * bs) [] (n * bs) nl"
    and "agree 0 (n * bs) buf (st16 le (n * bs + o_d_rec_len) (of_nat bs) (st64 le (n * bs + o_d_inode) 0 (buf @ replicate bs 0)))"
    and "length (st16 le (n * bs + o_d_rec_len) (of_nat bs) (st64 le (n * bs + o_d_inode) 0 (buf @ replicate bs 0))) = Suc n * bs"
proof -
  let ?p = "n * bs"
  let ?b1 = "st64 le (?p + o_d_inode) 0 (buf @ replicate bs 0)"
  let ?b2 = "st16 le (?p + o_d_rec_len) (of_nat bs) ?b1"
  have b1: "length ?b1 = ?p + bs" and b2: "length ?b2 = ?p + bs" using assms(1,2) by simp_all
  then show "length ?b2 = Suc n * bs" by simp
  have rl: "de_rec_len le ?b2 ?p = bs"
    using b1 assms(2,3) by (simp add: buf_simps unat_of_nat_u16)
  have "dirents le buf' (Suc n * bs) ?p = Some ([] @ [?p]) \<and> listing le buf' [] = []"
    if "dirents le buf' (Suc n * bs) ?p = Some [?p]" for buf' using that by (simp add: listing_simps)
  then show "place_for le ?b2 (Suc n * bs) ?p [] ?p nl"
    unfolding place_for_def rl using assms(4,5) by auto
  have "agree 0 ?p buf (buf @ replicate bs 0)" using assms(1) by (auto simp: agree_def field_def)
  moreover have "agree 0 ?p (buf @ replicate bs 0) ?b1" using assms(1,2) by (simp add: stw_put agree_put)
  moreover have "agree 0 ?p ?b1 ?b2" unfolding stw_put(2) using assms(2) b1 by (intro agree_put) simp_all
  ultimately show "agree 0 ?p buf ?b2" by (meson agree_trans)
qed

section \<open>The operation\<close>

abbreviation (input) ms_bs :: "mkfs_state \<Rightarrow> nat" where "ms_bs s \<equiv> unat (ms_blocksize s)"

text \<open>Blocks whose size fits the record length of an entry, without a trailer.\<close>

definition plain_blocks :: "mkfs_state \<Rightarrow> bool" where
  "plain_blocks s \<longleftrightarrow> ms_bs s < 65536 \<and> ms_bs s mod 4 = 0 \<and> \<not> cmfs_supports_dir_trailer (fill_fake_fs s)"

definition dir_size :: "mkfs_state \<Rightarrow> dir_id \<Rightarrow> nat" where
  "dir_size s d = (case dd_buf (ms_dirs s d) of None \<Rightarrow> 0 | Some buf \<Rightarrow> length buf)"

definition dir_ready :: "mkfs_state \<Rightarrow> dir_id \<Rightarrow> bool" where
  "dir_ready s d \<longleftrightarrow> (case dd_record (ms_dirs s d) of
     None \<Rightarrow> False
   | Some rid \<Rightarrow> (case dd_buf (ms_dirs s d) of
       None \<Rightarrow> True
     | Some buf \<Rightarrow> well_formed (ms_le s) (ms_bs s) buf (dd_last_off (ms_dirs s d))
         \<and> unat (file_size (ms_recs s rid)) = length buf))"

definition dir_names :: "mkfs_state \<Rightarrow> dir_id \<Rightarrow> (bytes \<times> u64) list" where
  "dir_names s d = (case dd_buf (ms_dirs s d) of None \<Rightarrow> [] | Some buf \<Rightarrow> dir_contents (ms_le s) (ms_bs s) buf)"

definition name_fits :: "mkfs_state \<Rightarrow> string \<Rightarrow> bool" where
  "name_fits s name \<longleftrightarrow> length name < 256 \<and> CMFS_DIR_REC_LEN (length name) \<le> ms_bs s"

text \<open>The entry that \<open>add_entry_to_directory\<close> makes for the inode at a byte offset.\<close>

definition new_entry :: "mkfs_state \<Rightarrow> string \<Rightarrow> u64 \<Rightarrow> (bytes \<times> u64) list" where
  "new_entry s name byte_off = (let k = drop_bit (ms_blocksize_bits s) byte_off
     in if k = 0 then [] else [(ascii name, k)])"

text \<open>The next allocation fails.\<close>

definition no_memory :: "mkfs_state \<Rightarrow> bool" where
  "no_memory s \<longleftrightarrow> (case heap_script (ms_io s) of [] \<Rightarrow> False | failing # _ \<Rightarrow> failing)"

lemma same_heap: "\<exists>h. (s :: mkfs_state) = s\<lparr>ms_io := (ms_io s)\<lparr>heap_script := h\<rparr>\<rparr>"
  by (intro exI [of _ "heap_script (ms_io s)"]) simp

lemma memalign_cases:
  assumes "memalign_exit n s = (r, s')"
  shows "(\<exists>h. s' = s\<lparr>ms_io := (ms_io s)\<lparr>heap_script := h\<rparr>\<rparr>)
    \<and> r = (if n < 0 \<or> no_memory s then Inl EXIT else Inr ())"
proof (cases "n < 0 \<or> heap_script (ms_io s) = []")
  case True
  then have "s' = s" "r = (if n < 0 \<or> no_memory s then Inl EXIT else Inr ())"
    using assms by (auto simp: memalign_exit_def cmfs_malloc_block_def no_memory_def split: if_splits)
  then show ?thesis using same_heap [of s] by simp
next
  case False
  then obtain f rest where h: "heap_script (ms_io s) = f # rest" by (cases "heap_script (ms_io s)") auto
  then have "s' = s\<lparr>ms_io := (ms_io s)\<lparr>heap_script := rest\<rparr>\<rparr>"
      "r = (if n < 0 \<or> no_memory s then Inl EXIT else Inr ())"
    using assms False by (auto simp: memalign_exit_def cmfs_malloc_block_def no_memory_def split: if_splits)
  then show ?thesis by blast
qed

lemma fake_heap:
  "cmfs_supports_dir_trailer (fill_fake_fs (s\<lparr>ms_io := ch\<rparr>)) = cmfs_supports_dir_trailer (fill_fake_fs s)"
  by (simp add: cmfs_supports_dir_trailer_def cmfs_meta_ecc_def cmfs_supports_indexed_dirs_def
      fill_fake_fs_def CMFS_RAW_SB_def Let_def)

lemma c_int_blocksize: "n < 2 ^ 31 \<Longrightarrow> c_int (int n) = int n"
  by (rule c_int_id) simp_all

text \<open>Growing by a block without a trailer: it ends the process, or the new block is one empty record.\<close>

lemma grow_directory_cases:
  assumes "plain_blocks s" and "0 < ms_bs s" and "grow_directory r old s = (res, s')"
    and "old \<noteq> None \<longrightarrow> unat (file_size r) < 2 ^ 31"
  defines "n \<equiv> (case old of None \<Rightarrow> 0 | Some b \<Rightarrow> unat (file_size r))"
    and "b \<equiv> (case old of None \<Rightarrow> [] | Some b \<Rightarrow> take (unat (file_size r)) b)"
  shows "(\<exists>h. s' = s\<lparr>ms_io := (ms_io s)\<lparr>heap_script := h\<rparr>\<rparr>)
    \<and> (res = Inl EXIT \<and> (2 ^ 31 \<le> n + ms_bs s \<or> no_memory s)
     \<or> n + ms_bs s < 2 ^ 31 \<and> res = Inr (n, st16 (ms_le s) (n + o_d_rec_len) (of_nat (ms_bs s))
           (st64 (ms_le s) (n + o_d_inode) 0 (b @ replicate (ms_bs s) 0)), of_nat (n + ms_bs s)))"
proof -
  let ?z = "grown_size (ms_blocksize s) r old"
  have bs: "ms_bs s < 65536" using assms(1) by (simp add: plain_blocks_def)
  have ub: "uint (ms_blocksize s) = int (ms_bs s)" by (rule uint_nat)
  have n31: "n < 2 ^ 31" using assms(4) by (simp add: n_def split: option.split)
  have z: "?z = c_int (int (n + ms_bs s))"
  proof (cases old)
    case (Some x)
    have "unat (ucast (ms_blocksize s) :: u64) = ms_bs s" by (rule unat_ucast_u64)
    then have "unat (file_size r + ucast (ms_blocksize s)) = n + ms_bs s"
      using n31 bs Some by (simp add: n_def unat_add_lem [THEN iffD1])
    then show ?thesis using Some by (simp only: grown_size_def option.case uint_nat)
  next
    case None
    then show ?thesis by (simp only: grown_size_def n_def option.case ub add_0)
  qed
  obtain m s1 where m: "memalign_exit ?z s = (m, s1)" by force
  note mc = memalign_cases [OF m]
  show ?thesis
  proof (cases "n + ms_bs s < 2 ^ 31")
    case True
    then have z: "?z = int (n + ms_bs s)" unfolding z by (rule c_int_blocksize)
    have w: "(word_of_int ?z :: u64) = of_nat (n + ms_bs s)" unfolding z by simp
    have "unat (of_nat (n + ms_bs s) :: u64) = n + ms_bs s" using True by (intro unat_of_nat_u64) simp
    then have fits: "\<not> (old \<noteq> None \<and> word_of_int ?z < file_size r)"
      unfolding w by (auto simp: word_less_nat_alt n_def simp del: of_nat_add)
    have nz: "nat ?z = n + ms_bs s" unfolding z by (rule nat_int)
    have buf: "grown_buffer s1 r old (n + ms_bs s) = (n, st16 (ms_le s) (n + o_d_rec_len) (of_nat (ms_bs s))
           (st64 (ms_le s) (n + o_d_inode) 0 (b @ replicate (ms_bs s) 0)))"
      using mc assms(1) fake_heap
      by (auto simp: grown_buffer_def mkfs_init_dir_trailer_def plain_blocks_def n_def b_def Let_def
          split: option.split)
    show ?thesis
    proof (cases "no_memory s")
      case True
      then have "res = Inl EXIT" "s' = s1" using assms(3) m mc by (simp_all add: grow_directory_def bind_io_def)
      then show ?thesis using mc True by blast
    next
      case False
      have "\<not> ?z < 0" unfolding z by (simp only: not_less of_nat_0_le_iff simp_thms)
      then have "m = Inr ()" using mc False by simp
      then have "(res, s') = (Inr (n, st16 (ms_le s) (n + o_d_rec_len) (of_nat (ms_bs s))
           (st64 (ms_le s) (n + o_d_inode) 0 (b @ replicate (ms_bs s) 0)), of_nat (n + ms_bs s)), s1)"
        using assms(3) m fits unfolding grow_directory_def Let_def bind_io_def
        by (simp only: prod.case sum.case if_False nz buf w)
      then show ?thesis using mc \<open>n + ms_bs s < 2 ^ 31\<close> by blast
    qed
  next
    case False
    define k where "k = n + ms_bs s"
    have "2 ^ 31 \<le> k" "k < 2 ^ 32" using False n31 bs by (simp_all add: k_def)
    then have "2 ^ 31 \<le> int k" "int k < 2 ^ 32" by simp_all
    moreover from this have "int k mod 2 ^ 32 = int k" by (intro mod_pos_pos_trivial) simp_all
    ultimately have neg: "?z < 0" unfolding z k_def [symmetric] by (intro c_int_mod(2)) simp_all
    then have "res = Inl EXIT" "s' = s1" using assms(3) m mc by (simp_all add: grow_directory_def bind_io_def)
    then show ?thesis using mc False by auto
  qed
qed

lemma new_block_ok:
  assumes "length buf = n * bs" and "\<forall>k < n. block_entries le bs buf k \<noteq> None" and "12 \<le> bs" and "bs < 65536"
    and "bs mod 4 = 0" and "nl \<le> bs"
  shows "has_place le bs (st16 le (n * bs + o_d_rec_len) (of_nat bs) (st64 le (n * bs + o_d_inode) 0 (buf @ replicate bs 0)))
      (contents_upto le bs n buf) (n * bs) nl"
proof -
  note new = new_block_place [OF assms(1,3,4,5,6), of le]
  show ?thesis unfolding has_place_def new(3)
    using assms(3) new(1) contents_agree [OF new(2) assms(2)]
    by (intro exI [of _ n] exI [of _ "[]"]) simp
qed

lemma find_place_cases:
  assumes "dir_ready s d" and "plain_blocks s" and "name_fits s name" and "dir_size s d < 2 ^ 31"
    and "dd_record (ms_dirs s d) = Some rid" and "nl = CMFS_DIR_REC_LEN (length name)"
    and "find_place d (ms_recs s rid) nl s = (res, s1)"
  shows "(\<exists>h. s1 = s\<lparr>ms_io := (ms_io s)\<lparr>heap_script := h\<rparr>\<rparr>)
    \<and> (res = Inl EXIT \<and> (2 ^ 31 \<le> dir_size s d + ms_bs s \<or> no_memory s)
     \<or> (\<exists>o1 buf1 sz. res = Inr (o1, buf1, sz) \<and> length buf1 \<le> dir_size s d + ms_bs s
          \<and> length buf1 < 2 ^ 31 \<and> unat sz = length buf1
          \<and> has_place (ms_le s) (ms_bs s) buf1 (dir_names s d) o1 nl))"
proof -
  have nl: "12 \<le> nl" "nl mod 4 = 0" "nl \<le> ms_bs s"
    using assms(3,6) rec_len_bounds [of "length name"] by (simp_all add: name_fits_def)
  have bs: "12 \<le> ms_bs s" "ms_bs s < 65536" "ms_bs s mod 4 = 0" using nl assms(2) by (simp_all add: plain_blocks_def)
  then have pos: "0 < ms_bs s" by simp
  note same = same_heap [of s]
  have size: "unat (of_nat k :: u64) = k" if "k < 2 ^ 31" for k
    using that by (intro unat_of_nat_u64) simp
  show ?thesis
  proof (cases "dd_buf (ms_dirs s d)")
    case None
    then have g: "grow_directory (ms_recs s rid) None s = (res, s1)" using assms(7) by (simp add: find_place_def)
    have ds: "dir_size s d = 0" "dir_names s d = contents_upto (ms_le s) (ms_bs s) 0 []"
      using None by (simp_all add: dir_size_def dir_names_def contents_upto_def)
    show ?thesis
      using grow_directory_cases [OF assms(2) pos g] new_block_ok [of "[]" 0 "ms_bs s" "ms_le s" nl] bs nl
      unfolding ds by (auto simp: size simp del: of_nat_unat)
  next
    case (Some buf)
    have ready: "well_formed (ms_le s) (ms_bs s) buf (dd_last_off (ms_dirs s d))"
      "unat (file_size (ms_recs s rid)) = length buf"
      using assms(1,5) Some by (simp_all add: dir_ready_def)
    have ds: "dir_size s d = length buf" "dir_names s d = dir_contents (ms_le s) (ms_bs s) buf"
      using Some by (simp_all add: dir_size_def dir_names_def)
    show ?thesis
    proof (cases "place_in_last (ms_le s) nl (dd_last_off (ms_dirs s d)) buf")
      case (Some x)
      obtain o1 buf1 where x: "x = (o1, buf1)" by force
      have out: "res = Inr (o1, buf1, file_size (ms_recs s rid))" "s1 = s"
        using assms(7) Some \<open>dd_buf (ms_dirs s d) = Some buf\<close> by (auto simp: find_place_def x)
      show ?thesis
        using place_in_last_ok [OF ready(1) Some [unfolded x] nl(1,2)] ready(2) assms(4) same
        unfolding out ds by simp
    next
      case None
      then have g: "grow_directory (ms_recs s rid) (Some buf) s = (res, s1)"
        using assms(7) Some by (simp add: find_place_def)
      from ready(1) obtain n ps where n: "length buf = Suc n * ms_bs s"
        "\<forall>k < n. block_entries (ms_le s) (ms_bs s) buf k \<noteq> None"
        "block_entries (ms_le s) (ms_bs s) buf n = Some (ps @ [dd_last_off (ms_dirs s d)])" by (rule well_formedE)
      have all: "\<forall>k < Suc n. block_entries (ms_le s) (ms_bs s) buf k \<noteq> None" using n(2,3) by (simp add: less_Suc_eq)
      have "contents_upto (ms_le s) (ms_bs s) (Suc n) buf = dir_contents (ms_le s) (ms_bs s) buf"
        using n(1) bs by (simp add: dir_contents_def)
      note new = new_block_ok [OF n(1) all bs nl(3), unfolded this, folded n(1)]
      have small: "unat (file_size (ms_recs s rid)) < 2 ^ 31" using assms(4) ready(2) ds(1) by simp
      have tk: "take (unat (file_size (ms_recs s rid))) buf = buf" using ready(2) by simp
      show ?thesis
        using grow_directory_cases [OF assms(2) pos g] small new bs(1)
        unfolding ds option.case tk ready(2) by (auto simp: size simp del: of_nat_add)
    qed
  qed
qed

text \<open>What the operation does not change.\<close>

definition dirs_frame :: "dir_id \<Rightarrow> mkfs_state \<Rightarrow> mkfs_state \<Rightarrow> bool" where
  "dirs_frame d s s' \<longleftrightarrow> ms_le s' = ms_le s \<and> ms_blocksize s' = ms_blocksize s
     \<and> ms_blocksize_bits s' = ms_blocksize_bits s
     \<and> cmfs_supports_dir_trailer (fill_fake_fs s') = cmfs_supports_dir_trailer (fill_fake_fs s)
     \<and> dd_record (ms_dirs s' d) = dd_record (ms_dirs s d)
     \<and> dev_data (ms_io s') = dev_data (ms_io s) \<and> dev_script (ms_io s') = dev_script (ms_io s)
     \<and> (\<forall>i. extent_off (ms_recs s' i) = extent_off (ms_recs s i) \<and> extent_len (ms_recs s' i) = extent_len (ms_recs s i))"

lemma dirs_frame_simps:
  assumes "dirs_frame d s s'"
  shows "plain_blocks s' = plain_blocks s" and "name_fits s' = name_fits s" and "new_entry s' = new_entry s"
    and "ms_le s' = ms_le s" and "ms_blocksize s' = ms_blocksize s"
  using assms by (auto simp: dirs_frame_def plain_blocks_def name_fits_def new_entry_def fun_eq_iff)

text \<open>How adding an entry may end.\<close>

definition entry_added :: "mkfs_state \<Rightarrow> dir_id \<Rightarrow> (bytes \<times> u64) list \<Rightarrow> mkfs_state \<Rightarrow> bool" where
  "entry_added s d new s' \<longleftrightarrow> dirs_frame d s s' \<and> dir_ready s' d \<and> dir_names s' d = dir_names s d @ new
     \<and> dir_size s' d < 2 ^ 31"

lemma add_entry_ok:
  assumes "dir_ready s d" and "plain_blocks s" and "name_fits s name" and "dir_size s d < 2 ^ 31"
    and "add_entry_to_directory d name byte_off ty s = (res, s')"
  shows "res = Inl C_UNDEFINED \<and> length name mod 4 = 0
    \<or> res = Inl EXIT \<and> (2 ^ 31 \<le> dir_size s d + ms_bs s \<or> no_memory s)
    \<or> res = Inr () \<and> entry_added s d (new_entry s name byte_off) s' \<and> dir_size s' d \<le> dir_size s d + ms_bs s"
proof -
  obtain rid where rid: "dd_record (ms_dirs s d) = Some rid" using assms(1) by (auto simp: dir_ready_def split: option.splits)
  define nl where "nl = CMFS_DIR_REC_LEN (length name)"
  let ?r = "ms_recs s rid" and ?k = "drop_bit (ms_blocksize_bits s) byte_off"
  obtain pl s1 where place: "find_place d ?r nl s = (pl, s1)" by force
  note fp = find_place_cases [OF assms(1-4) rid nl_def place]
  then obtain h where s1: "s1 = s\<lparr>ms_io := (ms_io s)\<lparr>heap_script := h\<rparr>\<rparr>" by blast
  show ?thesis
  proof (cases pl)
    case (Inl e)
    then have "res = Inl e" using assms(5) rid place by (simp add: add_entry_to_directory_def nl_def bind_io_def)
    then show ?thesis using fp Inl by simp
  next
    case (Inr x)
    then obtain o1 buf1 sz where x: "x = (o1, buf1, sz)" and ok: "length buf1 \<le> dir_size s d + ms_bs s"
      "length buf1 < 2 ^ 31" "unat sz = length buf1" "has_place (ms_le s) (ms_bs s) buf1 (dir_names s d) o1 nl"
      using fp by auto
    have run: "put_entry d rid name byte_off ty (o1, buf1, sz) s1 = (res, s')"
      using assms(5) rid place Inr x by (simp add: add_entry_to_directory_def nl_def bind_io_def)
    show ?thesis
    proof (cases "o1 + o_d_name + length name + 1 > length buf1")
      case True
      then show ?thesis using run has_place_room [OF ok(4) [unfolded nl_def]] by (simp add: put_entry_def)
    next
      case False
      then have room: "o1 + 12 + length name + 1 \<le> length buf1" "length name < 256"
        using assms(3) by (simp_all add: name_fits_def)
      note fill = has_place_fill [OF ok(4) [unfolded nl_def] room, of ?k ty]
      let ?buf = "fill_entry (ms_le s) name ?k ty o1 buf1"
      have out: "res = Inr ()" "s' = upd_rec rid (\<lambda>r. r\<lparr> file_size := sz,
               fr_links := (if ty = CMFS_FT_DIR then fr_links r + 1 else fr_links r) \<rparr>)
             (upd_dir d (\<lambda>dir. dir\<lparr> dd_buf := Some ?buf, dd_last_off := o1 \<rparr>) s1)"
        using run False by (auto simp: put_entry_def Let_def s1)
      have fake: "cmfs_supports_dir_trailer (fill_fake_fs s') = cmfs_supports_dir_trailer (fill_fake_fs s)"
        by (simp add: out(2) s1 upd_rec_def upd_dir_def cmfs_supports_dir_trailer_def cmfs_meta_ecc_def
            cmfs_supports_indexed_dirs_def fill_fake_fs_def CMFS_RAW_SB_def Let_def)
      have s': "ms_dirs s' d = (ms_dirs s d)\<lparr> dd_buf := Some ?buf, dd_last_off := o1 \<rparr>"
        "file_size (ms_recs s' rid) = sz"
        "ms_le s' = ms_le s" "ms_blocksize s' = ms_blocksize s" "ms_blocksize_bits s' = ms_blocksize_bits s"
        "dev_data (ms_io s') = dev_data (ms_io s)" "dev_script (ms_io s') = dev_script (ms_io s)"
        "extent_off (ms_recs s' i) = extent_off (ms_recs s i) \<and> extent_len (ms_recs s' i) = extent_len (ms_recs s i)" for i
        by (simp_all add: out(2) s1 upd_rec_def upd_dir_def)
      have "dirs_frame d s s'" by (simp add: dirs_frame_def s' fake)
      moreover have "dir_ready s' d" using fill ok(3) by (simp add: dir_ready_def s' rid)
      moreover have "dir_names s' d = dir_names s d @ new_entry s name byte_off"
        using fill(3) by (simp add: dir_names_def [of s'] s' new_entry_def Let_def)
      moreover have "dir_size s' d = length buf1" using fill(1) by (simp add: dir_size_def s')
      ultimately show ?thesis using out(1) ok(1,2) by (simp add: entry_added_def)
    qed
  qed
qed

section \<open>Filling a directory\<close>

text \<open>The calls for a list of names with the byte offsets of their inodes and their types.\<close>

fun add_entries :: "dir_id \<Rightarrow> (string \<times> u64 \<times> u8) list \<Rightarrow> unit mkfs" where
  "add_entries d [] = ret_io ()"
| "add_entries d ((name, byte_off, ty) # es) =
     bind_io (add_entry_to_directory d name byte_off ty) (\<lambda>_. add_entries d es)"

definition new_entries :: "mkfs_state \<Rightarrow> (string \<times> u64 \<times> u8) list \<Rightarrow> (bytes \<times> u64) list" where
  "new_entries s es = concat (map (\<lambda>(name, byte_off, ty). new_entry s name byte_off) es)"

lemma add_entries_ok:
  assumes "dir_ready s d" and "plain_blocks s" and "\<forall>(name, _, _) \<in> set es. name_fits s name"
    and "dir_size s d < 2 ^ 31" and "add_entries d es s = (Inr (), s')"
  shows "entry_added s d (new_entries s es) s' \<and> dir_size s' d \<le> dir_size s d + length es * ms_bs s"
  using assms
proof (induction es arbitrary: s)
  case Nil
  then show ?case by (simp add: ret_io_def new_entries_def dirs_frame_def entry_added_def)
next
  case (Cons e es)
  obtain name byte_off ty where e: "e = (name, byte_off, ty)" by (metis prod.exhaust)
  have fits: "name_fits s name" using Cons.prems(3) by (simp add: e)
  obtain res s1 where run: "add_entry_to_directory d name byte_off ty s = (res, s1)" by force
  have res: "res = Inr ()" and rest: "add_entries d es s1 = (Inr (), s')"
    using Cons.prems(5) run by (auto simp: e bind_io_def split: sum.splits)
  have s1: "dirs_frame d s s1" "dir_ready s1 d" "dir_names s1 d = dir_names s d @ new_entry s name byte_off"
    "dir_size s1 d \<le> dir_size s d + ms_bs s" "dir_size s1 d < 2 ^ 31"
    using add_entry_ok [OF Cons.prems(1,2) fits Cons.prems(4) run] res by (simp_all add: entry_added_def)
  note same = dirs_frame_simps [OF s1(1)]
  have "\<forall>(name, _, _) \<in> set es. name_fits s1 name" using Cons.prems(3) by (auto simp: same)
  from Cons.IH [OF s1(2) _ this s1(5) rest] Cons.prems(2)
  show ?case using s1(1,3,4)
    by (auto simp: same e new_entries_def dirs_frame_def entry_added_def)
qed

end
