(* ===== verification/Iteration.thy ===== *)
theory Iteration
  imports File_read Extents
begin

text \<open>
  What the iterators of \<^verbatim>\<open>libcmfs/extents.c\<close> do on a quiet device: they call the callback for
  the extents, or the blocks, of a file in their order in the extent tree. The callback is
  described by a pure function on its own state, and \<open>simulates\<close> relates an operation on the file
  system and the callback's state to such a function.
\<close>

section \<open>Simulation\<close>

definition simulates ::
  "cmfs_filesys \<Rightarrow> ('p cb_state, 'a) io \<Rightarrow> ('p, 'a) io \<Rightarrow> bool" where
  "simulates fs0 m f \<longleftrightarrow> (\<forall>fs p. calm fs0 fs \<longrightarrow>
     (\<exists>fs'. m (fs, p) = (fst (f p), (fs', snd (f p))) \<and> calm fs fs'))"

lemma simulatesD:
  assumes "simulates fs0 m f" and "calm fs0 fs" and "f p = (r, p')"
  obtains fs' where "m (fs, p) = (r, (fs', p'))" and "calm fs fs'"
  using assms unfolding simulates_def by (metis fst_conv snd_conv)

lemma simulatesI:
  "(\<And>fs p r p'. calm fs0 fs \<Longrightarrow> f p = (r, p') \<Longrightarrow> \<exists>fs'. m (fs, p) = (r, (fs', p')) \<and> calm fs fs') \<Longrightarrow>
    simulates fs0 m f"
  unfolding simulates_def by (metis prod.collapse)

lemma simulates_ret: "simulates fs0 (ret_io x) (ret_io x)"
  by (auto simp: simulates_def ret_io_def)

lemma simulates_bind:
  assumes "simulates fs0 m f" and "\<And>x. simulates fs0 (k x) (l x)"
  shows "simulates fs0 (bind_io m k) (bind_io f l)"
proof (rule simulatesI)
  fix fs p r p'
  assume fs: "calm fs0 fs" and run: "bind_io f l p = (r, p')"
  obtain r1 p1 where f: "f p = (r1, p1)" by force
  obtain fs1 where m: "m (fs, p) = (r1, (fs1, p1))" and fs1: "calm fs fs1"
    by (rule simulatesD [OF assms(1) fs f])
  show "\<exists>fs'. bind_io m k (fs, p) = (r, (fs', p')) \<and> calm fs fs'"
  proof (cases r1)
    case (Inl e)
    then show ?thesis using m f fs1 run by (auto simp: bind_io_def)
  next
    case (Inr x)
    then have "l x p1 = (r, p')" using run f by (simp add: bind_io_def)
    then obtain fs2 where "k x (fs1, p1) = (r, (fs2, p'))" and "calm fs1 fs2"
      using simulatesD [OF assms(2) calm_trans [OF fs fs1]] by metis
    then show ?thesis using m Inr fs1 by (auto simp: bind_io_def intro: calm_trans)
  qed
qed

lemma simulates_fs:
  assumes "\<And>fs. calm fs0 fs \<Longrightarrow> yields calm m fs r"
  shows "simulates fs0 (on_cb_fs m) (\<lambda>p. (r, p))"
proof (rule simulatesI)
  fix fs p r' p'
  assume fs: "calm fs0 fs" and "(r, p) = (r', p')"
  then show "\<exists>fs'. on_cb_fs m (fs, p) = (r', (fs', p')) \<and> calm fs fs'"
    using yields_run [OF assms [OF fs]] by (auto simp: on_cb_fs_def)
qed

section \<open>The extents of a tree in order\<close>

definition eb_of :: "cmfs_filesys \<Rightarrow> u64 \<Rightarrow> bytes" where
  "eb_of fs k = cmfs_swap_extent_block_to_cpu (cpu_le fs) (bsize fs) (the (block_at fs k))"

lemma eb_of_eq: "extent_block_at fs k eb \<Longrightarrow> eb_of fs k = eb"
  by (auto simp: extent_block_at_def eb_of_def)

text \<open>The iteration skips a first record without clusters.\<close>

primrec tree_list :: "nat \<Rightarrow> cmfs_filesys \<Rightarrow> bytes \<Rightarrow> nat \<Rightarrow> cmfs_extent_rec list" where
  "tree_list 0 fs buf b = map (rec_at fs buf b)
     (filter (\<lambda>i. \<not> (i = 0 \<and> e_leaf_blocks (rec_at fs buf b i) = 0)) [0..<el_len fs buf b])"
| "tree_list (Suc d) fs buf b = concat (map (\<lambda>i. tree_list d fs (eb_of fs (e_blkno (rec_at fs buf b i))) o_h_list)
     [0..<el_len fs buf b])"

text \<open>The block of the last leaf, which the inode refers to; 0 for a list without extent blocks.\<close>

primrec last_leaf :: "nat \<Rightarrow> cmfs_filesys \<Rightarrow> bytes \<Rightarrow> nat \<Rightarrow> u64 \<Rightarrow> u64" where
  "last_leaf 0 fs buf b k = k"
| "last_leaf (Suc d) fs buf b k =
     (let k' = e_blkno (rec_at fs buf b (el_len fs buf b - 1)) in last_leaf d fs (eb_of fs k') o_h_list k')"

lemma last_leaf_any: "d \<noteq> 0 \<Longrightarrow> last_leaf d fs buf b k = last_leaf d fs buf b k'"
  by (cases d) simp_all

text \<open>The links that the iteration checks on its way, apart from the shape of the tree.\<close>

primrec tree_linked :: "nat \<Rightarrow> cmfs_filesys \<Rightarrow> bytes \<Rightarrow> nat \<Rightarrow> bool" where
  "tree_linked 0 fs buf b \<longleftrightarrow> True"
| "tree_linked (Suc d) fs buf b \<longleftrightarrow> (\<forall>i < el_len fs buf b.
     e_int_blocks (rec_at fs buf b i) \<noteq> 0
     \<and> ld64 (cpu_le fs) (eb_of fs (e_blkno (rec_at fs buf b i))) o_h_blkno = e_blkno (rec_at fs buf b i)
     \<and> tree_linked d fs (eb_of fs (e_blkno (rec_at fs buf b i))) o_h_list)"

lemma calm_lists [calm_simps]:
  assumes "calm fs fs'"
  shows "eb_of fs' k = eb_of fs k" "tree_list d fs' buf b = tree_list d fs buf b"
    "last_leaf d fs' buf b k = last_leaf d fs buf b k" "tree_linked d fs' buf b = tree_linked d fs buf b"
proof -
  show eb: "eb_of fs' k = eb_of fs k" for k using calm_fields [OF assms] by (simp add: eb_of_def)
  note eqs = eb calm_fields [OF assms] calm_tree [OF assms]
  show "tree_list d fs' buf b = tree_list d fs buf b" "tree_linked d fs' buf b = tree_linked d fs buf b"
    by (induction d arbitrary: buf b) (simp_all add: eqs)
  show "last_leaf d fs' buf b k = last_leaf d fs buf b k"
    by (induction d arbitrary: buf b k) (simp_all add: eqs Let_def)
qed

lemma tree_list_recs:
  assumes "tree_ok d fs buf b lo hi"
  shows "set (tree_list d fs buf b) \<subseteq> tree_recs d fs buf b"
  using assms
proof (induction d arbitrary: buf b lo hi)
  case (Suc d)
  show ?case
  proof
    fix r assume "r \<in> set (tree_list (Suc d) fs buf b)"
    then obtain i where i: "i < el_len fs buf b"
      "r \<in> set (tree_list d fs (eb_of fs (e_blkno (rec_at fs buf b i))) o_h_list)" by auto
    then obtain eb where "extent_block_at fs (e_blkno (rec_at fs buf b i)) eb"
      "tree_ok d fs eb o_h_list (rec_start (rec_at fs buf b i)) (rec_end fs (of_nat (Suc d)) (rec_at fs buf b i))"
      using Suc.prems by auto
    then show "r \<in> tree_recs (Suc d) fs buf b" using i Suc.IH eb_of_eq by fastforce
  qed
qed auto

section \<open>Visiting the extents\<close>

text \<open>Visiting the members of a list; each visit answers 0 or that the iteration ends.\<close>

fun visit_all :: "('r \<Rightarrow> ('p, u32) io) \<Rightarrow> 'r list \<Rightarrow> ('p, u32) io" where
  "visit_all G [] = ret_io 0"
| "visit_all G (r # rs) = bind_io (G r) (\<lambda>iret. if iret \<noteq> 0 then ret_io iret else visit_all G rs)"

lemma visit_all_append:
  "visit_all G (rs @ rs') = bind_io (visit_all G rs) (\<lambda>iret. if iret \<noteq> 0 then ret_io iret else visit_all G rs')"
proof (induction rs)
  case Nil
  show ?case by (simp add: bind_io_def ret_io_def)
next
  case (Cons r rs)
  then show ?case by (auto simp: bind_io_def ret_io_def split: sum.split prod.split intro!: ext)
qed

definition answers :: "('r \<Rightarrow> ('p, u32) io) \<Rightarrow> bool" where
  "answers G \<longleftrightarrow> (\<forall>r p iret. fst (G r p) = Inr iret \<longrightarrow> iret = 0 \<or> iret = CMFS_EXTENT_ABORT)"

definition visits ::
  "cmfs_filesys \<Rightarrow> 'p extent_func \<Rightarrow> (cmfs_extent_rec \<Rightarrow> ('p, u32) io) \<Rightarrow> cmfs_extent_rec set \<Rightarrow> bool" where
  "visits fs0 func G R \<longleftrightarrow> answers G \<and> (\<forall>buf r cc ref no. extent_rec_of (cpu_le fs0) buf r \<in> R \<longrightarrow>
     simulates fs0 (func buf r 0 cc ref no)
       (bind_io (G (extent_rec_of (cpu_le fs0) buf r)) (\<lambda>iret. ret_io (iret, buf))))"

lemma visit_all_answers:
  assumes "answers G" and "visit_all G rs p = (Inr iret, p')"
  shows "iret = 0 \<or> iret = CMFS_EXTENT_ABORT"
  using assms(2)
proof (induction rs arbitrary: p)
  case (Cons r rs)
  obtain res p1 where "G r p = (res, p1)" by force
  then show ?case using Cons assms(1)
    by (auto simp: bind_io_def ret_io_def answers_def split: sum.splits if_splits) (metis fst_conv)+
qed (simp add: ret_io_def)

section \<open>Iterating over a tree\<close>

text \<open>
  From the context \<open>c\<close>, the iteration \<open>m\<close> does what \<open>f\<close> does to the callback's state, hands the
  buffer back as it was, and, if it is not cut short, leaves a context with \<open>Q\<close>.
\<close>

definition ec_sim ::
  "('p extent_context, u32 \<times> bytes) io \<Rightarrow> bytes \<Rightarrow> ('p, u32) io \<Rightarrow> ('p extent_context \<Rightarrow> bool) \<Rightarrow>
    'p extent_context \<Rightarrow> bool" where
  "ec_sim m buf f Q c \<longleftrightarrow> (\<forall>r p'. f (ec_priv c) = (r, p') \<longrightarrow>
     (\<exists>c'. m c = (map_sum id (\<lambda>iret. (iret, buf)) r, c') \<and> calm (ec_fs c) (ec_fs c') \<and> ec_priv c' = p'
       \<and> (r = Inr 0 \<longrightarrow> Q c')))"

lemma ec_simD:
  assumes "ec_sim m buf f Q c" and "f (ec_priv c) = (r, p')"
  obtains c' where "m c = (map_sum id (\<lambda>iret. (iret, buf)) r, c')" and "calm (ec_fs c) (ec_fs c')"
    and "ec_priv c' = p'" and "r = Inr 0 \<longrightarrow> Q c'"
  using assms unfolding ec_sim_def by blast

lemma ec_sim_mono: "ec_sim m buf f Q c \<Longrightarrow> (\<And>c'. Q c' \<Longrightarrow> Q' c') \<Longrightarrow> ec_sim m buf f Q' c"
  unfolding ec_sim_def by metis

lemma iterate_recs_sim:
  assumes "answers G"
    and step: "\<And>i c. i < n \<Longrightarrow> calm fs0 (ec_fs c) \<Longrightarrow> Inv i c \<Longrightarrow>
      ec_sim (\<lambda>c. step 0 buf i c) buf (visit_all G (R i)) (Inv (Suc i)) c"
    and n: "n = el_len fs0 buf b"
    and "i \<le> n" and "calm fs0 (ec_fs c)" and "Inv i c"
  shows "ec_sim (iterate_recs step b 0 buf i) buf (visit_all G (concat (map R [i..<n]))) (Inv n) c"
  using assms(4-)
proof (induction "n - i" arbitrary: i c)
  case 0
  then show ?case
    using calm_tree(1) [OF "0.prems"(2)]
    by (subst ec_sim_def, subst iterate_recs.simps) (auto simp: ret_io_def n el_len_def)
next
  case (Suc k)
  then have i: "i < n" by simp
  have upt: "[i..<n] = i # [Suc i..<n]" using i by (rule upt_conv_Cons)
  have len: "unat (ld16 (cpu_le (ec_fs c)) buf (b + o_l_next_free_rec)) = n"
    using calm_tree(1) [OF Suc.prems(2)] by (simp add: n el_len_def)
  show ?case
  proof (unfold ec_sim_def, intro allI impI)
    fix r p'
    assume f: "visit_all G (concat (map R [i..<n])) (ec_priv c) = (r, p')"
    obtain r1 p1 where f1: "visit_all G (R i) (ec_priv c) = (r1, p1)" by force
    obtain c1 where c1: "step 0 buf i c = (map_sum id (\<lambda>iret. (iret, buf)) r1, c1)"
      "calm (ec_fs c) (ec_fs c1)" "ec_priv c1 = p1" "r1 = Inr 0 \<longrightarrow> Inv (Suc i) c1"
      using ec_simD [OF step [OF i Suc.prems(2,3)] f1] by metis
    show "\<exists>c'. iterate_recs step b 0 buf i c = (map_sum id (\<lambda>iret. (iret, buf)) r, c')
      \<and> calm (ec_fs c) (ec_fs c') \<and> ec_priv c' = p' \<and> (r = Inr 0 \<longrightarrow> Inv n c')"
    proof (cases "r1 = Inr 0")
      case True
      have rest: "visit_all G (concat (map R [Suc i..<n])) (ec_priv c1) = (r, p')"
        using f f1 True c1(3) by (simp add: upt visit_all_append bind_io_def)
      have tail: "ec_sim (iterate_recs step b 0 buf (Suc i)) buf (visit_all G (concat (map R [Suc i..<n]))) (Inv n) c1"
        by (rule Suc.hyps(1)) (use Suc.hyps(2) i c1 True Suc.prems(2) in \<open>auto intro: calm_trans\<close>)
      obtain c2 where "iterate_recs step b 0 buf (Suc i) c1 = (map_sum id (\<lambda>iret. (iret, buf)) r, c2)"
        "calm (ec_fs c1) (ec_fs c2)" "ec_priv c2 = p'" "r = Inr 0 \<longrightarrow> Inv n c2"
        using ec_simD [OF tail rest] by metis
      then show ?thesis
        using c1 True i len by (subst iterate_recs.simps) (auto intro: calm_trans)
    next
      case False
      then have "(r, p') = (r1, p1)" and "\<forall>iret. r1 = Inr iret \<longrightarrow> iret = CMFS_EXTENT_ABORT"
        using f f1 visit_all_answers [OF assms(1)]
        by (auto simp: upt visit_all_append bind_io_def ret_io_def split: sum.splits)
      then show ?thesis
        using c1 i len False by (cases r1) (subst iterate_recs.simps, simp)+
    qed
  qed
qed

text \<open>One record of a leaf list, and the rest of its list.\<close>

lemma leaf_rec_sim:
  assumes "visits fs0 func G R" and "calm fs0 (ec_fs c)" and "list_ok 0 fs0 buf b lo hi" and "i < el_len fs0 buf b"
    and "i = 0 \<and> e_leaf_blocks (rec_at fs0 buf b i) = 0 \<or> rec_at fs0 buf b i \<in> R"
  shows "ec_sim (\<lambda>c. iterate_rec func visit b ref 0 buf i c) buf
    (visit_all G (if i = 0 \<and> e_leaf_blocks (rec_at fs0 buf b i) = 0 then [] else [rec_at fs0 buf b i]))
    (\<lambda>c'. ec_last_eb_blkno c' = ec_last_eb_blkno c \<and> ec_last_eb_cpos c' = ec_last_eb_cpos c) c"
proof -
  have le: "cpu_le (ec_fs c) = cpu_le fs0" using calm_fields [OF assms(2)] by simp
  have depth: "ld16 (cpu_le fs0) buf (b + o_l_tree_depth) = 0" using assms(3) by (simp add: list_ok_def el_depth_def)
  have fits: "\<not> rec_off b i + 32 > length buf" using assms(3,4) by (simp add: list_ok_def)
  have ans: "answers G" using assms(1) by (simp add: visits_def)
  show ?thesis
  proof (cases "i = 0 \<and> e_leaf_blocks (rec_at fs0 buf b i) = 0")
    case True
    then show ?thesis
      using fits depth le by (auto simp: ec_sim_def iterate_rec_def Let_def ret_io_def)
  next
    case False
    let ?r = "rec_at fs0 buf b i"
    let ?F = "func buf (rec_off b i) 0 (ec_ccount c) ref i"
    show ?thesis
    proof (unfold ec_sim_def, intro allI impI)
      fix r p'
      assume "visit_all G (if i = 0 \<and> e_leaf_blocks ?r = 0 then [] else [?r]) (ec_priv c) = (r, p')"
      then have g: "G ?r (ec_priv c) = (r, p')"
        using False by (auto simp: bind_io_def ret_io_def split: prod.splits sum.splits if_splits)
      have sim: "simulates fs0 ?F (bind_io (G ?r) (\<lambda>iret. ret_io (iret, buf)))"
        using assms(1,5) False by (auto simp: visits_def el_rec_def)
      have run: "bind_io (G ?r) (\<lambda>iret. ret_io (iret, buf)) (ec_priv c) = (map_sum id (\<lambda>iret. (iret, buf)) r, p')"
        using g by (simp add: bind_io_def ret_io_def split: sum.split)
      obtain fs1 where f: "?F (ec_fs c, ec_priv c) = (map_sum id (\<lambda>iret. (iret, buf)) r, (fs1, p'))"
        and fs1: "calm (ec_fs c) fs1"
        by (rule simulatesD [OF sim assms(2) run])
      show "\<exists>c'. iterate_rec func visit b ref 0 buf i c = (map_sum id (\<lambda>iret. (iret, buf)) r, c')
        \<and> calm (ec_fs c) (ec_fs c') \<and> ec_priv c' = p' \<and> (r = Inr 0 \<longrightarrow>
          ec_last_eb_blkno c' = ec_last_eb_blkno c \<and> ec_last_eb_cpos c' = ec_last_eb_cpos c)"
      proof (cases r)
        case (Inl e)
        then show ?thesis using False fits depth le f fs1
          by (auto simp: iterate_rec_def Let_def bind_io_def on_callback_def)
      next
        case (Inr iret)
        have "iret = 0 \<or> iret = CMFS_EXTENT_ABORT"
          using ans g Inr by (metis answers_def fst_conv)
        then show ?thesis using False fits depth le f fs1 Inr
          by (auto simp: iterate_rec_def Let_def bind_io_def on_callback_def)
      qed
    qed
  qed
qed

text \<open>The extent block below a record, given what the iteration does on its list.\<close>

lemma eb_sim:
  assumes "quiet fs0" and "answers G" and "calm fs0 (ec_fs c)" and "extent_block_at fs0 blkno eb"
    and "blkno = ld64 (cpu_le fs0) buf (r + o_e_blkno)" and "blkno \<noteq> 0" and "el_depth fs0 eb o_h_list = of_nat d"
    and "d < 2 ^ 16" and "ld64 (cpu_le fs0) eb o_h_blkno = blkno"
    and sub: "\<And>c. calm fs0 (ec_fs c) \<Longrightarrow> P c \<Longrightarrow> ec_sim (iterate_el eb o_h_list blkno) eb (visit_all G rs) Q c"
    and P: "\<And>fs e. P (c\<lparr>ec_fs := fs, ec_errcode := e\<rparr>)"
  shows "ec_sim (extent_iterate_eb_with iterate_el d func CMFS_EXTENT_FLAG_DATA_ONLY buf r ref no) buf
    (visit_all G rs) Q c"
proof (unfold ec_sim_def, intro allI impI)
  fix res p'
  assume f: "visit_all G rs (ec_priv c) = (res, p')"
  note calm_c = calm_fields [OF assms(3)] calm_derived(1) [OF assms(3)]
  have q: "quiet (ec_fs c)" using calm_quiet [OF assms(3,1)] .
  have "extent_block_at (ec_fs c) blkno eb" using assms(4) calm_at(2) [OF assms(3)] by simp
  then obtain fs1 where read: "cmfs_read_extent_block blkno (ec_fs c) = (Inr eb, fs1)" and fs1: "calm (ec_fs c) fs1"
    using read_extent_block_yields [OF q] by (blast dest: yields_run)
  have ok: "blkno_ok (ec_fs c) blkno" using assms(4) calm_c by (simp add: extent_block_at_def)
  let ?c1 = "c\<lparr>ec_fs := fs1, ec_errcode := Some None\<rparr>"
  have c1: "calm fs0 (ec_fs ?c1)" using calm_trans [OF assms(3) fs1] by simp
  have le1: "cpu_le fs1 = cpu_le fs0" using calm_fields(1) [OF calm_trans [OF assms(3) fs1]] .
  have depth: "unat (ld16 (cpu_le fs0) eb (o_h_list + o_l_tree_depth)) = d"
    using assms(7,8) by (simp add: el_depth_def unat_of_nat_u16)
  have f1: "visit_all G rs (ec_priv ?c1) = (res, p')" using f by simp
  obtain c2 where c2: "iterate_el eb o_h_list blkno ?c1 = (map_sum id (\<lambda>iret. (iret, eb)) res, c2)"
    "calm fs1 (ec_fs c2)" "ec_priv c2 = p'" "res = Inr 0 \<longrightarrow> Q c2"
    using ec_simD [OF sub [OF c1 P] f1] by auto
  have iret: "iret = 0 \<or> iret = CMFS_EXTENT_ABORT" if "res = Inr iret" for iret
    using visit_all_answers [OF assms(2)] f that by blast
  show "\<exists>c'. extent_iterate_eb_with iterate_el d func CMFS_EXTENT_FLAG_DATA_ONLY buf r ref no c
      = (map_sum id (\<lambda>iret. (iret, buf)) res, c')
    \<and> calm (ec_fs c) (ec_fs c') \<and> ec_priv c' = p' \<and> (res = Inr 0 \<longrightarrow> Q c')"
  proof -
    have on: "on_ec_fs (cmfs_read_extent_block blkno) c = (Inr (Inr eb), c\<lparr>ec_fs := fs1\<rparr>)"
      by (simp add: on_ec_fs_def read)
    have blk: "ld64 (cpu_le (ec_fs c)) buf (r + o_e_blkno) = blkno" using assms(5) calm_c by simp
    have eq: "extent_iterate_eb_with iterate_el d func CMFS_EXTENT_FLAG_DATA_ONLY buf r ref no c
      = (map_sum id (\<lambda>iret. (iret, buf)) res, c2)"
      using on blk ok depth assms(6,9) le1 c2(1) iret
      by (cases res) (auto simp: extent_iterate_eb_with_def Let_def bind_io_def ret_io_def)
    show ?thesis using eq c2 fs1 by (auto intro: calm_trans)
  qed
qed

text \<open>Where the search for the last leaf stands after the tree at \<open>b\<close>.\<close>

definition last_seen :: "nat \<Rightarrow> cmfs_filesys \<Rightarrow> bytes \<Rightarrow> nat \<Rightarrow> nat \<Rightarrow> u64 \<Rightarrow> u64 \<Rightarrow> 'p extent_context \<Rightarrow> bool" where
  "last_seen d fs buf b hi blk cpos c \<longleftrightarrow>
     (if d = 0 then ec_last_eb_blkno c = blk \<and> ec_last_eb_cpos c = cpos
      else ec_last_eb_blkno c = last_leaf d fs buf b 0 \<and> unat (ec_last_eb_cpos c) \<le> hi)"

lemma trim_sim:
  assumes "answers G" and "ec_sim m buf (visit_all G rs) Q c"
  shows "ec_sim (bind_io m (\<lambda>(iret, buf) c. (Inr (iret, trim_recs (ec_fs c) b iret buf), c))) buf (visit_all G rs) Q c"
proof (unfold ec_sim_def, intro allI impI)
  fix r p' assume f: "visit_all G rs (ec_priv c) = (r, p')"
  obtain c' where c': "m c = (map_sum id (\<lambda>iret. (iret, buf)) r, c')" "calm (ec_fs c) (ec_fs c')"
    "ec_priv c' = p'" "r = Inr 0 \<longrightarrow> Q c'" by (rule ec_simD [OF assms(2) f])
  have iret: "iret = 0 \<or> iret = CMFS_EXTENT_ABORT" if "r = Inr iret" for iret
    using visit_all_answers [OF assms(1)] f that by blast
  show "\<exists>c'. bind_io m (\<lambda>(iret, buf) c. (Inr (iret, trim_recs (ec_fs c) b iret buf), c)) c
      = (map_sum id (\<lambda>iret. (iret, buf)) r, c')
    \<and> calm (ec_fs c) (ec_fs c') \<and> ec_priv c' = p' \<and> (r = Inr 0 \<longrightarrow> Q c')"
    using c' iret by (cases r) (auto simp: bind_io_def trim_recs_def)
qed

text \<open>What a record above extent blocks leaves in the context.\<close>

definition note_eb :: "u16 \<Rightarrow> cmfs_extent_rec \<Rightarrow> 'p extent_context \<Rightarrow> 'p extent_context" where
  "note_eb depth rec c = (if e_int_blocks rec \<noteq> 0 \<and> e_cpos rec \<ge> ec_last_eb_cpos c
     then (if depth = 1 then c\<lparr>ec_last_eb_blkno := e_blkno rec\<rparr> else c)\<lparr>ec_last_eb_cpos := e_cpos rec\<rparr>
     else c)"

lemma int_rec_sim:
  assumes "answers G" and "calm fs0 (ec_fs c)" and "list_ok depth fs0 buf b lo hi" and "depth \<noteq> 0"
    and "i < el_len fs0 buf b"
    and "ec_sim (visit buf (rec_off b i) ref i) buf (visit_all G rs) Q c"
    and "\<And>c. Q c \<Longrightarrow> Q' (note_eb depth (rec_at fs0 buf b i) c)"
  shows "ec_sim (\<lambda>c. iterate_rec func visit b ref 0 buf i c) buf (visit_all G rs) Q' c"
proof (unfold ec_sim_def, intro allI impI)
  fix r p' assume f: "visit_all G rs (ec_priv c) = (r, p')"
  obtain c' where c': "visit buf (rec_off b i) ref i c = (map_sum id (\<lambda>iret. (iret, buf)) r, c')"
    "calm (ec_fs c) (ec_fs c')" "ec_priv c' = p'" "r = Inr 0 \<longrightarrow> Q c'"
    by (rule ec_simD [OF assms(6) f])
  have iret: "iret = 0 \<or> iret = CMFS_EXTENT_ABORT" if "r = Inr iret" for iret
    using visit_all_answers [OF assms(1)] f that by blast
  have le: "cpu_le (ec_fs c) = cpu_le fs0" "cpu_le (ec_fs c') = cpu_le fs0"
    using calm_fields(1) assms(2) calm_trans [OF assms(2) c'(2)] by blast+
  have depth: "ld16 (cpu_le fs0) buf (b + o_l_tree_depth) = depth" using assms(3) by (simp add: list_ok_def el_depth_def)
  have fits: "\<not> rec_off b i + 32 > length buf" using assms(3,5) by (simp add: list_ok_def)
  let ?c = "note_eb depth (rec_at fs0 buf b i) c'"
  have same: "ec_fs ?c = ec_fs c'" "ec_priv ?c = ec_priv c'" by (simp_all add: note_eb_def)
  have "iterate_rec func visit b ref 0 buf i c = (map_sum id (\<lambda>iret. (iret, buf)) r, if \<exists>e. r = Inl e then c' else ?c)"
    using c'(1) le depth fits assms(4) iret
    by (cases r) (auto simp: iterate_rec_def Let_def bind_io_def note_eb_def)
  then show "\<exists>c'. iterate_rec func visit b ref 0 buf i c = (map_sum id (\<lambda>iret. (iret, buf)) r, c')
    \<and> calm (ec_fs c) (ec_fs c') \<and> ec_priv c' = p' \<and> (r = Inr 0 \<longrightarrow> Q' c')"
    using c'(2-) same assms(7) by auto
qed

lemma concat_filter: "concat (map (\<lambda>i. if P i then [] else [f i]) xs) = map f (filter (\<lambda>i. \<not> P i) xs)"
  by (induction xs) auto

lemma el_sim:
  fixes func :: "'p extent_func"
  assumes "quiet fs0" and "visits fs0 func G R"
  shows "tree_ok d fs0 buf b lo hi \<Longrightarrow> set (tree_list d fs0 buf b) \<subseteq> R \<Longrightarrow> tree_linked d fs0 buf b \<Longrightarrow> calm fs0 (ec_fs c) \<Longrightarrow>
    unat (ec_last_eb_cpos c) \<le> lo \<Longrightarrow> d < 2 ^ 16 \<Longrightarrow>
    ec_sim (extent_iterate_el d func CMFS_EXTENT_FLAG_DATA_ONLY buf b ref) buf
      (visit_all G (tree_list d fs0 buf b))
      (last_seen d fs0 buf b hi (ec_last_eb_blkno c) (ec_last_eb_cpos c)) c"
proof (induction d arbitrary: buf b lo hi ref c)
  case 0
  have ans: "answers G" using assms(2) by (simp add: visits_def)
  let ?R = "\<lambda>i. if i = 0 \<and> e_leaf_blocks (rec_at fs0 buf b i) = 0 then [] else [rec_at fs0 buf b i]"
  let ?Inv = "\<lambda>i :: nat. last_seen 0 fs0 buf b hi (ec_last_eb_blkno c) (ec_last_eb_cpos c)"
  have ok: "list_ok 0 fs0 buf b lo hi" using "0.prems"(1) by simp
  have "ec_sim (iterate_recs (iterate_rec func (\<lambda>_ _ _ _. err_io C_UNDEFINED) b ref) b 0 buf 0) buf
      (visit_all G (concat (map ?R [0..<el_len fs0 buf b]))) (?Inv (el_len fs0 buf b)) c"
  proof (rule iterate_recs_sim [where Inv = ?Inv and R = ?R, OF ans])
    fix i and c' :: "'p extent_context" assume i: "i < el_len fs0 buf b" "calm fs0 (ec_fs c')" "?Inv i c'"
    show "ec_sim (\<lambda>c. iterate_rec func (\<lambda>_ _ _ _. err_io C_UNDEFINED) b ref 0 buf i c) buf
        (visit_all G (?R i)) (?Inv (Suc i)) c'"
      by (rule ec_sim_mono [OF leaf_rec_sim [OF assms(2) i(2) ok i(1)]]) (use i "0.prems"(2) in \<open>auto simp: last_seen_def\<close>)
  qed (use "0.prems"(4) in \<open>simp_all add: last_seen_def\<close>)
  moreover have "concat (map ?R [0..<el_len fs0 buf b]) = tree_list 0 fs0 buf b" by (simp add: concat_filter)
  ultimately show ?case unfolding extent_iterate_el.simps by (intro trim_sim ans) simp
next
  case (Suc d)
  have ans: "answers G" using assms(2) by (simp add: visits_def)
  let ?n = "el_len fs0 buf b" and ?rec = "rec_at fs0 buf b" and ?D = "of_nat (Suc d) :: u16"
  let ?eb = "\<lambda>i. eb_of fs0 (e_blkno (?rec i))"
  let ?Inv = "\<lambda>i c. unat (ec_last_eb_cpos c) \<le> (if i = 0 then lo else rec_end fs0 ?D (?rec (i - 1)))
    \<and> (i \<noteq> 0 \<longrightarrow> ec_last_eb_blkno c = last_leaf d fs0 (?eb (i - 1)) o_h_list (e_blkno (?rec (i - 1))))"
  have ok: "list_ok ?D fs0 buf b lo hi" and n: "0 < ?n" using Suc.prems(1) by simp_all
  have "unat ?D = Suc d" using Suc.prems(6) by (intro unat_of_nat_u16) simp
  then have D0: "?D \<noteq> 0" and D1: "?D = 1 \<longleftrightarrow> d = 0"
    by (metis nat.distinct(1) unat_0, metis One_nat_def of_nat_1 nat.inject unat_1)
  have "ec_sim (iterate_recs (iterate_rec func (extent_iterate_eb_with
        (extent_iterate_el d func CMFS_EXTENT_FLAG_DATA_ONLY) d func CMFS_EXTENT_FLAG_DATA_ONLY) b ref) b 0 buf 0) buf
      (visit_all G (concat (map (\<lambda>i. tree_list d fs0 (?eb i) o_h_list) [0..<?n]))) (?Inv ?n) c"
  proof (rule iterate_recs_sim [where Inv = ?Inv and R = "\<lambda>i. tree_list d fs0 (?eb i) o_h_list", OF ans])
    fix i and c' :: "'p extent_context" assume i: "i < ?n" "calm fs0 (ec_fs c')" "?Inv i c'"
    have start: "unat (ec_last_eb_cpos c') \<le> rec_start (?rec i)"
    proof (cases "i = 0")
      case True
      then show ?thesis using i ok by (auto simp: list_ok_def)
    next
      case False
      then have "rec_end fs0 ?D (?rec (i - 1)) \<le> rec_start (?rec i)" using i(1) ok by (simp add: list_ok_def)
      then show ?thesis using i(3) False by simp
    qed
    show "ec_sim (\<lambda>c. iterate_rec func (extent_iterate_eb_with
        (extent_iterate_el d func CMFS_EXTENT_FLAG_DATA_ONLY) d func CMFS_EXTENT_FLAG_DATA_ONLY) b ref 0 buf i c) buf
        (visit_all G (tree_list d fs0 (?eb i) o_h_list)) (?Inv (Suc i)) c'"
    proof (rule int_rec_sim [OF ans i(2) ok D0 i(1)])
      have at: "extent_block_at fs0 (e_blkno (?rec i)) (?eb i)" "e_blkno (?rec i) \<noteq> 0"
        and sub: "tree_ok d fs0 (?eb i) o_h_list (rec_start (?rec i)) (rec_end fs0 ?D (?rec i))"
        using Suc.prems(1) i(1) eb_of_eq by fastforce+
      have linked: "tree_linked d fs0 (?eb i) o_h_list" "ld64 (cpu_le fs0) (?eb i) o_h_blkno = e_blkno (?rec i)"
        using Suc.prems(3) i(1) by auto
      have depth: "el_depth fs0 (?eb i) o_h_list = of_nat d" using tree_ok_list [OF sub] by (simp add: list_ok_def)
      have blk: "e_blkno (?rec i) = ld64 (cpu_le fs0) buf (rec_off b i + o_e_blkno)"
        by (simp add: el_rec_def extent_rec_of_def)
      have below: "set (tree_list d fs0 (?eb i) o_h_list) \<subseteq> R"
        using Suc.prems(2) i(1) by (simp add: UN_subset_iff)
      let ?same = "\<lambda>c. ec_last_eb_blkno c = ec_last_eb_blkno c' \<and> ec_last_eb_cpos c = ec_last_eb_cpos c'"
      show "ec_sim (extent_iterate_eb_with (extent_iterate_el d func CMFS_EXTENT_FLAG_DATA_ONLY) d func
          CMFS_EXTENT_FLAG_DATA_ONLY buf (rec_off b i) ref i) buf (visit_all G (tree_list d fs0 (?eb i) o_h_list))
          (last_seen d fs0 (?eb i) o_h_list (rec_end fs0 ?D (?rec i)) (ec_last_eb_blkno c') (ec_last_eb_cpos c')) c'"
      proof (rule eb_sim [where P = ?same, OF assms(1) ans i(2) at(1) blk at(2) depth _ linked(2)])
        fix c2 :: "'p extent_context"
        assume c2: "calm fs0 (ec_fs c2)" "?same c2"
        show "ec_sim (extent_iterate_el d func CMFS_EXTENT_FLAG_DATA_ONLY (?eb i) o_h_list (e_blkno (?rec i))) (?eb i)
            (visit_all G (tree_list d fs0 (?eb i) o_h_list)) (last_seen d fs0 (?eb i) o_h_list
              (rec_end fs0 ?D (?rec i)) (ec_last_eb_blkno c') (ec_last_eb_cpos c')) c2"
          using Suc.IH [OF sub below linked(1) c2(1)] start c2(2) Suc.prems(6) by simp
      qed (use Suc.prems(6) in simp_all)
    next
      fix c2 :: "'p extent_context"
      assume seen: "last_seen d fs0 (?eb i) o_h_list (rec_end fs0 ?D (?rec i)) (ec_last_eb_blkno c') (ec_last_eb_cpos c') c2"
      have "e_int_blocks (?rec i) \<noteq> 0" using Suc.prems(3) i(1) by simp
      then show "?Inv (Suc i) (note_eb ?D (?rec i) c2)"
        using seen D1 start last_leaf_any [of d fs0 "?eb i" o_h_list 0 "e_blkno (?rec i)"]
        by (cases "d = 0") (auto simp: last_seen_def note_eb_def rec_start_def rec_end_def word_le_nat_alt)
    qed
  qed (use Suc.prems(4,5) in simp_all)
  then have *: "ec_sim (extent_iterate_el (Suc d) func CMFS_EXTENT_FLAG_DATA_ONLY buf b ref) buf
      (visit_all G (tree_list (Suc d) fs0 buf b)) (?Inv ?n) c"
    unfolding extent_iterate_el.simps by (intro trim_sim ans) simp
  have "?Inv ?n c' \<Longrightarrow> last_seen (Suc d) fs0 buf b hi blk cpos c'" for blk cpos and c' :: "'p extent_context"
  proof -
    assume inv: "?Inv ?n c'"
    have "rec_end fs0 ?D (?rec (?n - 1)) \<le> hi" using ok n by (simp add: list_ok_def del: of_nat_Suc)
    then show ?thesis using inv n by (simp add: last_seen_def Let_def del: of_nat_Suc)
  qed
  with * show ?case unfolding ec_sim_def by metis
qed

section \<open>Iterating over an inode\<close>

text \<open>
  An inode whose extents can be iterated: valid, not a system structure, without inline data,
  with a well-formed tree whose last leaf it refers to.
\<close>

definition iterable :: "cmfs_filesys \<Rightarrow> bytes \<Rightarrow> nat \<Rightarrow> nat \<Rightarrow> nat \<Rightarrow> bool" where
  "iterable fs inode d lo hi \<longleftrightarrow>
     (let di = dinode_of (cpu_le fs) inode 0 in
        i_flags di AND CMFS_VALID_FL \<noteq> 0
      \<and> i_flags di AND (CMFS_SUPER_BLOCK_FL OR CMFS_LOCAL_ALLOC_FL OR CMFS_CHAIN_FL) = 0
      \<and> i_dyn_features di AND CMFS_INLINE_DATA_FL = 0
      \<and> i_last_eb_blk di = last_leaf d fs inode o_id2 0)
     \<and> tree_ok d fs inode o_id2 lo hi \<and> tree_linked d fs inode o_id2 \<and> d < 2 ^ 16"

lemma simulates_get: "(\<And>fs p. calm fs0 fs \<Longrightarrow> f (fs, p) = x) \<Longrightarrow> simulates fs0 (get_io f) (ret_io x)"
  by (auto simp: simulates_def get_io_def ret_io_def)

lemma simulates_bind_ret:
  assumes "simulates fs0 m (ret_io x)" and "simulates fs0 (k x) l"
  shows "simulates fs0 (bind_io m k) l"
proof (rule simulatesI)
  fix fs p r p'
  assume fs: "calm fs0 fs" and l: "l p = (r, p')"
  obtain fs1 where m: "m (fs, p) = (Inr x, (fs1, p))" and fs1: "calm fs fs1"
    using simulatesD [OF assms(1) fs, of p "Inr x" p] by (auto simp: ret_io_def)
  obtain fs2 where "k x (fs1, p) = (r, (fs2, p'))" and "calm fs1 fs2"
    using simulatesD [OF assms(2) calm_trans [OF fs fs1] l] by metis
  then show "\<exists>fs'. bind_io m k (fs, p) = (r, (fs', p')) \<and> calm fs fs'"
    using m fs1 by (auto simp: bind_io_def intro: calm_trans)
qed

lemma simulates_guard: "b \<Longrightarrow> simulates fs0 (guard_io b e) (ret_io ())"
  by (simp add: guard_io_def simulates_ret)

lemma simulates_malloc:
  assumes "quiet fs0"
  shows "simulates fs0 (on_cb_fs malloc_block) (ret_io ())"
proof -
  have "simulates fs0 (on_cb_fs malloc_block) (\<lambda>p. (Inr (), p))"
    by (rule simulates_fs) (intro malloc_yields calm_quiet [OF _ assms])
  then show ?thesis by (simp add: ret_io_def)
qed

lemma extent_iterate_sim:
  assumes "quiet fs0" and "visits fs0 func G (set (tree_list d fs0 inode o_id2))" and "iterable fs0 inode d lo hi"
  shows "simulates fs0 (cmfs_extent_iterate_inode inode CMFS_EXTENT_FLAG_DATA_ONLY False func)
    (bind_io (visit_all G (tree_list d fs0 inode o_id2)) (\<lambda>_. ret_io inode))"
proof -
  let ?le = "cpu_le fs0" and ?di = "dinode_of (cpu_le fs0) inode 0"
  have tree: "tree_ok d fs0 inode o_id2 lo hi" "tree_linked d fs0 inode o_id2" "d < 2 ^ 16"
    using assms(3) by (simp_all add: iterable_def)
  have depth: "unat (ld16 ?le inode (o_id2 + o_l_tree_depth)) = d"
    using tree_ok_list [OF tree(1)] tree(3) by (simp add: list_ok_def el_depth_def unat_of_nat_u16)
  have ans: "answers G" using assms(2) by (simp add: visits_def)
  have mallocs: "simulates fs0 (if d \<noteq> 0 then bind_io (on_cb_fs malloc_block)
      (\<lambda>_. if False then ret_io () else on_cb_fs malloc_block) else ret_io ()) (ret_io ())"
    by (cases "d = 0") (simp_all add: simulates_ret simulates_bind_ret [OF simulates_malloc [OF assms(1)]]
        simulates_malloc [OF assms(1)])
  show ?thesis
    unfolding cmfs_extent_iterate_inode_def
    apply (rule simulates_bind_ret [OF simulates_get [where x = ?di]])
     apply (simp add: calm_simps)
    apply (rule simulates_bind_ret [OF simulates_get [where x = d]])
     apply (use depth in \<open>simp add: calm_simps\<close>)
    apply (rule simulates_bind_ret [OF simulates_guard], use assms(3) in \<open>simp add: iterable_def Let_def\<close>)+
    apply (rule simulates_bind_ret [OF mallocs])
    apply (rule simulatesI)
    subgoal premises prems for fs p r p'
    proof -
      let ?c = "\<lparr> ec_fs = fs, ec_priv = p, ec_ccount = 0, ec_errcode = None, ec_last_eb_blkno = 0, ec_last_eb_cpos = 0 \<rparr>"
      obtain res p1 where f: "visit_all G (tree_list d fs0 inode o_id2) p = (res, p1)" by force
      have sim: "ec_sim (extent_iterate_el d func CMFS_EXTENT_FLAG_DATA_ONLY inode o_id2 0) inode
          (visit_all G (tree_list d fs0 inode o_id2)) (last_seen d fs0 inode o_id2 hi 0 0) ?c"
        using el_sim [OF assms(1,2) tree(1) subset_refl tree(2), of ?c 0] prems(1) tree(3) by simp
      obtain c' where c': "extent_iterate_el d func CMFS_EXTENT_FLAG_DATA_ONLY inode o_id2 0 ?c
          = (map_sum id (\<lambda>iret. (iret, inode)) res, c')" "calm fs (ec_fs c')" "ec_priv c' = p1"
        "res = Inr 0 \<longrightarrow> last_seen d fs0 inode o_id2 hi 0 0 c'"
        using ec_simD [OF sim] f by auto
      have le: "cpu_le (ec_fs c') = cpu_le fs0" using calm_fields(1) [OF calm_trans [OF prems(1) c'(2)]] .
      have last: "ld64 ?le inode o_i_last_eb_blk = ec_last_eb_blkno c'" if "res = Inr 0"
        using c'(4) that assms(3) by (cases "d = 0") (auto simp: last_seen_def iterable_def Let_def dinode_of_def)
      show ?thesis
      proof (cases res)
        case (Inl e)
        then show ?thesis using c' f prems(2) by (auto simp: bind_io_def Let_def)
      next
        case (Inr iret)
        then have "iret = 0 \<or> iret = CMFS_EXTENT_ABORT" using f visit_all_answers [OF ans] by blast
        then show ?thesis using c' f prems(2) Inr le last by (auto simp: bind_io_def ret_io_def Let_def)
      qed
    qed
    done
qed

section \<open>Iterating over blocks\<close>

text \<open>
  The blocks of an extent below the size of the file: block number, block of the file, flags.
\<close>

definition rec_blocks :: "cmfs_filesys \<Rightarrow> u64 \<Rightarrow> cmfs_extent_rec \<Rightarrow> (u64 \<times> u64 \<times> u16) list" where
  "rec_blocks fs isize r =
     (let first = cmfs_clusters_to_blocks fs (ucast (e_cpos r));
          n = unat (cmfs_clusters_to_blocks fs (ucast (cmfs_rec_clusters fs 0 r)))
      in map (\<lambda>k. (e_blkno r + of_nat k, first + of_nat k, ucast (e_flags r)))
           (takeWhile (\<lambda>k. (first + of_nat k) * ucast (fs_blocksize fs) < isize) [0..<n]))"

definition file_blocks :: "cmfs_filesys \<Rightarrow> nat \<Rightarrow> bytes \<Rightarrow> (u64 \<times> u64 \<times> u16) list" where
  "file_blocks fs d inode =
     concat (map (rec_blocks fs (ld64 (cpu_le fs) inode o_i_size)) (tree_list d fs inode o_id2))"

lemma calm_file_blocks [calm_simps]: "calm fs fs' \<Longrightarrow> rec_blocks fs' isize r = rec_blocks fs isize r"
  by (simp add: rec_blocks_def calm_simps)

lemma visit_all_concat:
  assumes "answers H"
  shows "visit_all (\<lambda>r. visit_all H (f r)) rs = visit_all H (concat (map f rs))"
  by (induction rs) (simp_all add: visit_all_append cong: if_cong)

definition visits_blocks :: "cmfs_filesys \<Rightarrow> 'p block_func \<Rightarrow> (u64 \<times> u64 \<times> u16 \<Rightarrow> ('p, u32) io) \<Rightarrow>
    (u64 \<times> u64 \<times> u16) set \<Rightarrow> bool" where
  "visits_blocks fs0 func H B \<longleftrightarrow> answers H
     \<and> (\<forall>blkno bcount ef. (blkno, bcount, ef) \<in> B \<longrightarrow> simulates fs0 (func blkno bcount ef) (H (blkno, bcount, ef)))"

lemma iterate_blocks_sim:
  assumes "visits_blocks fs0 func H B"
  shows "unat bcount + n < 2 ^ 64 \<Longrightarrow> set (map (\<lambda>k. (blkno + of_nat k, bcount + of_nat k, ef))
       (takeWhile (\<lambda>k. (bcount + of_nat k) * ucast (fs_blocksize fs0) < isize) [0..<n])) \<subseteq> B \<Longrightarrow> simulates fs0 (iterate_blocks func 0 isize ef 0 blkno bcount (bcount + of_nat n))
    (visit_all H (map (\<lambda>k. (blkno + of_nat k, bcount + of_nat k, ef))
       (takeWhile (\<lambda>k. (bcount + of_nat k) * ucast (fs_blocksize fs0) < isize) [0..<n])))"
proof (induction n arbitrary: blkno bcount)
  case 0
  show ?case
    by (subst iterate_blocks.simps [abs_def]) (simp add: simulates_def ret_io_def)
next
  case (Suc n)
  let ?P = "\<lambda>bc k. (bc + of_nat k) * ucast (fs_blocksize fs0) < isize"
  let ?item = "\<lambda>bk bc k. (bk + of_nat k, bc + of_nat k, ef)"
  have list: "map (?item blkno bcount) (takeWhile (?P bcount) [0..<Suc n]) = (if ?P bcount 0
      then (blkno, bcount, ef) # map (?item (blkno + 1) (bcount + 1)) (takeWhile (?P (bcount + 1)) [0..<n]) else [])"
  proof -
    have "[0..<Suc n] = 0 # map Suc [0..<n]" by (simp add: upt_conv_Cons map_Suc_upt del: upt_Suc)
    then show ?thesis by (simp add: takeWhile_map comp_def add_ac del: upt_Suc)
  qed
  have bend: "bcount + of_nat (Suc n) = bcount + 1 + of_nat n" by simp
  have "unat (of_nat (Suc n) :: u64) = Suc n" using Suc.prems(1) by (intro unat_of_nat_u64) simp
  then have "unat (bcount + of_nat (Suc n)) = unat bcount + Suc n"
    using Suc.prems(1) by (simp add: unat_add_lem [THEN iffD1] del: of_nat_Suc)
  then have less: "bcount < bcount + 1 + of_nat n" unfolding bend [symmetric] by (simp add: word_less_nat_alt del: of_nat_Suc)
  have one: "unat (bcount + 1) + n < 2 ^ 64"
    using Suc.prems(1) by (simp add: unat_add_lem [THEN iffD1])
  show ?case
  proof (rule simulatesI)
    fix fs p r p'
    assume fs: "calm fs0 fs"
      and v: "visit_all H (map (?item blkno bcount) (takeWhile (?P bcount) [0..<Suc n])) p = (r, p')"
    have bs: "fs_blocksize fs = fs_blocksize fs0" using calm_fields(3) [OF fs] .
    show "\<exists>fs'. iterate_blocks func 0 isize ef 0 blkno bcount (bcount + of_nat (Suc n)) (fs, p) = (r, (fs', p')) \<and> calm fs fs'"
    proof (cases "?P bcount 0")
      case False
      then have "(r, p') = (Inr 0, p)" and "bcount * ucast (fs_blocksize fs) \<ge> isize"
        using v unfolding list by (simp_all add: ret_io_def bs)
      then show ?thesis by (subst iterate_blocks.simps) auto
    next
      case True
      obtain r1 p1 where h: "H (blkno, bcount, ef) p = (r1, p1)" by force
      have "(blkno, bcount, ef) \<in> B" using Suc.prems(2) unfolding list if_P [OF True] by simp
      then have sim: "simulates fs0 (func blkno bcount ef) (H (blkno, bcount, ef))" using assms by (simp add: visits_blocks_def)
      have rest: "set (map (?item (blkno + 1) (bcount + 1)) (takeWhile (?P (bcount + 1)) [0..<n])) \<subseteq> B"
        using Suc.prems(2) unfolding list if_P [OF True] by simp
      obtain fs1 where f: "func blkno bcount ef (fs, p) = (r1, (fs1, p1))" and fs1: "calm fs fs1"
        by (rule simulatesD [OF sim fs h])
      have lt: "bcount < bcount + of_nat (Suc n)" using less unfolding bend .
      have small: "\<not> (bcount * ucast (fs_blocksize fs) \<ge> isize \<and> (0 :: u32) AND CMFS_BLOCK_FLAG_APPEND = 0)"
        using True by (simp add: bs not_le)
      have step: "iterate_blocks func 0 isize ef 0 blkno bcount (bcount + of_nat (Suc n)) (fs, p) = (case r1 of
          Inl e \<Rightarrow> (Inl e, (fs1, p1))
        | Inr iret \<Rightarrow> if iret AND CMFS_BLOCK_ABORT \<noteq> 0 then (Inr iret, (fs1, p1))
            else iterate_blocks func 0 isize ef iret (blkno + 1) (bcount + 1) (bcount + of_nat (Suc n)) (fs1, p1))"
        unfolding iterate_blocks.simps [of func 0 isize ef 0] fst_conv if_P [OF lt] if_not_P [OF small] f
        by (simp split: sum.split del: of_nat_Suc)
      have v': "(r, p') = (case r1 of Inl e \<Rightarrow> (Inl e, p1) | Inr iret \<Rightarrow> if iret \<noteq> 0 then (Inr iret, p1)
          else visit_all H (map (?item (blkno + 1) (bcount + 1)) (takeWhile (?P (bcount + 1)) [0..<n])) p1)"
        using v h unfolding list if_P [OF True] by (auto simp: bind_io_def ret_io_def split: sum.splits)
      show ?thesis
      proof (cases "r1 = Inr 0")
        case abort: False
        have "\<forall>iret. r1 = Inr iret \<longrightarrow> iret = CMFS_BLOCK_ABORT"
          using assms h abort unfolding visits_blocks_def answers_def by (metis fst_conv)
        then show ?thesis using v' fs1 abort unfolding step by (cases r1) auto
      next
        case go: True
        have "visit_all H (map (?item (blkno + 1) (bcount + 1)) (takeWhile (?P (bcount + 1)) [0..<n])) p1 = (r, p')"
          using v' go by simp
        then obtain fs2 where "iterate_blocks func 0 isize ef 0 (blkno + 1) (bcount + 1) (bcount + 1 + of_nat n) (fs1, p1)
            = (r, (fs2, p'))" and fs2: "calm fs1 fs2"
          by (rule simulatesD [OF Suc.IH [OF one rest] calm_trans [OF fs fs1]])
        then have "iterate_blocks func 0 isize ef 0 blkno bcount (bcount + of_nat (Suc n)) (fs, p) = (r, (fs2, p'))"
          unfolding step unfolding go bend by simp
        then show ?thesis using calm_trans [OF fs1 fs2] by blast
      qed
    qed
  qed
qed

lemma clusters_to_blocks_small: "unat (cmfs_clusters_to_blocks fs c) < 2 ^ 32"
  by (simp add: unat_clusters_to_blocks)

lemma block_func_sim:
  assumes "visits_blocks fs0 func H B"
    and "\<forall>r \<in> R. set (rec_blocks fs0 (ld64 (cpu_le fs0) inode o_i_size) r) \<subseteq> B"
  shows "visits fs0 (block_iterate_func inode 0 func)
    (\<lambda>r. visit_all H (rec_blocks fs0 (ld64 (cpu_le fs0) inode o_i_size) r)) R"
    (is "visits fs0 ?func ?G R")
proof -
  let ?isize = "ld64 (cpu_le fs0) inode o_i_size"
  have ans: "answers H" using assms(1) by (simp add: visits_blocks_def)
  have "answers ?G" unfolding answers_def
    by (metis ans prod.collapse visit_all_answers)
  moreover have "simulates fs0 (?func buf r 0 cc ref no)
      (bind_io (?G (extent_rec_of (cpu_le fs0) buf r)) (\<lambda>iret. ret_io (iret, buf)))" if R: "extent_rec_of (cpu_le fs0) buf r \<in> R" for buf r cc ref no
  proof (rule simulatesI)
    fix fs p res p'
    let ?r = "extent_rec_of (cpu_le fs0) buf r"
    let ?b = "cmfs_clusters_to_blocks fs0 (ucast (e_cpos ?r))"
      and ?n = "cmfs_clusters_to_blocks fs0 (ucast (cmfs_rec_clusters fs0 0 ?r))"
    assume fs: "calm fs0 fs" and v: "bind_io (?G ?r) (\<lambda>iret. ret_io (iret, buf)) p = (res, p')"
    have "unat ?b + unat ?n < 2 ^ 64" using clusters_to_blocks_small [of fs0 "ucast (e_cpos ?r)"]
        clusters_to_blocks_small [of fs0 "ucast (cmfs_rec_clusters fs0 0 ?r)"] by simp
    then have "simulates fs0 (iterate_blocks func 0 ?isize (ucast (e_flags ?r)) 0 (e_blkno ?r) ?b (?b + ?n)) (?G ?r)"
      using iterate_blocks_sim [OF assms(1), of ?b "unat ?n" "e_blkno ?r" "ucast (e_flags ?r)" ?isize] assms(2) R
      by (simp add: rec_blocks_def Let_def)
    then have "simulates fs0 (bind_io (iterate_blocks func 0 ?isize (ucast (e_flags ?r)) 0 (e_blkno ?r) ?b (?b + ?n))
        (\<lambda>iret. ret_io (iret, buf))) (bind_io (?G ?r) (\<lambda>iret. ret_io (iret, buf)))"
      by (rule simulates_bind) (rule simulates_ret)
    from simulatesD [OF this fs v] show "\<exists>fs'. ?func buf r 0 cc ref no (fs, p) = (res, (fs', p')) \<and> calm fs fs'"
      unfolding block_iterate_func_def Let_def by (simp add: calm_fields [OF fs] calm_derived [OF fs]) blast
  qed
  ultimately show ?thesis by (simp add: visits_def)
qed

lemma block_iterate_inode_sim:
  assumes "quiet fs0" and "visits_blocks fs0 func H (set (file_blocks fs0 d inode))" and "iterable fs0 inode d lo hi"
  shows "simulates fs0 (cmfs_block_iterate_inode inode 0 func)
    (bind_io (visit_all H (file_blocks fs0 d inode)) (\<lambda>_. ret_io inode))"
proof -
  have "answers H" using assms(2) by (simp add: visits_blocks_def)
  then show ?thesis
    using extent_iterate_sim [OF assms(1) block_func_sim [OF assms(2)] assms(3)]
    by (auto simp add: cmfs_block_iterate_inode_def file_blocks_def visit_all_concat)
qed

lemma block_iterate_sim:
  assumes "quiet fs0" and "visits_blocks fs0 func H (set (file_blocks fs0 d inode))" and "inode_at fs0 blkno inode" and "iterable fs0 inode d lo hi"
  shows "simulates fs0 (cmfs_block_iterate blkno 0 func)
    (bind_io (visit_all H (file_blocks fs0 d inode)) (\<lambda>_. ret_io ()))"
proof -
  have read: "simulates fs0 (on_cb_fs (cmfs_read_inode blkno)) (ret_io inode)"
    using simulates_fs [of fs0 "cmfs_read_inode blkno" "Inr inode"] read_inode_yields calm_at(1) calm_quiet assms(1,3)
    by (metis ret_io_def)
  have inode: "simulates fs0 (bind_io (cmfs_block_iterate_inode inode 0 func) (\<lambda>_. ret_io ()))
    (bind_io (bind_io (visit_all H (file_blocks fs0 d inode)) (\<lambda>_. ret_io inode)) (\<lambda>_. ret_io ()))"
    by (rule simulates_bind [OF block_iterate_inode_sim [OF assms(1,2,4)] simulates_ret])
  have "bind_io (bind_io (visit_all H (file_blocks fs0 d inode)) (\<lambda>_. ret_io inode)) (\<lambda>_. ret_io ())
      = bind_io (visit_all H (file_blocks fs0 d inode)) (\<lambda>_. ret_io ())"
    by (auto simp: bind_io_def ret_io_def split: prod.split sum.split intro!: ext)
  then show ?thesis using inode unfolding cmfs_block_iterate_def
    by (intro simulates_bind_ret [OF simulates_malloc [OF assms(1)]] simulates_bind_ret [OF read]) simp
qed

end
