(* ===== verification/Lookup.thy ===== *)
theory Lookup
  imports Iteration Dir_entries
begin

text \<open>
  \<^verbatim>\<open>cmfs_lookup\<close> on a quiet device: it finds the first entry of the directory with the name,
  in the order of the blocks of the directory and of the entries in a block.
\<close>

section \<open>The contents of a directory\<close>

definition dir_block_ok :: "cmfs_filesys \<Rightarrow> u64 \<Rightarrow> bool" where
  "dir_block_ok fs k \<longleftrightarrow> (\<exists>buf. block_at fs k = Some buf \<and> block_listing True (bsize fs) buf \<noteq> None)"

definition listing_at :: "cmfs_filesys \<Rightarrow> u64 \<Rightarrow> (bytes \<times> u64) list" where
  "listing_at fs k = the (block_listing True (bsize fs) (the (block_at fs k)))"

text \<open>Names and inodes of a directory whose inode is \<open>di\<close>, with an extent tree of depth \<open>d\<close>.\<close>

definition dir_listing :: "cmfs_filesys \<Rightarrow> nat \<Rightarrow> bytes \<Rightarrow> (bytes \<times> u64) list" where
  "dir_listing fs d di = concat (map (\<lambda>(blkno, _, _). listing_at fs blkno) (file_blocks fs d di))"

definition directory_at :: "cmfs_filesys \<Rightarrow> u64 \<Rightarrow> bytes \<Rightarrow> nat \<Rightarrow> bool" where
  "directory_at fs dir di d \<longleftrightarrow> inode_at fs dir di \<and> S_ISDIR (ld16 (cpu_le fs) di o_i_mode)
     \<and> (\<exists>lo hi. iterable fs di d lo hi) \<and> (\<forall>(blkno, _, _) \<in> set (file_blocks fs d di). dir_block_ok fs blkno)"

lemma calm_directory [calm_simps]:
  assumes "calm fs fs'"
  shows "listing_at fs' k = listing_at fs k" "file_blocks fs' d di = file_blocks fs d di"
    "dir_listing fs' d di = dir_listing fs d di" "directory_at fs' dir di d = directory_at fs dir di d"
proof -
  note eqs = calm_fields [OF assms] calm_lists [OF assms] calm_file_blocks [OF assms]
  have "rec_blocks fs' = rec_blocks fs" using calm_file_blocks [OF assms] by (intro ext)
  then show blocks: "file_blocks fs' d di = file_blocks fs d di" for d di by (simp add: file_blocks_def eqs)
  show listing: "listing_at fs' k = listing_at fs k" for k by (simp add: listing_at_def eqs)
  show "dir_listing fs' d di = dir_listing fs d di" by (simp add: dir_listing_def blocks listing)
  show "directory_at fs' dir di d = directory_at fs dir di d"
    by (simp add: directory_at_def blocks dir_block_ok_def iterable_def eqs calm_at [OF assms] calm_tree_ok [OF assms])
qed

lemma block_listing_Some: "block_listing le bs buf \<noteq> None \<Longrightarrow> \<exists>ps. dirents le buf bs 0 = Some ps"
  by (auto simp: block_listing_def)

lemma read_dir_block_yields:
  assumes "quiet fs" and "cpu_le fs" and "block_at fs k = Some buf" and "block_listing True (bsize fs) buf \<noteq> None"
  shows "yields calm (cmfs_read_dir_block k) fs (Inr buf)"
proof -
  obtain ps where ps: "dirents True buf (bsize fs) 0 = Some ps" using block_listing_Some [OF assms(4)] by blast
  have "cmfs_swap_dir_entries_to_cpu True 0 (bsize fs) buf = (Inr (), buf)"
    using swap_dir_loop_ok [OF ps]
    by (simp add: cmfs_swap_dir_entries_to_cpu_def cmfs_swap_dir_entries_direction_def)
  then show ?thesis unfolding cmfs_read_dir_block_def
    by (intro calm.bind [OF read_block_yields [OF assms(1,3)]])
      (use assms(2) in \<open>simp add: yields_def on_buf_def calm_simps\<close>)
qed

section \<open>Visiting the blocks\<close>

definition found_entry :: "u64 \<Rightarrow> lookup_struct \<Rightarrow> lookup_struct" where
  "found_entry ino ls = ls\<lparr> ls_inode := Some ino, ls_found := ls_found ls + 1 \<rparr>"

definition dir_visit :: "cmfs_filesys \<Rightarrow> bytes \<Rightarrow> u64 \<times> u64 \<times> u16 \<Rightarrow> (lookup_struct dir_state, u32) io" where
  "dir_visit fs nm b ds =
     (let ds = ds\<lparr> ds_errcode := None, ds_buf := the (block_at fs (fst b)) \<rparr>
      in case map_of (listing_at fs (fst b)) nm of
           None \<Rightarrow> (Inr 0, ds)
         | Some ino \<Rightarrow> (Inr CMFS_BLOCK_ABORT, ds\<lparr> ds_priv := found_entry ino (ds_priv ds) \<rparr>))"

lemma calm_bsize [calm_simps]: "calm fs fs' \<Longrightarrow> bsize fs' = bsize fs"
  by (simp add: calm_simps)

lemma process_block_sim:
  assumes "quiet fs0" and "cpu_le fs0" and "dir_block_ok fs0 k" and "0 \<notin> set nm" and "take (length nm) name = nm"
  shows "simulates fs0 (cmfs_process_dir_block 0 (xlate_func (lookup_proc name (int (length nm)))) k bc ef)
    (dir_visit fs0 nm (k, bc, ef))"
proof (rule simulatesI)
  fix fs ds r ds'
  assume fs: "calm fs0 fs" and v: "dir_visit fs0 nm (k, bc, ef) ds = (r, ds')"
  let ?func = "xlate_func (lookup_proc name (int (length nm)))"
  obtain buf where buf: "block_at fs0 k = Some buf" "block_listing True (bsize fs0) buf \<noteq> None"
    using assms(3) by (auto simp: dir_block_ok_def)
  obtain ps where ps: "dirents True buf (bsize fs0) 0 = Some ps" using block_listing_Some [OF buf(2)] by blast
  have at: "listing_at fs0 k = listing True buf ps" using ps by (simp add: listing_at_def buf(1) block_listing_def)
  have "yields calm (cmfs_read_dir_block k) fs (Inr buf)"
    using buf fs assms(2) by (intro read_dir_block_yields calm_quiet [OF fs assms(1)]) (simp_all add: calm_simps)
  then obtain fs1 where read: "cmfs_read_dir_block k fs = (Inr buf, fs1)" and fs1: "calm fs fs1"
    by (blast dest: yields_run)
  have c1: "calm fs0 fs1" by (rule calm_trans [OF fs fs1])
  note fields = calm_fields [OF c1]
  have len: "length buf = bsize fs0" by (rule length_block_at [OF buf(1)])
  let ?ds = "ds\<lparr> ds_errcode := None, ds_buf := buf \<rparr>"
  have entry: "cmfs_process_dir_entry 0 ?func k 0 e (fs1, ?ds) =
      (case map_of (listing True buf ps) nm of
         None \<Rightarrow> (Inr (0, False, False), (fs1, ?ds))
       | Some ino \<Rightarrow> (Inr (0, False, True), (fs1, ?ds\<lparr> ds_priv := found_entry ino (ds_priv ds) \<rparr>)))" for e
    using process_dir_entry_lookup [of fs1 ?ds ps nm name k e] ps len assms(2,4,5)
    by (simp add: fields found_entry_def split: option.split)
  have "cmfs_process_dir_block 0 ?func k bc ef (fs, ds) = (r, (fs1, ds'))"
    using read entry v
    by (auto simp: cmfs_process_dir_block_def or_abort_def set_errcode_def bind_io_def upd_io_def dir_visit_def
        buf(1) at Let_def split: option.splits)
  then show "\<exists>fs'. cmfs_process_dir_block 0 ?func k bc ef (fs, ds) = (r, (fs', ds')) \<and> calm fs fs'"
    using fs1 by blast
qed

lemma dir_visit_answers: "answers (dir_visit fs nm)"
  by (auto simp: answers_def dir_visit_def Let_def split: option.splits)

lemma visit_dir:
  assumes "ds_errcode ds = None"
  shows "\<exists>ds'. visit_all (dir_visit fs nm) bs ds
      = (Inr (if map_of (concat (map (\<lambda>(k, _, _). listing_at fs k) bs)) nm = None then 0 else CMFS_BLOCK_ABORT), ds')
    \<and> ds_errcode ds' = None
    \<and> ds_priv ds' = (case map_of (concat (map (\<lambda>(k, _, _). listing_at fs k) bs)) nm of
        None \<Rightarrow> ds_priv ds | Some ino \<Rightarrow> found_entry ino (ds_priv ds))"
  using assms
proof (induction bs arbitrary: ds)
  case Nil
  then show ?case by (simp add: ret_io_def)
next
  case (Cons b bs)
  obtain k bc ef where b: "b = (k, bc, ef)" by (metis prod.exhaust)
  let ?ds = "ds\<lparr> ds_errcode := None, ds_buf := the (block_at fs k) \<rparr>"
  show ?case
  proof (cases "map_of (listing_at fs k) nm")
    case None
    then have visit: "visit_all (dir_visit fs nm) (b # bs) ds = visit_all (dir_visit fs nm) bs ?ds"
      by (simp add: b bind_io_def dir_visit_def Let_def)
    have found: "map_of (concat (map (\<lambda>(k, _, _). listing_at fs k) (b # bs))) nm
        = map_of (concat (map (\<lambda>(k, _, _). listing_at fs k) bs)) nm"
      using None by (simp add: b map_add_def split: option.split)
    have ds: "ds_errcode ?ds = None" "ds_priv ?ds = ds_priv ds" by simp_all
    show ?thesis unfolding visit found using Cons.IH [OF ds(1)] unfolding ds(2) .
  next
    case (Some ino)
    then show ?thesis by (simp add: b bind_io_def ret_io_def dir_visit_def Let_def map_add_def)
  qed
qed

section \<open>Looking up a name in a directory\<close>

lemma check_directory_yields:
  assumes "quiet fs" and "inode_at fs dir di" and "S_ISDIR (ld16 (cpu_le fs) di o_i_mode)"
  shows "yields calm (cmfs_check_directory dir) fs (Inr ())"
proof -
  have ok: "blkno_ok fs dir" using assms(2) by (simp add: inode_at_def)
  have "yields calm (bind_io malloc_block (\<lambda>_. bind_io (cmfs_read_inode dir) (\<lambda>buf.
      guard_io (S_ISDIR (ld16 (cpu_le fs) buf o_i_mode)) CMFS_ET_NO_DIRECTORY))) fs (Inr ())"
    by (rule calm.bind [OF malloc_yields [OF assms(1)]], rule calm.bind [OF read_inode_yields, of _ _ di])
      (use assms in \<open>simp_all add: calm_simps calm_quiet [OF _ assms(1)] calm.guard\<close>)
  then show ?thesis using ok by (simp add: yields_def cmfs_check_directory_def)
qed

lemma dir_iterate_lookup:
  assumes "quiet fs0" and "cpu_le fs0" and "directory_at fs0 dir di d" and "0 \<notin> set nm" and "take (length nm) name = nm"
  shows "\<exists>fs'. cmfs_dir_iterate dir 0 has_buf (lookup_proc name (int (length nm))) (fs0, ls) = (Inr (), (fs',
      case map_of (dir_listing fs0 d di) nm of None \<Rightarrow> ls | Some ino \<Rightarrow> found_entry ino ls)) \<and> calm fs0 fs'"
proof -
  let ?func = "xlate_func (lookup_proc name (int (length nm)))"
  let ?H = "dir_visit fs0 nm" and ?blocks = "file_blocks fs0 d di"
  obtain lo hi where di: "inode_at fs0 dir di" "S_ISDIR (ld16 (cpu_le fs0) di o_i_mode)" "iterable fs0 di d lo hi"
    and blocks: "\<forall>(blkno, _, _) \<in> set ?blocks. dir_block_ok fs0 blkno"
    using assms(3) by (auto simp: directory_at_def)
  have "visits_blocks fs0 (cmfs_process_dir_block 0 ?func) ?H (set ?blocks)"
    using process_block_sim [OF assms(1,2) _ assms(4,5)] blocks dir_visit_answers
    by (fastforce simp: visits_blocks_def)
  note sim = block_iterate_sim [OF assms(1) this di(1,3)]
  let ?P = "\<lambda>ls. (Inr () :: errcode + unit, case map_of (dir_listing fs0 d di) nm of None \<Rightarrow> ls | Some ino \<Rightarrow> found_entry ino ls)"
  have calm_di: "quiet fs" "inode_at fs dir di" "S_ISDIR (ld16 (cpu_le fs) di o_i_mode)" if "calm fs0 fs" for fs
    using calm_quiet [OF that assms(1)] di by (simp_all add: calm_simps [OF that])
  have check: "simulates fs0 (on_cb_fs (cmfs_check_directory dir)) (ret_io ())"
    unfolding ret_io_def by (rule simulates_fs, rule check_directory_yields [of _ _ di]) (erule calm_di)+
  have read: "simulates fs0 (on_cb_fs (cmfs_read_inode dir)) (ret_io di)"
    unfolding ret_io_def by (rule simulates_fs) (intro read_inode_yields calm_di)
  have malloc: "simulates fs0 (if has_buf then ret_io () else on_cb_fs malloc_block) (ret_io ())"
    by (simp add: simulates_ret simulates_malloc [OF assms(1)])
  have walk: "simulates fs0 (\<lambda>s. case cmfs_block_iterate dir 0 (cmfs_process_dir_block 0 ?func)
      (fst s, \<lparr> ds_buf = buf, ds_errcode = None, ds_priv = snd s \<rparr>) of (r, (fs, ds)) \<Rightarrow>
        ((case r of Inl e \<Rightarrow> Inl e
           | Inr _ \<Rightarrow> (case ds_errcode ds of None \<Rightarrow> Inr () | Some e \<Rightarrow> Inl e)), (fs, ds_priv ds))) ?P" for buf
  proof (rule simulatesI)
    fix fs ls r ls'
    assume fs: "calm fs0 fs" and p: "?P ls = (r, ls')"
    let ?ds = "\<lparr> ds_buf = buf, ds_errcode = None, ds_priv = ls \<rparr>"
    obtain ds' where ds': "visit_all ?H ?blocks ?ds = (Inr (if map_of (dir_listing fs0 d di) nm = None then 0 else CMFS_BLOCK_ABORT), ds')"
      "ds_errcode ds' = None" "ds_priv ds' = (case map_of (dir_listing fs0 d di) nm of None \<Rightarrow> ls | Some ino \<Rightarrow> found_entry ino ls)"
      using visit_dir [of ?ds fs0 nm ?blocks, folded dir_listing_def, unfolded dir_state.simps] by blast
    then have "bind_io (visit_all ?H ?blocks) (\<lambda>_. ret_io ()) ?ds = (Inr (), ds')" by (simp add: bind_io_def ret_io_def)
    from simulatesD [OF sim fs this] obtain fs' where
      "cmfs_block_iterate dir 0 (cmfs_process_dir_block 0 ?func) (fs, ?ds) = (Inr (), (fs', ds'))" "calm fs fs'" by blast
    then show "\<exists>fs'. (case cmfs_block_iterate dir 0 (cmfs_process_dir_block 0 ?func)
      (fst (fs, ls), \<lparr> ds_buf = buf, ds_errcode = None, ds_priv = snd (fs, ls) \<rparr>) of (r, (fs, ds)) \<Rightarrow>
        ((case r of Inl e \<Rightarrow> Inl e
           | Inr _ \<Rightarrow> (case ds_errcode ds of None \<Rightarrow> Inr () | Some e \<Rightarrow> Inl e)), (fs, ds_priv ds)))
        = (r, (fs', ls')) \<and> calm fs fs'"
      using ds' p by auto
  qed
  have "simulates fs0 (cmfs_dir_iterate dir 0 has_buf (lookup_proc name (int (length nm)))) ?P"
    unfolding cmfs_dir_iterate_def cmfs_dir_iterate2_def
    by (intro simulates_bind_ret [OF check] simulates_bind_ret [OF malloc]
        simulates_bind_ret [OF simulates_malloc [OF assms(1)]] simulates_bind_ret [OF read] walk)
  from simulatesD [OF this, of fs0 ls] show ?thesis by auto
qed

lemma lookup_yields:
  assumes "quiet fs" and "cpu_le fs" and "directory_at fs dir di d" and "0 \<notin> set nm" and "take (length nm) name = nm"
  shows "yields calm (cmfs_lookup dir name (int (length nm)) has_buf) fs
    (case map_of (dir_listing fs d di) nm of None \<Rightarrow> Inl CMFS_ET_FILE_NOT_FOUND | Some ino \<Rightarrow> Inr ino)"
proof -
  let ?found = "case map_of (dir_listing fs d di) nm of None \<Rightarrow> Inl CMFS_ET_FILE_NOT_FOUND | Some ino \<Rightarrow> Inr ino"
  let ?rest = "\<lambda>fs. case cmfs_dir_iterate dir 0 has_buf (lookup_proc name (int (length nm)))
              (fs, \<lparr> ls_inode = None, ls_found = 0 \<rparr>) of
         (Inl e, (fs, ls)) \<Rightarrow> (Inl e, fs)
       | (Inr _, (fs, ls)) \<Rightarrow>
           (case ls_inode ls of
              Some ino \<Rightarrow> if ls_found ls \<noteq> 0 then (Inr ino, fs) else (Inl CMFS_ET_FILE_NOT_FOUND, fs)
            | None \<Rightarrow> (Inl CMFS_ET_FILE_NOT_FOUND, fs))"
  have di: "inode_at fs dir di" using assms(3) by (simp add: directory_at_def)
  have rest: "yields calm ?rest fs1 ?found" if c: "calm fs fs1" for fs1
  proof -
    have "directory_at fs1 dir di d" "cpu_le fs1" "dir_listing fs1 d di = dir_listing fs d di"
      using assms(2,3) by (simp_all add: calm_simps [OF c])
    from dir_iterate_lookup [OF calm_quiet [OF c assms(1)] this(2,1) assms(4,5), of has_buf "\<lparr> ls_inode = None, ls_found = 0 \<rparr>"] this(3)
    obtain fs2 where "cmfs_dir_iterate dir 0 has_buf (lookup_proc name (int (length nm))) (fs1, \<lparr> ls_inode = None, ls_found = 0 \<rparr>)
      = (Inr (), (fs2, case map_of (dir_listing fs d di) nm of None \<Rightarrow> \<lparr> ls_inode = None, ls_found = 0 \<rparr>
          | Some ino \<Rightarrow> found_entry ino \<lparr> ls_inode = None, ls_found = 0 \<rparr>))" and "calm fs1 fs2" by auto
    then show ?thesis by (auto simp: yields_def found_entry_def split: option.split)
  qed
  show ?thesis unfolding cmfs_lookup_def
    by (rule calm.bind [OF malloc_yields [OF assms(1)]], rule calm.bind [OF read_inode_yields [of _ _ di] rest])
      (use assms(1) di in \<open>auto simp: calm_simps calm_quiet intro: calm_trans\<close>)
qed

end
