(* ===== verification/Mkfs_lookup.thy ===== *)
theory Mkfs_lookup
  imports Mkfs_directory Lookup
begin

text \<open>
  From \<^verbatim>\<open>mkfs.cmfs\<close> to libcmfs: a directory that mkfs has filled and written is one in which
  \<^verbatim>\<open>cmfs_lookup\<close> finds the names.
\<close>

section \<open>A block of a buffer\<close>

lemma ld_field:
  "off < n \<Longrightarrow> b + n \<le> length buf \<Longrightarrow> ld8 (field n b buf) off = ld8 buf (b + off)"
  "off + 2 \<le> n \<Longrightarrow> ld16 le (field n b buf) off = ld16 le buf (b + off)"
  "off + 8 \<le> n \<Longrightarrow> ld64 le (field n b buf) off = ld64 le buf (b + off)"
  by (simp_all add: ld8_def ld16_def ld64_def ld_def field_field) (simp add: field_def)

lemma dirents_shift:
  assumes "dirents le buf e p = Some ps" and "e = b + bs" and "b + bs \<le> length buf" and "p = b + q"
  shows "\<exists>qs. dirents le (field bs b buf) bs q = Some qs \<and> listing le (field bs b buf) qs = listing le buf ps"
  using assms
proof (induction arbitrary: q rule: dirents_induct)
  case (stop p)
  then show ?case by (subst dirents.simps) (simp add: listing_simps)
next
  case (entry p ps)
  let ?f = "field bs b buf"
  have q: "q + 12 \<le> bs" "q + 12 + de_name_len buf p \<le> bs" "p = b + q"
    using entry.hyps(2,3,5) entry.prems by simp_all
  have same: "de_rec_len le ?f q = de_rec_len le buf p" "de_name_len ?f q = de_name_len buf p"
    "entry_inode le ?f q = entry_inode le buf p"
    using q entry.prems(2) by (simp_all add: entry_inode_def ld_field add.assoc)
  have name: "entry_name ?f q = entry_name buf p"
  proof -
    have "field (de_name_len buf p) (q + o_d_name) ?f = field (de_name_len buf p) (p + o_d_name) buf"
      using q by (subst field_field) (simp_all add: add.assoc add.commute)
    then show ?thesis unfolding entry_name_def same by (simp add: field_def)
  qed
  obtain qs where qs: "dirents le ?f bs (q + de_rec_len le buf p) = Some qs" "listing le ?f qs = listing le buf ps"
    using entry.IH [OF entry.prems(1,2), of "q + de_rec_len le buf p"] entry.prems(3) by (auto simp: add.assoc)
  have "dirents le ?f bs q = Some (q # qs)"
    using entry.hyps(1-5) entry.prems(1,3) qs(1) by (subst dirents.simps) (simp add: same Let_def)
  then show ?case using qs(2) same(3) name by (intro exI [of _ "q # qs"]) (simp add: listing_simps)
qed

lemma block_of_buffer:
  assumes "well_formed le bs buf off" and "k < length buf div bs"
  shows "block_listing le bs (field bs (k * bs) buf) = Some (listing le buf (the (block_entries le bs buf k)))"
proof -
  from assms have "length buf = (length buf div bs) * bs" and entries: "block_entries le bs buf k \<noteq> None"
    by (auto simp: well_formed_def Let_def)
  moreover have "Suc k * bs \<le> (length buf div bs) * bs" using assms(2) by (intro mult_le_mono1) simp
  ultimately have room: "k * bs + bs \<le> length buf" by simp
  from entries obtain ps where ps: "dirents le buf (Suc k * bs) (k * bs) = Some ps" by (auto simp: block_entries_def)
  have "Suc k * bs = k * bs + bs" by simp
  from dirents_shift [OF ps this room, of 0] show ?thesis
    using ps by (auto simp: block_listing_def block_entries_def simp del: mult_Suc)
qed

section \<open>Writing the directory\<close>

text \<open>The extent of the directory is on a device of mkfs that accepts every write.\<close>

definition extent_ready :: "mkfs_state \<Rightarrow> dir_id \<Rightarrow> disk_record \<Rightarrow> bool" where
  "extent_ready s d r \<longleftrightarrow> dev_script (ms_io s) = [] \<and> length (dev_data (ms_io s)) < 2 ^ 63
     \<and> unat (extent_off r) + unat (extent_len r) \<le> length (dev_data (ms_io s))
     \<and> dir_size s d \<le> unat (extent_len r) \<and> extent_len r \<noteq> 0"

lemma swap_dir_same:
  assumes "well_formed True (ms_bs s) buf off" and "ms_le s" and "plain_blocks s"
    and "unat (file_size r) = length buf"
  shows "mkfs_swap_dir s r buf = buf"
proof -
  let ?bs = "ms_bs s"
  have bs: "0 < ?bs" "length buf = (length buf div ?bs) * ?bs"
    using well_formedE [OF assms(1)] assms(1) by (blast, simp add: well_formed_def Let_def)
  have "(length buf + ?bs - 1) div ?bs = length buf div ?bs"
  proof -
    have "(length buf + ?bs - 1) div ?bs = (length buf div ?bs * ?bs + (?bs - 1)) div ?bs" using bs by simp
    also have "\<dots> = length buf div ?bs" using bs(1) by (subst div_mult_self3) simp_all
    finally show ?thesis .
  qed
  moreover have "swap_dir_block s False (k * ?bs) buf = buf" if "k < length buf div ?bs" for k
  proof -
    have "block_entries True ?bs buf k \<noteq> None" using assms(1) that by (simp add: well_formed_def Let_def)
    then obtain ps where "dirents True buf (k * ?bs + ?bs) (k * ?bs) = Some ps" by (auto simp: block_entries_def add.commute)
    from swap_dir_loop_ok [OF this] show ?thesis
      using assms(2) by (simp add: swap_dir_block_def cmfs_swap_dir_entries_to_cpu_def
          cmfs_swap_dir_entries_direction_def Let_def)
  qed
  then have "fold (\<lambda>k. swap_dir_block s False (k * ?bs)) ks buf = buf" if "\<forall>k \<in> set ks. k < length buf div ?bs" for ks
    using that by (induction ks) simp_all
  ultimately show ?thesis using assms(3,4) by (simp add: mkfs_swap_dir_def plain_blocks_def Let_def)
qed

lemma write_directory_data_ok:
  assumes "dir_ready s d" and "ms_le s" and "plain_blocks s" and "dd_record (ms_dirs s d) = Some rid"
    and "dd_buf (ms_dirs s d) = Some buf" and "extent_ready s d (ms_recs s rid)"
  defines "r \<equiv> ms_recs s rid"
  shows "\<exists>s'. write_directory_data d s = (Inr (), s')
    \<and> dev_data (ms_io s') = put (unat (extent_off r)) (buf @ replicate (unat (extent_len r) - length buf) 0) (dev_data (ms_io s))"
proof -
  have wf: "well_formed True (ms_bs s) buf (dd_last_off (ms_dirs s d))" and size: "unat (file_size r) = length buf"
    using assms(1,2,4,5) by (simp_all add: dir_ready_def r_def)
  have swap: "mkfs_swap_dir s r buf = buf" by (rule swap_dir_same [OF wf assms(2,3) size])
  note room = assms(6) [unfolded extent_ready_def, folded r_def]
  have fits: "length buf \<le> unat (extent_len r)" using room assms(5) by (simp add: dir_size_def)
  let ?data = "buf @ replicate (unat (extent_len r) - length buf) 0"
  have len: "length ?data = unat (extent_len r)" and pos: "0 < unat (extent_len r)" using fits room by (simp_all add: unat_gt_0)
  have "\<not> sint (extent_off r) < 0" using room by (intro sint_small) simp
  moreover have "unat (extent_len r) \<le> length (dev_data (ms_io s)) - unat (extent_off r)" using room by linarith
  ultimately have written: "pwrite64 ?data (extent_off r) (ms_io s)
      = (Inr (unat (extent_len r)), (ms_io s)\<lparr> dev_data := put (unat (extent_off r)) ?data (dev_data (ms_io s)) \<rparr>)"
    using room pos fits len by (simp add: pwrite64_def Let_def min_def)
  have data: "put 0 buf (replicate (unat (extent_len r)) 0) = ?data" by (simp add: put_def)
  show ?thesis
    using room written fits size swap
    by (simp add: write_directory_data_def assms(4,5) r_def [symmetric] Let_def bind_io_def upd_io_def
        mkfs_swap_dir_from_cpu_def write_metadata_def data do_pwrite_def upd_dir_def)
qed

section \<open>Looking up what mkfs has written\<close>

text \<open>
  The blocks that the inode of the directory names are those of an extent at \<open>byte_off\<close> that
  holds \<open>n\<close> blocks.
\<close>

definition maps_extent :: "cmfs_filesys \<Rightarrow> nat \<Rightarrow> bytes \<Rightarrow> u64 \<Rightarrow> nat \<Rightarrow> bool" where
  "maps_extent fs d di byte_off n \<longleftrightarrow> (\<exists>base :: u64. unat byte_off = unat base * bsize fs
     \<and> map fst (file_blocks fs d di) = map (\<lambda>k. base + of_nat k) [0..<n])"

lemma block_of_extent:
  assumes "dev_data (fs_io fs) = put (unat base * bsize fs) (buf @ zs) dev"
    and "unat base * bsize fs + length (buf @ zs) \<le> length dev" and "length dev < 2 ^ 63"
    and "k < length buf div bsize fs"
  shows "block_at fs (base + of_nat k) = Some (field (bsize fs) (k * bsize fs) buf)"
proof -
  let ?bs = "bsize fs"
  have bs: "0 < ?bs" using assms(4) by (cases "?bs = 0") simp_all
  have "Suc k * ?bs \<le> (length buf div ?bs) * ?bs" using assms(4) by (intro mult_le_mono1) simp
  also have "\<dots> \<le> length buf" by (rule div_times_less_eq_dividend)
  finally have k: "k * ?bs + ?bs \<le> length buf" by simp
  have fin: "(unat base + k + 1) * ?bs \<le> length dev" using k assms(2) by (simp add: algebra_simps)
  have "unat base + k + 1 \<le> (unat base + k + 1) * ?bs" using bs by (cases ?bs) simp_all
  then have small: "unat base + k < 2 ^ 63" using fin assms(3) by linarith
  then have "unat (of_nat k :: u64) = k" by (intro unat_of_nat_u64) simp
  then have u: "unat (base + of_nat k) = unat base + k" using small by (simp add: unat_add_lem [THEN iffD1])
  have "field ?bs ((unat base + k) * ?bs) (put (unat base * ?bs) (buf @ zs) dev)
      = field ?bs (k * ?bs) (field (length (buf @ zs)) (unat base * ?bs) (put (unat base * ?bs) (buf @ zs) dev))"
    using k by (subst field_field) (simp_all add: algebra_simps)
  also have "\<dots> = field ?bs (k * ?bs) buf"
    using assms(2) k by (subst field_put_same) (simp_all add: field_def)
  finally show ?thesis using fin assms(1,2) by (simp add: block_at_def dev_block_def u)
qed

lemma written_directory:
  assumes "dir_ready s d" and "ms_le s" and "plain_blocks s" and "dd_record (ms_dirs s d) = Some rid"
    and "dd_buf (ms_dirs s d) = Some buf" and "extent_ready s d (ms_recs s rid)"
    and "write_directory_data d s = (Inr (), s')"
    and "dev_data (fs_io fs) = dev_data (ms_io s')" and "bsize fs = ms_bs s" and "inode_at fs dir di"
    and "S_ISDIR (ld16 True di o_i_mode)" and "iterable fs di dep lo hi" and "cpu_le fs"
    and "maps_extent fs dep di (extent_off (ms_recs s rid)) (length buf div ms_bs s)"
  shows "directory_at fs dir di dep" and "dir_listing fs dep di = dir_names s d"
proof -
  let ?r = "ms_recs s rid"
  obtain zs where data: "dev_data (fs_io fs) = put (unat (extent_off ?r)) (buf @ zs) (dev_data (ms_io s))"
    and len: "length (buf @ zs) = unat (extent_len ?r)"
    using write_directory_data_ok [OF assms(1-6)] assms(5,6,7,8) by (auto simp: extent_ready_def dir_size_def)
  obtain base :: u64 where base: "unat (extent_off ?r) = unat base * bsize fs"
    and blocks: "map fst (file_blocks fs dep di) = map (\<lambda>k. base + of_nat k) [0..<length buf div bsize fs]"
    using assms(9,14) by (auto simp: maps_extent_def)
  have wf: "well_formed True (bsize fs) buf (dd_last_off (ms_dirs s d))"
    using assms(1,2,4,5,9) by (simp add: dir_ready_def)
  have at: "block_at fs (base + of_nat k) = Some (field (bsize fs) (k * bsize fs) buf)" if "k < length buf div bsize fs" for k
    using block_of_extent [OF data [unfolded base] _ _ that] assms(6) len base by (simp add: extent_ready_def)
  have each: "dir_block_ok fs (base + of_nat k)"
    "listing_at fs (base + of_nat k) = listing True buf (the (block_entries True (bsize fs) buf k))"
    if "k < length buf div bsize fs" for k
    using at [OF that] block_of_buffer [OF wf that] by (simp_all add: dir_block_ok_def listing_at_def)
  have "k \<in> set (map fst (file_blocks fs dep di)) \<Longrightarrow> dir_block_ok fs k" for k
    unfolding blocks using each(1) by auto
  then have "\<forall>(blkno, _, _) \<in> set (file_blocks fs dep di). dir_block_ok fs blkno" by force
  then show "directory_at fs dir di dep" unfolding directory_at_def using assms(10-13) by auto
  have "dir_listing fs dep di = concat (map (listing_at fs) (map fst (file_blocks fs dep di)))"
    by (simp add: dir_listing_def comp_def case_prod_unfold)
  also have "\<dots> = dir_contents True (bsize fs) buf"
    unfolding blocks dir_contents_def contents_upto_def map_map
    by (intro arg_cong [where f = concat] map_cong) (simp_all add: each(2))
  finally show "dir_listing fs dep di = dir_names s d" using assms(2,5,9) by (simp add: dir_names_def)
qed

end
