(* ===== verification/Directory_properties.thy ===== *)
theory Directory_properties
  imports Mkfs_lookup Demo
begin

text \<open>
  The properties of directories: what \<^verbatim>\<open>mkfs.cmfs\<close> keeps when it adds an entry, what
  \<^verbatim>\<open>cmfs_lookup\<close> finds, and that it finds what mkfs has written.
\<close>

section \<open>A demonstration directory\<close>

text \<open>
  The inode of a directory in block 3, with one extent of two blocks at block 6 of which the
  first is in use, and a state of mkfs with this device and an empty directory.
\<close>

definition demo_dir_inode :: bytes where
  "demo_dir_inode =
     (let di = put 0 CMFS_INODE_SIGNATURE (replicate 256 0);
          di = st64 True o_i_size 256 di;
          di = st64 True o_i_blkno 3 di;
          di = st32 True o_i_flags 1 di;
          di = st16 True o_i_mode 0x41ED di;
          di = st16 True (o_id2 + o_l_count) 1 di;
          di = st16 True (o_id2 + o_l_next_free_rec) 1 di;
          rec = o_id2 + o_l_recs;
          di = st64 True (rec + o_e_blkno) 6 di
      in st32 True (rec + o_e_leaf_blocks) 2 di)"

definition demo_dir_dev :: bytes where
  "demo_dir_dev = concat (demo_blocks[3 := demo_dir_inode])"

definition demo_dir_mkfs :: mkfs_state where
  "demo_dir_mkfs = (zero_state True ((fs_io demo_fs)\<lparr> dev_data := demo_dir_dev \<rparr>))
     \<lparr> ms_blocksize := 256, ms_blocksize_bits := 8,
       ms_recs := (\<lambda>_. zero_record\<lparr> extent_off := 1536, extent_len := 512 \<rparr>),
       ms_dirs := (\<lambda>_. \<lparr> dd_buf = None, dd_last_off = 0, dd_record = Some RootRec \<rparr>) \<rparr>"

definition demo_dir_fs :: "bytes \<Rightarrow> cmfs_filesys" where
  "demo_dir_fs dev = demo_fs\<lparr> fs_io := (fs_io demo_fs)\<lparr> dev_data := dev \<rparr> \<rparr>"

definition demo_names :: "(string \<times> u64 \<times> u8) list" where
  "demo_names = [(''new'', 2304, CMFS_FT_REG_FILE), (''data1'', 2816, CMFS_FT_REG_FILE)]"

lemma demo_dir_inode_fields:
  "length demo_dir_inode = 256" "has_signature CMFS_INODE_SIGNATURE demo_dir_inode"
  "ld16 True demo_dir_inode o_i_mode = 0x41ED" "ld64 True demo_dir_inode o_i_size = 256"
  "ld32 True demo_dir_inode o_i_flags = 1" "ld64 True demo_dir_inode o_i_last_eb_blk = 0"
  "ld16 True demo_dir_inode o_i_dyn_features = 0"
  "ld16 True demo_dir_inode (o_id2 + o_l_tree_depth) = 0" "ld16 True demo_dir_inode (o_id2 + o_l_next_free_rec) = 1"
  by (simp_all add: has_signature_def take_0_field demo_dir_inode_def Let_def CMFS_INODE_SIGNATURE_def ascii_def buf_simps)

lemma demo_dir_list: "el_len (demo_dir_fs dev) demo_dir_inode o_id2 = 1" "el_depth (demo_dir_fs dev) demo_dir_inode o_id2 = 0"
  using demo_dir_inode_fields by (simp_all add: el_len_def el_depth_def demo_dir_fs_def demo_fs_def)

lemma demo_dir_rec:
  "e_cpos (el_rec True demo_dir_inode o_id2 0) = 0" "e_blkno (el_rec True demo_dir_inode o_id2 0) = 6"
  "e_leaf_blocks (el_rec True demo_dir_inode o_id2 0) = 2"
  by (simp_all add: el_rec_def extent_rec_of_def demo_dir_inode_def
      Let_def CMFS_INODE_SIGNATURE_def ascii_def buf_simps)

lemma demo_dir_dev:
  "length demo_dir_dev = 4096" "field 256 768 demo_dir_dev = demo_dir_inode"
proof -
  have "\<forall>b \<in> set (demo_blocks[3 := demo_dir_inode]). length b = 256"
    using demo_sizes(1) demo_dir_inode_fields(1) by (metis insertE set_update_subset_insert subsetD)
  note at = field_concat [OF this]
  show "field 256 768 demo_dir_dev = demo_dir_inode"
    using at [of 3] demo_sizes(2) by (simp add: demo_dir_dev_def)
  show "length demo_dir_dev = 4096"
  proof -
    have "length (concat bs) = 256 * length bs" if "\<forall>b \<in> set bs. length b = 256" for bs :: "bytes list"
      using that by (induction bs) auto
    from this [OF \<open>\<forall>b \<in> set (demo_blocks[3 := demo_dir_inode]). length b = 256\<close>] show ?thesis
      using demo_sizes(2) by (simp add: demo_dir_dev_def)
  qed
qed

text \<open>A device that has the inode in its place.\<close>

definition demo_dir_ready :: "bytes \<Rightarrow> bool" where
  "demo_dir_ready dev \<longleftrightarrow> length dev = 4096 \<and> field 256 768 dev = demo_dir_inode"

lemma demo_dir_fs_fields:
  "cpu_le (demo_dir_fs dev)" "fs_blocksize (demo_dir_fs dev) = 256" "dev_data (fs_io (demo_dir_fs dev)) = dev"
  "c_bits (demo_dir_fs dev) = 1" "sb_bits (demo_dir_fs dev) = 8"
proof -
  have "CMFS_RAW_SB (demo_dir_fs dev) = CMFS_RAW_SB demo_fs" by (simp add: CMFS_RAW_SB_def demo_dir_fs_def)
  then show "c_bits (demo_dir_fs dev) = 1" "sb_bits (demo_dir_fs dev) = 8"
    using demo_sb by (simp_all add: c_bits_def sb_bits_def)
qed (simp_all add: demo_dir_fs_def demo_fs_def)

lemma demo_dir_quiet: "demo_dir_ready dev \<Longrightarrow> quiet (demo_dir_fs dev)"
  by (simp add: quiet_def demo_dir_ready_def demo_dir_fs_def demo_fs_def chan_ok_def has_fault_def)

lemma demo_dir_inode_at: "demo_dir_ready dev \<Longrightarrow> inode_at (demo_dir_fs dev) 3 demo_dir_inode"
  using demo_dir_inode_fields(2)
  by (simp add: inode_at_def blkno_ok_def block_at_def dev_block_def demo_dir_ready_def demo_dir_fs_def demo_fs_def
      cmfs_swap_inode_to_cpu_def)

lemma demo_dir_clusters: "unat (cmfs_rec_clusters (demo_dir_fs dev) 0 (rec_at (demo_dir_fs dev) demo_dir_inode o_id2 0)) = 1"
  by (simp add: cmfs_rec_clusters_def unat_blocks_to_clusters demo_dir_fs_fields cmfs_rec_blocks_def demo_dir_rec unat_ucast_u64)

lemma demo_dir_iterable: "iterable (demo_dir_fs dev) demo_dir_inode 0 0 1"
proof -
  have "list_ok 0 (demo_dir_fs dev) demo_dir_inode o_id2 0 1"
    using demo_dir_inode_fields(1) demo_dir_clusters
    by (simp add: list_ok_def demo_dir_list rec_start_def rec_end_def demo_dir_rec demo_dir_fs_fields)
  then show ?thesis using demo_dir_inode_fields
    by (simp add: iterable_def dinode_of_def demo_dir_fs_fields Let_def)
qed

lemma demo_dir_maps: "maps_extent (demo_dir_fs dev) 0 demo_dir_inode 1536 1"
proof -
  let ?r = "rec_at (demo_dir_fs dev) demo_dir_inode o_id2 0"
  have "cmfs_rec_clusters (demo_dir_fs dev) 0 ?r = 1"
    using demo_dir_clusters by (simp add: word_unat_eq_iff)
  moreover have "unat (cmfs_clusters_to_blocks (demo_dir_fs dev) 1) = 2" "cmfs_clusters_to_blocks (demo_dir_fs dev) 0 = 0"
    by (simp_all add: unat_clusters_to_blocks demo_dir_fs_fields cmfs_clusters_to_blocks_def [of _ 0])
  moreover have "[0..<2] = [0, 1 :: nat]" by code_simp
  ultimately have "map fst (rec_blocks (demo_dir_fs dev) 256 ?r) = [6]"
    by (simp add: rec_blocks_def demo_dir_rec demo_dir_fs_fields)
  moreover have "tree_list 0 (demo_dir_fs dev) demo_dir_inode o_id2 = [?r]"
    by (simp add: demo_dir_list demo_dir_rec demo_dir_fs_fields)
  ultimately have "map fst (file_blocks (demo_dir_fs dev) 0 demo_dir_inode) = [6]"
    using demo_dir_inode_fields(4) by (simp add: file_blocks_def demo_dir_fs_fields)
  then show ?thesis unfolding maps_extent_def demo_dir_fs_fields(2) by (intro exI [of _ 6]) simp
qed

lemma demo_dir_state:
  "dd_record (ms_dirs demo_dir_mkfs d) = Some RootRec" "dd_buf (ms_dirs demo_dir_mkfs d) = None"
  "ms_le demo_dir_mkfs" "ms_blocksize demo_dir_mkfs = 256" "ms_blocksize_bits demo_dir_mkfs = 8"
  "dir_ready demo_dir_mkfs d" "dir_size demo_dir_mkfs d = 0" "dir_names demo_dir_mkfs d = []"
  by (simp_all add: demo_dir_mkfs_def zero_state_def dir_ready_def dir_size_def dir_names_def)

lemma demo_dir_plain: "plain_blocks demo_dir_mkfs" "name_fits demo_dir_mkfs name \<longleftrightarrow> length name < 245"
proof -
  have "\<not> cmfs_supports_dir_trailer (fill_fake_fs demo_dir_mkfs)"
    by (simp add: cmfs_supports_dir_trailer_def cmfs_meta_ecc_def cmfs_supports_indexed_dirs_def fill_fake_fs_def
        CMFS_RAW_SB_def super_block_of_def demo_dir_mkfs_def zero_state_def Let_def buf_simps)
  then show "plain_blocks demo_dir_mkfs" by (simp add: plain_blocks_def demo_dir_state)
  have "CMFS_DIR_REC_LEN (length name) \<le> 256 \<longleftrightarrow> length name < 245" unfolding CMFS_DIR_REC_LEN_def by presburger
  moreover have "ms_bs demo_dir_mkfs = 256" by (simp add: demo_dir_state)
  ultimately show "name_fits demo_dir_mkfs name \<longleftrightarrow> length name < 245" unfolding name_fits_def by linarith
qed

text \<open>The second name goes into the rest of the record of the first.\<close>

definition demo_first_entry :: bytes where
  "demo_first_entry = fill_entry True ''new'' 9 CMFS_FT_REG_FILE 0
     (st16 True o_d_rec_len 256 (st64 True o_d_inode 0 (replicate 256 0)))"

lemma demo_first_entry_fields:
  "length demo_first_entry = 256" "ld16 True demo_first_entry o_d_rec_len = 256"
  "ld8 demo_first_entry o_d_name_len = 3" "ld64 True demo_first_entry o_d_inode = 9"
  by (simp_all add: demo_first_entry_def fill_entry_def strcpy_at_def ascii_def Let_def buf_simps)

lemma demo_place:
  "\<exists>buf. place_in_last True (CMFS_DIR_REC_LEN (length ''data1'')) 0 demo_first_entry = Some (16, buf) \<and> length buf = 256"
  by (simp add: place_in_last_def Let_def demo_first_entry_fields CMFS_DIR_REC_LEN_def)

lemma add_entry_placed:
  assumes "dd_record (ms_dirs s d) = Some rid" and "dd_buf (ms_dirs s d) = Some b"
    and "place_in_last (ms_le s) (CMFS_DIR_REC_LEN (length name)) (dd_last_off (ms_dirs s d)) b = Some (o1, buf1)"
    and "o1 + 12 + length name + 1 \<le> length buf1"
  shows "\<exists>s'. add_entry_to_directory d name byte_off ty s = (Inr (), s')
    \<and> dd_buf (ms_dirs s' d) = Some (fill_entry (ms_le s) name (drop_bit (ms_blocksize_bits s) byte_off) ty o1 buf1)"
  using assms
  by (simp add: add_entry_to_directory_def find_place_def put_entry_def bind_io_def Let_def)
    (simp add: upd_rec_def upd_dir_def)

lemma demo_add_first:
  "\<exists>r. add_entry_to_directory RootDir ''new'' 2304 CMFS_FT_REG_FILE demo_dir_mkfs =
    (Inr (), upd_rec RootRec r (upd_dir RootDir (\<lambda>dir. dir\<lparr> dd_buf := Some demo_first_entry, dd_last_off := 0 \<rparr>) demo_dir_mkfs))"
proof -
  obtain res s' where g: "grow_directory (ms_recs demo_dir_mkfs RootRec) None demo_dir_mkfs = (res, s')" by force
  have heap: "\<not> no_memory demo_dir_mkfs" "heap_script (ms_io demo_dir_mkfs) = []"
    by (simp_all add: no_memory_def demo_dir_mkfs_def zero_state_def demo_fs_def)
  have "s' = demo_dir_mkfs" using g heap(2)
    by (auto simp: grow_directory_def bind_io_def memalign_exit_def cmfs_malloc_block_def Let_def
        split: prod.splits if_splits)
  then have "grow_directory (ms_recs demo_dir_mkfs RootRec) None demo_dir_mkfs
      = (Inr (0, st16 True o_d_rec_len 256 (st64 True o_d_inode 0 (replicate 256 0)), 256), demo_dir_mkfs)"
    using grow_directory_cases [OF demo_dir_plain(1) _ g] heap g
    by (simp add: demo_dir_state)
  then show ?thesis
    by (simp add: add_entry_to_directory_def find_place_def put_entry_def bind_io_def Let_def demo_dir_state
        demo_first_entry_def drop_bit_eq_div) blast
qed

lemma demo_add:
  "\<exists>s1 buf. add_entries RootDir demo_names demo_dir_mkfs = (Inr (), s1)
    \<and> dd_buf (ms_dirs s1 RootDir) = Some buf \<and> length buf = 256"
proof -
  obtain r where first: "add_entry_to_directory RootDir ''new'' 2304 CMFS_FT_REG_FILE demo_dir_mkfs =
    (Inr (), upd_rec RootRec r (upd_dir RootDir (\<lambda>dir. dir\<lparr> dd_buf := Some demo_first_entry, dd_last_off := 0 \<rparr>) demo_dir_mkfs))"
    using demo_add_first by blast
  let ?s = "upd_rec RootRec r (upd_dir RootDir (\<lambda>dir. dir\<lparr> dd_buf := Some demo_first_entry, dd_last_off := 0 \<rparr>) demo_dir_mkfs)"
  have s: "ms_dirs ?s RootDir = \<lparr> dd_buf = Some demo_first_entry, dd_last_off = 0, dd_record = Some RootRec \<rparr>" "ms_le ?s"
    using demo_dir_state by (simp_all add: upd_rec_def upd_dir_def demo_dir_mkfs_def)
  obtain buf where buf: "place_in_last True (CMFS_DIR_REC_LEN (length ''data1'')) 0 demo_first_entry = Some (16, buf)" "length buf = 256"
    using demo_place by blast
  have "length (fill_entry True ''data1'' k ty 16 buf) = 256" for k ty
    using buf(2) by (simp add: fill_entry_def strcpy_at_def ascii_def Let_def)
  then have "\<exists>s1 b. add_entry_to_directory RootDir ''data1'' 2816 CMFS_FT_REG_FILE ?s = (Inr (), s1)
      \<and> dd_buf (ms_dirs s1 RootDir) = Some b \<and> length b = 256"
    using add_entry_placed [of ?s RootDir RootRec demo_first_entry "''data1''" 16 buf 2816 CMFS_FT_REG_FILE] buf s
    by auto
  then show ?thesis unfolding demo_names_def by (auto simp: bind_io_def first ret_io_def)
qed

lemma demo_written:
  "\<exists>s1 s2 buf. add_entries RootDir demo_names demo_dir_mkfs = (Inr (), s1) \<and> dd_buf (ms_dirs s1 RootDir) = Some buf
    \<and> length buf = 256 \<and> dir_ready s1 RootDir \<and> dirs_frame RootDir demo_dir_mkfs s1
    \<and> dir_names s1 RootDir = [(ascii ''new'', 9), (ascii ''data1'', 11)]
    \<and> extent_ready s1 RootDir (ms_recs s1 RootRec)
    \<and> write_directory_data RootDir s1 = (Inr (), s2) \<and> demo_dir_ready (dev_data (ms_io s2))"
proof -
  obtain s1 buf where s1: "add_entries RootDir demo_names demo_dir_mkfs = (Inr (), s1)"
    and buf: "dd_buf (ms_dirs s1 RootDir) = Some buf" "length buf = 256" using demo_add by blast
  have "\<forall>(name, _, _) \<in> set demo_names. name_fits demo_dir_mkfs name" by (simp add: demo_names_def demo_dir_plain)
  then have ok: "dirs_frame RootDir demo_dir_mkfs s1" "dir_ready s1 RootDir"
    "dir_names s1 RootDir = new_entries demo_dir_mkfs demo_names"
    using add_entries_ok [OF demo_dir_state(6) demo_dir_plain(1) _ _ s1] demo_dir_state(7,8)
    by (simp_all add: entry_added_def)
  have names: "new_entries demo_dir_mkfs demo_names = [(ascii ''new'', 9), (ascii ''data1'', 11)]"
    by (simp add: new_entries_def new_entry_def demo_names_def demo_dir_state Let_def drop_bit_eq_div)
  have s1': "dev_data (ms_io s1) = demo_dir_dev" "dev_script (ms_io s1) = []" "dir_size s1 RootDir = 256"
    "extent_off (ms_recs s1 RootRec) = 1536" "extent_len (ms_recs s1 RootRec) = 512" "ms_le s1" "plain_blocks s1"
    "dd_record (ms_dirs s1 RootDir) = Some RootRec"
    using ok(1) demo_dir_state demo_dir_plain buf dirs_frame_simps [OF ok(1)]
    by (simp_all add: dirs_frame_def dir_size_def demo_dir_mkfs_def zero_state_def demo_fs_def)
  have ext: "extent_ready s1 RootDir (ms_recs s1 RootRec)" by (simp add: extent_ready_def s1' demo_dir_dev(1))
  obtain s2 where s2: "write_directory_data RootDir s1 = (Inr (), s2)"
    "dev_data (ms_io s2) = put 1536 (buf @ replicate 256 0) demo_dir_dev"
    using write_directory_data_ok [OF ok(2) s1'(6,7,8) buf(1) ext] by (auto simp: s1' buf(2))
  have "demo_dir_ready (dev_data (ms_io s2))"
    using demo_dir_dev buf(2) by (simp add: demo_dir_ready_def s2(2) field_put_other)
  then show ?thesis using s1 buf ok names ext s2(1) by auto
qed

section \<open>Properties\<close>

text \<open>
  C15. Adding an entry with \<^verbatim>\<open>add_entry_to_directory\<close> to a directory of fewer than \<open>2 ^ 31\<close>
  bytes keeps its buffer well formed: blocks made of entries without a gap, the last entry at
  \<^verbatim>\<open>last_off\<close>, \<^verbatim>\<open>file_size\<close> the length of the buffer. The new entry comes after those that were there,
  whether it takes over the empty last record, splits it or needs a new block. The process
  ends only when the directory with a block more would have \<open>2 ^ 31\<close> bytes, or when there is
  no memory for it. Only a name whose length is a multiple of four can end in undefined
  behaviour: the null byte of \<^verbatim>\<open>strcpy\<close> past the end of the buffer.
\<close>

theorem add_entry_keeps_directory:
  assumes "dir_ready s d" and "plain_blocks s" and "name_fits s name" and "dir_size s d < 2 ^ 31"
    and "add_entry_to_directory d name byte_off ty s = (res, s')"
  shows "case res of
      Inr _ \<Rightarrow> dir_ready s' d \<and> dir_names s' d = dir_names s d @ new_entry s name byte_off
        \<and> dir_size s' d \<le> dir_size s d + ms_bs s \<and> dir_size s' d < 2 ^ 31
    | Inl e \<Rightarrow> e = C_UNDEFINED \<and> length name mod 4 = 0
        \<or> e = EXIT \<and> (2 ^ 31 \<le> dir_size s d + ms_bs s \<or> no_memory s)"
  using add_entry_ok [OF assms] by (auto simp: entry_added_def)

theorem add_entry_keeps_directory_witness:
  "\<exists>s'. add_entry_to_directory RootDir ''journal'' 2304 CMFS_FT_REG_FILE demo_dir_mkfs = (Inr (), s')
     \<and> dir_ready s' RootDir \<and> dir_names s' RootDir = [(ascii ''journal'', 9)]"
proof -
  have new: "new_entry demo_dir_mkfs ''journal'' 2304 = [(ascii ''journal'', 9)]"
    by (simp add: new_entry_def demo_dir_state Let_def drop_bit_eq_div)
  have heap: "\<not> no_memory demo_dir_mkfs"
    by (simp add: no_memory_def demo_dir_mkfs_def zero_state_def demo_fs_def)
  obtain res s' where run: "add_entry_to_directory RootDir ''journal'' 2304 CMFS_FT_REG_FILE demo_dir_mkfs = (res, s')"
    by force
  have name: "name_fits demo_dir_mkfs ''journal''" by (simp add: demo_dir_plain)
  show ?thesis
    using add_entry_keeps_directory [OF demo_dir_state(6) demo_dir_plain(1) name _ run] run new heap
    by (auto simp: demo_dir_state split: sum.splits)
qed

text \<open>
  C14. \<^verbatim>\<open>cmfs_lookup\<close> in a directory on a device without errors: it returns the inode of the first
  entry in use with the name, in the order of the blocks of the file and of the entries in a
  block, or \<^verbatim>\<open>CMFS_ET_FILE_NOT_FOUND\<close> when there is none; the device does not change.
\<close>

theorem lookup_finds_entry:
  assumes "quiet fs" and "cpu_le fs" and "directory_at fs dir di d" and "0 \<notin> set nm" and "take (length nm) name = nm"
  shows "\<exists>fs'. cmfs_lookup dir name (int (length nm)) has_buf fs =
      (case map_of (dir_listing fs d di) nm of None \<Rightarrow> Inl CMFS_ET_FILE_NOT_FOUND | Some ino \<Rightarrow> Inr ino, fs')
    \<and> dev_data (fs_io fs') = dev_data (fs_io fs)"
  using yields_run [OF lookup_yields [OF assms]] calm_fields(7) by metis

theorem lookup_finds_entry_witness:
  "\<exists>dev fs'. cmfs_lookup 3 (ascii ''data1/x'') 5 False (demo_dir_fs dev) = (Inr 11, fs')"
proof -
  obtain s1 s2 buf where s: "dd_buf (ms_dirs s1 RootDir) = Some buf" "length buf = 256" "dir_ready s1 RootDir"
    "dirs_frame RootDir demo_dir_mkfs s1" "dir_names s1 RootDir = [(ascii ''new'', 9), (ascii ''data1'', 11)]"
    "extent_ready s1 RootDir (ms_recs s1 RootRec)" "write_directory_data RootDir s1 = (Inr (), s2)"
    "demo_dir_ready (dev_data (ms_io s2))"
    using demo_written by blast
  let ?fs = "demo_dir_fs (dev_data (ms_io s2))"
  have s1: "ms_le s1" "plain_blocks s1" "dd_record (ms_dirs s1 RootDir) = Some RootRec" "ms_bs s1 = 256"
    "extent_off (ms_recs s1 RootRec) = 1536"
    using s(4) dirs_frame_simps [OF s(4)] demo_dir_plain demo_dir_state
    by (simp_all add: dirs_frame_def) (simp add: demo_dir_mkfs_def)
  have dirmode: "S_ISDIR (ld16 True demo_dir_inode o_i_mode)"
    unfolding demo_dir_inode_fields by code_simp
  have "directory_at ?fs 3 demo_dir_inode 0" "dir_listing ?fs 0 demo_dir_inode = dir_names s1 RootDir"
    using written_directory [OF s(3) s1(1-3) s(1,6,7) demo_dir_fs_fields(3) _ demo_dir_inode_at [OF s(8)]
        dirmode demo_dir_iterable demo_dir_fs_fields(1)] demo_dir_maps s(2)
    by (simp_all add: s1 demo_dir_fs_fields)
  from lookup_finds_entry [OF demo_dir_quiet [OF s(8)] demo_dir_fs_fields(1) this(1), of "ascii ''data1''" "ascii ''data1/x''" False]
    this(2) show ?thesis by (auto simp: s(5) ascii_def)
qed

text \<open>
  C1. From mkfs to the library: names added to an empty directory by \<^verbatim>\<open>add_entry_to_directory\<close> and
  written by \<^verbatim>\<open>write_directory_data\<close> are found by \<^verbatim>\<open>cmfs_lookup\<close> with the blocks of their inodes, and no
  other name is found, on a little-endian CPU and for an inode whose blocks are those of the
  extent of the directory.
\<close>

theorem mkfs_directory_lookup:
  assumes empty: "dd_record (ms_dirs s d) = Some rid" "dd_buf (ms_dirs s d) = None"
    and sizes: "ms_le s" "plain_blocks s" "\<forall>(name, _, _) \<in> set es. name_fits s name"
      "length es * ms_bs s \<le> unat (extent_len (ms_recs s rid))"
    and device: "dev_script (ms_io s) = []" "length (dev_data (ms_io s)) < 2 ^ 63" "extent_len (ms_recs s rid) \<noteq> 0"
      "unat (extent_off (ms_recs s rid)) + unat (extent_len (ms_recs s rid)) \<le> length (dev_data (ms_io s))"
    and add: "add_entries d es s = (Inr (), s1)" "dd_buf (ms_dirs s1 d) = Some buf"
    and written: "write_directory_data d s1 = (Inr (), s2)"
    and fs: "quiet fs" "cpu_le fs" "bsize fs = ms_bs s" "dev_data (fs_io fs) = dev_data (ms_io s2)"
    and inode: "inode_at fs dir di" "S_ISDIR (ld16 True di o_i_mode)" "iterable fs di dep lo hi"
      "maps_extent fs dep di (extent_off (ms_recs s rid)) (length buf div ms_bs s)"
    and name: "0 \<notin> set nm" "take (length nm) name = nm"
  shows "\<exists>fs'. cmfs_lookup dir name (int (length nm)) has_buf fs =
      (case map_of (new_entries s es) nm of None \<Rightarrow> Inl CMFS_ET_FILE_NOT_FOUND | Some ino \<Rightarrow> Inr ino, fs')"
proof -
  have ready: "dir_ready s d" "dir_size s d = 0" "dir_names s d = []"
    using empty by (simp_all add: dir_ready_def dir_size_def dir_names_def)
  have "dir_size s d < 2 ^ 31" using ready(2) by simp
  from add_entries_ok [OF ready(1) sizes(2,3) this add(1)] have s1: "dirs_frame d s s1" "dir_ready s1 d"
    "dir_names s1 d = new_entries s es" "dir_size s1 d \<le> length es * ms_bs s"
    using ready(2,3) by (auto simp: entry_added_def)
  note same = dirs_frame_simps [OF s1(1)] s1(1) [unfolded dirs_frame_def]
  have ext: "extent_ready s1 d (ms_recs s1 rid)" using device sizes(4) s1(4) same by (simp add: extent_ready_def)
  have dirfs: "directory_at fs dir di dep" "dir_listing fs dep di = dir_names s1 d"
    using written_directory [OF s1(2) _ _ _ add(2) ext written fs(4) _ inode(1-3) fs(2)] inode(4) sizes fs(3) empty same
    by simp_all
  show ?thesis using yields_run [OF lookup_yields [OF fs(1,2) dirfs(1) name, of has_buf]] dirfs(2) s1(3) by auto
qed

theorem mkfs_directory_lookup_witness:
  "\<exists>s1 s2 fs'. add_entries RootDir demo_names demo_dir_mkfs = (Inr (), s1) \<and> write_directory_data RootDir s1 = (Inr (), s2)
    \<and> cmfs_lookup 3 (ascii ''new'') 3 False (demo_dir_fs (dev_data (ms_io s2))) = (Inr 9, fs')"
proof -
  obtain s1 s2 buf where s: "add_entries RootDir demo_names demo_dir_mkfs = (Inr (), s1)"
    "dd_buf (ms_dirs s1 RootDir) = Some buf" "length buf = 256" "write_directory_data RootDir s1 = (Inr (), s2)"
    "demo_dir_ready (dev_data (ms_io s2))"
    using demo_written by blast
  have fits: "\<forall>(name, _, _) \<in> set demo_names. name_fits demo_dir_mkfs name" by (simp add: demo_names_def demo_dir_plain)
  have recs: "ms_recs demo_dir_mkfs RootRec = zero_record\<lparr> extent_off := 1536, extent_len := 512 \<rparr>"
    "ms_io demo_dir_mkfs = (fs_io demo_fs)\<lparr> dev_data := demo_dir_dev \<rparr>" "dev_script (fs_io demo_fs) = []"
    by (simp_all add: demo_dir_mkfs_def zero_state_def demo_fs_def)
  have dirmode: "S_ISDIR (ld16 True demo_dir_inode o_i_mode)"
    unfolding demo_dir_inode_fields by code_simp
  have names: "new_entries demo_dir_mkfs demo_names = [(ascii ''new'', 9), (ascii ''data1'', 11)]"
    by (simp add: new_entries_def new_entry_def demo_names_def demo_dir_state Let_def drop_bit_eq_div)
  have "\<exists>fs'. cmfs_lookup 3 (ascii ''new'') (int (length (ascii ''new''))) False (demo_dir_fs (dev_data (ms_io s2)))
      = (case map_of (new_entries demo_dir_mkfs demo_names) (ascii ''new'') of
           None \<Rightarrow> Inl CMFS_ET_FILE_NOT_FOUND | Some ino \<Rightarrow> Inr ino, fs')"
    by (rule mkfs_directory_lookup [OF demo_dir_state(1,2,3) demo_dir_plain(1) fits _ _ _ _ _ s(1,2,4) demo_dir_quiet [OF s(5)]
          demo_dir_fs_fields(1) _ demo_dir_fs_fields(3) demo_dir_inode_at [OF s(5)] dirmode demo_dir_iterable])
      (simp_all add: recs s(3) demo_dir_dev demo_names_def demo_dir_state demo_dir_fs_fields demo_dir_maps [unfolded One_nat_def] ascii_def)
  then show ?thesis using s(1,4) by (auto simp: names ascii_def)
qed

end
