(* ===== verification/Mkfs_format.thy ===== *)
theory Mkfs_format
  imports Mkfs_dir
begin

text \<open>
  Writing a file system: the inodes, group descriptors, volume header and superblock of
  \<^verbatim>\<open>mkfs.cmfs/mkfs.c\<close>, the check of the volume (\<^verbatim>\<open>check.c\<close>) and the whole run of the tool.
  Memory is assumed available, \<^verbatim>\<open>fsync\<close> has no effect in the model, and what is printed is left out.
\<close>

section \<open>Blocks of the volume\<close>

definition CLEAR_CHUNK :: nat where "CLEAR_CHUNK = 1048576"

definition clear_both_ends :: "unit mkfs" where
  "clear_both_ends =
     bind_io (do_pwrite (replicate CLEAR_CHUNK 0) 0) (\<lambda>_ s.
       do_pwrite (replicate CLEAR_CHUNK 0) (ms_volume_size_in_bytes s - of_nat CLEAR_CHUNK) s)"

definition format_leading_space :: "unit mkfs" where
  "format_leading_space s =
     (let text = ascii ''this is a cmfs volume'';
          buf = replicate (2 * 2 ^ ms_blocksize_bits s) 0;
          buf = strcpy_at o_vh_signature text buf;
          buf = strcpy_at o_vh_mount_point text buf;
          buf = strcpy_at (512 + o_vl_label) text buf
      in do_pwrite buf 0 s)"

text \<open>The block of the superblock at offset \<open>off\<close>, with the directories' inodes at \<open>root_off\<close> and \<open>sys_off\<close>.\<close>

definition superblock_buf :: "mkfs_state \<Rightarrow> u64 \<Rightarrow> u64 \<Rightarrow> u64 \<Rightarrow> bytes" where
  "superblock_buf s off root_off sys_off =
     (let le = ms_le s; bb = ms_blocksize_bits s; f = ms_feature_flags s;
          di = replicate (unat (ms_blocksize s)) 0;
          di = strcpy_at o_i_signature CMFS_SUPER_BLOCK_SIGNATURE di;
          di = st32 le o_i_generation (ms_vol_generation s) di;
          di = st32 le o_i_fs_generation (ms_vol_generation s) di;
          di = st64 le o_i_atime 0 di;
          di = st64 le o_i_ctime (ms_format_time s) di;
          di = st64 le o_i_mtime (ms_format_time s) di;
          di = st64 le o_i_blkno (drop_bit bb off) di;
          di = st32 le o_i_flags (CMFS_VALID_FL OR CMFS_SYSTEM_FL OR CMFS_SUPER_BLOCK_FL) di;
          di = st32 le o_i_clusters (ucast (ms_volume_size_in_clusters s)) di;
          di = st16 le (o_id2 + o_s_major_rev_level) 0 di;
          di = st16 le (o_id2 + o_s_minor_rev_level) 1 di;
          di = st64 le (o_id2 + o_s_root_blkno) (drop_bit bb root_off) di;
          di = st64 le (o_id2 + o_s_system_dir_blkno) (drop_bit bb sys_off) di;
          di = st16 le (o_id2 + o_s_mnt_count) 0 di;
          di = st16 le (o_id2 + o_s_max_mnt_count) 48 di;
          di = st16 le (o_id2 + o_s_state) 0 di;
          di = st16 le (o_id2 + o_s_errors) 0 di;
          di = st64 le (o_id2 + o_s_lastcheck) (ms_format_time s) di;
          di = st32 le (o_id2 + o_s_checkinterval) 0 di;
          di = st32 le (o_id2 + o_s_creator_os) 0 di;
          di = st32 le (o_id2 + o_s_blocksize_bits) (of_nat bb) di;
          di = st32 le (o_id2 + o_s_clustersize_bits) (of_nat (ms_cluster_size_bits s)) di;
          di = st32 le (o_id2 + o_s_feature_incompat) (opt_incompat f) di;
          di = st32 le (o_id2 + o_s_feature_compat) (opt_compat f) di;
          di = st32 le (o_id2 + o_s_feature_ro_compat) (opt_ro_compat f) di;
          di = strcpy_at (o_id2 + o_s_label) (ascii (the (ms_vol_label s))) di
      in put (o_id2 + o_s_uuid) (ms_uuid s) di)"

definition clear_backup_sb :: "mkfs_state \<Rightarrow> mkfs_state" where
  "clear_backup_sb s = s\<lparr>ms_feature_flags :=
     (case ms_feature_flags s of Options c i r \<Rightarrow>
        Options (c AND NOT CMFS_FEATURE_COMPAT_BACKUP_SB) i r)\<rparr>"

definition format_superblock :: "rec_id \<Rightarrow> rec_id \<Rightarrow> rec_id \<Rightarrow> unit mkfs" where
  "format_superblock rid root sysdir =
     bind_io (upd_io clear_backup_sb) (\<lambda>_ s.
       let off = fe_off (ms_recs s rid);
           di = superblock_buf s off (fe_off (ms_recs s root)) (fe_off (ms_recs s sysdir))
       in do_pwrite (mkfs_swap_inode_from_cpu s di) off s)"

section \<open>Inodes of system files\<close>

text \<open>The members that every inode has.\<close>

definition file_inode_buf :: "mkfs_state \<Rightarrow> disk_record \<Rightarrow> bytes" where
  "file_inode_buf s r =
     (let le = ms_le s;
          clusters = drop_bit (ms_cluster_size_bits s) (extent_len r + ucast (ms_cluster_size s) - 1);
          di = replicate (unat (ms_blocksize s)) 0;
          di = strcpy_at o_i_signature CMFS_INODE_SIGNATURE di;
          di = st32 le o_i_generation (ms_vol_generation s) di;
          di = st32 le o_i_fs_generation (ms_vol_generation s) di;
          di = st16 le o_i_suballoc_slot (-1) di;
          di = st16 le o_i_suballoc_bit (suballoc_bit r) di;
          di = st64 le o_i_blkno (drop_bit (ms_blocksize_bits s) (fe_off r)) di;
          di = st32 le o_i_uid 0 di;
          di = st32 le o_i_gid 0 di;
          di = st64 le o_i_size (file_size r) di;
          di = st16 le o_i_mode (ucast (fr_mode r)) di;
          di = st32 le o_i_links_count (fr_links r) di;
          di = st32 le o_i_flags (fr_flags r) di;
          di = st64 le o_i_atime (ms_format_time s) di;
          di = st64 le o_i_ctime (ms_format_time s) di;
          di = st64 le o_i_mtime (ms_format_time s) di;
          di = st64 le o_i_dtime 0 di
      in st32 le o_i_clusters (ucast clusters) di)"

definition chain_rec_at :: "nat \<Rightarrow> nat" where
  "chain_rec_at i = o_id2 + o_cl_recs + 16 * i"

text \<open>The chain records of the global bitmap: \<open>c_free\<close> is set to the number of bits of the group.\<close>

definition put_chain_rec :: "mkfs_state \<Rightarrow> nat \<Rightarrow> bytes \<Rightarrow> bytes" where
  "put_chain_rec s i di =
     (let le = ms_le s; g = ms_groups s ! i;
          di = st64 le (chain_rec_at i + o_c_blkno) (ld64 le (ag_gd g) o_bg_blkno) di;
          di = st32 le (chain_rec_at i + o_c_free) (ucast (ld16 le (ag_gd g) o_bg_bits)) di
      in st32 le (chain_rec_at i + o_c_total) (ag_chain_total g) di)"

definition put_cluster_bitmap :: "mkfs_state \<Rightarrow> bytes \<Rightarrow> bytes" where
  "put_cluster_bitmap s di =
     (let le = ms_le s; bs = uint (ms_blocksize s);
          recs = cmfs_chain_recs_per_inode bs;
          di = st16 le (o_id2 + o_cl_count) (word_of_int recs) di;
          di = st16 le (o_id2 + o_cl_cpg) (word_of_int (cmfs_group_bitmap_size bs * 8)) di;
          di = st16 le (o_id2 + o_cl_bpc) 1 di;
          di = st16 le (o_id2 + o_cl_next_free_rec)
                 (if uint (ms_nr_cluster_groups s) > recs then word_of_int recs
                  else ucast (ms_nr_cluster_groups s)) di;
          di = st32 le o_i_clusters (ucast (ms_volume_size_in_clusters s)) di
      in fold (put_chain_rec s) [0..<ab_num_chains (ms_bitmap s)] di)"

definition cmfs_clusters_per_group :: "u32 \<Rightarrow> nat \<Rightarrow> u16" where
  "cmfs_clusters_per_group block_size cluster_size_bits = 4"

text \<open>The other allocators; only the one with a chain has a group.\<close>

definition put_chain :: "mkfs_state \<Rightarrow> disk_record \<Rightarrow> bytes \<Rightarrow> bytes" where
  "put_chain s r di =
     (let le = ms_le s; g = ag_gd (ms_system_group s);
          bpc = ucast (ms_cluster_size s div ms_blocksize s) :: u16;
          di = st16 le (o_id2 + o_cl_count)
                 (word_of_int (cmfs_chain_recs_per_inode (uint (ms_blocksize s)))) di;
          di = st16 le (o_id2 + o_cl_cpg)
                 (cmfs_clusters_per_group (ms_blocksize s) (ms_cluster_size_bits s)) di;
          di = st16 le (o_id2 + o_cl_bpc) bpc di;
          di = st16 le (o_id2 + o_cl_next_free_rec) 1 di
      in if chain_off r = 0 then di
         else
           let bits = ld16 le g o_bg_bits;
               cpg = bits div bpc;
               di = st16 le (o_id2 + o_cl_next_free_rec) 1 di;
               di = st32 le (chain_rec_at 0 + o_c_free) (ucast (ld16 le g o_bg_free_bits_count)) di;
               di = st32 le (chain_rec_at 0 + o_c_total) (ucast bits) di;
               di = st64 le (chain_rec_at 0 + o_c_blkno) (drop_bit (ms_blocksize_bits s) (chain_off r)) di;
               di = st16 le (o_id2 + o_cl_cpg) cpg di;
               di = st32 le o_i_clusters (ucast cpg) di
           in st64 le o_i_size (ucast (push_bit (ms_cluster_size_bits s) (ucast cpg :: u32))) di)"

text \<open>\<^verbatim>\<open>mkfs_set_rec_blocks\<close> passes depth 0 and the low 32 bits of the number.\<close>

definition mkfs_set_rec_blocks :: "bool \<Rightarrow> nat \<Rightarrow> u64 \<Rightarrow> bytes \<Rightarrow> bytes" where
  "mkfs_set_rec_blocks le rec blocks di =
     st32 le (rec + o_e_leaf_blocks)
       (e_leaf_blocks (cmfs_set_rec_blocks 0 (ucast blocks) (extent_rec_of le di rec))) di"

definition put_extent :: "mkfs_state \<Rightarrow> disk_record \<Rightarrow> bytes \<Rightarrow> bytes" where
  "put_extent s r di =
     (let le = ms_le s; rec = o_id2 + o_l_recs;
          blocks = drop_bit (ms_blocksize_bits s) (extent_len r + ucast (ms_cluster_size s) - 1);
          di = st16 le (o_id2 + o_l_next_free_rec) 1 di;
          di = st64 le (rec + o_e_cpos) 0 di;
          di = mkfs_set_rec_blocks le rec blocks di
      in st64 le (rec + o_e_blkno) (drop_bit (ms_blocksize_bits s) (extent_off r)) di)"

text \<open>A directory stored inside its inode. The last entry is shortened to the room there.\<close>

definition put_inline_dir :: "dir_id \<Rightarrow> bytes \<Rightarrow> bytes mkfs" where
  "put_inline_dir d di s =
     (let dir = ms_dirs s d; le = ms_le s;
          last = dd_last_off dir;
          room = cmfs_max_inline_data (uint (ms_blocksize s))
      in case dd_buf dir of
           None \<Rightarrow> (Inl C_UNDEFINED, s)
         | Some buf \<Rightarrow>
             let dir_len = last + CMFS_DIR_REC_LEN (unat (ld8 buf (last + o_d_name_len)))
             in if int dir_len > room then bind_io clear_both_ends (\<lambda>_. err_io EXIT) s
                else
                  let buf = st16 le (last + o_d_rec_len)
                              (ld16 le buf (last + o_d_rec_len)
                               - (ucast (ms_blocksize s) - word_of_int room)) buf;
                      di = take o_id2 di @ replicate (length di - o_id2) 0;
                      di = st16 le (o_id2 + o_id_count) (word_of_int room) di;
                      di = put (o_id2 + o_id_data) (take dir_len buf) di;
                      di = st16 le o_i_dyn_features
                             (ld16 le di o_i_dyn_features OR CMFS_INLINE_DATA_FL) di;
                      di = st64 le o_i_size (word_of_int room) di
                  in (Inr di, upd_dir d (\<lambda>dir. dir\<lparr>dd_buf := Some buf\<rparr>) s))"

definition file_inode :: "disk_record \<Rightarrow> bytes mkfs" where
  "file_inode r s =
     (let le = ms_le s; bs = uint (ms_blocksize s); di = file_inode_buf s r
      in if fr_flags r AND CMFS_LOCAL_ALLOC_FL \<noteq> 0 then
           (Inr (st16 le (o_id2 + o_la_size) (word_of_int (cmfs_local_alloc_size bs)) di), s)
         else if fr_flags r AND CMFS_DEALLOC_FL \<noteq> 0 then
           (Inr (st16 le (o_id2 + o_tl_count) (word_of_int (cmfs_truncate_recs_per_inode bs)) di), s)
         else
           let di = (if fr_flags r AND CMFS_BITMAP_FL \<noteq> 0
                     then st32 le o_i_total (bi_total_bits r) (st32 le o_i_used (bi_used_bits r) di)
                     else di)
           in if cluster_bitmap r then (Inr (put_cluster_bitmap s di), s)
              else if fr_flags r AND CMFS_CHAIN_FL \<noteq> 0 then (Inr (put_chain s r di), s)
              else
                let di = st16 le (o_id2 + o_l_count) (word_of_int (cmfs_extent_recs_per_inode bs)) di;
                    di = st16 le (o_id2 + o_l_next_free_rec) 0 di;
                    di = st16 le (o_id2 + o_l_tree_depth) 0 di
                in if extent_len r \<noteq> 0 then (Inr (put_extent s r di), s)
                   else case fr_dir_data r of
                     None \<Rightarrow> (Inr di, s)
                   | Some d \<Rightarrow>
                       if S_ISDIR (ld16 le di o_i_mode) \<and> ms_inline_data s then put_inline_dir d di s
                       else (Inr di, s))"

definition format_file :: "rec_id \<Rightarrow> unit mkfs" where
  "format_file rid =
     bind_io (get_io (\<lambda>s. ms_recs s rid)) (\<lambda>r.
     bind_io (file_inode r) (\<lambda>di s.
       do_pwrite (mkfs_swap_inode_from_cpu s di) (fe_off r) s))"

section \<open>Group descriptors\<close>

definition write_bitmap_group :: "u64 \<Rightarrow> nat \<Rightarrow> unit mkfs" where
  "write_bitmap_group parent_blkno i s =
     (let gd = ag_gd (ms_groups s ! i)
      in if takeWhile (\<lambda>b. b \<noteq> 0) gd \<noteq> CMFS_GROUP_DESC_SIGNATURE then (Inl EXIT, s)
         else
           let gd = st64 (ms_le s) o_bg_parent_dinode parent_blkno gd;
               s = upd_cgroup i (\<lambda>g. g\<lparr>ag_gd := gd\<rparr>) s;
               buf = put 0 (mkfs_swap_group_desc_from_cpu s gd)
                       (replicate (unat (ms_cluster_size s)) 0)
           in do_pwrite buf (push_bit (ms_blocksize_bits s) (ld64 (ms_le s) gd o_bg_blkno)) s)"

fun for_io :: "('a \<Rightarrow> ('s, unit) io) \<Rightarrow> 'a list \<Rightarrow> ('s, unit) io" where
  "for_io f [] = ret_io ()"
| "for_io f (x # xs) = bind_io (f x) (\<lambda>_. for_io f xs)"

definition write_bitmap_data :: "unit mkfs" where
  "write_bitmap_data s =
     for_io (write_bitmap_group (drop_bit (ms_blocksize_bits s)
         (fe_off (ms_recs s (ab_bm_record (ms_bitmap s))))))
       [0..<unat (ms_nr_cluster_groups s)] s"

definition write_group_data :: "unit mkfs" where
  "write_group_data s =
     (let gd = ag_gd (ms_system_group s);
          out = mkfs_swap_group_desc_from_cpu s gd
      in bind_io (do_pwrite out (push_bit (ms_blocksize_bits s) (ld64 (ms_le s) gd o_bg_blkno))) (\<lambda>_.
         upd_io (\<lambda>s. s\<lparr>ms_system_group := (ms_system_group s)
           \<lparr>ag_gd := mkfs_swap_group_desc_to_cpu s out\<rparr>\<rparr>)) s)"

definition feature_skip :: "mkfs_state \<Rightarrow> nat \<Rightarrow> bool" where
  "feature_skip s system_inode \<longleftrightarrow>
     system_inode = JOURNAL_SYSTEM_INODE
     \<and> opt_compat (ms_feature_flags s) AND CMFS_FEATURE_COMPAT_HAS_JOURNAL = 0"

section \<open>The run\<close>

text \<open>
  What the operating system answers beside \<open>mkfs_env\<close>: the two \<^verbatim>\<open>open\<close> calls on the device
  (\<open>Some\<close> errno on failure), whether the device is read-only, and the character typed at the prompt.
\<close>

record run_env =
  re_env :: mkfs_env
  re_open_check :: "nat option"
  re_open :: "nat option"
  re_readonly :: bool
  re_answer :: char

definition cmfs_check_volume :: "run_env \<Rightarrow> int mkfs" where
  "cmfs_check_volume env s =
     (if ms_dry_run s then (Inr 0, s)
      else case cmfs_check_if_mounted (me_device (re_env env)) (ms_device_name s) of
        Inl _ \<Rightarrow> (Inr (-1), s)
      | Inr mount_flags \<Rightarrow>
          if mount_flags AND CMFS_MF_MOUNTED \<noteq> 0 \<or> mount_flags AND CMFS_MF_BUSY \<noteq> 0
          then (Inr (if ms_force s then 1 else -1), s)
          else case cmfs_open (ms_le s) (ms_device_name s) CMFS_FLAG_RW (re_open_check env)
                      (re_readonly env) 0 0 (ms_io s) of
            (Inl _, ch) \<Rightarrow> (Inr 0, s\<lparr>ms_io := ch\<rparr>)
          | (Inr fs, ch) \<Rightarrow>
              (Inr 1, s\<lparr>ms_io := (case cmfs_close fs of Inl _ \<Rightarrow> ch | Inr ch \<Rightarrow> ch)\<rparr>))"

definition open_device :: "run_env \<Rightarrow> unit mkfs" where
  "open_device env = (case re_open env of None \<Rightarrow> ret_io () | Some _ \<Rightarrow> err_io EXIT)"

definition instances :: "mkfs_state \<Rightarrow> nat \<Rightarrow> nat" where
  "instances s i = (if sfi_global (system_files ! i) then 1 else unat (ms_initial_slots s))"

definition system_file_ids :: "mkfs_state \<Rightarrow> nat list \<Rightarrow> (nat \<times> nat) list" where
  "system_file_ids s is = concat (map (\<lambda>i. map (Pair i) [0..<instances s i]) is)"

definition init_records :: "mkfs_state \<Rightarrow> mkfs_state" where
  "init_records s =
     fold (\<lambda>(i, j). upd_rec (SysFile i j)
             (\<lambda>_. init_record (sfi_type (system_files ! i)) (sfi_mode (system_files ! i))))
       (system_file_ids s [0..<NUM_SYSTEM_INODES])
       (upd_rec SysDirRec (\<lambda>_. init_record SFI_OTHER S_IFDIR_0755)
         (upd_rec RootRec (\<lambda>_. init_record SFI_OTHER S_IFDIR_0755)
           (upd_rec SuperRec (\<lambda>_. init_record SFI_OTHER S_IFREG_0644) s)))"

definition bitmap_need :: "mkfs_state \<Rightarrow> u64" where
  "bitmap_need s =
     (let need = drop_bit 3 (ms_volume_size_in_clusters s + 7)
      in push_bit (ms_cluster_size_bits s)
           (drop_bit (ms_cluster_size_bits s) (need + ucast (ms_cluster_size s) - 1)))"

definition create_global_bitmap :: "unit mkfs" where
  "create_global_bitmap =
     bind_io (upd_io (\<lambda>s. upd_rec (SysFile GLOBAL_BITMAP_SYSTEM_INODE 0)
       (\<lambda>r. r\<lparr> extent_off := 0, extent_len := bitmap_need s \<rparr>) s)) (\<lambda>_ s.
     initialize_bitmap (ucast (ms_volume_size_in_clusters s)) (ms_cluster_size_bits s)
       (SysFile GLOBAL_BITMAP_SYSTEM_INODE 0) s)"

definition create_inode_group :: "unit mkfs" where
  "create_inode_group =
     bind_io (\<lambda>s. alloc_bytes_from_bitmap
       (push_bit (ms_blocksize_bits s) (ucast (blocks_needed s))) s) (\<lambda>(off, len).
     bind_io (\<lambda>s. initialize_alloc_group (SysFile GLOBAL_INODE_ALLOC_SYSTEM_INODE 0)
       (drop_bit (ms_blocksize_bits s) off) 0 (ucast (drop_bit (ms_cluster_size_bits s) len))
       (ucast (ms_cluster_size s div ms_blocksize s)) s) (\<lambda>g.
     upd_io (\<lambda>s. upd_rec (SysFile GLOBAL_INODE_ALLOC_SYSTEM_INODE 0)
       (\<lambda>r. r\<lparr> fr_group := Some SystemGroup,
               chain_off := push_bit (ms_blocksize_bits s) (ld64 (ms_le s) (ag_gd g) o_bg_blkno) \<rparr>)
       (s\<lparr>ms_system_group := g\<rparr>))))"

text \<open>A directory with its extent, its inode and the entries \<^verbatim>\<open>.\<close> and \<^verbatim>\<open>..\<close>.\<close>

definition create_directory :: "dir_id \<Rightarrow> rec_id \<Rightarrow> (u64 \<times> u64) mkfs \<Rightarrow> unit mkfs" where
  "create_directory d rid alloc =
     bind_io alloc (\<lambda>(off, len).
     bind_io (upd_io (upd_rec rid (\<lambda>r. r\<lparr> extent_off := off, extent_len := len,
                                         fr_dir_data := None \<rparr>))) (\<lambda>_.
     bind_io alloc_inode (\<lambda>(fe, bit).
     bind_io (upd_io (\<lambda>s. upd_dir d (\<lambda>dir. dir\<lparr>dd_record := Some rid\<rparr>)
       (upd_rec rid (\<lambda>r. r\<lparr> fe_off := fe, suballoc_bit := bit \<rparr>) s))) (\<lambda>_.
     bind_io (add_entry_to_directory d ''.'' fe CMFS_FT_DIR) (\<lambda>_.
     add_entry_to_directory d ''..'' fe CMFS_FT_DIR)))))"

definition create_system_file :: "nat \<times> nat \<Rightarrow> unit mkfs" where
  "create_system_file ij =
     bind_io alloc_inode (\<lambda>(fe, bit).
     bind_io (upd_io (upd_rec (SysFile (fst ij) (snd ij))
       (\<lambda>r. r\<lparr> fe_off := fe, suballoc_bit := bit \<rparr>))) (\<lambda>_.
     add_entry_to_directory SysDir (sfi_name (system_files ! fst ij)) fe
       (if S_ISDIR (ucast (sfi_mode (system_files ! fst ij))) then CMFS_FT_DIR else CMFS_FT_REG_FILE)))"

definition created_files :: "mkfs_state \<Rightarrow> (nat \<times> nat) list" where
  "created_files s = system_file_ids s (filter (\<lambda>i. \<not> feature_skip s i) [0..<NUM_SYSTEM_INODES])"

definition format_volume :: "unit mkfs" where
  "format_volume =
     bind_io clear_both_ends (\<lambda>_.
     bind_io (upd_io init_records) (\<lambda>_.
     bind_io create_global_bitmap (\<lambda>_.
     bind_io create_inode_group (\<lambda>_.
     bind_io (upd_io (\<lambda>s. upd_rec SuperRec (\<lambda>r. r\<lparr>fe_off :=
       push_bit (ms_blocksize_bits s) CMFS_SUPER_BLOCK_BLKNO\<rparr>) s)) (\<lambda>_.
     bind_io (create_directory RootDir RootRec (alloc_from_bitmap 1)) (\<lambda>_.
     bind_io (create_directory SysDir SysDirRec (\<lambda>s. alloc_bytes_from_bitmap
       (of_nat (system_dir_blocks_needed s * 2 ^ ms_blocksize_bits s)) s)) (\<lambda>_.
     bind_io (\<lambda>s. for_io create_system_file (created_files s) s) (\<lambda>_.
     bind_io (upd_io (\<lambda>s. s\<lparr>ms_system_group := upd_gd (st64 (ms_le s) o_bg_parent_dinode
       (drop_bit (ms_blocksize_bits s) (fe_off (ms_recs s (SysFile GLOBAL_INODE_ALLOC_SYSTEM_INODE 0)))))
       (ms_system_group s)\<rparr>)) (\<lambda>_.
     bind_io (format_file RootRec) (\<lambda>_.
     bind_io (format_file SysDirRec) (\<lambda>_.
     bind_io (\<lambda>s. for_io (\<lambda>(i, j). format_file (SysFile i j)) (created_files s) s) (\<lambda>_.
     bind_io (format_file (SysFile GLOBAL_BITMAP_SYSTEM_INODE 0)) (\<lambda>_.
     bind_io write_bitmap_data (\<lambda>_.
     bind_io write_group_data (\<lambda>_.
     bind_io (write_directory_data RootDir) (\<lambda>_.
     bind_io (write_directory_data SysDir) (\<lambda>_.
     bind_io format_leading_space (\<lambda>_.
     format_superblock SuperRec RootRec SysDirRec))))))))))))))))))"

text \<open>The exit code of the process; every \<open>EXIT\<close> is an exit with code 1.\<close>

definition mkfs_main ::
  "bool \<Rightarrow> io_channel \<Rightarrow> run_env \<Rightarrow> mkfs_option list \<Rightarrow> string list \<Rightarrow> (errcode + nat) \<times> io_channel" where
  "mkfs_main le ch env opts argv =
     (case get_state le ch (re_env env) opts argv of
        Inl e \<Rightarrow> (Inl e, ch)
      | Inr s \<Rightarrow>
          (case bind_io (cmfs_check_volume env) (\<lambda>found s.
             if found = -1 \<or> found = 1 \<and> ms_prompt s \<and> re_answer env \<notin> {CHR ''y'', CHR ''Y''}
             then (Inr 1, s)
             else bind_io (open_device env) (\<lambda>_.
                  bind_io (fill_defaults (re_env env)) (\<lambda>_ s.
                  if ms_dry_run s then (Inr 0, s)
                  else bind_io format_volume (\<lambda>_. ret_io 0) s)) s) s of
             (r, s) \<Rightarrow> (r, ms_io s)))"

end
