(* ===== verification/Byteorder_Inode.thy ===== *)
theory Byteorder_Inode
  imports Byteorder
begin

text \<open>
  What the byte-order conversions of \<^verbatim>\<open>inode.c\<close>, \<^verbatim>\<open>extents.c\<close> and \<^verbatim>\<open>dirblock.c\<close>
  achieve: the structures a CPU of either byte order reads are the ones on disk,
  and writing inverts reading, with the exceptions that the code has.
\<close>

section \<open>The passes over an inode\<close>


definition self_inverse_inode :: "bool \<Rightarrow> bytes \<Rightarrow> bool" where
  "self_inverse_inode le buf \<longleftrightarrow> \<not> inline_dir le buf
     \<and> ld32 le buf o_i_flags AND CMFS_CHAIN_FL = 0 \<and> ld32 le buf o_i_flags AND CMFS_DEALLOC_FL = 0"

lemma length_third:
  assumes "320 \<le> length buf"
    and "ld32 le buf o_i_flags AND CMFS_CHAIN_FL = 0" and "ld32 le buf o_i_flags AND CMFS_DEALLOC_FL = 0"
  shows "length (cmfs_swap_inode_third le bsz buf) = length buf"
  using assms by (simp add: third_members third_ok)

lemma ld_third:
  assumes "320 \<le> length buf"
    and "ld32 le buf o_i_flags AND CMFS_CHAIN_FL = 0" and "ld32 le buf o_i_flags AND CMFS_DEALLOC_FL = 0"
    and "off + n \<le> 160"
  shows "ld le' n (cmfs_swap_inode_third le bsz buf) off = ld le' n buf off"
  unfolding third_members [OF assms(2,3)]
  by (rule ld_swap_other) (use assms in \<open>simp_all add: third_ok\<close>)

lemma third_third:
  assumes "320 \<le> length buf"
    and "ld32 le buf o_i_flags AND CMFS_CHAIN_FL = 0" and "ld32 le buf o_i_flags AND CMFS_DEALLOC_FL = 0"
  shows "cmfs_swap_inode_third le bsz (cmfs_swap_inode_third le bsz buf) = buf"
proof -
  let ?b = "cmfs_swap_inode_third le bsz buf"
  have flags: "ld32 le ?b o_i_flags = ld32 le buf o_i_flags"
    and dyn: "ld16 le ?b o_i_dyn_features = ld16 le buf o_i_dyn_features"
    using ld_third [OF assms] by (simp_all add: ld32_def ld16_def)
  have "cmfs_swap_inode_third le bsz ?b =
      swap_members (third_members (ld32 le ?b o_i_flags) (ld16 le ?b o_i_dyn_features)) ?b"
    using assms flags by (intro third_members) simp_all
  then show ?thesis
    unfolding flags dyn using assms by (simp add: third_members swap_members_twice third_ok)
qed

text \<open>The members below the union \<open>id2\<close>, after the three scalar passes.\<close>

lemma scalar_passes:
  fixes bsz :: nat
  assumes "320 \<le> length buf" and "self_inverse_inode True buf"
  defines "b3 \<equiv> cmfs_swap_inode_third False bsz (cmfs_swap_inode_second False (cmfs_swap_inode_first buf))"
  shows "length b3 = length buf"
    and "(off, n) \<in> set inode_scalars \<Longrightarrow> ld False n b3 off = ld True n buf off"
    and "self_inverse_inode False b3"
    and "cmfs_swap_inode_first (cmfs_swap_inode_second False (cmfs_swap_inode_third False bsz b3)) = buf"
    and "third_members (ld32 False b3 o_i_flags) (ld16 False b3 o_i_dyn_features)
      = third_members (ld32 True buf o_i_flags) (ld16 True buf o_i_dyn_features)"
    and "b3 = swap_members (third_members (ld32 True buf o_i_flags) (ld16 True buf o_i_dyn_features))
      (cmfs_swap_inode_second False (cmfs_swap_inode_first buf))"
proof -
  let ?b1 = "cmfs_swap_inode_first buf"
  let ?b2 = "cmfs_swap_inode_second False ?b1"
  have l1: "length ?b1 = length buf" using assms(1) by (simp add: length_first)
  have l2: "length ?b2 = length buf" using assms(1) l1 by (simp add: length_second)
  have s2: "ld False n ?b2 off = ld True n buf off" if "(off, n) \<in> set inode_scalars" for off n
  proof -
    have "off + n \<le> 152" using that scalars_ok(1) [of 152] by (auto simp: inside_def list_all_iff)
    then show ?thesis using that assms(1) l1 by (simp add: ld_second ld_first)
  qed
  have f2: "ld32 False ?b2 o_i_flags = ld32 True buf o_i_flags"
    "ld16 False ?b2 o_i_dyn_features = ld16 True buf o_i_dyn_features"
    by (simp_all add: ld32_def ld16_def s2)
  have no2: "ld32 False ?b2 o_i_flags AND CMFS_CHAIN_FL = 0"
      "ld32 False ?b2 o_i_flags AND CMFS_DEALLOC_FL = 0"
    using assms(2) by (simp_all add: f2 self_inverse_inode_def)
  have l2': "320 \<le> length ?b2" using l2 assms(1) by simp
  show "length b3 = length buf" using length_third [OF l2' no2] l2 by (simp add: b3_def)
  have s3: "ld False n b3 off = ld True n buf off" if "(off, n) \<in> set inode_scalars" for off n
  proof -
    have "off + n \<le> 160" using that scalars_ok(1) [of 152] by (auto simp: inside_def list_all_iff)
    then show ?thesis unfolding b3_def using ld_third [OF l2' no2] s2 [OF that] by simp
  qed
  then show "(off, n) \<in> set inode_scalars \<Longrightarrow> ld False n b3 off = ld True n buf off" .
  have f3: "ld32 False b3 o_i_flags = ld32 True buf o_i_flags"
    "ld16 False b3 o_i_dyn_features = ld16 True buf o_i_dyn_features"
    "ld16 False b3 o_i_mode = ld16 True buf o_i_mode"
    by (simp_all add: ld32_def ld16_def s3)
  show "self_inverse_inode False b3"
    using assms(2) by (simp add: self_inverse_inode_def inline_dir_def f3)
  show "third_members (ld32 False b3 o_i_flags) (ld16 False b3 o_i_dyn_features)
      = third_members (ld32 True buf o_i_flags) (ld16 True buf o_i_dyn_features)" by (simp add: f3)
  have "cmfs_swap_inode_third False bsz b3 = ?b2" unfolding b3_def by (rule third_third [OF l2' no2])
  then show "cmfs_swap_inode_first (cmfs_swap_inode_second False (cmfs_swap_inode_third False bsz b3)) = buf"
    using l1 assms(1) by (simp add: second_second first_first)
  show "b3 = swap_members (third_members (ld32 True buf o_i_flags) (ld16 True buf o_i_dyn_features)) ?b2"
    unfolding b3_def third_members [OF no2] f2 ..
qed

lemma has_extents_scalars:
  assumes "\<And>off n. (off, n) \<in> set inode_scalars \<Longrightarrow> ld le n b off = ld le' n b' off"
  shows "has_extents le b = has_extents le' b'" and "inline_dir le b = inline_dir le' b'"
  by (simp_all add: has_extents_def inline_dir_def ld16_def ld32_def ld64_def assms)

lemma to_cpu_eq:
  fixes bsz :: nat
  assumes "320 \<le> length buf" and "self_inverse_inode True buf"
  defines "b3 \<equiv> cmfs_swap_inode_third False bsz (cmfs_swap_inode_second False (cmfs_swap_inode_first buf))"
  shows "cmfs_swap_inode_to_cpu False bsz buf =
    (if has_extents True buf then cmfs_swap_extent_list_to_cpu False bsz o_id2 b3 else b3)"
proof -
  note sp = scalar_passes [OF assms(1,2), where bsz = bsz, folded b3_def]
  have "\<not> inline_dir False b3" using sp(3) by (simp add: self_inverse_inode_def)
  moreover have "has_extents False b3 = has_extents True buf" by (rule has_extents_scalars) (rule sp(2))
  ultimately show ?thesis by (simp add: cmfs_swap_inode_to_cpu_def Let_def b3_def)
qed

lemma to_cpu_ld:
  assumes "320 \<le> bsz" and "bsz \<le> length buf" and "self_inverse_inode True buf"
    and "(off, n) \<in> set inode_scalars"
  shows "ld False n (cmfs_swap_inode_to_cpu False bsz buf) off = ld True n buf off"
proof -
  have l: "320 \<le> length buf" using assms by simp
  note sp = scalar_passes [OF l assms(3), where bsz = bsz]
  have "off + n \<le> o_id2" using assms(4) scalars_ok(1) [of 152] by (auto simp: inside_def list_all_iff)
  then show ?thesis
    unfolding to_cpu_eq [OF l assms(3)]
    using sp(2) [OF assms(4)] assms sp(1) by (simp add: ld_def list_to_cpu_low)
qed

lemma inode_roundtrip:
  assumes "320 \<le> bsz" and "bsz \<le> length buf" and "self_inverse_inode True buf"
  shows "cmfs_swap_inode_from_cpu le bsz (cmfs_swap_inode_to_cpu le bsz buf) = buf"
proof (cases le)
  case True
  then show ?thesis by (simp add: cmfs_swap_inode_from_cpu_def cmfs_swap_inode_to_cpu_def)
next
  case False
  let ?b3 = "cmfs_swap_inode_third False bsz (cmfs_swap_inode_second False (cmfs_swap_inode_first buf))"
  let ?to = "cmfs_swap_inode_to_cpu False bsz buf"
  have l: "320 \<le> length buf" using assms by simp
  note sp = scalar_passes [OF l assms(3), where bsz = bsz]
  have ext: "has_extents False ?to = has_extents True buf" "inline_dir False ?to = inline_dir True buf"
    by (rule has_extents_scalars; rule to_cpu_ld [OF assms]; assumption)+
  have "(if has_extents False ?to then cmfs_swap_extent_list_from_cpu False bsz o_id2 ?to else ?to) = ?b3"
    unfolding ext unfolding to_cpu_eq [OF l assms(3)]
    using assms sp(1) by (simp add: list_roundtrip)
  moreover have "\<not> inline_dir False ?b3" using sp(3) by (simp add: self_inverse_inode_def)
  ultimately have "cmfs_swap_inode_from_cpu False bsz ?to =
      cmfs_swap_inode_first (cmfs_swap_inode_second False (cmfs_swap_inode_third False bsz ?b3))"
    unfolding cmfs_swap_inode_from_cpu_def Let_def by simp
  then show ?thesis using sp(4) False by simp
qed

lemma to_cpu_field:
  assumes "320 \<le> bsz" and "bsz \<le> length buf" and "self_inverse_inode True buf"
    and "list_all (sep (off, n)) inode_scalars" and "off + n \<le> 152"
  shows "field n off (cmfs_swap_inode_to_cpu False bsz buf) = field n off buf"
proof -
  have l: "320 \<le> length buf" using assms by simp
  let ?b1 = "cmfs_swap_inode_first buf"
  let ?b2 = "cmfs_swap_inode_second False ?b1"
  note sp = scalar_passes [OF l assms(3), where bsz = bsz]
  have l1: "length ?b1 = length buf" using l by (simp add: length_first)
  have l2: "length ?b2 = length buf" using l l1 by (simp add: length_second)
  have "field n off ?b1 = field n off buf"
    unfolding first_members using assms(4) l by (intro field_swap_other scalars_ok(1)) auto
  moreover have "field n off ?b2 = field n off ?b1"
    unfolding second_members using assms(5) l l1 by (intro field_swap_other second_ok) auto
  moreover have "field n off (cmfs_swap_inode_third False bsz ?b2) = field n off ?b2"
    unfolding sp(6) using assms(5) l l2 by (intro field_swap_other third_ok) auto
  ultimately show ?thesis
    unfolding to_cpu_eq [OF l assms(3)] using assms sp(1) by (simp add: list_to_cpu_low)
qed

lemma to_cpu_super:
  assumes "320 \<le> bsz" and "bsz \<le> length buf" and "self_inverse_inode True buf"
    and "ld32 True buf o_i_flags AND CMFS_SUPER_BLOCK_FL \<noteq> 0"
  shows "super_block_of False (cmfs_swap_inode_to_cpu False bsz buf) o_id2 = super_block_of True buf o_id2"
proof -
  have l: "320 \<le> length buf" using assms by simp
  let ?b1 = "cmfs_swap_inode_first buf"
  let ?b2 = "cmfs_swap_inode_second False ?b1"
  let ?to = "cmfs_swap_inode_to_cpu False bsz buf"
  let ?ms = "at_base o_id2 super_block_members"
  note sp = scalar_passes [OF l assms(3), where bsz = bsz]
  have l1: "length ?b1 = length buf" using l by (simp add: length_first)
  have l2: "length ?b2 = length buf" using l l1 by (simp add: length_second)
  have "has_extents True buf = False"
    using assms(4) unfolding has_extents_def Let_def and_or_eq_0 by simp
  then have to: "?to = swap_members ?ms ?b2"
    unfolding to_cpu_eq [OF l assms(3)] using sp(6) assms(4) by (simp add: third_members_def)
  have ok: "inside (length ?b2) ?ms" "seps ?ms"
    using l l2 by (simp_all add: at_base_def super_block_members_def sep_def)
  have low: "field n off ?b2 = field n off buf" if "160 \<le> off" for n off
  proof -
    have "field n off ?b1 = field n off buf"
      unfolding first_members using that l
      by (intro field_swap_other scalars_ok(1)) (auto simp: sep_def)
    moreover have "field n off ?b2 = field n off ?b1"
      unfolding second_members using that l l1 by (intro field_swap_other second_ok) auto
    ultimately show ?thesis by simp
  qed
  have m: "ld False n ?to off = ld True n buf off" if "(off, n) \<in> set ?ms" for off n
  proof -
    have "160 \<le> off" using that by (auto simp: at_base_def)
    then show ?thesis unfolding to ld_swap_member [OF ok that] by (simp add: ld_def low)
  qed
  have f: "field 64 224 ?to = field 64 224 buf" "field 16 288 ?to = field 16 288 buf"
    unfolding to by (subst field_swap_other [OF ok(1)];
      simp add: at_base_def super_block_members_def sep_def low)+
  show ?thesis
    unfolding super_block_of_def ld16_def ld32_def ld64_def
    by (simp add: m f at_base_def super_block_members_def)
qed

section \<open>Properties\<close>

text \<open>
  C19. Reading an inode gives the same structure on every CPU: after the conversion
  every scalar member has the value it has on disk in little-endian order, the
  superblock inside the inode too, and the conversion back restores the block. This holds
  of an inode whose variable part the second conversion can read again (\<open>self_inverse_inode\<close>):
  it has neither a chain list, nor a truncate log, nor inline data of a directory; the
  chain list is the subject of a property of its own, which shows that the exception is needed.
  The one member left out is \<^verbatim>\<open>i_suballoc_bit\<close>, which the code does not swap: a
  big-endian CPU reads it with its bytes reversed.
\<close>

theorem inode_cpu_order:
  assumes "320 \<le> bsz" and "bsz \<le> length buf" and "self_inverse_inode True buf"
  shows "dinode_of le (cmfs_swap_inode_to_cpu le bsz buf) 0
      = (dinode_of True buf 0)\<lparr>i_suballoc_bit := ld16 le buf o_i_suballoc_bit\<rparr>
    \<and> (ld32 True buf o_i_flags AND CMFS_SUPER_BLOCK_FL \<noteq> 0 \<longrightarrow>
        super_block_of le (cmfs_swap_inode_to_cpu le bsz buf) o_id2 = super_block_of True buf o_id2)
    \<and> cmfs_swap_inode_from_cpu le bsz (cmfs_swap_inode_to_cpu le bsz buf) = buf"
proof (cases le)
  case True
  then show ?thesis
    by (simp add: cmfs_swap_inode_from_cpu_def cmfs_swap_inode_to_cpu_def dinode_of_def)
next
  case False
  have "field 8 0 (cmfs_swap_inode_to_cpu False bsz buf) = field 8 0 buf"
    and "field 2 148 (cmfs_swap_inode_to_cpu False bsz buf) = field 2 148 buf"
    by (rule to_cpu_field [OF assms]; simp add: sep_def)+
  then have "dinode_of False (cmfs_swap_inode_to_cpu False bsz buf) 0
      = (dinode_of True buf 0)\<lparr>i_suballoc_bit := ld16 False buf o_i_suballoc_bit\<rparr>"
    by (simp add: dinode_of_def ld16_def ld32_def ld64_def to_cpu_ld [OF assms] ld_def [of _ 2 _ 148])
  then show ?thesis using False to_cpu_super [OF assms] inode_roundtrip [OF assms, of False] by simp
qed

theorem inode_cpu_order_witness:
  "dinode_of False (cmfs_swap_inode_to_cpu False 320 (counting 320)) 0
     = (dinode_of True (counting 320) 0)
        \<lparr>i_suballoc_bit := ld16 False (counting 320) o_i_suballoc_bit\<rparr>
   \<and> cmfs_swap_inode_from_cpu False 320
       (cmfs_swap_inode_to_cpu False 320 (counting 320)) = counting 320"
proof -
  have "self_inverse_inode True (counting 320)"
    by (simp add: self_inverse_inode_def inline_dir_def ld32_def ld16_def ld_def cpu_order_def
        field_counting S_ISDIR_def S_IFMT_def)
  then show ?thesis using inode_cpu_order [of 320 "counting 320" False] by simp
qed

text \<open>
  C20. An extent list reads the same on every CPU: the header, and in every record
  that is in use and lies inside the block the file offset, the disk address and the
  length member that its depth selects; and converting back restores the block.
\<close>

theorem extent_list_cpu_order:
  assumes "b + 32 \<le> bsz" and "bsz \<le> length buf"
    and "i < unat (l_next_free_rec (extent_list_of True buf b))"
    and "b + 32 + 32 * i + 32 \<le> bsz"
  shows "extent_list_of le (cmfs_swap_extent_list_to_cpu le bsz b buf) b = extent_list_of True buf b
    \<and> e_cpos (el_rec le (cmfs_swap_extent_list_to_cpu le bsz b buf) b i) = e_cpos (el_rec True buf b i)
    \<and> e_blkno (el_rec le (cmfs_swap_extent_list_to_cpu le bsz b buf) b i) = e_blkno (el_rec True buf b i)
    \<and> (if l_tree_depth (extent_list_of True buf b) \<noteq> 0
       then e_int_blocks (el_rec le (cmfs_swap_extent_list_to_cpu le bsz b buf) b i)
              = e_int_blocks (el_rec True buf b i)
       else e_leaf_blocks (el_rec le (cmfs_swap_extent_list_to_cpu le bsz b buf) b i)
              = e_leaf_blocks (el_rec True buf b i))
    \<and> cmfs_swap_extent_list_from_cpu le bsz b (cmfs_swap_extent_list_to_cpu le bsz b buf) = buf"
  using extent_list_reads_disk [OF assms] list_roundtrip [OF assms(1,2)] by blast

theorem extent_list_cpu_order_witness:
  "e_cpos (el_rec False (cmfs_swap_extent_list_to_cpu False 128 32 (counting 128)) 32 1)
     = e_cpos (el_rec True (counting 128) 32 1)
   \<and> cmfs_swap_extent_list_from_cpu False 128 32
       (cmfs_swap_extent_list_to_cpu False 128 32 (counting 128)) = counting 128"
proof -
  have "1 < unat (l_next_free_rec (extent_list_of True (counting 128) 32))"
    by (simp add: extent_list_of_def ld16_def ld_def cpu_order_def field_counting)
  then show ?thesis
    using extent_list_cpu_order [of 32 128 "counting 128" 1 False] by simp
qed

text \<open>
  On a big-endian CPU every converted directory entry has record length 0,
  whatever the disk holds: the 16-bit \<^verbatim>\<open>rec_len\<close> goes through \<^verbatim>\<open>bswap_64\<close>, which
  moves it to the high 16 bits of a 64-bit value that the assignment cuts off.
\<close>

lemma ucast_bswap_64_u16: "ucast (bswap_64 (ucast (x :: u16))) = (0 :: u16)"
proof -
  have x: "unat x < 65536" by (rule unat_u16_less)
  then have "unat x < 2 ^ 64" by simp
  then have u: "unat (ucast x :: u64) = unat x"
    by (simp add: unsigned_ucast_eq take_bit_nat_eq_self del: power.simps)
  have z: "unat x div 256 div 256 = 0" using x by (simp add: div_mult2_eq [symmetric])
  have "\<exists>a b. le_bytes 8 (unat x) = [a, b, 0, 0, 0, 0, 0, 0]"
    by (simp add: le_bytes_numeral z)
  then obtain a b where ab: "le_bytes 8 (unat x) = [a, b, 0, 0, 0, 0, 0, 0]" by blast
  have a: "unat a < 256" and b: "unat b < 256" by (rule unat_u8_less)+
  have "unat (bswap_64 (ucast x)) = (256 ^ 6 * (unat b + 256 * unat a)) mod 2 ^ 64"
  proof -
    have "le_nat (rev [a, b, 0, 0, 0, 0, 0, 0]) = 256 ^ 6 * (unat b + 256 * unat a)" by simp
    then show ?thesis unfolding bswap_64_def u ab by (simp only: unat_of_nat take_bit_eq_mod) simp
  qed
  then have "unat (ucast (bswap_64 (ucast x)) :: u16) = (256 ^ 6 * (unat b + 256 * unat a)) mod 2 ^ 64 mod 2 ^ 16"
    by (simp add: unsigned_ucast_eq take_bit_eq_mod)
  also have "\<dots> = (256 ^ 6 * (unat b + 256 * unat a)) mod 2 ^ 16"
    by (rule mod_mod_cancel) simp
  also have "\<dots> = 0" by simp
  finally show ?thesis by (simp add: unat_eq_zero)
qed

text \<open>
  On a big-endian CPU the conversion of a directory entry sets its length to zero, whatever
  the length was: the 16-bit member goes through the 64-bit swap.
\<close>

theorem dir_entry_swap_zero:
  assumes "p + 12 \<le> length buf"
  shows "d_rec_len (dir_entry_of False (cmfs_swap_dir_entry False p buf) p) = 0"
  using assms by (simp add: dir_entry_of_def cmfs_swap_dir_entry_def Let_def ucast_bswap_64_u16 buf_simps)

theorem dir_entry_swap_zero_witness:
  "d_rec_len (dir_entry_of False (cmfs_swap_dir_entry False 0 (replicate 12 7)) 0) = 0"
  by (rule dir_entry_swap_zero) simp

subsection \<open>Chain lists\<close>

abbreviation (input) chain_header :: "(nat \<times> nat) list" where
  "chain_header \<equiv> [(160, 2), (162, 2), (164, 2), (166, 2)]"

abbreviation (input) chain_rec_members :: "(nat \<times> nat) list" where
  "chain_rec_members \<equiv> [(0, 4), (4, 4), (8, 8)]"

definition chain_inode :: "bool \<Rightarrow> bytes \<Rightarrow> bool" where
  "chain_inode le buf \<longleftrightarrow> ld32 le buf o_i_flags AND CMFS_SUPER_BLOCK_FL = 0
     \<and> ld32 le buf o_i_flags AND CMFS_LOCAL_ALLOC_FL = 0
     \<and> ld32 le buf o_i_flags AND CMFS_CHAIN_FL \<noteq> 0"

lemma third_chain:
  assumes "chain_inode False buf" and "176 \<le> bsz" and "bsz \<le> length buf"
  shows "cmfs_swap_inode_third False bsz buf =
    swap_members (rec_members 16 chain_rec_members 176 0
      (min (unat (ld16 True buf 166)) ((bsz - 176) div 16))) (swap_members chain_header buf)"
proof -
  have "inside (length buf) chain_header" "seps chain_header" using assms by (simp_all add: sep_def)
  then have "ld False 2 (swap_members chain_header buf) 166 = ld True 2 buf 166"
    by (subst ld_swap_member) simp_all
  then have n: "ld16 False (swap_members chain_header buf) 166 = ld16 True buf 166"
    by (simp add: ld16_def)
  show ?thesis
    using assms n by (simp add: cmfs_swap_inode_third_def Let_def chain_inode_def at_base_def swap_recs_members)
qed

lemma chain_recs_fit: "176 \<le> bsz \<Longrightarrow> bsz \<le> l \<Longrightarrow>
    176 + 16 * min n ((bsz - 176) div 16) \<le> (l::nat)"
  by (metis add_mono le_add_diff_inverse le_refl min.cobounded2 mult_le_mono2 order_trans
      times_div_less_eq_dividend)

lemma chain_rec_members_ok:
  assumes "176 \<le> bsz" and "bsz \<le> l"
  shows "inside l (rec_members 16 chain_rec_members 176 0 (min n ((bsz - 176) div 16)))"
    and "seps (rec_members 16 chain_rec_members 176 0 j)"
    and "off + m \<le> 176 \<Longrightarrow> list_all (sep (off, m)) (rec_members 16 chain_rec_members 176 0 j)"
proof -
  have ms: "inside 16 chain_rec_members" "seps chain_rec_members" by (simp_all add: sep_def)
  show "inside l (rec_members 16 chain_rec_members 176 0 (min n ((bsz - 176) div 16)))"
    using ms(1) chain_recs_fit [OF assms] by (rule inside_rec_members)
  show "seps (rec_members 16 chain_rec_members 176 0 j)" using ms by (rule seps_rec_members)
  show "off + m \<le> 176 \<Longrightarrow> list_all (sep (off, m)) (rec_members 16 chain_rec_members 176 0 j)"
    using ms(1) by (rule sep_rec_members)
qed

lemma length_third_chain:
  assumes "chain_inode False buf" and "176 \<le> bsz" and "bsz \<le> length buf"
  shows "length (cmfs_swap_inode_third False bsz buf) = length buf"
  unfolding third_chain [OF assms]
  using assms chain_rec_members_ok(1) [OF assms(2,3)] by simp

lemma field_third_chain_low:
  assumes "chain_inode False buf" and "176 \<le> bsz" and "bsz \<le> length buf" and "off + m \<le> 160"
  shows "field m off (cmfs_swap_inode_third False bsz buf) = field m off buf"
  unfolding third_chain [OF assms(1-3)]
  using assms chain_rec_members_ok(1,3) [OF assms(2,3)]
  by (simp add: field_swap_other sep_def del: swap_members_simps)

lemma third_chain_twice:
  assumes "chain_inode False buf" and "176 \<le> bsz" and "bsz \<le> length buf"
    and "unat (ld16 True buf 166) \<le> k" and "k < unat (ld16 False buf 166)"
    and "176 + 16 * k + 16 \<le> bsz"
  shows "field 4 (176 + 16 * k) (cmfs_swap_inode_third False bsz (cmfs_swap_inode_third False bsz buf))
    = rev (field 4 (176 + 16 * k) buf)"
proof -
  let ?off = "176 + 16 * k"
  let ?n = "min (unat (ld16 True buf 166)) ((bsz - 176) div 16)"
  let ?r = "\<lambda>n. rec_members 16 chain_rec_members 176 0 n"
  let ?h = "swap_members chain_header buf"
  let ?b = "cmfs_swap_inode_third False bsz buf"
  have b: "?b = swap_members (?r ?n) ?h" by (rule third_chain [OF assms(1-3)])
  have hdr: "inside (length buf) chain_header" "seps chain_header"
    using assms by (simp_all add: sep_def)
  have lh: "length ?h = length buf" using hdr(1) by (rule length_swap_members)
  have lb: "length ?b = length buf" by (rule length_third_chain [OF assms(1-3)])
  note ok = chain_rec_members_ok [OF assms(2,3)]
  have kfit: "k < (bsz - 176) div 16"
    using assms(6) by (simp add: less_eq_div_iff_mult_less_eq flip: Suc_le_eq)
  have flags: "ld32 False ?b o_i_flags = ld32 False buf o_i_flags"
    using field_third_chain_low [OF assms(1-3)] by (simp add: ld32_def ld_def)
  then have chain: "chain_inode False ?b" using assms(1) by (simp add: chain_inode_def)
  have "ld True 2 ?b 166 = ld True 2 ?h 166"
    unfolding b using ok lh by (intro ld_swap_other) auto
  also have "\<dots> = ld False 2 buf 166" using hdr by (subst ld_swap_member) simp_all
  finally have n': "ld16 True ?b 166 = ld16 False buf 166" by (simp add: ld16_def)
  let ?n' = "min (unat (ld16 False buf 166)) ((bsz - 176) div 16)"
  have bb: "cmfs_swap_inode_third False bsz ?b = swap_members (?r ?n') (swap_members chain_header ?b)"
    using third_chain [OF chain assms(2)] assms(3) lb unfolding n' by simp
  have mem: "(?off, 4) \<in> set (?r ?n')"
    unfolding set_rec_members
    by (rule exI [of _ k], rule exI [of _ 0], rule exI [of _ 4]) (use assms(5) kfit in simp)
  have "field 4 ?off (cmfs_swap_inode_third False bsz ?b) = rev (field 4 ?off (swap_members chain_header ?b))"
    unfolding bb using ok lb hdr(1) mem by (intro field_swap_member) auto
  also have "field 4 ?off (swap_members chain_header ?b) = field 4 ?off ?b"
    using hdr(1) lb by (intro field_swap_other) (auto simp: sep_def)
  also have "\<dots> = field 4 ?off ?h"
  proof -
    have "sep (?off, 4) x" if x: "x \<in> set (?r ?n)" for x
    proof -
      obtain r o' m where r: "r < ?n" "(o', m) \<in> set chain_rec_members" "x = (176 + 16 * r + o', m)"
        using x by (auto simp: set_rec_members)
      have "16 * Suc r \<le> 16 * k" using r(1) assms(4) by (intro mult_le_mono2) linarith
      moreover have "o' + m \<le> 16" using r(2) by auto
      ultimately show ?thesis using r(3) by (simp add: sep_def)
    qed
    then show ?thesis unfolding b using ok lh by (intro field_swap_other) (auto simp: list_all_iff)
  qed
  also have "\<dots> = field 4 ?off buf" using hdr(1) by (intro field_swap_other) (auto simp: sep_def)
  finally show ?thesis .
qed

lemma scalar_high:
  assumes "320 \<le> length buf" and "160 \<le> off"
  shows "field n off (cmfs_swap_inode_second False (cmfs_swap_inode_first buf)) = field n off buf"
    and "field n off (cmfs_swap_inode_first (cmfs_swap_inode_second False buf)) = field n off buf"
proof -
  have f: "field n off (cmfs_swap_inode_first b) = field n off b" if "length b = length buf" for b
    unfolding first_members using that assms
    by (intro field_swap_other scalars_ok(1)) (auto simp: sep_def)
  have s: "field n off (cmfs_swap_inode_second False b) = field n off b" if "length b = length buf" for b
    unfolding second_members using that assms by (intro field_swap_other second_ok) auto
  show "field n off (cmfs_swap_inode_second False (cmfs_swap_inode_first buf)) = field n off buf"
    using f [OF refl] s assms(1) by (simp add: length_first)
  show "field n off (cmfs_swap_inode_first (cmfs_swap_inode_second False buf)) = field n off buf"
    using s [OF refl] f assms(1) by (simp add: length_second)
qed

lemma length_scalars:
  "160 \<le> length buf \<Longrightarrow>
    length (cmfs_swap_inode_second False (cmfs_swap_inode_first buf)) = length buf"
  by (simp add: length_first length_second)

lemma ld_scalars:
  assumes "160 \<le> length buf" and "(off, n) \<in> set inode_scalars"
  shows "ld False n (cmfs_swap_inode_second False (cmfs_swap_inode_first buf)) off = ld True n buf off"
proof -
  have "off + n \<le> 152" using assms(2) scalars_ok(1) [of 152] by (auto simp: inside_def list_all_iff)
  then show ?thesis using assms by (simp add: ld_second ld_first length_first)
qed

text \<open>
  C26. On a big-endian CPU, converting a chain-allocator inode back to disk order is
  not the inverse of reading it: the record count is taken after the header has
  been swapped, so the loop runs on a byte-reversed count. Every record that the
  true count leaves out and the reversed one covers is written with its free-bit
  count byte-reversed.
\<close>

theorem chain_inode_written_wrong:
  assumes "320 \<le> bsz" and "bsz \<le> length buf" and "chain_inode True buf" and "\<not> inline_dir True buf"
    and "unat (ld16 True buf (o_id2 + o_cl_next_free_rec)) \<le> k"
    and "k < unat (ld16 False buf (o_id2 + o_cl_next_free_rec))"
    and "o_id2 + o_cl_recs + 16 * k + 16 \<le> bsz"
  shows "field 4 (o_id2 + o_cl_recs + 16 * k)
      (cmfs_swap_inode_from_cpu False bsz (cmfs_swap_inode_to_cpu False bsz buf))
    = rev (field 4 (o_id2 + o_cl_recs + 16 * k) buf)"
proof -
  let ?b2 = "cmfs_swap_inode_second False (cmfs_swap_inode_first buf)"
  let ?b3 = "cmfs_swap_inode_third False bsz ?b2"
  have l: "320 \<le> length buf" "160 \<le> length buf" using assms by simp_all
  note len2 = length_scalars [OF l(2)] and ld2 = ld_scalars [OF l(2)] and hi = scalar_high(1) [OF l(1)]
  have chain2: "chain_inode False ?b2"
    using assms(3) by (simp add: chain_inode_def ld32_def ld2)
  have b3: "176 \<le> bsz" "bsz \<le> length ?b2" using assms(1,2) len2 by simp_all
  note len3 = length_third_chain [OF chain2 b3]
  have "ld False n ?b3 off = ld True n buf off" if "(off, n) \<in> set inode_scalars" for off n
  proof -
    have "off + n \<le> 160" using that scalars_ok(1) [of 152] by (auto simp: inside_def list_all_iff)
    then show ?thesis using field_third_chain_low [OF chain2 b3] ld2 [OF that] by (simp add: ld_def)
  qed
  note s3 = this
  have sc: "has_extents False ?b3 = has_extents True buf" "inline_dir False ?b3 = inline_dir True buf"
    by (rule has_extents_scalars, erule s3)+
  have noext: "\<not> has_extents True buf"
    using assms(3) unfolding has_extents_def Let_def chain_inode_def and_or_eq_0 by simp
  have to: "cmfs_swap_inode_to_cpu False bsz buf = ?b3"
    using sc noext assms(4) by (simp add: cmfs_swap_inode_to_cpu_def Let_def)
  have from3: "cmfs_swap_inode_from_cpu False bsz ?b3 =
      cmfs_swap_inode_first (cmfs_swap_inode_second False (cmfs_swap_inode_third False bsz ?b3))"
    using sc noext assms(4) by (simp add: cmfs_swap_inode_from_cpu_def Let_def)
  have "chain_inode False ?b3"
    using chain2 field_third_chain_low [OF chain2 b3] by (simp add: chain_inode_def ld32_def ld_def)
  then have l4: "320 \<le> length (cmfs_swap_inode_third False bsz ?b3)"
    using b3 len3 l(1) len2 by (subst length_third_chain) simp_all
  have cnt: "ld16 le ?b2 166 = ld16 le buf 166" for le
    using hi [of 166 2] by (simp add: ld16_def ld_def)
  show ?thesis
    unfolding to from3
    using scalar_high(2) [OF l4] third_chain_twice [OF chain2 b3, of k] assms(5-7) hi cnt by simp
qed

theorem chain_inode_written_wrong_witness:
  "field 4 192 (cmfs_swap_inode_from_cpu False 320 (cmfs_swap_inode_to_cpu False 320
      (put 64 [0, 2, 0, 0] (put 166 [1, 0] (counting 320))))) = [195, 194, 193, 192]"
proof -
  let ?b = "put 64 [0, 2, 0, 0] (put 166 [1, 0] (counting 320))"
  have "chain_inode True ?b" and "\<not> inline_dir True ?b"
    and "unat (ld16 True ?b 166) = 1" and "unat (ld16 False ?b 166) = 256"
    by (simp_all add: chain_inode_def inline_dir_def ld32_def ld16_def ld_def cpu_order_def
        field_put_other field_put_same field_counting S_ISDIR_def S_IFMT_def)
  then show ?thesis
    using chain_inode_written_wrong [of 320 ?b 1] by (simp add: field_put_other field_counting)
qed

end
