(* ===== verification/Superblock.thy ===== *)
theory Superblock
  imports Mkfs_format Byteorder_Inode Buffers Transfers
begin

text \<open>
  The superblock that \<^verbatim>\<open>mkfs.cmfs\<close> writes, and the file system that \<^verbatim>\<open>cmfs_open\<close> makes of it.
\<close>

section \<open>The conversion of a superblock\<close>

definition super_inode :: "bool \<Rightarrow> bytes \<Rightarrow> bool" where
  "super_inode le di \<longleftrightarrow> 320 \<le> length di \<and> ld32 le di o_i_flags AND CMFS_SUPER_BLOCK_FL \<noteq> 0
     \<and> ld32 le di o_i_flags AND CMFS_CHAIN_FL = 0 \<and> ld32 le di o_i_flags AND CMFS_DEALLOC_FL = 0
     \<and> ld16 le di o_i_dyn_features AND CMFS_INLINE_DATA_FL = 0"

lemma super_inode_convert:
  assumes "super_inode le di"
  shows "cmfs_swap_inode_to_cpu le bsz' (cmfs_swap_inode_from_cpu le bsz di) = di"
    and "length (cmfs_swap_inode_from_cpu le bsz di) = length di"
    and "take 8 (cmfs_swap_inode_from_cpu le bsz di) = take 8 di"
proof (atomize (full), cases le)
  case True
  then show "cmfs_swap_inode_to_cpu le bsz' (cmfs_swap_inode_from_cpu le bsz di) = di
    \<and> length (cmfs_swap_inode_from_cpu le bsz di) = length di
    \<and> take 8 (cmfs_swap_inode_from_cpu le bsz di) = take 8 di"
    by (simp add: cmfs_swap_inode_from_cpu_def cmfs_swap_inode_to_cpu_def)
next
  case False
  then have di: "320 \<le> length di" "ld32 False di o_i_flags AND CMFS_SUPER_BLOCK_FL \<noteq> 0"
    "ld32 False di o_i_flags AND CMFS_CHAIN_FL = 0" "ld32 False di o_i_flags AND CMFS_DEALLOC_FL = 0"
    "ld16 False di o_i_dyn_features AND CMFS_INLINE_DATA_FL = 0"
    using assms by (simp_all add: super_inode_def)
  let ?b3 = "cmfs_swap_inode_third False bsz di"
  let ?b2 = "cmfs_swap_inode_second False ?b3"
  let ?from = "cmfs_swap_inode_first ?b2"
  have no: "\<not> has_extents False di" "\<not> inline_dir False di"
    using di(2,5) unfolding has_extents_def inline_dir_def Let_def and_or_eq_0 by simp_all
  have from_eq: "cmfs_swap_inode_from_cpu False bsz di = ?from" using no by (simp add: cmfs_swap_inode_from_cpu_def)
  have l3: "length ?b3 = length di" by (rule length_third [OF di(1,3,4)])
  have l2: "length ?b2 = length di" using di(1) l3 by (simp add: length_second)
  have l1: "length ?from = length di" using di(1) l2 by (simp add: length_first)
  have first: "cmfs_swap_inode_first ?from = ?b2" using di(1) l2 by (intro first_first) simp
  have second: "cmfs_swap_inode_second False ?b2 = ?b3" using di(1) l3 by (intro second_second) simp
  have third: "cmfs_swap_inode_third False bsz' ?b3 = di"
  proof -
    have flags: "ld32 False ?b3 o_i_flags = ld32 False di o_i_flags" "ld16 False ?b3 o_i_dyn_features = ld16 False di o_i_dyn_features"
      using ld_third [OF di(1,3,4), of _ _ False bsz] by (simp_all add: ld32_def ld16_def)
    have "cmfs_swap_inode_third False bsz' ?b3 = cmfs_swap_inode_third False bsz ?b3"
      using third_members [of False ?b3] flags di(3,4) by simp
    then show ?thesis using third_third [OF di(1,3,4)] by simp
  qed
  have "take 8 ?from = take 8 di"
  proof -
    have "field 8 0 ?from = field 8 0 ?b2"
      unfolding first_members by (rule field_swap_other) (use di(1) l2 in \<open>simp_all add: scalars_ok sep_def\<close>)
    also have "\<dots> = field 8 0 ?b3"
      unfolding second_members by (rule field_swap_other) (use di(1) l3 in \<open>simp_all add: second_ok\<close>)
    also have "\<dots> = field 8 0 di"
      unfolding third_members [OF di(3,4)] by (rule field_swap_other) (use di(1) in \<open>simp_all add: third_ok\<close>)
    finally show ?thesis by (simp add: field_def)
  qed
  then show "cmfs_swap_inode_to_cpu le bsz' (cmfs_swap_inode_from_cpu le bsz di) = di
    \<and> length (cmfs_swap_inode_from_cpu le bsz di) = length di
    \<and> take 8 (cmfs_swap_inode_from_cpu le bsz di) = take 8 di"
    using False no first second third from_eq l1 by (simp add: cmfs_swap_inode_to_cpu_def Let_def)
qed

section \<open>The contents of the superblock\<close>

text \<open>What a run of mkfs has made sure of before it writes the superblock.\<close>

definition super_ready :: "mkfs_state \<Rightarrow> bool" where
  "super_ready s \<longleftrightarrow> ms_blocksize s = 4096 \<and> ms_blocksize_bits s = 12
     \<and> 12 \<le> ms_cluster_size_bits s \<and> ms_cluster_size_bits s \<le> 25
     \<and> (\<exists>label. ms_vol_label s = Some label \<and> length label < 64) \<and> length (ms_uuid s) = 16"

text \<open>A buffer that is filled by a list of stores, the last one first.\<close>

fun puts :: "(nat \<times> bytes) list \<Rightarrow> bytes \<Rightarrow> bytes" where
  "puts [] buf = buf"
| "puts ((off, bs) # ps) buf = put off bs (puts ps buf)"

fun stored :: "nat \<Rightarrow> nat \<Rightarrow> (nat \<times> bytes) list \<Rightarrow> bytes \<Rightarrow> bytes" where
  "stored n off [] rest = rest"
| "stored n off ((o1, bs) # ps) rest =
     (if o1 = off \<and> length bs = n then bs else stored n off ps rest)"

definition stores_fit :: "nat \<Rightarrow> (nat \<times> bytes) list \<Rightarrow> bool" where
  "stores_fit l ps \<longleftrightarrow> list_all (\<lambda>(off, bs). off + length bs \<le> l) ps"

text \<open>The range is written as a whole or not at all.\<close>

definition whole_range :: "nat \<Rightarrow> nat \<Rightarrow> (nat \<times> bytes) list \<Rightarrow> bool" where
  "whole_range n off ps \<longleftrightarrow>
     list_all (\<lambda>(o1, bs). (o1 = off \<and> length bs = n) \<or> o1 + length bs \<le> off \<or> off + n \<le> o1) ps"

lemma length_puts: "stores_fit (length buf) ps \<Longrightarrow> length (puts ps buf) = length buf"
  by (induction ps buf rule: puts.induct) (auto simp: stores_fit_def)

lemma field_puts:
  assumes "stores_fit (length buf) ps" and "whole_range n off ps"
  shows "field n off (puts ps buf) = stored n off ps (field n off buf)"
  using assms
proof (induction ps buf rule: puts.induct)
  case (2 o1 bs ps buf)
  then have "stores_fit (length buf) ps" "length (puts ps buf) = length buf" "o1 + length bs \<le> length buf"
    using length_puts [of buf ps] by (simp_all add: stores_fit_def)
  then show ?case using 2 by (auto simp: whole_range_def field_put_same field_put_other)
qed simp

lemma ld_stored:
  "field 2 off buf = cpu_order le (le_bytes 2 (unat v16)) \<Longrightarrow> ld16 le buf off = v16"
  "field 4 off buf = cpu_order le (le_bytes 4 (unat v32)) \<Longrightarrow> ld32 le buf off = v32"
  "field 8 off buf = cpu_order le (le_bytes 8 (unat v64)) \<Longrightarrow> ld64 le buf off = v64"
  by (simp_all add: ld16_def ld32_def ld64_def ld_def le_nat_le_bytes unat_u16_less unat_u32_less unat_u64_less)

text \<open>The stores that make the superblock, and the members they set.\<close>

abbreviation (input) b16 :: "bool \<Rightarrow> u16 \<Rightarrow> bytes" where "b16 le v \<equiv> cpu_order le (le_bytes 2 (unat v))"
abbreviation (input) b32 :: "bool \<Rightarrow> u32 \<Rightarrow> bytes" where "b32 le v \<equiv> cpu_order le (le_bytes 4 (unat v))"
abbreviation (input) b64 :: "bool \<Rightarrow> u64 \<Rightarrow> bytes" where "b64 le v \<equiv> cpu_order le (le_bytes 8 (unat v))"

definition superblock_stores :: "mkfs_state \<Rightarrow> string \<Rightarrow> u64 \<Rightarrow> u64 \<Rightarrow> u64 \<Rightarrow> (nat \<times> bytes) list" where
  "superblock_stores s label off root sys =
     (let le = ms_le s; f = ms_feature_flags s in rev
       [(o_i_signature, CMFS_SUPER_BLOCK_SIGNATURE @ [0]), (o_i_generation, b32 le (ms_vol_generation s)),
        (o_i_fs_generation, b32 le (ms_vol_generation s)), (o_i_atime, b64 le 0), (o_i_ctime, b64 le (ms_format_time s)),
        (o_i_mtime, b64 le (ms_format_time s)), (o_i_blkno, b64 le (drop_bit 12 off)), (o_i_flags, b32 le 0x31),
        (o_i_clusters, b32 le (ucast (ms_volume_size_in_clusters s))),
        (o_id2 + o_s_major_rev_level, b16 le 0), (o_id2 + o_s_minor_rev_level, b16 le 1),
        (o_id2 + o_s_root_blkno, b64 le (drop_bit 12 root)), (o_id2 + o_s_system_dir_blkno, b64 le (drop_bit 12 sys)),
        (o_id2 + o_s_mnt_count, b16 le 0), (o_id2 + o_s_max_mnt_count, b16 le 48), (o_id2 + o_s_state, b16 le 0),
        (o_id2 + o_s_errors, b16 le 0), (o_id2 + o_s_lastcheck, b64 le (ms_format_time s)),
        (o_id2 + o_s_checkinterval, b32 le 0), (o_id2 + o_s_creator_os, b32 le 0),
        (o_id2 + o_s_blocksize_bits, b32 le 12), (o_id2 + o_s_clustersize_bits, b32 le (of_nat (ms_cluster_size_bits s))),
        (o_id2 + o_s_feature_incompat, b32 le (opt_incompat f)), (o_id2 + o_s_feature_compat, b32 le (opt_compat f)),
        (o_id2 + o_s_feature_ro_compat, b32 le (opt_ro_compat f)), (o_id2 + o_s_label, ascii label @ [0]),
        (o_id2 + o_s_uuid, ms_uuid s)])"

lemma superblock_puts:
  assumes "super_ready s" and "ms_vol_label s = Some label"
  shows "superblock_buf s off root sys = puts (superblock_stores s label off root sys) (replicate 4096 0)"
  using assms by (simp add: superblock_buf_def superblock_stores_def super_ready_def strcpy_at_def stw_put Let_def)

lemma superblock_fields:
  assumes "length label < 64" and "length (ms_uuid s) = 16"
  shows "stores_fit 4096 (superblock_stores s label off root sys)"
    and "list_all (\<lambda>(n, off'). whole_range n off' (superblock_stores s label off root sys))
      [(4, o_i_flags), (2, o_i_dyn_features), (7, o_i_signature), (8, o_i_blkno), (4, o_i_clusters),
       (4, o_id2 + o_s_blocksize_bits), (4, o_id2 + o_s_clustersize_bits), (8, o_id2 + o_s_root_blkno),
       (8, o_id2 + o_s_system_dir_blkno), (8, o_id2 + o_s_first_cluster_group), (16, o_id2 + o_s_uuid),
       (4, o_id2 + o_s_feature_incompat), (4, o_id2 + o_s_feature_compat), (4, o_id2 + o_s_feature_ro_compat)]"
  using assms by (simp_all add: superblock_stores_def stores_fit_def whole_range_def Let_def ascii_def
      CMFS_SUPER_BLOCK_SIGNATURE_def)

lemma superblock_stored:
  assumes "length label < 64" and "length (ms_uuid s) = 16"
  shows "stored 4 o_i_flags (superblock_stores s label off root sys) r = b32 (ms_le s) 0x31"
    "stored 2 o_i_dyn_features (superblock_stores s label off root sys) r = r"
    "stored 7 o_i_signature (superblock_stores s label off root sys) r = CMFS_SUPER_BLOCK_SIGNATURE @ [0]"
    "stored 8 o_i_blkno (superblock_stores s label off root sys) r = b64 (ms_le s) (drop_bit 12 off)"
    "stored 4 o_i_clusters (superblock_stores s label off root sys) r = b32 (ms_le s) (ucast (ms_volume_size_in_clusters s))"
    "stored 4 (o_id2 + o_s_blocksize_bits) (superblock_stores s label off root sys) r = b32 (ms_le s) 12"
    "stored 4 (o_id2 + o_s_clustersize_bits) (superblock_stores s label off root sys) r = b32 (ms_le s) (of_nat (ms_cluster_size_bits s))"
    "stored 8 (o_id2 + o_s_root_blkno) (superblock_stores s label off root sys) r = b64 (ms_le s) (drop_bit 12 root)"
    "stored 8 (o_id2 + o_s_system_dir_blkno) (superblock_stores s label off root sys) r = b64 (ms_le s) (drop_bit 12 sys)"
    "stored 8 (o_id2 + o_s_first_cluster_group) (superblock_stores s label off root sys) r = r"
    "stored 16 (o_id2 + o_s_uuid) (superblock_stores s label off root sys) r = ms_uuid s"
    "stored 4 (o_id2 + o_s_feature_incompat) (superblock_stores s label off root sys) r = b32 (ms_le s) (opt_incompat (ms_feature_flags s))"
    "stored 4 (o_id2 + o_s_feature_compat) (superblock_stores s label off root sys) r = b32 (ms_le s) (opt_compat (ms_feature_flags s))"
    "stored 4 (o_id2 + o_s_feature_ro_compat) (superblock_stores s label off root sys) r = b32 (ms_le s) (opt_ro_compat (ms_feature_flags s))"
  using assms by (simp_all add: superblock_stores_def Let_def ascii_def CMFS_SUPER_BLOCK_SIGNATURE_def)

lemma superblock_members:
  fixes off root sys :: u64
  assumes "super_ready s"
  defines "di \<equiv> superblock_buf s off root sys" and "le \<equiv> ms_le s"
  shows "length di = 4096" and "ld32 le di o_i_flags = 0x31" and "ld16 le di o_i_dyn_features = 0"
    and "take 7 di = CMFS_SUPER_BLOCK_SIGNATURE @ [0]" and "ld64 le di o_i_blkno = drop_bit 12 off"
    and "ld32 le di o_i_clusters = ucast (ms_volume_size_in_clusters s)"
    and "ld32 le di (o_id2 + o_s_blocksize_bits) = 12"
    and "ld32 le di (o_id2 + o_s_clustersize_bits) = of_nat (ms_cluster_size_bits s)"
    and "ld64 le di (o_id2 + o_s_root_blkno) = drop_bit 12 root"
    and "ld64 le di (o_id2 + o_s_system_dir_blkno) = drop_bit 12 sys"
    and "ld64 le di (o_id2 + o_s_first_cluster_group) = 0"
    and "field 16 (o_id2 + o_s_uuid) di = ms_uuid s"
    and "ld32 le di (o_id2 + o_s_feature_incompat) = opt_incompat (ms_feature_flags s)"
    and "ld32 le di (o_id2 + o_s_feature_compat) = opt_compat (ms_feature_flags s)"
    and "ld32 le di (o_id2 + o_s_feature_ro_compat) = opt_ro_compat (ms_feature_flags s)"
proof -
  obtain label where label: "ms_vol_label s = Some label" "length label < 64" and uuid: "length (ms_uuid s) = 16"
    using assms(1) by (auto simp: super_ready_def)
  note fields = superblock_fields [OF label(2) uuid, where off = off and root = root and sys = sys]
  have di: "di = puts (superblock_stores s label off root sys) (replicate 4096 0)"
    unfolding di_def by (rule superblock_puts [OF assms(1) label(1)])
  have fit: "stores_fit (length (replicate 4096 (0 :: u8))) (superblock_stores s label off root sys)"
    using fields(1) by simp
  show "length di = 4096" using length_puts [OF fit] by (simp add: di)
  have get: "field n k di = stored n k (superblock_stores s label off root sys) (field n k (replicate 4096 0))"
    if "whole_range n k (superblock_stores s label off root sys)" for n k
    unfolding di by (rule field_puts [OF fit that])
  note whole = fields(2) [simplified]
  note all = get whole superblock_stored [OF label(2) uuid, simplified] le_def
  show "ld32 le di o_i_flags = 0x31" "ld32 le di o_i_clusters = ucast (ms_volume_size_in_clusters s)"
    "ld32 le di (o_id2 + o_s_blocksize_bits) = 12"
    "ld32 le di (o_id2 + o_s_clustersize_bits) = of_nat (ms_cluster_size_bits s)"
    "ld32 le di (o_id2 + o_s_feature_incompat) = opt_incompat (ms_feature_flags s)"
    "ld32 le di (o_id2 + o_s_feature_compat) = opt_compat (ms_feature_flags s)"
    "ld32 le di (o_id2 + o_s_feature_ro_compat) = opt_ro_compat (ms_feature_flags s)"
    by (rule ld_stored(2); simp add: all)+
  show "ld64 le di o_i_blkno = drop_bit 12 off" "ld64 le di (o_id2 + o_s_root_blkno) = drop_bit 12 root"
    "ld64 le di (o_id2 + o_s_system_dir_blkno) = drop_bit 12 sys"
    by (rule ld_stored(3); simp add: all)+
  show "ld16 le di o_i_dyn_features = 0" "ld64 le di (o_id2 + o_s_first_cluster_group) = 0"
    by (simp_all add: ld16_def ld64_def ld_def all field_zeros cpu_order_def le_nat_zeros)
  show "take 7 di = CMFS_SUPER_BLOCK_SIGNATURE @ [0]" unfolding take_0_field by (simp add: all)
  show "field 16 (o_id2 + o_s_uuid) di = ms_uuid s" by (simp add: all)
qed

section \<open>Writing\<close>

text \<open>The device of mkfs accepts every write.\<close>

definition device_ready :: "io_channel \<Rightarrow> bool" where
  "device_ready ch \<longleftrightarrow> dev_script ch = [] \<and> length (dev_data ch) < 2 ^ 63"

lemma do_pwrite_ok:
  assumes "device_ready (ms_io s)" and "unat off + length bs \<le> length (dev_data (ms_io s))" and "bs \<noteq> []"
  shows "do_pwrite bs off s = (Inr (), s\<lparr> ms_io := (ms_io s)\<lparr> dev_data := put (unat off) bs (dev_data (ms_io s)) \<rparr> \<rparr>)"
proof -
  have "\<not> sint off < 0" using assms(1,2) by (intro sint_small) (simp add: device_ready_def)
  moreover have "length bs \<le> length (dev_data (ms_io s)) - unat off" "0 < length bs" using assms(2,3) by simp_all
  ultimately show ?thesis using assms(1) by (simp add: do_pwrite_def pwrite64_def Let_def min_def device_ready_def)
qed

lemma superblock_inode: "super_ready s \<Longrightarrow> super_inode (ms_le s) (superblock_buf s off root sys)"
  by (simp add: super_inode_def superblock_members)

lemma super_ready_backup: "super_ready (clear_backup_sb s) = super_ready s" "ms_le (clear_backup_sb s) = ms_le s"
  "ms_io (clear_backup_sb s) = ms_io s" "ms_recs (clear_backup_sb s) = ms_recs s"
  by (simp_all add: super_ready_def clear_backup_sb_def)

lemma format_superblock_ok:
  fixes root sysdir :: rec_id
  assumes "super_ready s" and "device_ready (ms_io s)"
    and "unat (fe_off (ms_recs s rid)) + 4096 \<le> length (dev_data (ms_io s))"
  defines "di \<equiv> superblock_buf (clear_backup_sb s) (fe_off (ms_recs s rid)) (fe_off (ms_recs s root)) (fe_off (ms_recs s sysdir))"
  shows "\<exists>s'. format_superblock rid root sysdir s = (Inr (), s')
    \<and> dev_data (ms_io s') = put (unat (fe_off (ms_recs s rid))) (cmfs_swap_inode_from_cpu (ms_le s) 4096 di) (dev_data (ms_io s))"
proof -
  let ?s = "clear_backup_sb s"
  have ready: "super_ready ?s" using assms(1) by (simp add: super_ready_backup)
  have inode: "super_inode (ms_le s) di" using superblock_inode [OF ready] by (simp add: di_def super_ready_backup)
  have "length (cmfs_swap_inode_from_cpu (ms_le s) 4096 di) = 4096"
    using super_inode_convert(2) [OF inode] superblock_members(1) [OF ready] by (simp add: di_def)
  then have "do_pwrite (cmfs_swap_inode_from_cpu (ms_le s) 4096 di) (fe_off (ms_recs s rid)) ?s
      = (Inr (), ?s\<lparr> ms_io := (ms_io s)\<lparr> dev_data := put (unat (fe_off (ms_recs s rid)))
          (cmfs_swap_inode_from_cpu (ms_le s) 4096 di) (dev_data (ms_io s)) \<rparr> \<rparr>)"
    using do_pwrite_ok [of ?s "fe_off (ms_recs s rid)" "cmfs_swap_inode_from_cpu (ms_le s) 4096 di"] assms(2,3)
    by (fastforce simp: super_ready_backup)
  moreover have "mkfs_swap_inode_from_cpu ?s di = cmfs_swap_inode_from_cpu (ms_le s) 4096 di"
    using ready by (simp add: mkfs_swap_inode_from_cpu_def fill_fake_fs_def Let_def super_ready_backup super_ready_def)
  ultimately show ?thesis
    by (simp add: format_superblock_def bind_io_def upd_io_def Let_def super_ready_backup di_def [symmetric])
qed

section \<open>Opening\<close>

text \<open>A channel to a device without errors, and memory for every allocation.\<close>

definition calm_channel :: "io_channel \<Rightarrow> bool" where
  "calm_channel ch \<longleftrightarrow> \<not> has_fault ch \<and> heap_script ch = [] \<and> length (dev_data ch) < 2 ^ 63"

lemma allocs_ok: "calm_channel ch \<Longrightarrow> take_allocs n ch = (Inr (), ch)"
  by (induction n) (simp_all add: bind_io_def cmfs_malloc_block_def calm_channel_def)

lemma read_plain_ok:
  assumes "calm_channel ch" and "io_cache ch = None" and "io_blksize ch = 4096"
    and "(unat k + 1) * 4096 \<le> length (dev_data ch)"
  shows "\<exists>ch'. unix_io_read_block k 1 ch = (Inr (field 4096 (unat k * 4096) (dev_data ch)), ch')
    \<and> calm_channel ch' \<and> dev_data ch' = dev_data ch \<and> io_cache ch' = None \<and> io_blksize ch' = 4096"
proof -
  have "on_device ch k 1" using assms by (simp add: on_device_def calm_channel_def)
  moreover have "request_fits ch 1" using assms by (simp add: request_fits_def)
  ultimately show ?thesis using assms unix_read_ok [of ch k 1]
    by (auto simp: calm_channel_def same_device_def split: prod.splits sum.splits)
qed

lemma io_open_ok:
  assumes "calm_channel ch" and "name \<noteq> []" and "4096 \<le> length (dev_data ch)"
  shows "\<exists>ch'. io_open name flags None ch = (Inr (), ch') \<and> calm_channel ch' \<and> dev_data ch' = dev_data ch
    \<and> io_cache ch' = None \<and> io_blksize ch' = 4096"
proof -
  let ?ch = "ch\<lparr> io_blksize := 4096, io_nocache := False, io_error := 0, io_cache := None,
    io_bytes_read := 0, io_bytes_written := 0 \<rparr>"
  have calm: "calm_channel ?ch" using assms(1) by (simp add: calm_channel_def has_fault_def)
  have "io_open name flags None ch = (if flags AND CMFS_FLAG_BUFFERED = 0
      then io_validate_o_direct 4096 CMFS_ET_UNEXPECTED_BLOCK_SIZE ?ch else (Inr (), ?ch))"
    using allocs_ok [OF assms(1), of 2] assms(2)
    by (simp add: io_open_def bind_io_def guard_io_def upd_io_def ret_io_def io_get_blksize_def)
  moreover have "\<exists>ch'. io_validate_o_direct 4096 CMFS_ET_UNEXPECTED_BLOCK_SIZE ?ch = (Inr (), ch')
      \<and> calm_channel ch' \<and> dev_data ch' = dev_data ch \<and> io_cache ch' = None \<and> io_blksize ch' = 4096"
  proof -
    obtain ch' where "unix_io_read_block 0 1 ?ch = (Inr (field 4096 0 (dev_data ch)), ch')" "calm_channel ch'"
      "dev_data ch' = dev_data ch" "io_cache ch' = None" "io_blksize ch' = 4096"
      using read_plain_ok [OF calm, of 0] assms(3) by auto
    then show ?thesis using calm
      by (subst io_validate_o_direct.simps)
        (simp add: io_set_blksize_def cmfs_malloc_block_def calm_channel_def Let_def)
  qed
  ultimately show ?thesis using calm by auto
qed

lemma read_super_ok:
  assumes "calm_channel (fs_io fs)" and "io_cache (fs_io fs) = None" and "io_blksize (fs_io fs) = 4096"
    and "12288 \<le> length (dev_data (fs_io fs))"
    and "has_signature CMFS_SUPER_BLOCK_SIGNATURE (field 4096 8192 (dev_data (fs_io fs)))"
  defines "di \<equiv> cmfs_swap_inode_to_cpu (cpu_le fs) (bsize fs) (field 4096 8192 (dev_data (fs_io fs)))"
  shows "\<exists>ch'. cmfs_read_super CMFS_SUPER_BLOCK_BLKNO False fs = (Inr di, fs\<lparr> fs_super := di, fs_io := ch' \<rparr>)
    \<and> calm_channel ch'"
proof -
  let ?blk = "field 4096 8192 (dev_data (fs_io fs))"
  obtain ch' where read: "unix_io_read_block CMFS_SUPER_BLOCK_BLKNO 1 (fs_io fs) = (Inr ?blk, ch')"
    and ch': "calm_channel ch'"
    using read_plain_ok [OF assms(1-3), of CMFS_SUPER_BLOCK_BLKNO] assms(4) by auto
  have heap: "heap_script (fs_io fs) = []" "heap_script ch' = []" using assms(1) ch' by (simp_all add: calm_channel_def)
  have "cmfs_read_super CMFS_SUPER_BLOCK_BLKNO False fs = (Inr di, fs\<lparr> fs_super := di, fs_io := ch' \<rparr>)"
    using read heap assms(2,3,5)
    by (simp add: cmfs_read_super_def Let_def bind_io_def malloc_block_def on_io_def cmfs_malloc_block_def
        cmfs_read_blocks_def cmfs_read_blocks_cached_def io_read_block_def guard_io_def get_io_def upd_io_def ret_io_def
        cmfs_validate_meta_ecc_def di_def)
  then show ?thesis using ch' by blast
qed

text \<open>A superblock in the order of the CPU that \<open>open_check\<close> accepts.\<close>

definition acceptable :: "bool \<Rightarrow> bytes \<Rightarrow> bool" where
  "acceptable le di \<longleftrightarrow> s_blocksize_bits (super_block_of le di o_id2) = 12
     \<and> i_blkno (dinode_of le di 0) = CMFS_SUPER_BLOCK_BLKNO
     \<and> CMFS_MIN_CLUSTERSIZE_BITS \<le> s_clustersize_bits (super_block_of le di o_id2)
     \<and> s_clustersize_bits (super_block_of le di o_id2) \<le> CMFS_MAX_CLUSTERSIZE_BITS
     \<and> s_root_blkno (super_block_of le di o_id2) \<noteq> 0 \<and> s_system_dir_blkno (super_block_of le di o_id2) \<noteq> 0"

lemma open_ok:
  assumes "calm_channel ch" and "name \<noteq> []" and "12288 \<le> length (dev_data ch)"
    and "has_signature CMFS_SUPER_BLOCK_SIGNATURE (field 4096 8192 (dev_data ch))"
    and "di = cmfs_swap_inode_to_cpu le 0 (field 4096 8192 (dev_data ch))" and "acceptable le di"
  shows "\<exists>fs ch'. cmfs_open le name flags None readonly 0 4096 ch = (Inr fs, ch') \<and> fs_blocksize fs = 4096
    \<and> cpu_le fs = le \<and> fs_super fs = di
    \<and> fs_clustersize fs = push_bit (unat (s_clustersize_bits (super_block_of le di o_id2))) 1
    \<and> fs_clusters fs = i_clusters (dinode_of le di 0)
    \<and> fs_root_blkno fs = s_root_blkno (super_block_of le di o_id2)
    \<and> fs_sysdir_blkno fs = s_system_dir_blkno (super_block_of le di o_id2)
    \<and> fs_first_cg_blkno fs = s_first_cluster_group (super_block_of le di o_id2)
    \<and> uuid_str fs = uuid_text (s_uuid (super_block_of le di o_id2))"
proof -
  have size: "4096 \<le> length (dev_data ch)" using assms(3) by simp
  obtain ch1 where open1: "io_open name (flags AND (CMFS_FLAG_RO OR CMFS_FLAG_RW OR CMFS_FLAG_BUFFERED)) None ch = (Inr (), ch1)"
    and ch1: "calm_channel ch1" "dev_data ch1 = dev_data ch" "io_cache ch1 = None" "io_blksize ch1 = 4096"
    using io_open_ok [OF assms(1,2) size] by blast
  let ?fs = "\<lparr> fs_devname = name, fs_flags = flags OR (if readonly then CMFS_FLAG_HARD_RO else 0),
    fs_io = ch1, fs_super = [], fs_orig_super = None, fs_blocksize = 0, fs_clustersize = 0,
    fs_clusters = 0, fs_blocks = 0, fs_umask = 18, fs_root_blkno = 0,
    fs_sysdir_blkno = 0, fs_first_cg_blkno = 0, uuid_str = [], cpu_le = le \<rparr>"
  obtain ch2 where super: "cmfs_read_super CMFS_SUPER_BLOCK_BLKNO False ?fs = (Inr di, ?fs\<lparr> fs_super := di, fs_io := ch2 \<rparr>)"
    and ch2: "calm_channel ch2"
    using read_super_ok [of ?fs] ch1 assms(3-5) by auto
  have heap: "heap_script ch2 = []" using ch2 by (simp add: calm_channel_def)
  note accept = assms(6) [unfolded acceptable_def]
  let ?fs' = "?fs\<lparr> fs_super := di, fs_io := ch2, fs_blocksize := 4096, fs_orig_super := Some di \<rparr>"
  have check: "open_check CMFS_SUPER_BLOCK_BLKNO ?fs' = (Inr (), ?fs')"
    using accept by (auto simp: open_check_def CMFS_RAW_SB_def Let_def)
  have "cmfs_open le name flags None readonly 0 4096 ch = (Inr (open_fill ?fs'), ch2)"
    using allocs_ok [OF assms(1), of 1] allocs_ok [OF ch1(1), of 1] open1 super check heap ch1(4)
    by (simp add: cmfs_open_def Let_def bind_io_def upd_io_def ret_io_def malloc_block_def on_io_def cmfs_malloc_block_def
        io_set_blksize_def)
  then show ?thesis by (simp add: open_fill_def CMFS_RAW_SB_def Let_def)
qed

section \<open>From mkfs to the library\<close>

lemma drop_bit_12_nonzero: "4096 \<le> w \<Longrightarrow> drop_bit 12 (w :: u64) \<noteq> 0"
proof -
  assume "4096 \<le> w"
  then have "0 < unat w div 2 ^ 12" by (simp add: word_le_nat_alt div_greater_zero_iff)
  then show ?thesis using unat_drop_bit [of 12 w] by (metis less_irrefl unsigned_0)
qed

lemma superblock_acceptable:
  assumes "super_ready s" and "off = 8192" and "4096 \<le> root" and "4096 \<le> sys"
  shows "acceptable (ms_le s) (superblock_buf s off root sys)"
proof -
  have bits: "12 \<le> ms_cluster_size_bits s" "ms_cluster_size_bits s \<le> 25" using assms(1) by (simp_all add: super_ready_def)
  then have u: "unat (of_nat (ms_cluster_size_bits s) :: u32) = ms_cluster_size_bits s" by (intro unat_of_nat_u32) simp
  have "drop_bit 12 off = 2" unfolding assms(2) by (simp add: word_unat_eq_iff unat_drop_bit)
  then show ?thesis using superblock_members [OF assms(1)] drop_bit_12_nonzero [OF assms(3)] drop_bit_12_nonzero [OF assms(4)] bits u
    by (simp add: acceptable_def super_block_of_def dinode_of_def word_le_nat_alt)
qed

text \<open>
  C2. A volume that \<^verbatim>\<open>mkfs.cmfs\<close> has given its superblock is opened by \<^verbatim>\<open>cmfs_open\<close>, on a CPU of
  either byte order and with the parameters of mkfs: block and cluster size, clusters, the
  blocks of the root and system directories, the identifier and the features. Only the first
  cluster group is 0 instead of the one that mkfs has computed, which it never stores.
\<close>

theorem mkfs_superblock_opens:
  fixes root sysdir :: rec_id
  assumes "super_ready s" and "device_ready (ms_io s)" and "12288 \<le> length (dev_data (ms_io s))"
    and "fe_off (ms_recs s rid) = 8192" and "4096 \<le> fe_off (ms_recs s root)" and "4096 \<le> fe_off (ms_recs s sysdir)"
    and "format_superblock rid root sysdir s = (Inr (), s')"
    and "calm_channel ch" and "dev_data ch = dev_data (ms_io s')" and "name \<noteq> []"
  shows "\<exists>fs ch'. cmfs_open (ms_le s) name flags None readonly 0 4096 ch = (Inr fs, ch')
    \<and> fs_blocksize fs = ms_blocksize s \<and> fs_clustersize fs = push_bit (ms_cluster_size_bits s) 1
    \<and> fs_clusters fs = ucast (ms_volume_size_in_clusters s)
    \<and> fs_root_blkno fs = drop_bit (ms_blocksize_bits s) (fe_off (ms_recs s root))
    \<and> fs_sysdir_blkno fs = drop_bit (ms_blocksize_bits s) (fe_off (ms_recs s sysdir))
    \<and> uuid_str fs = uuid_text (ms_uuid s) \<and> fs_first_cg_blkno fs = 0
    \<and> s_feature_incompat (CMFS_RAW_SB fs) = opt_incompat (ms_feature_flags s)
    \<and> s_feature_ro_compat (CMFS_RAW_SB fs) = opt_ro_compat (ms_feature_flags s)"
proof -
  let ?s = "clear_backup_sb s" and ?dev = "dev_data (ms_io s)"
  let ?root = "fe_off (ms_recs s root)" and ?sys = "fe_off (ms_recs s sysdir)"
  define di where "di = superblock_buf ?s 8192 ?root ?sys"
  have ready: "super_ready ?s" using assms(1) by (simp add: super_ready_backup)
  note members = superblock_members [OF ready, where off = 8192 and root = ?root and sys = ?sys, folded di_def]
  have inode: "super_inode (ms_le s) di" using superblock_inode [OF ready] by (simp add: di_def super_ready_backup)
  let ?from = "cmfs_swap_inode_from_cpu (ms_le s) 4096 di"
  note convert = super_inode_convert [OF inode, where bsz = 4096]
  have len: "length ?from = 4096" using convert(2) members(1) by simp
  have "dev_data ch = put 8192 ?from ?dev"
    using format_superblock_ok [OF assms(1,2), of rid root sysdir] assms(3,4,7,9) by (auto simp: di_def)
  then have blk: "field 4096 8192 (dev_data ch) = ?from" and size: "length (dev_data ch) = length ?dev"
    using len assms(3) by (simp_all add: field_put_same)
  have "take 6 ?from = take 6 (take 7 di)" using arg_cong [OF convert(3), of "take 6"] by simp
  then have "take 6 ?from = CMFS_SUPER_BLOCK_SIGNATURE"
    unfolding members(4) by (simp add: CMFS_SUPER_BLOCK_SIGNATURE_def ascii_def)
  moreover have "length CMFS_SUPER_BLOCK_SIGNATURE = 6" by (simp add: CMFS_SUPER_BLOCK_SIGNATURE_def ascii_def)
  ultimately have sig: "has_signature CMFS_SUPER_BLOCK_SIGNATURE (field 4096 8192 (dev_data ch))"
    by (simp add: has_signature_def blk)
  have cpu: "di = cmfs_swap_inode_to_cpu (ms_le s) 0 (field 4096 8192 (dev_data ch))" using convert(1) by (simp add: blk)
  have accept: "acceptable (ms_le s) di"
    using superblock_acceptable [OF ready refl assms(5,6)] by (simp add: di_def super_ready_backup)
  have bits: "ms_cluster_size_bits s \<le> 25" "ms_blocksize s = 4096" "ms_blocksize_bits s = 12"
    using assms(1) by (simp_all add: super_ready_def)
  have u: "unat (of_nat (ms_cluster_size_bits s) :: u32) = ms_cluster_size_bits s" using bits(1) by (intro unat_of_nat_u32) simp
  have same: "ms_cluster_size_bits ?s = ms_cluster_size_bits s" "ms_volume_size_in_clusters ?s = ms_volume_size_in_clusters s"
    "ms_uuid ?s = ms_uuid s" "opt_incompat (ms_feature_flags ?s) = opt_incompat (ms_feature_flags s)"
    "opt_ro_compat (ms_feature_flags ?s) = opt_ro_compat (ms_feature_flags s)"
    by (simp_all add: clear_backup_sb_def split: cmfs_fs_options.split)
  show ?thesis
    using open_ok [OF assms(8,10) _ sig cpu accept, of flags readonly] size assms(3) members bits u
    by (auto simp: CMFS_RAW_SB_def super_block_of_def dinode_of_def super_ready_backup same)
qed

definition demo_volume :: mkfs_state where
  "demo_volume = (zero_state False \<lparr> io_blksize = 4096, io_error = 0, io_nocache = False, io_cache = None,
       io_bytes_read = 0, io_bytes_written = 0, dev_data = replicate 20480 0xAA, dev_script = [], heap_script = [] \<rparr>)
     \<lparr> ms_blocksize := 4096, ms_blocksize_bits := 12, ms_cluster_size_bits := 20, ms_vol_label := Some ''data'',
       ms_uuid := map of_nat [1..<17], ms_volume_size_in_clusters := 100,
       ms_recs := (\<lambda>r. if r = SuperRec then zero_record\<lparr> fe_off := 8192 \<rparr>
         else if r = RootRec then zero_record\<lparr> fe_off := 12288 \<rparr> else zero_record\<lparr> fe_off := 16384 \<rparr>) \<rparr>"

theorem mkfs_superblock_opens_witness:
  "\<exists>s' fs ch'. format_superblock SuperRec RootRec SysDirRec demo_volume = (Inr (), s')
    \<and> cmfs_open False ''/dev/sdb'' 0 None False 0 4096 ((ms_io demo_volume)\<lparr> dev_data := dev_data (ms_io s') \<rparr>) = (Inr fs, ch')
    \<and> fs_clustersize fs = 0x100000 \<and> fs_clusters fs = 100 \<and> fs_root_blkno fs = 3 \<and> fs_sysdir_blkno fs = 4"
proof -
  have s: "super_ready demo_volume" "device_ready (ms_io demo_volume)" "length (dev_data (ms_io demo_volume)) = 20480"
    "\<not> ms_le demo_volume" "fe_off (ms_recs demo_volume SuperRec) = 8192" "fe_off (ms_recs demo_volume RootRec) = 12288"
    "fe_off (ms_recs demo_volume SysDirRec) = 16384" "ms_volume_size_in_clusters demo_volume = 100"
    "ms_cluster_size_bits demo_volume = 20" "ms_blocksize_bits demo_volume = 12"
    "dev_script (ms_io demo_volume) = []" "heap_script (ms_io demo_volume) = []"
    by (simp_all add: demo_volume_def super_ready_def device_ready_def zero_state_def)
  obtain s' where s': "format_superblock SuperRec RootRec SysDirRec demo_volume = (Inr (), s')"
    "length (dev_data (ms_io s')) = 20480"
  proof -
    have "super_inode False (superblock_buf (clear_backup_sb demo_volume) 8192 12288 16384)"
      using superblock_inode [of "clear_backup_sb demo_volume"] s(1,4) by (simp add: super_ready_backup)
    from super_inode_convert(2) [OF this, of 4096]
    have "length (cmfs_swap_inode_from_cpu False 4096 (superblock_buf (clear_backup_sb demo_volume) 8192 12288 16384)) = 4096"
      using superblock_members(1) [of "clear_backup_sb demo_volume"] s(1) by (simp add: super_ready_backup)
    then show ?thesis using that format_superblock_ok [OF s(1,2), of SuperRec RootRec SysDirRec] s by auto
  qed
  have "calm_channel ((ms_io demo_volume)\<lparr> dev_data := dev_data (ms_io s') \<rparr>)"
    using s'(2) s by (simp add: calm_channel_def has_fault_def)
  from mkfs_superblock_opens [OF s(1,2) _ s(5) _ _ s'(1) this, of "''/dev/sdb''" 0 False]
  show ?thesis using s s'(1) by (auto simp: drop_bit_eq_div)
qed

end
