(* ===== verification/Layout_properties.thy ===== *)
theory Layout_properties
  imports Layout
begin

text \<open>
  The on-disk structures: the members of most are where \<^verbatim>\<open>misc/member_offset.txt\<close> says, and the
  accessors read every member at the offset that the layout rules of C give.
\<close>

section \<open>The documented offsets\<close>

text \<open>
  The tables of \<^verbatim>\<open>misc/member_offset.txt\<close>, without the members that take no space. The tables of
  \<^verbatim>\<open>cmfs_dinode\<close> and \<^verbatim>\<open>cmfs_dir_block_trailer\<close> there are older than the header: they lack
  \<^verbatim>\<open>i_suballoc_bit\<close> and \<^verbatim>\<open>db_parent_dinode\<close>. The table of \<^verbatim>\<open>cmfs_extent_rec\<close> has another name for
  \<^verbatim>\<open>e_int_blocks\<close>.
\<close>

definition documented_layouts :: "((string \<times> nat \<times> nat) list \<times> (string \<times> nat) list \<times> nat) list" where
  "documented_layouts =
     [(vol_hdr_fields,
       [(''signature'', 0x0), (''mount_point'', 0x80)],
       0x100),
      (vol_label_fields,
       [(''label'', 0x0), (''label_len'', 0x40), (''vol_id'', 0x42), (''vol_id_len'', 0x52)],
       0x54),
      (block_check_fields,
       [(''bc_crc32e'', 0x0), (''bc_ecc'', 0x4), (''bc_reserved1'', 0x6)],
       0x8),
      (extent_list_fields,
       [(''l_tree_depth'', 0x0), (''l_count'', 0x2), (''l_next_free_rec'', 0x4),
        (''l_reserved1'', 0x6), (''l_reserved2'', 0x8)],
       0x20),
      (chain_rec_fields,
       [(''c_free'', 0x0), (''c_total'', 0x4), (''c_blkno'', 0x8)],
       0x10),
      (chain_list_fields,
       [(''cl_cpg'', 0x0), (''cl_bpc'', 0x2), (''cl_count'', 0x4), (''cl_next_free_rec'', 0x6),
        (''cl_reserved1'', 0x8)],
       0x10),
      (local_alloc_fields,
       [(''la_bm_off'', 0x0), (''la_size'', 0x4), (''la_reserved1'', 0x6)],
       0x10),
      (truncate_rec_fields,
       [(''t_start'', 0x0), (''t_clusters'', 0x4)],
       0x8),
      (truncate_log_fields,
       [(''tl_count'', 0x0), (''tl_used'', 0x2), (''tl_reserved1'', 0x4)],
       0x10),
      (inline_data_fields,
       [(''id_count'', 0x0), (''id_reserved1'', 0x2)],
       0x8),
      (super_block_fields,
       [(''s_major_rev_level'', 0x0), (''s_minor_rev_level'', 0x2), (''s_mnt_count'', 0x4),
        (''s_max_mnt_count'', 0x6), (''s_state'', 0x8), (''s_errors'', 0xA),
        (''s_checkinterval'', 0xC), (''s_lastcheck'', 0x10), (''s_creator_os'', 0x18),
        (''s_feature_compat'', 0x1C), (''s_feature_incompat'', 0x20),
        (''s_feature_ro_compat'', 0x24), (''s_root_blkno'', 0x28), (''s_system_dir_blkno'', 0x30),
        (''s_blocksize_bits'', 0x38), (''s_clustersize_bits'', 0x3C), (''s_label'', 0x40),
        (''s_uuid'', 0x80), (''s_tunefs_flag'', 0x90), (''s_xattr_inline_size'', 0x92),
        (''s_uuid_hash'', 0x94), (''s_first_cluster_group'', 0x98)],
       0xA0),
      (dir_entry_fields,
       [(''inode'', 0x0), (''rec_len'', 0x8), (''name_len'', 0xA), (''file_type'', 0xB),
        (''name'', 0xC)],
       0x10B)]"

definition member :: "(string \<times> nat \<times> nat) list \<Rightarrow> string \<Rightarrow> nat" where
  "member fs f = the (map_of (c_offsets 0 fs) f)"

text \<open>The structures that leave no hole between their members.\<close>

definition without_padding :: "(string \<times> nat \<times> nat) list \<Rightarrow> bool" where
  "without_padding fs \<longleftrightarrow> c_sizeof fs = sum_list (map (\<lambda>(f, n, a). n) fs)"

lemma dinode_members:
  "member dinode_fields ''i_signature'' = 0"
  "member dinode_fields ''i_generation'' = 8"
  "member dinode_fields ''i_links_count'' = 12"
  "member dinode_fields ''i_uid'' = 16"
  "member dinode_fields ''i_gid'' = 20"
  "member dinode_fields ''i_size'' = 24"
  "member dinode_fields ''i_atime'' = 32"
  "member dinode_fields ''i_ctime'' = 40"
  "member dinode_fields ''i_mtime'' = 48"
  "member dinode_fields ''i_dtime'' = 56"
  "member dinode_fields ''i_flags'' = 64"
  "member dinode_fields ''i_mode'' = 68"
  "member dinode_fields ''i_suballoc_slot'' = 70"
  "member dinode_fields ''i_blkno'' = 72"
  "member dinode_fields ''i_clusters'' = 80"
  "member dinode_fields ''i_fs_generation'' = 84"
  "member dinode_fields ''i_last_eb_blk'' = 88"
  "member dinode_fields ''i_atime_nsec'' = 96"
  "member dinode_fields ''i_ctime_nsec'' = 100"
  "member dinode_fields ''i_mtime_nsec'' = 104"
  "member dinode_fields ''i_attr'' = 108"
  "member dinode_fields ''i_xattr_loc'' = 112"
  "member dinode_fields ''i_refcount_loc'' = 120"
  "member dinode_fields ''i_suballoc_loc'' = 128"
  "member dinode_fields ''i_dyn_features'' = 144"
  "member dinode_fields ''i_xattr_inline_size'' = 146"
  "member dinode_fields ''i_suballoc_bit'' = 148"
  by code_simp+

lemma dinode_layout: "dinode_of le buf b = \<lparr>
     i_signature = field 8 (b + member dinode_fields ''i_signature'') buf,
     i_generation = ld32 le buf (b + member dinode_fields ''i_generation''),
     i_links_count = ld32 le buf (b + member dinode_fields ''i_links_count''),
     i_uid = ld32 le buf (b + member dinode_fields ''i_uid''),
     i_gid = ld32 le buf (b + member dinode_fields ''i_gid''),
     i_size = ld64 le buf (b + member dinode_fields ''i_size''),
     i_atime = ld64 le buf (b + member dinode_fields ''i_atime''),
     i_ctime = ld64 le buf (b + member dinode_fields ''i_ctime''),
     i_mtime = ld64 le buf (b + member dinode_fields ''i_mtime''),
     i_dtime = ld64 le buf (b + member dinode_fields ''i_dtime''),
     i_flags = ld32 le buf (b + member dinode_fields ''i_flags''),
     i_mode = ld16 le buf (b + member dinode_fields ''i_mode''),
     i_suballoc_slot = ld16 le buf (b + member dinode_fields ''i_suballoc_slot''),
     i_blkno = ld64 le buf (b + member dinode_fields ''i_blkno''),
     i_clusters = ld32 le buf (b + member dinode_fields ''i_clusters''),
     i_fs_generation = ld32 le buf (b + member dinode_fields ''i_fs_generation''),
     i_last_eb_blk = ld64 le buf (b + member dinode_fields ''i_last_eb_blk''),
     i_atime_nsec = ld32 le buf (b + member dinode_fields ''i_atime_nsec''),
     i_ctime_nsec = ld32 le buf (b + member dinode_fields ''i_ctime_nsec''),
     i_mtime_nsec = ld32 le buf (b + member dinode_fields ''i_mtime_nsec''),
     i_attr = ld32 le buf (b + member dinode_fields ''i_attr''),
     i_xattr_loc = ld64 le buf (b + member dinode_fields ''i_xattr_loc''),
     i_refcount_loc = ld64 le buf (b + member dinode_fields ''i_refcount_loc''),
     i_suballoc_loc = ld64 le buf (b + member dinode_fields ''i_suballoc_loc''),
     i_dyn_features = ld16 le buf (b + member dinode_fields ''i_dyn_features''),
     i_xattr_inline_size = ld16 le buf (b + member dinode_fields ''i_xattr_inline_size''),
     i_suballoc_bit = ld16 le buf (b + member dinode_fields ''i_suballoc_bit'')\<rparr>"
  by (simp only: dinode_of_def dinode_members)

lemma super_block_members:
  "member super_block_fields ''s_major_rev_level'' = 0"
  "member super_block_fields ''s_minor_rev_level'' = 2"
  "member super_block_fields ''s_mnt_count'' = 4"
  "member super_block_fields ''s_max_mnt_count'' = 6"
  "member super_block_fields ''s_state'' = 8"
  "member super_block_fields ''s_errors'' = 10"
  "member super_block_fields ''s_checkinterval'' = 12"
  "member super_block_fields ''s_lastcheck'' = 16"
  "member super_block_fields ''s_creator_os'' = 24"
  "member super_block_fields ''s_feature_compat'' = 28"
  "member super_block_fields ''s_feature_incompat'' = 32"
  "member super_block_fields ''s_feature_ro_compat'' = 36"
  "member super_block_fields ''s_root_blkno'' = 40"
  "member super_block_fields ''s_system_dir_blkno'' = 48"
  "member super_block_fields ''s_blocksize_bits'' = 56"
  "member super_block_fields ''s_clustersize_bits'' = 60"
  "member super_block_fields ''s_label'' = 64"
  "member super_block_fields ''s_uuid'' = 128"
  "member super_block_fields ''s_tunefs_flag'' = 144"
  "member super_block_fields ''s_xattr_inline_size'' = 146"
  "member super_block_fields ''s_uuid_hash'' = 148"
  "member super_block_fields ''s_first_cluster_group'' = 152"
  by code_simp+

lemma super_block_layout: "super_block_of le buf b = \<lparr>
     s_major_rev_level = ld16 le buf (b + member super_block_fields ''s_major_rev_level''),
     s_minor_rev_level = ld16 le buf (b + member super_block_fields ''s_minor_rev_level''),
     s_mnt_count = ld16 le buf (b + member super_block_fields ''s_mnt_count''),
     s_max_mnt_count = ld16 le buf (b + member super_block_fields ''s_max_mnt_count''),
     s_state = ld16 le buf (b + member super_block_fields ''s_state''),
     s_errors = ld16 le buf (b + member super_block_fields ''s_errors''),
     s_checkinterval = ld32 le buf (b + member super_block_fields ''s_checkinterval''),
     s_lastcheck = ld64 le buf (b + member super_block_fields ''s_lastcheck''),
     s_creator_os = ld32 le buf (b + member super_block_fields ''s_creator_os''),
     s_feature_compat = ld32 le buf (b + member super_block_fields ''s_feature_compat''),
     s_feature_incompat = ld32 le buf (b + member super_block_fields ''s_feature_incompat''),
     s_feature_ro_compat = ld32 le buf (b + member super_block_fields ''s_feature_ro_compat''),
     s_root_blkno = ld64 le buf (b + member super_block_fields ''s_root_blkno''),
     s_system_dir_blkno = ld64 le buf (b + member super_block_fields ''s_system_dir_blkno''),
     s_blocksize_bits = ld32 le buf (b + member super_block_fields ''s_blocksize_bits''),
     s_clustersize_bits = ld32 le buf (b + member super_block_fields ''s_clustersize_bits''),
     s_label = field 64 (b + member super_block_fields ''s_label'') buf,
     s_uuid = field 16 (b + member super_block_fields ''s_uuid'') buf,
     s_tunefs_flag = ld16 le buf (b + member super_block_fields ''s_tunefs_flag''),
     s_xattr_inline_size = ld16 le buf (b + member super_block_fields ''s_xattr_inline_size''),
     s_uuid_hash = ld32 le buf (b + member super_block_fields ''s_uuid_hash''),
     s_first_cluster_group = ld64 le buf (b + member super_block_fields ''s_first_cluster_group'')\<rparr>"
  by (simp only: super_block_of_def super_block_members)

lemma extent_block_members:
  "member extent_block_fields ''h_signature'' = 0"
  "member extent_block_fields ''h_suballoc_slot'' = 8"
  "member extent_block_fields ''h_suballoc_bit'' = 10"
  "member extent_block_fields ''h_fs_generation'' = 12"
  "member extent_block_fields ''h_blkno'' = 16"
  "member extent_block_fields ''h_next_leaf_block'' = 24"
  by code_simp+

lemma extent_block_layout: "extent_block_of le buf b = \<lparr>
     h_signature = field 8 (b + member extent_block_fields ''h_signature'') buf,
     h_suballoc_slot = ld16 le buf (b + member extent_block_fields ''h_suballoc_slot''),
     h_suballoc_bit = ld16 le buf (b + member extent_block_fields ''h_suballoc_bit''),
     h_fs_generation = ld32 le buf (b + member extent_block_fields ''h_fs_generation''),
     h_blkno = ld64 le buf (b + member extent_block_fields ''h_blkno''),
     h_next_leaf_block = ld64 le buf (b + member extent_block_fields ''h_next_leaf_block'')\<rparr>"
  by (simp only: extent_block_of_def extent_block_members)

lemma group_desc_members:
  "member group_desc_fields ''bg_signature'' = 0"
  "member group_desc_fields ''bg_size'' = 8"
  "member group_desc_fields ''bg_bits'' = 10"
  "member group_desc_fields ''bg_free_bits_count'' = 12"
  "member group_desc_fields ''bg_chain'' = 14"
  "member group_desc_fields ''bg_generation'' = 16"
  "member group_desc_fields ''bg_next_group'' = 24"
  "member group_desc_fields ''bg_parent_dinode'' = 32"
  "member group_desc_fields ''bg_blkno'' = 40"
  by code_simp+

lemma group_desc_layout: "group_desc_of le buf b = \<lparr>
     bg_signature = field 8 (b + member group_desc_fields ''bg_signature'') buf,
     bg_size = ld16 le buf (b + member group_desc_fields ''bg_size''),
     bg_bits = ld16 le buf (b + member group_desc_fields ''bg_bits''),
     bg_free_bits_count = ld16 le buf (b + member group_desc_fields ''bg_free_bits_count''),
     bg_chain = ld16 le buf (b + member group_desc_fields ''bg_chain''),
     bg_generation = ld32 le buf (b + member group_desc_fields ''bg_generation''),
     bg_next_group = ld64 le buf (b + member group_desc_fields ''bg_next_group''),
     bg_parent_dinode = ld64 le buf (b + member group_desc_fields ''bg_parent_dinode''),
     bg_blkno = ld64 le buf (b + member group_desc_fields ''bg_blkno'')\<rparr>"
  by (simp only: group_desc_of_def group_desc_members)

section \<open>The layout\<close>

text \<open>The rules of C give the documented offsets; the blocks of metadata have no padding.\<close>

lemma documented_offsets:
  "map (\<lambda>(fs, _). (c_offsets 0 fs, c_sizeof fs)) documented_layouts = map snd documented_layouts"
  by code_simp

lemma no_padding:
  "map without_padding [super_block_fields, dinode_fields, extent_block_fields, extent_list_fields, extent_rec_fields,
      group_desc_fields, chain_list_fields, chain_rec_fields, dir_trailer_fields] = replicate 9 True"
  by code_simp

end
