(* ===== verification/File_properties.thy ===== *)
theory File_properties
  imports Demo
begin

text \<open>The properties of the file mapping and of file reads, each with a concrete instance.\<close>

text \<open>
  C4. The extent map is right: on a device without faults and a well-formed extent tree,
  \<^verbatim>\<open>cmfs_extent_map_get_blocks\<close> maps block \<open>v\<close> of the file, when an extent of the tree
  covers it, to the block at the same distance from the start of the extent, and counts
  the blocks up to the end of the extent; nothing on the device changes. The block numbers
  must stay below \<open>2 ^ 32\<close>, where the conversion of clusters to blocks would be cut.
\<close>

theorem extent_map_correct:
  assumes "quiet fs" and "tree_ok d fs di o_id2 lo hi" and "hi < 2 ^ 32" and "d < 5" and "c_bits fs < 31"
    and "r \<in> tree_recs d fs di o_id2" and "extent_ready fs r" and "in_extent fs r (unat v)"
  shows "\<exists>p n fs'. cmfs_extent_map_get_blocks di v fs = (Inr (p, n, ucast (e_flags r)), fs')
    \<and> unat p = unat (e_blkno r) + (unat v - rec_start r * 2 ^ c_bits fs)
    \<and> unat n = rec_end fs 0 r * 2 ^ c_bits fs - unat v
    \<and> quiet fs' \<and> dev_data (fs_io fs') = dev_data (fs_io fs)"
proof -
  let ?p = "unat (e_blkno r) + (unat v - rec_start r * 2 ^ c_bits fs)"
  let ?n = "rec_end fs 0 r * 2 ^ c_bits fs - unat v"
  have "rec_end fs 0 r * 2 ^ c_bits fs
      = rec_start r * 2 ^ c_bits fs + unat (cmfs_rec_clusters fs 0 r) * 2 ^ c_bits fs"
    by (simp add: rec_end_def rec_start_def add_mult_distrib)
  then have small: "?p + ?n < 2 ^ 31"
    using assms(7,8) by (auto simp: extent_ready_def in_extent_def)
  have "yields calm (cmfs_extent_map_get_blocks di v) fs (Inr (of_nat ?p, of_nat ?n, ucast (e_flags r)))"
  proof (rule get_blocks_yields [OF assms(1-4,6,5)])
    have "(2 :: nat) ^ 31 < 2 ^ 32" by simp
    then show "?p < 2 ^ 32" using small by linarith
  qed (use assms(7,8) in \<open>simp_all add: extent_ready_def in_extent_def\<close>)
  then obtain fs' where run: "cmfs_extent_map_get_blocks di v fs = (Inr (of_nat ?p, of_nat ?n, ucast (e_flags r)), fs')"
    and "calm fs fs'" by (blast dest: yields_run)
  moreover have "(2 :: nat) ^ 31 < 2 ^ 64" by simp
  then have "?p < 2 ^ 64" "?n < 2 ^ 64" using small by linarith+
  note unat_of_nat_u64 [OF this(1)] unat_of_nat_u64 [OF this(2)]
  ultimately show ?thesis using assms(1) by (blast intro: calm_quiet calm_fields(7))
qed

lemma demo_extent_ready: "extent_ready demo_fs (demo_rec 0)" "extent_ready demo_fs (demo_rec (Suc 0))"
  using length_demo_dev
  by (simp_all add: extent_ready_def demo_recs demo_c_bits demo_rec_clusters) (simp_all add: demo_fs_def)

lemma demo_in_extent:
  "in_extent demo_fs (demo_rec 0) j \<longleftrightarrow> j < 4" "in_extent demo_fs (demo_rec (Suc 0)) j \<longleftrightarrow> 4 \<le> j \<and> j < 8"
  by (auto simp: in_extent_def rec_start_def rec_end_def demo_recs demo_c_bits demo_rec_clusters)

theorem extent_map_correct_witness:
  "\<exists>p n fs'. cmfs_extent_map_get_blocks demo_inode 3 demo_fs = (Inr (p, n, 0), fs')
    \<and> unat p = 9 \<and> unat n = 1 \<and> quiet fs' \<and> dev_data (fs_io fs') = dev_data (fs_io demo_fs)"
proof -
  have "demo_rec 0 \<in> tree_recs 1 demo_fs demo_inode o_id2" unfolding demo_tree_recs by simp
  from extent_map_correct [OF demo_quiet demo_tree _ _ _ this demo_extent_ready(1), of 3] show ?thesis
    by (simp add: demo_in_extent demo_c_bits rec_start_def rec_end_def demo_rec_clusters demo_recs)
qed

text \<open>
  C3. \<^verbatim>\<open>cmfs_file_read\<close> returns, and returns the file: on a device without faults, with a
  well-formed tree whose extents cover the blocks asked for, the buffer receives the blocks
  of the file one after the other (zeros for unwritten extents), and the count of bytes is
  cut at the end of the file. The device is left alone. Without a cache the request is
  shorter than \<open>2 ^ 31\<close> bytes, since its size is then computed as one \<^verbatim>\<open>int\<close>.
\<close>

theorem file_read_correct:
  assumes "quiet fs" and "tree_ok d fs di o_id2 lo hi" and "hi < 2 ^ 32" and "d < 5" and "c_bits fs < 31"
    and "bsize fs = 2 ^ sb_bits fs" and "unat count = w * bsize fs" and "unat off = v * bsize fs"
    and "isize = unat (ld64 (cpu_le fs) di o_i_size)" and "isize < 2 ^ 62"
    and "v < (isize + bsize fs - 1) div bsize fs" and "0 < w"
    and "m = min w ((isize + bsize fs - 1) div bsize fs - v)"
    and "\<forall>j. v \<le> j \<longrightarrow> j < v + m \<longrightarrow> file_block fs d di j (blocks j)"
    and "io_cache (fs_io fs) \<noteq> None \<or> unat count < 2 ^ 31"
  shows "\<exists>got fs'. cmfs_file_read di True count off fs
      = Some (Inr (concat (map blocks [v..<v + m]), got), fs')
    \<and> unat got = min (w * bsize fs) (isize - v * bsize fs)
    \<and> quiet fs' \<and> dev_data (fs_io fs') = dev_data (fs_io fs)"
  using file_read_yields [OF assms(1-14)] assms(1,15) by (blast intro: calm_quiet calm_fields(7))

lemma demo_file_block:
  "j < 4 \<Longrightarrow> file_block demo_fs 1 demo_inode j (demo_data (6 + j))"
  "4 \<le> j \<Longrightarrow> j < 8 \<Longrightarrow> file_block demo_fs 1 demo_inode j (demo_data 0)"
proof -
  assume j: "j < 4"
  have "j = 0 \<or> j = 1 \<or> j = 2 \<or> j = 3" using j by auto
  then have eq: "demo_blocks ! (6 + j) = demo_data (6 + j)" by (auto simp: demo_blocks_def nth_append)
  have "unat (of_nat (6 + j) :: u64) = 6 + j" using j by (intro unat_of_nat_u64) simp
  then have "block_at demo_fs (of_nat (6 + j)) = Some (demo_data (6 + j))"
    using demo_block_at [of "of_nat (6 + j)"] j eq by simp
  then have "field 256 ((6 + j) * 256) (dev_data (fs_io demo_fs)) = demo_data (6 + j)"
    using \<open>unat (of_nat (6 + j) :: u64) = 6 + j\<close>
    by (simp add: block_at_def dev_block_def split: if_splits) (simp add: demo_fs_def)
  then have "rec_block demo_fs (demo_rec 0) j = demo_data (6 + j)"
    by (simp add: rec_block_def rec_unwritten_def demo_recs rec_start_def) (simp add: demo_fs_def)
  then show "file_block demo_fs 1 demo_inode j (demo_data (6 + j))"
    using j demo_extent_ready(1) unfolding file_block_def demo_tree_recs
    by (auto simp: demo_in_extent)
next
  assume j: "4 \<le> j" "j < 8"
  have "rec_block demo_fs (demo_rec (Suc 0)) j = demo_data 0"
    by (simp add: rec_block_def rec_unwritten_def demo_recs demo_data_def) (simp add: demo_fs_def)
  then show "file_block demo_fs 1 demo_inode j (demo_data 0)"
    using j demo_extent_ready(2) unfolding file_block_def demo_tree_recs
    by (auto simp: demo_in_extent)
qed

text \<open>Blocks 3 to 5 of the file are asked for, which has 1124 bytes.\<close>

theorem file_read_correct_witness:
  "\<exists>got fs'. cmfs_file_read demo_inode True 768 768 demo_fs
      = Some (Inr (demo_data 9 @ demo_data 0, got), fs')
    \<and> unat got = 356 \<and> quiet fs' \<and> dev_data (fs_io fs') = dev_data (fs_io demo_fs)"
proof -
  let ?blocks = "\<lambda>j. if j < 4 then demo_data (6 + j) else demo_data 0"
  have size: "ld64 (cpu_le demo_fs) demo_inode o_i_size = 1124" and bs: "bsize demo_fs = 256"
    by (simp_all add: demo_fs_def demo_inode_def Let_def CMFS_INODE_SIGNATURE_def ascii_def buf_simps)
  have up: "[3..<3 + 2] = [3, Suc 3]" by (simp add: upt_rec)
  have blocks: "\<forall>j. 3 \<le> j \<longrightarrow> j < 3 + 2 \<longrightarrow> file_block demo_fs 1 demo_inode j (?blocks j)"
    using demo_file_block by auto
  have "\<exists>got fs'. cmfs_file_read demo_inode True 768 768 demo_fs
      = Some (Inr (concat (map ?blocks [3..<3 + 2]), got), fs')
    \<and> unat got = min (3 * bsize demo_fs) (1124 - 3 * bsize demo_fs)
    \<and> quiet fs' \<and> dev_data (fs_io fs') = dev_data (fs_io demo_fs)"
    by (rule file_read_correct [OF demo_quiet demo_tree _ _ _ _ _ _ _ _ _ _ _ blocks])
      (simp_all add: size bs demo_sb_bits demo_c_bits)
  then show ?thesis by (simp add: up bs)
qed

end
