(* ===== verification/Bit_properties.thy ===== *)
theory Bit_properties
  imports Bitops
begin

text \<open>The properties of the bitmap routines. The reading of a bitmap is \<open>bit_at\<close>.\<close>

text \<open>
  Setting and clearing a bit inside the bitmap change exactly that bit, report its old
  value, and \<^verbatim>\<open>cmfs_test_bit\<close> reads it.
\<close>

theorem single_bits_correct:
  assumes "nr < 8 * length addr"
  shows "fst (cmfs_set_bit nr addr) = cmfs_test_bit nr addr
    \<and> fst (cmfs_clear_bit nr addr) = cmfs_test_bit nr addr
    \<and> (\<forall>i. cmfs_test_bit i (snd (cmfs_set_bit nr addr)) \<longleftrightarrow> i = nr \<or> cmfs_test_bit i addr)
    \<and> (\<forall>i. cmfs_test_bit i (snd (cmfs_clear_bit nr addr)) \<longleftrightarrow> i \<noteq> nr \<and> cmfs_test_bit i addr)"
  using assms by (simp add: cmfs_test_bit_eq cmfs_set_bit_fst cmfs_clear_bit_fst bit_at_set_bit bit_at_clear_bit)

theorem single_bits_correct_witness:
  "fst (cmfs_set_bit 9 [0, 4]) = cmfs_test_bit 9 [0, 4]
    \<and> (\<forall>i. cmfs_test_bit i (snd (cmfs_set_bit 9 [0, 4])) \<longleftrightarrow> i = 9 \<or> cmfs_test_bit i [0, 4])
    \<and> cmfs_test_bit 9 (snd (cmfs_set_bit 9 [0, 4]))"
  using single_bits_correct [of 9 "[0, 4]"] by simp

text \<open>
  C28. The searches, which go through the bitmap by bytes and mask the ends, find the first
  set and the first clear bit from the offset on; with none below the size they return an
  index that is not below the size. They are the linear search.
\<close>

theorem find_next_bit_least:
  assumes "off \<le> sz" and "sz \<le> 8 * length addr"
  shows "(\<forall>i < sz. cmfs_find_next_bit_set addr sz off = i \<longleftrightarrow>
        off \<le> i \<and> cmfs_test_bit i addr \<and> (\<forall>j. off \<le> j \<and> j < i \<longrightarrow> \<not> cmfs_test_bit j addr))
    \<and> (\<forall>i < sz. cmfs_find_next_bit_clear addr sz off = i \<longleftrightarrow>
        off \<le> i \<and> \<not> cmfs_test_bit i addr \<and> (\<forall>j. off \<le> j \<and> j < i \<longrightarrow> cmfs_test_bit j addr))"
proof (intro conjI allI impI)
  fix i assume i: "i < sz"
  show "cmfs_find_next_bit_set addr sz off = i \<longleftrightarrow>
      off \<le> i \<and> cmfs_test_bit i addr \<and> (\<forall>j. off \<le> j \<and> j < i \<longrightarrow> \<not> cmfs_test_bit j addr)"
    unfolding cmfs_test_bit_eq
    using assms i next_set.find_lower next_set.find_wanted next_set.find_skipped next_set.found_eq
    by (metis order_less_trans)
  show "cmfs_find_next_bit_clear addr sz off = i \<longleftrightarrow>
      off \<le> i \<and> \<not> cmfs_test_bit i addr \<and> (\<forall>j. off \<le> j \<and> j < i \<longrightarrow> cmfs_test_bit j addr)"
    unfolding cmfs_test_bit_eq
    using assms i next_clear.find_lower next_clear.find_wanted next_clear.find_skipped next_clear.found_eq
    by (metis order_less_trans)
qed

theorem find_next_bit_least_witness:
  "cmfs_find_next_bit_set [0, 0, 0x12] 24 3 = 17 \<and> cmfs_find_next_bit_clear [0xFF, 0xFF, 0x12] 24 3 = 16"
proof -
  have "list_all (\<lambda>j. \<not> cmfs_test_bit j [0, 0, 0x12]) [0..<17]"
    and "list_all (\<lambda>j. cmfs_test_bit j [0xFF, 0xFF, 0x12]) [0..<16]" by code_simp+
  then have "\<not> cmfs_test_bit j [0, 0, 0x12]" if "j < 17" for j
    using that by (auto simp only: list_all_iff set_upt atLeastLessThan_iff)
  moreover have "cmfs_test_bit j [0xFF, 0xFF, 0x12]" if "j < 16" for j
    using that \<open>list_all (\<lambda>j. cmfs_test_bit j [0xFF, 0xFF, 0x12]) [0..<16]\<close>
    by (auto simp only: list_all_iff set_upt atLeastLessThan_iff)
  moreover have "cmfs_test_bit 17 [0, 0, 0x12]" "\<not> cmfs_test_bit 16 [0xFF, 0xFF, 0x12]" by code_simp+
  ultimately show ?thesis
    using find_next_bit_least [of 3 24 "[0, 0, 0x12]"] find_next_bit_least [of 3 24 "[0xFF, 0xFF, 0x12]"]
    by simp
qed

text \<open>
  \<^verbatim>\<open>cmfs_get_bits_set\<close> counts the set bits between the offset and the size.
\<close>

theorem get_bits_set_count:
  assumes "offset \<le> sz" and "sz \<le> 8 * length addr"
  shows "cmfs_get_bits_set addr sz offset = card {i. offset \<le> i \<and> i < sz \<and> cmfs_test_bit i addr}"
proof -
  have "cmfs_get_bits_set addr sz offset = length (filter (bit_at addr) [offset..<sz])"
    using get_bits_loop_count [OF assms, of 0] by (simp add: cmfs_get_bits_set_def)
  also have "\<dots> = card ({i. bit_at addr i} \<inter> set [offset..<sz])"
    by (rule distinct_length_filter) simp
  also have "{i. bit_at addr i} \<inter> set [offset..<sz] = {i. offset \<le> i \<and> i < sz \<and> cmfs_test_bit i addr}"
    by (auto simp: cmfs_test_bit_eq)
  finally show ?thesis .
qed

theorem get_bits_set_count_witness:
  "card {i. 1 \<le> i \<and> i < 14 \<and> cmfs_test_bit i [0x0F, 0x81]} = 4"
proof -
  have "cmfs_get_bits_set [0x0F, 0x81] 14 1 = 4" by code_simp
  then show ?thesis using get_bits_set_count [of 1 14 "[0x0F, 0x81]"] by simp
qed

end
