(* ===== verification/Allocation.thy ===== *)
theory Allocation
  imports Mkfs_alloc Buffers
begin

text \<open>
  What the allocator of \<^verbatim>\<open>mkfs.cmfs\<close> does: the search for a run of free clusters is a first-fit
  search that always returns, an allocation takes bits that were free, and the search for
  free inodes in a group may never return.
\<close>

section \<open>First fit\<close>

lemma ffs_le: "ffs x \<le> 32"
  by (cases rule: ffs_cases [of x]) simp_all

lemma search_bounded:
  "B \<le> sz \<Longrightarrow> S \<le> 32 \<Longrightarrow> D \<le> 32 \<Longrightarrow>
    (if S \<noteq> 0 then B + S - 1 else if r \<ge> sz then sz else if D = 0 then sz else r + D - 1) \<le> sz + (32 :: nat)"
  by auto

lemma find_next_bit_clear_bound:
  assumes "off \<le> sz"
  shows "cmfs_find_next_bit_clear addr sz off \<le> sz + 32"
proof (cases "sz = 0")
  case False
  show ?thesis
    unfolding cmfs_find_next_bit_clear_def Let_def nat_and_7 nat_drop_bit_3 nat_push_bit_3 if_not_P [OF False]
    by (rule search_bounded) (use assms ffs_le in simp_all)
qed (simp add: cmfs_find_next_bit_clear_def)

lemma find_next_bit_set_bound:
  assumes "off \<le> sz"
  shows "cmfs_find_next_bit_set addr sz off \<le> sz + 32"
proof (cases "sz = 0")
  case False
  show ?thesis
    unfolding cmfs_find_next_bit_set_def Let_def nat_and_7 nat_drop_bit_3 nat_push_bit_3 if_not_P [OF False]
    by (rule search_bounded) (use assms ffs_le in simp_all)
qed (simp add: cmfs_find_next_bit_set_def)

text \<open>A run of \<open>n\<close> clear bits from \<open>r\<close> on, within \<open>sz\<close> bits.\<close>

definition clear_run :: "bytes \<Rightarrow> nat \<Rightarrow> nat \<Rightarrow> nat \<Rightarrow> bool" where
  "clear_run buf sz n r \<longleftrightarrow> r + n \<le> sz \<and> (\<forall>j. r \<le> j \<longrightarrow> j < r + n \<longrightarrow> \<not> bit_at buf j)"

definition first_fit :: "bytes \<Rightarrow> nat \<Rightarrow> nat \<Rightarrow> u32 \<Rightarrow> bool" where
  "first_fit buf sz n res \<longleftrightarrow>
     (if \<exists>r. clear_run buf sz n r then clear_run buf sz n (unat res) \<and> (\<forall>r. clear_run buf sz n r \<longrightarrow> unat res \<le> r)
      else res = NO_BIT)"

lemma find_clear_loop_fit:
  assumes "unat sz \<le> 8 * length buf" and "unat off \<le> unat sz" and "unat sz < 2 ^ 31"
    and "unat count \<le> unat off" and "unat count < unat n"
    and "count = 0 \<or> unat first = unat off - unat count"
    and "\<forall>j. unat off - unat count \<le> j \<longrightarrow> j < unat off \<longrightarrow> \<not> bit_at buf j"
    and "\<forall>r. clear_run buf (unat sz) (unat n) r \<longrightarrow> unat off - unat count \<le> r"
  shows "\<exists>res. find_clear_loop buf sz n off count first = Some res \<and> first_fit buf (unat sz) (unat n) res"
  using assms
proof (induction "unat sz - unat off" arbitrary: off count first rule: less_induct)
  case less
  let ?run = "clear_run buf (unat sz) (unat n)"
  let ?o = "unat off" and ?c = "unat count" and ?z = "cmfs_find_next_bit_clear buf (unat sz) (unat off)"
  have none: "first_fit buf (unat sz) (unat n) NO_BIT" if "\<And>r. \<not> ?run r"
    using that by (simp add: first_fit_def)
  have room: "unat (sz - off + count) = unat sz - ?o + ?c"
  proof -
    have "unat (sz - off) = unat sz - ?o" using less.prems(2) by (simp add: unat_sub word_le_nat_alt)
    then show ?thesis using less.prems(2-4) by (simp add: unat_add_lem [THEN iffD1])
  qed
  show ?case
  proof (cases "sz - off + count \<ge> n")
    case False
    then have "\<not> ?run r" for r
      using less.prems(2,4,8) by (fastforce simp: word_le_nat_alt room clear_run_def)
    then show ?thesis using False none by (subst find_clear_loop.simps) simp
  next
    case True
    have lower: "?o \<le> ?z" using less.prems(1,2) by (intro next_clear.find_lower)
    have set: "bit_at buf j" if "?o \<le> j" "j < ?z" "j < unat sz" for j
      using next_clear.find_skipped [OF less.prems(2,1) that(1,2,3)] by simp
    \<comment> \<open>a run that is left covers the offset or starts after it\<close>
    have covers: "\<exists>j. ?o \<le> j \<and> r \<le> j \<and> j < r + unat n \<and> j < unat sz" if "?run r" for r
    proof -
      have "?o - ?c \<le> r" "r + unat n \<le> unat sz" using less.prems(8) that by (auto simp: clear_run_def)
      then have "?o < r + unat n" using less.prems(4,5) by linarith
      then show ?thesis using \<open>r + unat n \<le> unat sz\<close> less.prems(5) by (intro exI [of _ "max ?o r"]) auto
    qed
    show ?thesis
    proof (cases "?z < unat sz")
      case False
      then have "\<not> ?run r" for r using covers [of r] set by (auto simp: clear_run_def)
      moreover have "(of_nat ?z :: u32) \<ge> sz \<or> ?z \<ge> 2 ^ 32"
        using False unat_of_nat_u32 [of ?z] by (auto simp: word_le_nat_alt not_less)
      moreover have "?z < 2 ^ 32"
        using find_next_bit_clear_bound [OF less.prems(2), of buf] less.prems(3) by simp
      ultimately show ?thesis using True none by (subst find_clear_loop.simps) (simp add: Let_def)
    next
      case z: True
      have uz: "unat (of_nat ?z :: u32) = ?z" using z less.prems(3) by (intro unat_of_nat_u32) simp
      then have zsz: "\<not> (of_nat ?z :: u32) \<ge> sz" using z by (simp add: word_le_nat_alt)
      have at: "\<not> bit_at buf ?z" using next_clear.find_wanted [OF less.prems(2,1) z] by simp
      have uz1: "unat ((of_nat ?z :: u32) + 1) = ?z + 1"
        using uz z less.prems(3) by (simp add: unat_add_lem [THEN iffD1])
      have same: "(of_nat ?z :: u32) \<noteq> off \<longleftrightarrow> ?z \<noteq> ?o" using uz by (metis word_unat_eq_iff)
      define first' where "first' = (if (of_nat ?z :: u32) \<noteq> off \<or> count = 0 then of_nat ?z else first)"
      define count' where "count' = (if (of_nat ?z :: u32) \<noteq> off then 0 else count) + 1"
      have c': "unat count' = (if ?z \<noteq> ?o then 1 else ?c + 1)"
        using less.prems(2-4) same by (auto simp: count'_def unat_add_lem [THEN iffD1])
      have f': "unat first' = ?z + 1 - unat count'"
        using less.prems(4,6) uz same by (auto simp: first'_def c' unat_eq_0)
      have cz: "unat count' \<le> ?z + 1" using c' less.prems(4) lower by simp
      have clear: "\<not> bit_at buf j" if "?z + 1 - unat count' \<le> j" "j < ?z + 1" for j
        using that less.prems(7) at by (cases "j = ?z") (auto simp: c' split: if_splits)
      have left: "?z + 1 - unat count' \<le> r" if "?run r" for r
      proof (cases "?z = ?o")
        case True
        then show ?thesis using less.prems(4,8) that by (simp add: c')
      next
        case False
        from covers [OF that] obtain j where j: "?o \<le> j" "r \<le> j" "j < r + unat n" "j < unat sz" by blast
        have "?z \<le> r"
        proof (rule ccontr)
          assume "\<not> ?z \<le> r"
          then have "bit_at buf (max ?o r)" using False lower z by (intro set) auto
          moreover have "r \<le> max ?o r" "max ?o r < r + unat n" using j less.prems(5) by auto
          ultimately show False using that by (auto simp: clear_run_def)
        qed
        then show ?thesis using False by (simp add: c')
      qed
      have step: "find_clear_loop buf sz n off count first =
          (if count' = n then Some first'
           else find_clear_loop buf sz n (of_nat ?z + 1) count' first')"
        using True zsz by (subst find_clear_loop.simps) (simp only: Let_def if_True if_False first'_def count'_def)
      show ?thesis
      proof (cases "count' = n")
        case True
        then have "?run (unat first')" using f' clear z cz by (simp add: clear_run_def)
        then show ?thesis using step True left f' by (auto simp: first_fit_def)
      next
        case False
        then have neq: "unat count' \<noteq> unat n" by (simp add: word_unat_eq_iff)
        have "\<exists>res. find_clear_loop buf sz n (of_nat ?z + 1) count' first' = Some res
            \<and> first_fit buf (unat sz) (unat n) res"
          by (rule less.hyps) (use less.prems z lower uz1 c' f' clear left neq in \<open>auto split: if_splits\<close>)
        then show ?thesis using step False by simp
      qed
    qed
  qed
qed

lemma find_clear_bits_fit:
  assumes "unat sz \<le> 8 * length buf" and "unat sz < 2 ^ 31" and "0 < n"
  shows "\<exists>res. find_clear_bits buf sz n 0 = Some res \<and> first_fit buf (unat sz) (unat n) res"
proof -
  have "0 < unat n" using assms(3) by (simp add: word_less_nat_alt)
  then obtain res where res: "find_clear_loop buf sz n 0 0 NO_BIT = Some res" "first_fit buf (unat sz) (unat n) res"
    using find_clear_loop_fit [of sz buf 0 0 n NO_BIT] assms(1,2) by auto
  have "res \<noteq> NO_BIT \<longrightarrow> \<not> res \<ge> sz"
    using res(2) \<open>0 < unat n\<close> by (auto simp: first_fit_def clear_run_def word_le_nat_alt split: if_splits)
  then show ?thesis using res by (auto simp: find_clear_bits_def)
qed

lemma first_fit_run:
  assumes "first_fit buf sz n res" and "res \<noteq> NO_BIT"
  shows "clear_run buf sz n (unat res)"
  using assms by (auto simp: first_fit_def split: if_splits)

section \<open>Stores into a group descriptor\<close>

lemma gd_bitmap_put: "off + length bs \<le> 64 \<Longrightarrow> 64 \<le> length gd \<Longrightarrow> gd_bitmap (put off bs gd) = gd_bitmap gd"
  by (simp add: gd_bitmap_def put_def)

lemma gd_bitmap_stw [simp]:
  assumes "64 \<le> length gd"
  shows "off + 2 \<le> 64 \<Longrightarrow> gd_bitmap (st16 le off v16 gd) = gd_bitmap gd"
    and "off + 4 \<le> 64 \<Longrightarrow> gd_bitmap (st32 le off v32 gd) = gd_bitmap gd"
    and "off + 8 \<le> 64 \<Longrightarrow> gd_bitmap (st64 le off v64 gd) = gd_bitmap gd"
  using assms by (simp_all add: stw_put gd_bitmap_put)

lemma length_gd_set_bit [simp]: "length (gd_set_bit nr gd) = length gd"
  by (simp add: gd_set_bit_def gd_bitmap_def)

lemma gd_bitmap_set_bit: "64 \<le> length gd \<Longrightarrow> gd_bitmap (gd_set_bit nr gd) = snd (cmfs_set_bit nr (gd_bitmap gd))"
  by (simp add: gd_set_bit_def gd_bitmap_def)

lemma field_gd_set_bit: "64 \<le> length gd \<Longrightarrow> off + n \<le> 64 \<Longrightarrow> field n off (gd_set_bit nr gd) = field n off gd"
  by (auto simp: gd_set_bit_def field_def drop_take min_def)

lemma length_gd_set_bits [simp]: "length (gd_set_bits start n gd) = length gd"
  by (induction n) (simp_all add: gd_set_bits_def)

lemma field_gd_set_bits:
  assumes "64 \<le> length gd" and "off + m \<le> 64"
  shows "field m off (gd_set_bits start n gd) = field m off gd"
proof (induction n)
  case (Suc n)
  have "length (fold (\<lambda>k. gd_set_bit (start + k)) [0..<n] gd) = length gd"
    using length_gd_set_bits [of start n gd] by (simp only: gd_set_bits_def)
  then show ?case using Suc assms by (simp add: gd_set_bits_def field_gd_set_bit)
qed (simp add: gd_set_bits_def)

lemma ldw_gd_set_bits:
  assumes "64 \<le> length gd"
  shows "off + 2 \<le> 64 \<Longrightarrow> ld16 le (gd_set_bits start n gd) off = ld16 le gd off"
    and "off + 8 \<le> 64 \<Longrightarrow> ld64 le (gd_set_bits start n gd) off = ld64 le gd off"
  using assms by (simp_all add: ld16_def ld64_def ld_def field_gd_set_bits)

lemma bit_at_gd_set_bits:
  assumes "64 \<le> length gd" and "start + n \<le> 8 * length (gd_bitmap gd)"
  shows "bit_at (gd_bitmap (gd_set_bits start n gd)) j \<longleftrightarrow>
    (start \<le> j \<and> j < start + n) \<or> bit_at (gd_bitmap gd) j"
  using assms(2)
proof (induction n)
  case (Suc n)
  let ?gd = "gd_set_bits start n gd"
  have "length (gd_bitmap ?gd) = length (gd_bitmap gd)" by (simp add: gd_bitmap_def)
  then have "bit_at (gd_bitmap (gd_set_bit (start + n) ?gd)) j \<longleftrightarrow> j = start + n \<or> bit_at (gd_bitmap ?gd) j"
    using Suc.prems assms(1) by (simp add: gd_bitmap_set_bit bit_at_set_bit)
  then show ?case using Suc by (auto simp: gd_set_bits_def)
qed (auto simp: gd_set_bits_def)

section \<open>The walk along the chains\<close>

text \<open>The groups are buffers of the right size, and the links stay within the groups.\<close>

definition group_sized :: "bool \<Rightarrow> alloc_group \<Rightarrow> bool" where
  "group_sized le g \<longleftrightarrow> 64 \<le> length (ag_gd g)
     \<and> unat (ld16 le (ag_gd g) o_bg_bits) \<le> 8 * length (gd_bitmap (ag_gd g))"

definition groups_ok :: "mkfs_state \<Rightarrow> bool" where
  "groups_ok s \<longleftrightarrow> (\<forall>g \<in> set (ms_groups s). group_sized (ms_le s) g
       \<and> (\<forall>j. ag_next g = Some j \<longrightarrow> j < length (ms_groups s)))
     \<and> ab_num_chains (ms_bitmap s) \<le> length (ms_groups s)"

definition chain_hit :: "bool \<Rightarrow> alloc_group list \<Rightarrow> u64 \<Rightarrow> nat \<Rightarrow> u32 \<Rightarrow> bool" where
  "chain_hit le groups n k b \<longleftrightarrow> k < length groups \<and> b \<noteq> NO_BIT
     \<and> n \<le> ucast (ld16 le (ag_gd (groups ! k)) o_bg_free_bits_count)
     \<and> find_clear_bits (gd_bitmap (ag_gd (groups ! k))) (ucast (ld16 le (ag_gd (groups ! k)) o_bg_bits))
         (ucast n) 0 = Some b"

lemma find_in_chain_hit:
  assumes "find_in_chain le groups n i = Some y" and "i < length groups"
    and "\<forall>g \<in> set groups. \<forall>j. ag_next g = Some j \<longrightarrow> j < length groups"
  shows "\<forall>k b. y = Some (k, b) \<longrightarrow> chain_hit le groups n k b"
proof -
  let ?P = "\<lambda>le groups n i y. i < length groups
      \<longrightarrow> (\<forall>g \<in> set groups. \<forall>j. ag_next g = Some j \<longrightarrow> j < length groups)
      \<longrightarrow> (\<forall>k b. y = Some (k, b) \<longrightarrow> chain_hit le groups n k b)"
  have "?P le groups n i y"
  proof (rule find_in_chain.raw_induct [where P = ?P, OF _ assms(1)])
    fix f le groups n i y
    assume IH: "\<And>le groups n i y. f le groups n i = Some y \<Longrightarrow> ?P le groups n i y"
      and step: "(let gd = ag_gd (groups ! i)
        in if (ucast (ld16 le gd o_bg_free_bits_count) :: u64) \<ge> n then
             case find_clear_bits (gd_bitmap gd) (ucast (ld16 le gd o_bg_bits)) (ucast n) 0 of
               None \<Rightarrow> None
             | Some start_bit \<Rightarrow> Some (if start_bit \<noteq> NO_BIT then Some (i, start_bit) else None)
           else case ag_next (groups ! i) of None \<Rightarrow> Some None | Some j \<Rightarrow> f le groups n j) = Some y"
    show "?P le groups n i y"
    proof (intro impI)
      assume i: "i < length groups" and links: "\<forall>g \<in> set groups. \<forall>j. ag_next g = Some j \<longrightarrow> j < length groups"
      have j: "j < length groups" if "ag_next (groups ! i) = Some j" for j using links i that by auto
      show "\<forall>k b. y = Some (k, b) \<longrightarrow> chain_hit le groups n k b"
        using step i j links IH [of le groups n _ y]
        by (auto simp: Let_def chain_hit_def split: if_splits option.splits)
    qed
  qed
  then show ?thesis using assms(2,3) by blast
qed

lemma find_in_chains_hit:
  assumes "find_in_chains le groups n is = Some (Some (k, b))" and "\<forall>i \<in> set is. i < length groups"
    and "\<forall>g \<in> set groups. \<forall>j. ag_next g = Some j \<longrightarrow> j < length groups"
  shows "chain_hit le groups n k b"
  using assms(1,2)
  by (induction "is") (auto split: option.splits dest: find_in_chain_hit [OF _ _ assms(3)])

text \<open>What a hit means for the bitmap of the group.\<close>

lemma chain_hit_run:
  assumes "chain_hit le groups n k b" and "group_sized le (groups ! k)" and "0 < n"
  shows "clear_run (gd_bitmap (ag_gd (groups ! k))) (unat (ld16 le (ag_gd (groups ! k)) o_bg_bits)) (unat n) (unat b)"
proof -
  let ?gd = "ag_gd (groups ! k)"
  let ?bits = "ld16 le ?gd o_bg_bits"
  have free: "unat n \<le> unat (ld16 le ?gd o_bg_free_bits_count)"
    using assms(1) by (simp add: chain_hit_def word_le_nat_alt unsigned_ucast_eq take_bit_nat_eq_self
        order_less_trans [OF unat_u16_less])
  then have n16: "unat n < 65536" using unat_u16_less [of "ld16 le ?gd o_bg_free_bits_count"] by linarith
  then have un: "unat (ucast n :: u32) = unat n" by (simp add: unsigned_ucast_eq take_bit_nat_eq_self)
  have ub: "unat (ucast ?bits :: u32) = unat ?bits"
    by (simp add: unsigned_ucast_eq take_bit_nat_eq_self order_less_trans [OF unat_u16_less])
  have "0 < unat (ucast n :: u32)" using assms(3) by (simp add: un word_less_nat_alt)
  then have "0 < (ucast n :: u32)" by (simp add: word_less_nat_alt)
  moreover have "unat ?bits < 2 ^ 31" by (rule order_less_trans [OF unat_u16_less]) simp
  ultimately obtain res where "find_clear_bits (gd_bitmap ?gd) (ucast ?bits) (ucast n) 0 = Some res"
    "first_fit (gd_bitmap ?gd) (unat ?bits) (unat n) res"
    using find_clear_bits_fit [of "ucast ?bits" "gd_bitmap ?gd" "ucast n"] assms(2)
    by (auto simp: group_sized_def ub un)
  then show ?thesis using assms(1) first_fit_run by (auto simp: chain_hit_def)
qed

abbreviation (input) group_bitmap :: "mkfs_state \<Rightarrow> nat \<Rightarrow> bytes" where
  "group_bitmap s i \<equiv> gd_bitmap (ag_gd (ms_groups s ! i))"

lemma upd_cgroup_simps [simp]:
  "length (ms_groups (upd_cgroup i f s)) = length (ms_groups s)"
  "i < length (ms_groups s) \<Longrightarrow> ms_groups (upd_cgroup i f s) ! i = f (ms_groups s ! i)"
  "k \<noteq> i \<Longrightarrow> ms_groups (upd_cgroup i f s) ! k = ms_groups s ! k"
  "ms_groups (upd_rec r h s) = ms_groups s"
  by (simp_all add: upd_cgroup_def upd_rec_def)

lemma upd_cgroup_bitmap:
  "(\<And>g. ag_gd (f g) = ag_gd g) \<Longrightarrow> ag_gd (ms_groups (upd_cgroup i f s) ! k) = ag_gd (ms_groups s ! k)"
  by (cases "i < length (ms_groups s)"; cases "k = i")
    (simp_all add: upd_cgroup_def list_update_beyond)

text \<open>
  The clusters of a group: bit \<open>j\<close> of group \<open>i\<close> stands for cluster \<open>group_base s i + j\<close>, where
  the base is computed as in \<^verbatim>\<open>alloc_from_bitmap\<close> from the block in the descriptor.
\<close>

definition bg_bits_of :: "mkfs_state \<Rightarrow> nat \<Rightarrow> nat" where
  "bg_bits_of s i = unat (ld16 (ms_le s) (ag_gd (ms_groups s ! i)) o_bg_bits)"

definition group_base :: "mkfs_state \<Rightarrow> nat \<Rightarrow> nat" where
  "group_base s i =
     (let blkno = ld64 (ms_le s) (ag_gd (ms_groups s ! i)) o_bg_blkno
      in if blkno = ms_first_cluster_group_blkno s then 0
         else unat (drop_bit (ms_cluster_size_bits s) (push_bit (ms_blocksize_bits s) blkno)))"

definition cluster_used :: "mkfs_state \<Rightarrow> nat \<Rightarrow> bool" where
  "cluster_used s c \<longleftrightarrow> (\<exists>i < length (ms_groups s). group_base s i \<le> c
     \<and> c < group_base s i + bg_bits_of s i \<and> bit_at (group_bitmap s i) (c - group_base s i))"

text \<open>No cluster belongs to two groups, and the size of the volume in bytes is a 64-bit word.\<close>

definition groups_apart :: "mkfs_state \<Rightarrow> bool" where
  "groups_apart s \<longleftrightarrow> (\<forall>i < length (ms_groups s).
       (group_base s i + bg_bits_of s i) * 2 ^ unat (ab_unit_bits (ms_bitmap s)) < 2 ^ 64
     \<and> (\<forall>j < length (ms_groups s). i \<noteq> j \<longrightarrow>
          group_base s i + bg_bits_of s i \<le> group_base s j \<or> group_base s j + bg_bits_of s j \<le> group_base s i))"

lemma alloc_from_bitmap_ok:
  assumes "groups_ok s" and "0 < n" and "alloc_from_bitmap n s = (Inr (start, num), s')"
  shows "\<exists>i b. i < length (ms_groups s)
    \<and> clear_run (group_bitmap s i) (unat (ld16 (ms_le s) (ag_gd (ms_groups s ! i)) o_bg_bits)) (unat n) b
    \<and> (\<forall>j. bit_at (group_bitmap s' i) j \<longleftrightarrow> bit_at (group_bitmap s i) j \<or> (b \<le> j \<and> j < b + unat n))
    \<and> (\<forall>k. k \<noteq> i \<longrightarrow> group_bitmap s' k = group_bitmap s k)
    \<and> ld16 (ms_le s) (ag_gd (ms_groups s' ! i)) o_bg_free_bits_count
        = ld16 (ms_le s) (ag_gd (ms_groups s ! i)) o_bg_free_bits_count - ucast n
    \<and> num = push_bit (unat (ab_unit_bits (ms_bitmap s))) n
    \<and> start = push_bit (unat (ab_unit_bits (ms_bitmap s))) (of_nat (group_base s i + b))
    \<and> length (ms_groups s') = length (ms_groups s)
    \<and> (\<forall>k. group_base s' k = group_base s k \<and> bg_bits_of s' k = bg_bits_of s k)"
proof -
  let ?le = "ms_le s" and ?bm = "ms_bitmap s"
  obtain i b where hit: "find_in_chains ?le (ms_groups s) n [0..<ab_num_chains ?bm] = Some (Some (i, b))"
    using assms(3) by (auto simp: alloc_from_bitmap_def Let_def split: option.splits)
  have "chain_hit ?le (ms_groups s) n i b"
    using assms(1) by (intro find_in_chains_hit [OF hit]) (auto simp: groups_ok_def)
  note hit' = this
  then have i: "i < length (ms_groups s)" by (simp add: chain_hit_def)
  then have sized: "group_sized ?le (ms_groups s ! i)" using assms(1) by (simp add: groups_ok_def)
  have run: "clear_run (group_bitmap s i) (unat (ld16 ?le (ag_gd (ms_groups s ! i)) o_bg_bits)) (unat n) (unat b)"
    using hit' sized assms(2) by (rule chain_hit_run)
  let ?gd = "ag_gd (ms_groups s ! i)"
  let ?free = "\<lambda>gd. st16 ?le o_bg_free_bits_count (ld16 ?le gd o_bg_free_bits_count - ucast n) gd"
  define s1 where "s1 = upd_cgroup i (upd_gd ?free) s"
  define s2 where "s2 = upd_cgroup (unat (ld16 ?le ?gd o_bg_chain))
      (\<lambda>g. g\<lparr>ag_chain_free := ag_chain_free g - ucast n\<rparr>) s1"
  define s3 where "s3 = upd_rec (ab_bm_record ?bm) (\<lambda>rc. rc\<lparr>bi_used_bits := bi_used_bits rc + ucast n\<rparr>) s2"
  have s': "s' = upd_cgroup i (upd_gd (gd_set_bits (unat b) (unat n))) s3"
    and num: "num = push_bit (unat (ab_unit_bits ?bm)) n"
    using assms(3) hit by (auto simp: alloc_from_bitmap_def Let_def s1_def s2_def s3_def)
  have gd3: "ag_gd (ms_groups s3 ! k) = (if k = i then ?free ?gd else ag_gd (ms_groups s ! k))" for k
    using i by (simp add: s3_def s2_def upd_cgroup_bitmap) (simp add: s1_def)
  have len3: "length (ms_groups s3) = length (ms_groups s)" by (simp add: s3_def s2_def s1_def)
  have 64: "64 \<le> length ?gd" using sized by (simp add: group_sized_def)
  then have l64: "64 \<le> length (?free ?gd)" by simp
  have gd': "ag_gd (ms_groups s' ! i) = gd_set_bits (unat b) (unat n) (?free ?gd)"
    using i by (simp add: s' len3 gd3)
  have room: "unat b + unat n \<le> 8 * length (gd_bitmap (?free ?gd))"
    using run sized 64 by (simp add: clear_run_def group_sized_def)
  have "bit_at (group_bitmap s' i) j \<longleftrightarrow> bit_at (group_bitmap s i) j \<or> (unat b \<le> j \<and> j < unat b + unat n)" for j
    using bit_at_gd_set_bits [OF l64 room] 64 by (auto simp: gd')
  moreover have "group_bitmap s' k = group_bitmap s k" if "k \<noteq> i" for k
    using that by (simp add: s' gd3)
  moreover have "ld16 ?le (ag_gd (ms_groups s' ! i)) o_bg_free_bits_count
        = ld16 ?le ?gd o_bg_free_bits_count - ucast n"
    using 64 by (simp add: gd' ldw_gd_set_bits [OF l64] buf_simps)
  moreover have "start = push_bit (unat (ab_unit_bits ?bm)) (of_nat (group_base s i + unat b))"
  proof -
    have "(ucast b :: u64) = of_nat (unat b)" by (simp add: unat_ucast_u64 word_unat_eq_iff)
    then show ?thesis using assms(3) hit
      by (auto simp: alloc_from_bitmap_def Let_def group_base_def add.commute)
  qed
  moreover have "group_base s' k = group_base s k \<and> bg_bits_of s' k = bg_bits_of s k" for k
  proof -
    have frame: "ms_le s' = ?le" "ms_first_cluster_group_blkno s' = ms_first_cluster_group_blkno s"
      "ms_cluster_size_bits s' = ms_cluster_size_bits s" "ms_blocksize_bits s' = ms_blocksize_bits s"
      by (simp_all add: s' s3_def s2_def s1_def upd_cgroup_def upd_rec_def)
    have gdk: "ag_gd (ms_groups s' ! k)
        = (if k = i then gd_set_bits (unat b) (unat n) (?free ?gd) else ag_gd (ms_groups s ! k))"
    proof (cases "k = i")
      case True
      then show ?thesis using gd' by simp
    next
      case False
      then show ?thesis by (simp add: s' gd3)
    qed
    have "ld64 ?le (ag_gd (ms_groups s' ! k)) o_bg_blkno = ld64 ?le (ag_gd (ms_groups s ! k)) o_bg_blkno"
      "ld16 ?le (ag_gd (ms_groups s' ! k)) o_bg_bits = ld16 ?le (ag_gd (ms_groups s ! k)) o_bg_bits"
      unfolding gdk using 64 by (auto simp: ldw_gd_set_bits [OF l64] buf_simps)
    then show ?thesis by (simp add: group_base_def bg_bits_of_def frame Let_def)
  qed
  moreover have "length (ms_groups s') = length (ms_groups s)" by (simp add: s' len3)
  ultimately show ?thesis using i run num by blast
qed

section \<open>The inode group\<close>

lemma group_search_stuck:
  assumes "start < bits" and "bits \<le> 8 * length bm" and "bits < 65536" and "0 < count" and "bit_at bm start"
  shows "group_search bm bits count start = None"
proof (rule ccontr)
  assume "group_search bm bits count start \<noteq> None"
  then obtain y where y: "group_search bm bits count start = Some y" by auto
  let ?P = "\<lambda>bm bits count start y. \<not> (start < bits \<and> bits \<le> 8 * length bm \<and> bits < 65536
      \<and> 0 < count \<and> bit_at bm start)"
  have "?P bm bits count start y"
  proof (rule group_search.raw_induct [where P = ?P, OF _ y])
    fix f bm bits count start y
    assume IH: "\<And>bm bits count start y. f bm bits count start = Some y \<Longrightarrow> ?P bm bits count start y"
      and step: "(if start < bits then
          let end_bit = cmfs_find_next_bit_set bm bits start mod 65536
          in if int end_bit - int start \<ge> int count then Some (Some start) else f bm bits count end_bit
        else Some None) = Some y"
    show "?P bm bits count start y"
    proof
      assume a: "start < bits \<and> bits \<le> 8 * length bm \<and> bits < 65536 \<and> 0 < count \<and> bit_at bm start"
      then have "cmfs_find_next_bit_set bm bits start = start" by (intro next_set.found_at) auto
      then have "f bm bits count start = Some y" using step a by (simp add: Let_def)
      then show False using IH a by blast
    qed
  qed
  then show False using assms by blast
qed

definition system_gd :: "mkfs_state \<Rightarrow> bytes" where
  "system_gd s = ag_gd (ms_system_group s)"

definition system_bits :: "mkfs_state \<Rightarrow> nat" where
  "system_bits s = unat (ld16 (ms_le s) (system_gd s) o_bg_bits)"

text \<open>The group of system inodes: a block-sized descriptor whose first clear bit is \<open>f\<close>.\<close>

definition first_free :: "mkfs_state \<Rightarrow> nat \<Rightarrow> bool" where
  "first_free s f \<longleftrightarrow> group_sized (ms_le s) (ms_system_group s) \<and> length (system_gd s) \<le> 4096
     \<and> f < system_bits s \<and> \<not> bit_at (gd_bitmap (system_gd s)) f
     \<and> (\<forall>j < f. bit_at (gd_bitmap (system_gd s)) j)"

lemma first_free_start:
  assumes "first_free s f"
  shows "cmfs_find_first_bit_clear (gd_bitmap (system_gd s)) (system_bits s) mod 65536 = f"
    and "system_bits s \<le> 8 * length (gd_bitmap (system_gd s))" and "system_bits s \<le> 32256"
proof -
  have "length (system_gd s) \<le> 4096" using assms by (simp add: first_free_def)
  then have len: "length (gd_bitmap (system_gd s)) \<le> 4032" by (simp add: gd_bitmap_def)
  show bits: "system_bits s \<le> 8 * length (gd_bitmap (system_gd s))"
    using assms by (simp add: first_free_def group_sized_def system_bits_def system_gd_def)
  then show small: "system_bits s \<le> 32256" using len by linarith
  have "cmfs_find_next_bit_clear (gd_bitmap (system_gd s)) (system_bits s) 0 = f"
    by (rule next_clear.found_eq [OF _ bits]) (use assms in \<open>auto simp: first_free_def\<close>)
  moreover have "f < 65536" using assms small by (simp add: first_free_def)
  ultimately show "cmfs_find_first_bit_clear (gd_bitmap (system_gd s)) (system_bits s) mod 65536 = f"
    by (simp add: cmfs_find_first_bit_clear_def)
qed

lemma alloc_from_group_stuck:
  assumes "first_free s f" and "f < j" and "j < f + unat count" and "j < system_bits s"
    and "bit_at (gd_bitmap (system_gd s)) j"
  shows "alloc_from_group count s = (Inl C_UNDEFINED, s)"
proof -
  let ?bm = "gd_bitmap (system_gd s)" and ?bits = "system_bits s"
  note start = first_free_start [OF assms(1)]
  define e where "e = cmfs_find_next_bit_set ?bm ?bits f"
  have f: "f \<le> ?bits" "f < ?bits" using assms(1) by (simp_all add: first_free_def)
  have "e \<le> j" unfolding e_def by (rule next_set.found_least [OF f(1) start(2)]) (use assms in auto)
  then have e: "e < ?bits" "e < f + unat count" using assms(3,4) by linarith+
  have at: "bit_at ?bm e" unfolding e_def
    by (rule next_set.find_wanted [OF f(1) start(2)]) (use e(1) in \<open>simp add: e_def\<close>)
  have "group_search ?bm ?bits (unat count) e = None"
    by (rule group_search_stuck [OF e(1) start(2) _ _ at]) (use start(3) assms(2,3) in auto)
  moreover have "e mod 65536 = e" using e(1) start(3) by simp
  ultimately have "group_search ?bm ?bits (unat count) f = None"
    using f(2) e(2) by (subst group_search.simps) (simp add: Let_def e_def [symmetric] del: of_nat_unat)
  then show ?thesis using start(1)
    by (simp add: alloc_from_group_def Let_def system_gd_def system_bits_def)
qed

lemma group_search_run:
  assumes "first_free s f" and "clear_run (gd_bitmap (system_gd s)) (system_bits s) n f"
  shows "group_search (gd_bitmap (system_gd s)) (system_bits s) n f = Some (Some f)"
proof -
  let ?bm = "gd_bitmap (system_gd s)" and ?bits = "system_bits s"
  note start = first_free_start [OF assms(1)]
  define e where "e = cmfs_find_next_bit_set ?bm ?bits f"
  have f: "f \<le> ?bits" "f < ?bits" using assms(1) by (simp_all add: first_free_def)
  have "f + n \<le> e"
  proof (rule ccontr)
    assume "\<not> f + n \<le> e"
    then have "e < ?bits" "e < f + n" using assms(2) by (auto simp: clear_run_def)
    moreover have "bit_at ?bm e" unfolding e_def
      by (rule next_set.find_wanted [OF f(1) start(2)]) (use \<open>e < ?bits\<close> in \<open>simp add: e_def\<close>)
    moreover have "f \<le> e" unfolding e_def by (rule next_set.find_lower [OF f(1) start(2)])
    ultimately show False using assms(2) by (auto simp: clear_run_def)
  qed
  moreover have "e mod 65536 = e"
    using find_next_bit_set_bound [OF f(1), of ?bm] start(3) by (simp add: e_def)
  ultimately show ?thesis using f(2) by (subst group_search.simps) (simp add: Let_def e_def [symmetric])
qed

section \<open>Properties\<close>

declare find_clear_loop.simps [code]

text \<open>
  C29. \<^verbatim>\<open>find_clear_bits\<close> returns, and is a first-fit search: the result is the start of the
  first run of \<open>n\<close> clear bits within the size, or -1 when there is none.
\<close>

theorem find_clear_bits_first_fit:
  assumes "unat sz \<le> 8 * length buf" and "unat sz < 2 ^ 31" and "0 < n"
  shows "\<exists>res. find_clear_bits buf sz n 0 = Some res \<and>
    (if \<exists>r. clear_run buf (unat sz) (unat n) r
     then clear_run buf (unat sz) (unat n) (unat res)
       \<and> (\<forall>r. clear_run buf (unat sz) (unat n) r \<longrightarrow> unat res \<le> r)
     else res = NO_BIT)"
  using find_clear_bits_fit [OF assms] by (simp only: first_fit_def)

theorem find_clear_bits_first_fit_witness:
  "find_clear_bits [0x9F, 0xE1] 13 4 0 = Some 9 \<and> find_clear_bits [0x9F, 0xE1] 13 5 0 = Some NO_BIT"
proof -
  let ?buf = "[0x9F, 0xE1] :: bytes"
  have bits: "list_all (\<lambda>j. bit_at ?buf j = (j \<notin> {5, 6, 9, 10, 11, 12})) [0..<13]" by code_simp
  have at: "bit_at ?buf j = (j \<notin> {5, 6, 9, 10, 11, 12})" if "j < 13" for j
    using bits that by (simp only: list_all_iff set_upt) simp
  have run4: "clear_run ?buf 13 4 r \<longleftrightarrow> r = 9" for r
  proof
    assume r: "clear_run ?buf 13 4 r"
    then have "r \<le> 9" and "\<not> bit_at ?buf r" "\<not> bit_at ?buf (r + 2)" "\<not> bit_at ?buf (r + 3)"
      by (auto simp: clear_run_def)
    then show "r = 9" using at [of r] at [of "r + 2"] at [of "r + 3"] by auto
  next
    assume "r = 9"
    moreover have "\<not> bit_at ?buf j" if "9 \<le> j" "j < 13" for j
    proof -
      have "j = 9 \<or> j = 10 \<or> j = 11 \<or> j = 12" using that by auto
      then show ?thesis using at [of j] that by auto
    qed
    ultimately show "clear_run ?buf 13 4 r" by (simp add: clear_run_def)
  qed
  have run5: "\<not> clear_run ?buf 13 5 r" for r
  proof
    assume r: "clear_run ?buf 13 5 r"
    then have "clear_run ?buf 13 4 r" "r + 5 \<le> 13" by (auto simp: clear_run_def)
    then show False using run4 by auto
  qed
  have "unat res = 9 \<Longrightarrow> res = 9" for res :: u32 by (simp add: word_unat_eq_iff)
  then show ?thesis
    using find_clear_bits_first_fit [of 13 ?buf 4] find_clear_bits_first_fit [of 13 ?buf 5]
    by (auto simp: run4 run5)
qed

text \<open>
  C10. When no cluster belongs to two groups, an allocation never hands out a cluster twice: what
  is returned is the byte range of \<open>n\<close> clusters none of which was in use, and afterwards the clusters in
  use are those that were and these. The bits taken are in one group, whose count of free bits
  goes down by as many; the bitmaps of all other groups stay as they are.
\<close>

theorem alloc_from_bitmap_fresh:
  assumes "groups_ok s" and "groups_apart s" and "0 < n" and "alloc_from_bitmap n s = (Inr (start, num), s')"
  shows "\<exists>c. unat start = c * 2 ^ unat (ab_unit_bits (ms_bitmap s))
      \<and> unat num = unat n * 2 ^ unat (ab_unit_bits (ms_bitmap s))
      \<and> (\<forall>x. c \<le> x \<longrightarrow> x < c + unat n \<longrightarrow> \<not> cluster_used s x)
      \<and> (\<forall>x. cluster_used s' x \<longleftrightarrow> cluster_used s x \<or> (c \<le> x \<and> x < c + unat n))
      \<and> (\<exists>i b. i < length (ms_groups s) \<and> c = group_base s i + b
        \<and> clear_run (group_bitmap s i) (bg_bits_of s i) (unat n) b
        \<and> (\<forall>j. bit_at (group_bitmap s' i) j \<longleftrightarrow> bit_at (group_bitmap s i) j \<or> (b \<le> j \<and> j < b + unat n))
        \<and> (\<forall>k. k \<noteq> i \<longrightarrow> group_bitmap s' k = group_bitmap s k)
        \<and> ld16 (ms_le s) (ag_gd (ms_groups s' ! i)) o_bg_free_bits_count
            = ld16 (ms_le s) (ag_gd (ms_groups s ! i)) o_bg_free_bits_count - ucast n)"
proof -
  let ?u = "unat (ab_unit_bits (ms_bitmap s))"
  obtain i b where i: "i < length (ms_groups s)"
    and run: "clear_run (group_bitmap s i) (bg_bits_of s i) (unat n) b"
    and bits: "\<And>j. bit_at (group_bitmap s' i) j \<longleftrightarrow> bit_at (group_bitmap s i) j \<or> (b \<le> j \<and> j < b + unat n)"
    and others: "\<And>k. k \<noteq> i \<Longrightarrow> group_bitmap s' k = group_bitmap s k"
    and free: "ld16 (ms_le s) (ag_gd (ms_groups s' ! i)) o_bg_free_bits_count
        = ld16 (ms_le s) (ag_gd (ms_groups s ! i)) o_bg_free_bits_count - ucast n"
    and num: "num = push_bit ?u n" and start: "start = push_bit ?u (of_nat (group_base s i + b))"
    and same: "length (ms_groups s') = length (ms_groups s)"
      "\<And>k. group_base s' k = group_base s k" "\<And>k. bg_bits_of s' k = bg_bits_of s k"
    using alloc_from_bitmap_ok [OF assms(1,3,4)] unfolding bg_bits_of_def by metis
  define c where "c = group_base s i + b"
  have room: "b + unat n \<le> bg_bits_of s i" using run by (simp add: clear_run_def)
  then have range: "c + unat n \<le> group_base s i + bg_bits_of s i" by (simp add: c_def)
  have own: "k = i" if "k < length (ms_groups s)" "group_base s k \<le> x" "x < group_base s k + bg_bits_of s k"
      "c \<le> x" "x < c + unat n" for k x
  proof (rule ccontr)
    assume "k \<noteq> i"
    then have "group_base s i + bg_bits_of s i \<le> group_base s k \<or> group_base s k + bg_bits_of s k \<le> group_base s i"
      using assms(2) i that(1) by (simp add: groups_apart_def)
    then show False using that range by (auto simp: c_def)
  qed
  have fresh: "\<not> cluster_used s x" if x: "c \<le> x" "x < c + unat n" for x
  proof
    assume "cluster_used s x"
    then obtain k where k: "k < length (ms_groups s)" "group_base s k \<le> x" "x < group_base s k + bg_bits_of s k"
      "bit_at (group_bitmap s k) (x - group_base s k)" by (auto simp: cluster_used_def)
    have "k = i" by (rule own [OF k(1-3) x])
    then show False using k(4) run x by (auto simp: clear_run_def c_def)
  qed
  have used: "cluster_used s' x \<longleftrightarrow> cluster_used s x \<or> (c \<le> x \<and> x < c + unat n)" for x
  proof
    assume "cluster_used s' x"
    then obtain k where k: "k < length (ms_groups s)" "group_base s k \<le> x" "x < group_base s k + bg_bits_of s k"
      "bit_at (group_bitmap s' k) (x - group_base s k)" by (auto simp: cluster_used_def same)
    show "cluster_used s x \<or> (c \<le> x \<and> x < c + unat n)"
    proof (cases "k = i")
      case True
      then show ?thesis using k bits [of "x - group_base s k"] unfolding cluster_used_def c_def by auto
    next
      case False
      then show ?thesis using k others [OF False] unfolding cluster_used_def by auto
    qed
  next
    assume "cluster_used s x \<or> (c \<le> x \<and> x < c + unat n)"
    then show "cluster_used s' x"
    proof
      assume "cluster_used s x"
      then obtain k where "k < length (ms_groups s)" "group_base s k \<le> x" "x < group_base s k + bg_bits_of s k"
        "bit_at (group_bitmap s k) (x - group_base s k)" by (auto simp: cluster_used_def)
      moreover from this have "bit_at (group_bitmap s' k) (x - group_base s k)"
        using bits others by (cases "k = i") simp_all
      ultimately show ?thesis unfolding cluster_used_def same by blast
    next
      assume "c \<le> x \<and> x < c + unat n"
      then have "group_base s i \<le> x" "x < group_base s i + bg_bits_of s i"
        "bit_at (group_bitmap s' i) (x - group_base s i)"
        using range bits [of "x - group_base s i"] by (auto simp: c_def)
      then show ?thesis using i unfolding cluster_used_def same by blast
    qed
  qed
  have size: "(group_base s i + bg_bits_of s i) * 2 ^ ?u < 2 ^ 64" using assms(2) i by (simp add: groups_apart_def)
  have shift: "unat (push_bit ?u w :: u64) = unat w * 2 ^ ?u" if "unat w * 2 ^ ?u < 2 ^ 64" for w :: u64
  proof -
    have "unat (push_bit ?u w) = take_bit 64 (unat w * 2 ^ ?u)" 
      by (simp only: unsigned_push_bit_eq push_bit_eq_mult [where 'a = nat]) simp
    then show ?thesis using that by (simp add: take_bit_nat_eq_self)
  qed
  have le: "k * 2 ^ ?u < 2 ^ 64" if "k \<le> group_base s i + bg_bits_of s i" for k
    using mult_le_mono1 [OF that, of "2 ^ ?u"] size by (rule le_less_trans)
  have c64: "c * 2 ^ ?u < 2 ^ 64" using range by (intro le) simp
  have "c \<le> c * 2 ^ ?u" by simp
  then have "unat (of_nat c :: u64) = c" using c64 by (intro unat_of_nat_u64) linarith
  then have "unat start = c * 2 ^ ?u" using shift [of "of_nat c"] c64 by (simp add: start c_def [symmetric] del: of_nat_add)
  moreover have "unat num = unat n * 2 ^ ?u" unfolding num by (intro shift le) (use range in \<open>simp add: c_def\<close>)
  ultimately show ?thesis using fresh used i run bits others free c_def by blast
qed

text \<open>A group with a bitmap of two bytes, used for the instances.\<close>

definition demo_group :: "u64 \<Rightarrow> u16 \<Rightarrow> u16 \<Rightarrow> u8 \<Rightarrow> u8 \<Rightarrow> alloc_group" where
  "demo_group blkno bits free b0 b1 =
     zero_group\<lparr>ag_gd := st16 True o_bg_bits bits (st16 True o_bg_free_bits_count free
       (st64 True o_bg_blkno blkno (replicate 64 0 @ [b0, b1])))\<rparr>"

definition demo_mkfs :: mkfs_state where
  "demo_mkfs = (zero_state True \<lparr> io_blksize = 4096, io_error = 0, io_nocache = False, io_cache = None,
       io_bytes_read = 0, io_bytes_written = 0, dev_data = [], dev_script = [], heap_script = [] \<rparr>)
     \<lparr> ms_blocksize := 4096, ms_blocksize_bits := 12, ms_cluster_size := 8192, ms_cluster_size_bits := 13,
       ms_first_cluster_group_blkno := 4,
       ms_bitmap := \<lparr> ab_valid_bits = 29, ab_unit = 8192, ab_unit_bits = 13, ab_bm_record = SuperRec,
                      ab_num_chains = 2 \<rparr>,
       ms_groups := [demo_group 4 16 2 0xFD 0xFE, demo_group 32 13 6 0x9F 0xE1],
       ms_system_group := demo_group 0 14 5 0xFD 0xC3 \<rparr>"

lemma demo_group_gd:
  "length (ag_gd (demo_group blkno bits free b0 b1)) = 66"
  "ld16 True (ag_gd (demo_group blkno bits free b0 b1)) o_bg_bits = bits"
  "ld16 True (ag_gd (demo_group blkno bits free b0 b1)) o_bg_free_bits_count = free"
  "ld64 True (ag_gd (demo_group blkno bits free b0 b1)) o_bg_blkno = blkno"
  "gd_bitmap (ag_gd (demo_group blkno bits free b0 b1)) = [b0, b1]"
proof -
  show "length (ag_gd (demo_group blkno bits free b0 b1)) = 66"
    "ld16 True (ag_gd (demo_group blkno bits free b0 b1)) o_bg_bits = bits"
    "ld16 True (ag_gd (demo_group blkno bits free b0 b1)) o_bg_free_bits_count = free"
    "ld64 True (ag_gd (demo_group blkno bits free b0 b1)) o_bg_blkno = blkno"
    by (simp_all add: demo_group_def buf_simps)
  have "gd_bitmap (replicate 64 0 @ [b0, b1]) = [b0, b1]" by (simp add: gd_bitmap_def)
  then show "gd_bitmap (ag_gd (demo_group blkno bits free b0 b1)) = [b0, b1]"
    by (simp add: demo_group_def)
qed

lemma demo_mkfs_fields:
  "ms_le demo_mkfs = True" "ms_groups demo_mkfs = [demo_group 4 16 2 0xFD 0xFE, demo_group 32 13 6 0x9F 0xE1]"
  "ab_num_chains (ms_bitmap demo_mkfs) = 2" "ab_unit_bits (ms_bitmap demo_mkfs) = 13"
  "ms_system_group demo_mkfs = demo_group 0 14 5 0xFD 0xC3" "ag_next (demo_group blkno bits free b0 b1) = None"
  by (simp_all add: demo_mkfs_def zero_state_def demo_group_def zero_group_def)

lemma demo_groups:
  "group_base demo_mkfs 0 = 0" "group_base demo_mkfs (Suc 0) = 16"
  "bg_bits_of demo_mkfs 0 = 16" "bg_bits_of demo_mkfs (Suc 0) = 13"
proof -
  have "ms_first_cluster_group_blkno demo_mkfs = 4" "ms_cluster_size_bits demo_mkfs = 13" "ms_blocksize_bits demo_mkfs = 12"
    by (simp_all add: demo_mkfs_def)
  then show "group_base demo_mkfs 0 = 0" "group_base demo_mkfs (Suc 0) = 16"
    "bg_bits_of demo_mkfs 0 = 16" "bg_bits_of demo_mkfs (Suc 0) = 13"
    by (simp_all add: group_base_def bg_bits_of_def demo_mkfs_fields demo_group_gd)
qed

text \<open>
  The first group has two free bits that are not next to each other; the second one is that of
  the clusters from 16 on, and its bits 9 to 11 are taken.
\<close>

theorem alloc_from_bitmap_fresh_witness:
  "\<exists>s'. alloc_from_bitmap 3 demo_mkfs = (Inr (25 * 8192, 3 * 8192), s')
    \<and> \<not> cluster_used demo_mkfs 25 \<and> cluster_used s' 25 \<and> cluster_used s' 27"
proof -
  let ?gs = "ms_groups demo_mkfs"
  have ok: "groups_ok demo_mkfs"
    by (auto simp: groups_ok_def group_sized_def demo_mkfs_fields demo_group_gd)
  have apart: "groups_apart demo_mkfs"
    by (auto simp: groups_apart_def demo_groups demo_mkfs_fields less_Suc_eq)
  have hit: "find_clear_bits [0x9F, 0xE1] 13 3 0 = Some 9" by code_simp
  have "find_in_chain True ?gs 3 0 = Some None" "find_in_chain True ?gs 3 1 = Some (Some (1, 9))"
    using hit by (simp_all add: find_in_chain.simps demo_mkfs_fields demo_group_gd)
  then have "find_in_chains True ?gs 3 [0..<2] = Some (Some (1, 9))" by (simp add: upt_rec)
  then have "\<exists>s'. alloc_from_bitmap 3 demo_mkfs = (Inr (25 * 8192, 3 * 8192), s')"
    by (simp add: alloc_from_bitmap_def demo_mkfs_fields demo_group_gd Let_def)
      (simp add: demo_mkfs_def)
  then obtain s' where run: "alloc_from_bitmap 3 demo_mkfs = (Inr (25 * 8192, 3 * 8192), s')" by blast
  show ?thesis
    using alloc_from_bitmap_fresh [OF ok apart _ run] run by (auto simp: demo_mkfs_fields)
qed

text \<open>
  C32. When the first free run of the inode group is too short and a used bit ends it,
  \<^verbatim>\<open>alloc_from_group\<close> never returns: the search goes on at that bit and stays there, although
  a later run may be long enough. \<open>C_UNDEFINED\<close> stands for the run that does not end.
\<close>

theorem alloc_from_group_never_returns:
  assumes "first_free s f" and "f < j" and "j < f + unat count" and "j < system_bits s"
    and "bit_at (gd_bitmap (system_gd s)) j"
  shows "group_search (gd_bitmap (system_gd s)) (system_bits s) (unat count) f = None
    \<and> alloc_from_group count s = (Inl C_UNDEFINED, s)"
  using alloc_from_group_stuck [OF assms] first_free_start(1) [OF assms(1)]
  by (auto simp: alloc_from_group_def Let_def system_gd_def system_bits_def split: option.splits)

lemma demo_first_free: "first_free demo_mkfs 1" "system_bits demo_mkfs = 14"
  "gd_bitmap (system_gd demo_mkfs) = [0xFD, 0xC3]"
proof -
  show "system_bits demo_mkfs = 14" "gd_bitmap (system_gd demo_mkfs) = [0xFD, 0xC3]"
    by (simp_all add: system_bits_def system_gd_def demo_mkfs_fields demo_group_gd)
  moreover have "bit_at [0xFD, 0xC3] 0" "\<not> bit_at [0xFD, 0xC3] 1" by code_simp+
  ultimately show "first_free demo_mkfs 1"
    by (simp add: first_free_def group_sized_def system_gd_def demo_mkfs_fields demo_group_gd)
qed

text \<open>Bits 10 to 13 are free, but bit 1 is free before them and bit 2 is used.\<close>

theorem alloc_from_group_never_returns_witness:
  "alloc_from_group 4 demo_mkfs = (Inl C_UNDEFINED, demo_mkfs)"
proof -
  have "bit_at [0xFD, 0xC3] 2" by code_simp
  then show ?thesis
    using alloc_from_group_never_returns [OF demo_first_free(1), of 2 4] demo_first_free by simp
qed

text \<open>
  C31. An inode is allocated from the first free bit of the inode group: its block is
  the block of the group plus the number of the bit, the bit is recorded, and afterwards it is
  set, with all other bits as before. No inode is given out twice.
\<close>

theorem alloc_inode_first_free:
  assumes "first_free s f"
  shows "\<exists>s'. alloc_inode s = (Inr (push_bit (ms_blocksize_bits s)
        (ld64 (ms_le s) (system_gd s) o_bg_blkno + of_nat f), of_nat f), s')
    \<and> (\<forall>j. bit_at (gd_bitmap (system_gd s')) j \<longleftrightarrow> bit_at (gd_bitmap (system_gd s)) j \<or> j = f)
    \<and> system_bits s' = system_bits s
    \<and> ld64 (ms_le s') (system_gd s') o_bg_blkno = ld64 (ms_le s) (system_gd s) o_bg_blkno"
proof -
  let ?le = "ms_le s" and ?gd = "system_gd s"
  have "clear_run (gd_bitmap ?gd) (system_bits s) 1 f"
    using assms by (auto simp: clear_run_def first_free_def less_Suc_eq_le dest: le_antisym)
  then have search: "group_search (gd_bitmap ?gd) (system_bits s) 1 f = Some (Some f)"
    by (rule group_search_run [OF assms])
  have sized: "64 \<le> length ?gd" "f + 1 \<le> 8 * length (gd_bitmap ?gd)"
    using assms first_free_start(2) [OF assms]
    by (auto simp: first_free_def group_sized_def system_gd_def)
  let ?gd' = "st16 ?le o_bg_free_bits_count (ld16 ?le ?gd o_bg_free_bits_count - 1) (gd_set_bits f 1 ?gd)"
  have start: "cmfs_find_first_bit_clear (gd_bitmap ?gd) (system_bits s) mod 65536 = f"
    by (rule first_free_start [OF assms])
  obtain s' where run: "alloc_from_group 1 s = (Inr (ld64 ?le ?gd o_bg_blkno + of_nat f), s')"
    and s': "system_gd s' = ?gd'" "ms_le s' = ?le" "ms_blocksize_bits s' = ms_blocksize_bits s"
    using search start
    by (simp add: alloc_from_group_def Let_def system_gd_def system_bits_def upd_rec_def)
  have bits: "bit_at (gd_bitmap ?gd') j \<longleftrightarrow> bit_at (gd_bitmap ?gd) j \<or> j = f" for j
    using bit_at_gd_set_bits [OF sized] sized(1) by auto
  have loads: "ld16 ?le ?gd' o_bg_bits = ld16 ?le ?gd o_bg_bits"
    "ld64 ?le ?gd' o_bg_blkno = ld64 ?le ?gd o_bg_blkno"
    using sized(1) by (simp_all add: buf_simps ldw_gd_set_bits)
  have "(ucast (of_nat f :: u64) :: u16) = of_nat f" by (rule bit_word_eqI) (simp add: bit_simps)
  then have "alloc_inode s = (Inr (push_bit (ms_blocksize_bits s) (ld64 ?le ?gd o_bg_blkno + of_nat f), of_nat f), s')"
    using run s' loads by (simp add: alloc_inode_def bind_io_def get_io_def system_gd_def)
  then show ?thesis using s' bits loads by (simp add: system_bits_def)
qed

theorem alloc_inode_first_free_witness:
  "\<exists>s'. alloc_inode demo_mkfs = (Inr (4096, 1), s')
    \<and> (\<forall>j. bit_at (gd_bitmap (system_gd s')) j \<longleftrightarrow> bit_at [0xFD, 0xC3] j \<or> j = 1)"
proof -
  have "ld64 True (system_gd demo_mkfs) o_bg_blkno = 0"
    by (simp add: system_gd_def demo_mkfs_fields demo_group_gd)
  moreover have "ms_blocksize_bits demo_mkfs = 12" by (simp add: demo_mkfs_def)
  ultimately show ?thesis
    using alloc_inode_first_free [OF demo_first_free(1)] demo_first_free(3) demo_mkfs_fields(1)
    by (auto simp: push_bit_of_1)
qed

end
