(* ===== verification/Params_properties.thy ===== *)
theory Params_properties
  imports Mkfs_format
begin

text \<open>The properties of the numbers and sizes of a run of \<^verbatim>\<open>mkfs.cmfs\<close>.\<close>

section \<open>Powers of two\<close>

lemma fold_last_match:
  assumes "\<forall>i \<in> set xs. P i \<longrightarrow> i = k"
  shows "fold (\<lambda>i b. if P i then i else b) xs b = (if k \<in> set xs \<and> P k then k else b)"
  using assms
proof (induction xs arbitrary: b)
  case (Cons x xs)
  then have IH: "fold (\<lambda>i b. if P i then i else b) xs c = (if k \<in> set xs \<and> P k then k else c)" for c
    by simp
  show ?case
  proof (cases "x = k")
    case True
    then show ?thesis by (cases "P k") (simp_all only: fold_simps IH if_True if_False comp_apply list.set insert_iff simp_thms if_cancel)
  next
    case False
    then have "\<not> P x" using Cons.prems by auto
    then show ?thesis using False by (simp only: fold_simps IH if_False comp_apply list.set insert_iff simp_thms False [symmetric])
  qed
qed simp

lemma unat_push_bit_1: 
  assumes "i < 32" shows "unat (push_bit i (1 :: u32)) = 2 ^ i"
proof -
  have "(2::nat) ^ i < 2 ^ 32" using assms by (intro power_strict_increasing) simp_all
  then show ?thesis
    by (simp only: unsigned_push_bit_eq push_bit_eq_mult [where 'a = nat] take_bit_eq_mod) simp
qed

text \<open>
  \<^verbatim>\<open>get_bits\<close> is the binary logarithm: it gives \<open>k\<close> exactly for \<open>2 ^ k\<close> with
  \<open>0 < k < 32\<close>; for every other number, 1 included, the tool ends.
\<close>

theorem get_bits_log:
  "get_bits num = Some k \<longleftrightarrow> 0 < k \<and> k < 32 \<and> unat num = 2 ^ k"
proof -
  let ?P = "\<lambda>i. num = push_bit i 1"
  let ?xs = "rev [0..<32]"
  have eq: "?P i \<longleftrightarrow> unat num = 2 ^ i" if "i < 32" for i
    using unat_push_bit_1 [OF that] by (metis word_unat_eq_iff)
  have uniq: "i = j" if "i < 32" "j < 32" "?P i" "?P j" for i j
    using that eq [of i] eq [of j] power_inject_exp [of "2::nat" i j] by simp
  define bits where "bits = fold (\<lambda>i b. if ?P i then i else b) ?xs 0"
  have one: "bits = (if j \<in> set ?xs \<and> ?P j then j else 0)" if "\<forall>i \<in> set ?xs. ?P i \<longrightarrow> i = j" for j
    unfolding bits_def by (rule fold_last_match [OF that])
  have gb: "get_bits num = (if bits = 0 then None else Some bits)"
    unfolding get_bits_def Let_def bits_def [symmetric] by (rule refl)
  show ?thesis
  proof (cases "\<exists>j < 32. ?P j")
    case True
    then obtain j where j: "j < 32" "?P j" by blast
    have "\<forall>i \<in> set ?xs. ?P i \<longrightarrow> i = j" using uniq j by (metis atLeastLessThan_iff set_rev set_upt)
    then have bits: "bits = j" using one [of j] j by (simp del: set_rev add: set_rev)
    have "unat num = 2 ^ j" using eq [OF j(1)] j(2) by blast
    then have "unat num = 2 ^ k \<longleftrightarrow> k = j" by auto
    moreover have "get_bits num = (if j = 0 then None else Some j)" using gb bits by simp
    ultimately show ?thesis using j(1) by (cases "j = 0") auto
  next
    case False
    then have "bits = 0" using one [of 32] by (simp del: upt_rec_numeral) 
    then show ?thesis using False eq gb by (auto split: if_splits)
  qed
qed

section \<open>Sizes given on the command line\<close>

lemma unat_double:
  assumes "unat (lo :: u64) < 2 ^ 62"
  shows "unat (push_bit 1 lo) = 2 * unat lo"
proof -
  have "unat (push_bit 1 lo) = (2 * unat lo) mod 2 ^ 64"
    by (simp only: unsigned_push_bit_eq push_bit_eq_mult [where 'a = nat] take_bit_eq_mod) (simp add: mult.commute)
  then show ?thesis using assms by simp
qed

lemma valid_size_loop_cases:
  assumes "lo \<le> hi"
  shows "lo = num \<Longrightarrow> valid_size_loop num lo hi tmp = Some num"
    and "lo < num \<Longrightarrow> valid_size_loop num lo hi tmp = valid_size_loop num (push_bit 1 lo) hi lo"
    and "num < lo \<Longrightarrow> valid_size_loop num lo hi tmp = Some tmp"
proof -
  show "lo = num \<Longrightarrow> valid_size_loop num lo hi tmp = Some num"
    using assms by (subst valid_size_loop.simps) simp
  show "lo < num \<Longrightarrow> valid_size_loop num lo hi tmp = valid_size_loop num (push_bit 1 lo) hi lo"
    using assms by (subst valid_size_loop.simps) auto
  show "num < lo \<Longrightarrow> valid_size_loop num lo hi tmp = Some tmp"
    using assms by (subst valid_size_loop.simps) auto
qed

lemma valid_size_loop_step:
  assumes "unat lo = 2 * unat tmp" and "0 < unat tmp" and "unat hi < 2 ^ 62"
    and "unat tmp \<le> unat hi" and "unat tmp < unat num"
  shows "\<exists>v k. valid_size_loop num lo hi tmp = Some v \<and> unat v = unat tmp * 2 ^ k
    \<and> unat v \<le> min (unat num) (unat hi) \<and> min (unat num) (unat hi) < 2 * unat v"
  using assms
proof (induction "unat hi - unat tmp" arbitrary: tmp lo rule: less_induct)
  case less
  consider "hi < lo" | "lo \<le> hi" "lo = num" | "lo \<le> hi" "num < lo" | "lo \<le> hi" "lo < num"
    by (meson linorder_less_linear not_le)
  then show ?case
  proof cases
    case 1
    then have "\<not> lo \<le> hi" by simp
    then have "valid_size_loop num lo hi tmp = Some tmp" by (subst valid_size_loop.simps) simp
    moreover have "min (unat num) (unat hi) < 2 * unat tmp"
      using 1 less.prems(1) by (simp add: word_less_nat_alt)
    ultimately show ?thesis using less.prems(4,5) by (intro exI [of _ tmp] exI [of _ 0]) simp
  next
    case 2
    then show ?thesis using valid_size_loop_cases(1) [OF 2] less.prems
      by (intro exI [of _ num] exI [of _ 1]) (simp add: word_le_nat_alt)
  next
    case 3
    then have "min (unat num) (unat hi) < 2 * unat tmp"
      using less.prems(1) by (simp add: word_less_nat_alt)
    then show ?thesis using valid_size_loop_cases(3) [OF 3] less.prems(4,5)
      by (intro exI [of _ tmp] exI [of _ 0]) simp
  next
    case 4
    have lo: "unat lo \<le> unat hi" "unat lo < unat num"
      using 4 by (simp_all add: word_le_nat_alt word_less_nat_alt)
    have up: "unat (push_bit 1 lo) = 2 * unat lo" using lo(1) less.prems(3) by (intro unat_double) simp
    have "\<exists>v k. valid_size_loop num (push_bit 1 lo) hi lo = Some v \<and> unat v = unat lo * 2 ^ k
      \<and> unat v \<le> min (unat num) (unat hi) \<and> min (unat num) (unat hi) < 2 * unat v"
      by (rule less.hyps) (use less.prems lo up in auto)
    then obtain v k where v: "valid_size_loop num (push_bit 1 lo) hi lo = Some v"
      "unat v = unat lo * 2 ^ k"
      "unat v \<le> min (unat num) (unat hi) \<and> min (unat num) (unat hi) < 2 * unat v" by blast
    have "unat v = unat tmp * 2 ^ Suc k" using v(2) less.prems(1) by simp
    then show ?thesis using valid_size_loop_cases(2) [OF 4] v(1,3) by metis
  qed
qed

text \<open>
  C35. \<^verbatim>\<open>get_valid_size\<close> returns, for bounds below \<open>2 ^ 62\<close>: it rounds a number down to the
  lower bound times a power of two, the largest such value within the upper bound.
\<close>

theorem get_valid_size_rounds:
  assumes "0 < unat lo" and "unat lo \<le> unat hi" and "unat hi < 2 ^ 62" and "unat lo \<le> unat num"
  shows "\<exists>v k. get_valid_size num lo hi = Some v \<and> unat v = unat lo * 2 ^ k
    \<and> unat v \<le> min (unat num) (unat hi) \<and> min (unat num) (unat hi) < 2 * unat v"
proof (cases "lo = num")
  case True
  have "get_valid_size num lo hi = Some num"
    unfolding get_valid_size_def
    by (rule valid_size_loop_cases) (use assms(2) True in \<open>simp_all add: word_le_nat_alt\<close>)
  then show ?thesis using True assms by (intro exI [of _ num] exI [of _ 0]) simp
next
  case False
  then have lt: "unat lo < unat num" using assms(4) by (simp add: word_unat_eq_iff)
  have up: "unat (push_bit 1 lo) = 2 * unat lo" using assms(2,3) by (intro unat_double) simp
  have "get_valid_size num lo hi = valid_size_loop num (push_bit 1 lo) hi lo"
    unfolding get_valid_size_def
    by (rule valid_size_loop_cases) (use assms(2) lt in \<open>simp_all add: word_le_nat_alt word_less_nat_alt\<close>)
  then show ?thesis using valid_size_loop_step [OF up assms(1,3,2) lt] by metis
qed

theorem get_valid_size_rounds_witness:
  "\<exists>v k. get_valid_size 100000 4096 33554432 = Some v \<and> unat v = 4096 * 2 ^ k
    \<and> unat v \<le> 100000 \<and> 100000 < 2 * unat v"
  using get_valid_size_rounds [of 4096 33554432 100000] by simp

section \<open>Rounding to clusters\<close>

lemma mult_floor:
  assumes "0 < (c :: nat)"
  shows "c dvd c * (x div c)" and "c * (x div c) \<le> x" and "x < c * (x div c) + c"
proof -
  have "c * (x div c) + x mod c = x" by simp
  moreover have "x mod c < c" using assms by simp
  ultimately show "c * (x div c) \<le> x" and "x < c * (x div c) + c" by linarith+
qed simp

lemma last_multiple:
  assumes "0 < (c :: nat)" and "0 < q"
  shows "c * ((c * q - 1) div c) + c = c * q"
proof -
  let ?d = "(c * q - 1) div c"
  note f = mult_floor [OF assms(1), of "c * q - 1"]
  have "0 < c * q" using assms by simp
  then have "c * ?d < c * q" and "c * q \<le> c * (?d + 1)" using f(2,3) by (linarith, simp)
  then have "?d < q" and "q \<le> ?d + 1" using assms(1) by (simp_all only: mult_less_cancel1 mult_le_cancel1)
  then have "?d + 1 = q" by simp
  then show ?thesis by (metis distrib_left mult.right_neutral)
qed

lemma unat_shift_down_up:
  assumes "b < 64"
  shows "unat (push_bit b (drop_bit b (r :: u64))) = 2 ^ b * (unat r div 2 ^ b)"
proof -
  have "2 ^ b * (unat r div 2 ^ b) \<le> unat r" by (rule mult_floor) simp
  then have "2 ^ b * (unat r div 2 ^ b) < 2 ^ 64" using unat_u64_less [of r]
    by (rule order_le_less_trans [THEN order_less_le_trans]) simp
  then show ?thesis
    by (simp only: unsigned_push_bit_eq push_bit_eq_mult [where 'a = nat] take_bit_eq_mod unat_drop_bit)
      (simp add: mult.commute)
qed

text \<open>
  Rounding a size up to clusters gives the least multiple of the cluster size that is not
  smaller, unless the sum passes \<open>2 ^ 64\<close>; then the result is the largest multiple below
  \<open>2 ^ 64\<close>, which may be smaller than the size.
\<close>

theorem align_to_clusters:
  assumes "unat (ms_cluster_size s) = 2 ^ ms_cluster_size_bits s"
  shows "let cs = 2 ^ ms_cluster_size_bits s; r = unat (align_bytes_to_clusters_ceil s bytes) in
    cs dvd r \<and> (if unat bytes + cs - 1 < 2 ^ 64 then unat bytes \<le> r \<and> r < unat bytes + cs
                else r + cs = 2 ^ 64)"
proof -
  let ?b = "ms_cluster_size_bits s"
  let ?cs = "(2 :: nat) ^ ?b"
  have cs32: "?cs < 2 ^ 32" using unat_u32_less [of "ms_cluster_size s"] assms by simp
  then have b: "?b < 32" by (rule power_less_imp_less_exp [rotated]) simp
  have uc: "unat (ucast (ms_cluster_size s) :: u64) = ?cs" by (simp add: unat_ucast_u64 assms)
  have bytes: "unat bytes < 2 ^ 64" using unat_u64_less [of bytes] by simp
  define w where "w = ucast (ms_cluster_size s) - (1 :: u64)"
  have w: "unat w = ?cs - 1"
    unfolding w_def by (subst unat_sub) (simp_all add: word_le_nat_alt uc)
  have sum: "bytes + ucast (ms_cluster_size s) - 1 = bytes + w" by (simp add: w_def)
  define r where "r = (if bytes + w < bytes then UINT64_MAX else bytes + w)"
  have cmp: "bytes + w < bytes \<longleftrightarrow> \<not> unat bytes + ?cs - 1 < 2 ^ 64"
  proof (cases "unat bytes + ?cs - 1 < 2 ^ 64")
    case True
    then have "unat (bytes + w) = unat bytes + unat w" by (simp add: unat_word_ariths w)
    then show ?thesis using True by (simp add: word_less_nat_alt)
  next
    case False
    have "unat (bytes + w) = (unat bytes + (?cs - 1)) mod 2 ^ 64" by (simp add: unat_word_ariths w)
    also have "\<dots> = unat bytes + (?cs - 1) - 2 ^ 64"
      using False bytes cs32 by (subst mod_if) (simp add: mod_if)
    also have "\<dots> < unat bytes" using False bytes cs32 by simp
    finally show ?thesis using False by (simp add: word_less_nat_alt)
  qed
  have r: "unat r = (if unat bytes + ?cs - 1 < 2 ^ 64 then unat bytes + ?cs - 1 else 2 ^ 64 - 1)"
    using cmp by (simp add: r_def unat_word_ariths w)
  have res: "unat (align_bytes_to_clusters_ceil s bytes) = ?cs * (unat r div ?cs)"
    using b unat_shift_down_up [of ?b r]
    by (simp add: align_bytes_to_clusters_ceil_def sum r_def [symmetric] Let_def)
  show ?thesis
  proof (cases "unat bytes + ?cs - 1 < 2 ^ 64")
    case True
    have "0 < ?cs" by simp
    note f = mult_floor [OF this, of "unat r"]
    have sr: "unat r + 1 = unat bytes + ?cs" using r True by simp
    have "unat bytes \<le> ?cs * (unat r div ?cs)" "?cs * (unat r div ?cs) < unat bytes + ?cs"
      using f(2,3) sr by linarith+
    then show ?thesis using f(1) True by (simp add: Let_def res)
  next
    case False
    have "(2 :: nat) ^ 64 = ?cs * 2 ^ (64 - ?b)" using b by (simp flip: power_add)
    then have "?cs * ((2 ^ 64 - 1) div ?cs) + ?cs = 2 ^ 64" using last_multiple [of ?cs "2 ^ (64 - ?b)"] by simp
    then show ?thesis using False by (simp add: Let_def res r)
  qed
qed

theorem align_to_clusters_witness:
  "\<exists>s :: mkfs_state. unat (align_bytes_to_clusters_ceil s 10000) = 12288"
proof -
  fix s0 :: mkfs_state
  let ?s = "s0\<lparr>ms_cluster_size := 4096, ms_cluster_size_bits := 12\<rparr>"
  let ?r = "unat (align_bytes_to_clusters_ceil ?s 10000)"
  have "4096 dvd ?r \<and> 10000 \<le> ?r \<and> ?r < 14096"
    using align_to_clusters [of ?s 10000] by (simp add: Let_def)
  then obtain k where "?r = 4096 * k" "10000 \<le> 4096 * k" "4096 * k < 14096" by (metis dvd_def)
  moreover from this have "k = 3" by arith
  ultimately have "?r = 12288" by simp
  then show ?thesis by blast
qed

section \<open>Numbers on the command line\<close>

text \<open>The decimal digits of a number, as a user types them.\<close>

definition digit_char :: "nat \<Rightarrow> char" where
  "digit_char d = ''0123456789'' ! d"

fun decimal :: "nat \<Rightarrow> string" where
  "decimal n = (if n < 10 then [digit_char n] else decimal (n div 10) @ [digit_char (n mod 10)])"

declare decimal.simps [simp del]

lemma less_10_cases: "(d :: nat) < 10 \<Longrightarrow> d \<in> {0, 1, 2, 3, 4, 5, 6, 7, 8, 9}"
  by auto

lemma digit_of_decimal: "d < 10 \<Longrightarrow> digit_of 10 (digit_char d) = Some d"
  and digit_char_plain: "d < 10 \<Longrightarrow> \<not> is_space (digit_char d) \<and> digit_char d \<noteq> CHR ''-'' \<and> digit_char d \<noteq> CHR ''+''"
  and digit_char_nonzero: "d < 10 \<Longrightarrow> 0 < d \<Longrightarrow> digit_char d \<noteq> CHR ''0''"
  by (drule less_10_cases, auto simp: digit_of_def digit_char_def is_space_def)+

lemma digits_decimal: "digits 10 0 (decimal n @ r) = digits 10 n r"
proof (induction n arbitrary: r rule: decimal.induct)
  case (1 n)
  then show ?case
    by (cases "n < 10") (simp_all add: decimal.simps [of n] digit_of_decimal)
qed

lemma decimal_head:
  "n = 0 \<and> decimal n = ''0'' \<or> (\<exists>d cs. decimal n = digit_char d # cs \<and> 0 < d \<and> d < 10)"
proof (induction n rule: decimal.induct)
  case (1 n)
  show ?case
  proof (cases "n < 10")
    case False
    then have "0 < n div 10" by (simp add: div_greater_zero_iff)
    with False show ?thesis using 1 by (auto simp: decimal.simps [of n])
  next
    case True
    then have "decimal n = [digit_char n]" by (simp add: decimal.simps [of n])
    then show ?thesis using True by (cases "n = 0") (simp add: digit_char_def, blast)
  qed
qed

lemma strtoul0_decimal:
  assumes "r = [] \<or> r = [c] \<and> c \<in> set ''kKmMgGbB''"
  shows "strtoul0 (decimal n @ r) = Some (if n \<ge> 2 ^ 64 then UINT64_MAX else of_nat n, r)"
proof (cases "n = 0")
  case True
  have d: "decimal 0 = ''0''" by (simp add: decimal.simps digit_char_def)
  have s: "\<not> is_space (CHR ''0'')" by (simp add: is_space_def)
  show ?thesis using assms
    by (auto simp: True d strtoul0_def s digit_of_def)
next
  case False
  then obtain d cs where d: "decimal n = digit_char d # cs" "0 < d" "d < 10"
    using decimal_head [of n] by auto
  note p = digit_char_plain [OF d(3)] digit_char_nonzero [OF d(3,2)]
  have e: "digits 10 n r = (n, r)" using assms by (auto simp: digit_of_def)
  have "digits 10 0 (digit_char d # cs @ r) = (n, r)" using digits_decimal [of n r] e d(1) by simp
  moreover have "r \<noteq> digit_char d # cs @ r" by (metis append_Cons append_Nil append_same_eq list.discI)
  ultimately show ?thesis using p by (simp add: strtoul0_def d(1) Let_def del: digits.simps)
qed

definition suffix_factor :: "string \<Rightarrow> nat" where
  "suffix_factor r = (if r \<in> {''k'', ''K''} then 2 ^ 10 else if r \<in> {''m'', ''M''} then 2 ^ 20
                      else if r \<in> {''g'', ''G''} then 2 ^ 30 else 1)"

text \<open>
  C38. A decimal number below \<open>2 ^ 64 - 1\<close> with or without a unit is read as the number times
  the unit, modulo \<open>2 ^ 64\<close>; larger numbers are refused.
\<close>

theorem get_number_decimal:
  assumes "r = [] \<or> (\<exists>c \<in> set ''kKmMgGbB''. r = [c])"
  shows "get_number (decimal n @ r) = (if n < 2 ^ 64 - 1 then Some (of_nat (n * suffix_factor r)) else None)"
proof -
  obtain c where c: "r = [] \<or> r = [c] \<and> c \<in> set ''kKmMgGbB''" using assms by auto
  have m: "of_nat n = UINT64_MAX \<longleftrightarrow> n = 2 ^ 64 - 1" if "n < 2 ^ 64"
    using unat_of_nat_u64 [OF that] by (auto simp: word_unat_eq_iff)
  show ?thesis
  proof (cases "n < 2 ^ 64 - 1")
    case True
    then have w: "of_nat n \<noteq> UINT64_MAX" and lt: "\<not> n \<ge> 2 ^ 64" using m by simp_all
    define x where "x = (of_nat n :: u64)"
    have e: "strtoul0 (decimal n @ r) = Some (x, r)"
      using strtoul0_decimal [OF c, of n] lt by (simp add: x_def)
    have x: "of_nat (n * k) = x * of_nat k" for k by (simp add: x_def)
    have "r = [] \<or> r = ''k'' \<or> r = ''K'' \<or> r = ''m'' \<or> r = ''M'' \<or> r = ''g'' \<or> r = ''G'' \<or> r = ''b'' \<or> r = ''B''"
      using c by auto
    then have "get_number (decimal n @ r) = Some (of_nat (n * suffix_factor r))"
      unfolding get_number_def e x using w [folded x_def]
      by (elim disjE) (simp_all add: suffix_factor_def)
    then show ?thesis using True by simp
  next
    case False
    then have "(if n \<ge> 2 ^ 64 then UINT64_MAX else of_nat n) = UINT64_MAX" using m by auto
    then show ?thesis using False by (simp only: get_number_def strtoul0_decimal [OF c]) simp
  qed
qed

theorem get_number_decimal_witness:
  "get_number ''18014398509481985k'' = Some 1024"
proof -
  have d: "decimal 18014398509481985 = ''18014398509481985''"
    by (simp add: decimal.simps digit_char_def)
  show ?thesis
    using get_number_decimal [of "''k''" 18014398509481985] by (simp add: d suffix_factor_def)
qed


section \<open>The identifier of the volume\<close>

lemma fold_option_None: "fold (\<lambda>i st. case st of None \<Rightarrow> None | Some x \<Rightarrow> f i x) is None = None"
  by (induction "is") simp_all

text \<open>
  An identifier of 32 characters after \<^verbatim>\<open>-U\<close> makes \<^verbatim>\<open>translate_uuid\<close> write past the
  end of the string, because it stores the characters into the buffer they come from.
\<close>

theorem uuid_of_32_characters:
  assumes "length uuid = 32"
  shows "uuid_argument env (Some uuid) = Inl C_UNDEFINED"
proof -
  let ?step = "\<lambda>i (cp :: nat, a :: string, b :: string).
      if i = 8 \<or> i = 13 \<or> i = 18 \<or> i = 23 then
        (if i < length b then Some (cp, a, b[i := CHR ''-'']) else None)
      else if i < length a \<and> cp < length a then Some (cp + 1, a[i := a ! cp], b) else None"
  let ?run = "\<lambda>is st. fold (\<lambda>i st. case st of None \<Rightarrow> None | Some x \<Rightarrow> ?step i x) is st"
  have len: "length a = n" if "?run is (Some (cp0, a0, b0)) = Some (cp, a, b)" "length a0 = n" for "is" cp0 a0 b0 cp a b n
    using that
  proof (induction "is" arbitrary: cp0 a0 b0)
    case (Cons i js)
    obtain cp1 a1 b1 where "?step i (cp0, a0, b0) = Some (cp1, a1, b1)" "?run js (Some (cp1, a1, b1)) = Some (cp, a, b)"
      using Cons.prems(1) by (cases "?step i (cp0, a0, b0)") (auto simp: fold_option_None split: if_splits)
    moreover from this(1) have "length a1 = n" using Cons.prems(2) by (auto split: if_splits)
    ultimately show ?case using Cons.IH by blast
  qed simp
  have upt: "[0..<36] = [0..<33] @ [33, 34, 35]" by (simp add: upt_rec)
  have none: "?run [0..<36] (Some (0, uuid @ [CHR 0x00], replicate 37 (CHR 0x00))) = None"
  proof (cases "?run [0..<33] (Some (0, uuid @ [CHR 0x00], replicate 37 (CHR 0x00)))")
    case None
    then show ?thesis by (simp only: upt fold_append comp_apply fold_option_None)
  next
    case (Some x)
    obtain cp a b where x: "x = (cp, a, b)" by (cases x)
    then have "length a = 33" using len [of "[0..<33]"] Some assms by simp
    then show ?thesis using Some by (simp only: upt fold_append comp_apply x) simp
  qed
  have "translate_uuid (uuid @ [CHR 0x00]) (replicate 37 (CHR 0x00)) = None"
    unfolding translate_uuid_def map_option_is_None using none by (simp only: case_prod_beta split_def)
  then show ?thesis using assms by (simp add: uuid_argument_def)
qed

theorem uuid_of_32_characters_witness:
  "\<forall>env. uuid_argument env (Some ''178BDC83D50241EF94EB474A677D498B'') = Inl C_UNDEFINED"
  by (intro allI uuid_of_32_characters) simp

section \<open>Cluster groups\<close>

lemma ceiling_div_partition:
  assumes "0 < (c :: nat)" and "0 < n"
  shows "((n + c - 1) div c - 1) * c + (if n mod c = 0 then c else n mod c) = n"
    and "0 < (n + c - 1) div c"
proof -
  have "(n + c - 1) div c = (n - 1) div c + 1" using assms by (metis Suc_pred' add.commute add_Suc_right diff_Suc_1 div_add_self2 plus_1_eq_Suc not_gr_zero)
  moreover have "(n - 1) div c * c + (if n mod c = 0 then c else n mod c) = n"
  proof -
    have "(n - 1) div c = (if n mod c = 0 then n div c - 1 else n div c)"
      using assms div_Suc [of "n - 1" c] by (auto split: if_splits)
    moreover have "n div c * c + n mod c = n" by simp
    moreover have "c \<le> n" if "n mod c = 0" using that assms by (metis dvd_imp_le mod_0_imp_dvd)
    moreover have "(n div c - 1) * c + c = n" if "n mod c = 0"
      using that assms by (metis add.commute div_greater_zero_iff dvd_div_mult_self mod_0_imp_dvd calculation(3) mult_eq_if not_gr_zero)
    ultimately show ?thesis by auto
  qed
  ultimately show "((n + c - 1) div c - 1) * c + (if n mod c = 0 then c else n mod c) = n"
    and "0 < (n + c - 1) div c" by simp_all
qed

lemma unat_ceil_div:
  assumes "unat c = k" and "0 < k" and "unat x + k < 2 ^ 64"
  shows "unat (((x :: u64) + c - 1) div c) = (unat x + k - 1) div k"
proof -
  have "unat (x + c) = unat x + k" using assms by (simp add: unat_word_ariths)
  moreover from this have "1 \<le> x + c" using assms(2) by (simp add: word_le_nat_alt)
  ultimately have "unat (x + c - 1) = unat x + k - 1" by (simp add: unat_sub)
  then show ?thesis by (simp add: unat_div_distrib assms(1))
qed

lemma calc_cluster_groups_nat:
  fixes clusters :: u64 and blocksize :: u64
  defines "m \<equiv> 8 * (unat blocksize - 64)"
  assumes "64 < unat blocksize" and "unat blocksize \<le> 4096" and "0 < unat clusters"
    and "unat clusters \<le> (2 ^ 32 - 1) * m"
  shows "\<exists>g. cmfs_calc_cluster_groups clusters blocksize = Some g
    \<and> unat (cgs_cpg g) = min m (unat clusters)
    \<and> unat (cgs_cluster_groups g) = (unat clusters + min m (unat clusters) - 1) div min m (unat clusters)
    \<and> unat (cgs_tail_group_bits g) = (if unat clusters mod min m (unat clusters) = 0
         then min m (unat clusters) else unat clusters mod min m (unat clusters))"
proof -
  define n where "n = unat clusters"
  define c where "c = min m n"
  have m: "0 < m" "m < 2 ^ 16" and n: "0 < n" "n \<le> (2 ^ 32 - 1) * m" using assms by (simp_all add: m_def n_def)
  then have c: "0 < c" "c \<le> m" "c < 2 ^ 16" by (auto simp: c_def)
  have mb: "of_int (8 * cmfs_group_bitmap_size (uint blocksize)) = (of_nat m :: u32)"
    using assms(2) unfolding m_def
    by (simp add: cmfs_group_bitmap_size_def uint_nat of_nat_diff del: of_nat_unat)
  have um: "unat (of_nat m :: u32) = m" using m by (intro unat_of_nat_u32) simp
  have lt: "(ucast (of_nat m :: u32) :: u64) > clusters \<longleftrightarrow> n < m"
    by (simp add: word_less_nat_alt unat_ucast_u64 um n_def)
  define cpg where "cpg = (if (ucast (of_nat m :: u32) :: u64) > clusters then ucast clusters
    else ucast (of_nat m :: u32) :: u16)"
  have cpg: "unat cpg = c"
    using m lt by (auto simp: cpg_def c_def n_def unsigned_ucast_eq um take_bit_nat_eq_self min_def)
  have cpg64: "unat (ucast cpg :: u64) = c" using c by (simp add: unsigned_ucast_eq cpg take_bit_nat_eq_self)
  let ?t = "ucast (clusters mod ucast cpg) :: u16"
  have mod: "n mod c < c" using c by simp
  have "unat (clusters mod ucast cpg) = n mod c" by (simp only: unat_mod_distrib cpg64 n_def)
  then have t: "unat ?t = n mod c" using mod c(3) by (simp add: unsigned_ucast_eq take_bit_nat_eq_self)
  have nc: "n + c < 2 ^ 64"
  proof -
    have "n \<le> (2 ^ 32 - 1) * 2 ^ 16" using n(2) m(2) by (simp add: order_trans [OF _ mult_le_mono2])
    then show ?thesis using c by simp
  qed
  have g: "unat ((clusters + ucast cpg - 1) div ucast cpg) = (n + c - 1) div c"
    unfolding n_def by (rule unat_ceil_div) (use cpg64 c nc in \<open>simp_all add: n_def\<close>)
  have "(n + c - 1) div c < 2 ^ 32"
  proof (cases "n < m")
    case True
    then have "c = n" by (simp add: c_def)
    then show ?thesis using n(1) by (simp add: div_less_iff_less_mult)
  next
    case False
    then have "c = m" by (simp add: c_def)
    moreover have "n + m - 1 < 2 ^ 32 * m" using n m by (simp add: algebra_simps)
    ultimately show ?thesis using c by (simp add: div_less_iff_less_mult)
  qed
  then have ug: "unat (ucast ((clusters + ucast cpg - 1) div ucast cpg) :: u32) = (n + c - 1) div c"
    by (simp add: unsigned_ucast_eq g take_bit_nat_eq_self)
  have nz: "cpg \<noteq> 0" using cpg c by auto
  let ?g = "\<lparr> cgs_cpg = cpg, cgs_tail_group_bits = (if ?t = 0 then cpg else ?t),
    cgs_cluster_groups = ucast ((clusters + ucast cpg - 1) div ucast cpg) \<rparr>"
  have "cmfs_calc_cluster_groups clusters blocksize = Some ?g"
    using nz by (simp only: cmfs_calc_cluster_groups_def Let_def mb cpg_def [symmetric] if_False)
  moreover have "unat (cgs_tail_group_bits ?g) = (if n mod c = 0 then c else n mod c)"
    using t cpg by (auto simp: word_unat_eq_iff)
  ultimately show ?thesis using cpg ug by (simp add: n_def [symmetric] c_def [symmetric])
qed

text \<open>
  C33. The clusters of a volume are divided into groups of one size and a last group that is
  not empty and not larger, which together hold exactly the clusters.
\<close>

theorem cluster_groups_partition:
  assumes "64 < unat blocksize" and "unat blocksize \<le> 4096" and "0 < unat clusters"
    and "unat clusters \<le> (2 ^ 32 - 1) * (8 * (unat blocksize - 64))"
  shows "\<exists>g. cmfs_calc_cluster_groups clusters blocksize = Some g
    \<and> 0 < cgs_cluster_groups g \<and> 0 < cgs_tail_group_bits g \<and> cgs_tail_group_bits g \<le> cgs_cpg g
    \<and> unat (cgs_cpg g) \<le> 8 * (unat blocksize - 64)
    \<and> (unat (cgs_cluster_groups g) - 1) * unat (cgs_cpg g) + unat (cgs_tail_group_bits g) = unat clusters"
proof -
  let ?m = "8 * (unat blocksize - 64)" and ?n = "unat clusters"
  let ?c = "min ?m ?n"
  obtain g where g: "cmfs_calc_cluster_groups clusters blocksize = Some g" "unat (cgs_cpg g) = ?c"
    "unat (cgs_cluster_groups g) = (?n + ?c - 1) div ?c"
    "unat (cgs_tail_group_bits g) = (if ?n mod ?c = 0 then ?c else ?n mod ?c)"
    using calc_cluster_groups_nat [OF assms] by blast
  have c: "0 < ?c" using assms(1,3) by simp
  note part = ceiling_div_partition [OF c assms(3)]
  have "?n mod ?c < ?c" using c by (rule mod_less_divisor)
  then have "0 < cgs_tail_group_bits g \<and> cgs_tail_group_bits g \<le> cgs_cpg g"
    unfolding word_less_nat_alt word_le_nat_alt g using c by auto
  moreover have "0 < cgs_cluster_groups g" using part(2) g(3) by (simp add: word_less_nat_alt)
  moreover have "(unat (cgs_cluster_groups g) - 1) * unat (cgs_cpg g) + unat (cgs_tail_group_bits g) = ?n"
    unfolding g using part(1) .
  ultimately show ?thesis using g(1,2) by auto
qed

theorem cluster_groups_partition_witness:
  "\<exists>g. cmfs_calc_cluster_groups 100000 4096 = Some g
    \<and> (unat (cgs_cluster_groups g) - 1) * unat (cgs_cpg g) + unat (cgs_tail_group_bits g) = 100000"
  using cluster_groups_partition [of 4096 100000] by auto

end
