(* ===== verification/Spec2Isabelle.thy ===== *)
theory Spec2Isabelle
  imports Bitmap Io_failures Unix_vec Unix_share System_files Messages Member_offset Scandisk_properties Debugfs_properties
    Directory_properties Superblock Layout_properties File_properties Bit_properties Allocation
    Params_properties Mkfs_format Byteorder_Inode Feature Namei
begin

text \<open>
  A model of the cmfs tools: the library libcmfs, which reads and writes the on-disk structures
  of the cmfs file system, the tools \<^verbatim>\<open>mkfs.cmfs\<close> and \<^verbatim>\<open>debugfs.cmfs\<close> above it, the helpers of
  libtools-internal and the program of \<^verbatim>\<open>misc/\<close>. All paths below are relative to \<^verbatim>\<open>src/cmfs-tools/\<close>.

  \<^bold>\<open>How the program is put together.\<close> A tool opens a device as an I/O channel, which may have a
  cache of blocks with a red-black tree as its index; on the channel stands an open file system,
  which reads inodes, extent blocks, group descriptors and directory blocks and converts them to
  the byte order of the CPU; extent trees map the blocks of a file to blocks of the device, the
  iterators and the extent map walk them, and file reading, directory walks, lookups and path
  names build on these. \<^verbatim>\<open>mkfs.cmfs\<close> computes the geometry, allocates clusters and inodes from
  bitmaps in memory, fills directories and writes everything through the channel; \<^verbatim>\<open>debugfs.cmfs\<close>
  is a session of commands that read, and with \<^verbatim>\<open>-w\<close> write, an open file system.

  \<^bold>\<open>Conventions.\<close> Integers are words of their width in C, or \<open>int\<close> and \<open>nat\<close> where the width plays
  no part. Where an \<^verbatim>\<open>int\<close> can overflow (the size of an I/O request, of a directory that mkfs fills) it is
  an \<open>int\<close> cut to 32 bits by \<open>c_int\<close>, as the compiled code computes it; \<open>request_fits\<close> and
  \<open>read_fits\<close> say that a request stays below \<open>2 ^ 31\<close> bytes. A block or buffer is the list of its bytes, and structures are read from it at the
  offsets of the C layout, on a CPU of either byte order (\<open>Layout\<close>). An operation is a function
  from a state to an error or a result and the state it leaves (\<open>('s, 'a) io\<close> in \<open>Prelude\<close>); an error
  keeps the changes made before it. \<open>C_UNDEFINED\<close> marks a run that has no meaning in C or never
  returns: an access outside an object, a failed assertion, \<^verbatim>\<open>abort\<close>; \<open>EXIT\<close> a tool that has ended
  the process. Loops are functions with a measure, or \<open>partial_function (option)\<close> where the code may
  run forever; no fuel is used anywhere. What the code does not control is an argument: the
  outcome of system calls and allocations (\<open>dev_script\<close> and \<open>heap_script\<close> in \<open>io_channel\<close>), the device
  files (\<open>device_env\<close>), the kernel AIO interface (\<open>aio_env\<close>), the terminal (\<open>tools_env\<close>), the files
  below \<^verbatim>\<open>/dev\<close>, \<^verbatim>\<open>/proc\<close> and \<^verbatim>\<open>/sys\<close> (\<open>scan_env\<close>), the environment of the tools (\<open>mkfs_env\<close>,
  \<open>dbgfs_env\<close>).

  \<^bold>\<open>Theories and sources.\<close>
  \<^item> \<open>Prelude\<close>, \<open>Clib\<close>: error codes, the monad, generic lemmas; functions of the C library.
  \<^item> \<open>Layout\<close>, \<open>Layout_properties\<close>, \<open>Buffers\<close>, \<open>System_files\<close> (\<^verbatim>\<open>include/cmfs-kernel/cmfs_fs.h\<close>): each
    structure as a record with its table of members; the offsets follow from the layout rules;
    the table of the system files. \<open>Member_offset\<close> (\<^verbatim>\<open>misc/member_offset.c\<close>) prints these tables and
    is compared with \<^verbatim>\<open>misc/member_offset.txt\<close>.
  \<^item> \<open>Byteorder\<close>, \<open>Byteorder_Inode\<close>: the \<^verbatim>\<open>cmfs_swap_...\<close> functions of \<^verbatim>\<open>libcmfs/inode.c\<close>, \<^verbatim>\<open>extents.c\<close>,
    \<^verbatim>\<open>chain.c\<close> and \<^verbatim>\<open>dirblock.c\<close>.
  \<^item> \<open>Bitops\<close>, \<open>Bit_properties\<close> (\<^verbatim>\<open>libcmfs/bitops.c\<close>): bitmaps; the locale \<open>next_bit\<close> is the contract of the
    two searches.
  \<^item> \<open>Rbtree\<close> (\<^verbatim>\<open>libcmfs/kernel-rbtree.c\<close>): a node with its parent pointers is a cursor, a subtree
    with the path above it. \<open>Bitmap\<close> (\<^verbatim>\<open>libcmfs/bitmap.c\<close>) empties such a tree.
  \<^item> \<open>Unix_io\<close>, \<open>Cache\<close>, \<open>Transfers\<close>, \<open>Io_failures\<close>, \<open>Unix_vec\<close>, \<open>Unix_share\<close> (\<^verbatim>\<open>libcmfs/unix_io.c\<close>, \<^verbatim>\<open>memory.c\<close>): the channel is
    \<open>io_channel\<close>, with the device as a list of bytes; the locale \<open>block_cache\<close> is the contract of
    looking up, refreshing and admitting a block, which the transfers rest on.
  \<^item> \<open>Feature\<close> (\<^verbatim>\<open>libcmfs/feature_string.c\<close>), \<open>Device\<close> (\<^verbatim>\<open>getsize.c\<close>, \<^verbatim>\<open>getsectsize.c\<close>, \<^verbatim>\<open>ismounted.c\<close>).
  \<^item> \<open>Filesys\<close>: \<open>cmfs_filesys\<close> is the open file system (\<^verbatim>\<open>include/cmfs/cmfs.h\<close>); opening it (\<^verbatim>\<open>openfs.c\<close>),
    reading and writing metadata blocks (\<^verbatim>\<open>inode.c\<close>, \<^verbatim>\<open>extents.c\<close>, \<^verbatim>\<open>chain.c\<close>, \<^verbatim>\<open>dirblock.c\<close>,
    \<^verbatim>\<open>cached_inode.c\<close>, \<^verbatim>\<open>blockcheck.c\<close>).
  \<^item> \<open>Extents\<close>, \<open>Iteration\<close>, \<open>Extent_tree\<close>, \<open>Extent_search\<close>, \<open>File_map\<close> (\<^verbatim>\<open>extents.c\<close>, \<^verbatim>\<open>extent_tree.c\<close>,
    \<^verbatim>\<open>extent_map.c\<close>): the iterators, with the callbacks as arguments, and the extent map.
  \<^item> \<open>Fileio\<close>, \<open>File_read\<close>, \<open>File_properties\<close> (\<^verbatim>\<open>fileio.c\<close>); \<open>Directory\<close>, \<open>Dir_entries\<close>, \<open>Lookup\<close>
    (\<^verbatim>\<open>dir_iterate.c\<close>, \<^verbatim>\<open>lookup.c\<close>); \<open>Namei\<close> (\<^verbatim>\<open>namei.c\<close>).
  \<^item> \<open>Reading\<close>, \<open>Readonly\<close>: what operations leave unchanged; the locale \<open>calm_steps\<close> is a relation on
    states that composes, interpreted for the device, the file system and the session.
  \<^item> \<open>Mkfs_params\<close>, \<open>Mkfs_alloc\<close>, \<open>Mkfs_dir\<close>, \<open>Mkfs_format\<close> (\<^verbatim>\<open>mkfs.cmfs/mkfs.c\<close>, \<^verbatim>\<open>mkfs.h\<close>, \<^verbatim>\<open>check.c\<close>): the state
    \<open>mkfs_state\<close> is \<^verbatim>\<open>State\<close> with the records and directories in stores, known by numbers. The
    allocations of \<^verbatim>\<open>do_malloc\<close>, which ends the process when there is no memory, are taken to succeed;
    the \<^verbatim>\<open>memalign\<close> of a growing directory may fail, and then ends the process.
    \<open>Params_properties\<close>, \<open>Allocation\<close>, \<open>Mkfs_directory\<close>, \<open>Mkfs_lookup\<close>, \<open>Directory_properties\<close> and
    \<open>Superblock\<close> hold what is proved of them.
  \<^item> \<open>Debugfs_session\<close>, \<open>Debugfs_dump\<close>, \<open>Debugfs_commands\<close>, \<open>Debugfs_readonly\<close>, \<open>Debugfs_properties\<close>
    (\<^verbatim>\<open>debugfs.cmfs/\<close>): the state \<open>dbgfs_gbls\<close> is \<^verbatim>\<open>gbls\<close>; output is a list of events.
  \<^item> \<open>Percent\<close>, \<open>Progress\<close>, \<open>Progress_properties\<close>, \<open>Verbose\<close>, \<open>Messages\<close> (\<^verbatim>\<open>libtools-internal/progress.c\<close>,
    \<^verbatim>\<open>verbose.c\<close>, \<^verbatim>\<open>utils.c\<close>): the static variables are the records \<open>progress_state\<close> and
    \<open>verbose_state\<close>; the locale \<open>display_line\<close> is what messages ask of the bar: what clearing
    and restoring it prints.
    \<open>Scandisk\<close>, \<open>Scandisk_properties\<close> (\<^verbatim>\<open>scandisk.c\<close>): the list of devices is \<open>devlisthead\<close>, with a mark for pointers into freed memory.

  \<^bold>\<open>What is shown.\<close> Composition: the names that mkfs writes into a directory are found by
  \<^verbatim>\<open>cmfs_lookup\<close>, the superblock it writes is accepted by \<^verbatim>\<open>cmfs_open\<close>. Files: the extent map is the
  mapping that the extent tree describes, and \<^verbatim>\<open>cmfs_file_read\<close> returns the bytes of the file. The
  block cache: single, vectored and shared reads return what the device holds, writes are read back,
  and what a failed write leaves is stated exactly, as is what becomes of a request whose size
  does not fit into an \<^verbatim>\<open>int\<close>. The red-black tree: linking, removing, walking
  and emptying. Byte order: conversion and back, and the members it misses. Allocation: no cluster
  is given twice as long as no cluster belongs to two groups, which the groups of \<^verbatim>\<open>mkfs\<close> break when
  there are more than two; first fit, and where the search does not end. Sessions of debugfs without \<^verbatim>\<open>-w\<close>
  never change the device; a session runs its lines up to the first \<^verbatim>\<open>quit\<close>, closes the device and
  ends with the exit code 0, or 1 at the end of the input. The progress bar keeps within its buffer,
  a message is printed between clearing and restoring it, and the
  device scan finds exactly the block devices. Several properties state defects that the model
  shows: error paths that report success, loops that do not end, accesses outside a buffer.
  Properties about reading assume a quiet device (no failing call) where they say so; those of the
  cache hold for every script of failures.

  \<^bold>\<open>Not modelled.\<close> \<^verbatim>\<open>dumpcmfs/dumpcmfs.c\<close> does not compile (misspelt keywords and members, functions
  without a declaration or a body), so there is no program to model. The patches against a Linux
  kernel apply to a tree that is not part of the sources. Left out of modelled files: the lifting
  of the file-size limit for old kernels in \<^verbatim>\<open>io_open\<close>, the test programs under \<^verbatim>\<open>DEBUG_EXE\<close> other
  than the list of disks, the release of memory where nothing depends on it, the pager of debugfs
  and the part of \<^verbatim>\<open>dump_file\<close> that its first test makes unreachable. The headers \<^verbatim>\<open>kernel-list.h\<close> and
  \<^verbatim>\<open>jbd2.h\<close> come from the kernel; lists are lists here, and nothing uses the journal structures.
\<close>

end
